(* ===== verification/Retry.thy ===== *)
theory Retry
  imports Prelude
begin

text \<open>\<open>pkg/retry/src/lib.rs\<close>: the retry helper every outgoing call of the node goes
  through. Modelled: the policies, the exponential backoff and its jitter, the
  classification of statuses, transport errors and error texts, the HTTP retry loop
  (\<open>send_inner\<close>) and the generic loops \<open>with_backoff\<close> and \<open>blocking\<close>.

  What lies outside the crate is an argument: the answers of the transport or of the
  operation, how long each attempt takes, how much longer than asked a sleep lasts and
  the random words, all as functions of the attempt number. The loops return their result
  together with the times at which attempts started.\<close>

section \<open>Policies\<close>

record policy =
  pname :: string
  attempts :: nat
  first_delay :: duration
  max_delay :: duration
  deadline :: duration

definition policy_API :: policy where
  "policy_API = \<lparr>pname = ''apiserver'', attempts = 4, first_delay = millis 250,
     max_delay = secs 4, deadline = secs 60\<rparr>"

definition policy_ENGINE :: policy where
  "policy_ENGINE = \<lparr>pname = ''stormblock'', attempts = 5, first_delay = millis 250,
     max_delay = secs 5, deadline = secs 90\<rparr>"

definition policy_REGISTRY :: policy where
  "policy_REGISTRY = \<lparr>pname = ''registry'', attempts = 4, first_delay = millis 500,
     max_delay = secs 5, deadline = secs 60\<rparr>"

definition policy_PEER :: policy where
  "policy_PEER = \<lparr>pname = ''peer'', attempts = 3, first_delay = millis 500,
     max_delay = secs 4, deadline = secs 20\<rparr>"

definition policy_LOCAL :: policy where
  "policy_LOCAL = \<lparr>pname = ''local-rpc'', attempts = 4, first_delay = millis 200,
     max_delay = secs 2, deadline = secs 20\<rparr>"

definition named :: "policy \<Rightarrow> string \<Rightarrow> policy" where
  "named p n = p\<lparr>pname := n\<rparr>"

definition MAX_RETRY_AFTER :: duration where
  "MAX_RETRY_AFTER = secs 30"

definition backoff :: "policy \<Rightarrow> nat \<Rightarrow> duration" where
  "backoff p n = (let shift = min (n - 1) 20
                  in min (saturating_mul (first_delay p) (2 ^ shift)) (max_delay p))"

text \<open>\<open>r\<close> is the word the randomly keyed hasher yields.\<close>
definition jitter :: "64 word \<Rightarrow> duration \<Rightarrow> duration" where
  "jitter r d = (let half = d div 2; nanos = half mod 2 ^ 64
                 in if nanos = 0 then d else half + unat r mod (nanos + 1))"

definition delay :: "policy \<Rightarrow> 64 word \<Rightarrow> nat \<Rightarrow> duration" where
  "delay p r n = jitter r (backoff p n)"

section \<open>Classes\<close>

datatype failure_class = Infra | Real

definition class_as_str :: "failure_class \<Rightarrow> string" where
  "class_as_str c = (case c of Infra \<Rightarrow> ''infrastructure'' | Real \<Rightarrow> ''refused'')"

definition class_of_status :: "nat \<Rightarrow> failure_class option" where
  "class_of_status s =
     (if \<not> ((400 \<le> s \<and> s < 500) \<or> (500 \<le> s \<and> s < 600)) then None
      else Some (if s \<in> {408, 429, 500, 502, 503, 504} then Infra else Real))"

text \<open>A transport error, as the questions the code asks of it.\<close>
record transport_error =
  e_status :: "nat option"
  e_timeout :: bool
  e_connect :: bool
  e_request :: bool
  e_body :: bool

definition class_of_error :: "transport_error \<Rightarrow> failure_class" where
  "class_of_error e =
     (case e_status e of
        Some s \<Rightarrow> (case class_of_status s of None \<Rightarrow> Real | Some c \<Rightarrow> c)
      | None \<Rightarrow> if e_timeout e \<or> e_connect e \<or> e_request e \<or> e_body e then Infra else Real)"

datatype http_method = GET | HEAD | OPTIONS | PUT | DELETE | PATCH | POST | CONNECT | TRACE
  | Extension string

definition repeatable :: "http_method \<Rightarrow> bool" where
  "repeatable m = (case m of GET \<Rightarrow> True | HEAD \<Rightarrow> True | OPTIONS \<Rightarrow> True | PUT \<Rightarrow> True
     | DELETE \<Rightarrow> True | PATCH \<Rightarrow> True | _ \<Rightarrow> False)"

text \<open>A response: its status, and the \<open>Retry-After\<close> header when there is one whose value
  is visible ASCII.\<close>
record response =
  r_status :: nat
  r_retry_after :: "string option"

definition retry_after :: "response \<Rightarrow> duration option" where
  "retry_after r =
     (case r_retry_after r of
        None \<Rightarrow> None
      | Some v \<Rightarrow> (case parse_unsigned 64 (trim v) of
                     None \<Rightarrow> None
                   | Some s \<Rightarrow> Some (min (secs s) MAX_RETRY_AFTER)))"

definition class_of_message :: "string \<Rightarrow> failure_class" where
  "class_of_message m0 =
     (let m = to_ascii_lowercase m0;
          infra = [''timed out'', ''timeout'', ''connection refused'', ''connection reset'',
                   ''broken pipe'', ''error sending request'', ''error trying to connect'',
                   ''unexpected eof'', ''dns error'', '' 408'', '' 429'', '' 502'', '' 503'', '' 504'']
      in if list_ex (\<lambda>w. contains_str m w) infra \<or> starts_with m ''408'' \<or> starts_with m ''429''
            \<or> (starts_with m ''50'' \<and> \<not> starts_with m ''501'')
         then Infra else Real)"

section \<open>The HTTP loop\<close>

type_synonym http_result = "transport_error + response"

text \<open>What happens around the loop: the answer to each attempt, how long it took, the
  random word drawn for the delay after it, and by how much the sleep overran.\<close>
record 'r env =
  answer :: "nat \<Rightarrow> 'r"
  took :: "nat \<Rightarrow> duration"
  random :: "nat \<Rightarrow> 64 word"
  overrun :: "nat \<Rightarrow> duration"

text \<open>A request: whether it can be cloned (a stream body cannot), and its method when it
  builds.\<close>
record request =
  clonable :: bool
  built_method :: "http_method option"

text \<open>One pass of the loop after the answer \<open>r\<close> of attempt \<open>n\<close>: \<open>None\<close> hands the answer
  to the caller, \<open>Some d\<close> sleeps \<open>d\<close> and tries again. \<open>elapsed\<close> is the time since the
  first attempt.\<close>
definition retry_step ::
    "policy \<Rightarrow> bool \<Rightarrow> 64 word \<Rightarrow> nat \<Rightarrow> duration \<Rightarrow> http_result \<Rightarrow> duration option" where
  "retry_step p repeat rnd n elapsed r =
     (let verdict = (case r of
          Inr resp \<Rightarrow> (case class_of_status (r_status resp) of
              None \<Rightarrow> None
            | Some Real \<Rightarrow> None
            | Some Infra \<Rightarrow> Some (repeat \<or> r_status resp = 429, retry_after resp))
        | Inl e \<Rightarrow> (case class_of_error e of
              Real \<Rightarrow> None
            | Infra \<Rightarrow> Some (repeat \<or> e_connect e, None)))
      in case verdict of
           None \<Rightarrow> None
         | Some (retry_ok, wait) \<Rightarrow>
             if \<not> retry_ok then None
             else (let d = (case wait of Some w \<Rightarrow> w | None \<Rightarrow> delay p rnd n)
                   in if attempts p \<le> n \<or> deadline p < elapsed + d then None else Some d))"

text \<open>The loop from attempt \<open>n\<close>, started at time \<open>t\<close>: the final answer and the start
  times of the attempts made.\<close>
function send_loop ::
    "policy \<Rightarrow> bool \<Rightarrow> http_result env \<Rightarrow> nat \<Rightarrow> duration \<Rightarrow> http_result \<times> duration list" where
  "send_loop p repeat e n t =
     (let r = answer e n; elapsed = t + took e n
      in case retry_step p repeat (random e n) n elapsed r of
           None \<Rightarrow> (r, [t])
         | Some d \<Rightarrow> (let (r', ts) = send_loop p repeat e (Suc n) (elapsed + d + overrun e n)
                      in (r', t # ts)))"
  by pat_completeness auto
termination
  by (relation "measure (\<lambda>(p, rep, e, n, t). Suc (attempts p) - n)")
     (auto simp: retry_step_def Let_def split: sum.splits option.splits failure_class.splits if_splits)

declare send_loop.simps [simp del]

definition send_inner ::
    "request \<Rightarrow> policy \<Rightarrow> bool \<Rightarrow> http_result env \<Rightarrow> http_result \<times> duration list" where
  "send_inner req p repeatable_post e =
     (case (if clonable req then built_method req else None) of
        None \<Rightarrow> (answer e 1, [0])
      | Some m \<Rightarrow> send_loop p (repeatable_post \<or> repeatable m) e 1 0)"

definition send :: "request \<Rightarrow> policy \<Rightarrow> http_result env \<Rightarrow> http_result \<times> duration list" where
  "send req p e = send_inner req p False e"

definition send_repeatable ::
    "request \<Rightarrow> policy \<Rightarrow> http_result env \<Rightarrow> http_result \<times> duration list" where
  "send_repeatable req p e = send_inner req p True e"

section \<open>The generic loops\<close>

function with_backoff ::
    "policy \<Rightarrow> ('e \<Rightarrow> failure_class) \<Rightarrow> ('e + 't) env \<Rightarrow> nat \<Rightarrow> duration \<Rightarrow> ('e + 't) \<times> duration list" where
  "with_backoff p cls e n t =
     (case answer e n of
        Inr v \<Rightarrow> (Inr v, [t])
      | Inl x \<Rightarrow>
          if cls x = Real then (Inl x, [t])
          else (let d = delay p (random e n) n; elapsed = t + took e n
                in if attempts p \<le> n \<or> deadline p < elapsed + d then (Inl x, [t])
                   else (let (r, ts) = with_backoff p cls e (Suc n) (elapsed + d + overrun e n)
                         in (r, t # ts))))"
  by pat_completeness auto
termination
  by (relation "measure (\<lambda>(p, cls, e, n, t). Suc (attempts p) - n)") auto

declare with_backoff.simps [simp del]

function blocking ::
    "policy \<Rightarrow> ('e \<Rightarrow> failure_class) \<Rightarrow> ('e + 't) env \<Rightarrow> nat \<Rightarrow> duration \<Rightarrow> ('e + 't) \<times> duration list" where
  "blocking p cls e n t =
     (case answer e n of
        Inr v \<Rightarrow> (Inr v, [t])
      | Inl x \<Rightarrow>
          if cls x = Real then (Inl x, [t])
          else (let d = delay p (random e n) n; elapsed = t + took e n
                in if attempts p \<le> n \<or> deadline p < elapsed + d then (Inl x, [t])
                   else (let (r, ts) = blocking p cls e (Suc n) (elapsed + d + overrun e n)
                         in (r, t # ts))))"
  by pat_completeness auto
termination
  by (relation "measure (\<lambda>(p, cls, e, n, t). Suc (attempts p) - n)") auto

declare blocking.simps [simp del]

section \<open>Backoff and jitter\<close>

lemma jitter_bounds: "d div 2 \<le> jitter r d" "jitter r d \<le> d"
proof -
  let ?h = "d div 2" and ?n = "(d div 2) mod 2 ^ 64"
  have "unat r mod (?n + 1) \<le> ?n" by (simp add: less_Suc_eq_le [symmetric])
  also have "?n \<le> ?h" by simp
  finally have "?h + unat r mod (?n + 1) \<le> d" by linarith
  then show "d div 2 \<le> jitter r d" "jitter r d \<le> d"
    by (simp_all add: jitter_def Let_def)
qed

lemma backoff_le_max: "backoff p n \<le> max_delay p"
  by (simp add: backoff_def Let_def)

lemma backoff_mono:
  assumes "m \<le> n"
  shows "backoff p m \<le> backoff p n"
proof -
  have "(2::nat) ^ min (m - 1) 20 \<le> 2 ^ min (n - 1) 20"
    using assms by (intro power_increasing) auto
  then have "first_delay p * 2 ^ min (m - 1) 20 \<le> first_delay p * 2 ^ min (n - 1) 20"
    by (rule mult_le_mono2)
  then show ?thesis unfolding backoff_def saturating_mul_def Let_def by (intro min.mono order_refl)
qed

lemma delay_le_max: "delay p r n \<le> max_delay p"
  unfolding delay_def using jitter_bounds(2) backoff_le_max by (rule le_trans)

section \<open>Loops with a budget of attempts and of time\<close>

text \<open>What every retry loop promises of the start times it produces: each further attempt
  is within the budget of attempts, not before the previous one, and not later than the
  time limit plus what the sleep before it overran.\<close>
locale bounded_starts =
  fixes starts :: "nat \<Rightarrow> duration \<Rightarrow> duration list"
    and budget :: nat
    and limit :: duration
    and slack :: "nat \<Rightarrow> duration"
  assumes unfold_starts:
    "starts n t = [t] \<or>
     (\<exists>t'. n < budget \<and> t \<le> t' \<and> t' \<le> limit + slack n \<and> starts n t = t # starts (Suc n) t')"
begin

lemma starts_head: "\<exists>ts. starts n t = t # ts"
  using unfold_starts [of n t] by auto

lemma starts_length: "length (starts n t) \<le> Suc (budget - n)"
proof (induction "budget - n" arbitrary: n t)
  case 0
  then show ?case using unfold_starts [of n t] by auto
next
  case (Suc k)
  then have IH: "length (starts (Suc n) u) \<le> Suc (budget - Suc n)" for u by simp
  show ?case using unfold_starts [of n t] IH Suc.hyps(2) by (auto simp: Suc_diff_Suc le_SucI)
qed

lemma starts_sorted: "sorted (starts n t)"
proof (induction "budget - n" arbitrary: n t)
  case 0
  then show ?case using unfold_starts [of n t] by auto
next
  case (Suc k)
  then have IH: "sorted (starts (Suc n) u)" for u by simp
  show ?case
  proof (cases "starts n t = [t]")
    case False
    then obtain t' where t': "t \<le> t'" "starts n t = t # starts (Suc n) t'"
      using unfold_starts [of n t] by auto
    obtain ts where "starts (Suc n) t' = t' # ts" using starts_head by blast
    then show ?thesis using t' IH [of t'] by auto
  qed simp
qed

lemma starts_limit: "\<lbrakk>0 < i; i < length (starts n t)\<rbrakk> \<Longrightarrow> starts n t ! i \<le> limit + slack (n + i - 1)"
proof (induction i arbitrary: n t)
  case (Suc i)
  then obtain t' where t': "t' \<le> limit + slack n" "starts n t = t # starts (Suc n) t'"
    using unfold_starts [of n t] by auto
  show ?case
  proof (cases i)
    case 0
    obtain ts where "starts (Suc n) t' = t' # ts" using starts_head by blast
    then show ?thesis using t' 0 by simp
  next
    case (Suc j)
    then show ?thesis using Suc.IH [of "Suc n" t'] Suc.prems t' by simp
  qed
qed simp

end

lemma send_loop_unfold:
  "snd (send_loop p rep e n t) = [t] \<or>
   (\<exists>t'. n < attempts p \<and> t \<le> t' \<and> t' \<le> deadline p + overrun e n \<and>
         snd (send_loop p rep e n t) = t # snd (send_loop p rep e (Suc n) t'))"
proof (cases "retry_step p rep (random e n) n (t + took e n) (answer e n)")
  case None
  then show ?thesis by (subst send_loop.simps) (simp add: Let_def)
next
  case (Some d)
  then have "n < attempts p" "t + took e n + d \<le> deadline p"
    by (auto simp: retry_step_def Let_def split: sum.splits option.splits failure_class.splits if_splits)
  with Some show ?thesis
    by (intro disjI2 exI [of _ "t + took e n + d + overrun e n"])
       (subst (1) send_loop.simps, simp add: Let_def split: prod.splits)
qed

interpretation http: bounded_starts "\<lambda>n t. snd (send_loop p rep e n t)" "attempts p" "deadline p"
  "overrun e" for p rep e
  by unfold_locales (rule send_loop_unfold)

lemma with_backoff_unfold:
  "snd (with_backoff p cls e n t) = [t] \<or>
   (\<exists>t'. n < attempts p \<and> t \<le> t' \<and> t' \<le> deadline p + overrun e n \<and>
         snd (with_backoff p cls e n t) = t # snd (with_backoff p cls e (Suc n) t'))"
proof (cases "\<exists>x. answer e n = Inl x \<and> cls x = Infra \<and> n < attempts p
    \<and> t + took e n + delay p (random e n) n \<le> deadline p")
  case True
  then obtain x where x: "answer e n = Inl x" "cls x = Infra" "n < attempts p"
    "t + took e n + delay p (random e n) n \<le> deadline p" by blast
  let ?t' = "t + took e n + delay p (random e n) n + overrun e n"
  have "snd (with_backoff p cls e n t) = t # snd (with_backoff p cls e (Suc n) ?t')"
    using x by (subst with_backoff.simps) (simp add: Let_def split: prod.splits)
  with x show ?thesis by (intro disjI2 exI [of _ ?t']) simp
next
  case False
  then show ?thesis
    by (subst with_backoff.simps, subst (2) with_backoff.simps)
       (auto simp: Let_def not_less not_le split: sum.splits failure_class.splits, (metis failure_class.exhaust)?)
qed

interpretation generic: bounded_starts "\<lambda>n t. snd (with_backoff p cls e n t)" "attempts p"
  "deadline p" "overrun e" for p cls e
  by unfold_locales (rule with_backoff_unfold)

lemma blocking_is_with_backoff: "blocking p cls e n t = with_backoff p cls e n t"
proof (induction p cls e n t rule: blocking.induct)
  case (1 p cls e n t)
  show ?case
    by (subst blocking.simps, subst with_backoff.simps)
       (auto simp: Let_def 1 not_less not_le split: sum.split prod.split)
qed

section \<open>What an answer allows\<close>

text \<open>The class of an answer: \<open>None\<close> for a success.\<close>
definition class_of_result :: "http_result \<Rightarrow> failure_class option" where
  "class_of_result r =
     (case r of Inr resp \<Rightarrow> class_of_status (r_status resp) | Inl e \<Rightarrow> Some (class_of_error e))"

text \<open>The answers after which even a request that must not be applied twice may be sent
  again: it was refused unread (429), or never left (no connection).\<close>
definition not_applied :: "http_result \<Rightarrow> bool" where
  "not_applied r = (case r of Inr resp \<Rightarrow> r_status resp = 429 | Inl e \<Rightarrow> e_connect e)"

text \<open>The delay asked after an answer: what the server says, else the jittered backoff.\<close>
definition asked_delay :: "policy \<Rightarrow> 64 word \<Rightarrow> nat \<Rightarrow> http_result \<Rightarrow> duration" where
  "asked_delay p rnd n r =
     (case r of
        Inr resp \<Rightarrow> (case retry_after resp of Some w \<Rightarrow> w | None \<Rightarrow> delay p rnd n)
      | Inl e \<Rightarrow> delay p rnd n)"

lemma retry_step_Some_iff:
  "retry_step p rep rnd n el r = Some d \<longleftrightarrow>
     class_of_result r = Some Infra \<and> (rep \<or> not_applied r) \<and> n < attempts p
     \<and> d = asked_delay p rnd n r \<and> el + d \<le> deadline p"
  by (auto simp: retry_step_def class_of_result_def not_applied_def asked_delay_def Let_def
      split: sum.splits option.splits failure_class.splits)

lemma retry_step_None_iff:
  "retry_step p rep rnd n el r = None \<longleftrightarrow>
     \<not> (class_of_result r = Some Infra \<and> (rep \<or> not_applied r) \<and> n < attempts p
        \<and> el + asked_delay p rnd n r \<le> deadline p)"
  using retry_step_Some_iff [of p rep rnd n el r "asked_delay p rnd n r"]
    retry_step_Some_iff [of p rep rnd n el r]
  by (cases "retry_step p rep rnd n el r") auto

lemma send_loop_cases:
  obtains (stop) "send_loop p rep e n t = (answer e n, [t])"
      "retry_step p rep (random e n) n (t + took e n) (answer e n) = None"
  | (again) d r ts where
      "retry_step p rep (random e n) n (t + took e n) (answer e n) = Some d"
      "send_loop p rep e (Suc n) (t + took e n + d + overrun e n) = (r, ts)"
      "send_loop p rep e n t = (r, t # ts)"
proof (cases "retry_step p rep (random e n) n (t + took e n) (answer e n)")
  case None
  then show thesis by (intro stop) (subst send_loop.simps, simp add: Let_def)+
next
  case (Some d)
  obtain r ts where rts: "send_loop p rep e (Suc n) (t + took e n + d + overrun e n) = (r, ts)"
    by (cases "send_loop p rep e (Suc n) (t + took e n + d + overrun e n)")
  with Some have "send_loop p rep e n t = (r, t # ts)"
    by (subst send_loop.simps) (simp add: Let_def)
  with Some rts show thesis by (rule again)
qed

lemma send_loop_result:
  assumes "send_loop p rep e n t = (r, ts)"
  shows "r = answer e (n + length ts - 1)"
    and "\<And>i. Suc i < length ts \<Longrightarrow>
           class_of_result (answer e (n + i)) = Some Infra \<and> (rep \<or> not_applied (answer e (n + i)))"
proof -
  have "r = answer e (n + length ts - 1) \<and> (\<forall>i. Suc i < length ts \<longrightarrow>
           class_of_result (answer e (n + i)) = Some Infra \<and> (rep \<or> not_applied (answer e (n + i))))"
    using assms
  proof (induction "attempts p - n" arbitrary: n t ts)
    case 0
    then have "\<not> n < attempts p" by simp
    with 0 show ?case
      by (cases rule: send_loop_cases [of p rep e n t]) (auto simp: retry_step_Some_iff)
  next
    case (Suc k)
    show ?case
    proof (cases rule: send_loop_cases [of p rep e n t])
      case (again d r' ts')
      have "k = attempts p - Suc n" using Suc.hyps(2) by simp
      moreover have rr: "r' = r" using again(3) Suc.prems by auto
      ultimately have IH: "r' = answer e (Suc n + length ts' - 1)"
        "\<And>i. Suc i < length ts' \<Longrightarrow> class_of_result (answer e (Suc n + i)) = Some Infra
               \<and> (rep \<or> not_applied (answer e (Suc n + i)))"
        using Suc.hyps(1) [of "Suc n"] again(2) by auto
      have "ts' \<noteq> []" using again(2) http.starts_head [of p rep e "Suc n"] by (metis snd_conv neq_Nil_conv)
      have ts: "r' = r" "ts = t # ts'" using again(3) Suc.prems by auto
      have "class_of_result (answer e (n + i)) = Some Infra \<and> (rep \<or> not_applied (answer e (n + i)))"
        if "Suc i < length ts" for i
        using that IH(2) again(1) ts by (cases i) (auto simp: retry_step_Some_iff)
      then show ?thesis using IH(1) ts \<open>ts' \<noteq> []\<close> by (cases ts') auto
    next
      case stop
      then show ?thesis using Suc.prems by auto
    qed
  qed
  then show "r = answer e (n + length ts - 1)"
    and "\<And>i. Suc i < length ts \<Longrightarrow>
           class_of_result (answer e (n + i)) = Some Infra \<and> (rep \<or> not_applied (answer e (n + i)))"
    by auto
qed

text \<open>Why a run stopped where it did.\<close>
lemma send_loop_stops:
  assumes "send_loop p rep e n t = (r, ts)" and "ts \<noteq> []"
  shows "let m = n + length ts - 1 in
    class_of_result (answer e m) \<noteq> Some Infra \<or> \<not> (rep \<or> not_applied (answer e m)) \<or> attempts p \<le> m
    \<or> deadline p < last ts + took e m + asked_delay p (random e m) m (answer e m)"
  using assms
proof (induction "attempts p - n" arbitrary: n t ts)
  case 0
  then have "\<not> n < attempts p" by simp
  with 0 show ?case
    by (cases rule: send_loop_cases [of p rep e n t]) (auto simp: retry_step_Some_iff)
next
  case (Suc k)
  show ?case
  proof (cases rule: send_loop_cases [of p rep e n t])
    case (again d r' ts')
    have "ts' \<noteq> []" using again(2) http.starts_head [of p rep e "Suc n"] by (metis snd_conv neq_Nil_conv)
    moreover have "k = attempts p - Suc n" using Suc.hyps(2) by simp
    ultimately show ?thesis using Suc.hyps(1) [of "Suc n"] again Suc.prems by (auto simp: Let_def)
  next
    case stop
    then show ?thesis using Suc.prems by (auto simp: retry_step_None_iff not_less not_le)
  qed
qed

section \<open>When the generic loop succeeds\<close>

text \<open>Time spent, at most, by \<open>k\<close> attempts from the \<open>n\<close>-th on.\<close>
fun worst_time :: "policy \<Rightarrow> 'r env \<Rightarrow> nat \<Rightarrow> nat \<Rightarrow> duration" where
  "worst_time p e n 0 = 0"
| "worst_time p e n (Suc k) = took e n + max_delay p + overrun e n + worst_time p e (Suc n) k"

lemma with_backoff_reaches:
  assumes "\<And>i. i < k \<Longrightarrow> \<exists>x. answer e (n + i) = Inl x \<and> cls x = Infra"
    and "answer e (n + k) = Inr v"
    and "n + k \<le> attempts p" and "t + worst_time p e n k \<le> deadline p"
  shows "fst (with_backoff p cls e n t) = Inr v \<and> length (snd (with_backoff p cls e n t)) = Suc k"
  using assms
proof (induction k arbitrary: n t)
  case 0
  then show ?case by (subst (1 2) with_backoff.simps) simp
next
  case (Suc k)
  obtain x where x: "answer e n = Inl x" "cls x = Infra" using Suc.prems(1) [of 0] by auto
  let ?d = "delay p (random e n) n"
  have d: "?d \<le> max_delay p" by (rule delay_le_max)
  then have now: "\<not> (attempts p \<le> n \<or> deadline p < t + took e n + ?d)" using Suc.prems(3,4) by simp
  let ?t = "t + took e n + ?d + overrun e n"
  have "\<exists>x. answer e (Suc n + i) = Inl x \<and> cls x = Infra" if "i < k" for i
    using Suc.prems(1) [of "Suc i"] that by simp
  moreover have "?t + worst_time p e (Suc n) k \<le> deadline p" using Suc.prems(4) d by simp
  ultimately have "fst (with_backoff p cls e (Suc n) ?t) = Inr v
      \<and> length (snd (with_backoff p cls e (Suc n) ?t)) = Suc k"
    using Suc.IH [of "Suc n" ?t] Suc.prems(2,3) by simp
  then show ?case using x now
    by (subst (1 2) with_backoff.simps) (auto simp: Let_def split: prod.splits)
qed

section \<open>Properties\<close>

text \<open>A server that answers 503 to everything.\<close>
definition always_busy :: "http_result env" where
  "always_busy = \<lparr>answer = \<lambda>_. Inr \<lparr>r_status = 503, r_retry_after = Some '' 2 ''\<rparr>,
     took = \<lambda>_. millis 10, random = \<lambda>_. 7, overrun = \<lambda>_. millis 1\<rparr>"

text \<open>C34. Every HTTP call is made within its policy's budget: at least once and at most
  \<open>attempts\<close> times, at non-decreasing times, and no attempt after the first starts later
  than the deadline plus what the sleep before it overran, whatever the server answers and
  however long it takes.\<close>
theorem send_within_budget:
  "let ts = snd (send_inner req p rp e)
   in ts \<noteq> [] \<and> hd ts = 0 \<and> length ts \<le> max 1 (attempts p) \<and> sorted ts
      \<and> (\<forall>i\<in>{1..<length ts}. ts ! i \<le> deadline p + overrun e i)"
proof (cases "if clonable req then built_method req else None")
  case None
  then show ?thesis by (simp add: send_inner_def Let_def)
next
  case (Some m)
  let ?rep = "rp \<or> repeatable m"
  obtain ts where ts: "snd (send_loop p ?rep e 1 0) = 0 # ts" using http.starts_head by blast
  have "length (0 # ts) \<le> Suc (attempts p - 1)" "sorted (0 # ts)"
    using http.starts_length [of p ?rep e 1 0] http.starts_sorted [of p ?rep e 1 0] ts by auto
  moreover have "(0 # ts) ! i \<le> deadline p + overrun e i" if "i \<in> {1..<length (0 # ts)}" for i
    using http.starts_limit [of i p ?rep e 1 0] that ts by auto
  ultimately show ?thesis using Some ts by (simp add: send_inner_def Let_def)
qed

lemma send_within_budget_witness:
  "length (snd (send_inner \<lparr>clonable = True, built_method = Some GET\<rparr> policy_API False always_busy)) \<le> 4
   \<and> snd (send_inner \<lparr>clonable = True, built_method = Some GET\<rparr> policy_API False always_busy) ! 3
       \<le> secs 60 + millis 1"
proof -
  let ?ts = "snd (send_inner \<lparr>clonable = True, built_method = Some GET\<rparr> policy_API False always_busy)"
  have "length ?ts = 4" by code_simp
  then show ?thesis
    using send_within_budget [of "\<lparr>clonable = True, built_method = Some GET\<rparr>" policy_API False always_busy]
    by (auto simp: Let_def policy_API_def always_busy_def)
qed

text \<open>C27. A request that must not be applied twice (a POST given to \<open>send\<close>) is sent again
  only after an answer that proves the previous attempt was not applied: a 429, or a
  connection that was never made.\<close>
theorem post_not_repeated_blindly:
  assumes "built_method req = Some POST" and "Suc i < length (snd (send req p e))"
  shows "not_applied (answer e (Suc i)) \<and> class_of_result (answer e (Suc i)) = Some Infra"
proof -
  have c: "clonable req"
    using assms(2) by (cases "clonable req") (auto simp: send_def send_inner_def)
  obtain r ts where rts: "send_loop p False e 1 0 = (r, ts)" by (cases "send_loop p False e 1 0")
  then have "send req p e = (r, ts)"
    using assms(1) c by (simp add: send_def send_inner_def repeatable_def)
  with assms(2) send_loop_result(2) [OF rts, of i] show ?thesis by simp
qed

text \<open>A server that refuses the first connection.\<close>
definition starting_up :: "http_result env" where
  "starting_up = \<lparr>answer = (\<lambda>n. if n = 1
       then Inl \<lparr>e_status = None, e_timeout = False, e_connect = True, e_request = True, e_body = False\<rparr>
       else Inr \<lparr>r_status = 500, r_retry_after = None\<rparr>),
     took = \<lambda>_. millis 10, random = \<lambda>_. 7, overrun = \<lambda>_. 0\<rparr>"

lemma post_not_repeated_blindly_witness:
  "length (snd (send \<lparr>clonable = True, built_method = Some POST\<rparr> policy_API starting_up)) = 2
   \<and> not_applied (answer starting_up 1)"
proof -
  have "length (snd (send \<lparr>clonable = True, built_method = Some POST\<rparr> policy_API starting_up)) = 2"
    by code_simp
  then show ?thesis
    using post_not_repeated_blindly [of "\<lparr>clonable = True, built_method = Some POST\<rparr>" 0 policy_API starting_up]
    by simp
qed

text \<open>The call returns exactly the answer of its last attempt; every earlier answer was
  a transient failure, so a success or a real refusal is never asked again; and it stops on a
  transient failure only when repeating is not allowed, the attempts are used up, or the
  next one would start past the deadline.\<close>
theorem send_returns_last_answer:
  assumes "clonable req" and "built_method req = Some m" and "send_inner req p rp e = (r, ts)"
  shows "r = answer e (length ts)
    \<and> (\<forall>i\<in>{1..<length ts}. class_of_result (answer e i) = Some Infra)
    \<and> (class_of_result r = Some Infra \<longrightarrow>
         \<not> (rp \<or> repeatable m \<or> not_applied r) \<or> attempts p \<le> length ts
         \<or> deadline p < last ts + took e (length ts)
             + asked_delay p (random e (length ts)) (length ts) r)"
proof -
  have l: "send_loop p (rp \<or> repeatable m) e 1 0 = (r, ts)"
    using assms by (simp add: send_inner_def)
  have ne: "ts \<noteq> []" using l http.starts_head [of p "rp \<or> repeatable m" e 1 0] by auto
  have r: "r = answer e (length ts)" using send_loop_result(1) [OF l] ne by (cases ts) auto
  have "class_of_result (answer e i) = Some Infra" if "i \<in> {1..<length ts}" for i
    using send_loop_result(2) [OF l, of "i - 1"] that by auto
  then show ?thesis using send_loop_stops [OF l ne] r by (auto simp: Let_def)
qed

lemma send_returns_last_answer_witness:
  "\<exists>r ts. send_inner \<lparr>clonable = True, built_method = Some PUT\<rparr> policy_API False starting_up = (r, ts)
     \<and> r = Inr \<lparr>r_status = 500, r_retry_after = None\<rparr> \<and> length ts = 4"
proof -
  obtain r ts where rts:
    "send_inner \<lparr>clonable = True, built_method = Some PUT\<rparr> policy_API False starting_up = (r, ts)"
    by (cases "send_inner \<lparr>clonable = True, built_method = Some PUT\<rparr> policy_API False starting_up")
  have "length (snd (send_inner \<lparr>clonable = True, built_method = Some PUT\<rparr> policy_API False starting_up)) = 4"
    by code_simp
  with rts send_returns_last_answer [OF _ _ rts, of PUT] show ?thesis
    by (auto simp: starting_up_def)
qed

text \<open>The delay before the next attempt lies between half the backoff and the backoff,
  which never decreases with the attempt number and never exceeds the policy's maximum.\<close>
theorem delay_in_range:
  "backoff p n div 2 \<le> delay p r n \<and> delay p r n \<le> backoff p n \<and> backoff p n \<le> max_delay p
   \<and> backoff p n \<le> backoff p (n + k)"
  unfolding delay_def using jitter_bounds backoff_le_max backoff_mono [of n "n + k"] by simp

text \<open>\<open>with_backoff\<close> (and \<open>blocking\<close>, which computes the same) succeeds when the
  operation does: if the first \<open>k\<close> tries fail transiently, the next succeeds, the policy
  allows that many attempts and their worst case fits its deadline, the value is returned
  after exactly \<open>k + 1\<close> attempts.\<close>
theorem with_backoff_succeeds:
  assumes "\<forall>i\<in>{1..k}. \<exists>x. answer e i = Inl x \<and> cls x = Infra"
    and "answer e (Suc k) = Inr v"
    and "Suc k \<le> attempts p" and "worst_time p e 1 k \<le> deadline p"
  shows "fst (with_backoff p cls e 1 0) = Inr v \<and> length (snd (with_backoff p cls e 1 0)) = Suc k
    \<and> blocking p cls e 1 0 = with_backoff p cls e 1 0"
  using with_backoff_reaches [of k e 1 cls v p 0] assms by (simp add: blocking_is_with_backoff)

text \<open>A plugin that is away for two calls.\<close>
definition restarting :: "(string + nat) env" where
  "restarting = \<lparr>answer = (\<lambda>n. if n \<le> 2 then Inl ''timed out'' else Inr 5),
     took = \<lambda>_. millis 10, random = \<lambda>_. 7, overrun = \<lambda>_. 0\<rparr>"

lemma with_backoff_succeeds_witness:
  "fst (with_backoff policy_LOCAL class_of_message restarting 1 0) = Inr (5::nat)"
proof -
  have "\<forall>i\<in>{1..2}. \<exists>x. answer restarting i = Inl x \<and> class_of_message x = Infra"
    by (auto simp: restarting_def intro!: exI [of _ "''timed out''"]) code_simp+
  moreover have "worst_time policy_LOCAL restarting 1 2 \<le> deadline policy_LOCAL" by code_simp
  ultimately show ?thesis
    using with_backoff_succeeds [of 2 restarting class_of_message 5 policy_LOCAL]
    by (simp add: restarting_def policy_LOCAL_def)
qed

end
