(* ===== verification/Workload.thy ===== *)
theory Workload
  imports Json
begin

text \<open>\<open>pkg/kubelet/src/workload.rs\<close>: workload identities and their dependencies, the
  volume index, the admission table (\<open>Reservations\<close>) that keeps two workloads off one
  claim, and the executor that queues passes over desired state.

  A \<open>HashMap\<close> is a map, or an association list in its iteration order where the code
  iterates over it. The work queue belongs to another crate: an operation that adds keys to
  it returns them.\<close>

section \<open>Identities\<close>

datatype kind = Pod | VirtualMachine

record key =
  key_kind :: kind
  key_namespace :: string
  key_name :: string
  key_uid :: string

datatype resource = RName kind string string | RClaim string string

datatype dependency = DClaim string string | DImage string | DDriver string

datatype key_error = NoName | NoUid

definition nonempty_str :: "json \<Rightarrow> string option" where
  "nonempty_str v = (case as_str v of Some s \<Rightarrow> if s = [] then None else Some s | None \<Rightarrow> None)"

definition key_of :: "kind \<Rightarrow> json \<Rightarrow> key_error + key" where
  "key_of k obj =
     (let metadata = jget obj ''metadata''
      in case nonempty_str (jget metadata ''name'') of
           None \<Rightarrow> Inl NoName
         | Some n \<Rightarrow>
             (case nonempty_str (jget metadata ''uid'') of
                None \<Rightarrow> Inl NoUid
              | Some u \<Rightarrow> Inr \<lparr>key_kind = k, key_namespace = str_or ''default'' (jget metadata ''namespace''),
                               key_name = n, key_uid = u\<rparr>))"

definition opt_set :: "'a option \<Rightarrow> 'a set" where
  "opt_set x = (case x of None \<Rightarrow> {} | Some a \<Rightarrow> {a})"

definition volume_deps :: "key \<Rightarrow> json \<Rightarrow> dependency set" where
  "volume_deps k v =
     opt_set (map_option (DClaim (key_namespace k)) (as_str (jpath v [''persistentVolumeClaim'', ''claimName''])))
   \<union> (if \<not> is_null (jget v ''ephemeral'')
      then opt_set (map_option (\<lambda>n. DClaim (key_namespace k) (key_name k @ ''-'' @ n)) (as_str (jget v ''name'')))
      else {})
   \<union> opt_set (map_option DDriver (as_str (jpath v [''csi'', ''driver''])))
   \<union> opt_set (map_option DImage (as_str (jpath v [''containerDisk'', ''image''])))
   \<union> opt_set (map_option DImage (as_str (jpath v [''dataVolume'', ''name''])))"

definition dependencies :: "key \<Rightarrow> json \<Rightarrow> dependency set" where
  "dependencies k obj =
     \<Union> (set (map (volume_deps k) (elems (jpath obj [''spec'', ''volumes'']))))
   \<union> \<Union> (set (map (\<lambda>f. \<Union> (set (map (\<lambda>c. opt_set (map_option DImage (as_str (jget c ''image''))))
                                 (elems (jpath obj [''spec'', f])))))
              [''containers'', ''initContainers'']))"

section \<open>The volume index\<close>

type_synonym vkey = "string \<times> string"

record volume_index =
  vi_observed :: "(vkey \<times> json) list"
  vi_users :: "(vkey \<times> dependency set) list"

text \<open>\<open>users.entry(k).or_default()\<close>, then \<open>insert(d)\<close>.\<close>
definition add_user :: "vkey \<Rightarrow> dependency \<Rightarrow> (vkey \<times> dependency set) list \<Rightarrow> (vkey \<times> dependency set) list" where
  "add_user k d us = AList.update k (insert d (case map_of us k of Some s \<Rightarrow> s | None \<Rightarrow> {})) us"

definition index_claim :: "json \<Rightarrow> volume_index \<Rightarrow> volume_index" where
  "index_claim c ix =
     (let ns = str_or ''default'' (jpath c [''metadata'', ''namespace''])
      in case as_str (jpath c [''metadata'', ''name'']) of
           None \<Rightarrow> ix
         | Some n \<Rightarrow>
             (let d = DClaim ns n; k = (''claim'', ns @ ''/'' @ n);
                  us = add_user k d (vi_users ix)
              in \<lparr>vi_observed = AList.update k c (vi_observed ix),
                  vi_users = (case as_str (jpath c [''spec'', ''volumeName'']) of
                     Some v \<Rightarrow> add_user (''volume'', v) d us | None \<Rightarrow> us)\<rparr>))"

definition index_volume :: "json \<Rightarrow> volume_index \<Rightarrow> volume_index" where
  "index_volume v ix =
     (case as_str (jpath v [''metadata'', ''name'']) of
        None \<Rightarrow> ix
      | Some n \<Rightarrow>
          \<lparr>vi_observed = AList.update (''volume'', n) v (vi_observed ix),
           vi_users = (case (as_str (jpath v [''spec'', ''claimRef'', ''namespace'']),
                          as_str (jpath v [''spec'', ''claimRef'', ''name''])) of
              (Some ns, Some c) \<Rightarrow> add_user (''volume'', n) (DClaim ns c) (vi_users ix)
            | _ \<Rightarrow> vi_users ix)\<rparr>)"

definition index_attachment :: "json \<Rightarrow> volume_index \<Rightarrow> volume_index" where
  "index_attachment a ix =
     (case (as_str (jpath a [''metadata'', ''name'']),
            as_str (jpath a [''spec'', ''source'', ''persistentVolumeName''])) of
        (Some n, Some v) \<Rightarrow>
          \<lparr>vi_observed = AList.update (''attachment'', n) a (vi_observed ix),
           vi_users = AList.update (''attachment'', n)
             (case map_of (vi_users ix) (''volume'', v) of Some s \<Rightarrow> s | None \<Rightarrow> {}) (vi_users ix)\<rparr>
      | _ \<Rightarrow> ix)"

definition index_of :: "json list \<Rightarrow> json list \<Rightarrow> json list \<Rightarrow> volume_index" where
  "index_of claims volumes attachments =
     fold index_attachment attachments (fold index_volume volumes (fold index_claim claims
       \<lparr>vi_observed = [], vi_users = []\<rparr>))"

definition users_at :: "volume_index \<Rightarrow> vkey \<Rightarrow> dependency set" where
  "users_at ix k = (case map_of (vi_users ix) k of Some s \<Rightarrow> s | None \<Rightarrow> {})"

definition index_update ::
    "volume_index \<Rightarrow> json list \<Rightarrow> json list \<Rightarrow> json list \<Rightarrow> volume_index \<times> dependency set" where
  "index_update old claims volumes attachments =
     (let new = index_of claims volumes attachments;
          changed = \<Union> (set (map (\<lambda>k.
             if map_of (vi_observed new) k \<noteq> map_of (vi_observed old) k \<or> map_of (vi_users new) k \<noteq> map_of (vi_users old) k
             then users_at new k \<union> users_at old k else {})
             (map fst (vi_observed new) @ map fst (vi_observed old))))
      in (new, changed))"

section \<open>What the index reports\<close>

lemma users_at_add_user:
  "map_of (add_user k d us) k' = (if k' = k then Some (insert d (case map_of us k of Some s \<Rightarrow> s | None \<Rightarrow> {}))
     else map_of us k')"
  by (simp add: add_user_def update_conv')

lemma users_at_index_claim: "users_at ix k \<subseteq> users_at (index_claim c ix) k"
  by (cases "as_str (jpath c [''metadata'', ''name''])"; cases "as_str (jpath c [''spec'', ''volumeName''])")
     (simp_all add: users_at_def index_claim_def users_at_add_user Let_def split: option.split, auto)

lemma users_at_index_volume: "users_at ix k \<subseteq> users_at (index_volume w ix) k"
  by (cases "as_str (jpath w [''metadata'', ''name''])";
      cases "as_str (jpath w [''spec'', ''claimRef'', ''namespace''])";
      cases "as_str (jpath w [''spec'', ''claimRef'', ''name''])")
     (simp_all add: users_at_def index_volume_def users_at_add_user split: option.split, auto)

lemma users_at_index_attachment:
  "fst k \<noteq> ''attachment'' \<Longrightarrow> users_at (index_attachment a ix) k = users_at ix k"
  by (cases "as_str (jpath a [''metadata'', ''name''])";
      cases "as_str (jpath a [''spec'', ''source'', ''persistentVolumeName''])")
     (auto simp add: users_at_def index_attachment_def update_conv' simp del: list.inject)

lemma users_at_folds:
  "users_at ix k \<subseteq> users_at (fold index_claim cs ix) k"
  "users_at ix k \<subseteq> users_at (fold index_volume vs ix) k"
  "fst k \<noteq> ''attachment'' \<Longrightarrow> users_at (fold index_attachment as ix) k = users_at ix k"
proof -
  show "users_at ix k \<subseteq> users_at (fold index_claim cs ix) k"
    by (induction cs arbitrary: ix) (simp, metis (no_types) fold_simps(2) subset_trans users_at_index_claim)
  show "users_at ix k \<subseteq> users_at (fold index_volume vs ix) k"
    by (induction vs arbitrary: ix) (simp, metis (no_types) fold_simps(2) subset_trans users_at_index_volume)
  show "users_at (fold index_attachment as ix) k = users_at ix k" if "fst k \<noteq> ''attachment''"
    using that by (induction as arbitrary: ix) (simp_all add: users_at_index_attachment)
qed

lemma claim_uses_volume:
  assumes "c \<in> set cs" "as_str (jpath c [''metadata'', ''name'']) = Some n"
    "as_str (jpath c [''spec'', ''volumeName'']) = Some v"
  shows "DClaim (str_or ''default'' (jpath c [''metadata'', ''namespace''])) n
           \<in> users_at (fold index_claim cs ix) (''volume'', v)"
  using assms(1)
proof (induction cs arbitrary: ix)
  case (Cons c' cs)
  show ?case
  proof (cases "c = c'")
    case True
    have "DClaim (str_or ''default'' (jpath c [''metadata'', ''namespace''])) n
        \<in> users_at (index_claim c ix) (''volume'', v)"
      using assms(2,3) by (simp add: index_claim_def users_at_def users_at_add_user Let_def)
    then show ?thesis
      using True users_at_folds(1) [of "index_claim c ix" "(''volume'', v)" cs] by auto
  next
    case False
    then show ?thesis using Cons by simp
  qed
qed simp

lemma users_of_changed:
  assumes "k \<in> set (map fst (vi_observed (index_of cs vs as)) @ map fst (vi_observed old))"
    and "map_of (vi_observed (index_of cs vs as)) k \<noteq> map_of (vi_observed old) k"
  shows "users_at (index_of cs vs as) k \<subseteq> snd (index_update old cs vs as)"
proof -
  let ?new = "index_of cs vs as"
  let ?f = "\<lambda>k. if map_of (vi_observed ?new) k \<noteq> map_of (vi_observed old) k
      \<or> map_of (vi_users ?new) k \<noteq> map_of (vi_users old) k then users_at ?new k \<union> users_at old k else {}"
  have "snd (index_update old cs vs as)
      = \<Union> (?f ` set (map fst (vi_observed ?new) @ map fst (vi_observed old)))"
    by (simp only: index_update_def Let_def snd_conv set_map)
  moreover have "users_at ?new k \<subseteq> ?f k" using assms(2) by simp
  ultimately show ?thesis using assms(1) by blast
qed

text \<open>A notification about a volume reaches the pods behind it: when the snapshot shows
  a volume bound by a claim as new, changed or gone, \<open>update\<close> reports that claim; and a
  snapshot equal to the previous one reports nothing.\<close>
theorem volume_change_reaches_claim:
  assumes "c \<in> set claims" and "as_str (jpath c [''metadata'', ''name'']) = Some n"
    and "as_str (jpath c [''spec'', ''volumeName'']) = Some v"
    and "map_of (vi_observed (fst (index_update old claims volumes atts))) (''volume'', v)
           \<noteq> map_of (vi_observed old) (''volume'', v)"
  shows "DClaim (str_or ''default'' (jpath c [''metadata'', ''namespace''])) n
           \<in> snd (index_update old claims volumes atts)
    \<and> snd (index_update (fst (index_update old claims volumes atts)) claims volumes atts) = {}"
proof -
  let ?new = "index_of claims volumes atts" and ?k = "(''volume'', v)"
  have "users_at ?new ?k = users_at (fold index_volume volumes
      (fold index_claim claims \<lparr>vi_observed = [], vi_users = []\<rparr>)) ?k"
    unfolding index_of_def by (rule users_at_folds(3)) simp
  then have "DClaim (str_or ''default'' (jpath c [''metadata'', ''namespace''])) n \<in> users_at ?new ?k"
    using claim_uses_volume [OF assms(1-3)] users_at_folds(2) by blast
  moreover have "?k \<in> set (map fst (vi_observed ?new) @ map fst (vi_observed old))"
    using assms(4) by (auto simp: index_update_def Let_def) (metis map_of_eq_None_iff)
  ultimately have "DClaim (str_or ''default'' (jpath c [''metadata'', ''namespace''])) n
      \<in> snd (index_update old claims volumes atts)"
    using assms(4) users_of_changed [of ?k claims volumes atts old]
    by (auto simp only: index_update_def Let_def fst_conv)
  then show ?thesis by (simp add: index_update_def Let_def)
qed

definition ex_claim :: json where
  "ex_claim = JObj [(''metadata'', JObj [(''name'', JStr ''data''), (''namespace'', JStr ''shop'')]),
     (''spec'', JObj [(''volumeName'', JStr ''pv-1'')])]"

definition ex_volume :: json where
  "ex_volume = JObj [(''metadata'', JObj [(''name'', JStr ''pv-1'')])]"

lemma volume_change_reaches_claim_witness:
  "DClaim ''shop'' ''data'' \<in> snd (index_update \<lparr>vi_observed = [], vi_users = []\<rparr> [ex_claim] [ex_volume] [])"
  using volume_change_reaches_claim [where c = ex_claim and claims = "[ex_claim]" and n = "''data''"
      and v = "''pv-1''" and volumes = "[ex_volume]" and atts = "[]"
      and old = "\<lparr>vi_observed = [], vi_users = []\<rparr>"]
  by (simp add: ex_claim_def ex_volume_def json_simps index_update_def index_of_def index_claim_def
      index_volume_def add_user_def Let_def)

end
