(* ===== verification/Reservations.thy ===== *)
theory Reservations
  imports Workload
begin

text \<open>The admission table of \<open>pkg/kubelet/src/workload.rs\<close> (\<open>Admissions\<close>, \<open>Reservations\<close>):
  who holds each workload name and claim and how, who waits for it, and which claims have a
  mutation running. One lock covers every operation, so each is one step.\<close>

datatype access = SharedFilesystem | Exclusive

type_synonym claims = "(resource \<times> access) list"

text \<open>\<open>holders r\<close> and \<open>owned k\<close> are empty where the code's maps have no entry;
  \<open>operations\<close> is the set of resources whose mutex is locked.\<close>
record admissions =
  holders :: "resource \<Rightarrow> (key \<times> access) list"
  owned :: "key \<Rightarrow> resource set"
  waiting :: "resource \<Rightarrow> key set"
  operations :: "resource set"

definition admissions_new :: admissions where
  "admissions_new = \<lparr>holders = \<lambda>_. [], owned = \<lambda>_. {}, waiting = \<lambda>_. {}, operations = {}\<rparr>"

definition own_name :: "key \<Rightarrow> resource \<times> access" where
  "own_name k = (RName (key_kind k) (key_namespace k) (key_name k), Exclusive)"

definition conflicts :: "key \<Rightarrow> access \<Rightarrow> key \<times> access \<Rightarrow> bool" where
  "conflicts k a h = (fst h \<noteq> k \<and> (a = Exclusive \<or> snd h = Exclusive))"

definition blocked_on :: "admissions \<Rightarrow> key \<Rightarrow> claims \<Rightarrow> resource list" where
  "blocked_on st k req =
     map fst (filter (\<lambda>(r, a). list_ex (conflicts k a) (holders st r)) req)"

text \<open>\<open>entry(key).and_modify(...).or_insert(access)\<close>\<close>
definition hold :: "key \<Rightarrow> access \<Rightarrow> (key \<times> access) list \<Rightarrow> (key \<times> access) list" where
  "hold k a hs =
     (case map_of hs k of
        None \<Rightarrow> AList.update k a hs
      | Some old \<Rightarrow> AList.update k (if a = Exclusive then a else old) hs)"

definition grant :: "key \<Rightarrow> resource \<times> access \<Rightarrow> admissions \<Rightarrow> admissions" where
  "grant k ra st =
     st\<lparr>holders := (holders st)(fst ra := hold k (snd ra) (holders st (fst ra))),
        owned := (owned st)(k := insert (fst ra) (owned st k))\<rparr>"

definition wait_for :: "key \<Rightarrow> resource \<Rightarrow> admissions \<Rightarrow> admissions" where
  "wait_for k r st = st\<lparr>waiting := (waiting st)(r := insert k (waiting st r))\<rparr>"

definition acquire :: "key \<Rightarrow> claims \<Rightarrow> admissions \<Rightarrow> bool \<times> admissions" where
  "acquire k cs st =
     (let requested = own_name k # cs;
          blocked = blocked_on st k requested
      in if blocked \<noteq> [] then (False, fold (wait_for k) blocked st)
         else (True, fold (grant k) requested st))"

definition seed :: "key \<Rightarrow> claims \<Rightarrow> admissions \<Rightarrow> admissions" where
  "seed k cs st = fold (grant k) (own_name k # cs) st"

text \<open>\<open>release\<close> yields the keys it adds to the work queue.\<close>
definition release :: "key \<Rightarrow> admissions \<Rightarrow> key set \<times> admissions" where
  "release k st =
     (let mine = owned st k;
          wake = \<Union> (waiting st ` mine)
      in (wake,
          st\<lparr>holders := (\<lambda>r. if r \<in> mine then AList.delete k (holders st r) else holders st r),
             owned := (owned st)(k := {}),
             waiting := (\<lambda>r. (if r \<in> mine then {} else waiting st r) - {k})\<rparr>))"

text \<open>The locks taken by \<open>try_operations\<close>, or \<open>None\<close> at the first one that is busy: the
  guards taken before it are dropped.\<close>
fun lock_each :: "claims \<Rightarrow> resource set \<Rightarrow> resource set \<Rightarrow> resource set option" where
  "lock_each [] seen locked = Some locked"
| "lock_each ((r, a) # cs) seen locked =
     (if r \<in> seen then lock_each cs seen locked
      else if r \<in> locked then None
      else lock_each cs (insert r seen) (insert r locked))"

definition try_operations :: "claims \<Rightarrow> admissions \<Rightarrow> resource set option \<times> admissions" where
  "try_operations cs st =
     (case lock_each cs {} (operations st) of
        None \<Rightarrow> (None, st)
      | Some locked \<Rightarrow> (Some (locked - operations st), st\<lparr>operations := locked\<rparr>))"

text \<open>The guards of a \<open>try_operations\<close> are dropped.\<close>
definition drop_guards :: "resource set \<Rightarrow> admissions \<Rightarrow> admissions" where
  "drop_guards rs st = st\<lparr>operations := operations st - rs\<rparr>"

text \<open>\<open>uuid\<close> is the fresh UID. The guard is the key; dropping it is \<open>release\<close>.\<close>
definition reclaim ::
    "string \<Rightarrow> string \<Rightarrow> string \<Rightarrow> admissions \<Rightarrow> key option \<times> key set \<times> admissions" where
  "reclaim ns claim uuid st =
     (let k = \<lparr>key_kind = Pod, key_namespace = ns, key_name = ''reclaim-'' @ claim, key_uid = uuid\<rparr>;
          (ok, st') = acquire k [(RClaim ns claim, Exclusive)] st
      in if \<not> ok then (let (wake, st'') = release k st' in (None, wake, st''))
         else (Some k, {}, st'))"

fun is_claim :: "resource \<Rightarrow> bool" where
  "is_claim (RClaim _ _) = True"
| "is_claim (RName _ _ _) = False"

text \<open>The claims a key holds, and how.\<close>
definition claims_of :: "key \<Rightarrow> admissions \<Rightarrow> (resource \<times> access) set" where
  "claims_of k st =
     \<Union> ((\<lambda>r. if is_claim r then opt_set (map_option (Pair r) (map_of (holders st r) k)) else {}) ` owned st k)"

text \<open>The order \<open>(kind, namespace, name)\<close> of \<open>blockers\<close>.\<close>
definition kind_ord :: "kind \<Rightarrow> nat" where
  "kind_ord k = (case k of Pod \<Rightarrow> 0 | VirtualMachine \<Rightarrow> 1)"

fun str_le :: "string \<Rightarrow> string \<Rightarrow> bool" where
  "str_le [] t = True"
| "str_le (c # s) [] = False"
| "str_le (c # s) (d # t) =
     (let x = (of_char c :: nat); y = of_char d in x < y \<or> (x = y \<and> str_le s t))"

definition key_le :: "key \<Rightarrow> key \<Rightarrow> bool" where
  "key_le a b =
     (let x = kind_ord (key_kind a); y = kind_ord (key_kind b)
      in x < y \<or> (x = y \<and>
           (if key_namespace a \<noteq> key_namespace b then str_le (key_namespace a) (key_namespace b)
            else str_le (key_name a) (key_name b))))"

text \<open>The first of a stable sort by \<^const>\<open>key_le\<close>.\<close>
fun least_key :: "key list \<Rightarrow> key option" where
  "least_key [] = None"
| "least_key (k # ks) =
     (case least_key ks of None \<Rightarrow> Some k | Some k' \<Rightarrow> Some (if key_le k k' then k else k'))"

definition blockers :: "key \<Rightarrow> claims \<Rightarrow> admissions \<Rightarrow> (resource \<times> key) list" where
  "blockers k cs st =
     List.map_filter (\<lambda>(r, a).
       map_option (Pair r) (least_key (map fst (filter (conflicts k a) (holders st r)))))
       (filter (\<lambda>(r, a). is_claim r) cs)"

definition holder :: "resource \<Rightarrow> admissions \<Rightarrow> key option" where
  "holder r st = (case holders st r of [] \<Rightarrow> None | h # _ \<Rightarrow> Some (fst h))"

text \<open>\<open>debug\<close> is the derived \<open>Debug\<close> text of a resource that is not a claim.\<close>
definition claim_held_message :: "(resource \<Rightarrow> string) \<Rightarrow> resource \<Rightarrow> key \<Rightarrow> string" where
  "claim_held_message debug claim h =
     (let who = key_namespace h @ ''/'' @ key_name h in
      case claim of
        RName _ _ _ \<Rightarrow> debug claim @ '' is held by '' @ who @ '' on this node''
      | RClaim ns n \<Rightarrow>
          (case key_kind h of
             VirtualMachine \<Rightarrow>
               ''claim '' @ ns @ ''/'' @ n @ '' is a disk of VirtualMachineInstance '' @ who @ '' on this node''
           | Pod \<Rightarrow>
               if key_namespace h = ns \<and> key_name h = ''reclaim-'' @ n
               then ''claim '' @ ns @ ''/'' @ n @ '' is being reclaimed on this node''
               else ''claim '' @ ns @ ''/'' @ n @ '' is in use by Pod '' @ who
                    @ '' on this node (ReadWriteOncePod, or a VM's disk)''))"

section \<open>The table's invariants\<close>

text \<open>How \<open>k\<close> holds \<open>r\<close>, if it does: the table as a map.\<close>
definition mode :: "admissions \<Rightarrow> resource \<Rightarrow> key \<Rightarrow> access option" where
  "mode st r k = map_of (holders st r) k"

text \<open>\<open>holders\<close> and \<open>owned\<close> say the same, each holder appears once, and whoever waits for
  a resource waits for a holder other than itself.\<close>
definition table_ok :: "admissions \<Rightarrow> bool" where
  "table_ok st \<longleftrightarrow>
     (\<forall>r k. r \<in> owned st k \<longleftrightarrow> (\<exists>a. mode st r k = Some a))
   \<and> (\<forall>r. distinct (map fst (holders st r)))
   \<and> (\<forall>r k. k \<in> waiting st r \<longrightarrow> (\<exists>k'. k' \<noteq> k \<and> r \<in> owned st k'))"

text \<open>No resource has an exclusive holder beside another holder.\<close>
definition no_conflict :: "admissions \<Rightarrow> bool" where
  "no_conflict st \<longleftrightarrow>
     (\<forall>r k k' a a'. mode st r k = Some a \<longrightarrow> mode st r k' = Some a' \<longrightarrow> k \<noteq> k' \<longrightarrow>
        a = SharedFilesystem \<and> a' = SharedFilesystem)"

text \<open>Somebody else's hold of \<open>r\<close> stands against \<open>k\<close>'s request for it.\<close>
definition against :: "admissions \<Rightarrow> key \<Rightarrow> resource \<times> access \<Rightarrow> bool" where
  "against st k ra \<longleftrightarrow>
     (\<exists>k' a'. mode st (fst ra) k' = Some a' \<and> k' \<noteq> k \<and> (snd ra = Exclusive \<or> a' = Exclusive))"

lemma hold_lookup:
  "map_of (hold k a hs) = (map_of hs)(k \<mapsto>
     (case map_of hs k of None \<Rightarrow> a | Some old \<Rightarrow> if a = Exclusive then a else old))"
  by (auto simp: hold_def update_conv' split: option.splits)

lemma hold_distinct: "distinct (map fst hs) \<Longrightarrow> distinct (map fst (hold k a hs))"
  by (auto simp: hold_def intro: distinct_update split: option.splits)

lemma mode_grant:
  "mode (grant k ra st) r k' =
     (if r = fst ra \<and> k' = k
      then Some (case mode st r k of None \<Rightarrow> snd ra | Some old \<Rightarrow> if snd ra = Exclusive then snd ra else old)
      else mode st r k')"
  by (simp add: mode_def grant_def hold_lookup)

lemma owned_grant: "owned (grant k ra st) = (owned st)(k := insert (fst ra) (owned st k))"
  by (simp add: grant_def)

lemma waiting_grant: "waiting (grant k ra st) = waiting st"
  by (simp add: grant_def)

lemma distinct_grant:
  "\<forall>r. distinct (map fst (holders st r)) \<Longrightarrow> distinct (map fst (holders (grant k ra st) r))"
  by (simp add: grant_def hold_distinct)

lemmas grant_simps = mode_grant owned_grant waiting_grant

lemma conflict_iff:
  assumes "table_ok st"
  shows "list_ex (conflicts k a) (holders st r) \<longleftrightarrow> against st k (r, a)"
proof -
  have d: "distinct (map fst (holders st r))" using assms by (simp add: table_ok_def)
  have "(k', a') \<in> set (holders st r) \<longleftrightarrow> mode st r k' = Some a'" for k' a'
    using d by (simp add: mode_def)
  then show ?thesis
    by (simp add: list_ex_iff Bex_def split_paired_Ex conflicts_def against_def)
qed

lemma blocked_on_iff:
  assumes "table_ok st"
  shows "r \<in> set (blocked_on st k req) \<longleftrightarrow> (\<exists>a. (r, a) \<in> set req \<and> against st k (r, a))"
  by (auto simp: blocked_on_def conflict_iff [OF assms] image_iff split_paired_Ex Bex_def)

lemma blocked_on_Nil:
  assumes "table_ok st"
  shows "blocked_on st k req = [] \<longleftrightarrow> (\<forall>ra \<in> set req. \<not> against st k ra)"
  using blocked_on_iff [OF assms, of _ k req] by (cases "blocked_on st k req") auto

lemma table_ok_grant [inv_intros]:
  assumes "table_ok st"
  shows "table_ok (grant k ra st)"
proof -
  have "distinct (map fst (holders (grant k ra st) r))" for r
    using assms by (intro distinct_grant) (simp add: table_ok_def)
  with assms show ?thesis unfolding table_ok_def grant_simps by auto metis+
qed

lemma table_ok_grants [inv_intros]: "table_ok st \<Longrightarrow> table_ok (fold (grant k) req st)"
  by (induction req arbitrary: st) (auto intro: table_ok_grant)

lemma against_grant: "against (grant k ra st) k rb = against st k rb"
  by (auto simp: against_def mode_grant split: if_splits)

lemma no_conflict_grant:
  assumes "no_conflict st" "\<not> against st k ra"
  shows "no_conflict (grant k ra st)"
proof -
  have "a = SharedFilesystem \<and> snd ra = SharedFilesystem"
    if "mode st (fst ra) k' = Some a" "k' \<noteq> k" for k' a
    using assms(2) that by (auto simp: against_def) (metis access.exhaust)+
  with assms(1) show ?thesis
    unfolding no_conflict_def mode_grant
    by (auto split: if_splits option.splits) (metis not_Some_eq)+
qed

lemma no_conflict_grants:
  "\<lbrakk>no_conflict st; \<forall>ra \<in> set req. \<not> against st k ra\<rbrakk> \<Longrightarrow> no_conflict (fold (grant k) req st)"
proof (induction req arbitrary: st)
  case (Cons ra req)
  then show ?case using no_conflict_grant [of st k ra] by (simp add: against_grant)
qed simp

lemma wait_for_fold:
  "holders (fold (wait_for k) rs st) = holders st"
  "owned (fold (wait_for k) rs st) = owned st"
  "operations (fold (wait_for k) rs st) = operations st"
  "waiting (fold (wait_for k) rs st) = (\<lambda>r. if r \<in> set rs then insert k (waiting st r) else waiting st r)"
  by (induction rs arbitrary: st) (auto simp: wait_for_def fun_eq_iff)

lemma mode_wait: "mode (fold (wait_for k) rs st) = mode st"
  by (simp add: mode_def wait_for_fold fun_eq_iff)

lemma table_ok_wait [inv_intros]:
  assumes "table_ok st"
  shows "table_ok (fold (wait_for k) (blocked_on st k req) st)"
proof -
  have "\<exists>k'. k' \<noteq> k \<and> r \<in> owned st k'" if "r \<in> set (blocked_on st k req)" for r
    using that assms unfolding blocked_on_iff [OF assms] against_def table_ok_def by fastforce
  with assms show ?thesis
    unfolding table_ok_def wait_for_fold mode_wait by (auto split: if_splits)
qed

lemma table_ok_acquire [inv_intros]: "table_ok st \<Longrightarrow> table_ok (snd (acquire k cs st))"
  by (simp add: acquire_def Let_def table_ok_wait table_ok_grants del: fold.simps)

lemma no_conflict_acquire:
  assumes "table_ok st" "no_conflict st"
  shows "no_conflict (snd (acquire k cs st))"
proof (cases "blocked_on st k (own_name k # cs) = []")
  case True
  then have "no_conflict (fold (grant k) (own_name k # cs) st)"
    using no_conflict_grants [OF assms(2)] blocked_on_Nil [OF assms(1)] by blast
  then show ?thesis using True by (simp add: acquire_def Let_def)
next
  case False
  have "no_conflict (fold (wait_for k) rs st)" for rs
    using assms(2) by (simp add: no_conflict_def mode_wait)
  then show ?thesis using False by (simp add: acquire_def Let_def del: fold.simps)
qed

lemma release_simps:
  "mode (snd (release k st)) r k' = (if r \<in> owned st k \<and> k' = k then None else mode st r k')"
  "owned (snd (release k st)) = (owned st)(k := {})"
  "waiting (snd (release k st)) r = (if r \<in> owned st k then {} else waiting st r) - {k}"
  "fst (release k st) = \<Union> (waiting st ` owned st k)"
  by (auto simp: release_def Let_def mode_def delete_conv')

lemma table_ok_release [inv_intros]:
  assumes "table_ok st"
  shows "table_ok (snd (release k st))"
proof -
  have "distinct (map fst (holders (snd (release k st)) r))" for r
    using assms by (simp add: table_ok_def release_def Let_def distinct_delete)
  with assms show ?thesis
    unfolding table_ok_def release_simps by (auto split: if_splits) (metis option.distinct(1))+
qed

lemma no_conflict_release: "no_conflict st \<Longrightarrow> no_conflict (snd (release k st))"
  unfolding no_conflict_def release_simps by (auto split: if_splits)

section \<open>Runs of the table\<close>

text \<open>What the running kubelet does to the table; \<open>seed\<close> runs only at recovery.\<close>
inductive adm_step :: "admissions \<Rightarrow> admissions \<Rightarrow> bool" where
  step_acquire: "adm_step st (snd (acquire k cs st))"
| step_release: "adm_step st (snd (release k st))"
| step_reclaim: "adm_step st (snd (snd (reclaim ns claim uuid st)))"
| step_try: "adm_step st (snd (try_operations cs st))"
| step_drop: "adm_step st (drop_guards rs st)"

inductive recovery_step :: "admissions \<Rightarrow> admissions \<Rightarrow> bool" where
  recover_seed: "recovery_step st (seed k cs st)"
| recover_step: "adm_step st st' \<Longrightarrow> recovery_step st st'"

lemma reclaim_table:
  "snd (snd (reclaim ns claim uuid st)) =
     (let k = \<lparr>key_kind = Pod, key_namespace = ns, key_name = ''reclaim-'' @ claim, key_uid = uuid\<rparr>;
          (ok, st') = acquire k [(RClaim ns claim, Exclusive)] st
      in if ok then st' else snd (release k st'))"
  by (simp add: reclaim_def Let_def split: prod.splits)

lemma try_table: "mode (snd (try_operations cs st)) = mode st"
  "owned (snd (try_operations cs st)) = owned st" "waiting (snd (try_operations cs st)) = waiting st"
  "holders (snd (try_operations cs st)) = holders st"
  by (auto simp: try_operations_def mode_def fun_eq_iff split: option.split)

lemma drop_table: "mode (drop_guards rs st) = mode st" "owned (drop_guards rs st) = owned st"
  "waiting (drop_guards rs st) = waiting st" "holders (drop_guards rs st) = holders st"
  by (auto simp: drop_guards_def mode_def fun_eq_iff)

lemma table_ok_cong:
  "\<lbrakk>holders st' = holders st; owned st' = owned st; waiting st' = waiting st\<rbrakk> \<Longrightarrow> table_ok st' = table_ok st"
  by (simp only: table_ok_def mode_def)

lemma table_ok_step [inv_intros]: "adm_step st st' \<Longrightarrow> table_ok st \<Longrightarrow> table_ok st'"
proof (induction rule: adm_step.induct)
  case (step_reclaim st ns claim uuid)
  then show ?case
    unfolding reclaim_table Let_def
    by (auto split: prod.split intro: table_ok_release)
       (metis snd_conv table_ok_acquire table_ok_release)+
next
  case (step_try st cs)
  then show ?case by (simp add: table_ok_cong [OF try_table(4,2,3)])
next
  case (step_drop st rs)
  then show ?case by (simp add: table_ok_cong [OF drop_table(4,2,3)])
qed (auto intro: inv_intros)

lemma no_conflict_step:
  "adm_step st st' \<Longrightarrow> table_ok st \<Longrightarrow> no_conflict st \<Longrightarrow> no_conflict st'"
proof (induction rule: adm_step.induct)
  case (step_reclaim st ns claim uuid)
  then show ?case
    unfolding reclaim_table Let_def
    by (auto split: prod.split) (metis snd_conv no_conflict_acquire no_conflict_release)+
next
  case (step_try st cs)
  then show ?case by (simp add: no_conflict_def try_table)
next
  case (step_drop st rs)
  then show ?case by (simp add: no_conflict_def drop_table)
qed (auto intro: no_conflict_acquire no_conflict_release)

lemma start_ok: "table_ok admissions_new" "no_conflict admissions_new"
  by (auto simp: table_ok_def no_conflict_def admissions_new_def mode_def)

interpretation table: inv_system adm_step admissions_new "\<lambda>st. table_ok st \<and> no_conflict st"
  by unfold_locales (auto intro: start_ok table_ok_step no_conflict_step)

interpretation recovered: inv_system recovery_step admissions_new table_ok
proof
  show "table_ok st'" if "table_ok st" "recovery_step st st'" for st st'
    using that(2,1) by (cases rule: recovery_step.cases)
      (auto simp: seed_def table_ok_grants table_ok_step simp del: fold.simps)
qed (rule start_ok)

section \<open>What a call yields\<close>

lemma grant_mode:
  "mode (grant k ra st) r k' =
     (if r = fst ra \<and> k' = k
      then Some (if mode st r k = Some Exclusive \<or> snd ra = Exclusive then Exclusive else SharedFilesystem)
      else mode st r k')"
  by (cases "snd ra"; cases "mode st r k"; cases "the (mode st r k)") (auto simp: mode_grant)

lemma grants_mode:
  "mode (fold (grant k) req st) r k' =
     (if k' = k \<and> r \<in> fst ` set req
      then Some (if mode st r k = Some Exclusive \<or> (r, Exclusive) \<in> set req then Exclusive else SharedFilesystem)
      else mode st r k')"
proof (induction req arbitrary: st)
  case (Cons ra req)
  have "mode (fold (grant k) (ra # req) st) r k' = mode (fold (grant k) req (grant k ra st)) r k'" by simp
  also note Cons.IH [of "grant k ra st"]
  finally show ?case by (cases ra) (auto simp: grant_mode, force)
qed simp

lemma acquire_ok_iff:
  assumes "table_ok st"
  shows "fst (acquire k cs st) \<longleftrightarrow> (\<forall>ra \<in> set (own_name k # cs). \<not> against st k ra)"
  using blocked_on_Nil [OF assms, of k "own_name k # cs"]
  by (simp add: acquire_def Let_def del: fold.simps)

lemma least_key_in: "least_key ks = Some k \<Longrightarrow> k \<in> set ks"
  by (induction ks arbitrary: k) (auto split: option.splits if_splits)

lemma least_key_None: "least_key ks = None \<longleftrightarrow> ks = []"
  by (cases ks) (auto split: option.splits)

lemma lock_each_Some:
  "lock_each cs seen locked = Some l \<Longrightarrow>
     l = locked \<union> (fst ` set cs - seen) \<and> (fst ` set cs - seen) \<inter> locked = {}"
  by (induction cs seen locked rule: lock_each.induct) (auto split: if_splits)

lemma lock_each_None:
  "lock_each cs seen locked = None \<longleftrightarrow> (fst ` set cs - seen) \<inter> locked \<noteq> {}"
  by (induction cs seen locked rule: lock_each.induct) auto

section \<open>Properties\<close>

definition k_pod :: key where
  "k_pod = \<lparr>key_kind = Pod, key_namespace = ''ns'', key_name = ''web'', key_uid = ''u1''\<rparr>"

definition k_vm :: key where
  "k_vm = \<lparr>key_kind = VirtualMachine, key_namespace = ''ns'', key_name = ''vm'', key_uid = ''u2''\<rparr>"

definition disk :: resource where
  "disk = RClaim ''ns'' ''disk''"

text \<open>A VM holds its disk and a pod waits for it.\<close>
definition contended :: admissions where
  "contended = snd (acquire k_pod [(disk, SharedFilesystem)]
     (snd (acquire k_vm [(disk, Exclusive)] admissions_new)))"

lemma contended_reachable: "adm_step\<^sup>*\<^sup>* admissions_new contended"
  unfolding contended_def
  by (rule rtranclp.rtrancl_into_rtrancl, rule r_into_rtranclp) (rule step_acquire)+

lemma keys_differ: "k_pod \<noteq> k_vm"
  by (simp add: k_pod_def k_vm_def)

lemma contended_facts:
  "mode contended disk k_vm = Some Exclusive" "mode contended disk k_pod = None"
  "k_pod \<in> waiting contended disk" "disk \<in> owned contended k_vm"
  using keys_differ
  by (simp_all add: contended_def acquire_def admissions_new_def blocked_on_def own_name_def disk_def
      k_pod_def k_vm_def conflicts_def mode_def grant_def hold_def wait_for_def Let_def)



text \<open>\<open>acquire\<close> is all or nothing: it succeeds exactly when no requested resource is
  held against the request; then the key holds every requested resource at least as strongly
  as asked and nobody else's hold changes. Refused, it changes no hold and the key waits for
  each resource that blocked it.\<close>
theorem acquire_all_or_nothing:
  assumes "table_ok st" and "acquire k cs st = (ok, st')"
  shows "(ok \<longleftrightarrow> (\<forall>ra \<in> set (own_name k # cs). \<not> against st k ra))
    \<and> (ok \<longrightarrow> (\<forall>(r, a) \<in> set (own_name k # cs). mode st' r k = Some Exclusive \<or> mode st' r k = Some a)
           \<and> (\<forall>r k'. k' \<noteq> k \<longrightarrow> mode st' r k' = mode st r k') \<and> waiting st' = waiting st)
    \<and> (\<not> ok \<longrightarrow> mode st' = mode st \<and> owned st' = owned st
           \<and> (\<forall>ra \<in> set (own_name k # cs). against st k ra \<longrightarrow> k \<in> waiting st' (fst ra)))"
proof (cases ok)
  case True
  have st': "st' = fold (grant k) (own_name k # cs) st"
    using assms(2) True unfolding acquire_def Let_def
    by (cases "blocked_on st k (own_name k # cs) = []") (simp_all del: fold.simps)
  have "mode st' r k = Some Exclusive \<or> mode st' r k = Some a"
    if ra: "(r, a) \<in> set (own_name k # cs)" for r a
  proof -
    have "r \<in> fst ` set (own_name k # cs)" using ra by (metis fst_conv imageI)
    then show ?thesis unfolding st' grants_mode using ra by (cases a) simp_all
  qed
  moreover have "waiting (fold (grant k) req s) = waiting s" for req s
    by (induction req arbitrary: s) (simp_all add: waiting_grant)
  moreover have "mode st' r k' = mode st r k'" if "k' \<noteq> k" for r k'
    using that unfolding st' grants_mode by simp
  moreover have "\<forall>ra \<in> set (own_name k # cs). \<not> against st k ra"
    using acquire_ok_iff [OF assms(1), of k cs] assms(2) True by simp
  ultimately show ?thesis using True st' by blast
next
  case False
  have st': "st' = fold (wait_for k) (blocked_on st k (own_name k # cs)) st"
    using assms(2) False unfolding acquire_def Let_def
    by (cases "blocked_on st k (own_name k # cs) = []") (simp_all del: fold.simps)
  have "k \<in> waiting st' (fst ra)" if "ra \<in> set (own_name k # cs)" "against st k ra" for ra
    using that blocked_on_iff [OF assms(1), of "fst ra" k "own_name k # cs"]
    unfolding st' wait_for_fold by (metis insertI1 prod.collapse)
  moreover have "\<not> (\<forall>ra \<in> set (own_name k # cs). \<not> against st k ra)"
    using acquire_ok_iff [OF assms(1), of k cs] assms(2) False by simp
  ultimately show ?thesis using False by (simp add: st' mode_wait wait_for_fold)
qed

lemma acquire_all_or_nothing_witness:
  "\<not> fst (acquire k_pod [(disk, SharedFilesystem)] contended)"
proof -
  have "against contended k_pod (disk, SharedFilesystem)"
    using contended_facts(1) keys_differ by (auto simp: against_def)
  then show ?thesis
    using acquire_all_or_nothing [of contended k_pod "[(disk, SharedFilesystem)]"]
      table.inv_reachable [OF contended_reachable]
    by (cases "acquire k_pod [(disk, SharedFilesystem)] contended") auto
qed

text \<open>C32. No wake-up is lost, even after a recovery that seeded conflicting holders: in every
  reachable state, a workload that waits for a resource waits for some other holder, and any
  holder's release of it puts the waiter on the work queue.\<close>
theorem waiter_is_woken:
  assumes "recovery_step\<^sup>*\<^sup>* admissions_new st" and "k \<in> waiting st r"
  shows "(\<exists>k'. k' \<noteq> k \<and> r \<in> owned st k') \<and> (\<forall>k'. r \<in> owned st k' \<longrightarrow> k \<in> fst (release k' st))"
  using recovered.inv_reachable [OF assms(1)] assms(2)
  unfolding table_ok_def release_simps by blast

lemma waiter_is_woken_witness: "k_pod \<in> fst (release k_vm contended)"
proof -
  have "recovery_step\<^sup>*\<^sup>* admissions_new contended"
    using contended_reachable by (rule mono_rtranclp [rule_format, rotated]) (rule recover_step)
  then show ?thesis
    using waiter_is_woken [of contended k_pod disk] contended_facts(3,4) by blast
qed

text \<open>A refused pod is told why: when \<open>acquire\<close> fails although the workload's name is
  free, \<open>blockers\<close> names, for at least one claim, a workload that really holds it against the
  request; and it never names one that does not.\<close>
theorem blockers_explain_refusal:
  assumes "table_ok st" and "\<forall>(r, a) \<in> set cs. is_claim r"
  shows "(\<forall>(r, k') \<in> set (blockers k cs st).
            \<exists>a a'. (r, a) \<in> set cs \<and> k' \<noteq> k \<and> mode st r k' = Some a' \<and> (a = Exclusive \<or> a' = Exclusive))
    \<and> (\<not> against st k (own_name k) \<longrightarrow> \<not> fst (acquire k cs st) \<longrightarrow> blockers k cs st \<noteq> [])"
proof -
  have holder: "(k', a') \<in> set (holders st r) \<longleftrightarrow> mode st r k' = Some a'" for r k' a'
    using assms(1) by (simp add: table_ok_def mode_def)
  have mem: "(r, k') \<in> set (blockers k cs st) \<longleftrightarrow> is_claim r \<and>
      (\<exists>a. (r, a) \<in> set cs \<and> least_key (map fst (filter (conflicts k a) (holders st r))) = Some k')" for r k'
    by (auto simp: blockers_def in_map_filter)
  have "\<exists>r k'. (r, k') \<in> set (blockers k cs st)"
    if refused: "\<not> against st k (own_name k)" "\<not> fst (acquire k cs st)"
  proof -
    obtain r a where ra: "(r, a) \<in> set cs" "against st k (r, a)"
      using refused acquire_ok_iff [OF assms(1), of k cs] by auto
    then have "filter (conflicts k a) (holders st r) \<noteq> []"
      using conflict_iff [OF assms(1), of k a r] by (auto simp: list_ex_iff filter_empty_conv)
    then obtain k' where "least_key (map fst (filter (conflicts k a) (holders st r))) = Some k'"
      using least_key_None by (metis list.map_disc_iff not_Some_eq)
    then show ?thesis using mem ra assms(2) by blast
  qed
  then show ?thesis
    using mem by (fastforce dest!: least_key_in simp: conflicts_def holder)
qed

lemma blockers_explain_refusal_witness:
  "blockers k_pod [(disk, SharedFilesystem)] contended \<noteq> []"
proof -
  have ok: "table_ok contended" using table.inv_reachable [OF contended_reachable] by blast
  have "\<not> against contended k_pod (own_name k_pod)"
    by (simp add: against_def own_name_def contended_def acquire_def admissions_new_def blocked_on_def
        disk_def k_pod_def k_vm_def conflicts_def mode_def grant_def hold_def wait_for_def Let_def)
  moreover have "against contended k_pod (disk, SharedFilesystem)"
    using contended_facts(1) keys_differ by (auto simp: against_def)
  then have "\<not> fst (acquire k_pod [(disk, SharedFilesystem)] contended)"
    using acquire_ok_iff [OF ok] by auto
  ultimately show ?thesis
    using blockers_explain_refusal [OF ok, of "[(disk, SharedFilesystem)]" k_pod] by (simp add: disk_def)
qed

text \<open>\<open>try_operations\<close> takes every claim's mutation lock or none: it fails exactly when
  one of the claims has a mutation running, and what it locks was free.\<close>
theorem operations_all_or_nothing:
  "try_operations cs st =
     (if fst ` set cs \<inter> operations st = {}
      then (Some (fst ` set cs), st\<lparr>operations := operations st \<union> fst ` set cs\<rparr>) else (None, st))"
  using lock_each_None [of cs "{}" "operations st"] lock_each_Some [of cs "{}" "operations st"]
  by (cases "lock_each cs {} (operations st)") (auto simp: try_operations_def)

end
