(* ===== verification/Executor.thy ===== *)
theory Executor
  imports Workload
begin

text \<open>The executor of \<open>pkg/kubelet/src/workload.rs\<close>: desired state per source, which keys a
  new snapshot of a source puts on the work queue, the wake-ups by dependency and by kind,
  the parked workloads, and the loop that runs passes in a bounded pool and spaces the
  retries of failing ones. Operations return the keys they add to the queue.\<close>

section \<open>Desired state\<close>

record desired =
  sources :: "(string \<times> (key \<times> json) list) list"
  objects :: "(key \<times> json) list"
  dependents :: "dependency \<Rightarrow> key set"

definition desired_new :: desired where
  "desired_new = \<lparr>sources = [], objects = [], dependents = \<lambda>_. {}\<rparr>"

text \<open>What of an object makes work; the members in key order.\<close>
definition intent :: "json \<Rightarrow> json" where
  "intent obj =
     (let m = jget obj ''metadata'' in
      JObj [(''metadata'', JObj [
              (''annotations'', jget m ''annotations''),
              (''deletionTimestamp'', jget m ''deletionTimestamp''),
              (''labels'', jget m ''labels''),
              (''name'', jget m ''name''),
              (''namespace'', jget m ''namespace''),
              (''ownerReferences'', jget m ''ownerReferences''),
              (''uid'', jget m ''uid'')]),
            (''spec'', jget obj ''spec'')])"

datatype source_error = BadKey key_error | DuplicateUid

fun collect_incoming ::
    "kind \<Rightarrow> json list \<Rightarrow> (key \<times> json) list \<Rightarrow> source_error + (key \<times> json) list" where
  "collect_incoming k [] acc = Inr acc"
| "collect_incoming k (obj # objs) acc =
     (case key_of k obj of
        Inl e \<Rightarrow> Inl (BadKey e)
      | Inr key \<Rightarrow>
          if map_of acc key \<noteq> None then Inl DuplicateUid
          else collect_incoming k objs (AList.update key obj acc))"

text \<open>The union of the sources; where two have a key, the later one in iteration order.\<close>
definition merge_sources :: "(string \<times> (key \<times> json) list) list \<Rightarrow> (key \<times> json) list" where
  "merge_sources ss = fold (\<lambda>(k, v). AList.update k v) (concat (map snd ss)) []"

definition replace_source ::
    "string \<Rightarrow> kind \<Rightarrow> json list \<Rightarrow> desired \<Rightarrow> (source_error + key set) \<times> desired" where
  "replace_source source k objs st =
     (case collect_incoming k objs [] of
        Inl e \<Rightarrow> (Inl e, st)
      | Inr incoming \<Rightarrow>
          (let ss = AList.update source incoming (sources st);
               new = merge_sources ss;
               gone = {key \<in> fst ` set (objects st). map_of new key = None};
               changed = {key \<in> fst ` set new.
                  map_option intent (map_of (objects st) key) \<noteq> map_option intent (map_of new key)}
           in (Inr (gone \<union> changed),
               \<lparr>sources = ss, objects = new,
                dependents = (\<lambda>d. fst ` set (filter (\<lambda>(key, obj). d \<in> dependencies key obj) new))\<rparr>)))"

definition show_kind_debug :: "kind \<Rightarrow> string" where
  "show_kind_debug k = (case k of Pod \<Rightarrow> ''Pod'' | VirtualMachine \<Rightarrow> ''VirtualMachine'')"

definition replace :: "kind \<Rightarrow> json list \<Rightarrow> desired \<Rightarrow> (source_error + key set) \<times> desired" where
  "replace k objs st = replace_source (show_kind_debug k) k objs st"

definition wake_dependency :: "dependency \<Rightarrow> desired \<Rightarrow> key set" where
  "wake_dependency d st = dependents st d"

definition wake_where :: "kind \<Rightarrow> (key \<Rightarrow> bool) \<Rightarrow> desired \<Rightarrow> key set" where
  "wake_where k wanted st = {key \<in> fst ` set (objects st). key_kind key = k \<and> wanted key}"

definition wake_kind :: "kind \<Rightarrow> desired \<Rightarrow> key set" where
  "wake_kind k st = {key \<in> fst ` set (objects st). key_kind key = k}"

definition objects_of :: "kind \<Rightarrow> desired \<Rightarrow> json list" where
  "objects_of k st = map snd (filter (\<lambda>(key, _). key_kind key = k) (objects st))"

section \<open>Parked workloads\<close>

definition park :: "key \<Rightarrow> key set \<Rightarrow> key set" where
  "park k parked = insert k parked"

definition unpark :: "key \<Rightarrow> key set \<Rightarrow> bool \<times> key set" where
  "unpark k parked = (k \<in> parked, parked - {k})"

definition wake_parked :: "desired \<Rightarrow> key set \<Rightarrow> key set \<times> key set" where
  "wake_parked st parked = ({k \<in> parked. map_of (objects st) k \<noteq> None}, {})"

section \<open>The loop\<close>

datatype next_step = AwaitEvent | After duration

definition default_workers :: "nat option \<Rightarrow> nat" where
  "default_workers cpus = max 32 (min 256 ((case cpus of Some n \<Rightarrow> n | None \<Rightarrow> 1) * 16))"

text \<open>The running passes, and the failures in a row of each key that has any.\<close>
record pool =
  active :: "key list"
  failures :: "key \<Rightarrow> nat option"

definition pool_new :: pool where
  "pool_new = \<lparr>active = [], failures = \<lambda>_. None\<rparr>"

text \<open>How a pass ends: its result, an error (a panicking adapter is one), or a task that
  could not be joined.\<close>
datatype completion = Finished next_step | Failed | Unjoined

definition u32_max :: nat where
  "u32_max = 2 ^ 32 - 1"

definition failure_delay :: "nat \<Rightarrow> duration" where
  "failure_delay n = millis (min (100 * 2 ^ min n 8) 30000)"

text \<open>The queue is polled only while the pool has room.\<close>
definition take_work :: "nat \<Rightarrow> key \<Rightarrow> pool \<Rightarrow> pool option" where
  "take_work concurrency k p =
     (if length (active p) < max 1 concurrency then Some (p\<lparr>active := active p @ [k]\<rparr>) else None)"

text \<open>The end of the pass on \<open>k\<close>; the delay after which \<open>k\<close> is queued again, if it is.\<close>
definition complete_work :: "key \<Rightarrow> completion \<Rightarrow> pool \<Rightarrow> duration option \<times> pool" where
  "complete_work k c p =
     (let p = p\<lparr>active := remove1 k (active p)\<rparr> in
      case c of
        Unjoined \<Rightarrow> (None, p)
      | Finished nxt \<Rightarrow>
          ((case nxt of After d \<Rightarrow> Some d | AwaitEvent \<Rightarrow> None), p\<lparr>failures := (failures p)(k := None)\<rparr>)
      | Failed \<Rightarrow>
          (let n = min (Suc (case failures p k of Some n \<Rightarrow> n | None \<Rightarrow> 0)) u32_max
           in (Some (failure_delay n), p\<lparr>failures := (failures p)(k := Some n)\<rparr>)))"

inductive pool_step :: "nat \<Rightarrow> pool \<Rightarrow> pool \<Rightarrow> bool" for concurrency where
  pool_take: "take_work concurrency k p = Some p' \<Longrightarrow> pool_step concurrency p p'"
| pool_complete: "k \<in> set (active p) \<Longrightarrow> pool_step concurrency p (snd (complete_work k c p))"

inductive_cases pool_stepE: "pool_step concurrency p p'"

section \<open>Merged sources\<close>

lemma merged_lookup:
  "map_of (fold (\<lambda>(k, v). AList.update k v) xs acc) k =
     (case map_of (rev xs) k of Some v \<Rightarrow> Some v | None \<Rightarrow> map_of acc k)"
  by (induction xs arbitrary: acc)
     (auto simp: update_conv' map_add_def split: option.split)

lemma merge_sources_dom:
  "map_of (merge_sources ss) k \<noteq> None \<longleftrightarrow> (\<exists>(s, xs) \<in> set ss. k \<in> fst ` set xs)"
proof -
  have "map_of (merge_sources ss) k \<noteq> None \<longleftrightarrow> k \<in> fst ` set (concat (map snd ss))"
    unfolding merge_sources_def merged_lookup in_keys_iff [of k "concat (map snd ss)"]
    using in_keys_iff [of k "rev (concat (map snd ss))"] in_keys_iff [of k "concat (map snd ss)"]
    by (auto split: option.split simp del: map_of_eq_None_iff)
  then show ?thesis by force
qed

lemma merge_sources_distinct: "distinct (map fst (merge_sources ss))"
proof -
  have "distinct (map fst acc) \<Longrightarrow> distinct (map fst (fold (\<lambda>(k, v). AList.update k v) xs acc))"
    for xs acc :: "(key \<times> json) list"
    by (induction xs arbitrary: acc) (auto intro: distinct_update)
  then show ?thesis by (simp add: merge_sources_def)
qed

lemma replace_source_cases:
  assumes "replace_source src k objs st = (r, st')"
  obtains (refused) e where "r = Inl e" "st' = st"
  | (taken) incoming woken where "collect_incoming k objs [] = Inr incoming" "r = Inr woken"
      "sources st' = AList.update src incoming (sources st)" "objects st' = merge_sources (sources st')"
      "dependents st' = (\<lambda>d. fst ` set (filter (\<lambda>(key, obj). d \<in> dependencies key obj) (objects st')))"
      "woken = {key \<in> fst ` set (objects st). map_of (objects st') key = None}
         \<union> {key \<in> fst ` set (objects st').
              map_option intent (map_of (objects st) key) \<noteq> map_option intent (map_of (objects st') key)}"
  using assms by (cases "collect_incoming k objs []") (auto simp: replace_source_def Let_def)

section \<open>Properties of the executor\<close>

definition ex_pod :: "string \<Rightarrow> string \<Rightarrow> json" where
  "ex_pod u img = JObj [(''metadata'', JObj [(''name'', JStr u), (''uid'', JStr u)]),
     (''spec'', JObj [(''containers'', JArr [JObj [(''image'', JStr img)]])])]"

definition ex_key :: "string \<Rightarrow> key" where
  "ex_key u = \<lparr>key_kind = Pod, key_namespace = ''default'', key_name = u, key_uid = u\<rparr>"

text \<open>The state after the static source published one pod.\<close>
definition ex_static :: desired where
  "ex_static = \<lparr>sources = [(''static'', [(ex_key ''s'', ex_pod ''s'' ''a'')])],
     objects = [(ex_key ''s'', ex_pod ''s'' ''a'')], dependents = \<lambda>_. {}\<rparr>"

text \<open>A new snapshot of a source queues exactly the workloads whose intent it changed:
  those whose spec or relevant metadata differ, appeared, or are gone. An echo of status
  queues nothing, and a snapshot with an unusable object is refused whole.\<close>
theorem replace_queues_exactly_changes:
  assumes "replace_source src k objs st = (r, st')"
  shows "case r of
      Inl e \<Rightarrow> st' = st
    | Inr woken \<Rightarrow> woken = {key. map_option intent (map_of (objects st) key)
                               \<noteq> map_option intent (map_of (objects st') key)}"
  using assms
proof (cases rule: replace_source_cases)
  case (taken incoming woken)
  have "key \<in> woken \<longleftrightarrow> map_option intent (map_of (objects st) key) \<noteq> map_option intent (map_of (objects st') key)"
    for key
    unfolding taken(6) Un_iff mem_Collect_eq in_keys_iff
    by (cases "map_of (objects st) key"; cases "map_of (objects st') key")
       (simp_all del: map_of_eq_None_iff)
  then show ?thesis using taken(2) by auto
qed simp

lemma replace_queues_exactly_changes_witness:
  "fst (replace_source ''api'' Pod [ex_pod ''u'' ''i''] desired_new) = Inr {ex_key ''u''}"
proof -
  let ?r = "replace_source ''api'' Pod [ex_pod ''u'' ''i''] desired_new"
  have "objects (snd ?r) = [(ex_key ''u'', ex_pod ''u'' ''i'')]" "\<exists>w. fst ?r = Inr w"
    by (simp_all add: replace_source_def key_of_def ex_pod_def ex_key_def json_simps nonempty_str_def
        desired_new_def merge_sources_def Let_def)
  then show ?thesis
    using replace_queues_exactly_changes [of "''api''" Pod "[ex_pod ''u'' ''i'']" desired_new "fst ?r" "snd ?r"]
    by (auto simp: desired_new_def split: if_splits)
qed

text \<open>Each source has its own deletion boundary: publishing one source never removes a
  workload another source still has. And after it, a notification about a claim, image or
  driver queues exactly the workloads that depend on it.\<close>
theorem sources_are_independent:
  assumes "replace_source src k objs st = (Inr woken, st')"
    and "map_of (sources st) src' = Some items" and "src' \<noteq> src" and "map_of items key \<noteq> None"
  shows "map_of (objects st') key \<noteq> None
    \<and> wake_dependency d st' = {key. \<exists>obj. map_of (objects st') key = Some obj \<and> d \<in> dependencies key obj}"
  using assms(1)
proof (cases rule: replace_source_cases)
  case (taken incoming w)
  have "(src', items) \<in> set (sources st')"
    using assms(2,3) taken(3) by (auto simp: update_conv' intro: map_of_SomeD)
  moreover have "key \<in> fst ` set items" using assms(4) by (auto simp: map_of_eq_None_iff)
  ultimately have "map_of (objects st') key \<noteq> None" unfolding taken(4) merge_sources_dom by blast
  moreover have "(key, obj) \<in> set (objects st') \<longleftrightarrow> map_of (objects st') key = Some obj" for key obj
    using merge_sources_distinct taken(4) by simp
  ultimately show ?thesis
    by (auto simp: wake_dependency_def taken(5) image_iff Bex_def)
qed simp

lemma sources_are_independent_witness:
  "map_of (objects (snd (replace_source ''api'' Pod [] ex_static))) (ex_key ''s'') \<noteq> None"
  using sources_are_independent [of "''api''" Pod "[]" ex_static _ _ "''static''" _ "ex_key ''s''"]
  by (simp add: replace_source_def ex_static_def Let_def)

lemma pool_bounded_step:
  "\<lbrakk>length (active p) \<le> max 1 concurrency; pool_step concurrency p p'\<rbrakk>
     \<Longrightarrow> length (active p') \<le> max 1 concurrency"
  by (erule pool_stepE)
     (auto simp: take_work_def complete_work_def length_remove1 Let_def
       split: if_splits completion.splits)

interpretation workers: inv_system "pool_step concurrency" pool_new
  "\<lambda>p. length (active p) \<le> max 1 concurrency" for concurrency
  by unfold_locales (simp add: pool_new_def, rule pool_bounded_step)

text \<open>The pool never runs more passes than its size; a failing pass is queued again
  after 200 ms to 25.6 s, the longer the more failures in a row (the 30 s cap of the code
  is never reached); and one success forgets the failures.\<close>
theorem pool_is_bounded:
  assumes "(pool_step concurrency)\<^sup>*\<^sup>* pool_new p"
  shows "length (active p) \<le> max 1 concurrency
    \<and> (\<exists>d. fst (complete_work k Failed p) = Some d \<and> millis 200 \<le> d \<and> d \<le> millis 25600)
    \<and> (\<forall>d d'. fst (complete_work k Failed p) = Some d \<longrightarrow>
          fst (complete_work k Failed (snd (complete_work k Failed p))) = Some d' \<longrightarrow> d \<le> d')
    \<and> failures (snd (complete_work k (Finished nxt) p)) k = None"
proof -
  have pow: "(2::nat) ^ min m 8 \<le> 2 ^ min n 8" if "m \<le> n" for m n
    using that by (intro power_increasing) auto
  have mono: "failure_delay m \<le> failure_delay n" if "m \<le> n" for m n
    using pow [OF that] by (simp add: failure_delay_def min_le_iff_disj)
  have low: "millis 200 \<le> failure_delay (min (Suc n) u32_max)" for n
    using mono [of 1 "min (Suc n) u32_max"] by (simp add: failure_delay_def u32_max_def)
  have high: "failure_delay n \<le> millis 25600" for n
    using pow [of "min n 8" 8] by (simp add: failure_delay_def)
  show ?thesis
    using workers.inv_reachable [OF assms] low high
    by (auto simp: complete_work_def Let_def intro!: mono split: option.split)
qed

lemma pool_is_bounded_witness:
  "length (active \<lparr>active = [ex_key ''u''], failures = \<lambda>_. None\<rparr>) \<le> 1"
proof -
  have "pool_step 1 pool_new \<lparr>active = [ex_key ''u''], failures = \<lambda>_. None\<rparr>"
    by (rule pool_take [of _ "ex_key ''u''"]) (simp add: take_work_def pool_new_def)
  then show ?thesis using pool_is_bounded [of 1 "\<lparr>active = [ex_key ''u''], failures = \<lambda>_. None\<rparr>"] by auto
qed

end
