(* ===== verification/Ipam.thy ===== *)
theory Ipam
  imports Prelude "HOL-Library.AList"
begin

text \<open>\<open>pkg/cni/src/ipam.rs\<close>: the host-local address allocator of the CNI plugin, over an
  allocation store (a trait: a record of operations here) that is in memory or on disk.
  Addresses are 32-bit words and \<open>next_ip\<close> wraps, as the release build does. The subnet
  and its text come from another crate: a subnet is what the code asks of it, and its parser
  is an argument. The text of an IPv4 address is modelled (standard library).\<close>

type_synonym ipv4 = "32 word"

section \<open>Addresses\<close>

definition next_ip :: "ipv4 \<Rightarrow> ipv4" where
  "next_ip ip = ip + 1"

definition prev_ip :: "ipv4 \<Rightarrow> ipv4" where
  "prev_ip ip = ip - 1"

text \<open>\<open>Display\<close> of an address, and its \<open>FromStr\<close>: four decimal octets without leading
  zeros.\<close>
definition octet :: "nat \<Rightarrow> ipv4 \<Rightarrow> nat" where
  "octet i ip = (unat ip div 256 ^ i) mod 256"

definition show_ip :: "ipv4 \<Rightarrow> string" where
  "show_ip ip = show_nat (octet 3 ip) @ ''.'' @ show_nat (octet 2 ip) @ ''.'' @
                show_nat (octet 1 ip) @ ''.'' @ show_nat (octet 0 ip)"

definition parse_octet :: "string \<Rightarrow> nat option" where
  "parse_octet s = (case parse_digits s of None \<Rightarrow> None
     | Some n \<Rightarrow> if n < 256 \<and> (length s = 1 \<or> hd s \<noteq> CHR ''0'') then Some n else None)"

definition parse_ip :: "string \<Rightarrow> ipv4 option" where
  "parse_ip s =
     (case map parse_octet (split_on CHR ''.'' s) of
        [Some a, Some b, Some c, Some d] \<Rightarrow> Some (of_nat (a * 256 ^ 3 + b * 256 ^ 2 + c * 256 + d))
      | _ \<Rightarrow> None)"

section \<open>Stores\<close>

datatype cni_error = IpamError string

text \<open>The trait \<open>AllocStore\<close>: operations on a backing state \<open>'s\<close>.\<close>
record 's alloc_store =
  s_load :: "'s \<Rightarrow> cni_error + (string \<times> ipv4) list"
  s_persist :: "string \<Rightarrow> ipv4 \<Rightarrow> 's \<Rightarrow> cni_error option \<times> 's"
  s_remove :: "string \<Rightarrow> 's \<Rightarrow> cni_error option \<times> 's"

definition mem_store :: "unit alloc_store" where
  "mem_store = \<lparr>s_load = \<lambda>_. Inr [], s_persist = \<lambda>_ _ s. (None, s), s_remove = \<lambda>_ s. (None, s)\<rparr>"

text \<open>A directory with one file per container. A file whose text cannot be read (or is not
  UTF-8) is \<open>None\<close>.\<close>
record disk =
  dir_exists :: bool
  files :: "(string \<times> string option) list"

text \<open>Which file-system calls fail; the text is the error's.\<close>
record faults =
  f_read_dir :: "string option"
  f_create_dir :: "string option"
  f_write :: "string option"
  f_remove :: "string option"

definition no_faults :: faults where
  "no_faults = \<lparr>f_read_dir = None, f_create_dir = None, f_write = None, f_remove = None\<rparr>"

definition disk_load :: "faults \<Rightarrow> disk \<Rightarrow> cni_error + (string \<times> ipv4) list" where
  "disk_load f d =
     (if \<not> dir_exists d then Inr []
      else case f_read_dir f of
        Some e \<Rightarrow> Inl (IpamError (''failed to read alloc dir: '' @ e))
      | None \<Rightarrow> Inr (List.map_filter (\<lambda>(n, c). case c of
            None \<Rightarrow> None
          | Some text \<Rightarrow> map_option (Pair n) (parse_ip (trim text))) (files d)))"

definition disk_persist :: "faults \<Rightarrow> string \<Rightarrow> ipv4 \<Rightarrow> disk \<Rightarrow> cni_error option \<times> disk" where
  "disk_persist f cid ip d =
     (case f_create_dir f of
        Some e \<Rightarrow> (Some (IpamError (''failed to create alloc dir: '' @ e)), d)
      | None \<Rightarrow>
          (let d = d\<lparr>dir_exists := True\<rparr> in
           case f_write f of
             Some e \<Rightarrow> (Some (IpamError (''failed to write allocation: '' @ e)), d)
           | None \<Rightarrow> (None, d\<lparr>files := AList.update cid (Some (show_ip ip)) (files d)\<rparr>)))"

definition disk_remove :: "faults \<Rightarrow> string \<Rightarrow> disk \<Rightarrow> cni_error option \<times> disk" where
  "disk_remove f cid d =
     (if map_of (files d) cid \<noteq> None
      then (case f_remove f of
              Some e \<Rightarrow> (Some (IpamError (''failed to remove allocation: '' @ e)), d)
            | None \<Rightarrow> (None, d\<lparr>files := AList.delete cid (files d)\<rparr>))
      else (None, d))"

definition disk_store :: "faults \<Rightarrow> disk alloc_store" where
  "disk_store f = \<lparr>s_load = disk_load f, s_persist = disk_persist f, s_remove = disk_remove f\<rparr>"

lemma disk_store_simps [simp]:
  "s_load (disk_store f) = disk_load f" "s_persist (disk_store f) = disk_persist f"
  "s_remove (disk_store f) = disk_remove f"
  by (simp_all add: disk_store_def)

section \<open>The allocator\<close>

text \<open>A subnet, as the code asks it.\<close>
record subnet =
  network :: ipv4
  broadcast :: ipv4
  prefix_len :: nat
  sn_contains :: "ipv4 \<Rightarrow> bool"

record ipam_config =
  c_subnet :: string
  c_range_start :: string
  c_range_end :: string
  c_gateway :: string

record ipam =
  i_subnet :: subnet
  range_start :: ipv4
  range_end :: ipv4
  gateway :: ipv4
  allocations :: "(string \<times> ipv4) list"

definition addr_or :: "string \<Rightarrow> string \<Rightarrow> ipv4 \<Rightarrow> cni_error + ipv4" where
  "addr_or what text dflt =
     (if text = [] then Inr dflt
      else case parse_ip text of
        None \<Rightarrow> Inl (IpamError (''invalid '' @ what @ '': invalid IPv4 address syntax''))
      | Some ip \<Rightarrow> Inr ip)"

text \<open>\<open>parse_net\<close> is the subnet parser: an error text or a subnet.\<close>
definition with_store ::
    "(string \<Rightarrow> string + subnet) \<Rightarrow> ipam_config \<Rightarrow> 's alloc_store \<Rightarrow> 's \<Rightarrow> cni_error + ipam" where
  "with_store parse_net c store s =
     (case parse_net (c_subnet c) of
        Inl e \<Rightarrow> Inl (IpamError (''invalid subnet '' @ [CHR 39] @ c_subnet c @ [CHR 39] @ '': '' @ e))
      | Inr sn \<Rightarrow>
     (case addr_or ''range_start'' (c_range_start c) (next_ip (network sn)) of Inl e \<Rightarrow> Inl e | Inr rs \<Rightarrow>
     (case addr_or ''range_end'' (c_range_end c) (prev_ip (broadcast sn)) of Inl e \<Rightarrow> Inl e | Inr re \<Rightarrow>
     (case addr_or ''gateway'' (c_gateway c) (next_ip (network sn)) of Inl e \<Rightarrow> Inl e | Inr gw \<Rightarrow>
     (case s_load store s of Inl e \<Rightarrow> Inl e | Inr al \<Rightarrow>
        Inr \<lparr>i_subnet = sn, range_start = rs, range_end = re, gateway = gw, allocations = al\<rparr>)))))"

definition is_assignable :: "ipam \<Rightarrow> ipv4 \<Rightarrow> bool" where
  "is_assignable p ip =
     (ip \<noteq> network (i_subnet p) \<and> ip \<noteq> broadcast (i_subnet p) \<and> ip \<noteq> gateway p
      \<and> sn_contains (i_subnet p) ip)"

text \<open>The loop of \<open>allocate\<close> from \<open>ip\<close>. It ends because \<open>next_ip\<close> reaches \<open>range_end\<close>, at the
  latest after wrapping around.\<close>
function scan_free :: "ipam \<Rightarrow> ipv4 set \<Rightarrow> ipv4 \<Rightarrow> ipv4 option" where
  "scan_free p taken ip =
     (if is_assignable p ip \<and> ip \<notin> taken then Some ip
      else if ip = range_end p then None
      else scan_free p taken (next_ip ip))"
  by pat_completeness auto
termination
proof (relation "measure (\<lambda>(p, taken, ip). unat (range_end p - ip))")
  fix p :: ipam and taken :: "ipv4 set" and ip :: ipv4
  assume "ip \<noteq> range_end p"
  then have "range_end p - ip \<noteq> 0" by simp
  then have "unat (range_end p - ip - 1) < unat (range_end p - ip)"
    by (metis unat_minus_one diff_less unat_gt_0 zero_less_one word_neq_0_conv)
  then show "((p, taken, next_ip ip), (p, taken, ip)) \<in> measure (\<lambda>(p, taken, ip). unat (range_end p - ip))"
    by (simp add: next_ip_def diff_diff_eq)
qed simp

declare scan_free.simps [simp del]

definition allocate ::
    "'s alloc_store \<Rightarrow> string \<Rightarrow> ipam \<times> 's \<Rightarrow> (cni_error + ipv4 \<times> ipv4 \<times> nat) \<times> ipam \<times> 's" where
  "allocate store cid ps =
     (let (p, s) = ps in
      case map_of (allocations p) cid of
        Some ip \<Rightarrow> (Inr (ip, gateway p, prefix_len (i_subnet p)), p, s)
      | None \<Rightarrow>
          (case scan_free p (snd ` set (allocations p)) (range_start p) of
             None \<Rightarrow> (Inl (IpamError (''no free IPs in range '' @ show_ip (range_start p) @ ''-''
                                      @ show_ip (range_end p))), p, s)
           | Some ip \<Rightarrow>
               (let p' = p\<lparr>allocations := AList.update cid ip (allocations p)\<rparr>;
                    (err, s') = s_persist store cid ip s
                in case err of
                     Some e \<Rightarrow> (Inl e, p', s')
                   | None \<Rightarrow> (Inr (ip, gateway p, prefix_len (i_subnet p)), p', s'))))"

definition release_ip ::
    "'s alloc_store \<Rightarrow> string \<Rightarrow> ipam \<times> 's \<Rightarrow> cni_error option \<times> ipam \<times> 's" where
  "release_ip store cid ps =
     (let (p, s) = ps in
      if map_of (allocations p) cid \<noteq> None
      then (let p' = p\<lparr>allocations := AList.delete cid (allocations p)\<rparr>;
                (err, s') = s_remove store cid s
            in (err, p', s'))
      else (None, p, s))"

definition allocated_ip :: "ipam \<Rightarrow> string \<Rightarrow> ipv4 option" where
  "allocated_ip p cid = map_of (allocations p) cid"

text \<open>The bridge plugin's commands (\<open>bridge.rs\<close>): each opens the store anew. \<open>apply\<close> says
  whether the network was set up; a failure gives the address back.\<close>
definition cmd_add ::
    "(string \<Rightarrow> string + subnet) \<Rightarrow> ipam_config \<Rightarrow> 's alloc_store \<Rightarrow> string
     \<Rightarrow> (ipv4 \<Rightarrow> ipv4 \<Rightarrow> nat \<Rightarrow> cni_error option) \<Rightarrow> 's \<Rightarrow> (cni_error + ipv4) \<times> 's" where
  "cmd_add parse_net c store cid apply s =
     (case with_store parse_net c store s of
        Inl e \<Rightarrow> (Inl e, s)
      | Inr p \<Rightarrow>
          (let (r, ps) = allocate store cid (p, s) in
           case r of
             Inl e \<Rightarrow> (Inl e, snd ps)
           | Inr (ip, gw, len) \<Rightarrow>
               (case apply ip gw len of
                  Some e \<Rightarrow> (Inl e, snd (snd (release_ip store cid ps)))
                | None \<Rightarrow> (Inr ip, snd ps))))"

definition cmd_del ::
    "(string \<Rightarrow> string + subnet) \<Rightarrow> ipam_config \<Rightarrow> 's alloc_store \<Rightarrow> string \<Rightarrow> 's \<Rightarrow> cni_error option \<times> 's" where
  "cmd_del parse_net c store cid s =
     (case with_store parse_net c store s of
        Inl e \<Rightarrow> (Some e, s)
      | Inr p \<Rightarrow> (let (r, ps) = release_ip store cid (p, s) in (r, snd ps)))"

section \<open>The scan\<close>

abbreviation free_for :: "ipam \<Rightarrow> ipv4 set \<Rightarrow> ipv4 \<Rightarrow> bool" where
  "free_for p taken ip \<equiv> is_assignable p ip \<and> ip \<notin> taken"

lemma unat_ip_less: "unat (b :: ipv4) < 4294967296"
  using unsigned_less [of b] by simp

lemma unat_pred: "(x :: ipv4) \<noteq> 0 \<Longrightarrow> unat x = Suc (unat (x - 1))"
  by (metis Suc_pred' unat_gt_0 unat_minus_one)

lemma scan_free_offset:
  "case scan_free p taken ip of
     None \<Rightarrow> \<forall>k \<le> unat (range_end p - ip). \<not> free_for p taken (ip + of_nat k)
   | Some x \<Rightarrow> \<exists>j \<le> unat (range_end p - ip). x = ip + of_nat j \<and> free_for p taken x
                 \<and> (\<forall>k < j. \<not> free_for p taken (ip + of_nat k))"
proof (induction p taken ip rule: scan_free.induct)
  case (1 p taken ip)
  show ?case
  proof (cases "free_for p taken ip \<or> ip = range_end p")
    case True
    then show ?thesis by (subst scan_free.simps) (auto intro!: exI [of _ 0])
  next
    case False
    then have d: "unat (range_end p - ip) = Suc (unat (range_end p - next_ip ip))"
      using unat_pred [of "range_end p - ip"] False by (auto simp: next_ip_def diff_diff_eq)
    have shift: "next_ip ip + of_nat k = ip + of_nat (Suc k)" for k by (simp add: next_ip_def)
    have s: "scan_free p taken ip = scan_free p taken (next_ip ip)"
      using False by (subst scan_free.simps) auto
    note IH = "1.IH" [unfolded shift]
    show ?thesis
    proof (cases "scan_free p taken (next_ip ip)")
      case None
      then have "\<not> free_for p taken (ip + of_nat k)" if "k \<le> unat (range_end p - ip)" for k
        using IH False that d by (cases k) auto
      then show ?thesis using None s by simp
    next
      case (Some x)
      then obtain j where j: "j \<le> unat (range_end p - next_ip ip)" "x = ip + of_nat (Suc j)"
        "free_for p taken x" "\<forall>k<j. \<not> free_for p taken (ip + of_nat (Suc k))"
        using IH False by auto
      have "\<not> free_for p taken (ip + of_nat k)" if "k < Suc j" for k
        using j(4) False that by (cases k) auto
      then show ?thesis using Some s j d by (auto intro!: exI [of _ "Suc j"])
    qed
  qed
qed

lemma offset_in_range:
  fixes a b y :: ipv4
  assumes "a \<le> y"
  shows "y = a + of_nat (unat (y - a))" "y \<le> b \<Longrightarrow> unat (y - a) \<le> unat (b - a)"
proof -
  show "y = a + of_nat (unat (y - a))" by simp
  show "unat (y - a) \<le> unat (b - a)" if "y \<le> b"
    using assms that unat_sub [of a y] unat_sub [of a b] by (simp add: word_le_nat_alt)
qed

lemma offset_back:
  fixes a b :: ipv4
  assumes "a \<le> b" "j \<le> unat (b - a)"
  shows "a \<le> a + of_nat j" "a + of_nat j \<le> b" "unat (a + of_nat j - a) = j"
proof -
  have ub: "unat a + j \<le> unat b" using assms unat_sub [of a b] by (simp add: word_le_nat_alt)
  then have "unat (a + of_nat j) = unat a + j"
    using unat_ip_less [of b] by (simp add: unat_word_ariths unat_of_nat)
  then show "a \<le> a + of_nat j" "a + of_nat j \<le> b" using ub by (simp_all add: word_le_nat_alt)
  show "unat (a + of_nat j - a) = j" using ub unat_ip_less [of b] by (simp add: unat_of_nat)
qed

text \<open>The scan of a proper range finds its lowest free address, or there is none.\<close>
lemma scan_free_range:
  assumes "range_start p \<le> range_end p"
  shows "scan_free p taken (range_start p) = None \<longleftrightarrow>
           (\<forall>ip. range_start p \<le> ip \<longrightarrow> ip \<le> range_end p \<longrightarrow> \<not> free_for p taken ip)"
    and "scan_free p taken (range_start p) = Some x \<Longrightarrow>
           free_for p taken x \<and> range_start p \<le> x \<and> x \<le> range_end p
           \<and> (\<forall>ip. range_start p \<le> ip \<longrightarrow> ip < x \<longrightarrow> \<not> free_for p taken ip)"
proof -
  let ?s = "range_start p" and ?e = "range_end p"
  have some: "free_for p taken x \<and> ?s \<le> x \<and> x \<le> ?e
      \<and> (\<forall>ip. ?s \<le> ip \<longrightarrow> ip < x \<longrightarrow> \<not> free_for p taken ip)"
    if found: "scan_free p taken ?s = Some x" for x
  proof -
    obtain j where j: "j \<le> unat (?e - ?s)" "x = ?s + of_nat j" "free_for p taken x"
      "\<forall>k<j. \<not> free_for p taken (?s + of_nat k)"
      using scan_free_offset [where p = p and taken = taken and ip = ?s] found by auto
    have "\<not> free_for p taken ip" if "?s \<le> ip" "ip < x" for ip
    proof -
      have "unat (ip - ?s) < j"
        using offset_back(1,3) [OF assms j(1)] j(2) that unat_sub [of ?s ip] unat_sub [of ?s x]
        by (simp add: word_less_nat_alt word_le_nat_alt)
      then show ?thesis using j(4) by force
    qed
    then show ?thesis using j offset_back [OF assms j(1)] by blast
  qed
  show "free_for p taken x \<and> ?s \<le> x \<and> x \<le> ?e
      \<and> (\<forall>ip. ?s \<le> ip \<longrightarrow> ip < x \<longrightarrow> \<not> free_for p taken ip)"
    if "scan_free p taken ?s = Some x" using some that .
  show "scan_free p taken ?s = None \<longleftrightarrow> (\<forall>ip. ?s \<le> ip \<longrightarrow> ip \<le> ?e \<longrightarrow> \<not> free_for p taken ip)"
  proof (cases "scan_free p taken ?s")
    case None
    then have "\<not> free_for p taken ip" if "?s \<le> ip" "ip \<le> ?e" for ip
      using scan_free_offset [where p = p and taken = taken and ip = ?s] offset_in_range(2) [OF that] by force
    then show ?thesis using None by simp
  next
    case (Some x)
    then show ?thesis using some by fastforce
  qed
qed

section \<open>Text of addresses\<close>

lemma octet_less: "octet i ip < 256"
  by (simp add: octet_def)

lemma parse_octet_show: "n < 256 \<Longrightarrow> parse_octet (show_nat n) = Some n"
  using show_nat_leading_zero [of n] show_nat_small [of n] by (auto simp: parse_octet_def)

lemma dot_not_in_number: "CHR ''.'' \<notin> set (show_nat n)"
  by (rule digits_only [OF show_nat_digits not_digit(3)])

lemma octets_sum: "octet 3 ip * 256 ^ 3 + octet 2 ip * 256 ^ 2 + octet 1 ip * 256 + octet 0 ip = unat ip"
proof -
  let ?n = "unat ip"
  have "octet 3 ip = ?n div 256 ^ 3"
    using unat_ip_less [of ip] by (simp add: octet_def div_less_iff_less_mult)
  moreover have "?n div 256 ^ 3 * 256 + octet 2 ip = ?n div 256 ^ 2"
    using div_mult_mod_eq [of "?n div 256 ^ 2" 256] by (simp add: octet_def div_mult2_eq [symmetric])
  moreover have "?n div 256 ^ 2 * 256 + octet 1 ip = ?n div 256"
    using div_mult_mod_eq [of "?n div 256" 256] by (simp add: octet_def div_mult2_eq [symmetric])
  moreover have "?n div 256 * 256 + octet 0 ip = ?n" by (simp add: octet_def)
  ultimately show ?thesis by (simp add: power_numeral_reduce)
qed

lemma parse_show_ip: "parse_ip (show_ip ip) = Some ip"
proof -
  have "split_on CHR ''.'' (show_ip ip) =
      [show_nat (octet 3 ip), show_nat (octet 2 ip), show_nat (octet 1 ip), show_nat (octet 0 ip)]"
    by (simp add: show_ip_def split_on_append split_on_none dot_not_in_number)
  moreover have "of_nat (octet 3 ip * 256 ^ 3 + octet 2 ip * 256 ^ 2 + octet 1 ip * 256 + octet 0 ip) = ip"
    unfolding octets_sum by simp
  ultimately show ?thesis
    unfolding parse_ip_def by (simp add: parse_octet_show octet_less del: of_nat_add)
qed

lemma trim_show_ip: "trim (show_ip ip) = show_ip ip"
proof (rule trim_no_ws)
  have h: "\<not> is_ws (hd (show_nat n))" "\<not> is_ws (last (show_nat n))" for n
    using show_nat_digits [of n] show_nat_nonempty [of n] digit_not_ws
    by (simp_all add: list_all_iff)
  have "hd (show_ip ip) = hd (show_nat (octet 3 ip))" "last (show_ip ip) = last (show_nat (octet 0 ip))"
    by (simp_all add: show_ip_def show_nat_nonempty)
  then show "show_ip ip = [] \<or> \<not> is_ws (hd (show_ip ip)) \<and> \<not> is_ws (last (show_ip ip))" using h by simp
qed

section \<open>Stores that mirror the allocations\<close>

text \<open>What crash recovery needs of a store: a persist or remove succeeds and the next load
  shows it. \<open>good\<close> is the store's own invariant.\<close>
locale mirroring_store =
  fixes store :: "'s alloc_store"
    and good :: "'s \<Rightarrow> bool"
  assumes persist_law: "\<lbrakk>good s; s_load store s = Inr m\<rbrakk> \<Longrightarrow>
      \<exists>s' m'. s_persist store cid ip s = (None, s') \<and> good s' \<and> s_load store s' = Inr m'
        \<and> distinct (map fst m') \<and> map_of m' = (map_of m)(cid \<mapsto> ip)"
    and remove_law: "\<lbrakk>good s; s_load store s = Inr m\<rbrakk> \<Longrightarrow>
      \<exists>s' m'. s_remove store cid s = (None, s') \<and> good s' \<and> s_load store s' = Inr m'
        \<and> distinct (map fst m') \<and> map_of m' = (map_of m)(cid := None)"
begin

definition mirrored :: "ipam \<Rightarrow> 's \<Rightarrow> bool" where
  "mirrored p s \<longleftrightarrow> good s \<and> (\<exists>m. s_load store s = Inr m \<and> map_of m = map_of (allocations p))"

lemma allocate_mirrored:
  assumes "mirrored p s" and "allocate store cid (p, s) = (r, p', s')"
  shows "mirrored p' s'"
proof -
  obtain m where m: "good s" "s_load store s = Inr m" "map_of m = map_of (allocations p)"
    using assms(1) by (auto simp: mirrored_def)
  show ?thesis
  proof (cases "map_of (allocations p) cid")
    case (Some ip)
    then show ?thesis using assms by (auto simp: allocate_def)
  next
    case None
    show ?thesis
    proof (cases "scan_free p (snd ` set (allocations p)) (range_start p)")
      case None
      with \<open>map_of (allocations p) cid = None\<close> show ?thesis using assms by (auto simp: allocate_def)
    next
      case (Some ip)
      obtain s1 m1 where "s_persist store cid ip s = (None, s1)" "good s1" "s_load store s1 = Inr m1"
        "map_of m1 = (map_of m)(cid \<mapsto> ip)"
        using persist_law [OF m(1,2)] by blast
      then show ?thesis using Some \<open>map_of (allocations p) cid = None\<close> assms(2) m(3)
        by (auto simp: allocate_def mirrored_def update_conv')
    qed
  qed
qed

lemma release_mirrored:
  assumes "mirrored p s" and "release_ip store cid (p, s) = (r, p', s')"
  shows "mirrored p' s' \<and> r = None"
proof -
  obtain m where m: "good s" "s_load store s = Inr m" "map_of m = map_of (allocations p)"
    using assms(1) by (auto simp: mirrored_def)
  obtain s1 m1 where "s_remove store cid s = (None, s1)" "good s1" "s_load store s1 = Inr m1"
    "map_of m1 = (map_of m)(cid := None)"
    using remove_law [OF m(1,2)] by blast
  then show ?thesis using assms m
    by (cases "map_of (allocations p) cid = None")
       (auto simp: release_ip_def mirrored_def delete_conv' simp del: map_of_eq_None_iff)
qed

lemma opened_mirrored:
  assumes "good s" and "with_store parse_net c store s = Inr p"
  shows "mirrored p s" "s_load store s = Inr (allocations p)"
  using assms by (auto simp: with_store_def mirrored_def split: sum.splits)

lemma add_law:
  assumes "good s" and "with_store parse_net c store s = Inr p"
    and "cmd_add parse_net c store cid apply s = (r, s')"
  shows "\<exists>m'. good s' \<and> s_load store s' = Inr m' \<and> map_of m' =
    (case r of Inr ip \<Rightarrow> (map_of (allocations p))(cid \<mapsto> ip) | Inl _ \<Rightarrow> (map_of (allocations p))(cid := None))"
proof -
  obtain r1 p1 s1 where a: "allocate store cid (p, s) = (r1, p1, s1)" by (cases "allocate store cid (p, s)") auto
  obtain r2 p2 s2 where d: "release_ip store cid (p1, s1) = (r2, p2, s2)"
    by (cases "release_ip store cid (p1, s1)") auto
  have m1: "mirrored p1 s1" using allocate_mirrored [OF opened_mirrored(1) [OF assms(1,2)] a] .
  have m2: "mirrored p2 s2" using release_mirrored [OF m1 d] by simp
  have p1: "map_of (allocations p1) = (case r1 of Inr (ip, _) \<Rightarrow> (map_of (allocations p))(cid \<mapsto> ip)
      | Inl _ \<Rightarrow> map_of (allocations p)) \<and> (isl r1 \<longrightarrow> map_of (allocations p) cid = None)"
  proof (cases "map_of (allocations p) cid")
    case (Some old)
    then show ?thesis using a by (auto simp: allocate_def fun_eq_iff)
  next
    case None
    note fresh = None
    show ?thesis
    proof (cases "scan_free p (snd ` set (allocations p)) (range_start p)")
      case None
      then show ?thesis using a fresh by (auto simp: allocate_def)
    next
      case (Some ip)
      obtain s'' where "s_persist store cid ip s = (None, s'')"
        using persist_law [OF assms(1) opened_mirrored(2) [OF assms(1,2)], of cid ip] by blast
      then show ?thesis using a fresh Some by (auto simp: allocate_def update_conv')
    qed
  qed
  have p2: "map_of (allocations p2) = (map_of (allocations p1))(cid := None)"
    using d by (auto simp: release_ip_def delete_conv' split: if_splits prod.splits)
  show ?thesis
    using assms(2,3) a d m1 m2 p1 p2
    by (auto simp: cmd_add_def mirrored_def split: sum.splits option.splits prod.splits)
qed

lemma del_law:
  assumes "good s" and "with_store parse_net c store s = Inr p"
    and "cmd_del parse_net c store cid s = (r, s')"
  shows "r = None \<and> (\<exists>m'. good s' \<and> s_load store s' = Inr m' \<and> map_of m' = (map_of (allocations p))(cid := None))"
proof -
  obtain r2 p2 s2 where d: "release_ip store cid (p, s) = (r2, p2, s2)"
    by (cases "release_ip store cid (p, s)") auto
  have "map_of (allocations p2) = (map_of (allocations p))(cid := None)"
    using d by (auto simp: release_ip_def delete_conv' split: if_splits prod.splits)
  then show ?thesis
    using release_mirrored [OF opened_mirrored(1) [OF assms(1,2)] d] d assms(2,3)
    by (auto simp: cmd_del_def mirrored_def)
qed

end

text \<open>Every file of the directory is there and named once, and the directory exists if it
  has files.\<close>
definition disk_good :: "disk \<Rightarrow> bool" where
  "disk_good d \<longleftrightarrow> distinct (map fst (files d)) \<and> (files d \<noteq> [] \<longrightarrow> dir_exists d)"

definition file_ip :: "string option \<Rightarrow> ipv4 option" where
  "file_ip c = (case c of None \<Rightarrow> None | Some text \<Rightarrow> parse_ip (trim text))"

definition load_files :: "(string \<times> string option) list \<Rightarrow> (string \<times> ipv4) list" where
  "load_files fs = List.map_filter (\<lambda>(n, c). map_option (Pair n) (file_ip c)) fs"

lemma load_files_dom: "fst ` set (load_files fs) \<subseteq> fst ` set fs"
  by (force simp: load_files_def in_map_filter)

lemma load_files_lookup:
  assumes "distinct (map fst fs)"
  shows "distinct (map fst (load_files fs))"
    and "map_of (load_files fs) n = (case map_of fs n of None \<Rightarrow> None | Some c \<Rightarrow> file_ip c)"
  using assms
proof (induction fs)
  case (Cons f fs)
  { case 1
    then show ?case using Cons load_files_dom [of fs]
      by (cases f) (auto simp: load_files_def List.map_filter_simps split: option.split) }
  { case 2
    have "map_of (load_files fs) (fst f) = None"
      using 2 load_files_dom [of fs] by (auto simp: map_of_eq_None_iff)
    then show ?case using Cons 2
      by (cases f) (auto simp: load_files_def List.map_filter_simps split: option.split) }
qed (simp_all add: load_files_def List.map_filter_simps)

lemma disk_load_good:
  assumes "disk_good d"
  shows "disk_load no_faults d = Inr (load_files (files d))"
proof -
  have eq: "(\<lambda>(n, c). case c of None \<Rightarrow> None | Some text \<Rightarrow> map_option (Pair n) (parse_ip (trim text)))
      = (\<lambda>(n, c). map_option (Pair n) (file_ip c))"
    by (auto simp: fun_eq_iff file_ip_def split: option.split)
  show ?thesis
    using assms unfolding disk_load_def eq load_files_def
    by (auto simp: no_faults_def disk_good_def List.map_filter_simps)
qed

lemma disk_persist_ok:
  "disk_persist no_faults cid ip d =
     (None, d\<lparr>dir_exists := True, files := AList.update cid (Some (show_ip ip)) (files d)\<rparr>)"
  by (simp add: disk_persist_def no_faults_def)

lemma disk_remove_ok:
  "disk_remove no_faults cid d =
     (None, if map_of (files d) cid = None then d else d\<lparr>files := AList.delete cid (files d)\<rparr>)"
  by (simp add: disk_remove_def no_faults_def)

lemma disk_persist_law:
  fixes cid :: string and ip :: ipv4
  assumes "disk_good d"
  defines "d' \<equiv> snd (disk_persist no_faults cid ip d)"
  shows "disk_good d'" "map_of (load_files (files d')) = (map_of (load_files (files d)))(cid \<mapsto> ip)"
proof -
  have dist: "distinct (map fst (files d))" using assms(1) by (simp add: disk_good_def)
  then show "disk_good d'" by (simp add: d'_def disk_persist_ok disk_good_def distinct_update)
  show "map_of (load_files (files d')) = (map_of (load_files (files d)))(cid \<mapsto> ip)"
    using dist by (simp add: d'_def disk_persist_ok load_files_lookup distinct_update update_conv' file_ip_def
        trim_show_ip parse_show_ip fun_eq_iff)
qed

lemma disk_remove_law:
  fixes cid :: string
  assumes "disk_good d"
  defines "d' \<equiv> snd (disk_remove no_faults cid d)"
  shows "disk_good d'" "map_of (load_files (files d')) = (map_of (load_files (files d)))(cid := None)"
proof -
  have dist: "distinct (map fst (files d))" using assms(1) by (simp add: disk_good_def)
  then show "disk_good d'" using assms(1)
    by (auto simp add: d'_def disk_remove_ok disk_good_def distinct_delete)
  show "map_of (load_files (files d')) = (map_of (load_files (files d)))(cid := None)"
  proof (cases "map_of (files d) cid")
    case None
    then show ?thesis using dist by (simp add: d'_def disk_remove_ok load_files_lookup fun_eq_iff del: map_of_eq_None_iff)
  next
    case (Some c)
    then show ?thesis using dist
      by (simp add: d'_def disk_remove_ok load_files_lookup distinct_delete delete_conv' fun_eq_iff)
  qed
qed

interpretation on_disk: mirroring_store "disk_store no_faults" disk_good
proof
  fix s m cid ip
  assume g: "disk_good s" and "s_load (disk_store no_faults) s = Inr m"
  then have m: "m = load_files (files s)" by (simp add: disk_store_def disk_load_good)
  have d: "distinct (map fst (files d))" if "disk_good d" for d using that by (simp add: disk_good_def)
  show "\<exists>s' m'. s_persist (disk_store no_faults) cid ip s = (None, s') \<and> disk_good s'
      \<and> s_load (disk_store no_faults) s' = Inr m' \<and> distinct (map fst m')
      \<and> map_of m' = (map_of m)(cid \<mapsto> ip)"
    using disk_persist_law [OF g, of cid ip] load_files_lookup(1) [OF d [OF disk_persist_law(1) [OF g, of cid ip]]]
    by (intro exI [of _ "snd (disk_persist no_faults cid ip s)"]
          exI [of _ "load_files (files (snd (disk_persist no_faults cid ip s)))"])
       (simp add: disk_store_def disk_load_good m prod_eq_iff disk_persist_ok [of cid ip s])
  show "\<exists>s' m'. s_remove (disk_store no_faults) cid s = (None, s') \<and> disk_good s'
      \<and> s_load (disk_store no_faults) s' = Inr m' \<and> distinct (map fst m')
      \<and> map_of m' = (map_of m)(cid := None)"
    using disk_remove_law [OF g, of cid] load_files_lookup(1) [OF d [OF disk_remove_law(1) [OF g, of cid]]]
    by (intro exI [of _ "snd (disk_remove no_faults cid s)"]
          exI [of _ "load_files (files (snd (disk_remove no_faults cid s)))"])
       (simp add: disk_store_def disk_load_good m prod_eq_iff disk_remove_ok [of cid s])
qed

section \<open>Properties\<close>

text \<open>Each container is listed once and no address is given twice.\<close>
definition ipam_ok :: "ipam \<Rightarrow> bool" where
  "ipam_ok p \<longleftrightarrow> distinct (map fst (allocations p))
     \<and> (\<forall>c c' ip. map_of (allocations p) c = Some ip \<longrightarrow> map_of (allocations p) c' = Some ip \<longrightarrow> c = c')"

lemma taken_iff: "ipam_ok p \<Longrightarrow> ip \<in> snd ` set (allocations p) \<longleftrightarrow> (\<exists>c. map_of (allocations p) c = Some ip)"
  by (force simp: ipam_ok_def)

lemma allocate_known: "map_of (allocations p) cid = Some ip \<Longrightarrow>
    allocate store cid (p, s) = (Inr (ip, gateway p, prefix_len (i_subnet p)), p, s)"
  by (simp add: allocate_def)

lemma allocate_fresh:
  assumes "map_of (allocations p) cid = None" "allocate store cid (p, s) = (Inr (ip, gw, len), p', s')"
  shows "scan_free p (snd ` set (allocations p)) (range_start p) = Some ip"
    "p' = p\<lparr>allocations := AList.update cid ip (allocations p)\<rparr>" "s_persist store cid ip s = (None, s')"
  using assms by (auto simp: allocate_def Let_def split: option.splits prod.splits)

text \<open>10.0.0.0/29: six host addresses, the first one the gateway.\<close>
definition small_subnet :: subnet where
  "small_subnet = \<lparr>network = 167772160, broadcast = 167772167, prefix_len = 29,
     sn_contains = \<lambda>ip. 167772160 \<le> ip \<and> ip \<le> 167772167\<rparr>"

definition small_ipam :: ipam where
  "small_ipam = \<lparr>i_subnet = small_subnet, range_start = 167772161, range_end = 167772166,
     gateway = 167772161, allocations = [(''a'', 167772162)]\<rparr>"

lemma small_ok: "ipam_ok small_ipam" "range_start small_ipam \<le> range_end small_ipam"
  by (auto simp: ipam_ok_def small_ipam_def split: if_splits)

lemma allocate_spec:
  assumes "ipam_ok p" and "range_start p \<le> range_end p"
    and "allocate store cid (p, s) = (Inr (ip, gw, len), p', s')"
  shows "ipam_ok p' \<and> map_of (allocations p') = (map_of (allocations p))(cid \<mapsto> ip)
    \<and> (case map_of (allocations p) cid of
         Some old \<Rightarrow> ip = old
       | None \<Rightarrow> is_assignable p ip \<and> range_start p \<le> ip \<and> ip \<le> range_end p
           \<and> (\<forall>c. map_of (allocations p) c \<noteq> Some ip)
           \<and> (\<forall>lower. range_start p \<le> lower \<longrightarrow> lower < ip \<longrightarrow> is_assignable p lower \<longrightarrow>
                (\<exists>c. map_of (allocations p) c = Some lower)))"
proof (cases "map_of (allocations p) cid")
  case (Some old)
  then show ?thesis using assms by (auto simp: allocate_known fun_eq_iff)
next
  case None
  note new = allocate_fresh [OF None assms(3)]
  have free: "is_assignable p ip" "range_start p \<le> ip" "ip \<le> range_end p"
    "\<forall>c. map_of (allocations p) c \<noteq> Some ip"
    "\<forall>lower. range_start p \<le> lower \<longrightarrow> lower < ip \<longrightarrow> is_assignable p lower \<longrightarrow>
       (\<exists>c. map_of (allocations p) c = Some lower)"
    using scan_free_range(2) [OF assms(2) new(1)] unfolding taken_iff [OF assms(1)] by blast+
  moreover have "map_of (allocations p') = (map_of (allocations p))(cid \<mapsto> ip)"
    by (simp add: new(2) update_conv')
  moreover from this free(4) have "ipam_ok p'"
    using assms(1) unfolding ipam_ok_def by (auto simp: new(2) distinct_update split: if_splits)
  ultimately show ?thesis using None by simp
qed

text \<open>C28. \<open>allocate\<close> never gives an address to two containers: the table stays without
  duplicates, the container keeps the address it had, and a new one is the lowest address of
  the range that may be handed out (not the network, broadcast or gateway address) and that
  nobody holds.\<close>
theorem allocate_gives_lowest_free:
  assumes "ipam_ok p" and "range_start p \<le> range_end p"
    and "allocate store cid (p, s) = (Inr (ip, gw, len), p', s')"
  shows "ipam_ok p' \<and> map_of (allocations p') = (map_of (allocations p))(cid \<mapsto> ip)
    \<and> (case map_of (allocations p) cid of
         Some old \<Rightarrow> ip = old
       | None \<Rightarrow> range_start p \<le> ip \<and> ip \<le> range_end p \<and> sn_contains (i_subnet p) ip
           \<and> ip \<notin> {network (i_subnet p), broadcast (i_subnet p), gateway p}
           \<and> (\<forall>c. map_of (allocations p) c \<noteq> Some ip)
           \<and> (\<forall>lower. range_start p \<le> lower \<longrightarrow> lower < ip \<longrightarrow> is_assignable p lower \<longrightarrow>
                (\<exists>c. map_of (allocations p) c = Some lower)))"
  using allocate_spec [OF assms] by (cases "map_of (allocations p) cid") (simp_all add: is_assignable_def)

lemma allocate_gives_lowest_free_witness:
  "\<exists>p' s'. allocate mem_store ''b'' (small_ipam, ()) = (Inr (167772163, 167772161, 29), p', s') \<and> ipam_ok p'"
proof -
  obtain r p' s' where r: "allocate mem_store ''b'' (small_ipam, ()) = (r, p', s')"
    by (cases "allocate mem_store ''b'' (small_ipam, ())") auto
  have "fst (allocate mem_store ''b'' (small_ipam, ())) = Inr (167772163, 167772161, 29)" by code_simp
  then show ?thesis
    using r allocate_gives_lowest_free [OF small_ok, of mem_store "''b''" "()" 167772163 167772161 29 p' s']
    by simp
qed

text \<open>Exhaustion is reported exactly when it is real: on a store that works, \<open>allocate\<close>
  fails if and only if the container has no address and every address of the range that may
  be handed out is held.\<close>
theorem exhausted_iff_none_free:
  assumes "ipam_ok p" and "range_start p \<le> range_end p"
  shows "(\<exists>e. fst (allocate mem_store cid (p, s)) = Inl e) \<longleftrightarrow>
    map_of (allocations p) cid = None \<and>
    (\<forall>ip. range_start p \<le> ip \<longrightarrow> ip \<le> range_end p \<longrightarrow> is_assignable p ip \<longrightarrow>
       (\<exists>c. map_of (allocations p) c = Some ip))"
  using scan_free_range(1) [OF assms(2), of "snd ` set (allocations p)"] taken_iff [OF assms(1)]
  by (cases "map_of (allocations p) cid"; cases "scan_free p (snd ` set (allocations p)) (range_start p)")
     (auto simp: allocate_def mem_store_def)

lemma exhausted_iff_none_free_witness:
  "\<exists>ip. range_start small_ipam \<le> ip \<and> ip \<le> range_end small_ipam \<and> is_assignable small_ipam ip
        \<and> (\<forall>c. map_of (allocations small_ipam) c \<noteq> Some ip)"
proof -
  have "isl (fst (allocate mem_store ''b'' (small_ipam, ()))) = False" by code_simp
  then have "\<not> (\<exists>e. fst (allocate mem_store ''b'' (small_ipam, ())) = Inl e)" by auto
  moreover have "map_of (allocations small_ipam) ''b'' = None" by (simp add: small_ipam_def)
  ultimately show ?thesis using exhausted_iff_none_free [OF small_ok, of "''b''" "()"] by blast
qed

text \<open>C29. Addresses survive the process: on a disk that works, the plugin's ADD and DEL,
  each of which opens the store anew, leave on disk exactly what they answered. An ADD that
  succeeds records its address, which no other container has there; one that fails leaves no
  address recorded for its container; a DEL forgets it.\<close>
theorem add_and_del_on_disk:
  assumes "disk_good d" and "with_store parse_net c (disk_store no_faults) d = Inr p"
    and "ipam_ok p" and "range_start p \<le> range_end p"
    and "cmd_add parse_net c (disk_store no_faults) cid apply d = (r, d')"
    and "cmd_del parse_net c (disk_store no_faults) cid d = (rd, dd)"
  shows "disk_load no_faults d = Inr (allocations p)
    \<and> (\<exists>m'. disk_load no_faults d' = Inr m' \<and>
         (case r of
            Inr ip \<Rightarrow> map_of m' = (map_of (allocations p))(cid \<mapsto> ip) \<and> (\<forall>c. c \<noteq> cid \<longrightarrow> map_of m' c \<noteq> Some ip)
          | Inl _ \<Rightarrow> map_of m' = (map_of (allocations p))(cid := None)))
    \<and> rd = None \<and> (\<exists>m'. disk_load no_faults dd = Inr m' \<and> map_of m' = (map_of (allocations p))(cid := None))"
proof -
  have load: "s_load (disk_store no_faults) = disk_load no_faults" by (simp add: disk_store_def)
  obtain m' where m': "disk_load no_faults d' = Inr m'" "map_of m' =
    (case r of Inr ip \<Rightarrow> (map_of (allocations p))(cid \<mapsto> ip) | Inl _ \<Rightarrow> (map_of (allocations p))(cid := None))"
    using on_disk.add_law [OF assms(1,2,5)] by (auto simp: load)
  have "map_of m' c \<noteq> Some ip" if r: "r = Inr ip" and c: "c \<noteq> cid" for c ip
  proof -
    obtain gw len p1 s1 where a: "allocate (disk_store no_faults) cid (p, d) = (Inr (ip, gw, len), p1, s1)"
      using assms(2,5) r by (auto simp: cmd_add_def split: sum.splits option.splits prod.splits)
    have "ipam_ok p1" "map_of (allocations p1) = (map_of (allocations p))(cid \<mapsto> ip)"
      using allocate_spec [OF assms(3,4) a] by blast+
    then show ?thesis using c r m'(2) unfolding ipam_ok_def by (metis fun_upd_apply sum.case(2))
  qed
  moreover have "disk_load no_faults d = Inr (allocations p)"
    using on_disk.opened_mirrored(2) [OF assms(1,2)] by (simp add: load)
  moreover have "rd = None \<and> (\<exists>m'. disk_load no_faults dd = Inr m' \<and> map_of m' = (map_of (allocations p))(cid := None))"
    using on_disk.del_law [OF assms(1,2,6)] by (auto simp: load)
  ultimately show ?thesis using m' by (auto split: sum.splits)
qed

text \<open>What a failed write costs: when the store refuses to record a new address,
  \<open>allocate\<close> reports the error but keeps the address in memory, so the container's next
  \<open>allocate\<close> succeeds with an address that was never recorded.\<close>
theorem retry_after_failed_persist_unrecorded:
  assumes "map_of (allocations p) cid = None"
    and "allocate (disk_store (no_faults\<lparr>f_write := Some e\<rparr>)) cid (p, d) = (Inl err, p', d')"
    and "\<exists>ip. scan_free p (snd ` set (allocations p)) (range_start p) = Some ip"
  shows "\<exists>ip. allocate (disk_store no_faults) cid (p', d') = (Inr (ip, gateway p, prefix_len (i_subnet p)), p', d')
    \<and> files d' = files d"
  using assms by (auto simp: allocate_def disk_store_def disk_persist_def no_faults_def update_conv' split: option.splits)

definition small_config :: ipam_config where
  "small_config = \<lparr>c_subnet = ''10.0.0.0/29'', c_range_start = [], c_range_end = [], c_gateway = []\<rparr>"

definition small_disk :: disk where
  "small_disk = \<lparr>dir_exists = True, files = [(''a'', Some ''10.0.0.2'')]\<rparr>"

lemma small_opened:
  "with_store (\<lambda>_. Inr small_subnet) small_config (disk_store no_faults) small_disk = Inr small_ipam"
proof -
  have "disk_load no_faults small_disk = Inr [(''a'', 167772162)]" by code_simp
  then show ?thesis
    by (simp add: with_store_def small_config_def addr_or_def disk_store_def small_ipam_def small_subnet_def
        next_ip_def prev_ip_def)
qed

lemma add_and_del_on_disk_witness:
  "\<exists>m'. disk_load no_faults (snd (cmd_add (\<lambda>_. Inr small_subnet) small_config (disk_store no_faults) ''b''
      (\<lambda>_ _ _. None) small_disk)) = Inr m' \<and> map_of m' ''b'' = Some 167772163"
proof -
  let ?add = "cmd_add (\<lambda>_. Inr small_subnet) small_config (disk_store no_faults) ''b'' (\<lambda>_ _ _. None) small_disk"
  let ?del = "cmd_del (\<lambda>_. Inr small_subnet) small_config (disk_store no_faults) ''b'' small_disk"
  have "scan_free small_ipam (snd ` set (allocations small_ipam)) (range_start small_ipam) = Some 167772163"
    by code_simp
  moreover have "map_of (allocations small_ipam) ''b'' = None" by (simp add: small_ipam_def)
  ultimately have "fst ?add = Inr 167772163"
    by (simp add: cmd_add_def small_opened allocate_def disk_persist_ok Let_def del: map_of_eq_None_iff)
  then obtain d' where add: "?add = (Inr 167772163, d')" by (metis prod.collapse)
  obtain rd dd where del: "?del = (rd, dd)" by force
  have "disk_good small_disk" by (simp add: disk_good_def small_disk_def)
  from add_and_del_on_disk [OF this small_opened small_ok add del] show ?thesis unfolding add by auto
qed

lemma retry_after_failed_persist_unrecorded_witness:
  "\<exists>p' d'. (\<exists>err. allocate (disk_store (no_faults\<lparr>f_write := Some ''ENOSPC''\<rparr>)) ''b'' (small_ipam, small_disk)
        = (Inl err, p', d'))
    \<and> (\<exists>ip. fst (allocate (disk_store no_faults) ''b'' (p', d')) = Inr ip) \<and> files d' = files small_disk"
proof -
  have s: "scan_free small_ipam (snd ` set (allocations small_ipam)) (range_start small_ipam) = Some 167772163"
    by code_simp
  have n: "map_of (allocations small_ipam) ''b'' = None" by (simp add: small_ipam_def)
  obtain err p' d' where "allocate (disk_store (no_faults\<lparr>f_write := Some ''ENOSPC''\<rparr>)) ''b'' (small_ipam, small_disk)
      = (Inl err, p', d')"
    using s n by (simp add: allocate_def disk_persist_def no_faults_def del: map_of_eq_None_iff)
  moreover have "\<exists>ip. scan_free small_ipam (snd ` set (allocations small_ipam)) (range_start small_ipam) = Some ip"
    using s by blast
  ultimately show ?thesis using retry_after_failed_persist_unrecorded [OF n] by (metis fst_conv)
qed

end
