(* ===== verification/Crashloop.thy ===== *)
theory Crashloop
  imports Prelude
begin

text \<open>\<open>pkg/kubelet/src/crashloop.rs\<close>: the restart back-off of a container that keeps dying,
  keyed by pod UID and container name, and its file, which carries it over a restart of the
  kubelet. Each operation reads the clocks once: \<open>now\<close> the monotonic one and \<open>wall\<close> the
  wall clock in seconds; the file's JSON is the map it encodes.\<close>

definition BASE :: duration where "BASE = secs 10"
definition CAP :: duration where "CAP = secs 300"
definition STABLE :: duration where "STABLE = secs 600"

record cl_entry =
  cl_delay :: duration
  ready_at :: instant
  restarted_at :: instant

record saved =
  delay_secs :: nat
  s_ready_at :: nat
  s_restarted_at :: nat

text \<open>\<open>kept\<close> is what the file holds, once \<open>persist_to\<close> has named one; \<open>None\<close> before.\<close>
record crashloop =
  entries :: "string \<Rightarrow> cl_entry option"
  kept :: "(string \<Rightarrow> saved option) option"

definition crashloop_new :: crashloop where
  "crashloop_new = \<lparr>entries = \<lambda>_. None, kept = None\<rparr>"

record clock =
  now :: instant
  now_wall :: nat

definition wall :: "instant \<Rightarrow> clock \<Rightarrow> nat" where
  "wall i c = (if now c \<le> i then now_wall c + as_secs (nat (i - now c))
               else now_wall c - as_secs (nat (now c - i)))"

definition instant_of :: "nat \<Rightarrow> clock \<Rightarrow> instant" where
  "instant_of w c = (if now_wall c \<le> w then now c + int (secs (w - now_wall c))
                     else now c - int (secs (now_wall c - w)))"

definition saved_of :: "clock \<Rightarrow> cl_entry \<Rightarrow> saved" where
  "saved_of c e = \<lparr>delay_secs = as_secs (cl_delay e), s_ready_at = wall (ready_at e) c,
                   s_restarted_at = wall (restarted_at e) c\<rparr>"

text \<open>\<open>ok\<close> says whether the write and the rename worked.\<close>
definition save :: "clock \<Rightarrow> bool \<Rightarrow> crashloop \<Rightarrow> crashloop" where
  "save c ok st = (case kept st of
      None \<Rightarrow> st
    | Some _ \<Rightarrow> if ok then st\<lparr>kept := Some (\<lambda>k. map_option (saved_of c) (entries st k))\<rparr> else st)"

text \<open>\<open>file\<close> is the map an earlier kubelet left, if it can be read.\<close>
definition persist_to ::
    "clock \<Rightarrow> bool \<Rightarrow> (string \<Rightarrow> saved option) option \<Rightarrow> crashloop \<Rightarrow> crashloop" where
  "persist_to c ok file st =
     (let old = (case file of Some m \<Rightarrow> m | None \<Rightarrow> \<lambda>_. None);
          restored = (\<lambda>k. case old k of
              None \<Rightarrow> entries st k
            | Some s \<Rightarrow>
                if as_secs STABLE \<le> now_wall c - s_restarted_at s then entries st k
                else (case entries st k of
                  Some e \<Rightarrow> Some e
                | None \<Rightarrow> Some \<lparr>cl_delay = secs (delay_secs s),
                                ready_at = instant_of (s_ready_at s) c,
                                restarted_at = instant_of (s_restarted_at s) c\<rparr>))
      in save c ok (st\<lparr>entries := restored, kept := Some old\<rparr>))"

definition cl_key :: "string \<Rightarrow> string \<Rightarrow> string" where
  "cl_key pod_uid container = pod_uid @ ''/'' @ container"

definition wait :: "crashloop \<Rightarrow> string \<Rightarrow> instant \<Rightarrow> duration option" where
  "wait st k t = (case entries st k of
      None \<Rightarrow> None
    | Some e \<Rightarrow> if t < ready_at e then Some (since t (ready_at e)) else None)"

definition restarted :: "clock \<Rightarrow> bool \<Rightarrow> string \<Rightarrow> crashloop \<Rightarrow> crashloop" where
  "restarted c ok k st =
     (let d = (case entries st k of
          Some e \<Rightarrow> if STABLE \<le> since (restarted_at e) (now c) then BASE else min (cl_delay e * 2) CAP
        | None \<Rightarrow> BASE)
      in save c ok (st\<lparr>entries := (entries st)(k \<mapsto>
           \<lparr>cl_delay = d, ready_at = now c + int d, restarted_at = now c\<rparr>)\<rparr>))"

definition running :: "clock \<Rightarrow> bool \<Rightarrow> string \<Rightarrow> crashloop \<Rightarrow> crashloop" where
  "running c ok k st =
     (case entries st k of
        Some e \<Rightarrow> if STABLE \<le> since (restarted_at e) (now c)
                   then save c ok (st\<lparr>entries := (entries st)(k := None)\<rparr>) else st
      | None \<Rightarrow> st)"

definition forget_pod :: "clock \<Rightarrow> bool \<Rightarrow> string \<Rightarrow> crashloop \<Rightarrow> crashloop" where
  "forget_pod c ok pod_uid st =
     (let prefix = pod_uid @ ''/'';
          es = (\<lambda>k. if starts_with k prefix then None else entries st k)
      in if es = entries st then st else save c ok (st\<lparr>entries := es\<rparr>))"

section \<open>Delays\<close>

lemma entries_save [simp]: "entries (save c ok st) = entries st"
  by (simp add: save_def split: option.split)

text \<open>Every entry's delay is in range and its restart is allowed that long after the last.\<close>
definition delays_ok :: "crashloop \<Rightarrow> bool" where
  "delays_ok st \<longleftrightarrow> (\<forall>k e. entries st k = Some e \<longrightarrow>
     BASE \<le> cl_delay e \<and> cl_delay e \<le> CAP \<and> ready_at e = restarted_at e + int (cl_delay e))"

lemma delays_ok_restarted [inv_intros]: "delays_ok st \<Longrightarrow> delays_ok (restarted c ok k st)"
  by (fastforce simp: delays_ok_def restarted_def Let_def BASE_def CAP_def split: option.splits)

lemma delays_ok_running [inv_intros]: "delays_ok st \<Longrightarrow> delays_ok (running c ok k st)"
  by (auto simp: delays_ok_def running_def split: option.splits if_splits)

lemma delays_ok_forget [inv_intros]: "delays_ok st \<Longrightarrow> delays_ok (forget_pod c ok u st)"
  by (auto simp: delays_ok_def forget_pod_def Let_def split: if_splits)

inductive cl_step :: "crashloop \<Rightarrow> crashloop \<Rightarrow> bool" where
  cl_restarted: "cl_step st (restarted c ok k st)"
| cl_running: "cl_step st (running c ok k st)"
| cl_forget: "cl_step st (forget_pod c ok u st)"

interpretation crashes: inv_system cl_step crashloop_new delays_ok
proof
  show "delays_ok crashloop_new" by (simp add: delays_ok_def crashloop_new_def)
  show "delays_ok t" if "delays_ok s" "cl_step s t" for s t
    using that(2,1) by cases (auto intro: inv_intros)
qed

text \<open>The clock readings of the \<open>n\<close>-th and later restarts of a loop, each allowed by the
  back-off but before the container counts as stable.\<close>
fun crash_again :: "string \<Rightarrow> clock list \<Rightarrow> crashloop \<Rightarrow> crashloop" where
  "crash_again k [] st = st"
| "crash_again k (c # cs) st = crash_again k cs (restarted c True k st)"

fun within_stable :: "instant \<Rightarrow> clock list \<Rightarrow> bool" where
  "within_stable t [] = True"
| "within_stable t (c # cs) = (since t (now c) < STABLE \<and> within_stable (now c) cs)"

lemma min_scale: "1 \<le> m \<Longrightarrow> min (min a c * m) c = min (a * m) (c :: nat)"
proof (cases "a \<le> c")
  case False
  assume "1 \<le> m"
  then have "c * 1 \<le> c * m" "a * 1 \<le> a * m" by (intro mult_le_mono2; simp)+
  then have "c \<le> c * m" "c \<le> a * m" "c \<le> a" using False by linarith+
  then show ?thesis by (simp only: min_absorb2)
qed simp

lemma crash_again_entry:
  assumes "entries st k = Some e" and "within_stable (restarted_at e) cs" and "cl_delay e \<le> CAP"
    and "ready_at e = restarted_at e + int (cl_delay e)"
  shows "\<exists>e'. entries (crash_again k cs st) k = Some e' \<and> cl_delay e' = min (cl_delay e * 2 ^ length cs) CAP
    \<and> restarted_at e' = last (restarted_at e # map now cs) \<and> ready_at e' = restarted_at e' + int (cl_delay e')"
  using assms
proof (induction cs arbitrary: st e)
  case (Cons c cs)
  let ?d = "min (cl_delay e * 2) CAP"
  let ?e = "\<lparr>cl_delay = ?d, ready_at = now c + int ?d, restarted_at = now c\<rparr>"
  have "entries (restarted c True k st) k = Some ?e"
    using Cons.prems by (simp add: restarted_def Let_def)
  then obtain e' where "entries (crash_again k cs (restarted c True k st)) k = Some e'"
    "cl_delay e' = min (?d * 2 ^ length cs) CAP" "restarted_at e' = last (now c # map now cs)"
    "ready_at e' = restarted_at e' + int (cl_delay e')"
    using Cons.IH [of "restarted c True k st" ?e] Cons.prems by auto
  moreover have "min (?d * 2 ^ length cs) CAP = min (cl_delay e * 2 * 2 ^ length cs) CAP"
    by (rule min_scale) simp
  ultimately show ?case by (simp add: mult.assoc)
qed (simp add: min_def)

section \<open>Properties\<close>

text \<open>A crash loop backs off: the first restart of a container without history is
  immediate, and after \<open>n\<close> more restarts, none of them after a stable run, the next one waits
  ten seconds doubled \<open>n\<close> times, at most five minutes, from the moment of the last.\<close>
theorem crash_loop_doubles:
  assumes "entries st k = None" and "within_stable (now c) cs"
  shows "wait st k (now c) = None
    \<and> wait (crash_again k (c # cs) st) k (last (map now (c # cs))) = Some (min (BASE * 2 ^ length cs) CAP)"
proof -
  let ?e = "\<lparr>cl_delay = BASE, ready_at = now c + int BASE, restarted_at = now c\<rparr>"
  have "entries (restarted c True k st) k = Some ?e"
    using assms(1) by (simp add: restarted_def Let_def)
  from crash_again_entry [OF this, of cs] obtain e' where
    "entries (crash_again k (c # cs) st) k = Some e'" "cl_delay e' = min (BASE * 2 ^ length cs) CAP"
    "restarted_at e' = last (map now (c # cs))" "ready_at e' = restarted_at e' + int (cl_delay e')"
    using assms(2) by (auto simp: BASE_def CAP_def)
  moreover have "0 < min (BASE * 2 ^ length cs) CAP" by (simp add: BASE_def CAP_def)
  ultimately show ?thesis using assms(1) by (simp add: wait_def since_def)
qed

definition tick :: "int \<Rightarrow> clock" where
  "tick s = \<lparr>now = s * 1000000000, now_wall = nat (1000 + s)\<rparr>"

lemma crash_loop_doubles_witness:
  "wait (crash_again ''u/c'' [tick 0, tick 10, tick 30, tick 70] crashloop_new) ''u/c'' 70000000000 = Some (secs 80)"
  using crash_loop_doubles [of crashloop_new "''u/c''" "tick 0" "[tick 10, tick 30, tick 70]"]
  by (simp add: crashloop_new_def tick_def since_def STABLE_def BASE_def CAP_def)

text \<open>The back-off never holds a container for more than five minutes: whatever restarts,
  stable runs and deletions happened, a container that must wait waits at most \<open>CAP\<close> once its
  last restart is past.\<close>
theorem wait_at_most_cap:
  assumes "cl_step\<^sup>*\<^sup>* crashloop_new st" and "entries st k = Some e" and "restarted_at e \<le> t"
    and "wait st k t = Some d"
  shows "d \<le> CAP \<and> d \<le> cl_delay e"
  using crashes.inv_reachable [OF assms(1)] assms(2-4)
  by (fastforce simp: delays_ok_def wait_def since_def split: if_splits)

lemma wait_at_most_cap_witness:
  "wait (restarted (tick 0) True ''u/c'' crashloop_new) ''u/c'' 4000000000 = Some (secs 6) \<and> secs 6 \<le> CAP"
proof -
  let ?st = "restarted (tick 0) True ''u/c'' crashloop_new"
  have "wait ?st ''u/c'' 4000000000 = Some (secs 6)"
    by (simp add: wait_def restarted_def crashloop_new_def tick_def since_def BASE_def save_def Let_def)
  moreover have "cl_step\<^sup>*\<^sup>* crashloop_new ?st" by (blast intro: cl_restarted)
  ultimately show ?thesis
    using wait_at_most_cap [of ?st "''u/c''" _ 4000000000 "secs 6"]
    by (simp add: restarted_def crashloop_new_def tick_def Let_def)
qed

text \<open>A back-off survives a restart of the kubelet: what was saved at one reading of the
  clocks and taken back at a later one, within the stable window, has the same delay in whole
  seconds, and what is left to wait is what was left, in whole seconds, less the wall-clock
  time in between.\<close>
theorem backoff_survives_restart:
  assumes "kept st \<noteq> None" and "entries st k = Some e" and "restarted_at e \<le> now c"
    and "as_secs (since (restarted_at e) (now c)) \<le> now_wall c" and "now_wall c \<le> now_wall c'"
    and "as_secs (since (restarted_at e) (now c)) + (now_wall c' - now_wall c) < as_secs STABLE"
    and "now c \<le> ready_at e"
  shows "\<exists>e'. entries (persist_to c' ok (kept (save c True st)) crashloop_new) k = Some e'
    \<and> cl_delay e' = secs (as_secs (cl_delay e))
    \<and> ready_at e' - now c' =
        int (secs (as_secs (since (now c) (ready_at e)))) - int (secs (now_wall c' - now_wall c))"
proof -
  let ?s = "saved_of c e"
  have f: "kept (save c True st) = Some (\<lambda>k. map_option (saved_of c) (entries st k))"
    using assms(1) by (auto simp: save_def)
  have r: "s_restarted_at ?s = now_wall c - as_secs (since (restarted_at e) (now c))"
    using assms(3) by (auto simp: saved_of_def wall_def since_def as_secs_def)
  have y: "s_ready_at ?s = now_wall c + as_secs (since (now c) (ready_at e))"
    using assms(7) by (simp add: saved_of_def wall_def since_def)
  have "\<not> as_secs STABLE \<le> now_wall c' - s_restarted_at ?s"
    using assms(4-6) unfolding r by linarith
  then have "entries (persist_to c' ok (kept (save c True st)) crashloop_new) k =
      Some \<lparr>cl_delay = secs (delay_secs ?s), ready_at = instant_of (s_ready_at ?s) c',
            restarted_at = instant_of (s_restarted_at ?s) c'\<rparr>"
    using assms(2) by (simp add: persist_to_def f crashloop_new_def Let_def)
  moreover have "instant_of (s_ready_at ?s) c' - now c' =
      int (secs (as_secs (since (now c) (ready_at e)))) - int (secs (now_wall c' - now_wall c))"
    unfolding y instant_of_def using assms(5) by (simp add: of_nat_diff algebra_simps)
  ultimately show ?thesis by (simp add: saved_of_def)
qed

lemma backoff_survives_restart_witness:
  "\<exists>e'. entries (persist_to (tick 4) True
      (kept (save (tick 1) True (restarted (tick 0) True ''u/c'' (crashloop_new\<lparr>kept := Some (\<lambda>_. None)\<rparr>))))
      crashloop_new) ''u/c'' = Some e' \<and> ready_at e' = 10000000000"
proof -
  let ?st = "restarted (tick 0) True ''u/c'' (crashloop_new\<lparr>kept := Some (\<lambda>_. None)\<rparr>)"
  let ?e = "\<lparr>cl_delay = BASE, ready_at = int BASE, restarted_at = 0\<rparr>"
  have "entries ?st ''u/c'' = Some ?e" "kept ?st \<noteq> None"
    by (simp_all add: restarted_def save_def crashloop_new_def tick_def Let_def)
  then show ?thesis
    using backoff_survives_restart [of ?st "''u/c''" ?e "tick 1" "tick 4" True]
    by (simp add: tick_def since_def as_secs_def STABLE_def BASE_def) force
qed

text \<open>Forgetting a pod removes every container of it and nothing else: a UID has no
  slash, so no other pod's key begins with it.\<close>
theorem forget_pod_exact:
  assumes "CHR ''/'' \<notin> set u" and "CHR ''/'' \<notin> set u'"
  shows "entries (forget_pod c ok u st) (cl_key u' n) = (if u' = u then None else entries st (cl_key u' n))"
proof -
  have "starts_with (cl_key u' n) (u @ ''/'') \<longleftrightarrow> u' = u"
  proof
    assume "starts_with (cl_key u' n) (u @ ''/'')"
    then have "u' @ CHR ''/'' # n = u @ CHR ''/'' # drop (Suc (length u)) (cl_key u' n)"
      by (metis (no_types, lifting) append.assoc append_Cons append_Nil append_take_drop_id cl_key_def
          length_append_singleton starts_with_def)
    then show "u' = u" using assms split_once_append by (metis option.inject prod.inject)
  qed (simp add: starts_with_def cl_key_def)
  moreover have "entries (forget_pod c ok u st) = (\<lambda>k. if starts_with k (u @ ''/'') then None else entries st k)"
    by (simp add: forget_pod_def Let_def)
  ultimately show ?thesis by simp
qed

lemma forget_pod_exact_witness:
  "entries (forget_pod (tick 1) True ''a'' (restarted (tick 0) True ''ab/c'' crashloop_new)) ''ab/c'' \<noteq> None"
  using forget_pod_exact [of "''a''" "''ab''" "tick 1" True "restarted (tick 0) True ''ab/c'' crashloop_new" "''c''"]
  by (simp add: cl_key_def restarted_def crashloop_new_def Let_def)

end
