(* ===== verification/Deadlines.thy ===== *)
theory Deadlines
  imports Json
begin

text \<open>\<open>pkg/kubelet/src/pod_manager/deadlines.rs\<close>: when a pod must be looked at again with no
  event to say so. Probe runs and the earliest deadline of each pod, and the delays of a
  start that waits. \<open>t\<close> is the clock reading of the operation.\<close>

definition RECHECK :: duration where "RECHECK = secs 1"
definition WAIT_CAP :: duration where "WAIT_CAP = secs 10"
definition NETWORK_FALLBACK :: duration where "NETWORK_FALLBACK = WAIT_CAP"

definition STARTUP :: string where "STARTUP = ''startup''"
definition LIVENESS :: string where "LIVENESS = ''liveness''"
definition READINESS :: string where "READINESS = ''readiness''"

record probe_run =
  run_started :: "instant option"
  run_at :: instant

text \<open>A probe is keyed by pod UID, container and kind.\<close>
type_synonym probe_key = "string \<times> string \<times> string"

record deadlines =
  probes :: "probe_key \<Rightarrow> probe_run option"
  due :: "string \<Rightarrow> instant option"

definition deadlines_new :: deadlines where
  "deadlines_new = \<lparr>probes = \<lambda>_. None, due = \<lambda>_. None\<rparr>"

definition period :: "json \<Rightarrow> duration" where
  "period probe = secs (max (case as_u64 (jget probe ''periodSeconds'') of Some n \<Rightarrow> n | None \<Rightarrow> 10) 1)"

definition initial_delay :: "json \<Rightarrow> duration" where
  "initial_delay probe = secs (case as_u64 (jget probe ''initialDelaySeconds'') of Some n \<Rightarrow> n | None \<Rightarrow> 0)"

definition clamp :: "nat \<Rightarrow> nat \<Rightarrow> nat \<Rightarrow> nat" where
  "clamp x lo hi = (if x < lo then lo else if hi < x then hi else x)"

definition wait_backoff :: "duration \<Rightarrow> duration" where
  "wait_backoff waited = clamp (waited div 4) RECHECK WAIT_CAP"

definition start_backoff :: "duration \<Rightarrow> duration" where
  "start_backoff waited = clamp waited (secs 10) (secs 300)"

definition create_backoff :: "nat \<Rightarrow> duration \<Rightarrow> duration" where
  "create_backoff refusals waited =
     (let fast = saturating_mul (millis 500) (2 ^ min (refusals - 1) 16)
      in if 0 < refusals \<and> fast < secs 10 then fast else start_backoff waited)"

definition due_at :: "string \<Rightarrow> instant \<Rightarrow> deadlines \<Rightarrow> deadlines" where
  "due_at u at d = d\<lparr>due := (due d)(u \<mapsto> (case due d u of Some x \<Rightarrow> min x at | None \<Rightarrow> at))\<rparr>"

definition due_in :: "instant \<Rightarrow> string \<Rightarrow> duration \<Rightarrow> deadlines \<Rightarrow> deadlines" where
  "due_in t u after d = due_at u (t + int after) d"

text \<open>The part of \<open>probe_due\<close> after the initial delay.\<close>
definition period_due ::
    "instant \<Rightarrow> string \<Rightarrow> string \<Rightarrow> string \<Rightarrow> json \<Rightarrow> instant option \<Rightarrow> deadlines \<Rightarrow> bool \<times> deadlines" where
  "period_due t u container k probe started d =
     (case probes d (u, container, k) of
        Some run \<Rightarrow>
          if run_started run = started \<and> t < run_at run + int (period probe)
          then (False, due_at u (run_at run + int (period probe)) d)
          else (True, d)
      | None \<Rightarrow> (True, d))"

definition probe_due ::
    "instant \<Rightarrow> string \<Rightarrow> string \<Rightarrow> string \<Rightarrow> json \<Rightarrow> instant option \<Rightarrow> deadlines \<Rightarrow> bool \<times> deadlines" where
  "probe_due t u container k probe started d =
     (case started of
        Some start \<Rightarrow>
          (let first = start + int (initial_delay probe)
           in if t < first then (False, due_at u first d)
              else period_due t u container k probe started d)
      | None \<Rightarrow> period_due t u container k probe started d)"

definition probed ::
    "instant \<Rightarrow> string \<Rightarrow> string \<Rightarrow> string \<Rightarrow> json \<Rightarrow> instant option \<Rightarrow> deadlines \<Rightarrow> deadlines" where
  "probed t u container k probe started d =
     due_at u (t + int (period probe))
       (d\<lparr>probes := (probes d)((u, container, k) \<mapsto> \<lparr>run_started = started, run_at = t\<rparr>)\<rparr>)"

definition take_due :: "instant \<Rightarrow> string \<Rightarrow> deadlines \<Rightarrow> duration option \<times> deadlines" where
  "take_due t u d = (map_option (since t) (due d u), d\<lparr>due := (due d)(u := None)\<rparr>)"

definition forget_deadlines :: "string \<Rightarrow> deadlines \<Rightarrow> deadlines" where
  "forget_deadlines u d =
     d\<lparr>due := (due d)(u := None), probes := (\<lambda>key. if fst key = u then None else probes d key)\<rparr>"

section \<open>Facts\<close>

lemma period_pos: "0 < period probe"
  by (simp add: period_def)

lemma clamp_range: "lo \<le> hi \<Longrightarrow> lo \<le> clamp x lo hi \<and> clamp x lo hi \<le> hi"
  by (simp add: clamp_def)

lemma clamp_mono: "lo \<le> hi \<Longrightarrow> x \<le> y \<Longrightarrow> clamp x lo hi \<le> clamp y lo hi"
  by (simp add: clamp_def)

text \<open>A pod has a deadline no later than \<open>at\<close>.\<close>
definition due_by :: "string \<Rightarrow> instant \<Rightarrow> deadlines \<Rightarrow> bool" where
  "due_by u at d = (case due d u of Some x \<Rightarrow> x \<le> at | None \<Rightarrow> False)"

lemma due_by_due_at: "due_by u at (due_at v x d) = (due_by u at d \<or> (u = v \<and> x \<le> at))"
  by (auto simp: due_by_def due_at_def split: option.split)

lemma probe_due_keeps: "due_by u at d \<Longrightarrow> due_by u at (snd (probe_due t v c k p s d))"
  by (auto simp: probe_due_def period_due_def Let_def due_by_due_at split: option.split)

lemma probed_keeps: "due_by u at d \<Longrightarrow> due_by u at (probed t v c k p s d)"
  unfolding probed_def due_by_due_at by (simp add: due_by_def)

section \<open>Properties\<close>

text \<open>Probes are spaced and never forgotten: after a probe ran, it is not due again for
  the same start of the container until a period has passed, then it is; a restart is probed
  anew, from its initial delay; and whenever a probe is not due, the pod has a deadline no
  later than the moment it will be.\<close>
theorem probe_spacing:
  fixes d t u c k p s
  defines "d' \<equiv> probed t u c k p s d"
  assumes "case s of Some start \<Rightarrow> start + int (initial_delay p) \<le> t | None \<Rightarrow> True" and "t \<le> t'"
  shows "(fst (probe_due t' u c k p s d') \<longleftrightarrow> t + int (period p) \<le> t')
    \<and> due_by u (t + int (period p)) d'
    \<and> (fst (probe_due t' u c k p (Some start') d') \<longleftrightarrow>
         start' + int (initial_delay p) \<le> t' \<and> (Some start' = s \<longrightarrow> t + int (period p) \<le> t'))
    \<and> (\<not> fst (probe_due t' u c k p (Some start') d') \<longrightarrow>
         due_by u (max (start' + int (initial_delay p)) (t + int (period p)))
           (snd (probe_due t' u c k p (Some start') d')))"
proof -
  have run: "probes d' (u, c, k) = Some \<lparr>run_started = s, run_at = t\<rparr>"
    by (simp add: d'_def probed_def due_at_def)
  have by_period: "due_by u (t + int (period p)) d'"
    by (simp add: d'_def probed_def due_by_due_at)
  have "fst (probe_due t' u c k p s d') \<longleftrightarrow> t + int (period p) \<le> t'"
    using assms(2,3) run by (cases s) (auto simp: probe_due_def period_due_def Let_def)
  moreover have "fst (probe_due t' u c k p (Some start') d') \<longleftrightarrow>
       start' + int (initial_delay p) \<le> t' \<and> (Some start' = s \<longrightarrow> t + int (period p) \<le> t')"
    using run by (auto simp: probe_due_def period_due_def Let_def)
  moreover have "due_by u (max (start' + int (initial_delay p)) (t + int (period p)))
      (snd (probe_due t' u c k p (Some start') d'))"
    by (rule probe_due_keeps) (use by_period in \<open>auto simp: due_by_def split: option.splits\<close>)
  ultimately show ?thesis using by_period by blast
qed

definition http_probe :: json where
  "http_probe = JObj [(''initialDelaySeconds'', JInt 5), (''periodSeconds'', JInt 3)]"

lemma probe_spacing_witness:
  "\<not> fst (probe_due 11000000000 ''u'' ''c'' LIVENESS http_probe (Some 0)
        (probed 9000000000 ''u'' ''c'' LIVENESS http_probe (Some 0) deadlines_new))
   \<and> fst (probe_due 12000000000 ''u'' ''c'' LIVENESS http_probe (Some 0)
        (probed 9000000000 ''u'' ''c'' LIVENESS http_probe (Some 0) deadlines_new))"
proof -
  have e: "initial_delay http_probe = secs 5" "period http_probe = secs 3"
    by (simp_all add: initial_delay_def period_def http_probe_def json_simps)
  show ?thesis
    using probe_spacing [where s = "Some 0" and p = http_probe and t = 9000000000 and t' = 11000000000
          and u = "''u''" and c = "''c''" and k = LIVENESS and d = deadlines_new]
      probe_spacing [where s = "Some 0" and p = http_probe and t = 9000000000 and t' = 12000000000
          and u = "''u''" and c = "''c''" and k = LIVENESS and d = deadlines_new]
    by (simp add: e)
qed

text \<open>The delays of a waiting start stay in their ranges and grow with the wait: one to
  ten seconds for a wait, ten seconds to five minutes after failures, and after a refused
  create half a second doubling up to eight seconds before joining the latter.\<close>
theorem start_delays_in_range:
  "RECHECK \<le> wait_backoff w \<and> wait_backoff w \<le> WAIT_CAP \<and> wait_backoff w \<le> wait_backoff (w + x)
   \<and> secs 10 \<le> start_backoff w \<and> start_backoff w \<le> secs 300 \<and> start_backoff w \<le> start_backoff (w + x)
   \<and> create_backoff (Suc n) w = (if n \<le> 4 then millis 500 * 2 ^ n else start_backoff w)
   \<and> create_backoff 0 w = start_backoff w"
proof -
  have "(millis 500 * 2 ^ min n 16 < secs 10) = (n \<le> 4)"
  proof (cases "n \<le> 4")
    case True
    then have "(2 :: nat) ^ min n 16 \<le> 2 ^ 4" by (intro power_increasing) auto
    then show ?thesis using True by simp
  next
    case False
    then have "(2 :: nat) ^ 5 \<le> 2 ^ min n 16" by (intro power_increasing) auto
    then show ?thesis using False by simp
  qed
  moreover have "saturating_mul (millis 500) (2 ^ min n 16) = millis 500 * 2 ^ min n 16"
  proof -
    have "(2 :: nat) ^ min n 16 \<le> 2 ^ 16" by (intro power_increasing) auto
    then show ?thesis by (simp add: saturating_mul_def duration_max_def min_def)
  qed
  ultimately have "create_backoff (Suc n) w = (if n \<le> 4 then millis 500 * 2 ^ n else start_backoff w)"
    by (simp add: create_backoff_def Let_def min_def)
  then show ?thesis
    by (simp add: wait_backoff_def start_backoff_def create_backoff_def RECHECK_def WAIT_CAP_def
        clamp_range clamp_mono div_le_mono)
qed

end
