(* ===== verification/PodState.thy ===== *)
theory PodState
  imports Json Crashloop Deadlines "HOL-Library.AList"
begin

text \<open>The data of the pod manager (\<open>pkg/kubelet/src/pod_manager.rs\<close>, \<open>cri.rs\<close>): what it keeps
  of a pod, the reports it makes, the runtime's answers and errors, and the pure helpers on
  pod objects that its status pass uses. Times the runtime reports and exit codes are
  integers; the states and reasons of the API are their strings, as in the code.\<close>

section \<open>Errors and answers of the runtime\<close>

datatype cri_error =
    Pending string
  | Connection string
  | Runtime string
  | NotFound string
  | ImagePull string
  | Container string string string
  | VolumeNotReady string
  | NetworkNotReady string
  | NetworkNotConfigured string
  | NodeStorage string
  | Timeout
  | Migration string

text \<open>\<open>Display\<close>, as its derive attributes say.\<close>
definition show_cri_error :: "cri_error \<Rightarrow> string" where
  "show_cri_error e = (case e of
      Pending s \<Rightarrow> ''startup pending: '' @ s
    | Connection s \<Rightarrow> ''connection error: '' @ s
    | Runtime s \<Rightarrow> ''runtime error: '' @ s
    | NotFound s \<Rightarrow> ''not found: '' @ s
    | ImagePull s \<Rightarrow> ''image pull error: '' @ s
    | Container c r m \<Rightarrow> r @ '': container '' @ c @ '': '' @ m
    | VolumeNotReady s \<Rightarrow> ''volume not ready: '' @ s
    | NetworkNotReady s \<Rightarrow> ''network not ready: '' @ s
    | NetworkNotConfigured s \<Rightarrow> ''network not ready: '' @ s
    | NodeStorage s \<Rightarrow> ''node storage: '' @ s
    | Timeout \<Rightarrow> ''timeout''
    | Migration s \<Rightarrow> ''migration error: '' @ s)"

definition container_error :: "cri_error \<Rightarrow> string \<Rightarrow> string \<Rightarrow> cri_error" where
  "container_error e container reason = (case e of
      Runtime _ \<Rightarrow> Container container reason (show_cri_error e)
    | NotFound _ \<Rightarrow> Container container reason (show_cri_error e)
    | Timeout \<Rightarrow> Container container reason (show_cri_error e)
    | ImagePull _ \<Rightarrow> Container container reason (show_cri_error e)
    | Migration _ \<Rightarrow> Container container reason (show_cri_error e)
    | _ \<Rightarrow> e)"

datatype container_state = Created | Running | Exited | Unknown

record container_status_info =
  si_state :: container_state
  si_started_at :: int
  si_finished_at :: int
  si_exit_code :: int
  si_image :: string
  si_image_ref :: string
  si_reason :: string
  si_message :: string

datatype probe_result = ProbeSuccess | ProbeFailure string | ProbeUnknown

section \<open>Reports\<close>

record container_report =
  cr_name :: string
  cr_container_id :: string
  cr_state :: string
  cr_ready :: bool
  cr_restart_count :: nat
  cr_exit_code :: int
  cr_image :: string
  cr_image_ref :: string
  cr_reason :: string
  cr_message :: string
  cr_started_at :: int
  cr_finished_at :: int

record init_report =
  ir_name :: string
  ir_container_id :: string
  ir_state :: string
  ir_exit_code :: int
  ir_reason :: string
  ir_message :: string
  ir_image :: string
  ir_image_ref :: string
  ir_started_at :: int
  ir_finished_at :: int
  ir_restartable :: bool
  ir_started :: bool
  ir_ready :: bool
  ir_restart_count :: nat

definition succeeded :: "init_report \<Rightarrow> bool" where
  "succeeded r = (ir_state r = ''terminated'' \<and> ir_exit_code r = 0)"

definition initialized :: "init_report \<Rightarrow> bool" where
  "initialized r = (succeeded r \<or> (ir_restartable r \<and> ir_started r))"

record last_terminated =
  lt_exit_code :: int
  lt_reason :: string
  lt_message :: string
  lt_started_at :: int
  lt_finished_at :: int

definition terminated_reason :: "string \<Rightarrow> int \<Rightarrow> string" where
  "terminated_reason runtime exit_code =
     (if runtime \<noteq> [] then runtime else if exit_code = 0 then ''Completed'' else ''Error'')"

definition last_terminated_of :: "container_status_info \<Rightarrow> last_terminated" where
  "last_terminated_of s = \<lparr>lt_exit_code = si_exit_code s,
     lt_reason = terminated_reason (si_reason s) (si_exit_code s), lt_message = si_message s,
     lt_started_at = si_started_at s, lt_finished_at = si_finished_at s\<rparr>"

record pod_status_update =
  pu_namespace :: string
  pu_name :: string
  pu_phase :: string
  pu_message :: string
  pu_reason :: string
  pu_container_statuses :: "container_report list"
  pu_init_container_statuses :: "init_report list"
  pu_declared_init_containers :: nat
  pu_pod_ip :: "string option"

section \<open>What is kept of a pod\<close>

text \<open>\<open>container_ids\<close> is a list in the map's iteration order; the other maps are only looked
  up.\<close>
record pod_state =
  ps_namespace :: string
  ps_name :: string
  ps_uid :: string
  sandbox_id :: "string option"
  container_ids :: "(string \<times> string) list"
  ps_phase :: string
  ps_pod :: json
  ps_pod_ip :: "string option"
  restart_counts :: "string \<Rightarrow> nat option"
  ps_ready :: "string \<Rightarrow> bool option"
  liveness_failures :: "string \<Rightarrow> nat option"
  startup_passed :: "string \<Rightarrow> bool option"
  ps_started :: "string \<Rightarrow> instant option"
  terminated :: "string \<Rightarrow> int option"
  init_statuses :: "init_report list"
  sandbox_stopped :: bool

section \<open>Helpers on pod objects\<close>

definition is_restartable_init :: "json \<Rightarrow> bool" where
  "is_restartable_init spec = (as_str (jget spec ''restartPolicy'') = Some ''Always'')"

definition sidecar_names :: "json \<Rightarrow> string list" where
  "sidecar_names pod =
     List.map_filter (\<lambda>c. as_str (jget c ''name''))
       (filter is_restartable_init (elems (jpath pod [''spec'', ''initContainers''])))"

definition declared_init_containers :: "json \<Rightarrow> nat" where
  "declared_init_containers pod = length (elems (jpath pod [''spec'', ''initContainers'']))"

text \<open>\<open>active\<close> is how long the pod has been active by its \<open>status.startTime\<close> (the date parser
  and calendar clock are a library's), \<open>seen\<close> when this kubelet first saw it.\<close>
definition active_deadline_left ::
    "(string \<Rightarrow> duration option) \<Rightarrow> json \<Rightarrow> instant option \<Rightarrow> instant \<Rightarrow> duration option" where
  "active_deadline_left active_since pod seen t =
     (case as_u64 (jpath pod [''spec'', ''activeDeadlineSeconds'']) of
        None \<Rightarrow> None
      | Some n \<Rightarrow>
          (let by_status = (case as_str (jpath pod [''status'', ''startTime'']) of
                 Some s \<Rightarrow> active_since s | None \<Rightarrow> None);
               active = (case by_status of Some d \<Rightarrow> d
                 | None \<Rightarrow> (case seen of Some s \<Rightarrow> since s t | None \<Rightarrow> 0))
           in Some (secs n - active)))"

definition creating_statuses_as :: "json \<Rightarrow> string \<Rightarrow> string \<Rightarrow> container_report list" where
  "creating_statuses_as pod kind message =
     map (\<lambda>c. \<lparr>cr_name = str_or [] (jget c ''name''), cr_container_id = [], cr_state = ''waiting'',
               cr_ready = False, cr_restart_count = 0, cr_exit_code = 0,
               cr_image = str_or [] (jget c ''image''), cr_image_ref = [], cr_reason = kind,
               cr_message = message, cr_started_at = 0, cr_finished_at = 0\<rparr>)
       (elems (jpath pod [''spec'', ''containers'']))"

definition creating_statuses :: "json \<Rightarrow> string \<Rightarrow> container_report list" where
  "creating_statuses pod message = creating_statuses_as pod ''ContainerCreating'' message"

definition failed_start_statuses :: "json \<Rightarrow> string \<Rightarrow> string \<Rightarrow> container_report list" where
  "failed_start_statuses pod failed message =
     map (\<lambda>cs. if failed = [] \<or> cr_name cs = failed
               then cs\<lparr>cr_state := ''terminated'', cr_reason := ''StartError'', cr_exit_code := 128\<rparr>
               else cs\<lparr>cr_message := ''not started: container '' @ failed @ '' failed to start''\<rparr>)
       (creating_statuses_as pod ''ContainerCreating'' message)"

definition VOLUME_WAIT_TIMEOUT :: duration where
  "VOLUME_WAIT_TIMEOUT = secs 300"

definition volume_wait_message :: "string \<Rightarrow> duration \<Rightarrow> string" where
  "volume_wait_message what waited =
     (if VOLUME_WAIT_TIMEOUT \<le> waited
      then ''Unable to attach or mount volumes: unmounted volumes=['' @ what @ '']: timed out after ''
        @ show_nat (as_secs VOLUME_WAIT_TIMEOUT div 60) @ ''m waiting for the condition; still retrying''
      else ''Unable to attach or mount volumes: unmounted volumes=['' @ what @ '']'')"

definition probe_initial_delay :: "json \<Rightarrow> nat" where
  "probe_initial_delay probe = (case as_u64 (jget probe ''initialDelaySeconds'') of Some n \<Rightarrow> n | None \<Rightarrow> 0)"

definition probe_failure_threshold :: "json \<Rightarrow> nat" where
  "probe_failure_threshold probe =
     (case as_u64 (jget probe ''failureThreshold'') of Some n \<Rightarrow> n | None \<Rightarrow> 3) mod 2 ^ 32"

definition termination_grace :: "json \<Rightarrow> int" where
  "termination_grace pod =
     max (case as_i64 (jpath pod [''metadata'', ''deletionGracePeriodSeconds'']) of
            Some n \<Rightarrow> n
          | None \<Rightarrow> (case as_i64 (jpath pod [''spec'', ''terminationGracePeriodSeconds'']) of
                       Some n \<Rightarrow> n | None \<Rightarrow> 30)) 0"

end
