(* ===== verification/PodStatus.thy ===== *)
theory PodStatus
  imports PodState
begin

text \<open>The status pass over a running pod (\<open>pkg/kubelet/src/pod_manager.rs\<close>,
  \<open>check_pod_status\<close>, \<open>restart_container\<close>, \<open>stop_finished_sandbox\<close>): every container is
  looked at in turn, probed, restarted as the policy and the back-off allow, and reported;
  then missing containers are created, the phase is computed, and a finished pod's sidecars
  and sandbox are stopped.

  The runtime, the volume and token resolution and the probes are an argument of answers
  (\<open>runtime\<close>), the clock is read once per pass, and every call that changes the runtime is
  recorded in order. Building the container's configuration is not part of this pass's
  decisions and is left out.\<close>

datatype rt_call =
    StopContainer string int
  | RemoveContainer string
  | CreateContainer string nat
  | StartContainer string
  | StopSandbox string

text \<open>The pod manager as the pass uses it; \<open>calls\<close> grows at its end.\<close>
record manager =
  m_pods :: "string \<Rightarrow> pod_state option"
  m_backoff :: crashloop
  m_deadlines :: deadlines
  m_last_terminated :: "string \<times> string \<Rightarrow> last_terminated option"
  m_calls :: "rt_call list"

record runtime =
  rt_status :: "string \<Rightarrow> cri_error + container_status_info"
  rt_probe :: "string \<Rightarrow> string \<Rightarrow> probe_result"
  rt_volumes :: "cri_error option"
  rt_token_mount :: "cri_error option"
  rt_ensure_image :: "string \<Rightarrow> cri_error + string"
  rt_create :: "string \<Rightarrow> nat \<Rightarrow> cri_error + string"
  rt_start :: "string \<Rightarrow> cri_error option"
  rt_stop :: "string \<Rightarrow> cri_error option"
  rt_stop_sandbox :: "string \<Rightarrow> cri_error option"

record pass_env =
  rt :: runtime
  at :: clock
  save_ok :: bool

text \<open>What a pass changes: the pod's state, the manager, and the reports made so far.\<close>
record pass =
  pst :: pod_state
  pm :: manager
  pout :: "container_report list"

section \<open>Steps of a pass\<close>

definition push :: "container_report \<Rightarrow> pass \<Rightarrow> pass" where
  "push r p = p\<lparr>pout := pout p @ [r]\<rparr>"

definition call :: "rt_call \<Rightarrow> pass \<Rightarrow> pass" where
  "call c p = p\<lparr>pm := (pm p)\<lparr>m_calls := m_calls (pm p) @ [c]\<rparr>\<rparr>"

definition set_ready :: "string \<Rightarrow> bool \<Rightarrow> pass \<Rightarrow> pass" where
  "set_ready n b p = p\<lparr>pst := (pst p)\<lparr>ps_ready := (ps_ready (pst p))(n \<mapsto> b)\<rparr>\<rparr>"

definition set_failures :: "string \<Rightarrow> nat \<Rightarrow> pass \<Rightarrow> pass" where
  "set_failures n k p = p\<lparr>pst := (pst p)\<lparr>liveness_failures := (liveness_failures (pst p))(n \<mapsto> k)\<rparr>\<rparr>"

definition set_terminated :: "string \<Rightarrow> int \<Rightarrow> pass \<Rightarrow> pass" where
  "set_terminated n code p = p\<lparr>pst := (pst p)\<lparr>terminated := (terminated (pst p))(n \<mapsto> code)\<rparr>\<rparr>"

definition look_again :: "pass_env \<Rightarrow> duration \<Rightarrow> pass \<Rightarrow> pass" where
  "look_again e d p =
     p\<lparr>pm := (pm p)\<lparr>m_deadlines := due_in (now (at e)) (ps_uid (pst p)) d (m_deadlines (pm p))\<rparr>\<rparr>"

definition u32_inc :: "nat \<Rightarrow> nat" where
  "u32_inc n = (n + 1) mod 2 ^ 32"

definition u64_max :: nat where
  "u64_max = 2 ^ 64 - 1"

definition backoff_key :: "pass \<Rightarrow> string \<Rightarrow> string" where
  "backoff_key p n = cl_key (ps_uid (pst p)) n"

definition backing_off :: "pass_env \<Rightarrow> string \<Rightarrow> pass \<Rightarrow> duration option" where
  "backing_off e n p = wait (m_backoff (pm p)) (backoff_key p n) (now (at e))"

definition restarted_backoff :: "pass_env \<Rightarrow> string \<Rightarrow> pass \<Rightarrow> pass" where
  "restarted_backoff e n p =
     (let p = p\<lparr>pm := (pm p)\<lparr>m_backoff := restarted (at e) (save_ok e) (backoff_key p n) (m_backoff (pm p))\<rparr>\<rparr>
      in case backing_off e n p of Some left \<Rightarrow> look_again e left p | None \<Rightarrow> p)"

definition running_backoff :: "pass_env \<Rightarrow> string \<Rightarrow> pass \<Rightarrow> pass" where
  "running_backoff e n p =
     p\<lparr>pm := (pm p)\<lparr>m_backoff := running (at e) (save_ok e) (backoff_key p n) (m_backoff (pm p))\<rparr>\<rparr>"

text \<open>The question \<open>probe_due\<close> and the note \<open>probed\<close>, of the pod's deadlines.\<close>
definition ask_due :: "pass_env \<Rightarrow> string \<Rightarrow> string \<Rightarrow> json \<Rightarrow> pass \<Rightarrow> bool \<times> pass" where
  "ask_due e n k probe p =
     (let (b, d) = probe_due (now (at e)) (ps_uid (pst p)) n k probe (ps_started (pst p) n) (m_deadlines (pm p))
      in (b, p\<lparr>pm := (pm p)\<lparr>m_deadlines := d\<rparr>\<rparr>))"

definition note_probed :: "pass_env \<Rightarrow> string \<Rightarrow> string \<Rightarrow> json \<Rightarrow> pass \<Rightarrow> pass" where
  "note_probed e n k probe p =
     p\<lparr>pm := (pm p)\<lparr>m_deadlines :=
        probed (now (at e)) (ps_uid (pst p)) n k probe (ps_started (pst p) n) (m_deadlines (pm p))\<rparr>\<rparr>"

section \<open>Reports\<close>

definition report_gone :: "string \<Rightarrow> string \<Rightarrow> string \<Rightarrow> nat \<Rightarrow> int \<Rightarrow> json \<Rightarrow> string \<Rightarrow> string \<Rightarrow> container_report" where
  "report_gone n cid state count code spec reason message =
     \<lparr>cr_name = n, cr_container_id = cid, cr_state = state, cr_ready = False, cr_restart_count = count,
      cr_exit_code = code, cr_image = str_or [] (jget spec ''image''), cr_image_ref = [],
      cr_reason = reason, cr_message = message, cr_started_at = 0, cr_finished_at = 0\<rparr>"

definition report_status ::
    "string \<Rightarrow> string \<Rightarrow> string \<Rightarrow> bool \<Rightarrow> nat \<Rightarrow> int \<Rightarrow> container_status_info \<Rightarrow> string \<Rightarrow> string \<Rightarrow> container_report" where
  "report_status n cid state ready count code s reason message =
     \<lparr>cr_name = n, cr_container_id = cid, cr_state = state, cr_ready = ready, cr_restart_count = count,
      cr_exit_code = code, cr_image = si_image s, cr_image_ref = si_image_ref s,
      cr_reason = reason, cr_message = message, cr_started_at = si_started_at s,
      cr_finished_at = si_finished_at s\<rparr>"

definition backoff_message :: "string \<Rightarrow> duration \<Rightarrow> string" where
  "backoff_message n left = ''back-off '' @ show_nat (as_secs left) @ ''s restarting failed container '' @ n"

section \<open>Restarting a container\<close>

text \<open>\<open>ensure_image\<close>, \<open>create_container\<close> and \<open>start_container\<close> with the early return of each.\<close>
definition create_and_start ::
    "pass_env \<Rightarrow> string \<Rightarrow> string \<Rightarrow> nat \<Rightarrow> pass \<Rightarrow> (cri_error + string \<times> string) \<times> pass" where
  "create_and_start e n img attempt p =
     (case rt_ensure_image (rt e) img of
        Inl err \<Rightarrow> (Inl err, p)
      | Inr image_ref \<Rightarrow>
          (let p = call (CreateContainer n attempt) p in
           case rt_create (rt e) n attempt of
             Inl err \<Rightarrow> (Inl err, p)
           | Inr cid \<Rightarrow>
               (let p = call (StartContainer cid) p in
                case rt_start (rt e) cid of
                  Some err \<Rightarrow> (Inl err, p)
                | None \<Rightarrow> (Inr (cid, image_ref), p))))"

definition bump_restart :: "string \<Rightarrow> pass \<Rightarrow> nat \<times> pass" where
  "bump_restart n p =
     (let count = (case restart_counts (pst p) n of Some c \<Rightarrow> u32_inc c | None \<Rightarrow> 1)
      in (count, p\<lparr>pst := (pst p)\<lparr>restart_counts := (restart_counts (pst p))(n \<mapsto> count)\<rparr>\<rparr>))"

definition restart_container :: "pass_env \<Rightarrow> string \<Rightarrow> string \<Rightarrow> json \<Rightarrow> pass \<Rightarrow> bool \<times> pass" where
  "restart_container e n old_cid spec p =
     (let p = call (RemoveContainer old_cid) (call (StopContainer old_cid 5) p);
          (count, p) = bump_restart n p;
          p = set_failures n 0 p
      in case sandbox_id (pst p) of
           None \<Rightarrow> (False, look_again e RECHECK p)
         | Some _ \<Rightarrow>
             (if rt_volumes (rt e) \<noteq> None \<or> rt_token_mount (rt e) \<noteq> None
              then (False, look_again e RECHECK p)
              else
                (let img = str_or [] (jget spec ''image'');
                     (result, p) = create_and_start e n img count p
                 in case result of
                      Inr (new_cid, image_ref) \<Rightarrow>
                        (let ready = is_null (jget spec ''readinessProbe'');
                             p = p\<lparr>pst := (pst p)\<lparr>
                               container_ids := AList.update n new_cid (container_ids (pst p)),
                               ps_started := (ps_started (pst p))(n \<mapsto> now (at e))\<rparr>\<rparr>;
                             p = set_ready n ready p
                         in (True, push \<lparr>cr_name = n, cr_container_id = new_cid, cr_state = ''running'',
                              cr_ready = ready, cr_restart_count = count, cr_exit_code = 0, cr_image = img,
                              cr_image_ref = image_ref, cr_reason = [], cr_message = [],
                              cr_started_at = 0, cr_finished_at = 0\<rparr> p))
                    | Inl _ \<Rightarrow>
                        (let p = set_ready n False (look_again e RECHECK p)
                         in (False, push (report_gone n [] ''waiting'' count 0 spec [] []) p)))))"

section \<open>One container\<close>

text \<open>Its record is gone from the runtime.\<close>
definition visit_missing_record ::
    "pass_env \<Rightarrow> string \<Rightarrow> string \<Rightarrow> json \<Rightarrow> string \<Rightarrow> nat \<Rightarrow> pass \<Rightarrow> pass" where
  "visit_missing_record e n cid spec policy count p =
     (let should_recreate = (policy = ''Always'' \<or> policy = ''OnFailure'');
          backing = backing_off e n p
      in if should_recreate \<and> \<not> is_null spec \<and> backing = None
         then restarted_backoff e n (snd (restart_container e n cid spec p))
         else (case (if should_recreate then backing else None) of
           Some left \<Rightarrow>
             push (report_gone n cid ''waiting'' count 0 spec ''CrashLoopBackOff'' (backoff_message n left))
               (set_ready n False (look_again e left p))
         | None \<Rightarrow>
             push (report_gone n cid ''terminated'' count 0 spec [] [])
               (set_ready n False (set_terminated n 0 p))))"

definition visit_unreachable ::
    "pass_env \<Rightarrow> string \<Rightarrow> string \<Rightarrow> json \<Rightarrow> nat \<Rightarrow> pass \<Rightarrow> pass" where
  "visit_unreachable e n cid spec count p =
     push (report_gone n cid ''waiting'' count 0 spec [] []) (set_ready n False (look_again e RECHECK p))"

text \<open>The startup probe: \<open>Inl\<close> ends the visit, \<open>Inr\<close> goes on to the other probes.\<close>
definition startup_gate ::
    "pass_env \<Rightarrow> string \<Rightarrow> string \<Rightarrow> json \<Rightarrow> container_status_info \<Rightarrow> nat \<Rightarrow> pass \<Rightarrow> pass + pass" where
  "startup_gate e n cid spec s count p =
     (let startup = jget spec ''startupProbe'';
          not_ready = (\<lambda>p. Inl (push (report_status n cid ''running'' False count 0 s [] []) (set_ready n False p)))
      in if is_null startup \<or> startup_passed (pst p) n = Some True then Inr p
         else (let (is_due, p) = ask_due e n STARTUP startup p in
           if \<not> is_due then not_ready p
           else (let p = note_probed e n STARTUP startup p in
             case rt_probe (rt e) STARTUP cid of
               ProbeSuccess \<Rightarrow>
                 Inr (set_failures n 0
                   (p\<lparr>pst := (pst p)\<lparr>startup_passed := (startup_passed (pst p))(n \<mapsto> True)\<rparr>\<rparr>))
             | ProbeFailure _ \<Rightarrow>
                 (let k = u32_inc (case liveness_failures (pst p) n of Some k \<Rightarrow> k | None \<Rightarrow> 0);
                      p = set_failures n k p
                  in if probe_failure_threshold startup \<le> k
                     then (let (ok, p) = restart_container e n cid spec p
                           in if ok then Inl p else not_ready p)
                     else not_ready p)
             | ProbeUnknown \<Rightarrow> not_ready p)))"

text \<open>The liveness probe; whether the container was restarted.\<close>
definition liveness_check :: "pass_env \<Rightarrow> string \<Rightarrow> string \<Rightarrow> json \<Rightarrow> pass \<Rightarrow> bool \<times> pass" where
  "liveness_check e n cid spec p =
     (let liveness = jget spec ''livenessProbe'' in
      if is_null liveness then (False, p)
      else (let (is_due, p) = ask_due e n LIVENESS liveness p in
        if \<not> is_due then (False, p)
        else (let p = note_probed e n LIVENESS liveness p in
          case rt_probe (rt e) LIVENESS cid of
            ProbeFailure _ \<Rightarrow>
              (let k = u32_inc (case liveness_failures (pst p) n of Some k \<Rightarrow> k | None \<Rightarrow> 0);
                   p = set_failures n k p
               in if probe_failure_threshold liveness \<le> k then restart_container e n cid spec p
                  else (False, p))
          | _ \<Rightarrow> (False, set_failures n 0 p))))"

definition readiness_check ::
    "pass_env \<Rightarrow> string \<Rightarrow> string \<Rightarrow> json \<Rightarrow> nat \<Rightarrow> pass \<Rightarrow> bool \<times> pass" where
  "readiness_check e n cid spec elapsed p =
     (let readiness = jget spec ''readinessProbe'' in
      if is_null readiness then (True, p)
      else if elapsed < probe_initial_delay readiness
      then (False, snd (ask_due e n READINESS readiness p))
      else (let (is_due, p) = ask_due e n READINESS readiness p in
        if \<not> is_due then (ps_ready (pst p) n = Some True, p)
        else (rt_probe (rt e) READINESS cid = ProbeSuccess, note_probed e n READINESS readiness p)))"

definition visit_running ::
    "pass_env \<Rightarrow> string \<Rightarrow> string \<Rightarrow> json \<Rightarrow> container_status_info \<Rightarrow> nat \<Rightarrow> pass \<Rightarrow> pass" where
  "visit_running e n cid spec s count p =
     (let elapsed = (case ps_started (pst p) n of Some t \<Rightarrow> as_secs (since t (now (at e))) | None \<Rightarrow> u64_max)
      in case startup_gate e n cid spec s count p of
           Inl p \<Rightarrow> p
         | Inr p \<Rightarrow>
             (let (was_restarted, p) = liveness_check e n cid spec p in
              if was_restarted then p
              else (let (ready, p) = readiness_check e n cid spec elapsed p;
                        p = running_backoff e n (set_ready n ready p)
                    in push (report_status n cid ''running'' ready count 0 s [] []) p)))"

definition should_restart :: "string \<Rightarrow> int \<Rightarrow> bool" where
  "should_restart policy code =
     (if policy = ''Always'' then True else if policy = ''OnFailure'' then code \<noteq> 0 else False)"

definition visit_exited ::
    "pass_env \<Rightarrow> string \<Rightarrow> string \<Rightarrow> json \<Rightarrow> container_status_info \<Rightarrow> string \<Rightarrow> nat \<Rightarrow> pass \<Rightarrow> pass" where
  "visit_exited e n cid spec s policy count p =
     (if should_restart policy (si_exit_code s)
      then (let p = p\<lparr>pm := (pm p)\<lparr>m_last_terminated :=
                  (m_last_terminated (pm p))((ps_uid (pst p), n) \<mapsto> last_terminated_of s)\<rparr>\<rparr>
            in case backing_off e n p of
                 Some left \<Rightarrow>
                   push (report_status n cid ''waiting'' False count (si_exit_code s) s
                           ''CrashLoopBackOff'' (backoff_message n left))
                     (set_ready n False (look_again e left p))
               | None \<Rightarrow> restarted_backoff e n (snd (restart_container e n cid spec p)))
      else push (report_status n cid ''terminated'' False count (si_exit_code s) s
                   (terminated_reason (si_reason s) (si_exit_code s)) (si_message s))
             (set_ready n False (set_terminated n (si_exit_code s) p)))"

definition visit_created ::
    "pass_env \<Rightarrow> string \<Rightarrow> string \<Rightarrow> container_status_info \<Rightarrow> nat \<Rightarrow> pass \<Rightarrow> pass" where
  "visit_created e n cid s count p =
     push (report_status n cid ''waiting'' False count 0 s [] []) (set_ready n False (look_again e RECHECK p))"

text \<open>One turn of the loop over the containers. \<open>specs\<close> are the containers the pod declares
  that run with it, \<open>sidecars\<close> the names of its native sidecars.\<close>
definition visit_container ::
    "pass_env \<Rightarrow> (string \<times> json) list \<Rightarrow> string list \<Rightarrow> string \<Rightarrow> string \<times> string \<Rightarrow> pass \<Rightarrow> pass" where
  "visit_container e specs sidecars pod_policy nc p =
     (let (n, cid) = nc;
          spec = (case map_of specs n of Some s \<Rightarrow> s | None \<Rightarrow> JNull);
          policy = (if n \<in> set sidecars then ''Always'' else pod_policy);
          count = (case restart_counts (pst p) n of Some c \<Rightarrow> c | None \<Rightarrow> 0)
      in case terminated (pst p) n of
           Some code \<Rightarrow> push (report_gone n cid ''terminated'' count code spec [] []) p
         | None \<Rightarrow>
             (case rt_status (rt e) cid of
                Inl (NotFound _) \<Rightarrow> visit_missing_record e n cid spec policy count p
              | Inl _ \<Rightarrow> visit_unreachable e n cid spec count p
              | Inr s \<Rightarrow>
                  (case si_state s of
                     Running \<Rightarrow> visit_running e n cid spec s count p
                   | Exited \<Rightarrow> visit_exited e n cid spec s policy count p
                   | Created \<Rightarrow> visit_created e n cid s count p
                   | Unknown \<Rightarrow> visit_created e n cid s count p)))"

section \<open>The pass\<close>

definition container_specs :: "json \<Rightarrow> (string \<times> json) list" where
  "container_specs pod =
     (let apps = fold (\<lambda>c. AList.update (str_or ''unnamed'' (jget c ''name'')) c)
                   (elems (jpath pod [''spec'', ''containers''])) [];
          sidecars = sidecar_names pod
      in fold (\<lambda>c specs. case as_str (jget c ''name'') of
              Some n \<Rightarrow> if n \<in> set sidecars then AList.update n c specs else specs
            | None \<Rightarrow> specs)
           (elems (jpath pod [''spec'', ''initContainers''])) apps)"

text \<open>Create a container the pod declares that has no record.\<close>
definition create_missing :: "pass_env \<Rightarrow> string \<times> json \<Rightarrow> pass \<Rightarrow> pass" where
  "create_missing e ns p =
     (let (n, spec) = ns in
      if is_null spec then p
      else (case backing_off e n p of
          Some left \<Rightarrow>
            push (report_gone n [] ''waiting'' 0 0 spec ''CrashLoopBackOff'' (backoff_message n left))
              (set_ready n False (look_again e left p))
        | None \<Rightarrow> restarted_backoff e n (snd (restart_container e n [] spec p))))"

text \<open>A sidecar's report goes to its entry among the init containers.\<close>
fun update_first :: "('a \<Rightarrow> bool) \<Rightarrow> ('a \<Rightarrow> 'a) \<Rightarrow> 'a list \<Rightarrow> 'a list" where
  "update_first P f [] = []"
| "update_first P f (x # xs) = (if P x then f x # xs else x # update_first P f xs)"

definition sidecar_report :: "container_report \<Rightarrow> pod_state \<Rightarrow> pod_state" where
  "sidecar_report cs st =
     (let passed = ((case find (\<lambda>c. as_str (jget c ''name'') = Some (cr_name cs))
                            (elems (jpath (ps_pod st) [''spec'', ''initContainers''])) of
                       Some c \<Rightarrow> is_null (jget c ''startupProbe'') | None \<Rightarrow> False)
                    \<or> startup_passed st (cr_name cs) = Some True)
      in st\<lparr>init_statuses := update_first (\<lambda>r. ir_name r = cr_name cs)
             (\<lambda>r. r\<lparr>ir_container_id := cr_container_id cs, ir_state := cr_state cs, ir_ready := cr_ready cs,
                    ir_restart_count := cr_restart_count cs, ir_exit_code := cr_exit_code cs,
                    ir_reason := cr_reason cs, ir_message := cr_message cs,
                    ir_started := (cr_state cs = ''running'' \<and> passed),
                    ir_started_at := (if cr_started_at cs \<noteq> 0 then cr_started_at cs else ir_started_at r),
                    ir_finished_at := cr_finished_at cs\<rparr>)
             (init_statuses st)\<rparr>)"

definition pod_phase :: "string \<Rightarrow> string list \<Rightarrow> pod_state \<Rightarrow> string" where
  "pod_phase policy sidecars st =
     (let names = filter (\<lambda>n. n \<notin> set sidecars) (map fst (container_ids st));
          codes = List.map_filter (terminated st) names
      in if policy = ''Always'' then ''Running''
         else if 0 < length names \<and> length codes = length names
         then (if list_all (\<lambda>c. c = 0) codes then ''Succeeded'' else ''Failed'')
         else ''Running'')"

definition stop_sidecar :: "pass_env \<Rightarrow> string \<Rightarrow> pass \<Rightarrow> pass" where
  "stop_sidecar e n p =
     (case map_of (container_ids (pst p)) n of
        None \<Rightarrow> p
      | Some cid \<Rightarrow>
          if terminated (pst p) n \<noteq> None then p
          else (let grace = (case as_i64 (jpath (ps_pod (pst p)) [''spec'', ''terminationGracePeriodSeconds'']) of
                       Some g \<Rightarrow> g | None \<Rightarrow> 30);
                    p = call (StopContainer cid grace) p;
                    stopped = (let q = set_ready n False (set_terminated n 0 p) in
                      q\<lparr>pst := (pst q)\<lparr>init_statuses := update_first (\<lambda>r. ir_name r = n)
                          (\<lambda>r. r\<lparr>ir_state := ''terminated'', ir_reason := ''Completed'', ir_ready := False,
                                 ir_started := False\<rparr>) (init_statuses (pst q))\<rparr>\<rparr>)
                in case rt_stop (rt e) cid of
                     None \<Rightarrow> stopped
                   | Some (NotFound _) \<Rightarrow> stopped
                   | Some _ \<Rightarrow> p))"

definition stop_finished_sandbox :: "pass_env \<Rightarrow> string \<Rightarrow> manager \<Rightarrow> manager" where
  "stop_finished_sandbox e u m =
     (case m_pods m u of
        None \<Rightarrow> m
      | Some st \<Rightarrow>
          if sandbox_stopped st then m
          else (let stopped = (\<lambda>m. m\<lparr>m_pods := (m_pods m)(u \<mapsto> st\<lparr>sandbox_stopped := True\<rparr>)\<rparr>) in
            case sandbox_id st of
              None \<Rightarrow> stopped m
            | Some sb \<Rightarrow>
                (let m = m\<lparr>m_calls := m_calls m @ [StopSandbox sb]\<rparr> in
                 case rt_stop_sandbox (rt e) sb of
                   None \<Rightarrow> stopped m
                 | Some (NotFound _) \<Rightarrow> stopped m
                 | Some _ \<Rightarrow> m\<lparr>m_deadlines := due_in (now (at e)) u RECHECK (m_deadlines m)\<rparr>)))"

definition pod_restart_policy :: "json \<Rightarrow> string" where
  "pod_restart_policy pod = str_or ''Always'' (jpath pod [''spec'', ''restartPolicy''])"

text \<open>The pass up to the phase.\<close>
definition visit_all :: "pass_env \<Rightarrow> pass \<Rightarrow> pass" where
  "visit_all e p =
     (let pod = ps_pod (pst p); specs = container_specs pod; sidecars = sidecar_names pod;
          p = fold (visit_container e specs sidecars (pod_restart_policy pod)) (container_ids (pst p)) p;
          missing = filter (\<lambda>(n, spec). map_of (container_ids (pst p)) n = None \<and> terminated (pst p) n = None) specs
      in fold (create_missing e) missing p)"

definition check_pod_status ::
    "pass_env \<Rightarrow> string \<Rightarrow> manager \<Rightarrow> (cri_error + pod_status_update) \<times> manager" where
  "check_pod_status e u m =
     (case m_pods m u of
        None \<Rightarrow> (Inl (NotFound u), m)
      | Some st0 \<Rightarrow>
          (let pod = ps_pod st0; sidecars = sidecar_names pod;
               p = visit_all e \<lparr>pst = st0, pm = m, pout = []\<rparr>;
               (side, apps) = (filter (\<lambda>cs. cr_name cs \<in> set sidecars) (pout p),
                               filter (\<lambda>cs. cr_name cs \<notin> set sidecars) (pout p));
               p = p\<lparr>pst := fold sidecar_report side (pst p)\<rparr>;
               phase = pod_phase (pod_restart_policy pod) sidecars (pst p);
               p = p\<lparr>pst := (pst p)\<lparr>ps_phase := phase\<rparr>\<rparr>;
               finished = (phase \<noteq> ''Running'');
               p = (if finished then fold (stop_sidecar e) (rev sidecars) p else p);
               st = pst p;
               update = \<lparr>pu_namespace = ps_namespace st, pu_name = ps_name st, pu_phase = phase,
                 pu_message = [], pu_reason = [], pu_container_statuses = apps,
                 pu_init_container_statuses = init_statuses st,
                 pu_declared_init_containers = declared_init_containers (ps_pod st), pu_pod_ip = ps_pod_ip st\<rparr>;
               m = (pm p)\<lparr>m_pods := (m_pods (pm p))(u \<mapsto> st)\<rparr>
           in (Inr update, if finished then stop_finished_sandbox e u m else m)))"

end
