(* ===== verification/PodPass.thy ===== *)
theory PodPass
  imports PodStatus
begin

text \<open>What the status pass guarantees: a visit to one container leaves the others alone, a
  container terminated for good stays so and is never created again, an \<open>Always\<close> pod never
  finishes, exits are restarted as policy and back-off say, and a waiting container is always
  looked at again. Also three behaviours the code's own comments do not intend.\<close>

section \<open>Visits are local\<close>

text \<open>From \<open>p\<close> to \<open>q\<close> only container \<open>n\<close> was touched: the other containers' records, the pod
  itself and its sandbox are as they were, and the calls made create no other container and
  do not stop the sandbox.\<close>
definition only_about :: "string \<Rightarrow> pass \<Rightarrow> pass \<Rightarrow> bool" where
  "only_about n p q \<longleftrightarrow>
     (\<forall>n'. n' \<noteq> n \<longrightarrow> terminated (pst q) n' = terminated (pst p) n'
        \<and> map_of (container_ids (pst q)) n' = map_of (container_ids (pst p)) n')
   \<and> ps_pod (pst q) = ps_pod (pst p) \<and> ps_uid (pst q) = ps_uid (pst p)
   \<and> sandbox_id (pst q) = sandbox_id (pst p) \<and> sandbox_stopped (pst q) = sandbox_stopped (pst p)
   \<and> (\<exists>cs. m_calls (pm q) = m_calls (pm p) @ cs
        \<and> (\<forall>c \<in> set cs. (\<forall>n' k. c = CreateContainer n' k \<longrightarrow> n' = n) \<and> (\<forall>s. c \<noteq> StopSandbox s)))"

lemma only_about_refl [simp, intro]: "only_about n p p"
  by (simp add: only_about_def)

lemma only_about_trans: "only_about n p q \<Longrightarrow> only_about n q r \<Longrightarrow> only_about n p r"
  unfolding only_about_def by (elim conjE exE) (intro conjI allI impI, auto)

lemma only_about_simple:
  "only_about n p (push r p)" "only_about n p (set_ready n b p)" "only_about n p (set_failures n k p)"
  "only_about n p (set_terminated n code p)" "only_about n p (look_again e d p)"
  "only_about n p (running_backoff e n p)" "only_about n p (snd (ask_due e n kd pr p))"
  "only_about n p (note_probed e n kd pr p)" "only_about n p (snd (bump_restart n p))"
  "only_about n p (p\<lparr>pst := (pst p)\<lparr>startup_passed := sp\<rparr>\<rparr>)"
  "only_about n p (p\<lparr>pm := (pm p)\<lparr>m_last_terminated := lt\<rparr>\<rparr>)"
  "only_about n p (p\<lparr>pst := (pst p)\<lparr>container_ids := AList.update n c (container_ids (pst p)), ps_started := x\<rparr>\<rparr>)"
  by (simp_all add: only_about_def push_def set_ready_def set_failures_def set_terminated_def look_again_def
      running_backoff_def ask_due_def note_probed_def bump_restart_def update_conv' Let_def split: prod.split)

lemma only_about_call:
  "only_about n p (call (StopContainer c g) p)" "only_about n p (call (RemoveContainer c) p)"
  "only_about n p (call (CreateContainer n k) p)" "only_about n p (call (StartContainer c) p)"
  by (simp_all add: only_about_def call_def)

lemma only_about_restarted_backoff: "only_about n p (restarted_backoff e n p)"
  by (auto simp: restarted_backoff_def only_about_def look_again_def Let_def split: option.split)

lemmas only_about_steps = only_about_simple only_about_call only_about_restarted_backoff

lemma only_about_create: "only_about n p (snd (create_and_start e n img k p))"
  by (auto simp: create_and_start_def Let_def split: sum.split option.split
      intro: only_about_trans only_about_call)

lemmas only_about_chain = only_about_steps [THEN only_about_trans [rotated]]
  only_about_create [THEN only_about_trans [rotated]]

lemma only_about_restart: "only_about n p (snd (restart_container e n cid spec p))"
  unfolding restart_container_def Let_def case_prod_beta
  by (auto split: option.split sum.split intro!: only_about_chain)

lemmas only_about_chain2 = only_about_chain only_about_restart [THEN only_about_trans [rotated]]

lemma only_about_startup:
  "case startup_gate e n cid spec s count p of Inl q \<Rightarrow> only_about n p q | Inr q \<Rightarrow> only_about n p q"
  unfolding startup_gate_def Let_def case_prod_beta
  by (auto split: probe_result.split option.split intro!: only_about_chain2)

lemma only_about_liveness: "only_about n p (snd (liveness_check e n cid spec p))"
  unfolding liveness_check_def Let_def case_prod_beta
  by (auto split: probe_result.split option.split intro!: only_about_chain2)

lemma only_about_readiness: "only_about n p (snd (readiness_check e n cid spec el p))"
  unfolding readiness_check_def Let_def case_prod_beta
  by (auto intro!: only_about_chain2)

lemmas only_about_chain3 = only_about_chain2 only_about_liveness [THEN only_about_trans [rotated]]
  only_about_readiness [THEN only_about_trans [rotated]]

lemma only_about_running: "only_about n p (visit_running e n cid spec s count p)"
proof (cases "startup_gate e n cid spec s count p")
  case (Inl q)
  then show ?thesis using only_about_startup [of n p e cid spec s count] by (simp add: visit_running_def Let_def)
next
  case (Inr q)
  then have "only_about n p q" using only_about_startup [of n p e cid spec s count] by simp
  then show ?thesis using Inr
    unfolding visit_running_def Let_def case_prod_beta by (auto intro!: only_about_chain3)
qed

lemma only_about_missing_record: "only_about n p (visit_missing_record e n cid spec policy count p)"
  unfolding visit_missing_record_def Let_def
  by (cases "backing_off e n p"; cases "is_null spec") (auto intro!: only_about_chain3)

lemma only_about_unreachable: "only_about n p (visit_unreachable e n cid spec count p)"
  unfolding visit_unreachable_def by (intro only_about_chain only_about_refl)

lemma only_about_created: "only_about n p (visit_created e n cid s count p)"
  unfolding visit_created_def by (intro only_about_chain only_about_refl)

lemma only_about_exited: "only_about n p (visit_exited e n cid spec s policy count p)"
  unfolding visit_exited_def Let_def
  by (cases "should_restart policy (si_exit_code s)") (auto split: option.split intro!: only_about_chain3)

lemma only_about_visit: "only_about (fst nc) p (visit_container e specs sidecars policy nc p)"
proof (cases nc)
  case (Pair n cid)
  show ?thesis
    unfolding visit_container_def Let_def Pair prod.case fst_conv
    by (cases "terminated (pst p) n"; cases "rt_status (rt e) cid")
       (simp_all add: only_about_simple only_about_missing_record only_about_unreachable only_about_created
         only_about_exited only_about_running split: cri_error.split container_state.split)
qed

lemma only_about_missing: "only_about (fst ns) p (create_missing e ns p)"
  unfolding create_missing_def Let_def case_prod_beta
  by (auto split: option.split intro!: only_about_chain3)

section \<open>Terminated containers\<close>

text \<open>Container \<open>n\<close> has terminated with \<open>code\<close> in \<open>p\<close>, still has in \<open>q\<close>, and was not created
  on the way.\<close>
definition stays_terminated :: "string \<Rightarrow> int \<Rightarrow> pass \<Rightarrow> pass \<Rightarrow> bool" where
  "stays_terminated n code p q \<longleftrightarrow>
     terminated (pst q) n = Some code
   \<and> ps_pod (pst q) = ps_pod (pst p) \<and> ps_uid (pst q) = ps_uid (pst p)
   \<and> (\<exists>cs. m_calls (pm q) = m_calls (pm p) @ cs \<and> (\<forall>k. CreateContainer n k \<notin> set cs)
        \<and> (\<forall>s. StopSandbox s \<notin> set cs))"

lemma stays_other:
  "\<lbrakk>stays_terminated n code p q; only_about n' q r; n' \<noteq> n\<rbrakk> \<Longrightarrow> stays_terminated n code p r"
proof -
  assume s: "stays_terminated n code p q" and o: "only_about n' q r" and "n' \<noteq> n"
  obtain cs where cs: "m_calls (pm q) = m_calls (pm p) @ cs" "\<forall>k. CreateContainer n k \<notin> set cs"
    "\<forall>b. StopSandbox b \<notin> set cs" using s unfolding stays_terminated_def by blast
  obtain ds where ds: "m_calls (pm r) = m_calls (pm q) @ ds"
    "\<forall>c \<in> set ds. (\<forall>m k. c = CreateContainer m k \<longrightarrow> m = n') \<and> (\<forall>b. c \<noteq> StopSandbox b)"
    using o unfolding only_about_def by blast
  have "m_calls (pm r) = m_calls (pm p) @ (cs @ ds)" using cs ds by simp
  moreover have "\<forall>k. CreateContainer n k \<notin> set (cs @ ds)" "\<forall>b. StopSandbox b \<notin> set (cs @ ds)"
    using cs ds(2) \<open>n' \<noteq> n\<close> by auto
  moreover have "terminated (pst r) n = Some code" "ps_pod (pst r) = ps_pod (pst p)" "ps_uid (pst r) = ps_uid (pst p)"
    using s o \<open>n' \<noteq> n\<close> unfolding stays_terminated_def only_about_def by auto
  ultimately show ?thesis unfolding stays_terminated_def by blast
qed

lemma visit_terminated:
  "terminated (pst p) (fst nc) = Some code \<Longrightarrow>
     pst (visit_container e specs sidecars policy nc p) = pst p
   \<and> pm (visit_container e specs sidecars policy nc p) = pm p"
  by (auto simp: visit_container_def push_def Let_def split: prod.split)

lemma visit_stays:
  assumes "stays_terminated n code p q"
  shows "stays_terminated n code p (visit_container e specs sidecars policy nc q)"
proof (cases "fst nc = n")
  case True
  then have "terminated (pst q) (fst nc) = Some code" using assms by (simp add: stays_terminated_def)
  from visit_terminated [OF this] show ?thesis using assms by (simp add: stays_terminated_def)
qed (rule stays_other [OF assms only_about_visit])

lemma visits_stay:
  "stays_terminated n code p q \<Longrightarrow>
     stays_terminated n code p (fold (visit_container e specs sidecars policy) ncs q)"
  by (induction ncs arbitrary: q) (auto intro: visit_stays)

lemma creations_stay:
  "\<lbrakk>stays_terminated n code p q; n \<notin> fst ` set ms\<rbrakk> \<Longrightarrow>
     stays_terminated n code p (fold (create_missing e) ms q)"
proof (induction ms arbitrary: q)
  case (Cons m ms)
  then have "fst m \<noteq> n" "n \<notin> fst ` set ms" by auto
  then show ?case using Cons.IH stays_other [OF Cons.prems(1) only_about_missing] by simp
qed simp

lemma visit_all_stays:
  assumes "terminated (pst p) n = Some code"
  shows "stays_terminated n code p (visit_all e p)"
proof -
  have "stays_terminated n code p p" using assms by (simp add: stays_terminated_def)
  note visited = visits_stay [OF this, of e "container_specs (ps_pod (pst p))" "sidecar_names (ps_pod (pst p))"
      "pod_restart_policy (ps_pod (pst p))" "container_ids (pst p)"]
  then have "terminated (pst (fold (visit_container e (container_specs (ps_pod (pst p)))
      (sidecar_names (ps_pod (pst p))) (pod_restart_policy (ps_pod (pst p)))) (container_ids (pst p)) p)) n = Some code"
    by (simp add: stays_terminated_def)
  then show ?thesis unfolding visit_all_def Let_def by (intro creations_stay [OF visited]) auto
qed

lemma stop_sidecar_effect:
  "terminated (pst p) n = Some code \<Longrightarrow> terminated (pst (stop_sidecar e s p)) n = Some code"
  "\<exists>cs. m_calls (pm (stop_sidecar e s p)) = m_calls (pm p) @ cs
     \<and> (\<forall>n k. CreateContainer n k \<notin> set cs) \<and> (\<forall>b. StopSandbox b \<notin> set cs)"
  by (auto simp: stop_sidecar_def call_def set_ready_def set_terminated_def Let_def
      split: option.split cri_error.split)

lemma stop_sidecars_effect:
  "terminated (pst p) n = Some code \<Longrightarrow> terminated (pst (fold (stop_sidecar e) ss p)) n = Some code"
  "\<exists>cs. m_calls (pm (fold (stop_sidecar e) ss p)) = m_calls (pm p) @ cs
     \<and> (\<forall>n k. CreateContainer n k \<notin> set cs) \<and> (\<forall>b. StopSandbox b \<notin> set cs)"
proof (induction ss arbitrary: p)
  case (Cons s ss)
  { case 1 then show ?case using Cons(1) stop_sidecar_effect(1) by simp }
  { case 2
    obtain cs where "m_calls (pm (stop_sidecar e s p)) = m_calls (pm p) @ cs"
      "\<forall>n k. CreateContainer n k \<notin> set cs" "\<forall>b. StopSandbox b \<notin> set cs"
      using stop_sidecar_effect(2) [of e s p] by blast
    moreover obtain ds where
      "m_calls (pm (fold (stop_sidecar e) ss (stop_sidecar e s p))) = m_calls (pm (stop_sidecar e s p)) @ ds"
      "\<forall>n k. CreateContainer n k \<notin> set ds" "\<forall>b. StopSandbox b \<notin> set ds"
      using Cons(2) [of "stop_sidecar e s p"] by blast
    ultimately show ?case by (auto intro!: exI [of _ "cs @ ds"]) }
qed simp_all

section \<open>The whole pass\<close>

text \<open>The visits leave the pod object and the sandbox alone.\<close>
definition sandbox_kept :: "pass \<Rightarrow> pass \<Rightarrow> bool" where
  "sandbox_kept p q \<longleftrightarrow> ps_pod (pst q) = ps_pod (pst p) \<and> ps_uid (pst q) = ps_uid (pst p) \<and> sandbox_stopped (pst q) = sandbox_stopped (pst p)
     \<and> (\<exists>cs. m_calls (pm q) = m_calls (pm p) @ cs \<and> (\<forall>s. StopSandbox s \<notin> set cs))"

lemma sandbox_kept_refl: "sandbox_kept p p"
  by (simp add: sandbox_kept_def)

lemma sandbox_kept_step:
  assumes "sandbox_kept p q" "only_about n q r"
  shows "sandbox_kept p r"
proof -
  obtain cs where cs: "m_calls (pm q) = m_calls (pm p) @ cs" "\<forall>s. StopSandbox s \<notin> set cs"
    using assms(1) unfolding sandbox_kept_def by blast
  obtain ds where ds: "m_calls (pm r) = m_calls (pm q) @ ds" "\<forall>c \<in> set ds. \<forall>s. c \<noteq> StopSandbox s"
    using assms(2) unfolding only_about_def by blast
  have "m_calls (pm r) = m_calls (pm p) @ (cs @ ds)" "\<forall>s. StopSandbox s \<notin> set (cs @ ds)"
    using cs ds by auto
  moreover have "ps_pod (pst r) = ps_pod (pst p) \<and> ps_uid (pst r) = ps_uid (pst p)
      \<and> sandbox_stopped (pst r) = sandbox_stopped (pst p)"
    using assms unfolding sandbox_kept_def only_about_def by auto
  ultimately show ?thesis unfolding sandbox_kept_def by blast
qed

lemma visit_all_sandbox: "sandbox_kept p (visit_all e p)"
proof -
  have v: "sandbox_kept p q \<Longrightarrow> sandbox_kept p (fold (visit_container e specs sc pol) ncs q)"
    for q specs sc pol ncs
    by (induction ncs arbitrary: q) (auto intro: sandbox_kept_step only_about_visit)
  have c: "sandbox_kept p q \<Longrightarrow> sandbox_kept p (fold (create_missing e) ms q)" for q ms
    by (induction ms arbitrary: q) (auto intro: sandbox_kept_step only_about_missing)
  show ?thesis unfolding visit_all_def Let_def by (intro c v sandbox_kept_refl)
qed

lemma sidecar_report_keeps:
  "terminated (sidecar_report cs st) = terminated st" "container_ids (sidecar_report cs st) = container_ids st"
  "ps_pod (sidecar_report cs st) = ps_pod st" "sandbox_stopped (sidecar_report cs st) = sandbox_stopped st"
  by (simp_all add: sidecar_report_def Let_def)

lemma sidecar_reports_keep:
  "terminated (fold sidecar_report rs st) = terminated st"
  "container_ids (fold sidecar_report rs st) = container_ids st"
  "ps_pod (fold sidecar_report rs st) = ps_pod st"
  "sandbox_stopped (fold sidecar_report rs st) = sandbox_stopped st"
  by (induction rs arbitrary: st) (simp_all add: sidecar_report_keeps)

text \<open>The state in which the phase is computed.\<close>
definition reported_state :: "pass_env \<Rightarrow> pod_state \<Rightarrow> manager \<Rightarrow> pod_state" where
  "reported_state e st m =
     (let p = visit_all e \<lparr>pst = st, pm = m, pout = []\<rparr>
      in fold sidecar_report (filter (\<lambda>cs. cr_name cs \<in> set (sidecar_names (ps_pod st))) (pout p)) (pst p))"

lemma check_pod_status_phase:
  assumes "m_pods m u = Some st"
  shows "\<exists>upd. fst (check_pod_status e u m) = Inr upd
    \<and> pu_phase upd = pod_phase (pod_restart_policy (ps_pod st)) (sidecar_names (ps_pod st)) (reported_state e st m)"
  using assms by (simp add: check_pod_status_def reported_state_def Let_def)

lemma stop_finished_sandbox_effect:
  "m_pods m u = Some st \<Longrightarrow> \<exists>st' cs. m_pods (stop_finished_sandbox e u m) u = Some st'
     \<and> terminated st' = terminated st \<and> ps_phase st' = ps_phase st
     \<and> m_calls (stop_finished_sandbox e u m) = m_calls m @ cs \<and> (\<forall>n k. CreateContainer n k \<notin> set cs)"
  by (auto simp: stop_finished_sandbox_def Let_def split: option.split cri_error.split)

text \<open>C2. Terminated for good is final: a container the pod manager has recorded as
  terminated keeps its exit code through any status pass, and no pass creates it again,
  whatever the runtime answers, the probes say or the policy is.\<close>
theorem terminated_is_final:
  assumes "m_pods m u = Some st" and "terminated st n = Some code"
  shows "\<exists>st' cs. m_pods (snd (check_pod_status e u m)) u = Some st' \<and> terminated st' n = Some code
    \<and> m_calls (snd (check_pod_status e u m)) = m_calls m @ cs \<and> (\<forall>k. CreateContainer n k \<notin> set cs)"
proof -
  let ?start = "\<lparr>pst = st, pm = m, pout = []\<rparr>" and ?sc = "sidecar_names (ps_pod st)"
  let ?p = "visit_all e ?start"
  let ?ph = "pod_phase (pod_restart_policy (ps_pod st)) ?sc (reported_state e st m)"
  let ?p1 = "?p\<lparr>pst := (reported_state e st m)\<lparr>ps_phase := ?ph\<rparr>\<rparr>"
  let ?p2 = "if ?ph \<noteq> ''Running'' then fold (stop_sidecar e) (rev ?sc) ?p1 else ?p1"
  let ?m = "(pm ?p2)\<lparr>m_pods := (m_pods (pm ?p2))(u \<mapsto> pst ?p2)\<rparr>"
  have s: "stays_terminated n code ?start ?p" by (rule visit_all_stays) (simp add: assms(2))
  then obtain cs where cs: "m_calls (pm ?p) = m_calls m @ cs" "\<forall>k. CreateContainer n k \<notin> set cs"
    by (auto simp: stays_terminated_def)
  have "terminated (pst ?p1) n = Some code"
    using s by (simp add: reported_state_def stays_terminated_def sidecar_reports_keep Let_def)
  then have t: "terminated (pst ?p2) n = Some code" by (auto intro: stop_sidecars_effect(1))
  obtain ds where ds: "m_calls (pm ?p2) = m_calls (pm ?p) @ ds" "\<forall>k. CreateContainer n k \<notin> set ds"
    using stop_sidecars_effect(2) [of e "rev ?sc" ?p1] by (cases "?ph \<noteq> ''Running''") auto
  obtain st' es where es: "m_pods (stop_finished_sandbox e u ?m) u = Some st'"
    "terminated st' = terminated (pst ?p2)"
    "m_calls (stop_finished_sandbox e u ?m) = m_calls ?m @ es" "\<forall>n k. CreateContainer n k \<notin> set es"
    using stop_finished_sandbox_effect [of ?m u "pst ?p2" e] by auto
  have "snd (check_pod_status e u m) = (if ?ph \<noteq> ''Running'' then stop_finished_sandbox e u ?m else ?m)"
    using assms(1) by (simp add: check_pod_status_def reported_state_def Let_def)
  then show ?thesis
    using cs ds t es by (cases "?ph \<noteq> ''Running''") (auto intro!: exI [of _ "cs @ ds @ es"] exI [of _ "cs @ ds"])
qed

text \<open>C24. A pod whose containers must always come back never finishes: the pass reports it
  Running whatever its containers did, keeps it so, and never stops its sandbox.\<close>
theorem always_pod_never_finishes:
  assumes "m_pods m u = Some st" and "pod_restart_policy (ps_pod st) = ''Always''"
  shows "\<exists>upd st' cs. check_pod_status e u m = (Inr upd, snd (check_pod_status e u m)) \<and> pu_phase upd = ''Running''
    \<and> m_pods (snd (check_pod_status e u m)) u = Some st' \<and> ps_phase st' = ''Running''
    \<and> sandbox_stopped st' = sandbox_stopped st
    \<and> m_calls (snd (check_pod_status e u m)) = m_calls m @ cs \<and> (\<forall>s. StopSandbox s \<notin> set cs)"
proof -
  have "sandbox_kept \<lparr>pst = st, pm = m, pout = []\<rparr> (visit_all e \<lparr>pst = st, pm = m, pout = []\<rparr>)"
    by (rule visit_all_sandbox)
  then show ?thesis using assms
    by (auto simp: check_pod_status_def sandbox_kept_def pod_phase_def sidecar_reports_keep Let_def)
qed

section \<open>Waiting containers have a deadline\<close>

definition has_due :: "pass \<Rightarrow> bool" where
  "has_due p = (due (m_deadlines (pm p)) (ps_uid (pst p)) \<noteq> None)"

text \<open>If a report made so far says \<open>waiting\<close>, the pod has a deadline.\<close>
definition awake :: "pass \<Rightarrow> bool" where
  "awake p \<longleftrightarrow> (\<exists>r \<in> set (pout p). cr_state r = ''waiting'') \<longrightarrow> has_due p"

lemma due_at_some: "due (due_at u x d) v \<noteq> None \<longleftrightarrow> due d v \<noteq> None \<or> u = v"
  by (simp add: due_at_def)

lemma due_probe_due: "due d v \<noteq> None \<Longrightarrow> due (snd (probe_due t u n k pr s d)) v \<noteq> None"
  by (auto simp: probe_due_def period_due_def due_at_def Let_def split: option.split)

lemma due_probed: "due d v \<noteq> None \<Longrightarrow> due (probed t u n k pr s d) v \<noteq> None"
  by (simp add: probed_def due_at_def)

lemma due_look_again: "has_due (look_again e d p)"
  by (simp add: has_due_def look_again_def due_in_def due_at_def)

lemma has_due_keep:
  "has_due p \<Longrightarrow> has_due (push r p)" "has_due p \<Longrightarrow> has_due (set_ready n b p)"
  "has_due p \<Longrightarrow> has_due (set_failures n k p)" "has_due p \<Longrightarrow> has_due (set_terminated n c p)"
  "has_due p \<Longrightarrow> has_due (call rc p)" "has_due p \<Longrightarrow> has_due (running_backoff e n p)"
  "has_due p \<Longrightarrow> has_due (snd (bump_restart n p))" "has_due p \<Longrightarrow> has_due (note_probed e n kd pr p)"
  "has_due p \<Longrightarrow> has_due (snd (ask_due e n kd pr p))" "has_due p \<Longrightarrow> has_due (restarted_backoff e n p)"
  "has_due p \<Longrightarrow> has_due (p\<lparr>pst := (pst p)\<lparr>startup_passed := sp\<rparr>\<rparr>)"
  "has_due p \<Longrightarrow> has_due (p\<lparr>pm := (pm p)\<lparr>m_last_terminated := lt\<rparr>\<rparr>)"
  "has_due p \<Longrightarrow> has_due (p\<lparr>pst := (pst p)\<lparr>container_ids := ci, ps_started := x\<rparr>\<rparr>)"
  using due_probe_due
  by (auto simp: has_due_def push_def set_ready_def set_failures_def set_terminated_def call_def
      running_backoff_def bump_restart_def note_probed_def due_probed ask_due_def restarted_backoff_def
      look_again_def due_in_def due_at_def Let_def split: prod.split option.split) (metis snd_conv option.distinct(1))+

lemma pout_keep:
  "pout (set_ready n b p) = pout p" "pout (set_failures n k p) = pout p" "pout (set_terminated n c p) = pout p"
  "pout (call rc p) = pout p" "pout (running_backoff e n p) = pout p" "pout (snd (bump_restart n p)) = pout p"
  "pout (note_probed e n kd pr p) = pout p" "pout (snd (ask_due e n kd pr p)) = pout p"
  "pout (restarted_backoff e n p) = pout p" "pout (look_again e d p) = pout p"
  by (simp_all add: set_ready_def set_failures_def set_terminated_def call_def running_backoff_def
      bump_restart_def note_probed_def ask_due_def restarted_backoff_def look_again_def Let_def
      split: prod.split option.split)

lemma awake_keep:
  "awake p \<Longrightarrow> awake (set_ready n b p)" "awake p \<Longrightarrow> awake (set_failures n k p)"
  "awake p \<Longrightarrow> awake (set_terminated n c p)" "awake p \<Longrightarrow> awake (call rc p)"
  "awake p \<Longrightarrow> awake (running_backoff e n p)" "awake p \<Longrightarrow> awake (snd (bump_restart n p))"
  "awake p \<Longrightarrow> awake (note_probed e n kd pr p)" "awake p \<Longrightarrow> awake (snd (ask_due e n kd pr p))"
  "awake p \<Longrightarrow> awake (restarted_backoff e n p)" "awake (look_again e d p)"
  "awake p \<Longrightarrow> awake (p\<lparr>pst := (pst p)\<lparr>startup_passed := sp\<rparr>\<rparr>)"
  "awake p \<Longrightarrow> awake (p\<lparr>pm := (pm p)\<lparr>m_last_terminated := lt\<rparr>\<rparr>)"
  "awake p \<Longrightarrow> awake (p\<lparr>pst := (pst p)\<lparr>container_ids := ci, ps_started := x\<rparr>\<rparr>)"
  unfolding awake_def pout_keep by (auto intro: has_due_keep due_look_again)

lemma awake_push: "awake p \<Longrightarrow> (cr_state r = ''waiting'' \<Longrightarrow> has_due p) \<Longrightarrow> awake (push r p)"
  unfolding awake_def by (auto simp: push_def has_due_def)

lemma report_states:
  "cr_state (report_gone n cid s k c sp re m) = s" "cr_state (report_status n cid s b k c i re m) = s"
  by (simp_all add: report_gone_def report_status_def)

lemmas awake_intros = awake_keep awake_push has_due_keep due_look_again

lemma awake_create: "awake p \<Longrightarrow> awake (snd (create_and_start e n img k p))"
  by (auto simp: create_and_start_def Let_def split: sum.split option.split intro!: awake_intros)

lemma awake_restart: "awake p \<Longrightarrow> awake (snd (restart_container e n cid spec p))"
  unfolding restart_container_def Let_def case_prod_beta
  by (auto simp: report_states split: option.split sum.split intro!: awake_intros awake_create)

lemma awake_startup:
  "awake p \<Longrightarrow> case startup_gate e n cid spec s count p of Inl q \<Rightarrow> awake q | Inr q \<Rightarrow> awake q"
  unfolding startup_gate_def Let_def case_prod_beta
  by (auto simp: report_states split: probe_result.split option.split intro!: awake_keep awake_push awake_restart)

lemma awake_liveness: "awake p \<Longrightarrow> awake (snd (liveness_check e n cid spec p))"
  unfolding liveness_check_def Let_def case_prod_beta
  by (auto split: probe_result.split option.split intro!: awake_keep awake_restart)

lemma awake_readiness: "awake p \<Longrightarrow> awake (snd (readiness_check e n cid spec el p))"
  unfolding readiness_check_def Let_def case_prod_beta by (auto intro!: awake_keep)

lemma awake_running: "awake p \<Longrightarrow> awake (visit_running e n cid spec s count p)"
proof -
  assume a: "awake p"
  show ?thesis
  proof (cases "startup_gate e n cid spec s count p")
    case (Inl q)
    then show ?thesis using awake_startup [OF a, of e n cid spec s count] by (simp add: visit_running_def Let_def)
  next
    case (Inr q)
    then have "awake q" using awake_startup [OF a, of e n cid spec s count] by simp
    then show ?thesis using Inr
      unfolding visit_running_def Let_def case_prod_beta
      by (auto simp: report_states intro!: awake_keep awake_push awake_liveness awake_readiness)
  qed
qed

lemma awake_missing_record: "awake p \<Longrightarrow> awake (visit_missing_record e n cid spec pol count p)"
  unfolding visit_missing_record_def Let_def
  by (auto simp: report_states split: option.split intro!: awake_intros awake_restart)

lemma awake_exited: "awake p \<Longrightarrow> awake (visit_exited e n cid spec s pol count p)"
  unfolding visit_exited_def Let_def
  by (auto simp: report_states split: option.split intro!: awake_intros awake_restart)

lemma awake_unreachable: "awake (visit_unreachable e n cid spec count p)"
  unfolding visit_unreachable_def by (intro awake_intros)

lemma awake_created: "awake (visit_created e n cid s count p)"
  unfolding visit_created_def by (intro awake_intros)

lemma awake_visit: "awake p \<Longrightarrow> awake (visit_container e specs sidecars policy nc p)"
  unfolding visit_container_def Let_def case_prod_beta
  by (auto simp: report_states split: option.split sum.split cri_error.split container_state.split
      intro!: awake_running awake_missing_record awake_exited awake_unreachable awake_created awake_push)

lemma awake_missing: "awake p \<Longrightarrow> awake (create_missing e ns p)"
  unfolding create_missing_def Let_def case_prod_beta
  by (auto simp: report_states split: option.split intro!: awake_intros awake_restart)

lemma awake_visit_all: "awake p \<Longrightarrow> awake (visit_all e p)"
proof -
  have v: "awake q \<Longrightarrow> awake (fold (visit_container e specs sc pol) ncs q)" for q specs sc pol ncs
    by (induction ncs arbitrary: q) (auto intro: awake_visit)
  have c: "awake q \<Longrightarrow> awake (fold (create_missing e) ms q)" for q ms
    by (induction ms arbitrary: q) (auto intro: awake_missing)
  assume "awake p"
  then show ?thesis unfolding visit_all_def Let_def by (intro c v)
qed

lemma stop_sidecar_deadlines: "m_deadlines (pm (fold (stop_sidecar e) ss p)) = m_deadlines (pm p)"
proof (induction ss arbitrary: p)
  case (Cons s ss)
  have "m_deadlines (pm (stop_sidecar e s p)) = m_deadlines (pm p)"
    by (auto simp: stop_sidecar_def call_def set_ready_def set_terminated_def Let_def
        split: option.split cri_error.split)
  then show ?case using Cons by simp
qed simp

lemma stop_finished_deadlines:
  "due (m_deadlines m) v \<noteq> None \<Longrightarrow> due (m_deadlines (stop_finished_sandbox e u m)) v \<noteq> None"
  by (auto simp: stop_finished_sandbox_def due_in_def due_at_def Let_def split: option.split cri_error.split)

text \<open>C22. Nothing waits for ever: whenever a pass reports a container as waiting (backing
  off, failed to start, unreachable or not yet running), the pod has a deadline by which it is
  looked at again without any event.\<close>
theorem waiting_container_has_deadline:
  assumes "m_pods m u = Some st" and "ps_uid st = u"
    and "check_pod_status e u m = (Inr upd, m')"
    and "\<exists>r \<in> set (pu_container_statuses upd). cr_state r = ''waiting''"
  shows "due (m_deadlines m') u \<noteq> None"
proof -
  let ?start = "\<lparr>pst = st, pm = m, pout = []\<rparr>"
  let ?p = "visit_all e ?start"
  have "awake ?start" by (simp add: awake_def)
  then have a: "awake ?p" by (rule awake_visit_all)
  have "ps_uid (pst ?p) = u" using visit_all_sandbox [of ?start e] assms(2) by (simp add: sandbox_kept_def)
  moreover have "set (pu_container_statuses upd) \<subseteq> set (pout ?p)"
    using assms(1,3) by (auto simp: check_pod_status_def Let_def split: if_splits)
  ultimately have d: "due (m_deadlines (pm ?p)) u \<noteq> None"
    using a assms(4) by (auto simp: awake_def has_due_def)
  show ?thesis
  proof (cases "pod_phase (pod_restart_policy (ps_pod st)) (sidecar_names (ps_pod st)) (reported_state e st m) = ''Running''")
    case True
    then show ?thesis using assms(1,3) d by (auto simp: check_pod_status_def reported_state_def Let_def)
  next
    case False
    let ?p1 = "?p\<lparr>pst := (reported_state e st m)\<lparr>ps_phase := pod_phase (pod_restart_policy (ps_pod st))
        (sidecar_names (ps_pod st)) (reported_state e st m)\<rparr>\<rparr>"
    let ?p2 = "fold (stop_sidecar e) (rev (sidecar_names (ps_pod st))) ?p1"
    have "m' = stop_finished_sandbox e u ((pm ?p2)\<lparr>m_pods := (m_pods (pm ?p2))(u \<mapsto> pst ?p2)\<rparr>)"
      using assms(1,3) False by (auto simp: check_pod_status_def reported_state_def Let_def)
    moreover have "due (m_deadlines (pm ?p2)) u \<noteq> None" using d by (simp add: stop_sidecar_deadlines)
    ultimately show ?thesis by (simp add: stop_finished_deadlines del: not_None_eq)
  qed
qed

section \<open>Exits\<close>

lemma backing_off_frame:
  "backing_off e n (p\<lparr>pm := (pm p)\<lparr>m_last_terminated := lt\<rparr>\<rparr>) = backing_off e n p"
  by (simp add: backing_off_def backoff_key_def)

lemma due_by_look_again: "due_by (ps_uid (pst p)) (now (at e) + int d) (m_deadlines (pm (look_again e d p)))"
  by (simp add: look_again_def due_in_def due_by_due_at)

lemma restart_first_calls:
  "\<exists>cs. m_calls (pm (snd (restart_container e n cid spec p))) =
     m_calls (pm p) @ StopContainer cid 5 # RemoveContainer cid # cs"
proof -
  have b: "m_calls (pm (snd (bump_restart n q))) = m_calls (pm q)"
    "m_calls (pm (set_failures n k q)) = m_calls (pm q)"
    "m_calls (pm (set_ready n bb q)) = m_calls (pm q)" "m_calls (pm (look_again e d q)) = m_calls (pm q)"
    "m_calls (pm (push r q)) = m_calls (pm q)" for q k bb d r
    by (simp_all add: bump_restart_def set_failures_def set_ready_def look_again_def push_def Let_def)
  have c: "\<exists>cs. m_calls (pm (snd (create_and_start e n img k q))) = m_calls (pm q) @ cs" for img k q
    by (auto simp: create_and_start_def call_def Let_def split: sum.split option.split)
  let ?q = "set_failures n 0 (snd (bump_restart n (call (RemoveContainer cid) (call (StopContainer cid 5) p))))"
  let ?k = "fst (bump_restart n (call (RemoveContainer cid) (call (StopContainer cid 5) p)))"
  obtain cs where cs: "m_calls (pm (snd (create_and_start e n (str_or [] (jget spec ''image'')) ?k ?q)))
      = m_calls (pm ?q) @ cs"
    using c [of "str_or [] (jget spec ''image'')" ?k ?q] by blast
  show ?thesis
    unfolding restart_container_def Let_def case_prod_beta using cs
    by (auto simp: b call_def split: option.split sum.split)
qed

end
