(* ===== verification/PodProps.thy ===== *)
theory PodProps
  imports PodPass
begin

text \<open>What a restart leaves alone, the treatment of exits, and three behaviours of the status
  pass that its comments do not intend: a liveness restart that ignores the restart policy and
  the back-off, a startup probe that is not asked again after a restart, and a phase computed
  from the containers that were created rather than from those the pod declares.\<close>

text \<open>What no step of a restart touches.\<close>
definition untouched :: "pass \<Rightarrow> pass \<Rightarrow> bool" where
  "untouched p q \<longleftrightarrow> m_last_terminated (pm q) = m_last_terminated (pm p)
     \<and> m_backoff (pm q) = m_backoff (pm p) \<and> startup_passed (pst q) = startup_passed (pst p)
     \<and> ps_uid (pst q) = ps_uid (pst p) \<and> terminated (pst q) = terminated (pst p)"

lemma untouched_refl: "untouched p p"
  by (simp add: untouched_def)

lemma untouched_keep:
  "untouched p q \<Longrightarrow> untouched p (push r q)" "untouched p q \<Longrightarrow> untouched p (set_ready n b q)"
  "untouched p q \<Longrightarrow> untouched p (set_failures n k q)" "untouched p q \<Longrightarrow> untouched p (call rc q)"
  "untouched p q \<Longrightarrow> untouched p (look_again e d q)" "untouched p q \<Longrightarrow> untouched p (snd (bump_restart n q))"
  "untouched p q \<Longrightarrow> untouched p (q\<lparr>pst := (pst q)\<lparr>container_ids := ci, ps_started := x\<rparr>\<rparr>)"
  by (simp_all add: untouched_def push_def set_ready_def set_failures_def call_def look_again_def
      bump_restart_def Let_def)

lemma untouched_create: "untouched p q \<Longrightarrow> untouched p (snd (create_and_start e n img k q))"
  by (auto simp: create_and_start_def Let_def split: sum.split option.split intro!: untouched_keep)

lemma untouched_restart: "untouched p (snd (restart_container e n cid spec p))"
  unfolding restart_container_def Let_def case_prod_beta
  by (auto split: option.split sum.split intro!: untouched_keep untouched_create untouched_refl)

lemma restarted_backoff_wait:
  assumes "delays_ok (m_backoff (pm p))"
  shows "\<exists>d. backing_off e n (restarted_backoff e n p) = Some d \<and> BASE \<le> d \<and> d \<le> CAP
    \<and> due_by (ps_uid (pst p)) (now (at e) + int d) (m_deadlines (pm (restarted_backoff e n p)))"
proof -
  let ?b = "restarted (at e) (save_ok e) (backoff_key p n) (m_backoff (pm p))"
  obtain en where en: "entries ?b (backoff_key p n) = Some en" "ready_at en = now (at e) + int (cl_delay en)"
    by (simp add: restarted_def Let_def)
  moreover have "delays_ok ?b" using assms by (rule delays_ok_restarted)
  ultimately have r: "BASE \<le> cl_delay en" "cl_delay en \<le> CAP" by (auto simp: delays_ok_def)
  then have "wait ?b (backoff_key p n) (now (at e)) = Some (cl_delay en)"
    using en by (simp add: wait_def since_def BASE_def)
  then show ?thesis using r
    by (auto simp: restarted_backoff_def backing_off_def backoff_key_def look_again_def due_in_def
        due_by_due_at Let_def)
qed

text \<open>What a pass does with a container it finds exited: under a policy that restarts it,
  its run is kept as the last one, and either it is backing off (nothing is called, it is
  reported as \<open>CrashLoopBackOff\<close> and the pod has a deadline at the end of the wait) or its old
  record is stopped and removed and the next restart is gated for at least ten seconds;
  under a policy that does not, nothing is called and it is recorded as terminated with its
  exit code.\<close>
theorem exited_container:
  fixes specs :: "(string \<times> json) list" and sidecars :: "string list" and policy :: string
  assumes "terminated (pst p) n = None" and "rt_status (rt e) cid = Inr s" and "si_state s = Exited"
    and "delays_ok (m_backoff (pm p))"
  defines "q \<equiv> visit_container e specs sidecars policy (n, cid) p"
  shows "if n \<in> set sidecars \<or> policy = ''Always'' \<or> policy = ''OnFailure'' \<and> si_exit_code s \<noteq> 0
    then m_last_terminated (pm q) (ps_uid (pst p), n) = Some (last_terminated_of s) \<and>
      (case backing_off e n p of
         Some left \<Rightarrow> m_calls (pm q) = m_calls (pm p)
           \<and> due_by (ps_uid (pst p)) (now (at e) + int left) (m_deadlines (pm q))
           \<and> (\<exists>r. pout q = pout p @ [r] \<and> cr_name r = n \<and> cr_state r = ''waiting''
                \<and> cr_reason r = ''CrashLoopBackOff'')
       | None \<Rightarrow> (\<exists>cs. m_calls (pm q) = m_calls (pm p) @ StopContainer cid 5 # RemoveContainer cid # cs)
           \<and> (\<exists>d. backing_off e n q = Some d \<and> BASE \<le> d \<and> d \<le> CAP))
    else m_calls (pm q) = m_calls (pm p) \<and> terminated (pst q) n = Some (si_exit_code s)
      \<and> (\<exists>r. pout q = pout p @ [r] \<and> cr_name r = n \<and> cr_state r = ''terminated''
           \<and> cr_exit_code r = si_exit_code s
           \<and> cr_reason r = terminated_reason (si_reason s) (si_exit_code s))"
proof -
  let ?spec = "case map_of specs n of Some s \<Rightarrow> s | None \<Rightarrow> JNull"
  let ?policy = "if n \<in> set sidecars then ''Always'' else policy"
  let ?count = "case restart_counts (pst p) n of Some c \<Rightarrow> c | None \<Rightarrow> 0"
  let ?p1 = "p\<lparr>pm := (pm p)\<lparr>m_last_terminated :=
    (m_last_terminated (pm p))((ps_uid (pst p), n) \<mapsto> last_terminated_of s)\<rparr>\<rparr>"
  have q: "q = visit_exited e n cid ?spec s ?policy ?count p"
    using assms(1-3) by (simp add: q_def visit_container_def Let_def)
  have wanted: "n \<in> set sidecars \<or> policy = ''Always'' \<or> policy = ''OnFailure'' \<and> si_exit_code s \<noteq> 0
      \<longleftrightarrow> should_restart ?policy (si_exit_code s)"
    by (auto simp: should_restart_def)
  show ?thesis
  proof (cases "should_restart ?policy (si_exit_code s)")
    case False
    then show ?thesis unfolding wanted q visit_exited_def
      by (simp add: push_def set_ready_def set_terminated_def report_status_def)
  next
    case True
    show ?thesis
    proof (cases "backing_off e n p")
      case (Some left)
      then have "q = push (report_status n cid ''waiting'' False ?count (si_exit_code s) s
          ''CrashLoopBackOff'' (backoff_message n left)) (set_ready n False (look_again e left ?p1))"
        using True unfolding q visit_exited_def by (simp add: backing_off_frame Let_def)
      then show ?thesis unfolding wanted using True Some due_by_look_again [of ?p1 e left]
        by (simp add: push_def set_ready_def look_again_def report_status_def)
    next
      case None
      let ?r = "snd (restart_container e n cid ?spec ?p1)"
      have qr: "q = restarted_backoff e n ?r"
        using True None unfolding q visit_exited_def by (simp add: backing_off_frame Let_def)
      have u: "untouched ?p1 ?r" by (rule untouched_restart)
      obtain cs where "m_calls (pm ?r) = m_calls (pm p) @ StopContainer cid 5 # RemoveContainer cid # cs"
        using restart_first_calls [of e n cid ?spec ?p1] by auto
      moreover have "m_calls (pm q) = m_calls (pm ?r)" "m_last_terminated (pm q) = m_last_terminated (pm ?r)"
        unfolding qr by (auto simp: restarted_backoff_def look_again_def Let_def split: option.split)
      moreover have "\<exists>d. backing_off e n q = Some d \<and> BASE \<le> d \<and> d \<le> CAP"
        using restarted_backoff_wait [of ?r e n] u assms(4) unfolding qr untouched_def by auto
      ultimately show ?thesis unfolding wanted using True None u by (simp add: untouched_def)
    qed
  qed
qed

section \<open>Three unintended behaviours\<close>

text \<open>The state after the restart of a container whose image, create and start all work.\<close>
lemma restart_succeeds:
  assumes "sandbox_id (pst p) = Some sb" "rt_volumes (rt e) = None" "rt_token_mount (rt e) = None"
    and "\<And>img. \<exists>ref. rt_ensure_image (rt e) img = Inr ref"
    and "\<And>k. \<exists>c. rt_create (rt e) n k = Inr c" and "\<And>c. rt_start (rt e) c = None"
  shows "fst (restart_container e n cid spec p)
    \<and> (\<exists>k. CreateContainer n k \<in> set (m_calls (pm (snd (restart_container e n cid spec p)))))"
proof -
  let ?q = "set_failures n 0 (snd (bump_restart n (call (RemoveContainer cid) (call (StopContainer cid 5) p))))"
  let ?k = "fst (bump_restart n (call (RemoveContainer cid) (call (StopContainer cid 5) p)))"
  obtain ref where ref: "rt_ensure_image (rt e) (str_or [] (jget spec ''image'')) = Inr ref" using assms(4) by blast
  obtain c where c: "rt_create (rt e) n ?k = Inr c" using assms(5) by blast
  have "create_and_start e n (str_or [] (jget spec ''image'')) ?k ?q =
      (Inr (c, ref), call (StartContainer c) (call (CreateContainer n ?k) ?q))"
    using ref c assms(6) by (simp add: create_and_start_def Let_def)
  moreover have "sandbox_id (pst ?q) = Some sb"
    using assms(1) by (simp add: set_failures_def bump_restart_def call_def Let_def)
  ultimately show ?thesis using assms(2,3)
    unfolding restart_container_def Let_def case_prod_beta
    by (auto simp: push_def set_ready_def call_def)
qed

text \<open>A failing liveness probe restarts the container whatever its restart policy: when
  the last failure below the threshold is followed by another, the container is created again
  even in a pod whose policy is \<open>Never\<close>, and neither is the crash-loop back-off asked nor is
  the restart entered in it.\<close>
theorem liveness_restart_ignores_policy:
  fixes specs :: "(string \<times> json) list" and sidecars :: "string list" and policy :: string
  assumes "terminated (pst p) n = None" and "rt_status (rt e) cid = Inr s" and "si_state s = Running"
    and "map_of specs n = Some spec" and "is_null (jget spec ''startupProbe'')"
    and "\<not> is_null (jget spec ''livenessProbe'')"
    and "fst (ask_due e n LIVENESS (jget spec ''livenessProbe'') p)"
    and "rt_probe (rt e) LIVENESS cid = ProbeFailure why"
    and "liveness_failures (pst p) n = Some k"
    and "probe_failure_threshold (jget spec ''livenessProbe'') \<le> u32_inc k"
    and "sandbox_id (pst p) = Some sb" and "rt_volumes (rt e) = None" and "rt_token_mount (rt e) = None"
    and "\<forall>img. \<exists>ref. rt_ensure_image (rt e) img = Inr ref"
    and "\<forall>k. \<exists>c. rt_create (rt e) n k = Inr c" and "\<forall>c. rt_start (rt e) c = None"
  shows "(\<exists>j. CreateContainer n j \<in> set (m_calls (pm (visit_container e specs sidecars policy (n, cid) p))))
    \<and> m_backoff (pm (visit_container e specs sidecars policy (n, cid) p)) = m_backoff (pm p)"
proof -
  let ?l = "jget spec ''livenessProbe''" and ?count = "case restart_counts (pst p) n of Some c \<Rightarrow> c | None \<Rightarrow> 0"
  let ?p1 = "snd (ask_due e n LIVENESS ?l p)"
  let ?p2 = "note_probed e n LIVENESS ?l ?p1"
  let ?p3 = "set_failures n (u32_inc k) ?p2"
  have eqs: "liveness_failures (pst ?p2) = liveness_failures (pst p)" "sandbox_id (pst ?p3) = sandbox_id (pst p)"
    "m_backoff (pm ?p3) = m_backoff (pm p)"
    by (simp_all add: note_probed_def ask_due_def set_failures_def split: prod.split)
  have live: "liveness_check e n cid spec p = restart_container e n cid spec ?p3"
    using assms(6-10) unfolding liveness_check_def Let_def case_prod_beta by (simp add: eqs)
  have ok: "fst (restart_container e n cid spec ?p3)"
    "\<exists>j. CreateContainer n j \<in> set (m_calls (pm (snd (restart_container e n cid spec ?p3))))"
    using restart_succeeds [of ?p3 sb e n cid spec] assms(11-16) eqs(2) by auto
  have "startup_gate e n cid spec s ?count p = Inr p"
    using assms(5) by (simp add: startup_gate_def Let_def)
  then have "visit_container e specs sidecars policy (n, cid) p = snd (restart_container e n cid spec ?p3)"
    using assms(1-4) live ok(1)
    by (simp add: visit_container_def visit_running_def Let_def case_prod_beta)
  then show ?thesis
    using ok(2) untouched_restart [of ?p3 e n cid spec] eqs(3) by (simp add: untouched_def)
qed

text \<open>A restart does not start the startup probe over: once a container's startup probe
  has passed, no restart of the container forgets it, so the new run is given no time to come
  up: its liveness probe counts from the first period.\<close>
theorem startup_probe_not_repeated:
  assumes "startup_passed (pst p) n = Some True"
  shows "startup_passed (pst (snd (restart_container e n cid spec p))) n = Some True
    \<and> startup_gate e n cid' spec s count (snd (restart_container e n cid spec p))
        = Inr (snd (restart_container e n cid spec p))"
  using assms untouched_restart [of p e n cid spec]
  by (simp add: untouched_def startup_gate_def Let_def)

lemma restart_fails:
  assumes "\<And>img. \<exists>err. rt_ensure_image (rt e) img = Inl err"
  shows "container_ids (pst (snd (restart_container e n cid spec p))) = container_ids (pst p)"
proof -
  obtain err where "rt_ensure_image (rt e) (str_or [] (jget spec ''image'')) = Inl err" using assms by blast
  then show ?thesis
    unfolding restart_container_def Let_def case_prod_beta
    by (auto simp: create_and_start_def push_def set_ready_def look_again_def set_failures_def
        bump_restart_def call_def Let_def split: option.split)
qed

lemma missing_fails:
  assumes "\<And>img. \<exists>err. rt_ensure_image (rt e) img = Inl err"
  shows "container_ids (pst (create_missing e ns p)) = container_ids (pst p)
    \<and> terminated (pst (create_missing e ns p)) = terminated (pst p)"
proof -
  have r: "container_ids (pst (restarted_backoff e n q)) = container_ids (pst q)"
    "terminated (pst (restarted_backoff e n q)) = terminated (pst q)" for n q
    by (auto simp: restarted_backoff_def look_again_def Let_def split: option.split)
  show ?thesis
    using restart_fails [OF assms] untouched_restart
    by (auto simp: create_missing_def r push_def set_ready_def look_again_def untouched_def
        split: prod.split option.split)
qed

lemma all_terminated_visits:
  "\<forall>nc \<in> set ncs. terminated (pst p) (fst nc) \<noteq> None \<Longrightarrow>
     pst (fold (visit_container e specs sidecars policy) ncs p) = pst p"
proof (induction ncs arbitrary: p)
  case (Cons nc ncs)
  obtain code where "terminated (pst p) (fst nc) = Some code" using Cons.prems by auto
  from visit_terminated [OF this] have "pst (visit_container e specs sidecars policy nc p) = pst p" by blast
  then show ?case using Cons by simp
qed simp

text \<open>The phase counts the containers that were created, not those the pod declares: in a
  pod that does not always restart, when every container that has a record has exited with 0,
  the pod is reported Succeeded although another declared container could never be created
  (its image does not come).\<close>
theorem phase_ignores_uncreated_container:
  assumes "m_pods m u = Some st" and "pod_restart_policy (ps_pod st) \<noteq> ''Always''"
    and "sidecar_names (ps_pod st) = []" and "container_ids st \<noteq> []"
    and "\<forall>n \<in> fst ` set (container_ids st). terminated st n = Some 0"
    and "map_of (container_specs (ps_pod st)) b = Some spec" and "map_of (container_ids st) b = None"
    and "\<forall>img. \<exists>err. rt_ensure_image (rt e) img = Inl err"
  shows "\<exists>upd. fst (check_pod_status e u m) = Inr upd \<and> pu_phase upd = ''Succeeded''"
proof -
  let ?start = "\<lparr>pst = st, pm = m, pout = []\<rparr>"
  have f: "\<exists>err. rt_ensure_image (rt e) img = Inl err" for img using assms(8) by blast
  have c: "container_ids (pst (fold (create_missing e) ms q)) = container_ids (pst q)
      \<and> terminated (pst (fold (create_missing e) ms q)) = terminated (pst q)" for ms q
    by (induction ms arbitrary: q) (use missing_fails [OF f] in auto)
  have "pst (fold (visit_container e (container_specs (ps_pod st)) (sidecar_names (ps_pod st))
      (pod_restart_policy (ps_pod st))) (container_ids st) ?start) = st"
    by (subst all_terminated_visits) (use assms(5) in auto)
  then have v: "container_ids (pst (visit_all e ?start)) = container_ids st"
    "terminated (pst (visit_all e ?start)) = terminated st"
    unfolding visit_all_def Let_def using c by simp_all
  have codes: "List.map_filter (terminated st) (map fst (container_ids st)) = map (\<lambda>_. 0) (container_ids st)"
    using assms(5) by (induction "container_ids st") (auto simp: List.map_filter_def comp_def)
  have "pod_phase (pod_restart_policy (ps_pod st)) (sidecar_names (ps_pod st)) (reported_state e st m) = ''Succeeded''"
    using assms(2-4) codes
    by (simp add: pod_phase_def reported_state_def sidecar_reports_keep v Let_def list_all_iff)
  then show ?thesis using check_pod_status_phase [of m u st e, OF assms(1)] by auto
qed

section \<open>The properties at work\<close>

definition ex_status :: "container_state \<Rightarrow> int \<Rightarrow> container_status_info" where
  "ex_status cs code = \<lparr>si_state = cs, si_started_at = 1, si_finished_at = 2, si_exit_code = code,
     si_image = ''img'', si_image_ref = ''img@1'', si_reason = [], si_message = []\<rparr>"

text \<open>A runtime in which every container is in state \<open>s\<close>, probes fail and images come or not.\<close>
definition ex_runtime :: "container_status_info \<Rightarrow> bool \<Rightarrow> runtime" where
  "ex_runtime s images = \<lparr>rt_status = \<lambda>_. Inr s, rt_probe = \<lambda>_ _. ProbeFailure ''refused'',
     rt_volumes = None, rt_token_mount = None,
     rt_ensure_image = \<lambda>img. if images then Inr img else Inl (ImagePull img),
     rt_create = \<lambda>n k. Inr (n @ ''-new''), rt_start = \<lambda>_. None, rt_stop = \<lambda>_. None,
     rt_stop_sandbox = \<lambda>_. None\<rparr>"

definition ex_env :: "container_status_info \<Rightarrow> bool \<Rightarrow> pass_env" where
  "ex_env s images = \<lparr>rt = ex_runtime s images, at = tick 5, save_ok = True\<rparr>"

text \<open>A pod that declares containers \<open>a\<close> and \<open>b\<close>, of which \<open>a\<close> was created.\<close>
definition ex_pod_json :: "string \<Rightarrow> json" where
  "ex_pod_json policy = JObj [(''spec'', JObj [(''containers'', JArr [
     JObj [(''image'', JStr ''img''), (''livenessProbe'', JObj [(''failureThreshold'', JInt 1)]), (''name'', JStr ''a'')],
     JObj [(''image'', JStr ''img''), (''name'', JStr ''b'')]]), (''restartPolicy'', JStr policy)])]"

definition ex_state :: "string \<Rightarrow> (string \<Rightarrow> int option) \<Rightarrow> pod_state" where
  "ex_state policy term = \<lparr>ps_namespace = ''ns'', ps_name = ''p'', ps_uid = ''u'', sandbox_id = Some ''sb'',
     container_ids = [(''a'', ''a1'')], ps_phase = ''Running'', ps_pod = ex_pod_json policy, ps_pod_ip = None,
     restart_counts = \<lambda>_. None, ps_ready = \<lambda>_. None, liveness_failures = \<lambda>_. Some 0,
     startup_passed = \<lambda>_. Some True, ps_started = \<lambda>_. None, terminated = term, init_statuses = [],
     sandbox_stopped = False\<rparr>"

definition ex_manager :: "pod_state \<Rightarrow> manager" where
  "ex_manager st = \<lparr>m_pods = (\<lambda>u. if u = ''u'' then Some st else None), m_backoff = crashloop_new,
     m_deadlines = deadlines_new, m_last_terminated = \<lambda>_. None, m_calls = []\<rparr>"

definition ex_pass :: "string \<Rightarrow> pass" where
  "ex_pass policy = \<lparr>pst = ex_state policy (\<lambda>_. None), pm = ex_manager (ex_state policy (\<lambda>_. None)), pout = []\<rparr>"

lemma ex_specs:
  "container_specs (ex_pod_json policy) =
     [(''a'', JObj [(''image'', JStr ''img''), (''livenessProbe'', JObj [(''failureThreshold'', JInt 1)]), (''name'', JStr ''a'')]),
      (''b'', JObj [(''image'', JStr ''img''), (''name'', JStr ''b'')])]"
  "sidecar_names (ex_pod_json policy) = []" "pod_restart_policy (ex_pod_json policy) = policy"
  by (simp_all add: container_specs_def sidecar_names_def pod_restart_policy_def ex_pod_json_def json_simps
      List.map_filter_simps Let_def)

lemma terminated_is_final_witness:
  "\<exists>st'. m_pods (snd (check_pod_status (ex_env (ex_status Running 0) True) ''u''
      (ex_manager (ex_state ''Always'' (\<lambda>_. Some 3))))) ''u'' = Some st' \<and> terminated st' ''a'' = Some 3"
  using terminated_is_final [of "ex_manager (ex_state ''Always'' (\<lambda>_. Some 3))" "''u''"
      "ex_state ''Always'' (\<lambda>_. Some 3)" "''a''" 3 "ex_env (ex_status Running 0) True"]
  by (auto simp: ex_manager_def ex_state_def)

lemma always_pod_never_finishes_witness:
  "\<exists>upd. fst (check_pod_status (ex_env (ex_status Exited 1) False) ''u''
      (ex_manager (ex_state ''Always'' (\<lambda>_. None)))) = Inr upd \<and> pu_phase upd = ''Running''"
proof -
  let ?st = "ex_state ''Always'' (\<lambda>_. None)"
  have "m_pods (ex_manager ?st) ''u'' = Some ?st" "pod_restart_policy (ps_pod ?st) = ''Always''"
    by (simp_all add: ex_manager_def ex_specs ex_state_def)
  from always_pod_never_finishes [OF this, of "ex_env (ex_status Exited 1) False"] show ?thesis
    by (metis fst_conv)
qed

lemma exited_container_witness:
  "\<exists>cs. m_calls (pm (visit_container (ex_env (ex_status Exited 7) True) [] [] ''OnFailure'' (''a'', ''a1'')
      (ex_pass ''OnFailure''))) = StopContainer ''a1'' 5 # RemoveContainer ''a1'' # cs"
proof -
  let ?e = "ex_env (ex_status Exited 7) True" and ?p = "ex_pass ''OnFailure''"
  have "delays_ok (m_backoff (pm ?p))" "backing_off ?e ''a'' ?p = None"
    using crashes.inv_start
    by (simp_all add: ex_pass_def ex_manager_def backing_off_def wait_def) (simp add: crashloop_new_def)
  then show ?thesis
    using exited_container [of ?p "''a''" ?e "''a1''" "ex_status Exited 7" "[]" "''OnFailure''" "[]"]
    by (simp add: ex_pass_def ex_state_def ex_env_def ex_runtime_def ex_status_def should_restart_def ex_manager_def)
qed

lemma liveness_restart_ignores_policy_witness:
  "\<exists>j. CreateContainer ''a'' j \<in> set (m_calls (pm (visit_container (ex_env (ex_status Running 0) True)
      (container_specs (ex_pod_json ''Never'')) [] ''Never'' (''a'', ''a1'') (ex_pass ''Never''))))"
proof -
  let ?e = "ex_env (ex_status Running 0) True" and ?p = "ex_pass ''Never''"
  let ?spec = "JObj [(''image'', JStr ''img''), (''livenessProbe'', JObj [(''failureThreshold'', JInt 1)]), (''name'', JStr ''a'')]"
  have "fst (ask_due ?e ''a'' LIVENESS (jget ?spec ''livenessProbe'') ?p)"
    by (simp add: ask_due_def probe_due_def period_due_def ex_pass_def ex_state_def ex_manager_def
        deadlines_new_def split: prod.split)
  then show ?thesis
    using liveness_restart_ignores_policy [of ?p "''a''" ?e "''a1''" "ex_status Running 0"
        "container_specs (ex_pod_json ''Never'')" ?spec "''refused''" 0 "''sb''" "[]" "''Never''"]
    by (simp add: ex_specs ex_pass_def ex_state_def ex_env_def ex_runtime_def ex_status_def json_simps
        probe_failure_threshold_def u32_inc_def)
qed

lemma startup_probe_not_repeated_witness:
  "startup_passed (pst (snd (restart_container (ex_env (ex_status Running 0) True) ''a'' ''a1'' JNull
      (ex_pass ''Always'')))) ''a'' = Some True"
  using startup_probe_not_repeated [of "ex_pass ''Always''" "''a''"] by (simp add: ex_pass_def ex_state_def)

lemma phase_ignores_uncreated_container_witness:
  "\<exists>upd. fst (check_pod_status (ex_env (ex_status Exited 0) False) ''u''
      (ex_manager (ex_state ''Never'' [''a'' \<mapsto> 0]))) = Inr upd \<and> pu_phase upd = ''Succeeded''"
  using phase_ignores_uncreated_container [of "ex_manager (ex_state ''Never'' [''a'' \<mapsto> 0])" "''u''"
      "ex_state ''Never'' [''a'' \<mapsto> 0]" "''b''" _ "ex_env (ex_status Exited 0) False"]
  by (simp add: ex_manager_def ex_state_def ex_specs ex_env_def ex_runtime_def)

lemma waiting_container_has_deadline_witness:
  "due (m_deadlines (snd (check_pod_status (ex_env (ex_status Created 0) True) ''u''
      (ex_manager (ex_state ''Always'' (\<lambda>_. None)))))) ''u'' \<noteq> None"
proof -
  let ?c = "check_pod_status (ex_env (ex_status Created 0) True) ''u'' (ex_manager (ex_state ''Always'' (\<lambda>_. None)))"
  have "case fst ?c of Inl _ \<Rightarrow> False
      | Inr upd \<Rightarrow> list_ex (\<lambda>r. cr_state r = ''waiting'') (pu_container_statuses upd)"
    by code_simp
  then obtain upd m' where "?c = (Inr upd, m')" "\<exists>r \<in> set (pu_container_statuses upd). cr_state r = ''waiting''"
    by (cases ?c) (auto simp: list_ex_iff split: sum.splits)
  then show ?thesis
    using waiting_container_has_deadline [of "ex_manager (ex_state ''Always'' (\<lambda>_. None))" "''u''"
        "ex_state ''Always'' (\<lambda>_. None)"] by (simp add: ex_manager_def ex_state_def)
qed

end
