(* ===== verification/Storage.thy ===== *)
theory Storage
  imports Json
begin

text \<open>\<open>pkg/kubelet/src/storage.rs\<close>: what a PersistentVolumeClaim asks of the node's own
  volumes. The ladder of size classes and the class a claim gets, Kubernetes quantities, the
  names of blanks and volumes, and the placement policy a StorageClass's parameters give.
  A \<open>u8\<close>, \<open>u64\<close> or \<open>u128\<close> is a \<^typ>\<open>nat\<close> with its bound tested where the code tests it; an
  error message is a constructor of \<open>policy_error\<close> that carries what the message quotes.\<close>

section \<open>Size classes\<close>

definition MIB :: nat where "MIB = 1024 * 1024"
definition GIB :: nat where "GIB = 1024 * MIB"
definition TIB :: nat where "TIB = 1024 * GIB"

datatype classfs = Ext4 | BlockOnly string

definition SIZE_CLASSES :: "(string \<times> nat \<times> classfs) list" where
  "SIZE_CLASSES =
    [(''1M'', MIB, Ext4), (''16M'', 16 * MIB, Ext4), (''64M'', 64 * MIB, Ext4),
     (''256M'', 256 * MIB, Ext4), (''1G'', GIB, Ext4), (''4G'', 4 * GIB, Ext4),
     (''16G'', 16 * GIB, Ext4), (''64G'', 64 * GIB, Ext4), (''256G'', 256 * GIB, Ext4),
     (''1T'', TIB, Ext4), (''4T'', 4 * TIB, Ext4), (''16T'', 16 * TIB, Ext4),
     (''64T'', 64 * TIB, Ext4), (''256T'', 256 * TIB, Ext4), (''1P'', 1024 * TIB, Ext4)]"

definition class_fs :: "string \<Rightarrow> string + string" where
  "class_fs cls = (case List.find (\<lambda>(c, _, _). c = cls) SIZE_CLASSES of
     Some (_, _, BlockOnly why) \<Rightarrow> Inl why
   | Some (_, _, Ext4) \<Rightarrow> Inr ''ext4''
   | None \<Rightarrow> Inr ''ext4'')"

definition engine_size :: "nat \<Rightarrow> string" where
  "engine_size bytes = show_nat (bytes div MIB) @ ''M''"

definition is_block :: "json \<Rightarrow> bool" where
  "is_block pvc = (as_str (jpath pvc [''spec'', ''volumeMode'']) = Some ''Block'')"

definition template_name :: "string \<Rightarrow> string" where
  "template_name cls =
     (let bytes = (case List.find (\<lambda>(c, _, _). c = cls) SIZE_CLASSES of
                     Some (_, b, _) \<Rightarrow> b | None \<Rightarrow> MIB) in
      case class_fs cls of
        Inl _ \<Rightarrow> ''pvc-ext4j-'' @ show_nat (bytes div MIB) @ ''m''
      | Inr fs \<Rightarrow> if fs = ''ext4'' then ''pvc-ext4j-'' @ show_nat (bytes div MIB) @ ''m''
                 else ''pvc-'' @ fs @ ''-'' @ show_nat (bytes div MIB) @ ''m'')"

definition class_for :: "nat \<Rightarrow> (string \<times> nat) option" where
  "class_for want = map_option (\<lambda>(c, b, _). (c, b)) (List.find (\<lambda>(_, size, _). want \<le> size) SIZE_CLASSES)"

section \<open>Quantities\<close>

definition suffix_mult :: "string \<Rightarrow> nat option" where
  "suffix_mult s =
     (if s = '''' then Some 1
      else if s = ''Ki'' then Some (2 ^ 10) else if s = ''Mi'' then Some (2 ^ 20)
      else if s = ''Gi'' then Some (2 ^ 30) else if s = ''Ti'' then Some (2 ^ 40)
      else if s = ''Pi'' then Some (2 ^ 50)
      else if s = ''k'' \<or> s = ''K'' then Some 1000
      else if s = ''M'' then Some 1000000 else if s = ''G'' then Some 1000000000
      else if s = ''T'' then Some 1000000000000 else if s = ''P'' then Some 1000000000000000
      else None)"

definition trim_end_zeros :: "string \<Rightarrow> string" where
  "trim_end_zeros s = rev (dropWhile (\<lambda>c. c = CHR ''0'') (rev s))"

definition add_fraction :: "nat \<Rightarrow> nat \<Rightarrow> string \<Rightarrow> nat option" where
  "add_fraction bytes mult frac =
     (if frac = [] then Some bytes
      else if 18 < length frac \<or> \<not> list_all is_digit frac then None
      else case parse_unsigned 128 frac of
             None \<Rightarrow> None
           | Some digits \<Rightarrow>
               let part = div_ceil (digits * mult) (10 ^ length frac) in
               if part < 2 ^ 64 \<and> bytes + part < 2 ^ 64 then Some (bytes + part) else None)"

definition num_char :: "char \<Rightarrow> bool" where
  "num_char c = (is_digit c \<or> c = CHR ''.'')"

definition parse_quantity :: "string \<Rightarrow> nat option" where
  "parse_quantity q0 =
     (let q = trim q0; num = takeWhile num_char q; suffix = dropWhile num_char q in
      case suffix_mult suffix of
        None \<Rightarrow> None
      | Some mult \<Rightarrow>
          let (whole, frac) = (case split_once CHR ''.'' num of None \<Rightarrow> (num, []) | Some p \<Rightarrow> p) in
          if whole = [] \<and> frac = [] then None
          else case (if whole = [] then Some 0 else parse_unsigned 64 whole) of
                 None \<Rightarrow> None
               | Some w \<Rightarrow>
                   if w * mult < 2 ^ 64 then add_fraction (w * mult) mult (trim_end_zeros frac)
                   else None)"

section \<open>Claims\<close>

definition claim_bytes :: "json \<Rightarrow> nat" where
  "claim_bytes pvc =
     (case Option.bind (as_str (jpath pvc [''spec'', ''resources'', ''requests'', ''storage''])) parse_quantity of
        Some b \<Rightarrow> b
      | None \<Rightarrow> fst (snd (hd SIZE_CLASSES)))"

definition STORAGE_CLASS :: string where "STORAGE_CLASS = ''stormblock''"

definition provisioned_here :: "json \<Rightarrow> bool" where
  "provisioned_here pvc = (case as_str (jpath pvc [''spec'', ''storageClassName'']) of
     Some c \<Rightarrow> if c = '''' then False else c = STORAGE_CLASS
   | None \<Rightarrow> True)"

definition is_rwop :: "json \<Rightarrow> bool" where
  "is_rwop pvc = (case as_array (jpath pvc [''spec'', ''accessModes'']) of
     Some modes \<Rightarrow> list_ex (\<lambda>m. as_str m = Some ''ReadWriteOncePod'') modes
   | None \<Rightarrow> False)"

definition volume_name :: "string \<Rightarrow> string \<Rightarrow> string" where
  "volume_name namespace claim = ''pvc-'' @ namespace @ ''-'' @ claim"

datatype claim_source_kind = SourceClaim "string option" string | SourceGolden string

definition claim_source :: "json \<Rightarrow> claim_source_kind option" where
  "claim_source pvc =
     (let ref = jpath pvc [''spec'', ''dataSourceRef''];
          r = (if as_object ref \<noteq> None then ref else jpath pvc [''spec'', ''dataSource'']);
          ns = (case as_str (jget r ''namespace'') of Some n \<Rightarrow> if n = '''' then None else Some n | None \<Rightarrow> None);
          grp = str_or '''' (jget r ''apiGroup'') in
      case as_str (jget r ''name'') of
        None \<Rightarrow> None
      | Some name \<Rightarrow>
          if name = '''' then None
          else case as_str (jget r ''kind'') of
                 None \<Rightarrow> None
               | Some k \<Rightarrow>
                   if grp = '''' \<and> k = ''PersistentVolumeClaim'' then Some (SourceClaim ns name)
                   else if grp = ''storm.io'' \<and> k = ''Golden'' then Some (SourceGolden name)
                   else None)"

section \<open>Placement policies\<close>

definition RUNGS :: "string list" where
  "RUNGS = [''site'', ''building'', ''room'', ''row'', ''rack'', ''node'', ''hba'', ''shelf'', ''set'',
     ''bay'', ''drive'']"

definition TIERS :: "string list" where
  "TIERS = [''hot'', ''warm'', ''cool'', ''cold'']"

datatype scheme = SNone | SMirror nat | SParity nat nat

datatype policy_error =
    BadMirrorCount string | MirrorTooFew
  | NeedsWidth string nat | BadDataWidth string | BadParityWidth string | BadMemberCount string
  | ParityNeedsDP | NoDataMembers string nat | FixedParity string nat | ParityTooFew | DataTooFew
  | UnknownRedundancy string
  | KindNotClone string | FsTypeNotExt4 string | UnknownParameter string
  | RungConflict string string | UnknownSpread string | UnknownTier string

definition parse_mirror :: "string option \<Rightarrow> policy_error + scheme" where
  "parse_mirror arg =
     (case (case arg of None \<Rightarrow> Inr 2
            | Some a \<Rightarrow> (case parse_unsigned 8 a of None \<Rightarrow> Inl (BadMirrorCount a) | Some n \<Rightarrow> Inr n)) of
        Inl e \<Rightarrow> Inl e
      | Inr copies \<Rightarrow> if copies < 2 then Inl MirrorTooFew else Inr (SMirror copies))"

definition parity_members :: "string \<Rightarrow> nat option \<Rightarrow> string \<Rightarrow> policy_error + nat \<times> nat" where
  "parity_members k fixed arg =
     (case split_once CHR ''+'' arg of
        Some (d, p) \<Rightarrow>
          (case parse_unsigned 8 (trim d) of
             None \<Rightarrow> Inl (BadDataWidth d)
           | Some dd \<Rightarrow>
               (case parse_unsigned 8 (trim p) of
                  None \<Rightarrow> Inl (BadParityWidth p)
                | Some pp \<Rightarrow> Inr (dd, pp)))
      | None \<Rightarrow>
          (case parse_unsigned 8 arg of
             None \<Rightarrow> Inl (BadMemberCount arg)
           | Some members \<Rightarrow>
               (case fixed of
                  None \<Rightarrow> Inl ParityNeedsDP
                | Some p \<Rightarrow> if members \<le> p then Inl (NoDataMembers k members) else Inr (members - p, p))))"

definition parse_parity :: "string \<Rightarrow> string option \<Rightarrow> policy_error + scheme" where
  "parse_parity k arg =
     (let fixed = (if CHR ''5'' \<in> set k then Some 1 else if CHR ''6'' \<in> set k then Some 2 else None) in
      case arg of
        None \<Rightarrow> Inl (NeedsWidth k (case fixed of Some p \<Rightarrow> p | None \<Rightarrow> 1))
      | Some a \<Rightarrow>
          (case parity_members k fixed a of
             Inl e \<Rightarrow> Inl e
           | Inr (d, p) \<Rightarrow>
               if fixed \<noteq> None \<and> fixed \<noteq> Some p then Inl (FixedParity k (the fixed))
               else if p = 0 then Inl ParityTooFew
               else if d < 2 then Inl DataTooFew
               else Inr (SParity d p)))"

definition scheme_parse :: "string \<Rightarrow> policy_error + scheme" where
  "scheme_parse s =
     (let lower = to_ascii_lowercase (trim s);
          (k, arg) = (case split_once CHR '':'' lower of
                        Some (k, a) \<Rightarrow> (trim k, Some (trim a))
                      | None \<Rightarrow> (lower, None)) in
      if k \<in> {'''', ''none'', ''single''} then Inr SNone
      else if k \<in> {''mirror'', ''raid1'', ''raid10'', ''raid-1'', ''raid-10''} then parse_mirror arg
      else if k \<in> {''raid5'', ''raid-5'', ''raid6'', ''raid-6'', ''parity''} then parse_parity k arg
      else Inl (UnknownRedundancy k))"

definition spelling :: "scheme \<Rightarrow> string option" where
  "spelling s = (case s of
     SNone \<Rightarrow> None
   | SMirror n \<Rightarrow> Some (''mirror:'' @ show_nat n)
   | SParity d p \<Rightarrow>
       if p = 1 then Some (''raid5:'' @ show_nat d @ ''+1'')
       else if p = 2 then Some (''raid6:'' @ show_nat d @ ''+2'')
       else Some (''parity:'' @ show_nat d @ ''+'' @ show_nat p))"

definition of_listing :: "string \<Rightarrow> scheme" where
  "of_listing spelled = (case scheme_parse (hd (split_on CHR ''@'' spelled)) of Inr s \<Rightarrow> s | Inl _ \<Rightarrow> SNone)"

record claim_policy =
  scheme_of :: scheme
  spread :: "string option"
  tier :: "string option"

record class_params =
  p_redundancy :: "string option"
  p_spread :: "string option"
  p_tier :: "string option"

definition filled :: "string \<Rightarrow> string option" where
  "filled s = (if s = '''' then None else Some s)"

definition read_param :: "string \<Rightarrow> json \<Rightarrow> class_params \<Rightarrow> policy_error + class_params" where
  "read_param k v0 ps =
     (let v = (case as_str v0 of Some s \<Rightarrow> trim s | None \<Rightarrow> '''') in
      if k = ''redundancy'' then Inr (ps\<lparr>p_redundancy := Some v\<rparr>)
      else if k = ''spread'' then Inr (ps\<lparr>p_spread := filled (to_ascii_lowercase v)\<rparr>)
      else if k = ''tier'' then Inr (ps\<lparr>p_tier := filled (to_ascii_lowercase v)\<rparr>)
      else if k = ''kind'' then
        (if to_ascii_lowercase v = ''clone'' then Inr ps else Inl (KindNotClone v))
      else if k = ''fsType'' then
        (if to_ascii_lowercase v = ''ext4'' \<or> v = '''' then Inr ps else Inl (FsTypeNotExt4 v))
      else if starts_with k ''csi.storage.k8s.io/'' then Inr ps
      else Inl (UnknownParameter k))"

fun read_params :: "(string \<times> json) list \<Rightarrow> class_params \<Rightarrow> policy_error + class_params" where
  "read_params [] ps = Inr ps"
| "read_params ((k, v) # kvs) ps =
     (case read_param k v ps of Inl e \<Rightarrow> Inl e | Inr ps' \<Rightarrow> read_params kvs ps')"

definition policy_of :: "class_params \<Rightarrow> policy_error + claim_policy" where
  "policy_of ps =
     (let (txt, rung_opt) = (case p_redundancy ps of
            None \<Rightarrow> ('''', None)
          | Some r \<Rightarrow> (case split_once CHR ''@'' r of
              None \<Rightarrow> (r, None)
            | Some (a, b) \<Rightarrow> (a, Some (to_ascii_lowercase (trim b))))) in
      case scheme_parse txt of
        Inl e \<Rightarrow> Inl e
      | Inr s \<Rightarrow>
          (case (case (rung_opt, p_spread ps) of
                   (Some a, Some b) \<Rightarrow> if a \<noteq> b then Inl (RungConflict b a) else Inr (Some a)
                 | (Some a, None) \<Rightarrow> Inr (Some a)
                 | (None, b) \<Rightarrow> Inr b) of
             Inl e \<Rightarrow> Inl e
           | Inr sp \<Rightarrow>
               if sp \<noteq> None \<and> the sp \<notin> set RUNGS then Inl (UnknownSpread (the sp))
               else if p_tier ps \<noteq> None \<and> the (p_tier ps) \<notin> set TIERS then Inl (UnknownTier (the (p_tier ps)))
               else Inr \<lparr>scheme_of = s, spread = (if s = SNone then None else sp), tier = p_tier ps\<rparr>))"

definition policy_default :: claim_policy where
  "policy_default = \<lparr>scheme_of = SNone, spread = None, tier = None\<rparr>"

definition from_class :: "json option \<Rightarrow> policy_error + claim_policy" where
  "from_class sc =
     (case Option.bind sc (\<lambda>c. as_object (jget c ''parameters'')) of
        None \<Rightarrow> Inr policy_default
      | Some params \<Rightarrow>
          (case read_params params \<lparr>p_redundancy = None, p_spread = None, p_tier = None\<rparr> of
             Inl e \<Rightarrow> Inl e
           | Inr ps \<Rightarrow> policy_of ps))"

definition rung :: "claim_policy \<Rightarrow> string" where
  "rung p = (case spread p of Some r \<Rightarrow> r | None \<Rightarrow> ''drive'')"

definition blank_name :: "claim_policy \<Rightarrow> string \<Rightarrow> string" where
  "blank_name p cls =
     (let base = template_name cls in
      case scheme_of p of
        SNone \<Rightarrow> base
      | SMirror n \<Rightarrow> base @ ''-'' @ (''mirror'' @ show_nat n) @ ''-'' @ rung p
      | SParity d q \<Rightarrow>
          base @ ''-''
          @ (if q = 1 then ''raid5-'' @ show_nat d @ ''p1''
             else if q = 2 then ''raid6-'' @ show_nat d @ ''p2''
             else ''parity-'' @ show_nat d @ ''p'' @ show_nat q)
          @ ''-'' @ rung p)"

definition engine_fields :: "claim_policy \<Rightarrow> (string \<times> json) list" where
  "engine_fields p = (case spelling (scheme_of p) of
     Some r \<Rightarrow> [(''redundancy'', JStr r), (''spread'', JStr (rung p))]
   | None \<Rightarrow> [])"

definition is_class_blank :: "string \<Rightarrow> bool" where
  "is_class_blank name = list_ex (\<lambda>(c, _, _).
     let base = template_name c in
     name = base \<or>
     (case Option.bind (strip_prefix base name) (strip_prefix ''-'') of
        None \<Rightarrow> False
      | Some rest \<Rightarrow>
          (case rsplit_once CHR ''-'' rest of
             None \<Rightarrow> False
           | Some (slug, r) \<Rightarrow>
               r \<in> set RUNGS \<and>
               list_ex (starts_with slug) [''mirror'', ''raid5-'', ''raid6-'', ''parity-'']))) SIZE_CLASSES"

section \<open>The ladder\<close>

lemma ladder_cases:
  "list_all (\<lambda>(c, b, f). 0 < b \<and> b \<le> 1024 * TIB \<and> (b = MIB \<or> b = 16 * MIB \<or> (\<exists>(_, b', _) \<in> set SIZE_CLASSES. b = 4 * b')))
     SIZE_CLASSES"
  by code_simp

lemma find_ladder_smallest:
  "\<lbrakk>sorted (map (\<lambda>(_, b, _). b) xs); List.find (\<lambda>(_, size, _). want \<le> size) xs = Some (c, b, f)\<rbrakk>
     \<Longrightarrow> (c, b, f) \<in> set xs \<and> want \<le> b \<and> (\<forall>(_, b', _) \<in> set xs. want \<le> b' \<longrightarrow> b \<le> b')"
  by (induction xs) (fastforce split: if_splits)+

lemma ladder_sorted: "sorted (map (\<lambda>(_, b, _). b) SIZE_CLASSES)"
  by code_simp

text \<open>A claim gets the smallest class of the ladder that holds it, and is refused exactly
  when it asks for more than the largest one. Above the two lowest classes the class is
  less than four times the claim.\<close>
theorem smallest_sufficient_class:
  shows "(class_for want = Some (c, b) \<longrightarrow>
      want \<le> b \<and> (\<exists>f. (c, b, f) \<in> set SIZE_CLASSES)
      \<and> (\<forall>(_, b', _) \<in> set SIZE_CLASSES. want \<le> b' \<longrightarrow> b \<le> b')
      \<and> (16 * MIB < want \<longrightarrow> b < 4 * want))
    \<and> (class_for want = None \<longleftrightarrow> 1024 * TIB < want)"
proof (intro conjI impI)
  assume "class_for want = Some (c, b)"
  then obtain f where f: "List.find (\<lambda>(_, size, _). want \<le> size) SIZE_CLASSES = Some (c, b, f)"
    by (auto simp: class_for_def)
  note facts = find_ladder_smallest [OF ladder_sorted f]
  show "want \<le> b" "\<exists>f. (c, b, f) \<in> set SIZE_CLASSES"
    "\<forall>(_, b', _) \<in> set SIZE_CLASSES. want \<le> b' \<longrightarrow> b \<le> b'" using facts by blast+
  assume w: "16 * MIB < want"
  then have "b \<noteq> MIB" "b \<noteq> 16 * MIB" using facts by auto
  then obtain c' b' f' where "(c', b', f') \<in> set SIZE_CLASSES" "b = 4 * b'" "0 < b"
    using ladder_cases facts by (fastforce simp: list_all_iff)
  then show "b < 4 * want" using facts by fastforce
next
  have "(1024 * TIB) \<in> (\<lambda>(_, b, _). b) ` set SIZE_CLASSES" by code_simp
  then show "class_for want = None \<longleftrightarrow> 1024 * TIB < want"
    using ladder_cases by (fastforce simp: class_for_def find_None_iff list_all_iff)
qed

lemma smallest_sufficient_class_witness:
  "class_for (3 * GIB) = Some (''4G'', 4 * GIB) \<and> 4 * GIB < 4 * (3 * GIB)"
proof -
  have "class_for (3 * GIB) = Some (''4G'', 4 * GIB)" by code_simp
  moreover have "16 * MIB < 3 * GIB" by (simp add: GIB_def MIB_def)
  ultimately show ?thesis using smallest_sufficient_class [of "3 * GIB" "''4G''" "4 * GIB"] by simp
qed

section \<open>Reading a quantity\<close>

lemma div_ceil_cancel: "0 < c \<Longrightarrow> div_ceil (a * c) (b * c) = div_ceil a b"
  by (simp add: div_ceil_def mult_mod_left)

lemma div_ceil_add: "0 < b \<Longrightarrow> div_ceil (m * b + a) b = m + div_ceil a b"
  by (simp add: div_ceil_def)

lemma div_ceil_zero [simp]: "div_ceil 0 b = 0"
  by (simp add: div_ceil_def)

lemma div_ceil_le: "0 < b \<Longrightarrow> a \<le> m * b \<Longrightarrow> div_ceil a b \<le> m"
proof -
  assume "0 < b" "a \<le> m * b"
  show ?thesis
  proof (cases "a mod b = 0")
    case True
    then show ?thesis using div_le_mono [OF \<open>a \<le> m * b\<close>, of b] \<open>0 < b\<close> by (simp add: div_ceil_def)
  next
    case False
    then have "a \<noteq> m * b" by auto
    then have "a div b < m" using \<open>a \<le> m * b\<close> by (intro less_mult_imp_div_less) simp
    then show ?thesis by (simp add: div_ceil_def)
  qed
qed

lemma digits_val_append_zeros: "digits_val (s @ replicate n CHR ''0'') = digits_val s * 10 ^ n"
proof (induction n)
  case (Suc n)
  have "digits_val (s @ replicate (Suc n) CHR ''0'') = 10 * digits_val (s @ replicate n CHR ''0'')"
    using digits_val_snoc [of "s @ replicate n CHR ''0''" "CHR ''0''"]
    by (simp add: replicate_append_same digit_val_def)
  then show ?case using Suc by simp
qed simp

lemma digits_val_bound: "list_all is_digit s \<Longrightarrow> digits_val s < 10 ^ length s"
proof (induction s rule: rev_induct)
  case (snoc c s)
  then have "digits_val s < 10 ^ length s" "digit_val c \<le> 9"
    by (auto simp: is_digit_def digit_val_def)
  then show ?case by (simp add: digits_val_snoc)
qed (simp add: digits_val_def)

lemma trim_end_zeros_split: "\<exists>n. s = trim_end_zeros s @ replicate n CHR ''0''"
proof -
  let ?t = "takeWhile (\<lambda>c. c = CHR ''0'') (rev s)"
  have "s = trim_end_zeros s @ rev ?t"
    by (metis rev_append rev_rev_ident takeWhile_dropWhile_id trim_end_zeros_def)
  moreover have "rev ?t = replicate (length ?t) CHR ''0''"
    by (intro replicate_eqI) (auto dest: set_takeWhileD)
  ultimately show ?thesis by metis
qed

text \<open>What \<open>w.ds\<close> followed by a suffix of \<open>mult\<close> means, rounded up to a whole byte.\<close>
definition quantity_value :: "nat \<Rightarrow> string \<Rightarrow> nat \<Rightarrow> nat" where
  "quantity_value w ds mult = div_ceil ((w * 10 ^ length ds + digits_val ds) * mult) (10 ^ length ds)"

lemma quantity_value_trim:
  "quantity_value w ds mult = quantity_value w (trim_end_zeros ds) mult"
proof -
  obtain n where n: "ds = trim_end_zeros ds @ replicate n CHR ''0''" using trim_end_zeros_split by blast
  let ?t = "trim_end_zeros ds"
  have "length ds = length ?t + n" "digits_val ds = digits_val ?t * 10 ^ n"
    by (metis n length_append length_replicate, metis n digits_val_append_zeros)
  then have "quantity_value w ds mult
      = div_ceil (((w * 10 ^ length ?t + digits_val ?t) * mult) * 10 ^ n) (10 ^ length ?t * 10 ^ n)"
    by (simp add: quantity_value_def power_add algebra_simps)
  then show ?thesis by (simp add: div_ceil_cancel quantity_value_def)
qed

lemma quantity_value_split:
  "quantity_value w ds mult = w * mult + div_ceil (digits_val ds * mult) (10 ^ length ds)"
proof -
  have "(w * 10 ^ length ds + digits_val ds) * mult = (w * mult) * 10 ^ length ds + digits_val ds * mult"
    by (simp add: algebra_simps)
  then show ?thesis by (simp add: quantity_value_def div_ceil_add)
qed

definition suffixes :: "string list" where
  "suffixes = [[], ''Ki'', ''Mi'', ''Gi'', ''Ti'', ''Pi'', ''k'', ''K'', ''M'', ''G'', ''T'', ''P'']"

lemma suffix_known: "suffix_mult s = Some m \<Longrightarrow> s \<in> set suffixes"
  by (rule ccontr) (simp add: suffixes_def suffix_mult_def)

lemma suffixes_ok:
  "list_all (\<lambda>s. takeWhile num_char s = [] \<and> list_all (\<lambda>c. \<not> is_ws c) s
     \<and> (case suffix_mult s of None \<Rightarrow> True | Some m \<Rightarrow> 0 < m \<and> m \<le> 2 ^ 50)) suffixes"
  by code_simp

lemma suffix_facts:
  assumes "suffix_mult s = Some m"
  shows "takeWhile num_char s = []" "dropWhile num_char s = s" "\<forall>c \<in> set s. \<not> is_ws c" "0 < m" "m \<le> 2 ^ 50"
proof -
  show *: "takeWhile num_char s = []" and "\<forall>c \<in> set s. \<not> is_ws c" "0 < m" "m \<le> 2 ^ 50"
    using suffixes_ok suffix_known [OF assms] assms by (auto simp: list_all_iff)
  show "dropWhile num_char s = s" using * takeWhile_dropWhile_id [of num_char s] by simp
qed

lemma add_fraction_value:
  assumes "list_all is_digit ds" and "m \<le> 2 ^ 50" and "w * m < 2 ^ 64"
  shows "add_fraction (w * m) m (trim_end_zeros ds) =
    (if length (trim_end_zeros ds) \<le> 18 \<and> quantity_value w ds m < 2 ^ 64 then Some (quantity_value w ds m)
     else None)"
proof -
  let ?t = "trim_end_zeros ds"
  have dig: "list_all is_digit ?t"
    using assms(1) trim_end_zeros_split [of ds] by (metis list_all_append)
  have val: "quantity_value w ds m = w * m + div_ceil (digits_val ?t * m) (10 ^ length ?t)"
    unfolding quantity_value_trim [of w ds] by (rule quantity_value_split)
  show ?thesis
  proof (cases "?t = [] \<or> 18 < length ?t")
    case True
    then show ?thesis using val assms(3) by (auto simp: add_fraction_def digits_val_def)
  next
    case False
    have lt: "digits_val ?t < 10 ^ length ?t" using digits_val_bound [OF dig] .
    also have "(10::nat) ^ length ?t \<le> 10 ^ 18" using False by (intro power_increasing) auto
    finally have "digits_val ?t < 2 ^ 128" by simp
    moreover have "hd ?t \<noteq> CHR ''+''" using dig False not_digit(1) by (cases ?t) auto
    ultimately have parse: "parse_unsigned 128 ?t = Some (digits_val ?t)"
      using dig False by (cases ?t) (auto simp: parse_unsigned_def parse_digits_def)
    have "digits_val ?t * m \<le> m * 10 ^ length ?t" using lt by (simp add: mult.commute)
    then have "div_ceil (digits_val ?t * m) (10 ^ length ?t) \<le> m" by (intro div_ceil_le) simp_all
    then have "div_ceil (digits_val ?t * m) (10 ^ length ?t) < 2 ^ 64" using assms(2) by simp
    then show ?thesis using False dig by (simp add: add_fraction_def parse Let_def val)
  qed
qed

lemma trim_clean: "\<forall>c \<in> set s. \<not> is_ws c \<Longrightarrow> trim s = s"
  by (intro trim_no_ws) (metis hd_in_set last_in_set)

lemma parse_quantity_parts:
  assumes "list_all num_char num" and "suffix_mult sfx = Some m"
  shows "parse_quantity (num @ sfx) =
     (let (whole, frac) = (case split_once CHR ''.'' num of None \<Rightarrow> (num, []) | Some p \<Rightarrow> p) in
      if whole = [] \<and> frac = [] then None
      else case (if whole = [] then Some 0 else parse_unsigned 64 whole) of
             None \<Rightarrow> None
           | Some w \<Rightarrow> if w * m < 2 ^ 64 then add_fraction (w * m) m (trim_end_zeros frac) else None)"
proof -
  have "\<not> is_ws c" if "num_char c" for c
    using that digit_not_ws by (auto simp: num_char_def is_ws_def)
  then have t: "trim (num @ sfx) = num @ sfx"
    using assms(1) suffix_facts(3) [OF assms(2)] by (intro trim_clean) (auto simp: list_all_iff)
  have w: "takeWhile num_char (num @ sfx) = num" and d: "dropWhile num_char (num @ sfx) = sfx"
    using assms(1) suffix_facts(1,2) [OF assms(2)] by (simp_all add: list_all_iff)
  show ?thesis unfolding parse_quantity_def Let_def t w d by (simp add: assms(2))
qed

lemma parse_whole:
  "(case parse_unsigned 64 (show_nat w) of None \<Rightarrow> None | Some w \<Rightarrow> if w * m < 2 ^ 64 then f w else None)
     = (if w < 2 ^ 64 \<and> w * m < 2 ^ 64 then f w else None)"
proof (cases "w < 2 ^ 64")
  case False
  have "hd (show_nat w) \<noteq> CHR ''+''"
    using show_nat_digits [of w] show_nat_nonempty [of w] not_digit(1) by (cases "show_nat w") auto
  then have "parse_unsigned 64 (show_nat w) = None"
    using parse_digits_show [of w] show_nat_nonempty [of w] False
    by (cases "show_nat w") (auto simp: parse_unsigned_def simp del: parse_digits_show)
  then show ?thesis using False by simp
qed (simp add: parse_unsigned_show)

text \<open>A quantity is read exactly: \<open>w\<close> or \<open>w.ds\<close> with a suffix is its value in bytes, rounded up to a
  whole one, and refused exactly when that does not fit 64 bits or has more than eighteen
  significant decimals.\<close>
theorem quantity_read_exactly:
  assumes "suffix_mult sfx = Some m" and "list_all is_digit ds"
  shows "parse_quantity (show_nat w @ sfx) = (if w * m < 2 ^ 64 then Some (w * m) else None)
    \<and> parse_quantity ((show_nat w @ CHR ''.'' # ds) @ sfx) =
      (if quantity_value w ds m < 2 ^ 64 \<and> length (trim_end_zeros ds) \<le> 18
       then Some (quantity_value w ds m) else None)"
proof (intro conjI)
  have w: "list_all num_char (show_nat w)" and "list_all num_char ds"
    using show_nat_digits [of w] assms(2) by (auto simp: list_all_iff num_char_def)
  then have wd: "list_all num_char (show_nat w @ CHR ''.'' # ds)" by (simp add: num_char_def)
  have dot: "CHR ''.'' \<notin> set (show_nat w)" using digits_only [OF show_nat_digits not_digit(3)] .
  have over: "w < 2 ^ 64" if "w * m < 2 ^ 64"
    using that suffix_facts(4) [OF assms(1)] by (cases m) auto
  show "parse_quantity (show_nat w @ sfx) = (if w * m < 2 ^ 64 then Some (w * m) else None)"
    using over by (simp add: parse_quantity_parts [OF w assms(1)] split_once_none [OF dot] show_nat_nonempty
        parse_whole add_fraction_def trim_end_zeros_def)
  show "parse_quantity ((show_nat w @ CHR ''.'' # ds) @ sfx) =
      (if quantity_value w ds m < 2 ^ 64 \<and> length (trim_end_zeros ds) \<le> 18
       then Some (quantity_value w ds m) else None)"
    using over add_fraction_value [OF assms(2) suffix_facts(5) [OF assms(1)], of w]
      quantity_value_split [of w ds m]
    unfolding parse_quantity_parts [OF wd assms(1)] split_once_append [OF dot]
    by (auto simp: show_nat_nonempty parse_whole)
qed

lemma quantity_read_exactly_witness:
  "parse_quantity ''3.5Gi'' = Some 3758096384 \<and> parse_quantity ''16384Pi'' = None"
proof -
  have v: "show_nat 3 = ''3''" "show_nat 16384 = ''16384''" "suffix_mult ''Gi'' = Some (2 ^ 30)"
    "suffix_mult ''Pi'' = Some (2 ^ 50)" "quantity_value 3 ''5'' 1073741824 = 3758096384"
    "trim_end_zeros ''5'' = ''5''" "(2::nat) ^ 30 = 1073741824"
    by code_simp+
  show ?thesis
    using quantity_read_exactly [OF v(3), of "''5''" 3] quantity_read_exactly [OF v(4), of "''5''" 16384]
    unfolding v by (simp add: is_digit_def)
qed

text \<open>A claim whose request cannot be read as a size gets the smallest class instead of being
  refused. That covers every request of 16384 pebibytes and more in whole pebibytes, which
  are far past the largest class.\<close>
theorem unread_request_gets_smallest:
  assumes "as_str (jpath pvc [''spec'', ''resources'', ''requests'', ''storage'']) = Some (show_nat w @ ''Pi'')"
    and "16384 \<le> w"
  shows "claim_bytes pvc = MIB \<and> class_for (claim_bytes pvc) = Some (''1M'', MIB)"
proof -
  have "suffix_mult ''Pi'' = Some (2 ^ 50)" by code_simp
  moreover have "list_all num_char (show_nat w)"
    using show_nat_digits [of w] by (auto simp: list_all_iff num_char_def)
  moreover have "CHR ''.'' \<notin> set (show_nat w)" using digits_only [OF show_nat_digits not_digit(3)] .
  ultimately have "parse_quantity (show_nat w @ ''Pi'') = None"
    using assms(2) by (simp add: parse_quantity_parts split_once_none show_nat_nonempty parse_whole)
  then have "claim_bytes pvc = MIB" using assms(1) by (simp add: claim_bytes_def SIZE_CLASSES_def)
  moreover have "class_for MIB = Some (''1M'', MIB)" by code_simp
  ultimately show ?thesis by simp
qed

lemma unread_request_gets_smallest_witness:
  "class_for (claim_bytes (JObj [(''spec'', JObj [(''resources'', JObj [(''requests'',
     JObj [(''storage'', JStr ''20000Pi'')])])])])) = Some (''1M'', MIB)"
proof -
  let ?pvc = "JObj [(''spec'', JObj [(''resources'', JObj [(''requests'', JObj [(''storage'', JStr ''20000Pi'')])])])]"
  have "show_nat 20000 = ''20000''" by code_simp
  then have "as_str (jpath ?pvc [''spec'', ''resources'', ''requests'', ''storage'']) = Some (show_nat 20000 @ ''Pi'')"
    by (simp add: json_simps)
  then show ?thesis by (rule unread_request_gets_smallest [THEN conjunct2]) simp
qed

section \<open>Placement policies\<close>

text \<open>What stormblock accepts of a scheme: two mirror copies or more, two data members and one
  parity member or more, each a byte.\<close>
definition valid_scheme :: "scheme \<Rightarrow> bool" where
  "valid_scheme s = (case s of
     SNone \<Rightarrow> True
   | SMirror n \<Rightarrow> 2 \<le> n \<and> n < 256
   | SParity d p \<Rightarrow> 2 \<le> d \<and> d < 256 \<and> 1 \<le> p \<and> p < 256)"

lemma parse_unsigned_bound: "parse_unsigned w s = Some n \<Longrightarrow> n < 2 ^ w"
  by (auto simp: parse_unsigned_def split: option.splits if_splits)

lemma parity_members_bound:
  "parity_members k fixed a = Inr (d, p) \<Longrightarrow> (fixed \<noteq> None \<Longrightarrow> the fixed < 256) \<Longrightarrow> d < 256 \<and> p < 256"
  by (auto simp: parity_members_def dest!: parse_unsigned_bound split: option.splits if_splits)

lemma scheme_parse_valid:
  assumes "scheme_parse s = Inr r"
  shows "valid_scheme r"
proof -
  have mirror: "valid_scheme r" if "parse_mirror a = Inr r" for a
    using that parse_unsigned_bound [of 8]
    by (auto simp: parse_mirror_def valid_scheme_def split: option.splits if_splits)
  have parity: "valid_scheme r" if "parse_parity k a = Inr r" for k a
    using that
    by (auto simp: parse_parity_def valid_scheme_def Let_def dest!: parity_members_bound
        split: option.splits sum.splits if_splits)
  show ?thesis using assms mirror parity
    by (auto simp: scheme_parse_def valid_scheme_def Let_def split: option.splits if_splits prod.splits)
qed

lemma lower_digits: "list_all is_digit s \<Longrightarrow> to_ascii_lowercase s = s"
  by (induction s) (auto simp: to_ascii_lowercase_def lower_char_def is_digit_def Let_def)

lemma lower_append: "to_ascii_lowercase (a @ b) = to_ascii_lowercase a @ to_ascii_lowercase b"
  by (simp add: to_ascii_lowercase_def)

lemma digits_clean: "list_all is_digit s \<Longrightarrow> \<forall>c \<in> set s. \<not> is_ws c"
  using digit_not_ws by (auto simp: list_all_iff)

lemma trim_show_nat [simp]: "trim (show_nat n) = show_nat n"
  using trim_clean [OF digits_clean [OF show_nat_digits]] .

lemma scheme_names:
  "list_all (\<lambda>k. list_all (\<lambda>c. \<not> is_ws c \<and> c \<noteq> CHR '':'') k \<and> to_ascii_lowercase k = k \<and> trim k = k)
     [''mirror'', ''raid5'', ''raid6'', ''parity'']"
  by code_simp

lemma arg_char:
  assumes "is_digit c \<or> c = CHR ''+''"
  shows "\<not> is_ws c" "lower_char c = c"
proof -
  show "\<not> is_ws c" using assms digit_not_ws by (auto simp: is_ws_def)
  show "lower_char c = c" using assms by (auto simp: lower_char_def is_digit_def Let_def)
qed

lemma scheme_parse_spelled:
  assumes "k \<in> {''mirror'', ''raid5'', ''raid6'', ''parity''}"
    and "\<forall>c \<in> set arg. is_digit c \<or> c = CHR ''+''"
  shows "scheme_parse (k @ '':'' @ arg) =
    (if k = ''mirror'' then parse_mirror (Some arg) else parse_parity k (Some arg))"
proof -
  have k: "\<forall>c \<in> set k. \<not> is_ws c" "CHR '':'' \<notin> set k" "to_ascii_lowercase k = k" "trim k = k"
    using assms(1) scheme_names by (auto simp: list_all_iff)
  have arg: "\<forall>c \<in> set arg. \<not> is_ws c" "to_ascii_lowercase arg = arg"
    using assms(2) arg_char by (auto simp: to_ascii_lowercase_def intro: map_idI)
  have "trim (k @ '':'' @ arg) = k @ '':'' @ arg"
    using k(1) arg(1) by (intro trim_clean) (auto simp: is_ws_def)
  moreover have "to_ascii_lowercase (k @ '':'' @ arg) = k @ CHR '':'' # arg"
    using k(3) arg(2) by (simp add: to_ascii_lowercase_def lower_char_def Let_def)
  ultimately have sp: "split_once CHR '':'' (to_ascii_lowercase (trim (k @ '':'' @ arg))) = Some (k, arg)"
    using split_once_append [OF k(2)] by simp
  show ?thesis
    using assms(1) unfolding scheme_parse_def Let_def sp option.case prod.case k(4) trim_clean [OF arg(1)]
    by (elim insertE emptyE) simp_all
qed

lemma spelling_read_back:
  assumes "valid_scheme s" and "spelling s = Some t"
  shows "scheme_parse t = Inr s"
proof (cases s)
  case SNone
  then show ?thesis using assms(2) by (simp add: spelling_def)
next
  case (SMirror n)
  then show ?thesis
    using assms scheme_parse_spelled [of "''mirror''" "show_nat n"] show_nat_digits [of n]
    by (auto simp: spelling_def valid_scheme_def parse_mirror_def parse_unsigned_show list_all_iff)
next
  case (SParity d p)
  have members: "parity_members k fx (show_nat d @ CHR ''+'' # show_nat p) = Inr (d, p)" for k fx
    using assms(1) SParity digits_only [OF show_nat_digits not_digit(1), of d]
    by (simp add: parity_members_def split_once_append parse_unsigned_show valid_scheme_def)
  have one: "show_nat 1 = ''1''" "show_nat 2 = ''2''" by code_simp+
  have t: "t = (if p = 1 then ''raid5'' else if p = 2 then ''raid6'' else ''parity'')
      @ '':'' @ (show_nat d @ CHR ''+'' # show_nat p)"
    using assms(2) SParity one by (auto simp: spelling_def)
  have "\<forall>c \<in> set (show_nat d @ CHR ''+'' # show_nat p). is_digit c \<or> c = CHR ''+''"
    using show_nat_digits [of d] show_nat_digits [of p] by (auto simp: list_all_iff)
  from scheme_parse_spelled [OF _ this] show ?thesis
    using assms(1) SParity unfolding t
    by (simp add: parse_parity_def members valid_scheme_def)
qed

text \<open>A policy's spelling says the same policy: whatever text \<open>Scheme::parse\<close> accepts, it is a scheme
  stormblock can keep, its spelling parses back to it, and so does a listing of the volume
  with the spelling and any rung.\<close>
theorem scheme_spelling_roundtrip:
  assumes "scheme_parse txt = Inr s"
  shows "valid_scheme s \<and> (case spelling s of
      None \<Rightarrow> s = SNone
    | Some t \<Rightarrow> scheme_parse t = Inr s \<and> of_listing (t @ CHR ''@'' # r) = s)"
proof (cases "spelling s")
  case None
  then show ?thesis using scheme_parse_valid [OF assms]
    by (auto simp: spelling_def split: scheme.splits if_splits)
next
  case (Some t)
  have "CHR ''@'' \<notin> set (show_nat n)" for n
    using digits_only [OF show_nat_digits, of "CHR ''@''" n] by (simp add: is_digit_def)
  then have "CHR ''@'' \<notin> set t"
    using Some by (auto simp: spelling_def split: scheme.splits if_splits)
  then have "hd (split_on CHR ''@'' (t @ CHR ''@'' # r)) = t" by (simp add: split_on_append)
  then show ?thesis
    using Some scheme_parse_valid [OF assms] spelling_read_back by (simp add: of_listing_def)
qed

lemma scheme_spelling_roundtrip_witness:
  "scheme_parse '' RAID6:6 '' = Inr (SParity 4 2) \<and> scheme_parse ''raid6:4+2'' = Inr (SParity 4 2)
   \<and> of_listing ''raid6:4+2@shelf'' = SParity 4 2"
proof -
  have v: "scheme_parse '' RAID6:6 '' = Inr (SParity 4 2)" "spelling (SParity 4 2) = Some ''raid6:4+2''"
    by code_simp+
  then show ?thesis using scheme_spelling_roundtrip [OF v(1), of "''shelf''"] by simp
qed

section \<open>Names of blanks\<close>

definition policy_ok :: "claim_policy \<Rightarrow> bool" where
  "policy_ok p = (valid_scheme (scheme_of p)
     \<and> (case spread p of None \<Rightarrow> True | Some r \<Rightarrow> r \<in> set RUNGS \<and> scheme_of p \<noteq> SNone)
     \<and> (case tier p of None \<Rightarrow> True | Some t \<Rightarrow> t \<in> set TIERS))"

lemma policy_of_ok: "policy_of ps = Inr p \<Longrightarrow> policy_ok p"
  by (auto simp: policy_of_def policy_ok_def Let_def dest: scheme_parse_valid
      split: option.splits prod.splits sum.splits if_splits)

lemma from_class_ok: "from_class sc = Inr p \<Longrightarrow> policy_ok p"
  by (auto simp: from_class_def policy_default_def policy_ok_def valid_scheme_def dest: policy_of_ok
      split: option.splits sum.splits)

lemma template_of_class:
  "(c, b, f) \<in> set SIZE_CLASSES \<Longrightarrow> template_name c = ''pvc-ext4j-'' @ show_nat (b div MIB) @ ''m''"
proof -
  have "list_all (\<lambda>(c, b, f). template_name c = ''pvc-ext4j-'' @ show_nat (b div MIB) @ ''m'') SIZE_CLASSES"
    by code_simp
  then show "(c, b, f) \<in> set SIZE_CLASSES \<Longrightarrow> template_name c = ''pvc-ext4j-'' @ show_nat (b div MIB) @ ''m''"
    by (auto simp: list_all_iff)
qed

lemma class_of_size:
  "\<lbrakk>(c, b, f) \<in> set SIZE_CLASSES; (c', b', f') \<in> set SIZE_CLASSES; b div MIB = b' div MIB\<rbrakk> \<Longrightarrow> c = c'"
proof -
  have "list_all (\<lambda>(c, b, f). list_all (\<lambda>(c', b', f'). (if b div MIB = b' div MIB then c = c' else True)) SIZE_CLASSES)
      SIZE_CLASSES"
    by code_simp
  then show "\<lbrakk>(c, b, f) \<in> set SIZE_CLASSES; (c', b', f') \<in> set SIZE_CLASSES; b div MIB = b' div MIB\<rbrakk> \<Longrightarrow> c = c'"
    by (fastforce simp: list_all_iff)
qed

text \<open>The pieces of a blank's name between its dashes.\<close>
definition blank_pieces :: "claim_policy \<Rightarrow> nat \<Rightarrow> string list" where
  "blank_pieces p n = [''pvc'', ''ext4j'', show_nat n @ ''m''] @
     (case scheme_of p of
        SNone \<Rightarrow> []
      | SMirror k \<Rightarrow> [''mirror'' @ show_nat k, rung p]
      | SParity d q \<Rightarrow>
          [if q = 1 then ''raid5'' else if q = 2 then ''raid6'' else ''parity'',
           show_nat d @ CHR ''p'' # show_nat q, rung p])"

lemma split_on_join:
  "\<lbrakk>\<forall>p \<in> set ps. c \<notin> set p; ps \<noteq> []\<rbrakk> \<Longrightarrow> split_on c (join_with [c] ps) = ps"
  by (induction "[c]" ps rule: join_with.induct) (auto simp: split_on_none split_on_append)

lemma blank_name_pieces:
  assumes "(c, b, f) \<in> set SIZE_CLASSES"
  shows "blank_name p c = join_with ''-'' (blank_pieces p (b div MIB))"
proof -
  have "show_nat 1 = ''1''" "show_nat 2 = ''2''" by code_simp+
  then show ?thesis
    by (auto simp: blank_name_def blank_pieces_def template_of_class [OF assms] Let_def split: scheme.splits)
qed

lemma rung_no_dash:
  assumes "policy_ok p"
  shows "rung p \<in> set RUNGS" "CHR ''-'' \<notin> set (rung p)"
proof -
  show r: "rung p \<in> set RUNGS"
    using assms by (auto simp: policy_ok_def rung_def RUNGS_def split: option.splits)
  have "list_all (\<lambda>r. CHR ''-'' \<notin> set r) RUNGS" by code_simp
  then show "CHR ''-'' \<notin> set (rung p)" using r by (auto simp: list_all_iff)
qed

lemma show_nat_no: "\<not> is_digit c \<Longrightarrow> c \<notin> set (show_nat n)"
  using digits_only [OF show_nat_digits] .

lemma show_nat_inj: "show_nat a = show_nat b \<longleftrightarrow> a = b"
  by (metis digits_val_show)

lemma blank_split:
  assumes "policy_ok p"
  shows "split_on CHR ''-'' (join_with ''-'' (blank_pieces p n)) = blank_pieces p n"
  using show_nat_no [OF not_digit(2)] rung_no_dash [OF assms]
  by (intro split_on_join) (auto simp: blank_pieces_def split: scheme.splits)

lemma parity_text_inj:
  "show_nat d @ CHR ''p'' # show_nat q = show_nat d' @ CHR ''p'' # show_nat q' \<longleftrightarrow> d = d' \<and> q = q'"
proof -
  have "\<not> is_digit CHR ''p''" by (simp add: is_digit_def)
  then show ?thesis
    by (metis show_nat_no split_once_append option.inject prod.inject show_nat_inj)
qed

lemma blank_pieces_inj:
  "blank_pieces p n = blank_pieces p' n' \<Longrightarrow>
     n = n' \<and> scheme_of p = scheme_of p' \<and> (scheme_of p \<noteq> SNone \<longrightarrow> rung p = rung p')"
  by (auto simp: blank_pieces_def show_nat_inj parity_text_inj split: scheme.splits)

lemma rsplit_once_append: "c \<notin> set t \<Longrightarrow> rsplit_once c (s @ c # t) = Some (s, t)"
  using split_once_append [of c "rev t" "rev s"] by (simp add: rsplit_once_def)

lemma strip_prefix_append [simp]: "strip_prefix p (p @ s) = Some s"
  by (simp add: strip_prefix_def starts_with_def)

lemma blank_is_class_blank:
  assumes "(c, b, f) \<in> set SIZE_CLASSES" and "policy_ok p"
  shows "is_class_blank (blank_name p c)"
proof (cases "scheme_of p = SNone")
  case True
  then show ?thesis using assms(1)
    by (force simp: is_class_blank_def blank_name_def list_ex_iff Let_def)
next
  case False
  then obtain slug where n: "blank_name p c = template_name c @ ''-'' @ (slug @ CHR ''-'' # rung p)"
    and sl: "list_ex (starts_with slug) [''mirror'', ''raid5-'', ''raid6-'', ''parity-'']"
    by (cases "scheme_of p") (auto simp: blank_name_def Let_def starts_with_def)
  have "Option.bind (strip_prefix (template_name c) (blank_name p c)) (strip_prefix ''-'')
      = Some (slug @ CHR ''-'' # rung p)"
    unfolding n using strip_prefix_append [of "''-''"] by simp
  then show ?thesis
    using assms(1) sl rung_no_dash [OF assms(2)]
    by (force simp: is_class_blank_def list_ex_iff rsplit_once_append Let_def)
qed

text \<open>Blanks of different classes or policies never share a name, and every blank a claim can be
  given is recognised as one.\<close>
theorem blank_names_distinct:
  assumes "from_class sc = Inr p" and "from_class sc' = Inr p'"
    and "(c, b, f) \<in> set SIZE_CLASSES" and "(c', b', f') \<in> set SIZE_CLASSES"
  shows "(blank_name p c = blank_name p' c' \<longleftrightarrow>
      c = c' \<and> scheme_of p = scheme_of p' \<and> (scheme_of p \<noteq> SNone \<longrightarrow> rung p = rung p'))
    \<and> is_class_blank (blank_name p c)"
proof -
  note ok = from_class_ok [OF assms(1)] from_class_ok [OF assms(2)]
  have "c = c' \<and> scheme_of p = scheme_of p' \<and> (scheme_of p \<noteq> SNone \<longrightarrow> rung p = rung p')"
    if "blank_name p c = blank_name p' c'"
  proof -
    have "blank_pieces p (b div MIB) = blank_pieces p' (b' div MIB)"
      using that blank_split [OF ok(1)] blank_split [OF ok(2)]
      unfolding blank_name_pieces [OF assms(3)] blank_name_pieces [OF assms(4)] by metis
    then show ?thesis using blank_pieces_inj class_of_size [OF assms(3,4)] by blast
  qed
  moreover have "blank_name p c = blank_name p' c"
    if "scheme_of p = scheme_of p'" "scheme_of p \<noteq> SNone \<longrightarrow> rung p = rung p'"
    using that by (cases "scheme_of p'") (auto simp: blank_name_def Let_def)
  ultimately show ?thesis using blank_is_class_blank [OF assms(3) ok(1)] by blast
qed

definition ex_class :: "string \<Rightarrow> json option" where
  "ex_class r = Some (JObj [(''parameters'', JObj [(''redundancy'', JStr r)])])"

lemma blank_names_distinct_witness:
  "blank_name \<lparr>scheme_of = SMirror 2, spread = Some ''shelf'', tier = None\<rparr> ''1M''
     \<noteq> blank_name \<lparr>scheme_of = SParity 4 1, spread = None, tier = None\<rparr> ''1M''"
proof -
  have "from_class (ex_class ''mirror@Shelf'') = Inr \<lparr>scheme_of = SMirror 2, spread = Some ''shelf'', tier = None\<rparr>"
    "from_class (ex_class ''raid5:5'') = Inr \<lparr>scheme_of = SParity 4 1, spread = None, tier = None\<rparr>"
    by code_simp+
  moreover have "(''1M'', MIB, Ext4) \<in> set SIZE_CLASSES" by (simp add: SIZE_CLASSES_def)
  ultimately show ?thesis using blank_names_distinct by fastforce
qed

text \<open>Two claims have one volume name exactly when they are the same claim, or a dash moves from
  the namespace of one to the name of the other: claim \<open>b-data\<close> of namespace \<open>a\<close> and claim
  \<open>data\<close> of namespace \<open>a-b\<close> are served by the same volume.\<close>
theorem volume_name_clash:
  "volume_name ns c = volume_name ns' c' \<longleftrightarrow>
     ns = ns' \<and> c = c'
     \<or> (\<exists>m. ns' = ns @ ''-'' @ m \<and> c = m @ ''-'' @ c')
     \<or> (\<exists>m. ns = ns' @ ''-'' @ m \<and> c' = m @ ''-'' @ c)"
proof -
  have "volume_name ns c = volume_name ns' c' \<longleftrightarrow> ns @ CHR ''-'' # c = ns' @ CHR ''-'' # c'"
    by (simp add: volume_name_def)
  also have "\<dots> \<longleftrightarrow> (\<exists>us. ns = ns' @ us \<and> us @ CHR ''-'' # c = CHR ''-'' # c'
      \<or> ns @ us = ns' \<and> CHR ''-'' # c = us @ CHR ''-'' # c')"
    by (rule append_eq_append_conv2)
  also have "\<dots> \<longleftrightarrow> ns = ns' \<and> c = c'
     \<or> (\<exists>m. ns' = ns @ ''-'' @ m \<and> c = m @ ''-'' @ c')
     \<or> (\<exists>m. ns = ns' @ ''-'' @ m \<and> c' = m @ ''-'' @ c)"
    by (auto simp: append_eq_Cons_conv Cons_eq_append_conv)
  finally show ?thesis .
qed

end
