(* ===== verification/Spdy.thy ===== *)
theory Spdy
  imports Prelude
begin

unbundle bit_operations_syntax

text \<open>\<open>pkg/kubelet/src/spdy.rs\<close>: the server side of a SPDY/3.1 session, which \<open>kubectl port-forward\<close>
  and older \<open>exec\<close> clients speak. Frames as bytes, header blocks, the reader that opens streams
  and delivers their data, the writer, and the stored deflate blocks of this side's headers.

  A channel is the list of what was sent on it. A stream is known to both halves by a number
  (\<open>handle\<close>): its data channel is open while the session's map holds it, and its reset flag is
  the \<open>Arc<AtomicBool>\<close> both halves share. Whether the other end of a channel is still there is
  the environment's answer (\<open>frame_env\<close>), asked once per frame. The inflater of the client's
  header blocks (zlib, of another crate) is an argument.\<close>

section \<open>Bytes\<close>

type_synonym byte = "8 word"

definition be_u32 :: "byte \<Rightarrow> byte \<Rightarrow> byte \<Rightarrow> byte \<Rightarrow> 32 word" where
  "be_u32 a b c d = push_bit 24 (ucast a) OR push_bit 16 (ucast b) OR push_bit 8 (ucast c) OR ucast d"

definition u32_bytes :: "32 word \<Rightarrow> byte list" where
  "u32_bytes w = [ucast (drop_bit 24 w), ucast (drop_bit 16 w), ucast (drop_bit 8 w), ucast w]"

definition be_u16 :: "byte \<Rightarrow> byte \<Rightarrow> 16 word" where
  "be_u16 a b = push_bit 8 (ucast a) OR ucast b"





section \<open>Headers\<close>

type_synonym headers = "(byte list \<times> byte list) list"

definition byte_lower :: "byte \<Rightarrow> byte" where
  "byte_lower b = (if 65 \<le> b \<and> b \<le> 90 then b + 32 else b)"

definition header_get :: "headers \<Rightarrow> byte list \<Rightarrow> byte list option" where
  "header_get h name =
     map_option snd (List.find (\<lambda>(k, _). map byte_lower k = map byte_lower name) h)"

definition len32 :: "byte list \<Rightarrow> byte list" where
  "len32 s = u32_bytes (of_nat (length s))"

definition encode_block :: "headers \<Rightarrow> byte list" where
  "encode_block h = u32_bytes (of_nat (length h)) @
     concat (map (\<lambda>(k, v). len32 k @ map byte_lower k @ len32 v @ v) h)"

text \<open>\<open>String::from_utf8_lossy\<close>: how many bytes the next character takes, or how many an ill-formed
  start takes, which U+FFFD replaces.\<close>
definition cont :: "byte list \<Rightarrow> nat \<Rightarrow> byte \<Rightarrow> byte \<Rightarrow> bool" where
  "cont s i lo hi = (i < length s \<and> lo \<le> s ! i \<and> s ! i \<le> hi)"

definition utf8_step :: "byte list \<Rightarrow> bool \<times> nat" where
  "utf8_step s = (let b = hd s in
     if b < 0x80 then (True, 1)
     else if 0xC2 \<le> b \<and> b \<le> 0xDF then (if cont s 1 0x80 0xBF then (True, 2) else (False, 1))
     else if 0xE0 \<le> b \<and> b \<le> 0xEF then
       (if cont s 1 (if b = 0xE0 then 0xA0 else 0x80) (if b = 0xED then 0x9F else 0xBF)
        then (if cont s 2 0x80 0xBF then (True, 3) else (False, 2)) else (False, 1))
     else if 0xF0 \<le> b \<and> b \<le> 0xF4 then
       (if cont s 1 (if b = 0xF0 then 0x90 else 0x80) (if b = 0xF4 then 0x8F else 0xBF)
        then (if cont s 2 0x80 0xBF then (if cont s 3 0x80 0xBF then (True, 4) else (False, 3))
              else (False, 2))
        else (False, 1))
     else (False, 1))"

lemma utf8_step_pos: "0 < snd (utf8_step s)"
  by (auto simp: utf8_step_def Let_def)

function lossy :: "byte list \<Rightarrow> byte list" where
  "lossy s = (if s = [] then []
     else (if fst (utf8_step s) then take (snd (utf8_step s)) s else [0xEF, 0xBF, 0xBD])
       @ lossy (drop (snd (utf8_step s)) s))"
  by auto
termination by (relation "measure length") (simp_all add: utf8_step_pos)

declare lossy.simps [simp del]

datatype spdy_error =
    ReadError string | FrameTooLong nat | BadVersion "16 word" | ShortControl "16 word" | ShortSynStream
  | Inflate string | ShortBlock | WriterGone

definition take_n :: "nat \<Rightarrow> byte list \<Rightarrow> spdy_error + byte list \<times> byte list" where
  "take_n n b = (if n \<le> length b then Inr (take n b, drop n b) else Inl ShortBlock)"

definition word_of :: "byte list \<Rightarrow> 32 word" where
  "word_of s = be_u32 (s ! 0) (s ! 1) (s ! 2) (s ! 3)"

definition take_counted :: "byte list \<Rightarrow> spdy_error + byte list \<times> byte list" where
  "take_counted b = (case take_n 4 b of
     Inl e \<Rightarrow> Inl e
   | Inr (w, b') \<Rightarrow> take_n (unat (word_of w)) b')"

text \<open>Several values of one name are joined with NUL; the first one is kept.\<close>
definition first_value :: "byte list \<Rightarrow> byte list" where
  "first_value v = takeWhile (\<lambda>b. b \<noteq> 0) v"

fun parse_pairs :: "nat \<Rightarrow> byte list \<Rightarrow> spdy_error + headers" where
  "parse_pairs 0 b = Inr []"
| "parse_pairs (Suc n) b =
     (case take_counted b of
        Inl e \<Rightarrow> Inl e
      | Inr (name, b1) \<Rightarrow>
          (case take_counted b1 of
             Inl e \<Rightarrow> Inl e
           | Inr (v, b2) \<Rightarrow>
               (case parse_pairs n b2 of
                  Inl e \<Rightarrow> Inl e
                | Inr rest \<Rightarrow> Inr ((lossy name, first_value (lossy v)) # rest))))"

definition parse_block :: "byte list \<Rightarrow> spdy_error + headers" where
  "parse_block b = (case take_n 4 b of
     Inl e \<Rightarrow> Inl e
   | Inr (w, b') \<Rightarrow> parse_pairs (unat (word_of w)) b')"

section \<open>What this side writes\<close>

definition FLAG_FIN :: byte where "FLAG_FIN = 1"
definition SYN_STREAM :: "16 word" where "SYN_STREAM = 1"
definition RST_STREAM :: "16 word" where "RST_STREAM = 3"
definition PING :: "16 word" where "PING = 6"
definition GOAWAY :: "16 word" where "GOAWAY = 7"
definition HEADERS :: "16 word" where "HEADERS = 8"
definition RST_CANCEL :: "32 word" where "RST_CANCEL = 5"
definition RST_REFUSED :: "32 word" where "RST_REFUSED = 3"

datatype out = Reply "32 word" | OData "32 word" "byte list" bool | Rst "32 word" "32 word" | Ping "32 word"



definition stream_finish :: "32 word \<Rightarrow> out list" where
  "stream_finish sid = [OData sid [] True]"





section \<open>What it reads\<close>

record frame_env =
  reader_there :: bool
  writer_there :: bool
  acceptor_there :: bool

text \<open>What \<open>read_loop\<close> keeps and has sent: the open streams by id, with their handles; what each
  handle's data channel received; the reset flags; the queue to the writer; and the streams
  delivered to the endpoint.\<close>
record session =
  streams :: "32 word \<Rightarrow> nat option"
  opened :: nat
  received :: "nat \<Rightarrow> byte list list"
  reset_flag :: "nat \<Rightarrow> bool"
  outq :: "out list"
  delivered :: "(nat \<times> 32 word \<times> headers) list"

definition session_new :: session where
  "session_new = \<lparr>streams = (\<lambda>_. None), opened = 0, received = (\<lambda>_. []), reset_flag = (\<lambda>_. False),
     outq = [], delivered = []\<rparr>"

datatype step_end = Continue | SessionOver | SessionFailed spdy_error

definition push_out :: "frame_env \<Rightarrow> out \<Rightarrow> session \<Rightarrow> session" where
  "push_out env q st = (if writer_there env then st\<lparr>outq := outq st @ [q]\<rparr> else st)"

definition close_stream :: "32 word \<Rightarrow> session \<Rightarrow> session" where
  "close_stream sid st = st\<lparr>streams := (streams st)(sid := None)\<rparr>"

definition on_data :: "frame_env \<Rightarrow> 32 word \<Rightarrow> byte \<Rightarrow> byte list \<Rightarrow> session \<Rightarrow> session" where
  "on_data env sid flags body st =
     (case streams st sid of
        None \<Rightarrow> st
      | Some h \<Rightarrow>
          if body \<noteq> [] \<and> \<not> reader_there env then close_stream sid (push_out env (Rst sid RST_CANCEL) st)
          else (let st1 = (if body = [] then st
                           else st\<lparr>received := (received st)(h := received st h @ [body])\<rparr>) in
                if flags AND FLAG_FIN \<noteq> 0 then close_stream sid st1 else st1))"

definition id_at :: "byte list \<Rightarrow> 32 word option" where
  "id_at body = (if 4 \<le> length body then Some (word_of body) else None)"

type_synonym 'z inflater = "'z \<Rightarrow> byte list \<Rightarrow> (string + byte list) \<times> 'z"

text \<open>A new handle; its data channel stays open only when the client may still send.\<close>
definition enter_stream :: "32 word \<Rightarrow> byte \<Rightarrow> session \<Rightarrow> session" where
  "enter_stream sid flags st = st\<lparr>opened := Suc (opened st),
     streams := (if flags AND FLAG_FIN = 0 then (streams st)(sid \<mapsto> opened st) else streams st)\<rparr>"

definition deliver_stream :: "frame_env \<Rightarrow> nat \<Rightarrow> 32 word \<Rightarrow> headers \<Rightarrow> session \<Rightarrow> session" where
  "deliver_stream env h sid hs st =
     (if acceptor_there env then st\<lparr>delivered := delivered st @ [(h, sid, hs)]\<rparr>
      else push_out env (Rst sid RST_REFUSED) st)"

definition on_syn_stream ::
  "frame_env \<Rightarrow> 'z inflater \<Rightarrow> byte \<Rightarrow> byte list \<Rightarrow> 'z \<times> session \<Rightarrow> step_end \<times> 'z \<times> session" where
  "on_syn_stream env inflate flags body zs =
     (let (z, st) = zs in
      case id_at body of
        None \<Rightarrow> (SessionFailed (ShortControl SYN_STREAM), zs)
      | Some w \<Rightarrow>
          (let sid = w AND 0x7fffffff in
           if length body < 10 then (SessionFailed ShortSynStream, zs)
           else (case inflate z (drop 10 body) of
                   (Inl e, z') \<Rightarrow> (SessionFailed (Inflate e), z', st)
                 | (Inr raw, z') \<Rightarrow>
                     (case parse_block raw of
                        Inl e \<Rightarrow> (SessionFailed e, z', st)
                      | Inr hs \<Rightarrow>
                          (let st1 = enter_stream sid flags st in
                           if \<not> writer_there env then (SessionFailed WriterGone, z', st1)
                           else (Continue, z', deliver_stream env (opened st) sid hs (push_out env (Reply sid) st1)))))))"

definition on_rst_stream :: "byte list \<Rightarrow> session \<Rightarrow> step_end \<times> session" where
  "on_rst_stream body st =
     (case id_at body of
        None \<Rightarrow> (SessionFailed (ShortControl RST_STREAM), st)
      | Some w \<Rightarrow>
          (let sid = w AND 0x7fffffff in
           case streams st sid of
             None \<Rightarrow> (Continue, st)
           | Some h \<Rightarrow> (Continue, (close_stream sid st)\<lparr>reset_flag := (reset_flag st)(h := True)\<rparr>)))"

definition on_headers :: "'z inflater \<Rightarrow> byte \<Rightarrow> byte list \<Rightarrow> 'z \<times> session \<Rightarrow> step_end \<times> 'z \<times> session" where
  "on_headers inflate flags body zs =
     (let (z, st) = zs in
      case id_at body of
        None \<Rightarrow> (SessionFailed (ShortControl HEADERS), zs)
      | Some w \<Rightarrow>
          (case inflate z (drop 4 body) of
             (Inl e, z') \<Rightarrow> (SessionFailed (Inflate e), z', st)
           | (Inr _, z') \<Rightarrow>
               (Continue, z', if flags AND FLAG_FIN \<noteq> 0 then close_stream (w AND 0x7fffffff) st else st)))"

definition on_ping :: "frame_env \<Rightarrow> byte list \<Rightarrow> session \<Rightarrow> step_end \<times> session" where
  "on_ping env body st =
     (case id_at body of
        None \<Rightarrow> (SessionFailed (ShortControl PING), st)
      | Some w \<Rightarrow>
          if w mod 2 = 1 then
            (if writer_there env then (Continue, push_out env (Ping w) st) else (SessionFailed WriterGone, st))
          else (Continue, st))"

text \<open>One frame: the eight bytes of its head, and its body.\<close>
definition on_frame ::
  "frame_env \<Rightarrow> 'z inflater \<Rightarrow> byte list \<Rightarrow> byte list \<Rightarrow> 'z \<times> session \<Rightarrow> step_end \<times> 'z \<times> session" where
  "on_frame env inflate head body zs =
     (let (z, st) = zs; flags = head ! 4 in
      if head ! 0 AND 0x80 = 0 then
        (Continue, z, on_data env (be_u32 (head ! 0) (head ! 1) (head ! 2) (head ! 3) AND 0x7fffffff) flags body st)
      else (let version = be_u16 (head ! 0 AND 0x7f) (head ! 1); k = be_u16 (head ! 2) (head ! 3) in
        if version \<noteq> 3 then (SessionFailed (BadVersion version), zs)
        else if k = SYN_STREAM then on_syn_stream env inflate flags body zs
        else if k = RST_STREAM then (let (e, st') = on_rst_stream body st in (e, z, st'))
        else if k = HEADERS then on_headers inflate flags body zs
        else if k = PING then (let (e, st') = on_ping env body st in (e, z, st'))
        else if k = GOAWAY then (SessionOver, zs)
        else (Continue, zs)))"





section \<open>Header blocks read back\<close>

lemma be_u32_bytes: "be_u32 (ucast (drop_bit 24 w)) (ucast (drop_bit 16 w)) (ucast (drop_bit 8 w)) (ucast w) = w"
proof (rule bit_word_eqI)
  fix n assume "n < LENGTH(32)"
  then consider "n < 8" | "8 \<le> n" "n < 16" | "16 \<le> n" "n < 24" | "24 \<le> n" "n < 32" by fastforce
  then show "bit (be_u32 (ucast (drop_bit 24 w)) (ucast (drop_bit 16 w)) (ucast (drop_bit 8 w)) (ucast w)) n = bit w n"
    by cases (auto simp: be_u32_def bit_simps)
qed

lemma length_u32_bytes [simp]: "length (u32_bytes w) = 4"
  by (simp add: u32_bytes_def)

lemma word_of_bytes [simp]: "word_of (u32_bytes w) = w"
  by (simp add: word_of_def u32_bytes_def be_u32_bytes)

lemma take_n_append [simp]: "take_n (length a) (a @ b) = Inr (a, b)"
  by (simp add: take_n_def)

lemma take_n_4 [simp]: "take_n 4 (u32_bytes w @ b) = Inr (u32_bytes w, b)"
  using take_n_append [of "u32_bytes w" b] by simp

lemma take_counted_len32: "length s < 2 ^ 32 \<Longrightarrow> take_counted (len32 s @ s @ b) = Inr (s, b)"
  by (simp add: take_counted_def len32_def unat_of_nat)

text \<open>The bytes of a Rust \<open>String\<close>: well-formed UTF-8.\<close>
function utf8 :: "byte list \<Rightarrow> bool" where
  "utf8 s = (if s = [] then True else fst (utf8_step s) \<and> utf8 (drop (snd (utf8_step s)) s))"
  by auto
termination by (relation "measure length") (simp_all add: utf8_step_pos)

declare utf8.simps [simp del]

lemma lossy_utf8: "utf8 s \<Longrightarrow> lossy s = s"
proof (induction s rule: lossy.induct)
  case (1 s)
  show ?case
  proof (cases "s = []")
    case False
    then have "fst (utf8_step s)" "lossy (drop (snd (utf8_step s)) s) = drop (snd (utf8_step s)) s"
      using "1.prems" "1.IH" utf8.simps [of s] by auto
    then show ?thesis using False lossy.simps [of s] by simp
  qed (simp add: lossy.simps)
qed

lemma byte_lower_unat:
  "unat (byte_lower b) = (if 65 \<le> unat b \<and> unat b \<le> 90 then unat b + 32 else unat b)"
  by (simp add: byte_lower_def word_le_nat_alt unat_word_ariths)

lemma byte_lower_low: "byte_lower b < 0x80 \<longleftrightarrow> b < 0x80"
  by (simp add: word_less_nat_alt byte_lower_unat)

lemma byte_lower_high: "\<not> b < 0x80 \<Longrightarrow> byte_lower b = b"
  by (simp add: byte_lower_def word_less_nat_alt word_le_nat_alt)

lemma cont_lower:
  assumes "0x80 \<le> lo"
  shows "cont (map byte_lower s) i lo hi = cont s i lo hi"
proof -
  have "lo \<le> byte_lower b \<and> byte_lower b \<le> hi \<longleftrightarrow> lo \<le> b \<and> b \<le> hi" for b
  proof (cases "b < 0x80")
    case True
    then have "\<not> lo \<le> b" "\<not> lo \<le> byte_lower b"
      using assms byte_lower_low [of b] by (meson leD order_trans)+
    then show ?thesis by simp
  next
    case False
    then show ?thesis by (simp add: byte_lower_high)
  qed
  from this [of "s ! i"] show ?thesis by (cases "i < length s") (simp_all add: cont_def)
qed

lemma utf8_step_lower:
  assumes "s \<noteq> []"
  shows "utf8_step (map byte_lower s) = utf8_step s"
proof -
  have hd: "hd (map byte_lower s) = byte_lower (hd s)" using assms by (simp add: list.map_sel)
  have bounds: "(0x80::byte) \<le> 0xA0" "(0x80::byte) \<le> 0x80" "(0x80::byte) \<le> 0x90" by simp_all
  note conts = bounds [THEN cont_lower]
  show ?thesis
  proof (cases "hd s < 0x80")
    case True
    then show ?thesis using byte_lower_low by (simp add: utf8_step_def hd)
  next
    case False
    then have "hd (map byte_lower s) = hd s" using hd byte_lower_high by simp
    moreover have "cont (map byte_lower s) i (if P then 0xA0 else 0x80) hi = cont s i (if P then 0xA0 else 0x80) hi"
      "cont (map byte_lower s) i (if P then 0x90 else 0x80) hi = cont s i (if P then 0x90 else 0x80) hi" for i P hi
      using conts by simp_all
    ultimately show ?thesis unfolding utf8_step_def by (simp only: conts)
  qed
qed

lemma utf8_lower: "utf8 s \<Longrightarrow> utf8 (map byte_lower s)"
proof (induction s rule: utf8.induct)
  case (1 s)
  show ?case
  proof (cases "s = []")
    case False
    then show ?thesis
      using "1.prems" "1.IH" utf8.simps [of s] utf8.simps [of "map byte_lower s"] utf8_step_lower [of s]
      by (simp add: drop_map)
  qed (simp add: utf8.simps)
qed

lemma parse_pairs_encoded:
  assumes "\<forall>(k, v) \<in> set h. utf8 k \<and> utf8 v \<and> length k < 2 ^ 32 \<and> length v < 2 ^ 32"
  shows "parse_pairs (length h) (concat (map (\<lambda>(k, v). len32 k @ map byte_lower k @ len32 v @ v) h) @ b)
    = Inr (map (\<lambda>(k, v). (map byte_lower k, first_value v)) h)"
  using assms
proof (induction h)
  case (Cons kv h)
  obtain k v where kv: "kv = (k, v)" by force
  have "len32 k = len32 (map byte_lower k)" by (simp add: len32_def)
  then have "take_counted (len32 k @ map byte_lower k @ r) = Inr (map byte_lower k, r)" for r
    using Cons.prems kv take_counted_len32 [of "map byte_lower k" r] by simp
  then show ?case
    using Cons kv by (simp add: take_counted_len32 lossy_utf8 utf8_lower)
qed simp

text \<open>A header block read back is the headers it was made from: names in lower case, as SPDY has
  them, and of each value its first part. Whatever follows the block is left alone.\<close>
theorem header_block_roundtrip:
  assumes "length h < 2 ^ 32"
    and "\<forall>(k, v) \<in> set h. utf8 k \<and> utf8 v \<and> length k < 2 ^ 32 \<and> length v < 2 ^ 32"
  shows "parse_block (encode_block h @ b) = Inr (map (\<lambda>(k, v). (map byte_lower k, first_value v)) h)"
  using assms(1) parse_pairs_encoded [OF assms(2)]
  by (simp add: parse_block_def encode_block_def unat_of_nat)

lemma header_block_roundtrip_witness:
  "parse_block (encode_block [([0x50, 0x6F], [0xC3, 0xA9, 0, 0x41])] @ [7]) = Inr [([0x70, 0x6F], [0xC3, 0xA9])]"
proof -
  have "utf8 [0x50, 0x6F]" "utf8 [0xC3, 0xA9, 0, 0x41]" "map byte_lower [0x50, 0x6F] = [0x70, 0x6F]"
    "first_value [0xC3, 0xA9, 0, 0x41] = [0xC3, 0xA9]"
    by code_simp+
  then show ?thesis using header_block_roundtrip [of "[([0x50, 0x6F], [0xC3, 0xA9, 0, 0x41])]" "[7]"] by simp
qed

section \<open>What is written arrives\<close>










definition all_there :: frame_env where
  "all_there = \<lparr>reader_there = True, writer_there = True, acceptor_there = True\<rparr>"



section \<open>Streams over a session\<close>

text \<open>One frame the session survives.\<close>
inductive session_step :: "'z inflater \<Rightarrow> 'z \<times> session \<Rightarrow> 'z \<times> session \<Rightarrow> bool" for inflate where
  frame: "on_frame env inflate head body zs = (Continue, zs') \<Longrightarrow> session_step inflate zs zs'"

inductive_cases session_stepE: "session_step inflate zs zs'"

fun is_reply :: "out \<Rightarrow> bool" where
  "is_reply (Reply _) = True"
| "is_reply _ = False"

definition session_ok :: "session \<Rightarrow> bool" where
  "session_ok st = ((\<forall>sid h. streams st sid = Some h \<longrightarrow> h < opened st)
     \<and> (\<forall>sid sid' h. streams st sid = Some h \<longrightarrow> streams st sid' = Some h \<longrightarrow> sid = sid')
     \<and> length (filter is_reply (outq st)) = opened st
     \<and> distinct (map fst (delivered st))
     \<and> (\<forall>(h, sid, hs) \<in> set (delivered st). h < opened st \<and> Reply sid \<in> set (outq st)))"

lemma on_syn_stream_going:
  "on_syn_stream env inflate flags body (z, st) = (Continue, z', st') \<Longrightarrow>
     writer_there env \<and> (\<exists>sid hs. st' =
       deliver_stream env (opened st) sid hs (push_out env (Reply sid) (enter_stream sid flags st)))"
  by (simp add: on_syn_stream_def Let_def split: option.split_asm prod.split_asm sum.split_asm if_split_asm) blast

lemma on_rst_stream_going:
  "on_rst_stream body st = (e, st') \<Longrightarrow> st' = st \<or>
     (\<exists>sid h. streams st sid = Some h
        \<and> st' = (close_stream sid st)\<lparr>reset_flag := (reset_flag st)(h := True)\<rparr>)"
  by (auto simp: on_rst_stream_def Let_def split: option.split_asm)

lemma on_headers_going:
  "on_headers inflate flags body (z, st) = (Continue, z', st') \<Longrightarrow> st' = st \<or> (\<exists>sid. st' = close_stream sid st)"
  by (auto simp: on_headers_def split: option.split_asm prod.split_asm sum.split_asm if_split_asm)

lemma on_ping_going: "on_ping env body st = (e, st') \<Longrightarrow> st' = st \<or> (\<exists>w. st' = push_out env (Ping w) st)"
  by (auto simp: on_ping_def split: option.split_asm if_split_asm)

text \<open>What one surviving frame does to the session, kind by kind.\<close>
lemma on_frame_cases:
  assumes "on_frame env inflate head body (z, st) = (Continue, z', st')"
  obtains (data) sid flags where "st' = on_data env sid flags body st"
  | (syn) sid flags hs where "writer_there env"
      "st' = deliver_stream env (opened st) sid hs (push_out env (Reply sid) (enter_stream sid flags st))"
  | (rst) sid h where "streams st sid = Some h"
      "st' = (close_stream sid st)\<lparr>reset_flag := (reset_flag st)(h := True)\<rparr>"
  | (fin) sid where "st' = close_stream sid st"
  | (ping) w where "st' = push_out env (Ping w) st"
  | (same) "st' = st"
proof -
  consider (d) sid where "st' = on_data env sid (head ! 4) body st"
    | (s) "on_syn_stream env inflate (head ! 4) body (z, st) = (Continue, z', st')"
    | (r) e where "on_rst_stream body st = (e, st')"
    | (h) "on_headers inflate (head ! 4) body (z, st) = (Continue, z', st')"
    | (p) e where "on_ping env body st = (e, st')"
    | (n) "st' = st"
    using assms unfolding on_frame_def Let_def prod.case
    by (simp split: if_split_asm prod.split_asm) blast
  then show thesis
  proof cases
    case d
    then show thesis by (rule data)
  next
    case s
    from on_syn_stream_going [OF this] show thesis using syn by blast
  next
    case r
    from on_rst_stream_going [OF this] show thesis using rst same by blast
  next
    case h
    from on_headers_going [OF this] show thesis using fin same by blast
  next
    case p
    from on_ping_going [OF this] show thesis using ping same by blast
  qed (rule same)
qed

lemma push_out_fields [simp]:
  "streams (push_out env q st) = streams st" "opened (push_out env q st) = opened st"
  "received (push_out env q st) = received st" "reset_flag (push_out env q st) = reset_flag st"
  "delivered (push_out env q st) = delivered st"
  "set (outq st) \<subseteq> set (outq (push_out env q st))"
  "\<not> is_reply q \<Longrightarrow> filter is_reply (outq (push_out env q st)) = filter is_reply (outq st)"
  by (auto simp: push_out_def)

lemma close_stream_fields [simp]:
  "streams (close_stream sid st) = (streams st)(sid := None)" "opened (close_stream sid st) = opened st"
  "received (close_stream sid st) = received st" "reset_flag (close_stream sid st) = reset_flag st"
  "delivered (close_stream sid st) = delivered st" "outq (close_stream sid st) = outq st"
  by (simp_all add: close_stream_def)

lemma session_ok_mono:
  assumes "session_ok st" and "streams st' \<subseteq>\<^sub>m streams st" and "opened st' = opened st"
    and "delivered st' = delivered st" and "set (outq st) \<subseteq> set (outq st')"
    and "filter is_reply (outq st') = filter is_reply (outq st)"
  shows "session_ok st'"
proof -
  have sub: "streams st' sid = Some h \<Longrightarrow> streams st sid = Some h" for sid h
    using assms(2) by (metis domI map_le_def)
  show ?thesis using assms(1,3-) sub unfolding session_ok_def by fastforce
qed

lemma map_le_clear [simp]: "m(k := None) \<subseteq>\<^sub>m m"
  by (simp add: map_le_def)

lemma on_data_ok: "session_ok st \<Longrightarrow> session_ok (on_data env sid flags body st)"
  by (erule session_ok_mono) (auto simp: on_data_def Let_def push_out_def close_stream_def split: option.split)

lemma syn_ok:
  assumes "session_ok st" and "writer_there env"
  shows "session_ok (deliver_stream env (opened st) sid hs (push_out env (Reply sid) (enter_stream sid flags st)))"
proof -
  let ?st1 = "push_out env (Reply sid) (enter_stream sid flags st)"
  have one: "outq ?st1 = outq st @ [Reply sid]" "delivered ?st1 = delivered st" "opened ?st1 = Suc (opened st)"
    using assms(2) by (simp_all add: push_out_def enter_stream_def)
  have strm: "streams ?st1 s = Some h \<Longrightarrow> streams st s = Some h \<or> s = sid \<and> h = opened st" for s h
    by (auto simp: enter_stream_def split: if_splits)
  have old: "streams st s = Some h \<Longrightarrow> h < opened st" for s h using assms(1) by (auto simp: session_ok_def)
  have inj: "\<forall>s s' h. streams ?st1 s = Some h \<longrightarrow> streams ?st1 s' = Some h \<longrightarrow> s = s'"
    using strm old assms(1) unfolding session_ok_def by (metis less_irrefl)
  have bound: "\<forall>s h. streams ?st1 s = Some h \<longrightarrow> h < Suc (opened st)" using strm old by (metis less_Suc_eq)
  have mid: "session_ok ?st1" using assms(1) inj bound one unfolding session_ok_def by fastforce
  show ?thesis
  proof (cases "acceptor_there env")
    case True
    have "opened st \<notin> fst ` set (delivered st)" using assms(1) by (fastforce simp: session_ok_def)
    then show ?thesis using True mid one assms(1) by (auto simp: deliver_stream_def session_ok_def)
  next
    case False
    show ?thesis using mid by (rule session_ok_mono) (simp_all add: False deliver_stream_def)
  qed
qed

lemma session_step_ok: "session_ok (snd zs) \<Longrightarrow> session_step inflate zs zs' \<Longrightarrow> session_ok (snd zs')"
proof (elim session_stepE)
  fix env head body
  assume ok: "session_ok (snd zs)" and f: "on_frame env inflate head body zs = (Continue, zs')"
  obtain z st z' st' where zs: "zs = (z, st)" "zs' = (z', st')" by (metis surj_pair)
  have ok': "session_ok st" using ok zs by simp
  have "session_ok st'"
    using f unfolding zs
  proof (cases rule: on_frame_cases)
    case (data sid flags)
    then show ?thesis using on_data_ok [OF ok'] by simp
  next
    case (syn sid flags hs)
    then show ?thesis using syn_ok [OF ok'] by simp
  next
    case (rst sid h)
    show ?thesis using ok' by (rule session_ok_mono) (simp_all add: rst)
  next
    case (fin sid)
    show ?thesis using ok' by (rule session_ok_mono) (simp_all add: fin)
  next
    case (ping w)
    show ?thesis using ok' by (rule session_ok_mono) (simp_all add: ping)
  qed (use ok' in simp)
  then show "session_ok (snd zs')" using zs by simp
qed

interpretation spdy: inv_system "session_step inflate" "(z, session_new)" "\<lambda>zs. session_ok (snd zs)" for inflate z
  by unfold_locales (simp add: session_new_def session_ok_def, rule session_step_ok)

text \<open>Every stream the client opens is answered, once: while a session lives, the replies queued are
  as many as the streams opened, each stream delivered to an endpoint has its reply queued and
  a number of its own, and no two open ids are the same stream.\<close>
theorem every_stream_answered:
  assumes "(session_step inflate)\<^sup>*\<^sup>* (z0, session_new) (z, st)"
  shows "length (filter is_reply (outq st)) = opened st
    \<and> distinct (map fst (delivered st))
    \<and> (\<forall>(h, sid, hs) \<in> set (delivered st). h < opened st \<and> Reply sid \<in> set (outq st))
    \<and> inj_on (streams st) (dom (streams st))"
  using spdy.inv_reachable [OF assms] by (auto simp: session_ok_def inj_on_def)

text \<open>A session that opened stream 1 with a FIN: its handle 0 is answered and takes no data.\<close>
definition syn_fin_frame :: "byte list \<times> byte list" where
  "syn_fin_frame = ([0x80, 3, 0, 1, 1, 0, 0, 14], u32_bytes 1 @ replicate 6 0 @ encode_block [])"

definition half_closed :: session where
  "half_closed = \<lparr>streams = (\<lambda>_. None), opened = 1, received = (\<lambda>_. []), reset_flag = (\<lambda>_. False),
     outq = [Reply 1], delivered = [(0, 1, [])]\<rparr>"

lemma half_closed_reached:
  "session_step (\<lambda>z b. (Inr b, z)) ((), session_new) ((), half_closed)"
proof (rule frame [of all_there _ "fst syn_fin_frame" "snd syn_fin_frame"])
  have b: "length (snd syn_fin_frame) = 14" "id_at (snd syn_fin_frame) = Some 1"
    "parse_block (drop 10 (snd syn_fin_frame)) = Inr []" "fst syn_fin_frame ! 4 = 1"
    "be_u16 (0x80 AND 0x7f) 3 = 3" "be_u16 0 1 = 1" "(0x80 AND 0x80 :: byte) \<noteq> 0" "(1 AND FLAG_FIN :: byte) \<noteq> 0"
    "(1 AND 0x7fffffff :: 32 word) = 1"
    by code_simp+
  have h: "fst syn_fin_frame ! 0 = 0x80" "fst syn_fin_frame ! 1 = 3" "fst syn_fin_frame ! 2 = 0" "fst syn_fin_frame ! 3 = 1"
    by (simp_all add: syn_fin_frame_def)
  have "on_syn_stream all_there (\<lambda>z b. (Inr b, z)) 1 (snd syn_fin_frame) ((), session_new) = (Continue, (), half_closed)"
    by (simp add: on_syn_stream_def b Let_def enter_stream_def deliver_stream_def push_out_def session_new_def
        half_closed_def all_there_def)
  then show "on_frame all_there (\<lambda>z b. (Inr b, z)) (fst syn_fin_frame) (snd syn_fin_frame) ((), session_new)
      = (Continue, (), half_closed)"
    by (simp only: on_frame_def Let_def prod.case h b SYN_STREAM_def if_True if_False simp_thms not_False_eq_True)
qed

lemma every_stream_answered_witness:
  "length (filter is_reply (outq half_closed)) = 1 \<and> Reply 1 \<in> set (outq half_closed)"
  using every_stream_answered [OF r_into_rtranclp [of "session_step (\<lambda>z b. (Inr b, z))", OF half_closed_reached]]
  by (simp add: half_closed_def)

lemma closed_step:
  assumes "session_step inflate zs zs'" and "h < opened (snd zs)" and "h \<notin> ran (streams (snd zs))"
  shows "received (snd zs') h = received (snd zs) h \<and> reset_flag (snd zs') h = reset_flag (snd zs) h
    \<and> h < opened (snd zs') \<and> h \<notin> ran (streams (snd zs'))"
proof -
  obtain z st z' st' where zs: "zs = (z, st)" "zs' = (z', st')" by (metis surj_pair)
  have h: "h < opened st" "\<And>sid. streams st sid \<noteq> Some h"
    using assms(2,3) zs by (auto simp: ran_def)
  from assms(1) obtain env head body where "on_frame env inflate head body (z, st) = (Continue, z', st')"
    unfolding zs by (elim session_stepE)
  then have "received st' h = received st h \<and> reset_flag st' h = reset_flag st h \<and> h < opened st'
      \<and> (\<forall>sid. streams st' sid \<noteq> Some h)"
  proof (cases rule: on_frame_cases)
    case (data sid flags)
    then show ?thesis using h by (auto simp: on_data_def Let_def split: option.split)
  next
    case (syn sid flags hs)
    then show ?thesis using h by (auto simp: deliver_stream_def enter_stream_def)
  qed (use h in auto)
  then show ?thesis using zs by (auto simp: ran_def)
qed

text \<open>A stream the session has let go of (after a FIN, a reset, or because nobody read it) is let go of
  for good: whatever frames follow, nothing more is delivered to it, even when its id is used
  again. Nor does its reset flag ever change: an \<open>RST_STREAM\<close> the client sends after half-closing
  a stream is not seen by the writer of that stream.\<close>
theorem closed_stream_is_final:
  assumes "(session_step inflate)\<^sup>*\<^sup>* (z, st) (z', st')" and "h < opened st" and "h \<notin> ran (streams st)"
  shows "received st' h = received st h \<and> reset_flag st' h = reset_flag st h \<and> h \<notin> ran (streams st')"
proof -
  have "received (snd zs') h = received (snd zs) h \<and> reset_flag (snd zs') h = reset_flag (snd zs) h
      \<and> h < opened (snd zs') \<and> h \<notin> ran (streams (snd zs'))"
    if "(session_step inflate)\<^sup>*\<^sup>* zs zs'" "h < opened (snd zs)" "h \<notin> ran (streams (snd zs))" for zs zs'
    using that by (induction rule: rtranclp_induct) (simp, use closed_step in metis)
  from this [OF assms(1)] assms(2,3) show ?thesis by simp
qed

text \<open>The client's \<open>RST_STREAM\<close> for the stream it half-closed.\<close>
lemma closed_stream_is_final_witness:
  "\<exists>st'. on_rst_stream (u32_bytes 1 @ u32_bytes 5) half_closed = (Continue, st') \<and> \<not> reset_flag st' 0"
proof -
  have s: "on_rst_stream (u32_bytes 1 @ u32_bytes 5) half_closed = (Continue, half_closed)"
    by (simp add: on_rst_stream_def id_at_def half_closed_def)
  have f: "be_u16 (0x80 AND 0x7f) 3 = 3" "be_u16 0 3 = 3" "(0x80 AND 0x80 :: byte) \<noteq> 0" by code_simp+
  have "on_frame all_there (\<lambda>z b. (Inr b, z)) [0x80, 3, 0, 3, 0, 0, 0, 8] (u32_bytes 1 @ u32_bytes 5) ((), half_closed)
      = (Continue, (), half_closed)"
    by (simp add: on_frame_def s f SYN_STREAM_def RST_STREAM_def)
  then have "session_step (\<lambda>z b. (Inr b, z)) ((), half_closed) ((), half_closed)" by (rule frame)
  from closed_stream_is_final [OF r_into_rtranclp [of "session_step (\<lambda>z b. (Inr b, z))", OF this], of 0]
  show ?thesis using s by (simp add: half_closed_def)
qed

end
