(* ===== verification/Ring.thy ===== *)
theory Ring
  imports Prelude "HOL-Library.AList" "HOL-Library.Multiset"
begin

text \<open>\<open>pkg/kubelet/src/stormpump_ring.rs\<close>: the thread that owns the submission ring shared with the
  container engine. The regions of the shared arena, requests in flight and given up on, the
  undo of what a late answer made, exits and who waits for them, and the passes of \<open>run\<close>.

  A caller waiting for a reply, and the receiver of a settled signal, is a number; what was
  sent to it is a list. An opcode is its constructor (\<open>OpOther\<close> for the ones the thread treats
  alike). Whether the ring has room for the entry with a given id, and whether \<open>ArenaRef::new\<close>
  accepts a region, is the engine library's answer (\<open>ring_env\<close>); the engine writes answers into
  the arena between passes. The out-of-band hand-over of descriptors is left out.\<close>

section \<open>Entries, requests and answers\<close>

datatype opcode =
    Spawn | Stop | WorkloadRelease
  | VolumeRegister | VolumeRelease | SpecDefine | SpecRelease | SandboxAcquire | SandboxRelease
  | OpOther nat

record sqe =
  s_op :: opcode
  s_flags :: nat
  s_primary :: nat
  s_inline_a :: nat
  s_inline_b :: nat
  s_user :: nat
  s_arena :: "nat \<times> nat"

definition sqe_of :: "opcode \<Rightarrow> nat \<Rightarrow> sqe" where
  "sqe_of opc h = \<lparr>s_op = opc, s_flags = 0, s_primary = h, s_inline_a = 0, s_inline_b = 0, s_user = 0,
     s_arena = (0, 0)\<rparr>"

record cqe =
  c_user :: nat
  c_err :: "nat option"
  c_handle :: nat
  c_aux :: nat
  c_arena :: "nat \<times> nat"

datatype ring_error = Attach string | Full | Timeout | Failed opcode nat nat | Detail string | Gone

datatype ring_reply = RErr ring_error | ROk cqe "nat list"

record request =
  q_sqe :: sqe
  q_payload :: "nat list option"
  q_read_back :: bool
  q_caller :: nat
  q_expires :: instant
  q_settled :: "nat option"

record live_request =
  l_op :: opcode
  l_caller :: nat
  l_expires :: instant
  l_settled :: "nat option"

text \<open>The mount a failure names: the high sixteen bits of the step, less one.\<close>
definition failed_mount_index :: "32 word \<Rightarrow> nat option" where
  "failed_mount_index step = (let n = unat (drop_bit 16 step) in if n = 0 then None else Some (n - 1))"

definition stop_sqe :: "nat \<Rightarrow> nat \<Rightarrow> nat \<Rightarrow> sqe" where
  "stop_sqe force h grace_secs =
     (let (flags, grace_ms) = (if grace_secs = 0 then (force, 0) else (0, min (grace_secs * 1000) (2 ^ 64 - 1))) in
      (sqe_of Stop h)\<lparr>s_flags := flags, s_inline_b := grace_ms\<rparr>)"

definition undo_late :: "opcode \<Rightarrow> cqe \<Rightarrow> sqe option" where
  "undo_late opc c =
     (if c_err c \<noteq> None then None
      else map_option (\<lambda>u. sqe_of u (c_handle c))
        (case opc of
           Spawn \<Rightarrow> Some Stop
         | VolumeRegister \<Rightarrow> Some VolumeRelease
         | SpecDefine \<Rightarrow> Some SpecRelease
         | SandboxAcquire \<Rightarrow> Some SandboxRelease
         | _ \<Rightarrow> None))"

definition arena_region :: "nat list \<Rightarrow> nat \<times> nat \<Rightarrow> nat list" where
  "arena_region mem r = (if fst r + snd r \<le> length mem then take (snd r) (drop (fst r) mem) else [])"

section \<open>The arena's regions\<close>

type_synonym region = "nat \<times> nat \<times> nat \<times> bool"

definition ALIGN :: nat where "ALIGN = 8"

text \<open>First fit: the index and offset where a region of \<open>sz\<close> bytes goes, and whether that is between two others.\<close>
fun find_gap :: "nat \<Rightarrow> nat \<Rightarrow> nat \<Rightarrow> region list \<Rightarrow> nat \<times> nat \<times> bool" where
  "find_gap sz at i [] = (i, at, False)"
| "find_gap sz at i ((off, len, _, _) # us) =
     (if at \<le> off \<and> sz \<le> off - at then (i, at, True)
      else find_gap sz (div_ceil (off + len) ALIGN * ALIGN) (Suc i) us)"

definition slots_take :: "nat \<Rightarrow> region list \<Rightarrow> nat \<Rightarrow> nat \<Rightarrow> bool \<Rightarrow> (nat \<times> region list) option" where
  "slots_take slots_len used sz0 rid read_back =
     (let sz = max sz0 1; (i, at, between) = find_gap sz 0 0 used in
      if \<not> between \<and> (slots_len < at \<or> slots_len - at < sz) then None
      else Some (at, take i used @ [(at, sz, rid, read_back)] @ drop i used))"

fun slots_free :: "region list \<Rightarrow> nat \<Rightarrow> bool option \<times> region list" where
  "slots_free [] rid = (None, [])"
| "slots_free ((off, len, holder, rb) # us) rid =
     (if holder = rid then (Some rb, us)
      else (let (r, us') = slots_free us rid in (r, (off, len, holder, rb) # us')))"

section \<open>Exits\<close>

record exit_waiters =
  wanted :: "nat \<Rightarrow> nat option"
  recent :: "(nat \<times> nat) list"
  woken :: "(nat \<times> nat) list"

definition RECENT_EXITS :: nat where "RECENT_EXITS = 256"

definition exited :: "nat \<Rightarrow> nat \<Rightarrow> exit_waiters \<Rightarrow> bool \<times> exit_waiters" where
  "exited h status w = (case wanted w h of
     Some caller \<Rightarrow> (True, w\<lparr>wanted := (wanted w)(h := None), woken := woken w @ [(caller, status)]\<rparr>)
   | None \<Rightarrow> (False, w\<lparr>recent := (if length (recent w) = RECENT_EXITS then tl (recent w) else recent w)
                                  @ [(h, status)]\<rparr>))"

fun take_first :: "nat \<Rightarrow> (nat \<times> nat) list \<Rightarrow> (nat \<times> (nat \<times> nat) list) option" where
  "take_first h [] = None"
| "take_first h ((k, v) # kvs) =
     (if k = h then Some (v, kvs) else map_option (\<lambda>(x, r). (x, (k, v) # r)) (take_first h kvs))"

definition wait_exit :: "nat \<Rightarrow> nat \<Rightarrow> exit_waiters \<Rightarrow> exit_waiters" where
  "wait_exit h caller w = (case take_first h (recent w) of
     Some (status, rest) \<Rightarrow> w\<lparr>recent := rest, woken := woken w @ [(caller, status)]\<rparr>
   | None \<Rightarrow> w\<lparr>wanted := (wanted w)(h \<mapsto> caller)\<rparr>)"

section \<open>The thread's state\<close>

record ring_env =
  full :: "nat \<Rightarrow> bool"
  ref_ok :: "nat \<Rightarrow> nat \<Rightarrow> bool"

record ring =
  next_id :: nat
  live :: "(nat \<times> live_request) list"
  abandoned :: "nat \<Rightarrow> (opcode \<times> nat option) option"
  orphans :: "nat set"
  undo :: "(sqe \<times> nat option) list"
  arena :: "nat list"
  total :: nat
  used :: "region list"
  parked :: "request list"
  sq :: "sqe list"
  waiters :: exit_waiters
  exits :: "(nat \<times> nat) list"
  answers :: "(nat \<times> ring_reply) list"
  settled_sent :: "nat list"

definition ring_new :: "nat list \<Rightarrow> ring" where
  "ring_new mem = \<lparr>next_id = 1, live = [], abandoned = (\<lambda>_. None), orphans = {}, undo = [], arena = mem,
     total = length mem, used = [], parked = [], sq = [], waiters = \<lparr>wanted = (\<lambda>_. None), recent = [], woken = []\<rparr>,
     exits = [], answers = [], settled_sent = []\<rparr>"

text \<open>Dropping a settled sender is its signal.\<close>
definition drop_settled :: "nat option \<Rightarrow> ring \<Rightarrow> ring" where
  "drop_settled s st = (case s of None \<Rightarrow> st | Some n \<Rightarrow> st\<lparr>settled_sent := settled_sent st @ [n]\<rparr>)"

definition send_reply :: "nat \<Rightarrow> ring_reply \<Rightarrow> ring \<Rightarrow> ring" where
  "send_reply caller a st = st\<lparr>answers := answers st @ [(caller, a)]\<rparr>"

definition refuse :: "request \<Rightarrow> ring_error \<Rightarrow> ring \<Rightarrow> ring" where
  "refuse q e st = drop_settled (q_settled q) (send_reply (q_caller q) (RErr e) st)"

definition write_arena :: "nat \<Rightarrow> nat list \<Rightarrow> ring \<Rightarrow> ring" where
  "write_arena at bytes st =
     st\<lparr>arena := take at (arena st) @ bytes @ drop (at + length bytes) (arena st)\<rparr>"

definition free_region :: "nat \<Rightarrow> ring \<Rightarrow> bool option \<times> ring" where
  "free_region rid st = (let (r, us) = slots_free (used st) rid in (r, st\<lparr>used := us\<rparr>))"

text \<open>The end of \<open>place\<close>: the id is used, the entry pushed, the request in flight.\<close>
definition submit :: "ring_env \<Rightarrow> request \<Rightarrow> nat \<times> nat \<Rightarrow> ring \<Rightarrow> ring" where
  "submit env q aref st0 =
     (let rid = next_id st0; st = st0\<lparr>next_id := Suc rid\<rparr> in
      if full env rid then refuse q Full (snd (free_region rid st))
      else st\<lparr>sq := sq st @ [(q_sqe q)\<lparr>s_user := rid, s_arena := aref\<rparr>],
              live := AList.update rid \<lparr>l_op = s_op (q_sqe q), l_caller = q_caller q, l_expires = q_expires q,
                                   l_settled = q_settled q\<rparr> (live st)\<rparr>)"

definition too_large_text :: "nat \<Rightarrow> nat \<Rightarrow> string" where
  "too_large_text n len = ''a '' @ show_nat n @ ''-byte payload is larger than stormpump's '' @ show_nat len @ ''-byte arena''"

definition place :: "ring_env \<Rightarrow> request \<Rightarrow> ring \<Rightarrow> request option \<times> ring" where
  "place env q st =
     (case q_payload q of
        None \<Rightarrow> (None, submit env q (s_arena (q_sqe q)) st)
      | Some bytes \<Rightarrow>
          if total st < length bytes
          then (None, refuse q (Detail (too_large_text (length bytes) (total st))) st)
          else (case slots_take (total st) (used st) (length bytes) (next_id st) (q_read_back q) of
                  None \<Rightarrow> (Some q, st)
                | Some (at, us) \<Rightarrow>
                    (let st1 = write_arena at bytes (st\<lparr>used := us\<rparr>) in
                     if ref_ok env at (length bytes) then (None, submit env q (at, length bytes) st1)
                     else (None, refuse q Full (snd (free_region (next_id st) st1))))))"

section \<open>A pass of the loop\<close>

text \<open>Undo requests first, until one does not fit the ring.\<close>
fun push_undo :: "ring_env \<Rightarrow> (sqe \<times> nat option) list \<Rightarrow> ring \<Rightarrow> ring" where
  "push_undo env [] st = st\<lparr>undo := []\<rparr>"
| "push_undo env ((s, settled) # us) st =
     (let rid = next_id st; st1 = st\<lparr>next_id := Suc rid\<rparr> in
      if full env rid then st1\<lparr>undo := (s\<lparr>s_user := 0\<rparr>, settled) # us\<rparr>
      else push_undo env us
        (st1\<lparr>sq := sq st1 @ [s\<lparr>s_user := rid\<rparr>], abandoned := (abandoned st1)(rid \<mapsto> (s_op s, settled))\<rparr>))"

text \<open>Each parked request once, oldest first; what still does not fit is parked again.\<close>
fun retry_parked :: "ring_env \<Rightarrow> nat \<Rightarrow> ring \<Rightarrow> ring" where
  "retry_parked env 0 st = st"
| "retry_parked env (Suc n) st =
     (case parked st of
        [] \<Rightarrow> st
      | q # qs \<Rightarrow>
          (case place env q (st\<lparr>parked := qs\<rparr>) of
             (None, st') \<Rightarrow> retry_parked env n st'
           | (Some q', st') \<Rightarrow> retry_parked env n (st'\<lparr>parked := parked st' @ [q']\<rparr>)))"

definition on_request :: "ring_env \<Rightarrow> instant \<Rightarrow> request \<Rightarrow> ring \<Rightarrow> ring" where
  "on_request env now q st =
     (if q_expires q \<le> now then refuse q Timeout st
      else (case place env q st of
              (None, st') \<Rightarrow> st'
            | (Some q', st') \<Rightarrow> st'\<lparr>parked := parked st' @ [q']\<rparr>))"

definition on_exit :: "cqe \<Rightarrow> ring \<Rightarrow> ring" where
  "on_exit c st =
     (let h = c_handle c;
          st1 = (if h \<in> orphans st
                 then st\<lparr>orphans := orphans st - {h}, undo := undo st @ [(sqe_of WorkloadRelease h, None)]\<rparr>
                 else st);
          (claimed, w) = exited h (c_aux c) (waiters st1);
          st2 = st1\<lparr>waiters := w\<rparr> in
      if claimed then st2 else st2\<lparr>exits := exits st2 @ [(h, c_aux c)]\<rparr>)"

datatype completes = Waiting live_request | Abandoned opcode "nat option" | Unknown

definition complete :: "nat \<Rightarrow> ring \<Rightarrow> completes \<times> ring" where
  "complete rid st = (case map_of (live st) rid of
     Some l \<Rightarrow> (Waiting l, st\<lparr>live := AList.delete rid (live st)\<rparr>)
   | None \<Rightarrow>
       (case abandoned st rid of
          Some (opc, settled) \<Rightarrow> (Abandoned opc settled, st\<lparr>abandoned := (abandoned st)(rid := None)\<rparr>)
        | None \<Rightarrow> (Unknown, st)))"

definition on_answer :: "cqe \<Rightarrow> ring \<Rightarrow> ring" where
  "on_answer c st0 =
     (let (freed, st) = free_region (c_user c) st0;
          mem = (if freed = Some True \<and> c_err c = None then arena_region (arena st) (c_arena c) else []) in
      case complete (c_user c) st of
        (Waiting l, st') \<Rightarrow>
          drop_settled (l_settled l)
            (send_reply (l_caller l)
              (case c_err c of Some e \<Rightarrow> RErr (Failed (l_op l) e (c_aux c)) | None \<Rightarrow> ROk c mem) st')
      | (Abandoned opc settled, st') \<Rightarrow>
          (case undo_late opc c of
             Some s \<Rightarrow> st'\<lparr>orphans := (if opc = Spawn then insert (c_handle c) (orphans st') else orphans st'),
                           undo := undo st' @ [(s, settled)]\<rparr>
           | None \<Rightarrow> drop_settled settled st')
      | (Unknown, st') \<Rightarrow> st')"

definition on_cqe :: "cqe \<Rightarrow> ring \<Rightarrow> ring" where
  "on_cqe c st = (if c_user c = 0 then on_exit c st else on_answer c st)"

text \<open>\<open>expire\<close>: the late ones are answered \<open>Timeout\<close> and kept as abandoned.\<close>
fun expire_each :: "(nat \<times> live_request) list \<Rightarrow> ring \<Rightarrow> ring" where
  "expire_each [] st = st"
| "expire_each ((rid, l) # ls) st =
     (let st1 = send_reply (l_caller l) (RErr Timeout) (st\<lparr>live := AList.delete rid (live st)\<rparr>) in
      expire_each ls (st1\<lparr>abandoned := (abandoned st1)(rid \<mapsto> (l_op l, l_settled l))\<rparr>))"

definition expire :: "instant \<Rightarrow> ring \<Rightarrow> ring" where
  "expire now st = expire_each (filter (\<lambda>(_, l). l_expires l \<le> now) (live st)) st"

fun refuse_each :: "request list \<Rightarrow> ring \<Rightarrow> ring" where
  "refuse_each [] st = st"
| "refuse_each (q # qs) st = refuse_each qs (refuse q Timeout st)"

definition expire_parked :: "instant \<Rightarrow> ring \<Rightarrow> ring" where
  "expire_parked now st =
     refuse_each (filter (\<lambda>q. q_expires q \<le> now) (parked st))
       (st\<lparr>parked := filter (\<lambda>q. \<not> q_expires q \<le> now) (parked st)\<rparr>)"

text \<open>One turn of \<open>run\<close>: \<open>req\<close> is the request received in it, if any, and \<open>cqes\<close> the completions popped,
  each with the arena as the engine had left it.\<close>
definition ring_pass ::
  "ring_env \<Rightarrow> (instant \<times> request) option \<Rightarrow> (nat list \<times> cqe) list \<Rightarrow> instant \<Rightarrow> ring \<Rightarrow> ring" where
  "ring_pass env req cqes now st =
     (let st1 = push_undo env (undo st) st;
          st2 = retry_parked env (length (parked st1)) st1;
          st3 = (case req of None \<Rightarrow> st2 | Some (t, q) \<Rightarrow> on_request env t q st2);
          st4 = fold (\<lambda>(mem, c) s. on_cqe c (s\<lparr>arena := mem\<rparr>)) cqes st3 in
      expire_parked now (expire now st4))"

section \<open>Regions never overlap\<close>

definition holder :: "region \<Rightarrow> nat" where
  "holder r = (case r of (_, _, h, _) \<Rightarrow> h)"

lemma holder_simp [simp]: "holder (off, len, h, rb) = h"
  by (simp add: holder_def)

text \<open>Regions in order, apart, aligned and inside the arena.\<close>
fun regions_ok :: "nat \<Rightarrow> nat \<Rightarrow> region list \<Rightarrow> bool" where
  "regions_ok t a [] = True"
| "regions_ok t a ((off, len, _, _) # us) =
     (a \<le> off \<and> ALIGN dvd off \<and> 0 < len \<and> off + len \<le> t \<and> regions_ok t (off + len) us)"

lemma regions_ok_mono: "regions_ok t a us \<Longrightarrow> b \<le> a \<Longrightarrow> regions_ok t b us"
  by (cases us) auto

lemma regions_ok_within: "regions_ok t a us \<Longrightarrow> (off, len, h, rb) \<in> set us \<Longrightarrow> a \<le> off \<and> 0 < len \<and> off + len \<le> t"
  by (induction us arbitrary: a) (auto, fastforce+)


lemma aligned_up: "a \<le> div_ceil a ALIGN * ALIGN" "ALIGN dvd div_ceil a ALIGN * ALIGN"
  by (auto simp: div_ceil_def ALIGN_def)

lemma find_gap_insert:
  assumes "find_gap sz at i us = (j, p, b)" and "regions_ok t a us" and "a \<le> at" and "ALIGN dvd at"
    and "0 < sz" and "b \<or> p + sz \<le> t"
  shows "i \<le> j \<and> regions_ok t a (take (j - i) us @ (p, sz, rid, rb) # drop (j - i) us)"
  using assms
proof (induction us arbitrary: at i a)
  case (Cons u us)
  obtain off len h rb0 where u: "u = (off, len, h, rb0)" by (metis prod_cases4)
  show ?case
  proof (cases "at \<le> off \<and> sz \<le> off - at")
    case True
    then show ?thesis using Cons.prems u by auto
  next
    case False
    let ?at = "div_ceil (off + len) ALIGN * ALIGN"
    have g: "find_gap sz ?at (Suc i) us = (j, p, b)" using Cons.prems(1) False u by simp
    have ok: "regions_ok t (off + len) us" using Cons.prems(2) u by simp
    have r: "Suc i \<le> j" "regions_ok t (off + len) (take (j - Suc i) us @ (p, sz, rid, rb) # drop (j - Suc i) us)"
      using Cons.IH [OF g ok aligned_up(1,2) Cons.prems(5,6)] by auto
    then have "j - i = Suc (j - Suc i)" by arith
    then show ?thesis using Cons.prems(2) u r by simp
  qed
qed simp

lemma slots_take_ok:
  assumes "slots_take t us sz rid rb = Some (at, us')" and "regions_ok t 0 us"
  shows "regions_ok t 0 us'" "(at, max sz 1, rid, rb) \<in> set us'" "mset us' = add_mset (at, max sz 1, rid, rb) (mset us)"
proof -
  obtain j b where g: "find_gap (max sz 1) 0 0 us = (j, at, b)"
    and us': "us' = take j us @ (at, max sz 1, rid, rb) # drop j us" and room: "\<not> (\<not> b \<and> (t < at \<or> t - at < max sz 1))"
    using assms(1) by (simp add: slots_take_def Let_def split: prod.splits if_split_asm)
  have fits: "b \<or> at + max sz 1 \<le> t" using room by arith
  show "regions_ok t 0 us'" using find_gap_insert [OF g assms(2) _ _ _ fits] us' by simp
  show "(at, max sz 1, rid, rb) \<in> set us'" using us' by simp
  have "mset us = mset (take j us) + mset (drop j us)" by (metis append_take_drop_id mset_append)
  then show "mset us' = add_mset (at, max sz 1, rid, rb) (mset us)" using us' by simp
qed

lemma slots_free_sub: "regions_ok t a us \<Longrightarrow> regions_ok t a (snd (slots_free us rid))"
  by (induction us arbitrary: a) (auto intro: regions_ok_mono [OF _ trans_le_add1] split: prod.split)

lemma slots_free_eq:
  "distinct (map holder us) \<Longrightarrow> snd (slots_free us rid) = filter (\<lambda>u. holder u \<noteq> rid) us"
proof (induction us)
  case (Cons u us)
  obtain off len h rb where u: "u = (off, len, h, rb)" by (metis prod_cases4)
  show ?case
  proof (cases "h = rid")
    case True
    then have "filter (\<lambda>u. holder u \<noteq> rid) us = us" using Cons.prems u by (auto simp: filter_id_conv image_iff)
    then show ?thesis using True u by simp
  next
    case False
    then show ?thesis using Cons u by (auto split: prod.split)
  qed
qed simp

section \<open>The thread's invariant\<close>

definition in_flight :: "ring \<Rightarrow> nat set" where
  "in_flight st = fst ` set (live st) \<union> dom (abandoned st)"

text \<open>Every region is held by a request in flight (or by one of \<open>own\<close>, about to be), and ids are used once.\<close>
definition ring_inv :: "nat set \<Rightarrow> ring \<Rightarrow> bool" where
  "ring_inv own st = (regions_ok (total st) 0 (used st) \<and> length (arena st) = total st
     \<and> distinct (map holder (used st))
     \<and> holder ` set (used st) \<subseteq> in_flight st \<union> own
     \<and> in_flight st \<subseteq> {1 ..< next_id st} \<and> 0 < next_id st
     \<and> distinct (map fst (live st)) \<and> fst ` set (live st) \<inter> dom (abandoned st) = {})"

definition account :: "ring \<Rightarrow> nat multiset" where
  "account st = mset (map fst (answers st)) + mset (map (l_caller \<circ> snd) (live st)) + mset (map q_caller (parked st))"

lemma drop_settled_fields [simp]:
  "next_id (drop_settled s st) = next_id st" "live (drop_settled s st) = live st"
  "abandoned (drop_settled s st) = abandoned st" "orphans (drop_settled s st) = orphans st"
  "undo (drop_settled s st) = undo st" "arena (drop_settled s st) = arena st" "total (drop_settled s st) = total st"
  "used (drop_settled s st) = used st" "parked (drop_settled s st) = parked st" "sq (drop_settled s st) = sq st"
  "answers (drop_settled s st) = answers st"
  by (simp_all add: drop_settled_def split: option.split)

lemma send_reply_fields [simp]:
  "next_id (send_reply c a st) = next_id st" "live (send_reply c a st) = live st"
  "abandoned (send_reply c a st) = abandoned st" "orphans (send_reply c a st) = orphans st"
  "undo (send_reply c a st) = undo st" "arena (send_reply c a st) = arena st" "total (send_reply c a st) = total st"
  "used (send_reply c a st) = used st" "parked (send_reply c a st) = parked st" "sq (send_reply c a st) = sq st"
  "answers (send_reply c a st) = answers st @ [(c, a)]"
  by (simp_all add: send_reply_def)

lemma ring_inv_same:
  assumes "ring_inv own st" and "next_id st' = next_id st" and "live st' = live st" and "abandoned st' = abandoned st"
    and "length (arena st') = length (arena st)" and "total st' = total st" and "used st' = used st"
  shows "ring_inv own st'"
  using assms by (simp add: ring_inv_def in_flight_def)

lemma refuse_inv: "ring_inv own (refuse q e st) = ring_inv own st"
  by (auto simp: refuse_def ring_inv_def in_flight_def)

lemma refuse_account: "account (refuse q e st) = account st + {#q_caller q#}"
  by (simp add: refuse_def account_def)

lemma free_inv:
  assumes "ring_inv own st"
  shows "ring_inv (own - {rid}) (snd (free_region rid st)) \<or> rid \<in> in_flight st"
    and "ring_inv own (snd (free_region rid st))"
proof -
  have u: "used (snd (free_region rid st)) = filter (\<lambda>u. holder u \<noteq> rid) (used st)"
    using assms slots_free_eq by (simp add: free_region_def ring_inv_def case_prod_beta)
  have r: "regions_ok (total st) 0 (used (snd (free_region rid st)))"
    using assms slots_free_sub by (simp add: free_region_def ring_inv_def case_prod_beta)
  have rest: "live (snd (free_region rid st)) = live st" "abandoned (snd (free_region rid st)) = abandoned st"
    "total (snd (free_region rid st)) = total st" "arena (snd (free_region rid st)) = arena st"
    "next_id (snd (free_region rid st)) = next_id st"
    by (simp_all add: free_region_def split: prod.split)
  have d: "distinct (map holder (filter (\<lambda>u. holder u \<noteq> rid) (used st)))"
    using assms by (simp add: ring_inv_def distinct_map_filter)
  show "ring_inv own (snd (free_region rid st))"
    "ring_inv (own - {rid}) (snd (free_region rid st)) \<or> rid \<in> in_flight st"
    using assms r u d unfolding ring_inv_def in_flight_def rest by auto
qed

lemma update_fresh: "k \<notin> fst ` set al \<Longrightarrow> AList.update k v al = al @ [(k, v)]"
  by (induction al) auto

lemma free_region_fields [simp]:
  "next_id (snd (free_region rid st)) = next_id st" "live (snd (free_region rid st)) = live st"
  "abandoned (snd (free_region rid st)) = abandoned st" "arena (snd (free_region rid st)) = arena st"
  "total (snd (free_region rid st)) = total st" "parked (snd (free_region rid st)) = parked st"
  "answers (snd (free_region rid st)) = answers st" "undo (snd (free_region rid st)) = undo st"
  by (simp_all add: free_region_def case_prod_beta)

lemma next_not_in_flight: "ring_inv own st \<Longrightarrow> next_id st \<notin> in_flight st"
  by (auto simp: ring_inv_def)

lemma next_not_live: "ring_inv own st \<Longrightarrow> next_id st \<notin> fst ` set (live st)"
  using next_not_in_flight by (auto simp: in_flight_def)

lemma next_inv: "ring_inv own st \<Longrightarrow> ring_inv own (st\<lparr>next_id := Suc (next_id st)\<rparr>)"
  by (auto simp: ring_inv_def in_flight_def)

lemma ring_inv_empty: "ring_inv {} st \<Longrightarrow> ring_inv own st"
  by (auto simp: ring_inv_def)

lemma submit_inv:
  assumes "ring_inv {next_id st} st"
  shows "ring_inv {} (submit env q r st)"
proof (cases "full env (next_id st)")
  case True
  have "ring_inv {} (snd (free_region (next_id st) (st\<lparr>next_id := Suc (next_id st)\<rparr>)))"
    using free_inv(1) [OF next_inv [OF assms], of "next_id st"] next_not_in_flight [OF assms]
    by (auto simp: in_flight_def)
  then show ?thesis using True by (simp add: submit_def Let_def refuse_inv)
next
  case False
  then show ?thesis
    using assms next_not_live [OF assms] next_not_in_flight [OF assms]
    by (auto simp: submit_def Let_def ring_inv_def in_flight_def update_fresh)
qed

lemma submit_account:
  assumes "ring_inv own st"
  shows "account (submit env q r st) = account st + {#q_caller q#}" "parked (submit env q r st) = parked st"
  using next_not_live [OF assms]
  by (auto simp: submit_def Let_def refuse_account update_fresh) (auto simp: account_def refuse_def)

lemma take_inv:
  assumes "ring_inv {} st" and "slots_take (total st) (used st) (length bytes) (next_id st) rb = Some (at, us)"
  shows "ring_inv {next_id st} (write_arena at bytes (st\<lparr>used := us\<rparr>))"
proof -
  have reg: "regions_ok (total st) 0 (used st)" using assms(1) by (simp add: ring_inv_def)
  note facts = slots_take_ok [OF assms(2) reg]
  have "at + max (length bytes) 1 \<le> total st" using regions_ok_within [OF facts(1,2)] by simp
  then have "length (arena (write_arena at bytes (st\<lparr>used := us\<rparr>))) = total st"
    using assms(1) by (simp add: write_arena_def ring_inv_def)
  moreover have "holder ` set us = insert (next_id st) (holder ` set (used st))"
    using arg_cong [OF facts(3), of set_mset] by simp
  moreover have "mset (map holder us) = add_mset (next_id st) (mset (map holder (used st)))"
    using facts(3) by simp
  then have "distinct (map holder us) \<longleftrightarrow> distinct (next_id st # map holder (used st))"
    using mset_eq_imp_distinct_iff by (metis mset.simps(2))
  moreover have "next_id st \<notin> holder ` set (used st)"
    using assms(1) next_not_in_flight [OF assms(1)] by (auto simp: ring_inv_def)
  ultimately show ?thesis
    using assms(1) facts(1) by (auto simp: ring_inv_def in_flight_def write_arena_def)
qed

lemma write_arena_account [simp]:
  "account (write_arena at bytes (st\<lparr>used := us\<rparr>)) = account st"
  "parked (write_arena at bytes (st\<lparr>used := us\<rparr>)) = parked st"
  "next_id (write_arena at bytes (st\<lparr>used := us\<rparr>)) = next_id st"
  by (simp_all add: account_def write_arena_def)

lemma free_account [simp]: "account (snd (free_region rid st)) = account st"
  by (simp add: account_def)

lemma refuse_parked [simp]: "parked (refuse q e st) = parked st"
  by (simp add: refuse_def)

definition given_back :: "request option \<Rightarrow> nat multiset" where
  "given_back r = (case r of None \<Rightarrow> {#} | Some q \<Rightarrow> {#q_caller q#})"

lemma place_ok:
  assumes "ring_inv {} st" and "place env q st = (r, st')"
  shows "ring_inv {} st'" "account st' + given_back r = account st + {#q_caller q#}" "parked st' = parked st"
    "r = None \<or> r = Some q \<and> st' = st"
proof -
  have "ring_inv {} st' \<and> account st' + given_back r = account st + {#q_caller q#} \<and> parked st' = parked st
    \<and> (r = None \<or> r = Some q \<and> st' = st)"
  proof (cases "q_payload q")
    case None
    then show ?thesis
      using assms submit_inv [OF ring_inv_empty [OF assms(1)], of env q "s_arena (q_sqe q)"]
        submit_account [OF assms(1), of env q "s_arena (q_sqe q)"]
      by (auto simp: place_def given_back_def)
  next
    case (Some bytes)
    show ?thesis
    proof (cases "total st < length bytes")
      case True
      then show ?thesis using assms Some by (auto simp: place_def given_back_def refuse_inv refuse_account)
    next
      case fits: False
      show ?thesis
      proof (cases "slots_take (total st) (used st) (length bytes) (next_id st) (q_read_back q)")
        case None
        then show ?thesis using assms Some fits by (auto simp: place_def given_back_def)
      next
        case (Some taken)
        obtain at us where t: "taken = (at, us)" by force
        let ?st1 = "write_arena at bytes (st\<lparr>used := us\<rparr>)"
        have inv: "ring_inv {next_id st} ?st1" using take_inv [OF assms(1)] Some t by simp
        have free: "ring_inv {} (snd (free_region (next_id st) ?st1))"
          using free_inv(1) [OF inv, of "next_id st"] next_not_in_flight [OF inv] by simp
        have "place env q st = (if ref_ok env at (length bytes) then (None, submit env q (at, length bytes) ?st1)
            else (None, refuse q Full (snd (free_region (next_id st) ?st1))))"
          using \<open>q_payload q = Some bytes\<close> fits Some t by (simp add: place_def Let_def)
        then show ?thesis
          using assms(2) submit_inv [of ?st1] inv free submit_account [OF inv]
          by (auto simp: given_back_def refuse_inv refuse_account split: if_splits)
      qed
    qed
  qed
  then show "ring_inv {} st'" "account st' + given_back r = account st + {#q_caller q#}" "parked st' = parked st"
    "r = None \<or> r = Some q \<and> st' = st" by blast+
qed

lemma parked_inv [simp]: "ring_inv own (st\<lparr>parked := qs\<rparr>) = ring_inv own st"
  by (simp add: ring_inv_def in_flight_def)

lemma parked_account: "account (st\<lparr>parked := qs\<rparr>) + mset (map q_caller (parked st)) = account st + mset (map q_caller qs)"
  by (simp add: account_def)

lemma undo_inv [simp]: "ring_inv own (st\<lparr>undo := us\<rparr>) = ring_inv own st" "account (st\<lparr>undo := us\<rparr>) = account st"
  by (simp_all add: ring_inv_def in_flight_def account_def)

lemma push_undo_ok:
  "ring_inv {} st \<Longrightarrow> ring_inv {} (push_undo env us st) \<and> account (push_undo env us st) = account st"
proof (induction us arbitrary: st)
  case (Cons u us)
  obtain s settled where u: "u = (s, settled)" by force
  let ?rid = "next_id st"
  show ?case
  proof (cases "full env ?rid")
    case True
    then show ?thesis using Cons.prems u next_inv [OF Cons.prems] by (simp add: Let_def account_def)
  next
    case False
    let ?st = "st\<lparr>next_id := Suc ?rid, sq := sq st @ [s\<lparr>s_user := ?rid\<rparr>],
        abandoned := (abandoned st)(?rid \<mapsto> (s_op s, settled))\<rparr>"
    have "ring_inv {} ?st"
      using Cons.prems next_not_in_flight [OF Cons.prems]
      by (auto simp: ring_inv_def in_flight_def)
    moreover have "account ?st = account st" by (simp add: account_def)
    ultimately show ?thesis using Cons.IH [of ?st] u False by (simp add: Let_def)
  qed
qed simp

lemma park_back_ok:
  assumes "ring_inv {} st" and "place env q st = (r, st')"
  defines "st'' \<equiv> (case r of None \<Rightarrow> st' | Some q' \<Rightarrow> st'\<lparr>parked := parked st' @ [q']\<rparr>)"
  shows "ring_inv {} st'' \<and> account st'' = account st + {#q_caller q#}"
  using place_ok [OF assms(1,2)] parked_account [where st = st' and qs = "parked st' @ [q]"]
  by (cases r) (auto simp: st''_def given_back_def account_def)

lemma retry_parked_ok:
  "ring_inv {} st \<Longrightarrow> ring_inv {} (retry_parked env n st) \<and> account (retry_parked env n st) = account st"
proof (induction n arbitrary: st)
  case (Suc n)
  show ?case
  proof (cases "parked st")
    case (Cons q qs)
    obtain r st' where p: "place env q (st\<lparr>parked := qs\<rparr>) = (r, st')" by force
    let ?st'' = "case r of None \<Rightarrow> st' | Some q' \<Rightarrow> st'\<lparr>parked := parked st' @ [q']\<rparr>"
    have "retry_parked env (Suc n) st = retry_parked env n ?st''" using Cons p by (simp split: option.split)
    moreover have "account (st\<lparr>parked := qs\<rparr>) + {#q_caller q#} = account st"
      using parked_account [where st = st and qs = qs] Cons by simp
    ultimately show ?thesis
      using park_back_ok [OF _ p] Suc.IH [of ?st''] Suc.prems by simp
  qed (use Suc.prems in simp)
qed simp

lemma on_request_ok:
  assumes "ring_inv {} st"
  shows "ring_inv {} (on_request env now q st) \<and> account (on_request env now q st) = account st + {#q_caller q#}"
proof (cases "q_expires q \<le> now")
  case True
  then show ?thesis using assms by (simp add: on_request_def refuse_inv refuse_account)
next
  case False
  obtain r st' where p: "place env q st = (r, st')" by force
  show ?thesis using park_back_ok [OF assms p] False p by (simp add: on_request_def split: option.splits)
qed

lemma mset_delete:
  "\<lbrakk>distinct (map fst al); map_of al k = Some v\<rbrakk> \<Longrightarrow> mset al = add_mset (k, v) (mset (AList.delete k al))"
proof (induction al)
  case (Cons kv al)
  obtain k' v' where kv: "kv = (k', v')" by force
  show ?case
  proof (cases "k' = k")
    case True
    then have "AList.delete k al = al" using Cons.prems kv by (simp add: delete_id)
    then show ?thesis using True Cons.prems kv by simp
  next
    case False
    then show ?thesis using Cons kv by simp
  qed
qed simp

lemma delete_fst [simp]: "fst ` set (AList.delete k al) = fst ` set al - {k}"
  by (induction al) auto

lemma on_exit_ok: "ring_inv {} st \<Longrightarrow> ring_inv {} (on_exit c st) \<and> account (on_exit c st) = account st"
  by (auto simp: on_exit_def Let_def ring_inv_def in_flight_def account_def case_prod_beta)

text \<open>A region whose request leaves the flight is freed with it.\<close>
lemma on_answer_ok:
  assumes "ring_inv {} st0"
  shows "ring_inv {} (on_answer c st0) \<and> account (on_answer c st0) = account st0"
proof -
  define rid where "rid = c_user c"
  obtain freed st where f: "free_region rid st0 = (freed, st)" by force
  have st: "st = snd (free_region rid st0)" using f by simp
  have inv: "ring_inv {} st" using free_inv(2) [OF assms, of rid] st by simp
  have "rid \<notin> holder ` set (used st)"
    using assms slots_free_eq [of "used st0" rid] st by (auto simp: free_region_def case_prod_beta ring_inv_def)
  moreover have acc: "account st = account st0" using st by simp
  ultimately have free: "holder ` set (used st) \<subseteq> in_flight st - {rid}" using inv by (auto simp: ring_inv_def)
  show ?thesis
  proof (cases "map_of (live st) rid")
    case (Some l)
    have d: "distinct (map fst (live st))" using inv by (simp add: ring_inv_def)
    have "holder ` set (used st) \<subseteq> (fst ` set (live st) - {rid}) \<union> dom (abandoned st)"
      using free by (auto simp: in_flight_def)
    moreover have "(fst ` set (live st) - {rid}) \<union> dom (abandoned st) \<subseteq> {1 ..< next_id st}"
      "(fst ` set (live st) - {rid}) \<inter> dom (abandoned st) = {}"
      using inv unfolding ring_inv_def in_flight_def by blast+
    ultimately have "ring_inv {} (st\<lparr>live := AList.delete rid (live st)\<rparr>)"
      using inv d by (simp add: ring_inv_def in_flight_def distinct_delete)
    moreover have "mset (map (l_caller \<circ> snd) (live st)) = add_mset (l_caller l) (mset (map (l_caller \<circ> snd) (AList.delete rid (live st))))"
      using arg_cong [OF mset_delete [OF d Some], of "image_mset (l_caller \<circ> snd)"] by simp
    ultimately show ?thesis
      using f Some acc unfolding rid_def
      by (auto simp: on_answer_def complete_def Let_def account_def intro: ring_inv_same)
  next
    case None
    have live: "rid \<notin> fst ` set (live st)" using None by (simp add: map_of_eq_None_iff)
    show ?thesis
    proof (cases "abandoned st rid")
      case None
      then show ?thesis using f \<open>map_of (live st) rid = None\<close> acc inv unfolding rid_def
        by (simp add: on_answer_def complete_def Let_def)
    next
      case (Some os)
      obtain opc settled where os: "os = (opc, settled)" by force
      have "ring_inv {} (st\<lparr>abandoned := (abandoned st)(rid := None)\<rparr>)"
        using inv free live by (auto simp: ring_inv_def in_flight_def)
      then show ?thesis
        using f Some os \<open>map_of (live st) rid = None\<close> acc unfolding rid_def
        by (auto simp: on_answer_def complete_def Let_def account_def ring_inv_def in_flight_def split: option.split)
    qed
  qed
qed

lemma on_cqe_ok: "ring_inv {} st \<Longrightarrow> ring_inv {} (on_cqe c st) \<and> account (on_cqe c st) = account st"
  using on_exit_ok on_answer_ok by (simp add: on_cqe_def)

definition give_up :: "nat \<Rightarrow> live_request \<Rightarrow> ring \<Rightarrow> ring" where
  "give_up rid l st =
     (send_reply (l_caller l) (RErr Timeout) (st\<lparr>live := AList.delete rid (live st)\<rparr>))
       \<lparr>abandoned := (abandoned st)(rid \<mapsto> (l_op l, l_settled l))\<rparr>"

lemma expire_each_step: "expire_each ((rid, l) # ls) st = expire_each ls (give_up rid l st)"
  by (simp add: give_up_def Let_def)

lemma give_up_ok:
  assumes "ring_inv {} st" and "map_of (live st) rid = Some l"
  shows "ring_inv {} (give_up rid l st)" "account (give_up rid l st) = account st"
proof -
  have d: "distinct (map fst (live st))" using assms(1) by (simp add: ring_inv_def)
  have m: "rid \<in> fst ` set (live st)" using assms(2) by (metis in_keys_iff option.distinct(1))
  then have "fst ` set (live st) - {rid} \<union> insert rid (dom (abandoned st)) = fst ` set (live st) \<union> dom (abandoned st)"
    by auto
  moreover have "(fst ` set (live st) - {rid}) \<inter> insert rid (dom (abandoned st)) = {}"
    using assms(1) by (auto simp: ring_inv_def)
  ultimately show "ring_inv {} (give_up rid l st)"
    using assms(1) d by (simp add: give_up_def ring_inv_def in_flight_def distinct_delete)
  show "account (give_up rid l st) = account st"
    using arg_cong [OF mset_delete [OF d assms(2)], of "image_mset (l_caller \<circ> snd)"]
    by (simp add: give_up_def account_def)
qed

lemma expire_each_ok:
  "\<lbrakk>ring_inv {} st; distinct (map fst ls); \<forall>(rid, l) \<in> set ls. map_of (live st) rid = Some l\<rbrakk> \<Longrightarrow>
     ring_inv {} (expire_each ls st) \<and> account (expire_each ls st) = account st
     \<and> set (live (expire_each ls st)) = {(r, l) \<in> set (live st). r \<notin> fst ` set ls}"
proof (induction ls arbitrary: st)
  case (Cons x ls)
  obtain rid l where x: "x = (rid, l)" by force
  have m: "map_of (live st) rid = Some l" using Cons.prems(3) x by auto
  note g = give_up_ok [OF Cons.prems(1) m]
  have l: "live (give_up rid l st) = AList.delete rid (live st)" by (simp add: give_up_def)
  have del: "set (AList.delete rid al) = {(r, l) \<in> set al. r \<noteq> rid}" for al :: "(nat \<times> live_request) list"
    by (induction al) auto
  have rest: "\<forall>(r, l') \<in> set ls. map_of (live (give_up rid l st)) r = Some l'"
  proof clarify
    fix r l' assume r: "(r, l') \<in> set ls"
    then have "r \<noteq> rid" using Cons.prems(2) x by force
    then show "map_of (live (give_up rid l st)) r = Some l'"
      using Cons.prems(3) r l x by (auto simp: delete_conv)
  qed
  have IH: "ring_inv {} (expire_each ls (give_up rid l st))
      \<and> account (expire_each ls (give_up rid l st)) = account (give_up rid l st)
      \<and> set (live (expire_each ls (give_up rid l st))) = {(r, l') \<in> set (live (give_up rid l st)). r \<notin> fst ` set ls}"
    using Cons.IH [OF g(1) _ rest] Cons.prems(2) by simp
  then show ?case unfolding x expire_each_step using g(2) by (auto simp: l del)
qed auto

lemma distinct_filter_fst: "distinct (map fst xs) \<Longrightarrow> distinct (map fst (filter P xs))"
  by (rule distinct_map_filter)

lemma expire_ok:
  assumes "ring_inv {} st"
  shows "ring_inv {} (expire now st)" "account (expire now st) = account st"
    "\<forall>(rid, l) \<in> set (live (expire now st)). now < l_expires l"
proof -
  let ?ls = "filter (\<lambda>(_, l). l_expires l \<le> now) (live st)"
  have d: "distinct (map fst (live st))" using assms by (simp add: ring_inv_def)
  have "\<forall>(rid, l) \<in> set ?ls. map_of (live st) rid = Some l" using d by auto
  note e = expire_each_ok [OF assms distinct_filter_fst [OF d] this]
  have x: "expire now st = expire_each ?ls st" by (simp add: expire_def)
  show "ring_inv {} (expire now st)" "account (expire now st) = account st" unfolding x using e by blast+
  show "\<forall>(rid, l) \<in> set (live (expire now st)). now < l_expires l"
  proof clarify
    fix rid l assume "(rid, l) \<in> set (live (expire now st))"
    then have "(rid, l) \<in> set (live st)" "rid \<notin> fst ` set ?ls" unfolding x using e by auto
    then have "(rid, l) \<notin> set ?ls" by force
    with \<open>(rid, l) \<in> set (live st)\<close> show "now < l_expires l" by simp
  qed
qed

lemma mset_split: "mset (map f xs) = mset (map f (filter P xs)) + mset (map f (filter (\<lambda>x. \<not> P x) xs))"
  by (induction xs) auto

lemma refuse_each_ok:
  "ring_inv {} st \<Longrightarrow> ring_inv {} (refuse_each qs st)
     \<and> account (refuse_each qs st) = account st + mset (map q_caller qs)
     \<and> live (refuse_each qs st) = live st \<and> parked (refuse_each qs st) = parked st"
proof (induction qs arbitrary: st)
  case (Cons q qs)
  then show ?case using Cons.IH [of "refuse q Timeout st"] by (simp add: refuse_inv refuse_account) (simp add: refuse_def)
qed simp

lemma expire_parked_ok:
  assumes "ring_inv {} st"
  shows "ring_inv {} (expire_parked now st)" "account (expire_parked now st) = account st"
    "live (expire_parked now st) = live st" "\<forall>q \<in> set (parked (expire_parked now st)). now < q_expires q"
proof -
  let ?late = "filter (\<lambda>q. q_expires q \<le> now) (parked st)" and ?rest = "filter (\<lambda>q. \<not> q_expires q \<le> now) (parked st)"
  have r: "ring_inv {} (st\<lparr>parked := ?rest\<rparr>)" using assms by simp
  note e = refuse_each_ok [OF r, of ?late]
  show "ring_inv {} (expire_parked now st)" "live (expire_parked now st) = live st"
    "\<forall>q \<in> set (parked (expire_parked now st)). now < q_expires q"
    using e by (auto simp: expire_parked_def)
  have part: "mset (map q_caller (parked st)) = mset (map q_caller ?late) + mset (map q_caller ?rest)"
    by (rule mset_split)
  have a: "account (expire_parked now st) = account (st\<lparr>parked := ?rest\<rparr>) + mset (map q_caller ?late)"
    using e unfolding expire_parked_def by blast
  have "account (expire_parked now st) + mset (map q_caller ?rest)
      = account (st\<lparr>parked := ?rest\<rparr>) + mset (map q_caller (parked st))"
    unfolding a part by (simp only: add.assoc)
  also have "\<dots> = account st + mset (map q_caller ?rest)" by (rule parked_account)
  finally show "account (expire_parked now st) = account st" by (rule add_right_imp_eq)
qed

section \<open>Passes\<close>

lemma arena_inv: "ring_inv own st \<Longrightarrow> length mem = total st \<Longrightarrow> ring_inv own (st\<lparr>arena := mem\<rparr>)"
  by (simp add: ring_inv_def in_flight_def)

lemma on_cqe_total [simp]: "total (on_cqe c st) = total st"
  by (simp add: on_cqe_def on_exit_def on_answer_def complete_def Let_def case_prod_beta free_region_def
      split: option.split prod.split)

lemma cqes_ok:
  "\<lbrakk>ring_inv {} st; \<forall>(mem, c) \<in> set cqes. length mem = total st\<rbrakk> \<Longrightarrow>
     ring_inv {} (fold (\<lambda>(mem, c) s. on_cqe c (s\<lparr>arena := mem\<rparr>)) cqes st)
     \<and> account (fold (\<lambda>(mem, c) s. on_cqe c (s\<lparr>arena := mem\<rparr>)) cqes st) = account st"
proof (induction cqes arbitrary: st)
  case (Cons x cqes)
  obtain mem c where x: "x = (mem, c)" by force
  have i: "ring_inv {} (st\<lparr>arena := mem\<rparr>)" using Cons.prems x by (auto intro: arena_inv)
  moreover have "account (st\<lparr>arena := mem\<rparr>) = account st" by (simp add: account_def)
  ultimately show ?case
    using Cons.IH [of "on_cqe c (st\<lparr>arena := mem\<rparr>)"] on_cqe_ok [OF i, of c] Cons.prems x by simp
qed simp

type_synonym pass = "ring_env \<times> (instant \<times> request) option \<times> (nat list \<times> cqe) list \<times> instant"

definition run_pass :: "pass \<Rightarrow> ring \<Rightarrow> ring" where
  "run_pass p st = (case p of (env, req, cqes, now) \<Rightarrow> ring_pass env req cqes now st)"

definition received_in :: "pass \<Rightarrow> nat multiset" where
  "received_in p = (case p of (env, req, cqes, now) \<Rightarrow> given_back (map_option snd req))"

lemma drop_settled_total [simp]: "total (refuse q e st) = total st"
  by (simp add: refuse_def)

lemma place_total: "total (snd (place env q st)) = total st"
  by (simp add: place_def submit_def write_arena_def Let_def split: option.split prod.split)

lemma push_undo_total: "total (push_undo env us st) = total st"
  by (induction us arbitrary: st) (auto simp: Let_def)

lemma retry_parked_total: "total (retry_parked env n st) = total st"
proof (induction n arbitrary: st)
  case (Suc n)
  show ?case
  proof (cases "parked st")
    case (Cons q qs)
    obtain r st' where "place env q (st\<lparr>parked := qs\<rparr>) = (r, st')" by force
    then show ?thesis
      using Suc.IH place_total [of env q "st\<lparr>parked := qs\<rparr>"] Cons by (cases r) simp_all
  qed simp
qed simp

lemma on_request_total: "total (on_request env now q st) = total st"
proof -
  obtain r st' where "place env q st = (r, st')" by force
  then show ?thesis using place_total [of env q st] by (cases r) (simp_all add: on_request_def)
qed

lemma received_in_simp: "received_in (env, req, cqes, now) = given_back (map_option snd req)"
  by (simp add: received_in_def)

lemma run_pass_simp: "run_pass (env, req, cqes, now) st = ring_pass env req cqes now st"
  by (simp add: run_pass_def)

lemma cqes_total: "total (fold (\<lambda>(mem, c) s. on_cqe c (s\<lparr>arena := mem\<rparr>)) cqes st) = total st"
  by (induction cqes arbitrary: st) auto

lemma expire_total: "total (expire now st) = total st"
proof -
  have "total (expire_each ls s) = total s" for ls s
    by (induction ls arbitrary: s) (auto simp: expire_each_step give_up_def simp del: expire_each.simps(2))
  then show ?thesis by (simp add: expire_def)
qed

lemma expire_parked_total: "total (expire_parked now st) = total st"
proof -
  have "total (refuse_each qs s) = total s" for qs s by (induction qs arbitrary: s) auto
  then show ?thesis by (simp add: expire_parked_def)
qed

lemma pass_total: "total (ring_pass env req cqes now st) = total st"
  by (simp add: ring_pass_def Let_def expire_total expire_parked_total cqes_total retry_parked_total
      push_undo_total on_request_total split: option.split)

lemma pass_ok:
  assumes "ring_inv {} st" and "\<forall>(mem, c) \<in> set cqes. length mem = total st"
  shows "ring_inv {} (ring_pass env req cqes now st)"
    "account (ring_pass env req cqes now st) = account st + given_back (map_option snd req)"
    "\<forall>(rid, l) \<in> set (live (ring_pass env req cqes now st)). now < l_expires l"
    "\<forall>q \<in> set (parked (ring_pass env req cqes now st)). now < q_expires q"
proof -
  define st1 where "st1 = push_undo env (undo st) st"
  define st2 where "st2 = retry_parked env (length (parked st1)) st1"
  define st3 where "st3 = (case req of None \<Rightarrow> st2 | Some (t, q) \<Rightarrow> on_request env t q st2)"
  define st4 where "st4 = fold (\<lambda>(mem, c) s. on_cqe c (s\<lparr>arena := mem\<rparr>)) cqes st3"
  have p: "ring_pass env req cqes now st = expire_parked now (expire now st4)"
    unfolding ring_pass_def Let_def st4_def st3_def st2_def st1_def by (rule refl)
  have 1: "ring_inv {} st1" "account st1 = account st" using push_undo_ok [OF assms(1)] by (simp_all add: st1_def)
  have 2: "ring_inv {} st2" "account st2 = account st" using retry_parked_ok [OF 1(1)] 1(2) by (simp_all add: st2_def)
  have 3: "ring_inv {} st3" "account st3 = account st + given_back (map_option snd req)"
    using on_request_ok [OF 2(1)] 2 by (auto simp: st3_def given_back_def split: option.split)
  have "total st3 = total st"
    by (simp add: st3_def st2_def st1_def retry_parked_total push_undo_total on_request_total split: option.split)
  then have 4: "ring_inv {} st4" "account st4 = account st3"
    using cqes_ok [OF 3(1), of cqes] assms(2) by (simp_all add: st4_def)
  note e = expire_ok [OF 4(1), of now]
  note f = expire_parked_ok [OF e(1), of now]
  show "ring_inv {} (ring_pass env req cqes now st)"
    "account (ring_pass env req cqes now st) = account st + given_back (map_option snd req)"
    "\<forall>(rid, l) \<in> set (live (ring_pass env req cqes now st)). now < l_expires l"
    "\<forall>q \<in> set (parked (ring_pass env req cqes now st)). now < q_expires q"
    unfolding p using f e 4 3 by simp_all
qed

text \<open>C9. Every request the thread takes is answered, once: over any sequence of passes the replies sent,
  the requests in flight and those parked are together exactly the requests received, and
  after each pass nothing that is still waiting is past its deadline.\<close>
theorem every_request_answered:
  assumes "\<forall>(env, req, cqes, now) \<in> set passes. \<forall>(mem', c) \<in> set cqes. length mem' = length mem"
    and "st = fold run_pass passes (ring_new mem)"
  shows "mset (map fst (answers st)) + mset (map (l_caller \<circ> snd) (live st)) + mset (map q_caller (parked st))
      = sum_list (map received_in passes)
    \<and> (passes \<noteq> [] \<longrightarrow> (\<forall>l \<in> snd ` set (live st). snd (snd (snd (last passes))) < l_expires l)
        \<and> (\<forall>q \<in> set (parked st). snd (snd (snd (last passes))) < q_expires q))"
proof -
  have "ring_inv {} st \<and> total st = length mem \<and> account st = sum_list (map received_in passes)
    \<and> (passes \<noteq> [] \<longrightarrow> (\<forall>l \<in> snd ` set (live st). snd (snd (snd (last passes))) < l_expires l)
        \<and> (\<forall>q \<in> set (parked st). snd (snd (snd (last passes))) < q_expires q))"
    using assms
  proof (induction passes arbitrary: st rule: rev_induct)
    case Nil
    then show ?case by (simp add: ring_new_def ring_inv_def in_flight_def account_def)
  next
    case (snoc p passes)
    obtain env req cqes now where p: "p = (env, req, cqes, now)" by (metis prod_cases4)
    define s where "s = fold run_pass passes (ring_new mem)"
    have IH: "ring_inv {} s" "total s = length mem" "account s = sum_list (map received_in passes)"
      using snoc.IH [OF _ s_def] snoc.prems(1) by auto
    have st: "st = ring_pass env req cqes now s" using snoc.prems(2) by (simp add: s_def run_pass_simp p)
    have "\<forall>(mem, c) \<in> set cqes. length mem = total s" using snoc.prems(1) p IH(2) by auto
    note ok = pass_ok [OF IH(1) this, of env req now]
    have "total st = length mem" using IH(2) pass_total unfolding st by simp
    then show ?case using ok IH(3) unfolding st p by (auto simp: received_in_simp)
  qed
  then show ?thesis by (simp add: account_def)
qed

definition ex_env :: ring_env where
  "ex_env = \<lparr>full = (\<lambda>_. False), ref_ok = (\<lambda>_ _. True)\<rparr>"

text \<open>A request with two bytes of payload, whose caller 7 waits until 30 and whose settled signal is 3.\<close>
definition ex_request :: "opcode \<Rightarrow> request" where
  "ex_request opc = \<lparr>q_sqe = sqe_of opc 0, q_payload = Some [1, 2], q_read_back = False, q_caller = 7,
     q_expires = 30, q_settled = Some 3\<rparr>"

text \<open>It is taken, times out, and completes late.\<close>
definition late_spawn :: "pass list" where
  "late_spawn = [(ex_env, Some (5, ex_request Spawn), [], 6), (ex_env, None, [], 31),
     (ex_env, None, [(replicate 16 0, \<lparr>c_user = 1, c_err = None, c_handle = 9, c_aux = 0, c_arena = (0, 0)\<rparr>)], 40)]"

lemma every_request_answered_witness:
  "map fst (answers (fold run_pass late_spawn (ring_new (replicate 16 0)))) = [7]"
proof -
  let ?st = "fold run_pass late_spawn (ring_new (replicate 16 0))"
  have c: "live ?st = []" "parked ?st = []" by code_simp+
  have "\<forall>(env, req, cqes, now) \<in> set late_spawn. \<forall>(mem', c) \<in> set cqes. length mem' = length (replicate 16 (0 :: nat))"
    by (simp add: late_spawn_def)
  from every_request_answered [OF this refl] c
  have "mset (map fst (answers ?st)) = {#7#}"
    by (simp add: late_spawn_def received_in_def given_back_def ex_request_def)
  then show ?thesis by (metis mset_single_iff_right mset_eq_setD mset.simps mset_single_iff)
qed

section \<open>Payloads keep apart\<close>






lemma submit_arena [simp]: "arena (submit env q r st) = arena st" "arena (refuse q e st) = arena st"
  by (simp_all add: submit_def refuse_def Let_def)





section \<open>What a late answer made is undone\<close>







section \<open>An exit reaches its waiter\<close>

datatype exit_event = Exits nat nat | Waits nat nat

definition on_exit_event :: "exit_event \<Rightarrow> exit_waiters \<Rightarrow> exit_waiters" where
  "on_exit_event e w = (case e of Exits h s \<Rightarrow> snd (exited h s w) | Waits h c \<Rightarrow> wait_exit h c w)"

fun about :: "exit_event \<Rightarrow> nat" where
  "about (Exits h _) = h"
| "about (Waits h _) = h"

fun is_exit :: "exit_event \<Rightarrow> bool" where
  "is_exit (Exits _ _) = True"
| "is_exit (Waits _ _) = False"

lemma take_first_none: "take_first h kvs = None \<longleftrightarrow> h \<notin> fst ` set kvs"
  by (induction h kvs rule: take_first.induct) auto

lemma take_first_other:
  "\<lbrakk>take_first k (pre @ (h, s) # post) = Some (v, r); k \<noteq> h\<rbrakk> \<Longrightarrow>
     \<exists>pre' post'. r = pre' @ (h, s) # post' \<and> set pre' \<subseteq> set pre \<and> length post' \<le> length post"
proof (induction pre arbitrary: r)
  case Nil
  then obtain r' where r: "take_first k post = Some (v, r')" "r = (h, s) # r'" by auto
  have "length r' \<le> length post" using r(1) by (induction post arbitrary: r') (auto split: if_splits)
  then show ?case using r(2) by (intro exI [of _ "[]"] exI [of _ r']) auto
next
  case (Cons x pre)
  obtain a b where x: "x = (a, b)" by force
  show ?case
  proof (cases "a = k")
    case True
    then show ?thesis using Cons.prems x by auto
  next
    case False
    then obtain r' where r': "take_first k (pre @ (h, s) # post) = Some (v, r')" "r = x # r'"
      using Cons.prems x by auto
    then obtain pre' post' where "r' = pre' @ (h, s) # post'" "set pre' \<subseteq> set pre" "length post' \<le> length post"
      using Cons.IH Cons.prems(2) by blast
    then show ?thesis using r'(2) by (intro exI [of _ "x # pre'"] exI [of _ post']) auto
  qed
qed

lemma take_first_found: "h \<notin> fst ` set pre \<Longrightarrow> take_first h (pre @ (h, s) # post) = Some (s, pre @ post)"
  by (induction pre) auto

lemma length_recent:
  "length (recent w) \<le> RECENT_EXITS \<Longrightarrow> length (recent (on_exit_event e w)) \<le> RECENT_EXITS"
proof -
  have "take_first h kvs = Some (v, r) \<Longrightarrow> length r \<le> length kvs" for h kvs v r
    by (induction kvs arbitrary: r) (auto split: if_splits)
  then show "length (recent w) \<le> RECENT_EXITS \<Longrightarrow> length (recent (on_exit_event e w)) \<le> RECENT_EXITS"
    by (auto simp: on_exit_event_def exited_def wait_exit_def RECENT_EXITS_def split: exit_event.split option.split)
       (meson le_trans)
qed

lemma kept_wanted:
  "\<lbrakk>wanted w h = Some c; \<forall>e \<in> set es. about e \<noteq> h\<rbrakk> \<Longrightarrow> wanted (fold on_exit_event es w) h = Some c"
proof (induction es arbitrary: w)
  case (Cons e es)
  have "wanted (on_exit_event e w) h = Some c"
    using Cons.prems by (cases e) (auto simp: on_exit_event_def exited_def wait_exit_def split: option.split)
  then show ?case using Cons by simp
qed simp

lemma kept_recent_step:
  assumes "recent w = pre @ (h, s) # post" and "h \<notin> fst ` set pre" and "about e \<noteq> h"
    and "length (recent w) \<le> RECENT_EXITS" and "length post + 1 < RECENT_EXITS \<or> \<not> is_exit e"
  obtains pre' post' where "recent (on_exit_event e w) = pre' @ (h, s) # post'" "h \<notin> fst ` set pre'"
    "length post' \<le> length post + (if is_exit e then 1 else 0)"
proof (cases e)
  case (Exits k v)
  show thesis
  proof (cases "wanted w k")
    case None
    have "length (recent w) = RECENT_EXITS \<Longrightarrow> pre \<noteq> []" using assms(1,5) Exits by auto
    then have "recent (on_exit_event e w) = (if length (recent w) = RECENT_EXITS then tl pre else pre) @ (h, s) # (post @ [(k, v)])"
      using Exits None assms(1) by (auto simp: on_exit_event_def exited_def)
    moreover have "h \<notin> fst ` set (if length (recent w) = RECENT_EXITS then tl pre else pre)"
      using assms(2) by (cases pre) auto
    ultimately show thesis using that Exits by fastforce
  next
    case (Some c)
    then show thesis using that assms(1,2) Exits by (auto simp: on_exit_event_def exited_def)
  qed
next
  case (Waits k c)
  show thesis
  proof (cases "take_first k (recent w)")
    case None
    then show thesis using that assms(1,2) Waits by (auto simp: on_exit_event_def wait_exit_def)
  next
    case (Some vr)
    obtain v r where vr: "vr = (v, r)" by force
    obtain pre' post' where "r = pre' @ (h, s) # post'" "set pre' \<subseteq> set pre" "length post' \<le> length post"
      using take_first_other [of k pre h s post v r] Some vr assms(1,3) Waits by auto
    moreover from this have "h \<notin> fst ` set pre'" using assms(2) by blast
    ultimately show thesis using that [of pre' post'] Some vr Waits by (simp add: on_exit_event_def wait_exit_def)
  qed
qed

lemma kept_recent:
  "\<lbrakk>recent w = pre @ (h, s) # post; h \<notin> fst ` set pre; \<forall>e \<in> set es. about e \<noteq> h;
    length (recent w) \<le> RECENT_EXITS; length post + length (filter is_exit es) < RECENT_EXITS\<rbrakk> \<Longrightarrow>
   \<exists>pre' post'. recent (fold on_exit_event es w) = pre' @ (h, s) # post' \<and> h \<notin> fst ` set pre'"
proof (induction es arbitrary: w pre post)
  case (Cons e es)
  obtain pre' post' where "recent (on_exit_event e w) = pre' @ (h, s) # post'" "h \<notin> fst ` set pre'"
    "length post' \<le> length post + (if is_exit e then 1 else 0)"
    using kept_recent_step [OF Cons.prems(1,2), of e] Cons.prems(3-5) by (auto split: if_splits)
  moreover from this have "length post' + length (filter is_exit es) < RECENT_EXITS"
    using Cons.prems(5) by (cases "is_exit e") simp_all
  moreover have "length (recent (on_exit_event e w)) \<le> RECENT_EXITS" by (rule length_recent [OF Cons.prems(4)])
  ultimately show ?case using Cons.IH [of "on_exit_event e w" pre' post'] Cons.prems(3) by simp
qed auto

text \<open>An exit reaches the caller that waits for it, in either order: a caller that registered first is
  told when the workload exits; one that registers after the exit is told at once, unless 256
  other exits were left unclaimed in between.\<close>
theorem exit_reaches_waiter:
  assumes "\<forall>e \<in> set es. about e \<noteq> h" and "wanted w h = None" and "h \<notin> fst ` set (recent w)"
    and "length (recent w) \<le> RECENT_EXITS"
  shows "(c, s) \<in> set (woken (fold on_exit_event (Waits h c # es @ [Exits h s]) w))
    \<and> (length (filter is_exit es) < RECENT_EXITS \<longrightarrow>
       (c, s) \<in> set (woken (fold on_exit_event (Exits h s # es @ [Waits h c]) w)))"
proof (intro conjI impI)
  have "take_first h (recent w) = None" using assms(3) by (simp add: take_first_none)
  then have "wanted (on_exit_event (Waits h c) w) h = Some c" by (simp add: on_exit_event_def wait_exit_def)
  from kept_wanted [OF this assms(1)]
  show "(c, s) \<in> set (woken (fold on_exit_event (Waits h c # es @ [Exits h s]) w))"
    by (simp add: on_exit_event_def [of "Exits h s"] exited_def)
next
  assume few: "length (filter is_exit es) < RECENT_EXITS"
  let ?w = "on_exit_event (Exits h s) w"
  let ?pre = "if length (recent w) = RECENT_EXITS then tl (recent w) else recent w"
  have r: "recent ?w = ?pre @ (h, s) # []" using assms(2) by (simp add: on_exit_event_def exited_def)
  have pre: "h \<notin> fst ` set ?pre" using assms(3) by (cases "recent w") auto
  obtain pre' post' where "recent (fold on_exit_event es ?w) = pre' @ (h, s) # post'" "h \<notin> fst ` set pre'"
    using kept_recent [OF r pre assms(1) length_recent [OF assms(4)]] few by auto
  then have "take_first h (recent (fold on_exit_event es ?w)) = Some (s, pre' @ post')"
    by (simp add: take_first_found)
  then show "(c, s) \<in> set (woken (fold on_exit_event (Exits h s # es @ [Waits h c]) w))"
    by (simp add: on_exit_event_def [of "Waits h c"] wait_exit_def)
qed

lemma exit_reaches_waiter_witness:
  "(4, 9) \<in> set (woken (fold on_exit_event [Exits 1 9, Exits 2 0, Waits 1 4] \<lparr>wanted = (\<lambda>_. None), recent = [], woken = []\<rparr>))"
  using exit_reaches_waiter [of "[Exits 2 0]" 1 "\<lparr>wanted = (\<lambda>_. None), recent = [], woken = []\<rparr>" 4 9]
  by (simp add: RECENT_EXITS_def)

end
