(* ===== verification/ServiceMap.thy ===== *)
theory ServiceMap
  imports Json "HOL-Library.List_Lexorder" "HOL-Library.Char_ord" "HOL-Library.Product_Lexorder"
    "HOL-Library.Multiset"
begin

text \<open>The service map of kube-proxy (\<open>src/pkg/proxy/src/service_map.rs\<close>, and the listing pass
  of \<open>endpoints.rs\<close>): which Service port has which backends, as the two lists of the API server
  say. The \<open>DashMap\<close> is an association list whose order is the order an iteration happens to
  have; ports are 16 bits wide, so a larger number in a manifest wraps as the code's cast does.\<close>

section \<open>Data\<close>

record service_key =
  sk_namespace :: string
  sk_name :: string
  sk_cluster_ip :: string
  sk_port :: "16 word"
  sk_protocol :: string
  sk_node_port :: "16 word option"

record endpoint =
  ep_ip :: string
  ep_port :: "16 word"
  ep_ready :: bool

record service_info =
  si_key :: service_key
  si_port_name :: string
  si_endpoints :: "endpoint list"
  si_session_affinity :: bool

type_synonym service_map = "(string \<times> service_info) list"

definition show_port :: "16 word \<Rightarrow> string" where
  "show_port p = show_nat (unat p)"

definition map_key :: "string \<Rightarrow> string \<Rightarrow> 16 word \<Rightarrow> string \<Rightarrow> string" where
  "map_key ns name port proto = ns @ ''/'' @ name @ '':'' @ show_port port @ ''/'' @ proto"

abbreviation info_key :: "service_info \<Rightarrow> string" where
  "info_key s \<equiv> map_key (sk_namespace (si_key s)) (sk_name (si_key s)) (sk_port (si_key s))
     (sk_protocol (si_key s))"

section \<open>Services\<close>

text \<open>What one element of \<open>spec.ports\<close> of a Service says, its backends aside.\<close>
definition port_info :: "json \<Rightarrow> json \<Rightarrow> service_info" where
  "port_info svc port_spec =
     (let svc_type = str_or ''ClusterIP'' (jpath svc [''spec'', ''type'']) in
      \<lparr> si_key =
          \<lparr> sk_namespace = str_or ''default'' (jpath svc [''metadata'', ''namespace'']),
            sk_name = str_or '''' (jpath svc [''metadata'', ''name'']),
            sk_cluster_ip = str_or '''' (jpath svc [''spec'', ''clusterIP'']),
            sk_port = (case as_u64 (jget port_spec ''port'') of Some p \<Rightarrow> of_nat p | None \<Rightarrow> 0),
            sk_protocol = str_or ''TCP'' (jget port_spec ''protocol''),
            sk_node_port =
              (if svc_type = ''NodePort'' \<or> svc_type = ''LoadBalancer''
               then map_option of_nat (as_u64 (jget port_spec ''nodePort'')) else None) \<rparr>,
        si_port_name = str_or '''' (jget port_spec ''name''),
        si_endpoints = [],
        si_session_affinity = (as_str (jpath svc [''spec'', ''sessionAffinity'']) = Some ''ClientIP'') \<rparr>)"

definition visit_port :: "json \<Rightarrow> string list \<times> service_map \<Rightarrow> json \<Rightarrow> string list \<times> service_map" where
  "visit_port svc acc port_spec =
     (case acc of (seen, m) \<Rightarrow>
        let info = port_info svc port_spec;
            k = info_key info;
            existing = (case map_of m k of Some s \<Rightarrow> si_endpoints s | None \<Rightarrow> [])
        in (k # seen, AList.update k (info\<lparr>si_endpoints := existing\<rparr>) m))"

definition headless :: "string \<Rightarrow> bool" where
  "headless ip = (ip = [] \<or> ip = ''None'')"

definition visit_service :: "string list \<times> service_map \<Rightarrow> json \<Rightarrow> string list \<times> service_map" where
  "visit_service acc svc =
     (if headless (str_or '''' (jpath svc [''spec'', ''clusterIP''])) then acc
      else foldl (visit_port svc) acc (elems (jpath svc [''spec'', ''ports''])))"

definition update_services :: "service_map \<Rightarrow> json list \<Rightarrow> service_map" where
  "update_services m services =
     (case foldl visit_service ([], m) services of
        (seen, m') \<Rightarrow> filter (\<lambda>(k, s). k \<in> set seen) m')"

section \<open>Endpoints\<close>

text \<open>Namespace, name, port name, protocol.\<close>
type_synonym backend_key = "string \<times> string \<times> string \<times> string"
type_synonym found = "(backend_key \<times> endpoint list) list"

definition add_address :: "16 word \<Rightarrow> endpoint list \<Rightarrow> json \<Rightarrow> endpoint list" where
  "add_address port es addr =
     (case as_str (jget addr ''ip'') of
        None \<Rightarrow> es
      | Some ip \<Rightarrow>
          let e = \<lparr>ep_ip = ip, ep_port = port, ep_ready = True\<rparr>
          in if e \<in> set es then es else es @ [e])"

definition visit_subset_port :: "string \<Rightarrow> string \<Rightarrow> json list \<Rightarrow> found \<Rightarrow> json \<Rightarrow> found" where
  "visit_subset_port ns name addresses f port_spec =
     (case as_u64 (jget port_spec ''port'') of
        None \<Rightarrow> f
      | Some p \<Rightarrow>
          let k = (ns, name, str_or '''' (jget port_spec ''name''), str_or ''TCP'' (jget port_spec ''protocol''));
              es = (case map_of f k of Some es \<Rightarrow> es | None \<Rightarrow> [])
          in AList.update k (foldl (add_address (of_nat p)) es addresses) f)"

definition visit_subset :: "string \<Rightarrow> string \<Rightarrow> found \<Rightarrow> json \<Rightarrow> found" where
  "visit_subset ns name f sub =
     foldl (visit_subset_port ns name (elems (jget sub ''addresses''))) f (elems (jget sub ''ports''))"

definition visit_endpoints :: "found \<Rightarrow> json \<Rightarrow> found" where
  "visit_endpoints f ep =
     foldl (visit_subset (str_or ''default'' (jpath ep [''metadata'', ''namespace'']))
                         (str_or '''' (jpath ep [''metadata'', ''name''])))
       f (elems (jget ep ''subsets''))"

definition backends_of :: "found \<Rightarrow> service_info \<Rightarrow> endpoint list" where
  "backends_of f s =
     (case map_of f (sk_namespace (si_key s), sk_name (si_key s), si_port_name s, sk_protocol (si_key s)) of
        Some es \<Rightarrow> es | None \<Rightarrow> [])"

definition update_endpoints :: "service_map \<Rightarrow> json list \<Rightarrow> service_map" where
  "update_endpoints m endpoints_list =
     (let f = foldl visit_endpoints [] endpoints_list
      in map (\<lambda>(k, s). (k, s\<lparr>si_endpoints := backends_of f s\<rparr>)) m)"

section \<open>Reading the map, and the pass that fills it\<close>

definition get_all :: "service_map \<Rightarrow> service_info list" where
  "get_all m = map snd m"

definition ready_endpoints :: "service_info \<Rightarrow> endpoint list" where
  "ready_endpoints s = filter ep_ready (si_endpoints s)"

text \<open>The random number is an argument.\<close>
definition pick_endpoint :: "service_map \<Rightarrow> nat \<Rightarrow> string \<Rightarrow> 16 word \<Rightarrow> endpoint option" where
  "pick_endpoint m random ip port =
     (case find (\<lambda>s. sk_cluster_ip (si_key s) = ip \<and> sk_port (si_key s) = port) (get_all m) of
        None \<Rightarrow> None
      | Some s \<Rightarrow>
          let ready = ready_endpoints s
          in if ready = [] then None else Some (ready ! (random mod length ready)))"

text \<open>\<open>sync_services_and_endpoints\<close>: both lists first; an error leaves the map as it was. A
  failed request is \<open>None\<close>; the endpoints are not asked for when the services failed.\<close>
definition sync_services_and_endpoints ::
    "json list option \<Rightarrow> json list option \<Rightarrow> service_map \<Rightarrow> bool \<times> service_map" where
  "sync_services_and_endpoints services endpoints m =
     (case services of
        None \<Rightarrow> (False, m)
      | Some ss \<Rightarrow>
          (case endpoints of
             None \<Rightarrow> (False, m)
           | Some es \<Rightarrow> (True, update_endpoints (update_services m ss) es)))"

section \<open>The map's invariant\<close>

text \<open>Every entry sits under its own key, once.\<close>
definition map_wf :: "service_map \<Rightarrow> bool" where
  "map_wf m = (distinct (map fst m) \<and> (\<forall>(k, s) \<in> set m. k = info_key s))"

text \<open>What a pass leaves: besides, every backend is ready and listed once.\<close>
definition synced :: "service_map \<Rightarrow> bool" where
  "synced m = (map_wf m \<and>
     (\<forall>(k, s) \<in> set m. \<not> headless (sk_cluster_ip (si_key s)) \<and> distinct (si_endpoints s) \<and>
        (\<forall>e \<in> set (si_endpoints s). ep_ready e)))"

lemma map_wf_nil [simp]: "map_wf []"
  by (simp add: map_wf_def)

lemma set_alist_update:
  "distinct (map fst m) \<Longrightarrow> x \<in> set (AList.update k v m) \<Longrightarrow> x = (k, v) \<or> (x \<in> set m \<and> fst x \<noteq> k)"
  by (induction m) (auto simp: image_iff split: if_splits)

lemma map_wf_update:
  assumes "map_wf m" "k = info_key s"
  shows "map_wf (AList.update k s m)"
  unfolding map_wf_def
proof (intro conjI ballI)
  have d: "distinct (map fst m)" using assms(1) by (simp add: map_wf_def)
  then show "distinct (map fst (AList.update k s m))" by (rule distinct_update)
  fix x assume "x \<in> set (AList.update k s m)"
  from set_alist_update [OF d this] show "case x of (k, s) \<Rightarrow> k = info_key s"
    using assms by (auto simp: map_wf_def)
qed

lemma foldl_keeps: "P a \<Longrightarrow> (\<And>a x. P a \<Longrightarrow> x \<in> set xs \<Longrightarrow> P (f a x)) \<Longrightarrow> P (foldl f a xs)"
  by (induction xs arbitrary: a) auto

lemma visit_port_wf: "map_wf (snd acc) \<Longrightarrow> map_wf (snd (visit_port svc acc ps))"
  by (auto simp: visit_port_def Let_def split: prod.splits intro!: map_wf_update)

lemma visit_service_wf: "map_wf (snd acc) \<Longrightarrow> map_wf (snd (visit_service acc svc))"
  unfolding visit_service_def
  by (auto intro: foldl_keeps [where P = "\<lambda>a. map_wf (snd a)"] visit_port_wf)

lemma map_wf_filter: "map_wf m \<Longrightarrow> map_wf (filter P m)"
  by (auto simp: map_wf_def distinct_map_filter)

lemma update_services_wf: "map_wf m \<Longrightarrow> map_wf (update_services m ss)"
  using foldl_keeps [where P = "\<lambda>a. map_wf (snd a)" and f = visit_service and a = "([], m)" and xs = ss]
    visit_service_wf
  by (auto simp: update_services_def intro!: map_wf_filter split: prod.splits)

lemma update_endpoints_keys: "map fst (update_endpoints m es) = map fst m"
  by (simp add: update_endpoints_def Let_def case_prod_beta comp_def)

lemma update_endpoints_wf: "map_wf m \<Longrightarrow> map_wf (update_endpoints m es)"
  by (auto simp: map_wf_def update_endpoints_keys) (auto simp: update_endpoints_def Let_def)

section \<open>What a pass leaves\<close>

text \<open>No entry of the map is headless: a headless Service never gets in.\<close>
definition addressed :: "service_map \<Rightarrow> bool" where
  "addressed m = (\<forall>(k, s) \<in> set m. \<not> headless (sk_cluster_ip (si_key s)))"

lemma port_info_ip: "sk_cluster_ip (si_key (port_info svc p)) = str_or '''' (jpath svc [''spec'', ''clusterIP''])"
  by (simp add: port_info_def Let_def)

lemma alist_update_cases: "x \<in> set (AList.update k v m) \<Longrightarrow> x = (k, v) \<or> x \<in> set m"
  by (induction m) (auto split: if_splits)

lemma visit_port_addressed:
  "\<lbrakk>addressed (snd acc); \<not> headless (str_or '''' (jpath svc [''spec'', ''clusterIP'']))\<rbrakk>
   \<Longrightarrow> addressed (snd (visit_port svc acc p))"
  by (auto simp: addressed_def visit_port_def Let_def port_info_ip split: prod.splits
           dest!: alist_update_cases simp del: jpath.simps)

lemma visit_service_addressed: "addressed (snd acc) \<Longrightarrow> addressed (snd (visit_service acc svc))"
  unfolding visit_service_def
  by (cases "headless (str_or '''' (jpath svc [''spec'', ''clusterIP'']))")
     (simp_all add: foldl_keeps [where P = "\<lambda>a. addressed (snd a)"] visit_port_addressed del: jpath.simps)

lemma update_services_addressed: "addressed m \<Longrightarrow> addressed (update_services m ss)"
proof -
  assume "addressed m"
  then have "addressed (snd (foldl visit_service ([], m) ss))"
    by (intro foldl_keeps [where P = "\<lambda>a. addressed (snd a)"]) (simp_all add: visit_service_addressed)
  then show ?thesis by (auto simp: addressed_def update_services_def case_prod_beta)
qed

text \<open>The backends found so far are ready and listed once.\<close>
definition good_backends :: "endpoint list \<Rightarrow> bool" where
  "good_backends es = (distinct es \<and> (\<forall>e \<in> set es. ep_ready e))"

lemma good_backends_nil [simp]: "good_backends []"
  by (simp add: good_backends_def)

lemma add_address_good: "good_backends es \<Longrightarrow> good_backends (add_address p es a)"
  by (auto simp: good_backends_def add_address_def Let_def split: option.splits)

lemma add_addresses_good: "good_backends es \<Longrightarrow> good_backends (foldl (add_address p) es xs)"
  by (rule foldl_keeps [where P = good_backends]) (auto simp: add_address_good)

definition found_good :: "found \<Rightarrow> bool" where
  "found_good f = (\<forall>k es. map_of f k = Some es \<longrightarrow> good_backends es)"

lemma visit_subset_port_good: "found_good f \<Longrightarrow> found_good (visit_subset_port ns n as f p)"
  by (auto simp: found_good_def visit_subset_port_def Let_def update_conv' intro: add_addresses_good
           split: option.splits)

lemma visit_endpoints_good: "found_good f \<Longrightarrow> found_good (visit_endpoints f ep)"
  unfolding visit_endpoints_def visit_subset_def
  by (intro foldl_keeps [where P = found_good]) (blast intro: visit_subset_port_good)+

lemma found_all_good: "found_good (foldl visit_endpoints [] es)"
  by (rule foldl_keeps [where P = found_good]) (simp_all add: found_good_def [of "[]"] visit_endpoints_good)

lemma backends_of_good: "found_good f \<Longrightarrow> good_backends (backends_of f s)"
  by (simp add: backends_of_def found_good_def split: option.splits)

lemma synced_after:
  assumes "map_wf m" "addressed m"
  shows "synced (update_endpoints (update_services m ss) es)"
proof -
  have "addressed (update_services m ss)" using assms(2) by (rule update_services_addressed)
  then show ?thesis
    using update_endpoints_wf [OF update_services_wf [OF assms(1)]] backends_of_good [OF found_all_good]
    by (fastforce simp: synced_def addressed_def good_backends_def update_endpoints_def Let_def)
qed

section \<open>History independence\<close>

text \<open>An entry without its backends, which a pass over the services carries over.\<close>
definition bare :: "service_info \<Rightarrow> service_info" where
  "bare s = s\<lparr>si_endpoints := []\<rparr>"

text \<open>Two runs that have seen the same ports agree on them, their backends aside.\<close>
definition agree :: "string list \<times> service_map \<Rightarrow> string list \<times> service_map \<Rightarrow> bool" where
  "agree a b = (fst a = fst b \<and>
     (\<forall>k \<in> set (fst a). map_of (snd a) k \<noteq> None \<and>
        map_option bare (map_of (snd a) k) = map_option bare (map_of (snd b) k)))"

lemma bare_set [simp]: "bare (s\<lparr>si_endpoints := x\<rparr>) = bare s"
  by (simp add: bare_def)

lemma agree_port: "agree a b \<Longrightarrow> agree (visit_port svc a p) (visit_port svc b p)"
  by (auto simp: agree_def visit_port_def Let_def update_conv' split: prod.splits)

lemma agree_foldl: "\<lbrakk>agree a b; \<And>a b x. agree a b \<Longrightarrow> agree (f a x) (f b x)\<rbrakk> \<Longrightarrow> agree (foldl f a xs) (foldl f b xs)"
  by (induction xs arbitrary: a b) auto

lemma agree_service: "agree a b \<Longrightarrow> agree (visit_service a svc) (visit_service b svc)"
  by (cases "headless (str_or '''' (jpath svc [''spec'', ''clusterIP'']))")
     (simp_all add: visit_service_def agree_foldl agree_port del: jpath.simps)

lemma agree_services: "agree (foldl visit_service ([], m) ss) (foldl visit_service ([], n) ss)"
  by (rule agree_foldl) (simp add: agree_def, rule agree_service)

lemma map_of_filter_keys: "map_of (filter (\<lambda>(k, s). k \<in> A) m) k = (if k \<in> A then map_of m k else None)"
  by (induction m) auto

lemma update_services_bare:
  "map_option bare (map_of (update_services m ss) k) = map_option bare (map_of (update_services n ss) k)"
proof -
  obtain a b where ab: "foldl visit_service ([], m) ss = (a, b)" by fastforce
  obtain c d where cd: "foldl visit_service ([], n) ss = (c, d)" by fastforce
  have "agree (a, b) (c, d)" using agree_services [of m ss n] by (simp add: ab cd)
  then show ?thesis by (auto simp: update_services_def ab cd map_of_filter_keys agree_def)
qed

lemma backends_of_bare: "backends_of f (bare s) = backends_of f s"
  by (simp add: backends_of_def bare_def)

lemma map_of_update_endpoints:
  "map_of (update_endpoints m es) k =
     map_option (\<lambda>s. (bare s)\<lparr>si_endpoints := backends_of (foldl visit_endpoints [] es) (bare s)\<rparr>) (map_of m k)"
  by (induction m) (auto simp: update_endpoints_def Let_def backends_of_bare, simp_all add: bare_def)

lemma synced_map_of:
  "map_of (update_endpoints (update_services m ss) es) = map_of (update_endpoints (update_services n ss) es)"
proof
  fix k
  have *: "map_option (\<lambda>s. h (bare s)) x = map_option h (map_option bare x)"
    for h :: "service_info \<Rightarrow> service_info" and x by (cases x) auto
  show "map_of (update_endpoints (update_services m ss) es) k = map_of (update_endpoints (update_services n ss) es) k"
    using update_services_bare [of m ss k n]
    by (simp only: map_of_update_endpoints *
          [of "\<lambda>s. s\<lparr>si_endpoints := backends_of (foldl visit_endpoints [] es) s\<rparr>"])
qed

lemma map_of_eq_set:
  assumes "distinct (map fst xs)" "distinct (map fst ys)"
  shows "set xs = set ys \<longleftrightarrow> map_of xs = map_of ys"
  using map_of_inject_set [OF assms] by simp

lemma synced_same_entries:
  assumes "map_wf m" "map_wf n"
  shows "mset (update_endpoints (update_services m ss) es) = mset (update_endpoints (update_services n ss) es)"
proof -
  let ?m = "update_endpoints (update_services m ss) es" and ?n = "update_endpoints (update_services n ss) es"
  have d: "distinct (map fst ?m)" "distinct (map fst ?n)"
    using update_endpoints_wf [OF update_services_wf] assms by (auto simp: map_wf_def)
  then have "set ?m = set ?n"
    using synced_map_of [of m ss es n] by (simp add: map_of_eq_set [symmetric])
  moreover have "distinct ?m" "distinct ?n" using d by (simp_all add: distinct_map)
  ultimately show ?thesis by (simp only: set_eq_iff_mset_eq_distinct)
qed

end
