(* ===== verification/Iptables.thy ===== *)
theory Iptables
  imports ServiceMap
begin

unbundle bit_operations_syntax

text \<open>The NAT rules kube-proxy generates (\<open>src/pkg/proxy/src/iptables.rs\<close>): the rule set of a
  service model, its text for \<open>iptables-restore\<close>, the chain names, and applying it. A rule is a
  value with one constructor for each form the code's format strings have, and \<open>rule_text\<close> is
  those format strings. The text of a probability (an \<open>f64\<close> printed with five digits) is an
  argument, \<open>prob\<close>: the text of one over a count. What a packet meets in these chains is in
  the theory \<open>NatPaths\<close>.\<close>

section \<open>Chain names\<close>

abbreviation chain_services :: string where "chain_services \<equiv> ''KUBE-SERVICES''"
abbreviation chain_nodeports :: string where "chain_nodeports \<equiv> ''KUBE-NODEPORTS''"
abbreviation chain_postrouting :: string where "chain_postrouting \<equiv> ''KUBE-POSTROUTING''"
abbreviation chain_mark_masq :: string where "chain_mark_masq \<equiv> ''KUBE-MARK-MASQ''"

text \<open>The 64-bit hash, one byte at a time, wrapping.\<close>
definition fnv_step :: "64 word \<Rightarrow> char \<Rightarrow> 64 word" where
  "fnv_step h b = (h XOR of_nat (of_char b)) * 0x100000001b3"

definition fnv :: "string \<Rightarrow> 64 word" where
  "fnv s = foldl fnv_step 0xcbf29ce484222325 s"

definition alphabet :: string where
  "alphabet = ''ABCDEFGHIJKLMNOPQRSTUVWXYZ234567''"

definition base32_char :: "32 word \<Rightarrow> char" where
  "base32_char w = alphabet ! unat (w AND 0x1f)"

text \<open>The inner loop of \<open>base32\<close>: five bits at a time while there are five.\<close>
fun drain :: "32 word \<Rightarrow> nat \<Rightarrow> string \<times> nat" where
  "drain buffer bits =
     (if bits < 5 then ([], bits)
      else (case drain buffer (bits - 5) of
              (out, rest) \<Rightarrow> (base32_char (drop_bit (bits - 5) buffer) # out, rest)))"

declare drain.simps [simp del]

fun base32_loop :: "8 word list \<Rightarrow> 32 word \<Rightarrow> nat \<Rightarrow> string" where
  "base32_loop [] buffer bits =
     (if bits > 0 then [base32_char (push_bit (5 - bits) buffer)] else [])"
| "base32_loop (b # bs) buffer bits =
     (let buffer' = push_bit 8 buffer OR ucast b in
      case drain buffer' (bits + 8) of (out, rest) \<Rightarrow> out @ base32_loop bs buffer' rest)"

definition base32 :: "8 word list \<Rightarrow> string" where
  "base32 bytes = base32_loop bytes 0 0"

definition to_be_bytes :: "64 word \<Rightarrow> 8 word list" where
  "to_be_bytes h = map (\<lambda>i. ucast (drop_bit (8 * i) h)) [7, 6, 5, 4, 3, 2, 1, 0]"

definition short_hash :: "string \<Rightarrow> string" where
  "short_hash s = base32 (to_be_bytes (fnv s))"

definition service_seed :: "service_key \<Rightarrow> string" where
  "service_seed k = sk_namespace k @ ''/'' @ sk_name k @ '':'' @ show_port (sk_port k) @ '':'' @ sk_protocol k"

definition service_chain_name :: "service_key \<Rightarrow> string" where
  "service_chain_name k = ''KUBE-SVC-'' @ short_hash (service_seed k)"

definition endpoint_seed :: "service_key \<Rightarrow> string \<Rightarrow> 16 word \<Rightarrow> string" where
  "endpoint_seed k ip port = service_seed k @ ''->'' @ ip @ '':'' @ show_port port"

definition endpoint_chain_name :: "service_key \<Rightarrow> string \<Rightarrow> 16 word \<Rightarrow> string" where
  "endpoint_chain_name k ip port = ''KUBE-SEP-'' @ short_hash (endpoint_seed k ip port)"

section \<open>Rules and their text\<close>

datatype rule_match =
    Dst string
  | Src string
  | Not_src string
  | Proto string
  | Dport "16 word"
  | Comment string
  | Unmarked
  | Random nat
  | Local

datatype rule_target =
    Jump_to string
  | Set_mark
  | Flip_mark
  | Leave
  | Masquerade
  | Dnat string "16 word"

record rule =
  r_chain :: string
  r_matches :: "rule_match list"
  r_target :: rule_target

abbreviation quoted :: "string \<Rightarrow> string" where
  "quoted s \<equiv> CHR 0x22 # s @ [CHR 0x22]"

fun match_text :: "(nat \<Rightarrow> string) \<Rightarrow> rule_match \<Rightarrow> string" where
  "match_text prob (Dst ip) = ''-d '' @ ip @ ''/32''"
| "match_text prob (Src ip) = ''-s '' @ ip @ ''/32''"
| "match_text prob (Not_src cidr) = ''! -s '' @ cidr"
| "match_text prob (Proto p) = ''-p '' @ p @ '' -m '' @ p"
| "match_text prob (Dport d) = ''--dport '' @ show_port d"
| "match_text prob (Comment c) = ''-m comment --comment '' @ quoted c"
| "match_text prob Unmarked = ''-m mark ! --mark 0x4000/0x4000''"
| "match_text prob (Random n) = ''-m statistic --mode random --probability '' @ prob n"
| "match_text prob Local = ''-m addrtype --dst-type LOCAL''"

fun target_text :: "rule_target \<Rightarrow> string" where
  "target_text (Jump_to c) = c"
| "target_text Set_mark = ''MARK --or-mark 0x4000''"
| "target_text Flip_mark = ''MARK --xor-mark 0x4000''"
| "target_text Leave = ''RETURN''"
| "target_text Masquerade = ''MASQUERADE''"
| "target_text (Dnat ip port) = ''DNAT --to-destination '' @ ip @ '':'' @ show_port port"

definition rule_text :: "(nat \<Rightarrow> string) \<Rightarrow> rule \<Rightarrow> string" where
  "rule_text prob r = ''-A '' @ r_chain r @ concat (map (\<lambda>m. '' '' @ match_text prob m) (r_matches r))
     @ '' -j '' @ target_text (r_target r)"

record jump =
  j_chain :: string
  j_args :: "string list"

definition jumps :: "jump list" where
  "jumps =
     (let j = (\<lambda>chain comment target.
        \<lparr>j_chain = chain, j_args = [''-m'', ''comment'', ''--comment'', comment, ''-j'', target]\<rparr>)
      in [j ''PREROUTING'' ''kubernetes service portals'' chain_services,
          j ''OUTPUT'' ''kubernetes service portals'' chain_services,
          j ''POSTROUTING'' ''kubernetes postrouting rules'' chain_postrouting])"

record iptables_rules =
  ir_chains :: "string list"
  ir_nat_rules :: "string list"
  ir_jumps :: "jump list"

record rule_options =
  ro_cluster_cidr :: "string option"

definition to_restore_input :: "iptables_rules \<Rightarrow> string" where
  "to_restore_input r =
     ''*nat'' @ [CHR 10] @ concat (map (\<lambda>c. '':'' @ c @ '' - [0:0]'' @ [CHR 10]) (ir_chains r))
       @ concat (map (\<lambda>l. l @ [CHR 10]) (ir_nat_rules r)) @ ''COMMIT'' @ [CHR 10]"

definition has_dnat :: "iptables_rules \<Rightarrow> bool" where
  "has_dnat r = list_ex (\<lambda>l. contains_str l ''-j DNAT'') (ir_nat_rules r)"

section \<open>Generating the rules\<close>

definition masquerade_plumbing :: "rule list" where
  "masquerade_plumbing =
     [\<lparr>r_chain = chain_mark_masq, r_matches = [], r_target = Set_mark\<rparr>,
      \<lparr>r_chain = chain_postrouting, r_matches = [Unmarked], r_target = Leave\<rparr>,
      \<lparr>r_chain = chain_postrouting, r_matches = [], r_target = Flip_mark\<rparr>,
      \<lparr>r_chain = chain_postrouting, r_matches = [Comment ''kubernetes service traffic masquerade''],
       r_target = Masquerade\<rparr>]"

definition sort_services :: "service_info list \<Rightarrow> service_info list" where
  "sort_services = sort_key (\<lambda>s. (sk_namespace (si_key s), sk_name (si_key s), sk_port (si_key s),
                                  sk_protocol (si_key s)))"

text \<open>The services the loop does not skip.\<close>
definition has_rules :: "service_info \<Rightarrow> bool" where
  "has_rules s = (\<not> headless (sk_cluster_ip (si_key s)) \<and> ready_endpoints s \<noteq> [])"

definition svc_chain :: "service_info \<Rightarrow> string" where
  "svc_chain s = service_chain_name (si_key s)"

definition svc_proto :: "service_info \<Rightarrow> string" where
  "svc_proto s = to_ascii_lowercase (sk_protocol (si_key s))"

definition sep_chain :: "service_info \<Rightarrow> endpoint \<Rightarrow> string" where
  "sep_chain s e = endpoint_chain_name (si_key s) (ep_ip e) (ep_port e)"

definition cluster_ip_matches :: "service_info \<Rightarrow> rule_match list" where
  "cluster_ip_matches s =
     [Dst (sk_cluster_ip (si_key s)), Proto (svc_proto s), Dport (sk_port (si_key s)),
      Comment (sk_namespace (si_key s) @ ''/'' @ sk_name (si_key s) @ '' cluster IP'')]"

definition dispatch_rule :: "service_info \<Rightarrow> rule" where
  "dispatch_rule s =
     \<lparr>r_chain = chain_services, r_matches = cluster_ip_matches s, r_target = Jump_to (svc_chain s)\<rparr>"

definition off_cluster_rules :: "rule_options \<Rightarrow> service_info \<Rightarrow> rule list" where
  "off_cluster_rules opts s =
     (case ro_cluster_cidr opts of
        None \<Rightarrow> []
      | Some cidr \<Rightarrow>
          [\<lparr>r_chain = svc_chain s, r_matches = Not_src cidr # cluster_ip_matches s,
            r_target = Jump_to chain_mark_masq\<rparr>])"

definition node_port_rules :: "service_info \<Rightarrow> rule list" where
  "node_port_rules s =
     (case sk_node_port (si_key s) of
        None \<Rightarrow> []
      | Some np \<Rightarrow>
          let ms = [Proto (svc_proto s), Dport np,
                    Comment (sk_namespace (si_key s) @ ''/'' @ sk_name (si_key s) @ '' nodeport'')]
          in [\<lparr>r_chain = chain_nodeports, r_matches = ms, r_target = Jump_to chain_mark_masq\<rparr>,
              \<lparr>r_chain = chain_nodeports, r_matches = ms, r_target = Jump_to (svc_chain s)\<rparr>])"

definition sep_rules :: "service_info \<Rightarrow> endpoint \<Rightarrow> rule list" where
  "sep_rules s e =
     [\<lparr>r_chain = sep_chain s e, r_matches = [Src (ep_ip e)], r_target = Jump_to chain_mark_masq\<rparr>,
      \<lparr>r_chain = sep_chain s e, r_matches = [Proto (svc_proto s)], r_target = Dnat (ep_ip e) (ep_port e)\<rparr>]"

definition balance_rules :: "service_info \<Rightarrow> rule list" where
  "balance_rules s =
     (let seps = map (sep_chain s) (ready_endpoints s); count = length seps in
      map (\<lambda>(i, sep). let remaining = count - i in
             \<lparr>r_chain = svc_chain s, r_matches = (if remaining > 1 then [Random remaining] else []),
              r_target = Jump_to sep\<rparr>)
        (enumerate 0 seps))"

definition service_rules :: "rule_options \<Rightarrow> service_info \<Rightarrow> rule list" where
  "service_rules opts s =
     dispatch_rule s # off_cluster_rules opts s @ node_port_rules s
       @ concat (map (sep_rules s) (ready_endpoints s)) @ balance_rules s"

definition service_chains :: "service_info \<Rightarrow> string list" where
  "service_chains s = svc_chain s # map (sep_chain s) (ready_endpoints s)"

definition node_port_dispatch :: rule where
  "node_port_dispatch =
     \<lparr>r_chain = chain_services, r_matches = [Local, Comment ''kubernetes service nodeports''],
      r_target = Jump_to chain_nodeports\<rparr>"

definition active_services :: "service_info list \<Rightarrow> service_info list" where
  "active_services services = filter has_rules (sort_services services)"

definition all_chains :: "service_info list \<Rightarrow> string list" where
  "all_chains services =
     [chain_services, chain_nodeports, chain_postrouting, chain_mark_masq]
       @ concat (map service_chains (active_services services))"

definition all_rules :: "rule_options \<Rightarrow> service_info list \<Rightarrow> rule list" where
  "all_rules opts services =
     masquerade_plumbing @ concat (map (service_rules opts) (active_services services))
       @ [node_port_dispatch]"

definition generate_rules_with :: "(nat \<Rightarrow> string) \<Rightarrow> service_info list \<Rightarrow> rule_options \<Rightarrow> iptables_rules" where
  "generate_rules_with prob services opts =
     \<lparr>ir_chains = all_chains services, ir_nat_rules = map (rule_text prob) (all_rules opts services),
      ir_jumps = jumps\<rparr>"

definition generate_rules :: "(nat \<Rightarrow> string) \<Rightarrow> service_info list \<Rightarrow> iptables_rules" where
  "generate_rules prob services = generate_rules_with prob services \<lparr>ro_cluster_cidr = None\<rparr>"

end
