(* ===== verification/ChainNames.thy ===== *)
theory ChainNames
  imports Iptables
begin

unbundle bit_operations_syntax

text \<open>Chain names tell Service ports and endpoints apart as far as the 64-bit hash does: base32
  loses nothing of it, and every name is short enough for iptables. The hash is also given on
  integers, where it can be computed.\<close>

lemma and_31: "w AND 0x1f = take_bit 5 w" for w :: "'a::len word"
  by (simp add: take_bit_eq_mask mask_numeral)

lemma take_bit_5_bound: "unat (take_bit 5 w) < 32" for w :: "32 word"
  by (simp add: take_bit_eq_mod unat_mod)

lemma alphabet_distinct: "distinct alphabet" and alphabet_length: "length alphabet = 32"
  by (code_simp, code_simp)

lemma base32_char_eq: "base32_char v = base32_char w \<longleftrightarrow> (\<forall>j < 5. bit v j = bit w j)"
proof -
  have "base32_char v = base32_char w \<longleftrightarrow> take_bit 5 v = take_bit 5 w"
    using take_bit_5_bound alphabet_distinct alphabet_length
    by (simp add: base32_char_def nth_eq_iff_index_eq and_31 word_unat_eq_iff)
  also have "\<dots> \<longleftrightarrow> (\<forall>j < 5. bit v j = bit w j)"
  proof
    assume *: "take_bit 5 v = take_bit 5 w"
    show "\<forall>j < 5. bit v j = bit w j"
    proof (intro allI impI)
      fix j :: nat assume "j < 5"
      then show "bit v j = bit w j" using arg_cong [OF *, of "\<lambda>x. bit x j"] by (simp add: bit_take_bit_iff)
    qed
  qed (auto simp: bit_eq_iff bit_take_bit_iff)
  finally show ?thesis .
qed

lemma less5: "(j < (5::nat)) \<longleftrightarrow> j = 0 \<or> j = 1 \<or> j = 2 \<or> j = 3 \<or> j = 4"
  by auto

text \<open>The bits of the hash, five at a time.\<close>
definition quintets :: "64 word \<Rightarrow> 32 word list" where
  "quintets h = map (\<lambda>i. ucast (drop_bit (59 - 5 * i) h)) [0, 1, 2, 3, 4, 5, 6, 7, 8, 9, 10, 11] @ [ucast (push_bit 1 h)]"

lemma base32_quintets: "base32 (to_be_bytes h) = map base32_char (quintets h)"
  by (simp add: base32_def to_be_bytes_def quintets_def drain.simps base32_char_eq less5 bit_simps Let_def
        del: push_bit_Suc)

lemma short_hash_length: "length (short_hash s) = 13"
  by (simp add: short_hash_def base32_quintets quintets_def)

lemma map_append_eqD: "\<lbrakk>map f xs @ ys = map g xs @ zs; x \<in> set xs\<rbrakk> \<Longrightarrow> f x = g x"
  by (induction xs) auto

lemma quintets_inject:
  assumes "map base32_char (quintets g) = map base32_char (quintets h)"
  shows "g = h"
proof (rule bit_word_eqI)
  have q: "\<forall>j < 5. bit (ucast (drop_bit (59 - 5 * i) g) :: 32 word) j = bit (ucast (drop_bit (59 - 5 * i) h) :: 32 word) j"
    if "i \<in> set [0, 1, 2, 3, 4, 5, 6, 7, 8, 9, 10, 11]" for i
    using assms that unfolding quintets_def base32_char_eq [symmetric] map_append map_map comp_def
    by (rule map_append_eqD)
  have r: "\<forall>j < 5. bit (ucast (push_bit 1 g) :: 32 word) j = bit (ucast (push_bit 1 h) :: 32 word) j"
    using assms unfolding quintets_def base32_char_eq [symmetric] by simp
  fix n assume "n < LENGTH(64)"
  then have n: "n < 64" by simp
  show "bit g n = bit h n"
  proof (cases "n < 4")
    case True
    then show ?thesis using spec [OF r, of "n + 1"] by (simp add: bit_simps del: push_bit_Suc)
  next
    case False
    define i where "i = (63 - n) div 5"
    have i: "i \<le> 11" "59 - 5 * i \<le> n" "n - (59 - 5 * i) < 5" using n False by (auto simp: i_def)
    then have "i \<in> set [0, 1, 2, 3, 4, 5, 6, 7, 8, 9, 10, 11]" by (simp add: numeral_eq_Suc le_Suc_eq) 
    from spec [OF q [OF this], of "n - (59 - 5 * i)"] show ?thesis
      using i n by (simp add: bit_simps)
  qed
qed

lemma short_hash_inject: "short_hash s = short_hash t \<longleftrightarrow> fnv s = fnv t"
  by (auto simp: short_hash_def base32_quintets dest: quintets_inject)

definition fnv_int :: "string \<Rightarrow> int" where
  "fnv_int s = foldl (\<lambda>h c. ((h XOR int (of_char c)) * 0x100000001b3) mod 2 ^ 64) 0xcbf29ce484222325 s"

lemma uint_byte: "n < 256 \<Longrightarrow> uint (of_nat n :: 64 word) = int n"
  by (simp add: uint_nat unat_of_nat)

lemma fnv_step_int: "uint (fnv_step h c) = ((uint h XOR int (of_char c)) * 0x100000001b3) mod 2 ^ 64"
proof -
  have "(of_char c :: nat) < 256" using of_char_mod_256 [of c, where 'a = nat] by (metis mod_less_divisor zero_less_numeral)
  then have "uint (of_nat (of_char c) :: 64 word) = int (of_char c)" by (rule uint_byte)
  then show ?thesis
    by (simp only: fnv_step_def uint_word_ariths unsigned_xor_eq) simp
qed

lemma fnv_uint: "uint (fnv s) = fnv_int s"
proof -
  have "uint (foldl fnv_step h s) = foldl (\<lambda>h c. ((h XOR int (of_char c)) * 0x100000001b3) mod 2 ^ 64) (uint h) s" for h
    by (induction s arbitrary: h) (simp_all add: fnv_step_int)
  then show ?thesis by (simp add: fnv_def fnv_int_def)
qed

text \<open>C31. Two names are the same exactly when the 64-bit hashes of what they name are, and a name
  is 22 characters long, within the 28 that iptables allows.\<close>
theorem chain_names_keep_the_hash:
  "(service_chain_name k = service_chain_name k' \<longleftrightarrow> fnv (service_seed k) = fnv (service_seed k')) \<and>
   (endpoint_chain_name k ip port = endpoint_chain_name k' ip' port' \<longleftrightarrow>
      fnv (endpoint_seed k ip port) = fnv (endpoint_seed k' ip' port')) \<and>
   length (service_chain_name k) = 22 \<and> length (endpoint_chain_name k ip port) = 22"
  by (simp add: service_chain_name_def endpoint_chain_name_def short_hash_length short_hash_inject)

end
