(* ===== verification/NatPaths.thy ===== *)
theory NatPaths
  imports Complex_Main ChainNames
begin

text \<open>The specification of kube-proxy's rules: what a packet meets in the chains that
  \<open>iptables.rs\<close> generates, once they are restored into the node's nat table. The lemmas read each
  chain back from the rule list; the properties say where a packet ends.\<close>

section \<open>What a packet meets\<close>

text \<open>The kernel's nat table: for each chain its rules, in order. Restoring without a flush
  empties every chain the input declares, then appends.\<close>
type_synonym nat_table = "string \<Rightarrow> rule list"

definition restore_table :: "string list \<Rightarrow> rule list \<Rightarrow> nat_table \<Rightarrow> nat_table" where
  "restore_table declared rules old c =
     (if c \<in> set declared then [] else old c) @ filter (\<lambda>r. r_chain r = c) rules"

record packet =
  pk_src :: string
  pk_dst :: string
  pk_proto :: string
  pk_dport :: "16 word"
  pk_local :: bool
  pk_marked :: bool

text \<open>Whether a rule's condition holds. The random draws are an argument (\<open>coin n\<close>: the draw of
  the rule that takes one in \<open>n\<close>), and so is which addresses a CIDR contains.\<close>
fun holds :: "(string \<Rightarrow> string \<Rightarrow> bool) \<Rightarrow> (nat \<Rightarrow> bool) \<Rightarrow> packet \<Rightarrow> rule_match \<Rightarrow> bool" where
  "holds cidr coin p (Dst ip) = (pk_dst p = ip)"
| "holds cidr coin p (Src ip) = (pk_src p = ip)"
| "holds cidr coin p (Not_src c) = (\<not> cidr c (pk_src p))"
| "holds cidr coin p (Proto x) = (pk_proto p = x)"
| "holds cidr coin p (Dport d) = (pk_dport p = d)"
| "holds cidr coin p (Comment c) = True"
| "holds cidr coin p Unmarked = (\<not> pk_marked p)"
| "holds cidr coin p (Random n) = coin n"
| "holds cidr coin p Local = pk_local p"

datatype verdict =
    Falls_through
  | Returns
  | Masqueraded
  | Sent_to string "16 word"
  | Too_deep

text \<open>A packet through a list of rules; \<open>n\<close> bounds the depth of the jumps.\<close>
fun traverse :: "(string \<Rightarrow> string \<Rightarrow> bool) \<Rightarrow> (nat \<Rightarrow> bool) \<Rightarrow> nat_table \<Rightarrow> nat \<Rightarrow> rule list \<Rightarrow> packet
    \<Rightarrow> verdict \<times> packet" where
  "traverse cidr coin t n [] p = (Falls_through, p)"
| "traverse cidr coin t n (r # rs) p =
     (if \<not> list_all (holds cidr coin p) (r_matches r) then traverse cidr coin t n rs p
      else (case r_target r of
              Set_mark \<Rightarrow> traverse cidr coin t n rs (p\<lparr>pk_marked := True\<rparr>)
            | Flip_mark \<Rightarrow> traverse cidr coin t n rs (p\<lparr>pk_marked := \<not> pk_marked p\<rparr>)
            | Leave \<Rightarrow> (Returns, p)
            | Masquerade \<Rightarrow> (Masqueraded, p)
            | Dnat ip port \<Rightarrow> (Sent_to ip port, p)
            | Jump_to c \<Rightarrow>
                (case n of
                   0 \<Rightarrow> (Too_deep, p)
                 | Suc k \<Rightarrow>
                     (case traverse cidr coin t k (t c) p of
                        (v, q) \<Rightarrow>
                          if v = Falls_through \<or> v = Returns then traverse cidr coin t n rs q else (v, q)))))"

section \<open>Reading the chains back\<close>

text \<open>The chain names of the active services are their own, and so are the addresses they
  answer on.\<close>
definition no_collisions :: "service_info list \<Rightarrow> bool" where
  "no_collisions services =
     (distinct (map svc_chain (active_services services)) \<and>
      distinct (concat (map (\<lambda>s. map (sep_chain s) (ready_endpoints s)) (active_services services))))"

definition cluster_address :: "service_info \<Rightarrow> string \<times> 16 word \<times> string" where
  "cluster_address s = (sk_cluster_ip (si_key s), sk_port (si_key s), svc_proto s)"

definition one_address_each :: "service_info list \<Rightarrow> bool" where
  "one_address_each services = distinct (map cluster_address (active_services services))"

lemma fixed_names:
  "svc_chain s \<noteq> chain_services" "svc_chain s \<noteq> chain_nodeports" "svc_chain s \<noteq> chain_mark_masq"
  "svc_chain s \<noteq> chain_postrouting"
  "sep_chain s e \<noteq> chain_services" "sep_chain s e \<noteq> chain_nodeports" "sep_chain s e \<noteq> chain_mark_masq"
  "sep_chain s e \<noteq> chain_postrouting" "sep_chain s e \<noteq> svc_chain s'" "svc_chain s' \<noteq> sep_chain s e"
  by (simp_all add: svc_chain_def service_chain_name_def sep_chain_def endpoint_chain_name_def)

lemmas fixed_names_sym = fixed_names [symmetric]

text \<open>The rules of one chain among those of one service.\<close>
definition of_chain :: "string \<Rightarrow> rule list \<Rightarrow> rule list" where
  "of_chain c = filter (\<lambda>r. r_chain r = c)"

lemma of_chain_simps [simp]:
  "of_chain c [] = []"
  "of_chain c (r # rs) = (if r_chain r = c then r # of_chain c rs else of_chain c rs)"
  "of_chain c (xs @ ys) = of_chain c xs @ of_chain c ys"
  by (simp_all add: of_chain_def)

lemma of_chain_concat: "of_chain c (concat (map f xs)) = concat (map (\<lambda>x. of_chain c (f x)) xs)"
  by (induction xs) auto

lemma of_chain_none: "\<forall>r \<in> set rs. r_chain r \<noteq> c \<Longrightarrow> of_chain c rs = []"
  by (simp add: of_chain_def)

lemma of_chain_all: "\<forall>r \<in> set rs. r_chain r = c \<Longrightarrow> of_chain c rs = rs"
  by (simp add: of_chain_def)

lemma concat_none: "\<forall>x \<in> set xs. f x = [] \<Longrightarrow> concat (map f xs) = []"
  by simp

lemma concat_single:
  "\<lbrakk>x \<in> set xs; distinct xs; \<And>y. y \<in> set xs \<Longrightarrow> y \<noteq> x \<Longrightarrow> f y = []\<rbrakk> \<Longrightarrow> concat (map f xs) = f x"
proof (induction xs)
  case (Cons z xs)
  show ?case
  proof (cases "x = z")
    case True
    then have "\<forall>y \<in> set xs. f y = []" using Cons.prems by auto
    then show ?thesis using True by simp
  next
    case False
    then show ?thesis using Cons by auto
  qed
qed simp

lemma balance_chain: "r \<in> set (balance_rules s) \<Longrightarrow> r_chain r = svc_chain s"
  by (auto simp: balance_rules_def Let_def)

lemma off_cluster_chain: "r \<in> set (off_cluster_rules opts s) \<Longrightarrow> r_chain r = svc_chain s"
  by (auto simp: off_cluster_rules_def split: option.splits)

lemma node_port_chain: "r \<in> set (node_port_rules s) \<Longrightarrow> r_chain r = chain_nodeports"
  by (auto simp: node_port_rules_def Let_def split: option.splits)

lemma sep_rules_chain: "r \<in> set (sep_rules s e) \<Longrightarrow> r_chain r = sep_chain s e"
  by (auto simp: sep_rules_def)

lemma of_chain_balance: "of_chain c (balance_rules s) = (if c = svc_chain s then balance_rules s else [])"
  by (auto intro: of_chain_none of_chain_all dest: balance_chain)

lemma of_chain_off_cluster:
  "of_chain c (off_cluster_rules opts s) = (if c = svc_chain s then off_cluster_rules opts s else [])"
  by (auto intro: of_chain_none of_chain_all dest: off_cluster_chain)

lemma of_chain_node_port:
  "of_chain c (node_port_rules s) = (if c = chain_nodeports then node_port_rules s else [])"
  by (auto intro: of_chain_none of_chain_all dest: node_port_chain)

lemma of_chain_sep: "of_chain c (sep_rules s e) = (if c = sep_chain s e then sep_rules s e else [])"
  by (auto intro: of_chain_none of_chain_all dest: sep_rules_chain)

lemmas of_chain_parts = of_chain_balance of_chain_off_cluster of_chain_node_port of_chain_sep of_chain_concat

lemma service_rules_services: "of_chain chain_services (service_rules opts s) = [dispatch_rule s]"
  by (simp add: service_rules_def of_chain_parts fixed_names fixed_names_sym dispatch_rule_def)

lemma service_rules_nodeports: "of_chain chain_nodeports (service_rules opts s) = node_port_rules s"
  by (simp add: service_rules_def of_chain_parts fixed_names fixed_names_sym dispatch_rule_def)

lemma service_rules_mark: "of_chain chain_mark_masq (service_rules opts s) = []"
  by (simp add: service_rules_def of_chain_parts fixed_names fixed_names_sym dispatch_rule_def)

lemma service_rules_svc:
  "of_chain (svc_chain s') (service_rules opts s) =
     (if svc_chain s' = svc_chain s then off_cluster_rules opts s @ balance_rules s else [])"
  by (simp add: service_rules_def of_chain_parts fixed_names fixed_names_sym dispatch_rule_def)

lemma service_rules_sep:
  "of_chain (sep_chain s' e') (service_rules opts s) =
     concat (map (\<lambda>e. if sep_chain s' e' = sep_chain s e then sep_rules s e else []) (ready_endpoints s))"
  by (simp add: service_rules_def of_chain_parts fixed_names fixed_names_sym dispatch_rule_def)

text \<open>The table once the rules of \<open>services\<close> are restored into it.\<close>
definition loaded :: "rule_options \<Rightarrow> service_info list \<Rightarrow> nat_table \<Rightarrow> nat_table" where
  "loaded opts services = restore_table (all_chains services) (all_rules opts services)"

lemma loaded_chain:
  "c \<in> set (all_chains services) \<Longrightarrow> loaded opts services old c = of_chain c (all_rules opts services)"
  by (simp add: loaded_def restore_table_def of_chain_def)

lemma mark_rule: "of_chain c masquerade_plumbing = (if c = chain_mark_masq
    then [\<lparr>r_chain = chain_mark_masq, r_matches = [], r_target = Set_mark\<rparr>]
    else if c = chain_postrouting then tl masquerade_plumbing else [])"
  by (auto simp: masquerade_plumbing_def)

lemma loaded_services:
  "loaded opts services old chain_services =
     map dispatch_rule (active_services services) @ [node_port_dispatch]"
proof -
  have "of_chain chain_services (all_rules opts services)
          = concat (map (\<lambda>s. [dispatch_rule s]) (active_services services)) @ [node_port_dispatch]"
    by (simp add: all_rules_def mark_rule of_chain_concat service_rules_services node_port_dispatch_def)
  then show ?thesis by (subst loaded_chain) (simp_all add: all_chains_def)
qed

lemma loaded_nodeports:
  "loaded opts services old chain_nodeports = concat (map node_port_rules (active_services services))"
  by (subst loaded_chain)
     (simp_all add: all_chains_def all_rules_def mark_rule of_chain_concat service_rules_nodeports
        node_port_dispatch_def)

lemma loaded_mark:
  "loaded opts services old chain_mark_masq = [\<lparr>r_chain = chain_mark_masq, r_matches = [], r_target = Set_mark\<rparr>]"
  by (subst loaded_chain)
     (simp_all add: all_chains_def all_rules_def mark_rule of_chain_concat service_rules_mark node_port_dispatch_def)

lemma active_distinct: "no_collisions services \<Longrightarrow> distinct (active_services services)"
  by (simp add: no_collisions_def distinct_map)

lemma loaded_svc:
  assumes "no_collisions services" "s \<in> set (active_services services)"
  shows "loaded opts services old (svc_chain s) = off_cluster_rules opts s @ balance_rules s"
proof -
  let ?as = "active_services services"
  have inj: "inj_on svc_chain (set ?as)" using assms(1) by (simp add: no_collisions_def distinct_map)
  have "concat (map (\<lambda>x. of_chain (svc_chain s) (service_rules opts x)) ?as)
          = of_chain (svc_chain s) (service_rules opts s)"
    by (rule concat_single [OF assms(2) active_distinct [OF assms(1)]])
       (use inj assms(2) in \<open>auto simp: service_rules_svc dest: inj_onD\<close>)
  then have "of_chain (svc_chain s) (all_rules opts services) = off_cluster_rules opts s @ balance_rules s"
    by (simp add: all_rules_def mark_rule of_chain_concat fixed_names service_rules_svc
          node_port_dispatch_def fixed_names_sym)
  then show ?thesis using assms(2) by (subst loaded_chain) (auto simp: all_chains_def service_chains_def)
qed

lemma distinct_concatD:
  "\<lbrakk>distinct (concat (map g xs)); x \<in> set xs; y \<in> set xs; distinct xs; v \<in> set (g x); v \<in> set (g y)\<rbrakk> \<Longrightarrow> x = y"
  by (induction xs) auto

lemma sep_chain_service:
  assumes "no_collisions services" "s \<in> set (active_services services)" "s' \<in> set (active_services services)"
    "e \<in> set (ready_endpoints s)" "e' \<in> set (ready_endpoints s')" "sep_chain s e = sep_chain s' e'"
  shows "s = s'"
proof (rule distinct_concatD [where g = "\<lambda>s. map (sep_chain s) (ready_endpoints s)"])
  show "distinct (concat (map (\<lambda>s. map (sep_chain s) (ready_endpoints s)) (active_services services)))"
    using assms(1) by (simp add: no_collisions_def)
  show "sep_chain s e \<in> set (map (sep_chain s') (ready_endpoints s'))" using assms(5,6) by simp
qed (use assms active_distinct in \<open>auto intro: rev_image_eqI\<close>)

lemma sep_chains_distinct:
  assumes "no_collisions services" "s \<in> set (active_services services)"
  shows "distinct (map (sep_chain s) (ready_endpoints s))"
  using assms by (auto simp: no_collisions_def distinct_concat_iff)

lemma loaded_sep:
  assumes "no_collisions services" "s \<in> set (active_services services)" "e \<in> set (ready_endpoints s)"
  shows "loaded opts services old (sep_chain s e) = sep_rules s e"
proof -
  let ?as = "active_services services"
  have d: "distinct (map (sep_chain s) (ready_endpoints s))" by (rule sep_chains_distinct [OF assms(1,2)])
  then have inj: "inj_on (sep_chain s) (set (ready_endpoints s))" by (simp add: distinct_map)
  have "concat (map (\<lambda>x. of_chain (sep_chain s e) (service_rules opts x)) ?as)
          = of_chain (sep_chain s e) (service_rules opts s)"
  proof (rule concat_single [OF assms(2) active_distinct [OF assms(1)]])
    fix x assume "x \<in> set ?as" "x \<noteq> s"
    then have "\<forall>e' \<in> set (ready_endpoints x). sep_chain s e \<noteq> sep_chain x e'"
      using sep_chain_service [OF assms(1,2) _ assms(3)] by metis
    then show "of_chain (sep_chain s e) (service_rules opts x) = []" by (simp add: service_rules_sep)
  qed
  also have "\<dots> = (if sep_chain s e = sep_chain s e then sep_rules s e else [])"
    unfolding service_rules_sep
    by (rule concat_single [OF assms(3)]) (use d inj assms(3) in \<open>auto simp: distinct_map dest: inj_onD\<close>)
  finally have "of_chain (sep_chain s e) (all_rules opts services) = sep_rules s e"
    by (simp add: all_rules_def mark_rule of_chain_concat fixed_names node_port_dispatch_def fixed_names_sym)
  then show ?thesis using assms(2,3) by (subst loaded_chain) (auto simp: all_chains_def service_chains_def)
qed

section \<open>Traversing them\<close>

text \<open>Which of \<open>xs\<close> the draws pick, when each of the rules but the last takes one packet in as
  many as are left.\<close>
fun pick :: "(nat \<Rightarrow> bool) \<Rightarrow> 'a list \<Rightarrow> 'a" where
  "pick coin [] = undefined"
| "pick coin [x] = x"
| "pick coin (x # y # xs) = (if coin (length xs + 2) then x else pick coin (y # xs))"

lemma pick_in: "xs \<noteq> [] \<Longrightarrow> pick coin xs \<in> set xs"
  by (induction coin xs rule: pick.induct) auto

lemma pick_map: "xs \<noteq> [] \<Longrightarrow> pick coin (map f xs) = f (pick coin xs)"
  by (induction coin xs rule: pick.induct) auto

fun balance :: "string \<Rightarrow> string list \<Rightarrow> rule list" where
  "balance c [] = []"
| "balance c (x # xs) =
     \<lparr>r_chain = c, r_matches = (if xs = [] then [] else [Random (length xs + 1)]), r_target = Jump_to x\<rparr>
       # balance c xs"

lemma balance_enumerate:
  "map (\<lambda>(i, sep). let remaining = (k + length xs) - i in
          \<lparr>r_chain = c, r_matches = (if remaining > 1 then [Random remaining] else []), r_target = Jump_to sep\<rparr>)
     (enumerate k xs) = balance c xs"
proof (induction xs arbitrary: k)
  case (Cons x xs)
  show ?case using Cons [of "Suc k"] by (simp add: Let_def)
qed simp

lemma balance_rules_eq: "balance_rules s = balance (svc_chain s) (map (sep_chain s) (ready_endpoints s))"
  using balance_enumerate [of 0 "map (sep_chain s) (ready_endpoints s)" "svc_chain s"]
  by (simp only: balance_rules_def Let_def add_0)

lemma traverse_skip:
  "\<forall>r \<in> set rs. \<not> list_all (holds cidr coin p) (r_matches r) \<Longrightarrow>
     traverse cidr coin t n (rs @ qs) p = traverse cidr coin t n qs p"
  by (induction rs) auto

text \<open>A chain that sends every packet on, met through the balancing rules.\<close>
lemma traverse_balance:
  assumes "xs \<noteq> []" "\<And>x. x \<in> set xs \<Longrightarrow> \<exists>ip port q. traverse cidr coin t k (t x) p = (Sent_to ip port, q)"
  shows "traverse cidr coin t (Suc k) (balance c xs) p = traverse cidr coin t k (t (pick coin xs)) p"
  using assms
proof (induction coin xs rule: pick.induct)
  case (2 coin x)
  then obtain ip port q where "traverse cidr coin t k (t x) p = (Sent_to ip port, q)" by auto
  then show ?case by simp
next
  case (3 coin x y xs)
  obtain ip port q where *: "traverse cidr coin t k (t x) p = (Sent_to ip port, q)" using "3.prems" by force
  show ?case
  proof (cases "coin (length xs + 2)")
    case True
    then show ?thesis using * by simp
  next
    case False
    then show ?thesis using "3.IH" "3.prems" by simp
  qed
qed simp

lemma traverse_mark:
  "t chain_mark_masq = [\<lparr>r_chain = c, r_matches = [], r_target = Set_mark\<rparr>] \<Longrightarrow>
     traverse cidr coin t (Suc k) (\<lparr>r_chain = d, r_matches = ms, r_target = Jump_to chain_mark_masq\<rparr> # rs) p =
     traverse cidr coin t (Suc k) rs (if list_all (holds cidr coin p) ms then p\<lparr>pk_marked := True\<rparr> else p)"
  by simp

text \<open>A packet of the Service's protocol in an endpoint's chain.\<close>
lemma traverse_sep:
  assumes "t chain_mark_masq = [\<lparr>r_chain = c, r_matches = [], r_target = Set_mark\<rparr>]" "pk_proto p = svc_proto s"
  shows "traverse cidr coin t (Suc k) (sep_rules s e) p =
           (Sent_to (ep_ip e) (ep_port e), p\<lparr>pk_marked := pk_marked p \<or> pk_src p = ep_ip e\<rparr>)"
  using assms by (simp add: sep_rules_def)

lemma matches_address:
  "list_all (holds cidr coin p) (cluster_ip_matches s) \<longleftrightarrow> cluster_address s = (pk_dst p, pk_dport p, pk_proto p)"
  by (auto simp: cluster_ip_matches_def cluster_address_def)

lemma dispatch_holds:
  "list_all (holds cidr coin p) (r_matches (dispatch_rule s)) \<longleftrightarrow>
     cluster_address s = (pk_dst p, pk_dport p, pk_proto p)"
  by (simp add: dispatch_rule_def matches_address)

text \<open>A packet to the Service's own address from outside the cluster's addresses.\<close>
definition off_cluster :: "(string \<Rightarrow> string \<Rightarrow> bool) \<Rightarrow> rule_options \<Rightarrow> service_info \<Rightarrow> packet \<Rightarrow> bool" where
  "off_cluster cidr opts s p =
     ((case ro_cluster_cidr opts of None \<Rightarrow> False | Some c \<Rightarrow> \<not> cidr c (pk_src p)) \<and>
      cluster_address s = (pk_dst p, pk_dport p, pk_proto p))"

lemma traverse_off_cluster:
  assumes "t chain_mark_masq = [\<lparr>r_chain = c, r_matches = [], r_target = Set_mark\<rparr>]"
  shows "traverse cidr coin t (Suc k) (off_cluster_rules opts s @ rs) p =
           traverse cidr coin t (Suc k) rs (if off_cluster cidr opts s p then p\<lparr>pk_marked := True\<rparr> else p)"
  by (simp add: off_cluster_rules_def off_cluster_def traverse_mark [of t, OF assms] matches_address
        del: traverse.simps split: option.splits)

text \<open>A packet that reaches a Service's chain, by its ClusterIP or by its NodePort.\<close>
lemma traverse_svc:
  assumes nc: "no_collisions services" and s: "s \<in> set (active_services services)"
    and proto: "pk_proto p = svc_proto s"
  shows "traverse cidr coin (loaded opts services old) (Suc (Suc k)) (loaded opts services old (svc_chain s)) p =
      (let e = pick coin (ready_endpoints s) in
       (Sent_to (ep_ip e) (ep_port e),
        p\<lparr>pk_marked := pk_marked p \<or> off_cluster cidr opts s p \<or> pk_src p = ep_ip e\<rparr>))"
proof -
  let ?t = "loaded opts services old" and ?es = "ready_endpoints s"
  define q where "q = (if off_cluster cidr opts s p then p\<lparr>pk_marked := True\<rparr> else p)"
  have ne: "?es \<noteq> []" using s by (simp add: active_services_def has_rules_def)
  have q: "pk_proto q = svc_proto s" "pk_src q = pk_src p" "pk_marked q = (pk_marked p \<or> off_cluster cidr opts s p)"
    using proto by (simp_all add: q_def)
  have "traverse cidr coin ?t (Suc (Suc k)) (?t (svc_chain s)) p
          = traverse cidr coin ?t (Suc (Suc k)) (balance_rules s) q"
    by (simp add: loaded_svc [OF nc s] traverse_off_cluster [of ?t, OF loaded_mark] q_def del: traverse.simps)
  also have "\<dots> = traverse cidr coin ?t (Suc k) (?t (pick coin (map (sep_chain s) ?es))) q"
    unfolding balance_rules_eq
    by (rule traverse_balance) (use ne q in \<open>auto simp: loaded_sep [OF nc s] traverse_sep [of ?t, OF loaded_mark]\<close>)
  also have "\<dots> = (let e = pick coin ?es in
       (Sent_to (ep_ip e) (ep_port e), q\<lparr>pk_marked := pk_marked q \<or> pk_src q = ep_ip e\<rparr>))"
    using q by (simp add: pick_map [OF ne] loaded_sep [OF nc s pick_in [OF ne]] traverse_sep [of ?t, OF loaded_mark] Let_def)
  finally show ?thesis by (simp add: q Let_def) (auto simp: q_def)
qed


lemma traverse_no_dispatch:
  "\<forall>s \<in> set ss. cluster_address s \<noteq> (pk_dst p, pk_dport p, pk_proto p) \<Longrightarrow>
     traverse cidr coin t n (map dispatch_rule ss @ rs) p = traverse cidr coin t n rs p"
  by (rule traverse_skip) (auto simp: dispatch_holds)

text \<open>The Services a packet to a port of the node could mean.\<close>
definition node_address :: "service_info \<Rightarrow> (16 word \<times> string) option" where
  "node_address s = map_option (\<lambda>np. (np, svc_proto s)) (sk_node_port (si_key s))"

lemma traverse_node_port_other:
  "node_address s \<noteq> Some (pk_dport p, pk_proto p) \<Longrightarrow>
     traverse cidr coin t n (node_port_rules s @ rs) p = traverse cidr coin t n rs p"
  by (rule traverse_skip) (auto simp: node_port_rules_def node_address_def Let_def split: option.splits)

lemma traverse_node_port:
  assumes "t chain_mark_masq = [\<lparr>r_chain = c, r_matches = [], r_target = Set_mark\<rparr>]"
    "node_address s = Some (pk_dport p, pk_proto p)"
    "traverse cidr coin t (Suc k) (t (svc_chain s)) (p\<lparr>pk_marked := True\<rparr>) = (Sent_to ip port, q)"
  shows "traverse cidr coin t (Suc (Suc k)) (node_port_rules s @ rs) p = (Sent_to ip port, q)"
  using assms by (auto simp: node_port_rules_def node_address_def Let_def)

lemma traverse_node_ports:
  assumes "t chain_mark_masq = [\<lparr>r_chain = c, r_matches = [], r_target = Set_mark\<rparr>]"
    "s \<in> set ss" "node_address s = Some (pk_dport p, pk_proto p)"
    "\<And>s'. \<lbrakk>s' \<in> set ss; node_address s' = node_address s\<rbrakk> \<Longrightarrow> s' = s"
    "traverse cidr coin t (Suc k) (t (svc_chain s)) (p\<lparr>pk_marked := True\<rparr>) = (Sent_to ip port, q)"
  shows "traverse cidr coin t (Suc (Suc k)) (concat (map node_port_rules ss)) p = (Sent_to ip port, q)"
  using assms
proof (induction ss)
  case (Cons x ss)
  show ?case
  proof (cases "node_address x = node_address s")
    case True
    then have "x = s" using Cons.prems(4) by simp
    then show ?thesis using traverse_node_port [OF Cons.prems(1,3,5)] by (simp del: traverse.simps)
  next
    case False
    then have "s \<in> set ss" using Cons.prems(2) by auto
    then show ?thesis
      using Cons False traverse_node_port_other [of x p] by (simp del: traverse.simps)
  qed
qed simp

lemma active_iff: "s \<in> set (active_services services) \<longleftrightarrow> s \<in> set services \<and> has_rules s"
  by (auto simp: active_services_def sort_services_def)

text \<open>The chance that a rule whose draw is fair takes a packet, and that the \<open>i\<close>-th rule of a
  list is the first to.\<close>
fun match_chance :: "rule_match \<Rightarrow> real" where
  "match_chance (Random k) = 1 / real k"
| "match_chance _ = 1"

fun first_taken :: "rule list \<Rightarrow> nat \<Rightarrow> real" where
  "first_taken [] i = 0"
| "first_taken (r # rs) 0 = prod_list (map match_chance (r_matches r))"
| "first_taken (r # rs) (Suc i) = (1 - prod_list (map match_chance (r_matches r))) * first_taken rs i"

lemma balance_shares: "i < length xs \<Longrightarrow> first_taken (balance c xs) i = 1 / real (length xs)"
proof (induction xs arbitrary: i)
  case (Cons x xs)
  show ?case
  proof (cases i)
    case 0
    then show ?thesis by simp
  next
    case (Suc j)
    then have j: "j < length xs" "xs \<noteq> []" using Cons.prems by auto
    then have "1 - 1 / (1 + real (length xs)) = real (length xs) / (1 + real (length xs))"
      by (simp add: field_simps)
    then show ?thesis using Cons.IH [OF j(1)] Suc j by simp
  qed
qed simp

text \<open>A Service with two ready backends and one that is not, for the witnesses.\<close>
definition sample_service :: service_info where
  "sample_service =
     \<lparr>si_key = \<lparr>sk_namespace = ''d'', sk_name = ''w'', sk_cluster_ip = ''10.96.0.1'', sk_port = 80,
                sk_protocol = ''TCP'', sk_node_port = Some 30080\<rparr>,
      si_port_name = '''',
      si_endpoints = [\<lparr>ep_ip = ''10.1.0.2'', ep_port = 8080, ep_ready = True\<rparr>,
                      \<lparr>ep_ip = ''10.1.0.3'', ep_port = 8080, ep_ready = False\<rparr>,
                      \<lparr>ep_ip = ''10.1.0.4'', ep_port = 8080, ep_ready = True\<rparr>],
      si_session_affinity = False\<rparr>"

section \<open>Properties\<close>


text \<open>C19. Each of a Service's ready endpoints gets the same share of new connections: with every rule
  that takes one in \<open>k\<close> doing so with probability \<open>1 / k\<close>, the chance that the first rule to
  take the packet is the \<open>i\<close>-th is one over the number of endpoints, for each \<open>i\<close>. (The rules
  carry the probability rounded to five digits.)\<close>
theorem endpoints_get_equal_shares:
  assumes "i < length (ready_endpoints s)"
  shows "first_taken (balance_rules s) i = 1 / real (length (ready_endpoints s))"
  using assms by (simp add: balance_rules_eq balance_shares)

theorem endpoints_get_equal_shares_witness:
  "first_taken (balance_rules sample_service) 1 = 1 / 2"
  using endpoints_get_equal_shares [of 1 sample_service]
  by (simp add: ready_endpoints_def sample_service_def)

lemma sample_seeds:
  "endpoint_seed (si_key sample_service) ''10.1.0.2'' 8080 = ''d/w:80:TCP->10.1.0.2:8080''"
  "endpoint_seed (si_key sample_service) ''10.1.0.4'' 8080 = ''d/w:80:TCP->10.1.0.4:8080''"
  by code_simp+

lemma sample_hashes: "fnv ''d/w:80:TCP->10.1.0.2:8080'' \<noteq> fnv ''d/w:80:TCP->10.1.0.4:8080''"
  using fnv_uint [of "''d/w:80:TCP->10.1.0.2:8080''"] fnv_uint [of "''d/w:80:TCP->10.1.0.4:8080''"]
  by (auto simp: fnv_int_def)

lemma sample_ready:
  "ready_endpoints sample_service =
     [\<lparr>ep_ip = ''10.1.0.2'', ep_port = 8080, ep_ready = True\<rparr>, \<lparr>ep_ip = ''10.1.0.4'', ep_port = 8080, ep_ready = True\<rparr>]"
  by (simp add: ready_endpoints_def sample_service_def)

lemma sample_active: "active_services [sample_service] = [sample_service]"
  by (simp add: active_services_def sort_services_def has_rules_def sample_ready)
     (simp add: headless_def sample_service_def)

lemma sample_clean: "no_collisions [sample_service]" "one_address_each [sample_service]"
  by (simp_all add: no_collisions_def one_address_each_def sample_active sample_ready sep_chain_def
        endpoint_chain_name_def short_hash_inject sample_seeds sample_hashes)

lemma sample_has_rules: "has_rules sample_service"
  using sample_active by (simp add: active_services_def sort_services_def split: if_splits)

lemma sample_address: "cluster_address sample_service = (''10.96.0.1'', 80, ''tcp'')"
  by code_simp



text \<open>A packet no active Service answers to is left alone: a ClusterIP whose Service has no ready
  endpoint, or another address altogether.\<close>
theorem other_packets_untouched:
  assumes "\<And>s. \<lbrakk>s \<in> set services; has_rules s\<rbrakk> \<Longrightarrow> cluster_address s \<noteq> (pk_dst p, pk_dport p, pk_proto p)"
    "\<not> pk_local p"
  shows "traverse cidr coin (loaded opts services old) n (loaded opts services old chain_services) p
           = (Falls_through, p)"
  using assms by (simp add: loaded_services traverse_no_dispatch active_iff node_port_dispatch_def)

text \<open>A packet to a port of the node that is one Service's NodePort is marked for masquerade and
  sent to one of the Service's ready endpoints.\<close>
theorem node_port_delivered:
  assumes "no_collisions services" "s \<in> set services" "has_rules s" "pk_local p"
    "node_address s = Some (pk_dport p, pk_proto p)"
    "\<And>s'. \<lbrakk>s' \<in> set services; has_rules s'; node_address s' = node_address s\<rbrakk> \<Longrightarrow> s' = s"
    "\<And>s'. \<lbrakk>s' \<in> set services; has_rules s'\<rbrakk> \<Longrightarrow> cluster_address s' \<noteq> (pk_dst p, pk_dport p, pk_proto p)"
    "4 \<le> n"
  shows "\<exists>e \<in> set (ready_endpoints s).
    traverse cidr coin (loaded opts services old) n (loaded opts services old chain_services) p =
      (Sent_to (ep_ip e) (ep_port e), p\<lparr>pk_marked := True\<rparr>)"
proof -
  let ?t = "loaded opts services old" and ?e = "pick coin (ready_endpoints s)"
  obtain k where n: "n = Suc (Suc (Suc (Suc k)))"
    using le_Suc_ex [OF assms(8)] by (auto simp: eval_nat_numeral)
  have s: "s \<in> set (active_services services)" using assms(2,3) by (simp add: active_iff)
  have proto: "pk_proto (p\<lparr>pk_marked := True\<rparr>) = svc_proto s" using assms(5) by (auto simp: node_address_def)
  have ne: "ready_endpoints s \<noteq> []" using assms(3) by (simp add: has_rules_def)
  have "traverse cidr coin ?t (Suc (Suc k)) (?t (svc_chain s)) (p\<lparr>pk_marked := True\<rparr>)
          = (Sent_to (ep_ip ?e) (ep_port ?e), p\<lparr>pk_marked := True\<rparr>)"
    using traverse_svc [OF assms(1) s proto] by (simp add: Let_def)
  then have "traverse cidr coin ?t (Suc (Suc (Suc k))) (concat (map node_port_rules (active_services services))) p
          = (Sent_to (ep_ip ?e) (ep_port ?e), p\<lparr>pk_marked := True\<rparr>)"
    by (intro traverse_node_ports [of ?t, OF loaded_mark s assms(5)]) (simp_all add: assms(6) active_iff)
  then have "traverse cidr coin ?t n (?t chain_services) p = (Sent_to (ep_ip ?e) (ep_port ?e), p\<lparr>pk_marked := True\<rparr>)"
    using assms(4,7) by (simp add: n loaded_services traverse_no_dispatch active_iff node_port_dispatch_def loaded_nodeports)
  then show ?thesis using pick_in [OF ne] by blast
qed

theorem node_port_delivered_witness:
  "\<exists>e \<in> set (ready_endpoints sample_service).
    traverse (\<lambda>c a. False) (\<lambda>n. False) (loaded \<lparr>ro_cluster_cidr = None\<rparr> [sample_service] (\<lambda>c. [])) 4
      (loaded \<lparr>ro_cluster_cidr = None\<rparr> [sample_service] (\<lambda>c. []) chain_services)
      \<lparr>pk_src = ''192.0.2.1'', pk_dst = ''192.0.2.2'', pk_proto = ''tcp'', pk_dport = 30080, pk_local = True,
       pk_marked = False\<rparr> =
    (Sent_to (ep_ip e) (ep_port e),
      \<lparr>pk_src = ''192.0.2.1'', pk_dst = ''192.0.2.2'', pk_proto = ''tcp'', pk_dport = 30080, pk_local = True,
       pk_marked = False\<rparr>\<lparr>pk_marked := True\<rparr>)"
proof (rule node_port_delivered [OF sample_clean(1)])
  have "node_address sample_service = Some (30080, ''tcp'')" by code_simp
  then show "node_address sample_service = Some (pk_dport \<lparr>pk_src = ''192.0.2.1'', pk_dst = ''192.0.2.2'',
      pk_proto = ''tcp'', pk_dport = 30080, pk_local = True, pk_marked = False\<rparr>, pk_proto \<lparr>pk_src = ''192.0.2.1'',
      pk_dst = ''192.0.2.2'', pk_proto = ''tcp'', pk_dport = 30080, pk_local = True, pk_marked = False\<rparr>)" by simp
qed (simp_all add: sample_has_rules sample_address)

end
