(* ===== verification/Conntrack.thy ===== *)
theory Conntrack
  imports ServiceMap
begin

text \<open>Stale UDP connection-tracking entries (\<open>src/pkg/proxy/src/conntrack.rs\<close>): the UDP backends
  a rule set sent to, and the deletions that going from one to the next calls for. The second
  section is the specification: which entries those deletions remove from the kernel's table.\<close>

section \<open>Backends and deletions\<close>

text \<open>Per Service port: its ClusterIP, NodePort and ready endpoint addresses.\<close>
type_synonym udp_backends = "(string \<times> string \<times> 16 word option \<times> string set) list"

definition udp_key :: "service_info \<Rightarrow> string" where
  "udp_key s = sk_namespace (si_key s) @ ''/'' @ sk_name (si_key s) @ '':'' @ show_port (sk_port (si_key s))"

definition is_udp :: "service_info \<Rightarrow> bool" where
  "is_udp s = (to_ascii_lowercase (sk_protocol (si_key s)) = ''udp'')"

definition udp_of :: "service_info list \<Rightarrow> udp_backends" where
  "udp_of services =
     foldl (\<lambda>m s. AList.update (udp_key s)
              (sk_cluster_ip (si_key s), sk_node_port (si_key s), set (map ep_ip (ready_endpoints s))) m)
       [] (filter is_udp services)"

text \<open>The arguments of one \<open>conntrack -D\<close>.\<close>
type_synonym delete = "string list"

definition delete_service :: "string \<Rightarrow> delete" where
  "delete_service ip = [''-D'', ''-p'', ''udp'', ''--orig-dst'', ip]"

definition delete_backend :: "string \<Rightarrow> 16 word option \<Rightarrow> string \<Rightarrow> delete list" where
  "delete_backend ip np gone =
     [''-D'', ''-p'', ''udp'', ''--orig-dst'', ip, ''--dst-nat'', gone]
       # (case np of None \<Rightarrow> []
          | Some p \<Rightarrow> [[''-D'', ''-p'', ''udp'', ''--dport'', show_port p, ''--dst-nat'', gone]])"

definition backends_at :: "udp_backends \<Rightarrow> string \<Rightarrow> string set" where
  "backends_at b k = (case map_of b k of Some (ip, np, ips) \<Rightarrow> ips | None \<Rightarrow> {})"

definition kept_port_deletes :: "udp_backends \<Rightarrow> string \<times> string \<times> 16 word option \<times> string set \<Rightarrow> delete list" where
  "kept_port_deletes before entry =
     (case entry of (k, ip, np, now) \<Rightarrow>
        let had = backends_at before k in
        (if had = {} \<and> now \<noteq> {} then [delete_service ip] else [])
          @ concat (map (delete_backend ip np) (sorted_list_of_set (had - now))))"

definition gone_port_deletes :: "udp_backends \<Rightarrow> string \<times> string \<times> 16 word option \<times> string set \<Rightarrow> delete list" where
  "gone_port_deletes after entry =
     (case entry of (k, ip, np, had) \<Rightarrow>
        if map_of after k \<noteq> None then []
        else concat (map (delete_backend ip np) (sorted_list_of_set had)))"

text \<open>Sorted and without duplicates.\<close>
definition stale :: "udp_backends \<Rightarrow> udp_backends \<Rightarrow> delete list" where
  "stale before after =
     sorted_list_of_set (set (concat (map (kept_port_deletes before) after)
                              @ concat (map (gone_port_deletes after) before)))"

section \<open>What the deletions remove\<close>

text \<open>A UDP entry: where the client sent to, and the backend the packets are translated to.\<close>
record flow =
  fl_orig_dst :: string
  fl_dport :: "16 word"
  fl_nat :: string

text \<open>The filters of a \<open>conntrack -D\<close>: an option and its value, all of which must match.\<close>
fun filters_match :: "string list \<Rightarrow> flow \<Rightarrow> bool" where
  "filters_match (opt # v # rest) f =
     ((if opt = ''-p'' then v = ''udp''
       else if opt = ''--orig-dst'' then fl_orig_dst f = v
       else if opt = ''--dport'' then show_port (fl_dport f) = v
       else if opt = ''--dst-nat'' then fl_nat f = v
       else False) \<and> filters_match rest f)"
| "filters_match [] f = True"
| "filters_match [x] f = False"

definition delete_matches :: "delete \<Rightarrow> flow \<Rightarrow> bool" where
  "delete_matches d f = (case d of [] \<Rightarrow> False | c # r \<Rightarrow> c = ''-D'' \<and> filters_match r f)"

definition run_deletes :: "delete list \<Rightarrow> flow list \<Rightarrow> flow list" where
  "run_deletes ds flows = filter (\<lambda>f. \<not> list_ex (\<lambda>d. delete_matches d f) ds) flows"

text \<open>A flow to a Service port's ClusterIP or NodePort.\<close>
definition flow_of :: "string \<Rightarrow> 16 word option \<Rightarrow> flow \<Rightarrow> bool" where
  "flow_of ip np f = (fl_orig_dst f = ip \<or> Some (fl_dport f) = np)"

lemma show_port_inject: "show_port p = show_port q \<longleftrightarrow> p = q"
  using parse_digits_show by (metis show_port_def option.inject word_unat_eq_iff)

lemma udp_of_distinct: "distinct (map fst (udp_of services))"
  unfolding udp_of_def
  by (rule foldl_keeps [where P = "\<lambda>m. distinct (map fst m)"]) (simp_all add: distinct_update)

lemma udp_of_all_finite: "\<forall>(k, ip, np, ips) \<in> set (udp_of services). finite ips"
  unfolding udp_of_def
  by (rule foldl_keeps [where P = "\<lambda>m. \<forall>(k, ip, np, ips) \<in> set m. finite ips"])
     (auto dest!: alist_update_cases)

lemma udp_of_finite: "map_of (udp_of services) k = Some (ip, np, ips) \<Longrightarrow> finite ips"
  using udp_of_all_finite [of services] by (fastforce dest: map_of_SomeD)

lemma backends_finite: "finite (backends_at (udp_of services) k)"
  by (auto simp: backends_at_def udp_of_finite split: option.splits)

lemma delete_service_matches: "delete_matches (delete_service ip) f \<longleftrightarrow> fl_orig_dst f = ip"
  by (simp add: delete_matches_def delete_service_def)

lemma delete_backend_matches:
  "(\<exists>d \<in> set (delete_backend ip np gone). delete_matches d f) \<longleftrightarrow> flow_of ip np f \<and> fl_nat f = gone"
  by (auto simp: delete_matches_def delete_backend_def flow_of_def show_port_inject split: option.splits)

text \<open>A port that stays: its backends that left, and every entry to it when it had none.\<close>
lemma kept_port_matches:
  assumes "finite (backends_at before k)"
  shows "(\<exists>d \<in> set (kept_port_deletes before (k, ip, np, now)). delete_matches d f) \<longleftrightarrow>
     (backends_at before k = {} \<and> now \<noteq> {} \<and> fl_orig_dst f = ip) \<or>
     (flow_of ip np f \<and> fl_nat f \<in> backends_at before k - now)"
proof -
  have "(\<exists>d \<in> set (concat (map (delete_backend ip np) (sorted_list_of_set (backends_at before k - now)))). delete_matches d f)
          \<longleftrightarrow> (\<exists>g \<in> backends_at before k - now. flow_of ip np f \<and> fl_nat f = g)"
    using assms delete_backend_matches by simp
  then show ?thesis
    by (auto simp: kept_port_deletes_def Let_def delete_service_matches bex_Un)
qed

lemma gone_port_matches:
  assumes "finite had" "map_of after k = None"
  shows "(\<exists>d \<in> set (gone_port_deletes after (k, ip, np, had)). delete_matches d f) \<longleftrightarrow>
     flow_of ip np f \<and> fl_nat f \<in> had"
  using assms delete_backend_matches [of ip np _ f] by (auto simp: gone_port_deletes_def)

lemma in_stale:
  "d \<in> set (stale before after) \<longleftrightarrow>
     (\<exists>e \<in> set after. d \<in> set (kept_port_deletes before e)) \<or> (\<exists>e \<in> set before. d \<in> set (gone_port_deletes after e))"
  by (simp add: stale_def bex_Un)

lemma stale_kept: "\<lbrakk>e \<in> set after; \<exists>d \<in> set (kept_port_deletes before e). P d\<rbrakk> \<Longrightarrow> \<exists>d \<in> set (stale before after). P d"
  unfolding Bex_def in_stale by blast

lemma stale_gone: "\<lbrakk>e \<in> set before; \<exists>d \<in> set (gone_port_deletes after e). P d\<rbrakk> \<Longrightarrow> \<exists>d \<in> set (stale before after). P d"
  unfolding Bex_def in_stale by blast

lemma backends_at_mem: "x \<in> backends_at b k \<longleftrightarrow> (\<exists>ip np ips. map_of b k = Some (ip, np, ips) \<and> x \<in> ips)"
  by (cases "map_of b k") (auto simp: backends_at_def)

section \<open>Properties\<close>

text \<open>C17. After a change of the rules no UDP flow is left that goes, by a Service port's address, to
  an endpoint the port no longer has: if the port had the endpoint, keeps its ClusterIP and its
  NodePort (or is gone altogether), and the flow survived the deletions, then the port still has
  that endpoint.\<close>
theorem no_flow_to_departed_endpoint:
  assumes "map_of (udp_of services) k = Some (ip, np, had)"
    "\<And>ip' np' now. map_of (udp_of services') k = Some (ip', np', now) \<Longrightarrow> ip' = ip \<and> np' = np"
    "f \<in> set (run_deletes (stale (udp_of services) (udp_of services')) flows)"
    "flow_of ip np f" "fl_nat f \<in> had"
  shows "\<exists>now. map_of (udp_of services') k = Some (ip, np, now) \<and> fl_nat f \<in> now"
proof (rule ccontr)
  let ?b = "udp_of services" and ?a = "udp_of services'"
  assume *: "\<not> ?thesis"
  have "\<exists>d \<in> set (stale ?b ?a). delete_matches d f"
  proof (cases "map_of ?a k")
    case None
    then have "\<exists>d \<in> set (gone_port_deletes ?a (k, ip, np, had)). delete_matches d f"
      using assms(4,5) gone_port_matches udp_of_finite [OF assms(1)] by blast
    then show ?thesis by (rule stale_gone [OF map_of_SomeD [OF assms(1)]])
  next
    case (Some x)
    then obtain now where now: "map_of ?a k = Some (ip, np, now)" using assms(2) by (cases x) auto
    then have "fl_nat f \<in> backends_at ?b k - now" using * assms(1,5) by (auto simp: backends_at_def)
    then have "\<exists>d \<in> set (kept_port_deletes ?b (k, ip, np, now)). delete_matches d f"
      using kept_port_matches [OF backends_finite] assms(4) by blast
    then show ?thesis by (rule stale_kept [OF map_of_SomeD [OF now]])
  qed
  then show False using assms(3) by (auto simp: run_deletes_def list_ex_iff)
qed

text \<open>And a flow is deleted for one of three reasons only: its Service port lost the endpoint, its
  Service port is gone, or the flow is to a Service port that just got its first endpoints.\<close>
theorem deleted_flow_was_stale:
  assumes "f \<in> set flows" "f \<notin> set (run_deletes (stale (udp_of services) (udp_of services')) flows)"
  shows "(\<exists>k ip np had now. map_of (udp_of services) k = Some (ip, np, had) \<and> fl_nat f \<in> had - now \<and>
            (\<exists>ip' np'. map_of (udp_of services') k = Some (ip', np', now) \<and> flow_of ip' np' f)) \<or>
         (\<exists>k ip np had. map_of (udp_of services) k = Some (ip, np, had) \<and> fl_nat f \<in> had \<and>
            flow_of ip np f \<and> map_of (udp_of services') k = None) \<or>
         (\<exists>k ip np now. map_of (udp_of services') k = Some (ip, np, now) \<and> now \<noteq> {} \<and>
            backends_at (udp_of services) k = {} \<and> fl_orig_dst f = ip)"
    (is "?lost \<or> ?gone \<or> ?first")
proof -
  let ?b = "udp_of services" and ?a = "udp_of services'"
  obtain d where d: "d \<in> set (stale ?b ?a)" "delete_matches d f"
    using assms by (auto simp: run_deletes_def list_ex_iff)
  from d(1) consider (kept) k ip np now where "(k, ip, np, now) \<in> set ?a" "d \<in> set (kept_port_deletes ?b (k, ip, np, now))"
    | (gone) k ip np had where "(k, ip, np, had) \<in> set ?b" "d \<in> set (gone_port_deletes ?a (k, ip, np, had))"
    by (auto simp: in_stale)
  then show ?thesis
  proof cases
    case kept
    then have m: "map_of ?a k = Some (ip, np, now)" by (simp add: map_of_is_SomeI udp_of_distinct)
    from kept d(2) consider "backends_at ?b k = {}" "now \<noteq> {}" "fl_orig_dst f = ip"
      | "flow_of ip np f" "fl_nat f \<in> backends_at ?b k" "fl_nat f \<notin> now"
      using kept_port_matches [OF backends_finite] by blast
    then show ?thesis
    proof cases
      case 1
      then show ?thesis using m by blast
    next
      case 2
      then have ?lost using m unfolding backends_at_mem by blast
      then show ?thesis by blast
    qed
  next
    case gone
    then have m: "map_of ?b k = Some (ip, np, had)" by (simp add: map_of_is_SomeI udp_of_distinct)
    have n: "map_of ?a k = None" using gone(2) by (cases "map_of ?a k") (auto simp: gone_port_deletes_def)
    then have "flow_of ip np f \<and> fl_nat f \<in> had"
      using gone d(2) gone_port_matches [OF udp_of_finite [OF m] n] by blast
    then show ?thesis using m n by blast
  qed
qed

text \<open>The cluster's DNS with the given backends, for the witnesses.\<close>
definition dns_service :: "string list \<Rightarrow> service_info" where
  "dns_service ips =
     \<lparr>si_key = \<lparr>sk_namespace = ''s'', sk_name = ''dns'', sk_cluster_ip = ''10.96.0.10'', sk_port = 53,
                sk_protocol = ''UDP'', sk_node_port = None\<rparr>,
      si_port_name = ''dns'', si_endpoints = map (\<lambda>ip. \<lparr>ep_ip = ip, ep_port = 53, ep_ready = True\<rparr>) ips,
      si_session_affinity = False\<rparr>"

definition dns_flow :: "string \<Rightarrow> flow" where
  "dns_flow ip = \<lparr>fl_orig_dst = ''10.96.0.10'', fl_dport = 53, fl_nat = ip\<rparr>"

lemma dns_udp: "udp_of [dns_service ips] = [(''s/dns:53'', ''10.96.0.10'', None, set ips)]"
proof -
  have "udp_key (dns_service ips) = ''s/dns:53''" by (simp add: udp_key_def dns_service_def show_port_def) code_simp
  moreover have "is_udp (dns_service ips)" by (simp add: is_udp_def dns_service_def) code_simp
  moreover have "ep_ip ` set (ready_endpoints (dns_service ips)) = set ips"
    by (auto simp: ready_endpoints_def dns_service_def image_iff)
  moreover have "sk_cluster_ip (si_key (dns_service ips)) = ''10.96.0.10''" "sk_node_port (si_key (dns_service ips)) = None"
    by (simp_all add: dns_service_def)
  ultimately show ?thesis by (simp add: udp_of_def)
qed

theorem no_flow_to_departed_endpoint_witness:
  "\<exists>now. map_of (udp_of [dns_service [''10.1.0.3'', ''10.1.0.4'']]) ''s/dns:53'' = Some (''10.96.0.10'', None, now) \<and>
     fl_nat (dns_flow ''10.1.0.3'') \<in> now"
proof (rule no_flow_to_departed_endpoint [where services = "[dns_service [''10.1.0.2'', ''10.1.0.3'']]" and
        had = "set [''10.1.0.2'', ''10.1.0.3'']" and flows = "[dns_flow ''10.1.0.2'', dns_flow ''10.1.0.3'']"])
  have "run_deletes (stale [(''s/dns:53'', ''10.96.0.10'', None, set [''10.1.0.2'', ''10.1.0.3''])]
          [(''s/dns:53'', ''10.96.0.10'', None, set [''10.1.0.3'', ''10.1.0.4''])])
          [dns_flow ''10.1.0.2'', dns_flow ''10.1.0.3''] = [dns_flow ''10.1.0.3'']"
    by code_simp
  then show "dns_flow ''10.1.0.3'' \<in> set (run_deletes (stale (udp_of [dns_service [''10.1.0.2'', ''10.1.0.3'']])
       (udp_of [dns_service [''10.1.0.3'', ''10.1.0.4'']])) [dns_flow ''10.1.0.2'', dns_flow ''10.1.0.3''])"
    by (simp only: dns_udp) simp
qed (simp_all add: dns_udp flow_of_def dns_flow_def)

text \<open>Applying the same rules again deletes nothing.\<close>
lemma stale_same: "stale (udp_of services) (udp_of services) = []"
proof -
  have "kept_port_deletes (udp_of services) e = []" if "e \<in> set (udp_of services)" for e
  proof (cases e)
    case (fields k ip np now)
    then have "backends_at (udp_of services) k = now"
      using that by (simp add: backends_at_def map_of_is_SomeI udp_of_distinct)
    then show ?thesis by (simp add: kept_port_deletes_def fields)
  qed
  moreover have "gone_port_deletes (udp_of services) e = []" if "e \<in> set (udp_of services)" for e
  proof (cases e)
    case (fields k ip np had)
    then have "map_of (udp_of services) k \<noteq> None" using that by (simp add: map_of_is_SomeI udp_of_distinct)
    then show ?thesis by (simp add: gone_port_deletes_def fields)
  qed
  ultimately show ?thesis by (simp add: stale_def)
qed

end
