(* ===== verification/Proxy.thy ===== *)
theory Proxy
  imports NatPaths Conntrack
begin

text \<open>kube-proxy's pass (\<open>src/pkg/proxy/src/proxy.rs\<close>) and the applier it calls
  (\<open>IptablesRestoreApplier\<close> and \<open>ensure_jump\<close> of \<open>iptables.rs\<close>), with the node they act on: the
  rules last restored, the jumps in the built-in chains, the UDP flows. What the API server
  answers, the clock and which commands succeed are inputs of the pass. A refused restore changes
  nothing, as \<open>iptables-restore\<close> commits a table as a whole.\<close>

section \<open>State and inputs\<close>

record node =
  nd_rules :: "iptables_rules option"
  nd_jumps :: "jump list"
  nd_flows :: "flow list"

record proxy_config =
  pc_resync :: duration
  pc_cluster_cidr :: "string option"

record proxy =
  px_map :: service_map
  px_applied :: "(iptables_rules \<times> instant) option"
  px_udp :: udp_backends

text \<open>One pass: the two answers, whether \<open>iptables-restore\<close> succeeds, whether \<open>iptables\<close> can be
  run and an insertion succeeds for each jump, whether \<open>conntrack\<close> works, the time when the pass
  looks at the clock and when it has applied.\<close>
record pass_input =
  in_services :: "json list option"
  in_endpoints :: "json list option"
  in_restore_ok :: bool
  in_runs :: "jump \<Rightarrow> bool"
  in_inserts :: "jump \<Rightarrow> bool"
  in_conntrack_ok :: bool
  in_now :: instant
  in_done :: instant

definition proxy_start :: proxy where
  "proxy_start = \<lparr>px_map = [], px_applied = None, px_udp = []\<rparr>"

section \<open>Applying\<close>

text \<open>Look for the jump (\<open>-C\<close>); insert it at the top (\<open>-I\<close>) when it is missing.\<close>
definition ensure_jump :: "pass_input \<Rightarrow> jump \<Rightarrow> node \<Rightarrow> bool \<times> node" where
  "ensure_jump i j nd =
     (if \<not> in_runs i j then (False, nd)
      else if j \<in> set (nd_jumps nd) then (True, nd)
      else if in_inserts i j then (True, nd\<lparr>nd_jumps := j # nd_jumps nd\<rparr>)
      else (False, nd))"

fun ensure_jumps :: "pass_input \<Rightarrow> jump list \<Rightarrow> node \<Rightarrow> bool \<times> node" where
  "ensure_jumps i [] nd = (True, nd)"
| "ensure_jumps i (j # js) nd =
     (case ensure_jump i j nd of
        (True, nd') \<Rightarrow> ensure_jumps i js nd'
      | (False, nd') \<Rightarrow> (False, nd'))"

definition apply_rules :: "pass_input \<Rightarrow> iptables_rules \<Rightarrow> node \<Rightarrow> bool \<times> node" where
  "apply_rules i rules nd =
     (if in_restore_ok i then ensure_jumps i (ir_jumps rules) (nd\<lparr>nd_rules := Some rules\<rparr>)
      else (False, nd))"

section \<open>The pass\<close>

definition rules_due :: "proxy_config \<Rightarrow> pass_input \<Rightarrow> iptables_rules \<Rightarrow> (iptables_rules \<times> instant) option \<Rightarrow> bool" where
  "rules_due cfg i rules applied =
     (case applied of
        None \<Rightarrow> True
      | Some (previous, stamp) \<Rightarrow> previous \<noteq> rules \<or> since stamp (in_now i) \<ge> pc_resync cfg)"

definition sync_once :: "(nat \<Rightarrow> string) \<Rightarrow> proxy_config \<Rightarrow> pass_input \<Rightarrow> proxy \<times> node \<Rightarrow> proxy \<times> node" where
  "sync_once prob cfg i sn =
     (case sn of (px, nd) \<Rightarrow>
       (case sync_services_and_endpoints (in_services i) (in_endpoints i) (px_map px) of
          (False, m) \<Rightarrow> (px\<lparr>px_map := m\<rparr>, nd)
        | (True, m) \<Rightarrow>
            let px = px\<lparr>px_map := m\<rparr>;
                services = get_all m;
                rules = generate_rules_with prob services \<lparr>ro_cluster_cidr = pc_cluster_cidr cfg\<rparr>
            in if \<not> rules_due cfg i rules (px_applied px) then (px, nd)
               else (case apply_rules i rules nd of
                       (False, nd') \<Rightarrow> (px, nd')
                     | (True, nd') \<Rightarrow>
                         let deletes = stale (px_udp px) (udp_of services)
                         in (px\<lparr>px_applied := Some (rules, in_done i), px_udp := udp_of services\<rparr>,
                             if in_conntrack_ok i then nd'\<lparr>nd_flows := run_deletes deletes (nd_flows nd')\<rparr>
                             else nd'))))"



section \<open>Lemmas\<close>


lemma ensure_jump_keeps: "snd (ensure_jump i j nd) = nd' \<Longrightarrow>
   set (nd_jumps nd) \<subseteq> set (nd_jumps nd') \<and> nd_rules nd' = nd_rules nd \<and> nd_flows nd' = nd_flows nd \<and>
   (distinct (nd_jumps nd) \<longrightarrow> distinct (nd_jumps nd'))"
  by (auto simp: ensure_jump_def split: if_splits)

lemma ensure_jumps_keeps: "snd (ensure_jumps i js nd) = nd' \<Longrightarrow>
   set (nd_jumps nd) \<subseteq> set (nd_jumps nd') \<and> nd_rules nd' = nd_rules nd \<and> nd_flows nd' = nd_flows nd \<and>
   (distinct (nd_jumps nd) \<longrightarrow> distinct (nd_jumps nd'))"
proof (induction js arbitrary: nd)
  case (Cons j js)
  obtain ok nd1 where 1: "ensure_jump i j nd = (ok, nd1)" by fastforce
  then show ?case using Cons ensure_jump_keeps [of i j nd nd1] by (cases ok) fastforce+
qed simp



lemma generate_jumps: "ir_jumps (generate_rules_with prob services opts) = jumps"
  by (simp add: generate_rules_with_def)

section \<open>The rules are a function of the two lists\<close>

abbreviation sort_tuple :: "service_info \<Rightarrow> string \<times> string \<times> 16 word \<times> string" where
  "sort_tuple s \<equiv> (sk_namespace (si_key s), sk_name (si_key s), sk_port (si_key s), sk_protocol (si_key s))"

lemma sort_tuple_inj:
  assumes "map_wf m"
  shows "inj_on sort_tuple (set (get_all m))"
proof (rule inj_onI)
  fix s t assume s: "s \<in> set (get_all m)" and t: "t \<in> set (get_all m)" and eq: "sort_tuple s = sort_tuple t"
  from s t have "(info_key s, s) \<in> set m" "(info_key t, t) \<in> set m"
    using assms by (auto simp: get_all_def map_wf_def)
  moreover have "info_key s = info_key t" using eq by simp
  ultimately show "s = t" using assms by (metis map_wf_def eq_key_imp_eq_value)
qed

lemma sort_services_unique:
  assumes "map_wf m" "mset m = mset n"
  shows "sort_services (get_all m) = sort_services (get_all n)"
proof -
  have e: "mset (get_all m) = mset (get_all n)" using assms(2) by (simp add: get_all_def)
  show ?thesis unfolding sort_services_def
    by (rule sort_key_inj_key_eq) (use e sort_tuple_inj [OF assms(1)] in \<open>simp_all add: sort_key_const\<close>)
qed

lemma generate_same_order: "sort_services ss = sort_services ts \<Longrightarrow>
   generate_rules_with prob ss opts = generate_rules_with prob ts opts"
  by (simp add: generate_rules_with_def all_chains_def all_rules_def active_services_def)

text \<open>What a node that has seen nothing before would make of the two lists.\<close>
definition rules_for :: "(nat \<Rightarrow> string) \<Rightarrow> proxy_config \<Rightarrow> json list \<Rightarrow> json list \<Rightarrow> iptables_rules" where
  "rules_for prob cfg ss es =
     generate_rules_with prob (get_all (update_endpoints (update_services [] ss) es))
       \<lparr>ro_cluster_cidr = pc_cluster_cidr cfg\<rparr>"

text \<open>C18. The rules a pass generates depend on the two lists alone: not on what the map held before,
  whose backends the pass over the services carries over, and not on the order in which the map
  is iterated.\<close>
theorem rules_forget_history:
  assumes "map_wf m" "mset n = mset (update_endpoints (update_services m ss) es)"
  shows "generate_rules_with prob (get_all n) \<lparr>ro_cluster_cidr = pc_cluster_cidr cfg\<rparr> = rules_for prob cfg ss es"
proof -
  let ?m = "update_endpoints (update_services m ss) es" and ?n = "update_endpoints (update_services [] ss) es"
  have "map_wf ?n" by (intro update_endpoints_wf update_services_wf map_wf_nil)
  moreover have "mset ?n = mset n" using synced_same_entries [OF map_wf_nil assms(1)] assms(2) by simp
  ultimately show ?thesis
    unfolding rules_for_def by (intro generate_same_order sort_services_unique [symmetric])
qed

lemma generated_for:
  "map_wf m \<Longrightarrow> generate_rules_with prob (get_all (update_endpoints (update_services m ss) es))
     \<lparr>ro_cluster_cidr = pc_cluster_cidr cfg\<rparr> = rules_for prob cfg ss es"
  unfolding rules_for_def
  by (intro generate_same_order sort_services_unique update_endpoints_wf update_services_wf
        synced_same_entries map_wf_nil)

section \<open>The node follows the lists\<close>



definition fresh_node :: node where
  "fresh_node = \<lparr>nd_rules = None, nd_jumps = [], nd_flows = []\<rparr>"




text \<open>The three ways a pass with both lists goes.\<close>
lemma sync_once_lists:
  assumes "in_services i = Some ss" "in_endpoints i = Some es" "map_wf (px_map px)"
    "m = update_endpoints (update_services (px_map px) ss) es" "rules = rules_for prob cfg ss es"
  shows "sync_once prob cfg i (px, nd) =
    (if \<not> rules_due cfg i rules (px_applied px) then (px\<lparr>px_map := m\<rparr>, nd)
     else (case apply_rules i rules nd of
             (False, nd') \<Rightarrow> (px\<lparr>px_map := m\<rparr>, nd')
           | (True, nd') \<Rightarrow>
               (px\<lparr>px_map := m, px_applied := Some (rules, in_done i), px_udp := udp_of (get_all m)\<rparr>,
                if in_conntrack_ok i then nd'\<lparr>nd_flows := run_deletes (stale (px_udp px) (udp_of (get_all m))) (nd_flows nd')\<rparr>
                else nd')))"
  using assms generated_for [OF assms(3)]
  by (simp add: sync_once_def sync_services_and_endpoints_def Let_def split: prod.splits bool.splits)






section \<open>Properties\<close>


text \<open>But an apply that fails halfway, the restore done and a jump not inserted, is not recorded
  although its rules are on the node: when the lists go back to what was last recorded within the
  resync interval, the next pass finds nothing to do and the other rules stay.\<close>
theorem half_applied_rules_stay:
  assumes "map_wf (px_map px)" "px_applied px = Some (rules_for prob cfg ss es, stamp)"
    "rules_for prob cfg ss' es' \<noteq> rules_for prob cfg ss es"
    "in_services i = Some ss'" "in_endpoints i = Some es'" "in_restore_ok i" "j \<in> set jumps" "\<not> in_runs i j"
    "in_services i' = Some ss" "in_endpoints i' = Some es" "since stamp (in_now i') < pc_resync cfg"
  shows "nd_rules (snd (sync_once prob cfg i' (sync_once prob cfg i (px, nd)))) = Some (rules_for prob cfg ss' es')"
proof -
  let ?r' = "rules_for prob cfg ss' es'" and ?m = "update_endpoints (update_services (px_map px) ss') es'"
  have fails: "\<not> fst (ensure_jumps i js n)" if "j \<in> set js" for js n
    using that assms(8)
  proof (induction js arbitrary: n)
    case (Cons x js)
    then show ?case by (cases "ensure_jump i x n") (auto simp: ensure_jump_def split: if_splits bool.splits)
  qed simp
  have j: "ir_jumps ?r' = jumps" by (simp add: rules_for_def generate_jumps)
  obtain nd1 where a: "apply_rules i ?r' nd = (False, nd1)" and n: "nd_rules nd1 = Some ?r'"
    using fails [of jumps "nd\<lparr>nd_rules := Some ?r'\<rparr>"] assms(6,7) j
      ensure_jumps_keeps [OF refl, where i = i and js = jumps and nd = "nd\<lparr>nd_rules := Some ?r'\<rparr>"]
    by (cases "ensure_jumps i jumps (nd\<lparr>nd_rules := Some ?r'\<rparr>)") (auto simp: apply_rules_def)
  have 1: "sync_once prob cfg i (px, nd) = (px\<lparr>px_map := ?m\<rparr>, nd1)"
    using assms(2,3) by (simp add: sync_once_lists [OF assms(4,5,1) refl refl] rules_due_def a)
  have m: "map_wf ?m" by (intro update_endpoints_wf update_services_wf assms(1))
  show ?thesis
    using assms(2,11) m n
    by (simp add: 1 sync_once_lists [OF assms(9,10) _ refl refl] rules_due_def)
qed

section \<open>Witnesses\<close>

text \<open>One Service with one backend, as the API server lists them.\<close>
definition web_services :: "json list" where
  "web_services = [JObj [(''metadata'', JObj [(''name'', JStr ''w''), (''namespace'', JStr ''d'')]),
     (''spec'', JObj [(''clusterIP'', JStr ''10.96.0.1''),
                     (''ports'', JArr [JObj [(''port'', JInt 80), (''protocol'', JStr ''TCP'')]])])]]"

definition web_endpoints :: "json list" where
  "web_endpoints = [JObj [(''metadata'', JObj [(''name'', JStr ''w''), (''namespace'', JStr ''d'')]),
     (''subsets'', JArr [JObj [(''addresses'', JArr [JObj [(''ip'', JStr ''10.1.0.2'')]]),
                              (''ports'', JArr [JObj [(''port'', JInt 8080), (''protocol'', JStr ''TCP'')]])]])]]"

definition web_pass :: "json list \<Rightarrow> json list \<Rightarrow> bool \<Rightarrow> bool \<Rightarrow> pass_input" where
  "web_pass ss es restore runs =
     \<lparr>in_services = Some ss, in_endpoints = Some es, in_restore_ok = restore, in_runs = (\<lambda>j. runs),
      in_inserts = (\<lambda>j. True), in_conntrack_ok = True, in_now = 0, in_done = 0\<rparr>"

definition web_config :: proxy_config where
  "web_config = \<lparr>pc_resync = secs 60, pc_cluster_cidr = None\<rparr>"

definition web_prob :: "nat \<Rightarrow> string" where
  "web_prob n = ''0.50000''"

lemma web_map: "get_all (update_endpoints (update_services [] web_services) web_endpoints) =
   [\<lparr>si_key = \<lparr>sk_namespace = ''d'', sk_name = ''w'', sk_cluster_ip = ''10.96.0.1'', sk_port = 80,
               sk_protocol = ''TCP'', sk_node_port = None\<rparr>,
     si_port_name = '''', si_endpoints = [\<lparr>ep_ip = ''10.1.0.2'', ep_port = 8080, ep_ready = True\<rparr>],
     si_session_affinity = False\<rparr>]"
  by code_simp

lemma web_rules_differ: "rules_for prob cfg [] [] \<noteq> rules_for prob cfg web_services web_endpoints"
proof -
  have "length (ir_chains (rules_for prob cfg web_services web_endpoints)) = 6"
    by (simp add: rules_for_def web_map generate_rules_with_def all_chains_def active_services_def
          sort_services_def has_rules_def headless_def ready_endpoints_def service_chains_def)
  moreover have "length (ir_chains (rules_for prob cfg [] [])) = 4"
    by (simp add: rules_for_def generate_rules_with_def all_chains_def active_services_def sort_services_def
          get_all_def update_services_def update_endpoints_def)
  ultimately show ?thesis by auto
qed

theorem rules_forget_history_witness:
  "generate_rules_with web_prob
     (get_all (update_endpoints (update_services (update_endpoints (update_services [] web_services) web_endpoints) web_services) []))
     \<lparr>ro_cluster_cidr = pc_cluster_cidr web_config\<rparr> = rules_for web_prob web_config web_services []"
  by (rule rules_forget_history [OF update_endpoints_wf [OF update_services_wf [OF map_wf_nil]] refl])


theorem half_applied_rules_stay_witness:
  "nd_rules (snd (sync_once web_prob web_config (web_pass [] [] True True)
     (sync_once web_prob web_config (web_pass web_services web_endpoints True False)
        (proxy_start\<lparr>px_applied := Some (rules_for web_prob web_config [] [], 0)\<rparr>, fresh_node)))) =
   Some (rules_for web_prob web_config web_services web_endpoints)"
  by (rule half_applied_rules_stay [where ss = "[]" and es = "[]" and stamp = 0 and j = "hd jumps"])
     (simp_all add: proxy_start_def web_pass_def web_config_def web_rules_differ [symmetric] since_def jumps_def Let_def)

end
