(* ===== verification/ProxyClient.thy ===== *)
theory ProxyClient
  imports Json
begin

text \<open>The API server client of kube-proxy (\<open>src/pkg/proxy/src/client.rs\<close>): which credentials are
  used, the bearer token that is read again for every request, and what counts as a list. The
  file system is an argument: which paths exist, and what reading one gives (\<open>Inl\<close> the error).\<close>

record api_auth =
  ca_file :: "string option"
  token_file :: "string option"

abbreviation SA_CA_FILE :: string where
  "SA_CA_FILE \<equiv> ''/var/run/secrets/kubernetes.io/serviceaccount/ca.crt''"

abbreviation SA_TOKEN_FILE :: string where
  "SA_TOKEN_FILE \<equiv> ''/var/run/secrets/kubernetes.io/serviceaccount/token''"

definition pick_file :: "(string \<Rightarrow> bool) \<Rightarrow> string option \<Rightarrow> string \<Rightarrow> string \<Rightarrow> string + string option" where
  "pick_file exists given dflt what =
     (case given of
        Some p \<Rightarrow> if exists p then Inr (Some p) else Inl (what @ '' '' @ p @ '' does not exist'')
      | None \<Rightarrow> if exists dflt then Inr (Some dflt) else Inr None)"

definition resolve_with :: "(string \<Rightarrow> bool) \<Rightarrow> string option \<Rightarrow> string option \<Rightarrow> string \<Rightarrow> string \<Rightarrow> string + api_auth" where
  "resolve_with exists ca token default_ca default_token =
     (case pick_file exists ca default_ca ''CA file'' of
        Inl e \<Rightarrow> Inl e
      | Inr c \<Rightarrow>
          (case pick_file exists token default_token ''token file'' of
             Inl e \<Rightarrow> Inl e
           | Inr t \<Rightarrow> Inr \<lparr>ca_file = c, token_file = t\<rparr>))"

definition resolve :: "(string \<Rightarrow> bool) \<Rightarrow> string option \<Rightarrow> string option \<Rightarrow> string + api_auth" where
  "resolve exists ca token = resolve_with exists ca token SA_CA_FILE SA_TOKEN_FILE"

definition read_token :: "(string \<Rightarrow> string + string) \<Rightarrow> string \<Rightarrow> string + string" where
  "read_token read f =
     (case read f of
        Inl e \<Rightarrow> Inl (''reading token file '' @ f @ '': '' @ e)
      | Inr text \<Rightarrow>
          let t = trim text in
          if t = [] then Inl (''token file '' @ f @ '' is empty'') else Inr t)"

text \<open>The client: its token file, and the last token read.\<close>
record api_client =
  ac_token_file :: "string option"
  ac_token :: "string option"

text \<open>The start; a token file that cannot be read is an error. (The CA and the HTTP client are
  libraries'.)\<close>
definition new_client :: "(string \<Rightarrow> string + string) \<Rightarrow> api_auth \<Rightarrow> string + api_client" where
  "new_client read auth =
     (case token_file auth of
        None \<Rightarrow> Inr \<lparr>ac_token_file = None, ac_token = None\<rparr>
      | Some f \<Rightarrow>
          (case read_token read f of
             Inl e \<Rightarrow> Inl e
           | Inr t \<Rightarrow> Inr \<lparr>ac_token_file = Some f, ac_token = Some t\<rparr>))"

definition current_token :: "(string \<Rightarrow> string + string) \<Rightarrow> api_client \<Rightarrow> string option \<times> api_client" where
  "current_token read c =
     (case ac_token_file c of
        None \<Rightarrow> (None, c)
      | Some f \<Rightarrow>
          (case read_token read f of
             Inr t \<Rightarrow> (Some t, c\<lparr>ac_token := Some t\<rparr>)
           | Inl e \<Rightarrow> (ac_token c, c)))"

text \<open>A list is only a list when the API server says so.\<close>
definition list_items :: "json \<Rightarrow> json list option" where
  "list_items body =
     (case jget_opt body ''items'' of
        Some (JArr items) \<Rightarrow> Some items
      | Some JNull \<Rightarrow> Some []
      | _ \<Rightarrow> None)"

text \<open>The end of \<open>list\<close>: the status and the body of the answer, or that there is none.\<close>
definition list_answer :: "(nat \<times> json option) option \<Rightarrow> json list option" where
  "list_answer resp =
     (case resp of
        None \<Rightarrow> None
      | Some (status, body) \<Rightarrow>
          if \<not> (200 \<le> status \<and> status < 300) then None else Option.bind body list_items)"

section \<open>The token is never lost\<close>

text \<open>A sequence of requests, each with the file system as it is then.\<close>
fun tokens_sent :: "(string \<Rightarrow> string + string) list \<Rightarrow> api_client \<Rightarrow> string option list" where
  "tokens_sent [] c = []"
| "tokens_sent (r # rs) c = (case current_token r c of (t, c') \<Rightarrow> t # tokens_sent rs c')"

definition token_ok :: "api_client \<Rightarrow> bool" where
  "token_ok c = (ac_token_file c \<noteq> None \<longrightarrow> ac_token c \<noteq> None \<and> ac_token c \<noteq> Some [])"

lemma new_client_ok: "new_client r auth = Inr c \<Longrightarrow> token_ok c \<and> ac_token_file c = token_file auth"
  by (auto simp: new_client_def token_ok_def read_token_def Let_def split: option.splits sum.splits if_splits)

lemma current_token_ok:
  "\<lbrakk>token_ok c; current_token r c = (t, c')\<rbrakk> \<Longrightarrow>
     token_ok c' \<and> ac_token_file c' = ac_token_file c \<and> (ac_token_file c \<noteq> None \<longrightarrow> t \<noteq> None \<and> t \<noteq> Some [])"
  by (cases c)
     (auto simp: current_token_def token_ok_def read_token_def Let_def split: option.splits sum.splits if_splits)

lemma tokens_sent_ok: "\<lbrakk>token_ok c; ac_token_file c = Some f; t \<in> set (tokens_sent rs c)\<rbrakk> \<Longrightarrow> \<exists>x. t = Some x \<and> x \<noteq> []"
proof (induction rs arbitrary: c)
  case (Cons r rs)
  obtain x c' where 1: "current_token r c = (x, c')" by fastforce
  from current_token_ok [OF Cons.prems(1) 1] Cons.prems(2) show ?case
    using Cons.IH [of c'] Cons.prems(3) by (auto simp: 1)
qed simp

text \<open>A client that started with a token file sends a token with every request, whatever becomes
  of the file: an unreadable or an empty file leaves the last token read in use.\<close>
theorem every_request_has_a_token:
  assumes "new_client r0 auth = Inr c" "token_file auth = Some f" "t \<in> set (tokens_sent rs c)"
  shows "\<exists>x. t = Some x \<and> x \<noteq> []"
  using tokens_sent_ok new_client_ok [OF assms(1)] assms(2,3) by metis

theorem every_request_has_a_token_witness:
  "tokens_sent [\<lambda>f. Inr ''two '', \<lambda>f. Inl ''gone'', \<lambda>f. Inr ''''] \<lparr>ac_token_file = Some ''t'', ac_token = Some ''one''\<rparr> =
     [Some ''two'', Some ''two'', Some ''two''] \<and>
   (\<exists>x. hd (tokens_sent [\<lambda>f. Inl ''gone''] \<lparr>ac_token_file = Some ''t'', ac_token = Some ''one''\<rparr>) = Some x \<and> x \<noteq> [])"
proof
  show "tokens_sent [\<lambda>f. Inr ''two '', \<lambda>f. Inl ''gone'', \<lambda>f. Inr ''''] \<lparr>ac_token_file = Some ''t'', ac_token = Some ''one''\<rparr> =
     [Some ''two'', Some ''two'', Some ''two'']" by code_simp
  have c: "new_client (\<lambda>f. Inr ''one'') \<lparr>ca_file = None, token_file = Some ''t''\<rparr>
      = Inr \<lparr>ac_token_file = Some ''t'', ac_token = Some ''one''\<rparr>" by code_simp
  show "\<exists>x. hd (tokens_sent [\<lambda>f. Inl ''gone''] \<lparr>ac_token_file = Some ''t'', ac_token = Some ''one''\<rparr>) = Some x \<and> x \<noteq> []"
    by (rule every_request_has_a_token [OF c, where f = "''t''" and rs = "[\<lambda>f. Inl ''gone'']"])
       (simp_all split: prod.splits)
qed

end
