(* ===== verification/Netpol.thy ===== *)
theory Netpol
  imports Ipam Json
begin

unbundle bit_operations_syntax

text \<open>Network policies (\<open>src/pkg/proxy/src/netpol.rs\<close>): parsing a policy, whether traffic is
  allowed, and the iptables rules for the pods policies select. A label map is an association
  list with distinct keys; the engine's lock around its list of policies is the list itself. The
  module is exported by the crate and called by no other part of the program.\<close>

section \<open>Data\<close>

datatype direction = Ingress | Egress

type_synonym label_map = "(string \<times> string) list"

record ip_block =
  ib_cidr :: string
  ib_except :: "string list"

record peer_selector =
  ps_pods :: "label_map option"
  ps_namespaces :: "label_map option"
  ps_block :: "ip_block option"

record port_rule =
  pr_protocol :: string
  pr_port :: "16 word option"
  pr_end_port :: "16 word option"

record policy_rule =
  nr_direction :: direction
  nr_peers :: "peer_selector list"
  nr_ports :: "port_rule list"

record network_policy =
  np_name :: string
  np_namespace :: string
  np_pod_selector :: label_map
  np_types :: "direction list"
  np_ingress :: "policy_rule list"
  np_egress :: "policy_rule list"

section \<open>Parsing\<close>

definition string_members :: "(string \<times> json) list \<Rightarrow> label_map" where
  "string_members kvs = List.map_filter (\<lambda>(k, v). map_option (Pair k) (as_str v)) kvs"

definition labels_in :: "json option \<Rightarrow> label_map" where
  "labels_in v = (case Option.bind v as_object of None \<Rightarrow> [] | Some kvs \<Rightarrow> string_members kvs)"

definition extract_match_labels :: "json \<Rightarrow> label_map" where
  "extract_match_labels selector = labels_in (jget_opt selector ''matchLabels'')"

definition extract_labels :: "json \<Rightarrow> label_map" where
  "extract_labels pod = labels_in (Option.bind (jget_opt pod ''metadata'') (\<lambda>m. jget_opt m ''labels''))"

definition extract_namespace :: "json \<Rightarrow> string" where
  "extract_namespace pod =
     (case Option.bind (Option.bind (jget_opt pod ''metadata'') (\<lambda>m. jget_opt m ''namespace'')) as_str of
        Some s \<Rightarrow> s | None \<Rightarrow> ''default'')"

definition extract_pod_ip :: "json \<Rightarrow> string option" where
  "extract_pod_ip pod = Option.bind (Option.bind (jget_opt pod ''status'') (\<lambda>s. jget_opt s ''podIP'')) as_str"

definition array_in :: "json option \<Rightarrow> json list" where
  "array_in v = (case Option.bind v as_array of None \<Rightarrow> [] | Some xs \<Rightarrow> xs)"

definition parse_ip_block :: "json \<Rightarrow> ip_block option" where
  "parse_ip_block block =
     map_option (\<lambda>cidr. \<lparr>ib_cidr = cidr, ib_except = List.map_filter as_str (array_in (jget_opt block ''except''))\<rparr>)
       (Option.bind (jget_opt block ''cidr'') as_str)"

definition parse_peer :: "json \<Rightarrow> peer_selector" where
  "parse_peer peer =
     \<lparr>ps_pods = map_option extract_match_labels (jget_opt peer ''podSelector''),
      ps_namespaces = map_option extract_match_labels (jget_opt peer ''namespaceSelector''),
      ps_block = Option.bind (jget_opt peer ''ipBlock'') parse_ip_block\<rparr>"

definition port_number :: "json option \<Rightarrow> 16 word option" where
  "port_number v = map_option of_nat (Option.bind v as_u64)"

definition parse_port_rule :: "json \<Rightarrow> port_rule" where
  "parse_port_rule port =
     \<lparr>pr_protocol = (case Option.bind (jget_opt port ''protocol'') as_str of Some s \<Rightarrow> s | None \<Rightarrow> ''TCP''),
      pr_port = port_number (jget_opt port ''port''),
      pr_end_port = port_number (jget_opt port ''endPort'')\<rparr>"

definition parse_ingress_rule :: "json \<Rightarrow> policy_rule" where
  "parse_ingress_rule rule =
     \<lparr>nr_direction = Ingress, nr_peers = map parse_peer (array_in (jget_opt rule ''from'')),
      nr_ports = map parse_port_rule (array_in (jget_opt rule ''ports''))\<rparr>"

definition parse_egress_rule :: "json \<Rightarrow> policy_rule" where
  "parse_egress_rule rule =
     \<lparr>nr_direction = Egress, nr_peers = map parse_peer (array_in (jget_opt rule ''to'')),
      nr_ports = map parse_port_rule (array_in (jget_opt rule ''ports''))\<rparr>"

definition parse_direction :: "json \<Rightarrow> direction option" where
  "parse_direction v =
     (case as_str v of
        None \<Rightarrow> None
      | Some s \<Rightarrow> if s = ''Ingress'' then Some Ingress else if s = ''Egress'' then Some Egress else None)"

definition parse_policy :: "json \<Rightarrow> network_policy option" where
  "parse_policy policy =
     (case jget_opt policy ''metadata'' of None \<Rightarrow> None | Some metadata \<Rightarrow>
      (case Option.bind (jget_opt metadata ''name'') as_str of None \<Rightarrow> None | Some n \<Rightarrow>
       (case jget_opt policy ''spec'' of None \<Rightarrow> None | Some spec \<Rightarrow>
        (case jget_opt spec ''podSelector'' of None \<Rightarrow> None | Some selector \<Rightarrow>
          Some \<lparr>np_name = n,
                np_namespace = (case Option.bind (jget_opt metadata ''namespace'') as_str of
                                  Some s \<Rightarrow> s | None \<Rightarrow> ''default''),
                np_pod_selector = extract_match_labels selector,
                np_types = (case Option.bind (jget_opt spec ''policyTypes'') as_array of
                              Some vs \<Rightarrow> List.map_filter parse_direction vs | None \<Rightarrow> [Ingress]),
                np_ingress = map parse_ingress_rule (array_in (jget_opt spec ''ingress'')),
                np_egress = map parse_egress_rule (array_in (jget_opt spec ''egress''))\<rparr>))))"

definition load_policies :: "json list \<Rightarrow> network_policy list" where
  "load_policies policies = List.map_filter parse_policy policies"

section \<open>Matching\<close>

definition matches_selector :: "label_map \<Rightarrow> label_map \<Rightarrow> bool" where
  "matches_selector labels selector =
     (if selector = [] then True else list_all (\<lambda>(k, v). map_of labels k = Some v) selector)"

definition prefix_mask :: "nat \<Rightarrow> ipv4" where
  "prefix_mask len = (if len = 0 then 0 else push_bit (32 - len) (- 1))"

definition cidr_contains :: "string \<Rightarrow> string \<Rightarrow> bool" where
  "cidr_contains cidr ip =
     (case split_on CHR ''/'' cidr of
        [addr, len] \<Rightarrow>
          (case parse_ip addr of None \<Rightarrow> False | Some net \<Rightarrow>
           (case parse_unsigned 8 len of None \<Rightarrow> False | Some l \<Rightarrow>
            if l > 32 then False
            else (case parse_ip ip of None \<Rightarrow> False | Some test \<Rightarrow>
                  net AND prefix_mask l = test AND prefix_mask l)))
      | _ \<Rightarrow> False)"

definition peer_matches :: "peer_selector \<Rightarrow> string \<Rightarrow> label_map \<Rightarrow> string \<Rightarrow> bool" where
  "peer_matches peer src_ip src_labels src_ns =
     (case ps_block peer of
        Some b \<Rightarrow> cidr_contains (ib_cidr b) src_ip \<and> \<not> list_ex (\<lambda>x. cidr_contains x src_ip) (ib_except b)
      | None \<Rightarrow>
          (case ps_pods peer of None \<Rightarrow> True | Some sel \<Rightarrow> matches_selector src_labels sel) \<and>
          (case ps_namespaces peer of None \<Rightarrow> True
           | Some sel \<Rightarrow> matches_selector [(''kubernetes.io/metadata.name'', src_ns)] sel))"

definition port_matches :: "port_rule \<Rightarrow> 16 word \<Rightarrow> string \<Rightarrow> bool" where
  "port_matches r dst_port protocol =
     (to_ascii_lowercase (pr_protocol r) = to_ascii_lowercase protocol \<and>
      (case pr_port r of
         None \<Rightarrow> True
       | Some p \<Rightarrow> (case pr_end_port r of Some e \<Rightarrow> p \<le> dst_port \<and> dst_port \<le> e | None \<Rightarrow> dst_port = p)))"

definition rule_allows_traffic :: "policy_rule \<Rightarrow> string \<Rightarrow> label_map \<Rightarrow> string \<Rightarrow> 16 word \<Rightarrow> string \<Rightarrow> bool" where
  "rule_allows_traffic rule src_ip src_labels src_ns dst_port protocol =
     ((nr_peers rule = [] \<or> list_ex (\<lambda>p. peer_matches p src_ip src_labels src_ns) (nr_peers rule)) \<and>
      (nr_ports rule = [] \<or> list_ex (\<lambda>r. port_matches r dst_port protocol) (nr_ports rule)))"

definition selects :: "network_policy \<Rightarrow> label_map \<Rightarrow> string \<Rightarrow> bool" where
  "selects p labels ns = (np_namespace p = ns \<and> matches_selector labels (np_pod_selector p))"

definition is_traffic_allowed :: "network_policy list \<Rightarrow> string \<Rightarrow> label_map \<Rightarrow> string \<Rightarrow> label_map \<Rightarrow> string
    \<Rightarrow> 16 word \<Rightarrow> string \<Rightarrow> bool" where
  "is_traffic_allowed policies src_ip src_labels src_ns dst_labels dst_ns dst_port protocol =
     (let applicable = filter (\<lambda>p. selects p dst_labels dst_ns) policies in
      if applicable = [] then True
      else list_ex (\<lambda>p. Ingress \<in> set (np_types p) \<and>
             list_ex (\<lambda>r. rule_allows_traffic r src_ip src_labels src_ns dst_port protocol) (np_ingress p))
           applicable)"

section \<open>The generated chain\<close>

text \<open>A rule of the chain: its source, destination, protocol and port, and whether it accepts.\<close>
record netpol_rule =
  nl_src :: "string option"
  nl_dst :: string
  nl_proto :: "string option"
  nl_dport :: "16 word option"
  nl_accept :: bool

definition netpol_text :: "netpol_rule \<Rightarrow> string" where
  "netpol_text r =
     (if \<not> nl_accept r then ''-A RK-NETPOL -d '' @ nl_dst r @ '' -j DROP''
      else ''-A RK-NETPOL '' @ (case nl_src r of Some c \<Rightarrow> ''-s '' @ c | None \<Rightarrow> '''') @ '' -d '' @ nl_dst r
        @ (case nl_proto r of
             None \<Rightarrow> ''''
           | Some p \<Rightarrow> '' -p '' @ p @ '' '' @
               (case nl_dport r of Some d \<Rightarrow> ''--dport '' @ show_nat (unat d) | None \<Rightarrow> ''''))
        @ '' -j ACCEPT'')"

definition accept_rules :: "string \<Rightarrow> policy_rule \<Rightarrow> peer_selector \<Rightarrow> netpol_rule list" where
  "accept_rules ip rule peer =
     (let src = map_option ib_cidr (ps_block peer) in
      map (\<lambda>pr. \<lparr>nl_src = src, nl_dst = ip, nl_proto = Some (to_ascii_lowercase (pr_protocol pr)),
                 nl_dport = pr_port pr, nl_accept = True\<rparr>) (nr_ports rule)
      @ (if nr_ports rule = []
         then [\<lparr>nl_src = src, nl_dst = ip, nl_proto = None, nl_dport = None, nl_accept = True\<rparr>] else []))"

definition pod_rules :: "network_policy \<Rightarrow> string \<Rightarrow> netpol_rule list" where
  "pod_rules p ip =
     (if Ingress \<in> set (np_types p)
      then [\<lparr>nl_src = None, nl_dst = ip, nl_proto = None, nl_dport = None, nl_accept = False\<rparr>] else [])
     @ concat (map (\<lambda>rule. concat (map (accept_rules ip rule) (nr_peers rule))) (np_ingress p))"

definition visit_pod :: "network_policy \<Rightarrow> json \<Rightarrow> netpol_rule list" where
  "visit_pod p pod =
     (if \<not> selects p (extract_labels pod) (extract_namespace pod) then []
      else (case extract_pod_ip pod of None \<Rightarrow> [] | Some ip \<Rightarrow> pod_rules p ip))"

definition chain_rules :: "network_policy list \<Rightarrow> json list \<Rightarrow> netpol_rule list" where
  "chain_rules policies pods = concat (map (\<lambda>p. concat (map (visit_pod p) pods)) policies)"

definition generate_iptables_rules :: "network_policy list \<Rightarrow> json list \<Rightarrow> string list" where
  "generate_iptables_rules policies pods =
     [''-N RK-NETPOL'', ''-F RK-NETPOL'', ''-A FORWARD -j RK-NETPOL'']
       @ map netpol_text (chain_rules policies pods)"

section \<open>What the chain does to a packet\<close>

record netpol_packet =
  nk_src :: string
  nk_dst :: string
  nk_proto :: string
  nk_dport :: "16 word"

text \<open>Which addresses a source specification covers is an argument.\<close>
definition nl_applies :: "(string \<Rightarrow> string \<Rightarrow> bool) \<Rightarrow> netpol_packet \<Rightarrow> netpol_rule \<Rightarrow> bool" where
  "nl_applies cidr p r =
     (nk_dst p = nl_dst r \<and> (case nl_src r of None \<Rightarrow> True | Some c \<Rightarrow> cidr c (nk_src p)) \<and>
      (case nl_proto r of None \<Rightarrow> True | Some x \<Rightarrow> nk_proto p = x) \<and>
      (case nl_dport r of None \<Rightarrow> True | Some d \<Rightarrow> nk_dport p = d))"

text \<open>The first rule that applies decides: \<open>Some True\<close> accepts, \<open>Some False\<close> drops, \<open>None\<close> leaves
  the packet to the rest of \<open>FORWARD\<close>.\<close>
definition chain_verdict :: "(string \<Rightarrow> string \<Rightarrow> bool) \<Rightarrow> netpol_rule list \<Rightarrow> netpol_packet \<Rightarrow> bool option" where
  "chain_verdict cidr rules p = map_option nl_accept (find (nl_applies cidr p) rules)"

text \<open>The first rule for an address, when there is one, drops whatever comes.\<close>
definition drops_first :: "string \<Rightarrow> netpol_rule list \<Rightarrow> bool" where
  "drops_first ip rs =
     (case filter (\<lambda>r. nl_dst r = ip) rs of
        [] \<Rightarrow> True
      | r # _ \<Rightarrow> r = \<lparr>nl_src = None, nl_dst = ip, nl_proto = None, nl_dport = None, nl_accept = False\<rparr>)"

lemma drops_first_append: "\<lbrakk>drops_first ip rs; drops_first ip qs\<rbrakk> \<Longrightarrow> drops_first ip (rs @ qs)"
  by (auto simp: drops_first_def split: list.splits)

lemma drops_first_concat: "(\<And>x. x \<in> set xs \<Longrightarrow> drops_first ip (f x)) \<Longrightarrow> drops_first ip (concat (map f xs))"
  by (induction xs) (simp_all add: drops_first_append, simp add: drops_first_def)

lemma accept_rules_dst: "r \<in> set (accept_rules ip rule peer) \<Longrightarrow> nl_dst r = ip"
  by (auto simp: accept_rules_def Let_def split: if_splits)

lemma pod_rules_dst: "r \<in> set (pod_rules p ip) \<Longrightarrow> nl_dst r = ip"
  by (auto simp: pod_rules_def dest: accept_rules_dst split: if_splits)

lemma pod_rules_other: "ip \<noteq> ip' \<Longrightarrow> drops_first ip (pod_rules p ip')"
proof -
  assume "ip \<noteq> ip'"
  then have "filter (\<lambda>r. nl_dst r = ip) (pod_rules p ip') = []" using pod_rules_dst by (auto simp: filter_empty_conv)
  then show ?thesis by (simp add: drops_first_def)
qed

lemma pod_rules_first: "Ingress \<in> set (np_types p) \<Longrightarrow> drops_first ip (pod_rules p ip)"
  by (simp add: pod_rules_def drops_first_def)

lemma drops_first_nil [simp]: "drops_first ip []"
  by (simp add: drops_first_def)

lemma pod_rules_drop: "Ingress \<in> set (np_types p) \<Longrightarrow> drops_first ip (pod_rules p ip')"
  using pod_rules_first pod_rules_other by (cases "ip = ip'") auto

lemma chain_verdict_first:
  assumes "drops_first (nk_dst p) rs" "r \<in> set rs" "nl_dst r = nk_dst p"
  shows "chain_verdict cidr rs p = Some False"
  using assms
proof (induction rs)
  case (Cons q rs)
  show ?case
  proof (cases "nl_dst q = nk_dst p")
    case True
    then show ?thesis using Cons.prems(1) by (simp add: drops_first_def chain_verdict_def nl_applies_def)
  next
    case False
    then have "drops_first (nk_dst p) rs" "r \<in> set rs" using Cons.prems by (auto simp: drops_first_def)
    then show ?thesis using Cons False by (simp add: chain_verdict_def nl_applies_def)
  qed
qed simp

lemma high_bits_eq:
  fixes x y :: ipv4
  shows "drop_bit k x = drop_bit k y \<longleftrightarrow> (\<forall>n \<ge> k. bit x n = bit y n)"
proof
  assume eq: "drop_bit k x = drop_bit k y"
  show "\<forall>n \<ge> k. bit x n = bit y n"
  proof (intro allI impI)
    fix n assume "k \<le> n"
    then show "bit x n = bit y n"
      using arg_cong [OF eq, of "\<lambda>w. bit w (n - k)"] by (simp add: bit_drop_bit_eq)
  qed
qed (simp add: bit_eq_iff bit_drop_bit_eq)

lemma mask_prefix:
  fixes x y :: ipv4
  assumes "l \<le> 32"
  shows "x AND prefix_mask l = y AND prefix_mask l \<longleftrightarrow> drop_bit (32 - l) x = drop_bit (32 - l) y"
proof (cases "l = 0")
  case True
  then show ?thesis by (auto simp: prefix_mask_def high_bits_eq dest: bit_imp_le_length)
next
  case False
  have b: "bit (w AND prefix_mask l) n \<longleftrightarrow> bit w n \<and> 32 - l \<le> n" for w :: ipv4 and n
    using False by (auto simp: prefix_mask_def bit_simps dest: bit_imp_le_length)
  show ?thesis unfolding high_bits_eq bit_eq_iff [of "x AND prefix_mask l"] b
    using bit_imp_le_length [of x] bit_imp_le_length [of y] by simp blast
qed

section \<open>Properties\<close>

text \<open>An address is in a CIDR exactly when its first \<open>l\<close> bits are the network's; a prefix length
  above 32 contains nothing, and length 0 contains everything.\<close>
theorem cidr_is_a_prefix:
  assumes "l < 256"
  shows "cidr_contains (show_ip n @ ''/'' @ show_nat l) (show_ip a) \<longleftrightarrow>
           l \<le> 32 \<and> drop_bit (32 - l) n = drop_bit (32 - l) a"
proof -
  have digit: "CHR ''/'' \<notin> set (show_nat k)" for k
    using digits_only [OF show_nat_digits not_digit(4)] .
  then have "CHR ''/'' \<notin> set (show_ip n)" by (simp add: show_ip_def)
  then have "split_on CHR ''/'' (show_ip n @ ''/'' @ show_nat l) = [show_ip n, show_nat l]"
    using split_on_append [of "CHR ''/''" "show_ip n" "show_nat l"] digit by (simp add: split_on_none)
  then show ?thesis
    using assms mask_prefix [of l n a] by (auto simp: cidr_contains_def parse_show_ip parse_unsigned_show)
qed

text \<open>The chain drops what it should accept: the rules of a policy that restricts ingress start
  with the unconditional drop for the pod's address, so of the accepting rules after it none is
  ever reached, and every packet to the pod is dropped whatever the policies allow.\<close>
theorem accepts_are_never_reached:
  assumes "p \<in> set policies" "pod \<in> set pods" "selects p (extract_labels pod) (extract_namespace pod)"
    "extract_pod_ip pod = Some (nk_dst packet)"
    "\<forall>q \<in> set policies. Ingress \<in> set (np_types q)"
  shows "chain_verdict cidr (chain_rules policies pods) packet = Some False"
proof (rule chain_verdict_first)
  have "drops_first (nk_dst packet) (visit_pod q x)" if "q \<in> set policies" for q x
    using that assms(5) pod_rules_drop by (cases "extract_pod_ip x") (simp_all add: visit_pod_def)
  then show "drops_first (nk_dst packet) (chain_rules policies pods)"
    unfolding chain_rules_def by (intro drops_first_concat)
  let ?r = "\<lparr>nl_src = None, nl_dst = nk_dst packet, nl_proto = None, nl_dport = None, nl_accept = False\<rparr>"
  have "?r \<in> set (visit_pod p pod)" using assms by (simp add: visit_pod_def pod_rules_def)
  then show "?r \<in> set (chain_rules policies pods)" using assms(1,2) by (auto simp: chain_rules_def)
qed simp

text \<open>A policy that speaks of egress only denies all ingress: when none of the policies that select
  a pod is an ingress policy, no traffic to the pod is allowed.\<close>
theorem egress_policy_denies_ingress:
  assumes "p \<in> set policies" "selects p dst_labels dst_ns"
    "\<forall>q \<in> set policies. selects q dst_labels dst_ns \<longrightarrow> np_types q = [Egress]"
  shows "\<not> is_traffic_allowed policies src_ip src_labels src_ns dst_labels dst_ns dst_port protocol"
  using assms by (auto simp: is_traffic_allowed_def Let_def list_ex_iff filter_empty_conv)

text \<open>A port given by name is read as every port of its protocol.\<close>
theorem named_port_admits_all:
  "port_matches (parse_port_rule (JObj [(''port'', JStr n), (''protocol'', JStr proto)])) d proto"
  by (simp add: port_matches_def parse_port_rule_def port_number_def as_u64_def json_simps)

text \<open>A peer with a pod selector alone admits matching pods of every namespace, not of the
  policy's own only: the namespace of the source makes no difference.\<close>
theorem pod_selector_ignores_namespace:
  "peer_matches (parse_peer (JObj [(''podSelector'', sel)])) src_ip labels ns =
   peer_matches (parse_peer (JObj [(''podSelector'', sel)])) src_ip labels ns'"
  by (simp add: peer_matches_def parse_peer_def json_simps)

text \<open>A policy that admits web traffic to the pods labelled \<open>app: w\<close>, and such a pod.\<close>
definition sample_policy :: "direction list \<Rightarrow> network_policy" where
  "sample_policy ts =
     \<lparr>np_name = ''p'', np_namespace = ''d'', np_pod_selector = [(''app'', ''w'')], np_types = ts,
      np_ingress = [\<lparr>nr_direction = Ingress, nr_peers = [\<lparr>ps_pods = None, ps_namespaces = None, ps_block = None\<rparr>],
                     nr_ports = [\<lparr>pr_protocol = ''TCP'', pr_port = Some 80, pr_end_port = None\<rparr>]\<rparr>],
      np_egress = []\<rparr>"

definition sample_pod :: json where
  "sample_pod = JObj [(''metadata'', JObj [(''labels'', JObj [(''app'', JStr ''w'')]), (''namespace'', JStr ''d'')]),
     (''status'', JObj [(''podIP'', JStr ''10.1.0.2'')])]"

definition web_packet :: netpol_packet where
  "web_packet = \<lparr>nk_src = ''10.1.0.9'', nk_dst = ''10.1.0.2'', nk_proto = ''tcp'', nk_dport = 80\<rparr>"

lemma sample_selected: "selects (sample_policy ts) (extract_labels sample_pod) (extract_namespace sample_pod)"
  by (simp add: selects_def sample_policy_def) code_simp

theorem accepts_are_never_reached_witness:
  "chain_verdict (\<lambda>c a. True) (chain_rules [sample_policy [Ingress]] [sample_pod]) web_packet = Some False \<and>
   list_ex (\<lambda>r. nl_accept r \<and> nl_applies (\<lambda>c a. True) web_packet r) (chain_rules [sample_policy [Ingress]] [sample_pod])"
proof
  have ip: "extract_pod_ip sample_pod = Some (nk_dst web_packet)" by code_simp
  show "chain_verdict (\<lambda>c a. True) (chain_rules [sample_policy [Ingress]] [sample_pod]) web_packet = Some False"
    by (rule accepts_are_never_reached [OF _ _ sample_selected ip]) (simp_all add: sample_policy_def)
  show "list_ex (\<lambda>r. nl_accept r \<and> nl_applies (\<lambda>c a. True) web_packet r) (chain_rules [sample_policy [Ingress]] [sample_pod])"
    by code_simp
qed

theorem egress_policy_denies_ingress_witness:
  "is_traffic_allowed [sample_policy [Egress]] ''10.1.0.9'' [] ''d'' [(''app'', ''w'')] ''d'' 80 ''TCP'' = False \<and>
   is_traffic_allowed [] ''10.1.0.9'' [] ''d'' [(''app'', ''w'')] ''d'' 80 ''TCP''"
  using egress_policy_denies_ingress [of "sample_policy [Egress]" "[sample_policy [Egress]]" "[(''app'', ''w'')]" "''d''"]
  by (simp add: selects_def sample_policy_def matches_selector_def is_traffic_allowed_def [of "[]"])

theorem cidr_is_a_prefix_witness:
  "cidr_contains (show_ip 0xC0A80100 @ ''/'' @ show_nat 24) (show_ip 0xC0A80164) = True \<and>
   cidr_contains (show_ip 0xC0A80100 @ ''/'' @ show_nat 33) (show_ip 0xC0A80100) = False"
  using cidr_is_a_prefix [of 24 "0xC0A80100" "0xC0A80164"] cidr_is_a_prefix [of 33 "0xC0A80100" "0xC0A80100"]
  by simp

end
