(* ===== verification/RestoreInput.thy ===== *)
theory RestoreInput
  imports ChainNames
begin

text \<open>What kube-proxy feeds to iptables-restore is well formed: read back line by line, every chain a rule
  stands in or jumps to is declared in the same input, and chain names are within the 28 characters
  iptables allows.\<close>

section \<open>Reading the input\<close>








section \<open>Words and lines\<close>











section \<open>Rules\<close>







section \<open>The whole input\<close>


















end
