(* ===== verification/Calls.thy ===== *)
theory Calls
  imports Prelude
begin

text \<open>Passes that call others: the API server, the storage service, the engine, a machine. A pass is a
  computation on a world that uses up a list of outcomes, one for each call it makes: whether the
  call took effect and whether it answered well, so an effect whose answer was lost is one of the
  cases. When the outcomes are used up the kubelet stopped, between two calls. A logic of such
  computations: from a good world, the world is good after every call, so also where the kubelet
  stops. The theories of disk moves and of live migration are written with both.\<close>

section \<open>Computations\<close>

text \<open>A result, or the kubelet stopped (\<open>None\<close>); the world and the outcomes left.\<close>
type_synonym ('w, 'o, 'a) calling = "'w \<times> 'o list \<Rightarrow> 'a option \<times> 'w \<times> 'o list"

definition done_with :: "'a \<Rightarrow> ('w, 'o, 'a) calling" where
  "done_with x = (\<lambda>s. (Some x, s))"

definition and_then :: "('w, 'o, 'a) calling \<Rightarrow> ('a \<Rightarrow> ('w, 'o, 'b) calling) \<Rightarrow> ('w, 'o, 'b) calling" where
  "and_then m f = (\<lambda>s. case m s of (None, t) \<Rightarrow> (None, t) | (Some x, t) \<Rightarrow> f x t)"

definition look :: "('w \<Rightarrow> 'a) \<Rightarrow> ('w, 'o, 'a) calling" where
  "look f = (\<lambda>(w, os). (Some (f w), w, os))"

definition change :: "('w \<Rightarrow> 'w) \<Rightarrow> ('w, 'o, unit) calling" where
  "change f = (\<lambda>(w, os). (Some (), f w, os))"

text \<open>How a call goes: whether it took effect (\<open>oc_does\<close>) and answered well (\<open>oc_ok\<close>), which a call
  that answers well did; the text of its error when it did not. What else an outcome says depends
  on whom is called.\<close>
record call_outcome =
  oc_does :: bool
  oc_ok :: bool
  oc_error :: string

text \<open>A call: what happens meanwhile, its effect if it takes place, its answer.\<close>
definition call_amid ::
  "('x call_outcome_scheme \<Rightarrow> 'w \<Rightarrow> 'w) \<Rightarrow> ('x call_outcome_scheme \<Rightarrow> 'w \<Rightarrow> 'w) \<Rightarrow> ('x call_outcome_scheme \<Rightarrow> 'w \<Rightarrow> 'a) \<Rightarrow>
   ('w, 'x call_outcome_scheme, string + 'a) calling" where
  "call_amid meanwhile effect answer = (\<lambda>(w, os).
     case os of
       [] \<Rightarrow> (None, w, [])
     | oc # os' \<Rightarrow>
         let w1 = meanwhile oc w; w2 = (if oc_does oc \<or> oc_ok oc then effect oc w1 else w1)
         in (Some (if oc_ok oc then Inr (answer oc w2) else Inl (oc_error oc)), w2, os'))"

text \<open>A call that is refused in some worlds, whatever its outcome.\<close>
definition call_amid_if ::
  "('x call_outcome_scheme \<Rightarrow> 'w \<Rightarrow> 'w) \<Rightarrow> ('x call_outcome_scheme \<Rightarrow> 'w \<Rightarrow> bool) \<Rightarrow>
   ('x call_outcome_scheme \<Rightarrow> 'w \<Rightarrow> 'w) \<Rightarrow> ('x call_outcome_scheme \<Rightarrow> 'w \<Rightarrow> 'a) \<Rightarrow>
   ('w, 'x call_outcome_scheme, string + 'a) calling" where
  "call_amid_if meanwhile allowed effect answer = (\<lambda>(w, os).
     case os of
       [] \<Rightarrow> (None, w, [])
     | oc # os' \<Rightarrow>
         let w1 = meanwhile oc w
         in if allowed oc w1 \<and> (oc_does oc \<or> oc_ok oc)
            then (Some (if oc_ok oc then Inr (answer oc (effect oc w1)) else Inl (oc_error oc)), effect oc w1, os')
            else (Some (Inl (oc_error oc)), w1, os'))"

section \<open>A logic of calls\<close>

text \<open>From a good world with \<open>P\<close>, the computation ends in a good world with \<open>Q\<close> of its result, or
  the kubelet stops in a good world.\<close>
definition upholds ::
  "('w \<Rightarrow> bool) \<Rightarrow> ('w \<Rightarrow> bool) \<Rightarrow> ('w, 'o, 'a) calling \<Rightarrow> ('a \<Rightarrow> 'w \<Rightarrow> bool) \<Rightarrow> bool" where
  "upholds good P c Q =
     (\<forall>w os. good w \<longrightarrow> P w \<longrightarrow>
        (case c (w, os) of
           (Some x, w', os') \<Rightarrow> good w' \<and> Q x w'
         | (None, w', os') \<Rightarrow> good w'))"

lemma upholds_done: "(\<And>w. good w \<Longrightarrow> P w \<Longrightarrow> Q x w) \<Longrightarrow> upholds good P (done_with x) Q"
  by (simp add: upholds_def done_with_def)

lemma upholds_stopped: "\<lbrakk>upholds good P c Q; good w; P w; c (w, os) = (None, w', os')\<rbrakk> \<Longrightarrow> good w'"
  by (drule upholds_def [THEN iffD1, rule_format, where os = os]) auto

lemma upholds_result: "\<lbrakk>upholds good P c Q; good w; P w; c (w, os) = (Some x, w', os')\<rbrakk> \<Longrightarrow> good w' \<and> Q x w'"
  by (drule upholds_def [THEN iffD1, rule_format, where os = os]) auto

lemma upholds_then:
  assumes "upholds good P c Q" "\<And>x. upholds good (Q x) (f x) R"
  shows "upholds good P (and_then c f) R"
  unfolding upholds_def and_then_def
proof (intro allI impI)
  fix w os assume w: "good w" "P w"
  obtain ro w' os' where c: "c (w, os) = (ro, w', os')" by (cases "c (w, os)") auto
  show "case (case c (w, os) of (None, t) \<Rightarrow> (None, t) | (Some x, t) \<Rightarrow> f x t) of
     (Some x, w', os') \<Rightarrow> good w' \<and> R x w' | (None, w', os') \<Rightarrow> good w'"
  proof (cases ro)
    case None
    then show ?thesis using upholds_stopped [OF assms(1) w] c by simp
  next
    case (Some x)
    then have "good w' \<and> Q x w'" using upholds_result [OF assms(1) w] c by simp
    then show ?thesis using assms(2) [of x] c Some by (simp add: upholds_def)
  qed
qed

lemma upholds_look: "(\<And>w. good w \<Longrightarrow> P w \<Longrightarrow> Q (f w) w) \<Longrightarrow> upholds good P (look f) Q"
  by (simp add: upholds_def look_def)

lemma upholds_change:
  "(\<And>w. good w \<Longrightarrow> P w \<Longrightarrow> good (f w) \<and> Q () (f w)) \<Longrightarrow> upholds good P (change f) Q"
  by (simp add: upholds_def change_def)

lemma upholds_pre: "\<lbrakk>upholds good P c Q; \<And>w. good w \<Longrightarrow> P' w \<Longrightarrow> P w\<rbrakk> \<Longrightarrow> upholds good P' c Q"
  by (auto simp: upholds_def)

lemma upholds_post:
  "\<lbrakk>upholds good P c Q; \<And>x w. good w \<Longrightarrow> Q x w \<Longrightarrow> Q' x w\<rbrakk> \<Longrightarrow> upholds good P c Q'"
  unfolding upholds_def by (fastforce split: option.splits prod.splits)

lemma upholds_if:
  "\<lbrakk>b \<Longrightarrow> upholds good P c Q; \<not> b \<Longrightarrow> upholds good P c' Q\<rbrakk> \<Longrightarrow> upholds good P (if b then c else c') Q"
  by simp

text \<open>A condition that what happens meanwhile cannot change.\<close>
definition stable_amid :: "('w \<Rightarrow> bool) \<Rightarrow> ('o \<Rightarrow> 'w \<Rightarrow> 'w) \<Rightarrow> ('w \<Rightarrow> bool) \<Rightarrow> bool" where
  "stable_amid good meanwhile P = (\<forall>w oc. good w \<longrightarrow> P w \<longrightarrow> good (meanwhile oc w) \<and> P (meanwhile oc w))"

lemma upholds_call:
  assumes "stable_amid good meanwhile P"
    and "\<And>w oc. good w \<Longrightarrow> P w \<Longrightarrow>
       good (effect oc w) \<and> (\<forall>e. Q (Inl e) (effect oc w)) \<and> Q (Inr (answer oc (effect oc w))) (effect oc w)"
    and "\<And>w e. good w \<Longrightarrow> P w \<Longrightarrow> Q (Inl e) w"
  shows "upholds good P (call_amid meanwhile effect answer) Q"
  unfolding upholds_def
proof (intro allI impI)
  fix w os assume w: "good w" "P w"
  show "case call_amid meanwhile effect answer (w, os) of
     (Some x, w', os') \<Rightarrow> good w' \<and> Q x w' | (None, w', os') \<Rightarrow> good w'"
  proof (cases os)
    case Nil
    then show ?thesis using w by (simp add: call_amid_def)
  next
    case (Cons oc os')
    have "good (meanwhile oc w)" "P (meanwhile oc w)" using assms(1) w by (auto simp: stable_amid_def)
    then show ?thesis using assms(2) [of "meanwhile oc w" oc] assms(3) [of "meanwhile oc w"] Cons
      by (simp add: call_amid_def Let_def)
  qed
qed

lemma upholds_call_if:
  assumes "stable_amid good meanwhile P"
    and "\<And>w oc. good w \<Longrightarrow> P w \<Longrightarrow> allowed oc w \<Longrightarrow>
       good (effect oc w) \<and> (\<forall>e. Q (Inl e) (effect oc w)) \<and> Q (Inr (answer oc (effect oc w))) (effect oc w)"
    and "\<And>w e. good w \<Longrightarrow> P w \<Longrightarrow> Q (Inl e) w"
  shows "upholds good P (call_amid_if meanwhile allowed effect answer) Q"
  unfolding upholds_def
proof (intro allI impI)
  fix w os assume w: "good w" "P w"
  show "case call_amid_if meanwhile allowed effect answer (w, os) of
     (Some x, w', os') \<Rightarrow> good w' \<and> Q x w' | (None, w', os') \<Rightarrow> good w'"
  proof (cases os)
    case Nil
    then show ?thesis using w by (simp add: call_amid_if_def)
  next
    case (Cons oc os')
    have "good (meanwhile oc w)" "P (meanwhile oc w)" using assms(1) w by (auto simp: stable_amid_def)
    then show ?thesis using assms(2) [of "meanwhile oc w" oc] assms(3) [of "meanwhile oc w"] Cons
      by (simp add: call_amid_if_def Let_def)
  qed
qed

end
