(* ===== verification/ContainerRoots.thy ===== *)
theory ContainerRoots
  imports Json Calls
begin

text \<open>Every container's own root file system (\<open>src/pkg/kubelet/src/container_roots.rs\<close>): which golden an
  image names, the clone that is made of it for one container, and the sweep that deletes the roots
  of a kubelet that died. The engine is a list of volumes; a call's outcome says whether it took
  effect and what its answer's body is, and what this kubelet's other tasks did before it.\<close>

section \<open>Which golden\<close>

abbreviation VOLUME_PREFIX :: string where "VOLUME_PREFIX \<equiv> ''ctr-''"
abbreviation PALLET_ROOT :: string where "PALLET_ROOT \<equiv> ''/pallets''"
abbreviation MOUNT_ARGUMENT :: string where "MOUNT_ARGUMENT \<equiv> ''rd.stormblock.mount=''"

definition root_volume_name :: "string \<Rightarrow> string" where
  "root_volume_name container = VOLUME_PREFIX @ container"

definition mount_point :: "string \<Rightarrow> string" where
  "mount_point container = ''/run/stormpump/roots/'' @ container"

datatype golden = Template string | Pallet string

text \<open>The volume that a mount list on the line names for a pallet's path.\<close>
definition pallet_mounts :: "string \<Rightarrow> string list" where
  "pallet_mounts path = [''/p/'' @ path, PALLET_ROOT @ ''/'' @ path]"

definition entry_volume :: "string list \<Rightarrow> string \<Rightarrow> string option" where
  "entry_volume wanted e =
     (case split_once (CHR '':'') e of None \<Rightarrow> None | Some (vol, place) \<Rightarrow> if place \<in> set wanted then Some vol else None)"

definition listed_volume :: "string \<Rightarrow> string \<Rightarrow> string option" where
  "listed_volume line path =
     find_map (entry_volume (pallet_mounts path))
       (concat (map (split_on (CHR '','')) (List.map_filter (strip_prefix MOUNT_ARGUMENT) (split_whitespace line))))"

definition pallet_path :: "string \<Rightarrow> string option" where
  "pallet_path img =
     (case Option.bind (strip_prefix PALLET_ROOT img) (strip_prefix ''/'') of
        None \<Rightarrow> None
      | Some path \<Rightarrow> if path \<noteq> [] \<and> CHR ''/'' \<notin> set path then Some path else None)"

definition golden_of :: "string \<Rightarrow> string \<Rightarrow> golden option" where
  "golden_of img cmdline =
     (case strip_prefix ''template:'' img of
        Some t \<Rightarrow> if t \<noteq> [] then Some (Template t) else None
      | None \<Rightarrow> map_option (\<lambda>path. Pallet (case listed_volume cmdline path of Some vol \<Rightarrow> vol | None \<Rightarrow> path)) (pallet_path img))"

text \<open>A list file's entries: comments and blanks gone, leading question marks dropped.\<close>
definition list_entries :: "string \<Rightarrow> string list" where
  "list_entries f =
     filter (\<lambda>l. CHR '':'' \<in> set l)
       (map (\<lambda>l. dropWhile (\<lambda>c. c = CHR ''?'') (trim (hd (split_on (CHR ''#'') l)))) (lines_of f))"

definition append_list :: "string \<Rightarrow> string option \<Rightarrow> string" where
  "append_list line f =
     (let es = list_entries (case f of Some t \<Rightarrow> t | None \<Rightarrow> [])
      in if es = [] then line else trim_end line @ '' '' @ MOUNT_ARGUMENT @ join_with '','' es)"

definition with_mount_list :: "string \<Rightarrow> string option \<Rightarrow> string" where
  "with_mount_list cmdline f =
     (if list_ex (\<lambda>w. starts_with w MOUNT_ARGUMENT) (split_whitespace cmdline) then cmdline else append_list cmdline f)"

definition with_carried :: "string \<Rightarrow> string option \<Rightarrow> string" where
  "with_carried line f = append_list line f"

definition node_mount_list :: "(string \<Rightarrow> string option) \<Rightarrow> string" where
  "node_mount_list read =
     (let mounts = find_map read [''/hostroot/etc/stormblock/mounts'', ''/etc/stormblock/mounts''];
          carried = find_map read [''/hostroot/etc/stormblock/carried'', ''/etc/stormblock/carried'']
      in with_carried (with_mount_list (case read ''/proc/cmdline'' of Some t \<Rightarrow> t | None \<Rightarrow> []) mounts) carried)"

section \<open>What the engine's listing says\<close>

definition is_mounted_at :: "string list \<Rightarrow> json \<Rightarrow> bool" where
  "is_mounted_at wanted v = (case as_str v of Some m \<Rightarrow> m \<in> set wanted | None \<Rightarrow> False)"

definition pallet_volume :: "json \<Rightarrow> string \<Rightarrow> string option" where
  "pallet_volume listing path =
     (let here = is_mounted_at (pallet_mounts path)
      in find_map (\<lambda>v. if here (jget v ''mounted_at'') \<or> list_ex (\<lambda>a. here (jget a ''mounted_at'')) (elems (jget v ''attachments''))
                       then as_str (jget v ''name'') else None)
           (elems (jget listing ''items'')))"

datatype golden_error =
    No_items
  | No_golden_id string
  | Not_in_engine string
  | No_parent string
  | Parent_elsewhere string string
  | Parent_not_sealed string string

definition by_name :: "json list \<Rightarrow> string \<Rightarrow> json option" where
  "by_name items n = find_map (\<lambda>v. if as_str (jget v ''name'') = Some n then Some v else None) items"

definition is_sealed :: "json \<Rightarrow> bool" where
  "is_sealed v = (as_bool (jget v ''sealed'') = Some True)"

definition sealed_parent :: "json list \<Rightarrow> string \<Rightarrow> golden_error + string" where
  "sealed_parent items vol =
     (case by_name items vol of
        None \<Rightarrow> Inl (Not_in_engine vol)
      | Some clone \<Rightarrow>
          (case as_str (jget clone ''parent'') of
             None \<Rightarrow> Inl (No_parent vol)
           | Some parent \<Rightarrow>
               (case find_map (\<lambda>v. if as_str (jget v ''id'') = Some parent then Some v else None) items of
                  None \<Rightarrow> Inl (Parent_elsewhere vol parent)
                | Some p \<Rightarrow> if is_sealed p then Inr parent else Inl (Parent_not_sealed vol parent))))"

text \<open>\<open><vol>.golden\<close> when it is sealed, else the volume's sealed parent, never the volume itself.\<close>
definition pallet_golden :: "json \<Rightarrow> string \<Rightarrow> golden_error + string" where
  "pallet_golden listing vol =
     (case as_array (jget listing ''items'') of
        None \<Rightarrow> Inl No_items
      | Some items \<Rightarrow>
          (case by_name items (vol @ ''.golden'') of
             Some g \<Rightarrow>
               if is_sealed g then (case as_str (jget g ''id'') of Some i \<Rightarrow> Inr i | None \<Rightarrow> Inl (No_golden_id vol))
               else sealed_parent items vol
           | None \<Rightarrow> sealed_parent items vol))"

text \<open>The root volumes nothing holds: not this kubelet's, not in use and not attached.\<close>
definition orphan_of :: "string list \<Rightarrow> string \<Rightarrow> json \<Rightarrow> (string \<times> string) option" where
  "orphan_of known own v =
     (case (as_str (jget v ''name''), as_str (jget v ''id'')) of
        (Some n, Some i) \<Rightarrow>
          if starts_with n VOLUME_PREFIX \<and> n \<notin> set known \<and> (own = [] \<or> \<not> starts_with n own) \<and>
             as_bool (jget v ''in_use'') \<noteq> Some True \<and> elems (jget v ''attachments'') = []
          then Some (n, i) else None
      | _ \<Rightarrow> None)"

definition orphans :: "json \<Rightarrow> string list \<Rightarrow> string \<Rightarrow> (string \<times> string) list" where
  "orphans listing known own = List.map_filter (orphan_of known own) (elems (jget listing ''items''))"

section \<open>The engine\<close>

record engine_volume =
  ev_id :: string
  ev_name :: string
  ev_parent :: "string option"
  ev_sealed :: bool
  ev_attached :: bool
  ev_in_use :: bool
  ev_mounted :: "string option"

text \<open>The engine's volumes and templates (each with its golden), the volume each pallet path was found
  mounted from, and the root volumes this kubelet has or is making.\<close>
record roots_world =
  rw_volumes :: "engine_volume list"
  rw_templates :: "(string \<times> string) list"
  rw_pallets :: "(string \<times> string) list"
  rw_known :: "string list"

definition opt_str :: "string option \<Rightarrow> json" where
  "opt_str x = (case x of Some s \<Rightarrow> JStr s | None \<Rightarrow> JNull)"

definition volume_json :: "engine_volume \<Rightarrow> json" where
  "volume_json v = JObj
     [(''attachments'', JArr (if ev_attached v then [JObj [(''mounted_at'', opt_str (ev_mounted v))]] else [])),
      (''id'', JStr (ev_id v)), (''in_use'', JBool (ev_in_use v)), (''name'', JStr (ev_name v)),
      (''parent'', opt_str (ev_parent v)), (''sealed'', JBool (ev_sealed v))]"

definition listing_of :: "roots_world \<Rightarrow> json" where
  "listing_of w = JObj [(''items'', JArr (map volume_json (rw_volumes w)))]"

definition with_id :: "string \<Rightarrow> (engine_volume \<Rightarrow> engine_volume) \<Rightarrow> roots_world \<Rightarrow> roots_world" where
  "with_id i f w = w\<lparr>rw_volumes := map (\<lambda>v. if ev_id v = i then f v else v) (rw_volumes w)\<rparr>"

definition has_id :: "roots_world \<Rightarrow> string \<Rightarrow> bool" where
  "has_id w i = (i \<in> ev_id ` set (rw_volumes w))"

text \<open>What this kubelet's other tasks do meanwhile: a root is made, whose name was noted first, and one
  of a noted name is attached.\<close>
datatype root_event = Root_made string string string | Root_attached string

definition new_root :: "string \<Rightarrow> string \<Rightarrow> string \<Rightarrow> engine_volume" where
  "new_root i n p = \<lparr>ev_id = i, ev_name = n, ev_parent = Some p, ev_sealed = False, ev_attached = False,
     ev_in_use = False, ev_mounted = None\<rparr>"

text \<open>Cloning is refused of a volume the engine does not have, or under an id it has.\<close>
definition clone_root :: "string \<Rightarrow> string \<Rightarrow> string \<Rightarrow> roots_world \<Rightarrow> roots_world" where
  "clone_root i n p w = (if has_id w p \<and> \<not> has_id w i then w\<lparr>rw_volumes := rw_volumes w @ [new_root i n p]\<rparr> else w)"

definition golden_there :: "roots_world \<Rightarrow> string \<Rightarrow> bool" where
  "golden_there w p =
     list_ex (\<lambda>v. ev_id v = p \<and> ev_sealed v \<and> \<not> starts_with (ev_name v) VOLUME_PREFIX) (rw_volumes w)"

primrec roots_happen :: "root_event \<Rightarrow> roots_world \<Rightarrow> roots_world" where
  "roots_happen (Root_made i n p) w =
     (let w' = w\<lparr>rw_known := n # rw_known w\<rparr>
      in if golden_there w p \<and> starts_with n VOLUME_PREFIX then clone_root i n p w' else w')"
| "roots_happen (Root_attached i) w =
     with_id i (\<lambda>v. if ev_name v \<in> set (rw_known w) then v\<lparr>ev_attached := True\<rparr> else v) w"

record root_outcome = call_outcome +
  ro_id :: string
  ro_body :: json
  ro_events :: "root_event list"

type_synonym 'a root_calls = "(roots_world, root_outcome, 'a) calling"

definition roots_meanwhile :: "root_outcome \<Rightarrow> roots_world \<Rightarrow> roots_world" where
  "roots_meanwhile oc w = fold roots_happen (ro_events oc) w"

abbreviation root_call ::
  "(root_outcome \<Rightarrow> roots_world \<Rightarrow> roots_world) \<Rightarrow> (root_outcome \<Rightarrow> roots_world \<Rightarrow> 'a) \<Rightarrow> (string + 'a) root_calls" where
  "root_call \<equiv> call_amid roots_meanwhile"

abbreviation root_call_if ::
  "(root_outcome \<Rightarrow> roots_world \<Rightarrow> bool) \<Rightarrow> (root_outcome \<Rightarrow> roots_world \<Rightarrow> roots_world) \<Rightarrow>
   (root_outcome \<Rightarrow> roots_world \<Rightarrow> 'a) \<Rightarrow> (string + 'a) root_calls" where
  "root_call_if \<equiv> call_amid_if roots_meanwhile"

section \<open>Making, destroying, sweeping\<close>

definition list_volumes :: "(string + json) root_calls" where
  "list_volumes = root_call (\<lambda>oc w. w) (\<lambda>oc w. listing_of w)"

text \<open>The id a clone's answer names.\<close>
definition clone_id :: "json \<Rightarrow> string option" where
  "clone_id created =
     (case as_str (jget created ''volume_id'') of Some i \<Rightarrow> Some i | None \<Rightarrow> as_str (jget created ''id''))"

text \<open>A clone is named by the id the engine gave it, or by none.\<close>
definition names_it :: "root_outcome \<Rightarrow> bool" where
  "names_it oc = (clone_id (ro_body oc) = None \<or> clone_id (ro_body oc) = Some (ro_id oc))"

definition clone_volume :: "string \<Rightarrow> string \<Rightarrow> (string + json) root_calls" where
  "clone_volume n p =
     root_call_if (\<lambda>oc w. has_id w p \<and> \<not> has_id w (ro_id oc) \<and> names_it oc)
       (\<lambda>oc w. clone_root (ro_id oc) n p w) (\<lambda>oc w. ro_body oc)"

definition clone_template :: "string \<Rightarrow> string \<Rightarrow> (string + json) root_calls" where
  "clone_template n t =
     root_call_if (\<lambda>oc w. (case map_of (rw_templates w) t of Some p \<Rightarrow> has_id w p | None \<Rightarrow> False) \<and>
                         \<not> has_id w (ro_id oc) \<and> names_it oc)
       (\<lambda>oc w. clone_root (ro_id oc) n (the (map_of (rw_templates w) t)) w) (\<lambda>oc w. ro_body oc)"

definition attach_root :: "string \<Rightarrow> (string + json) root_calls" where
  "attach_root i = root_call_if (\<lambda>oc w. has_id w i) (\<lambda>oc w. with_id i (\<lambda>v. v\<lparr>ev_attached := True\<rparr>) w) (\<lambda>oc w. ro_body oc)"

text \<open>A volume that is not there is answered 404, which counts as done. The engine does not delete a
  volume that is attached or that others are clones of.\<close>
definition detach_root :: "string \<Rightarrow> (string + unit) root_calls" where
  "detach_root i = root_call (\<lambda>oc w. with_id i (\<lambda>v. v\<lparr>ev_attached := False\<rparr>) w) (\<lambda>oc w. ())"

definition deletable :: "roots_world \<Rightarrow> string \<Rightarrow> bool" where
  "deletable w i =
     list_all (\<lambda>v. (ev_id v = i \<longrightarrow> \<not> ev_attached v) \<and> ev_parent v \<noteq> Some i) (rw_volumes w)"

definition delete_root :: "string \<Rightarrow> (string + unit) root_calls" where
  "delete_root i =
     root_call_if (\<lambda>oc w. deletable w i)
       (\<lambda>oc w. w\<lparr>rw_volumes := filter (\<lambda>v. ev_id v \<noteq> i) (rw_volumes w)\<rparr>) (\<lambda>oc w. ())"

definition destroy :: "string \<Rightarrow> (string + unit) root_calls" where
  "destroy i =
     and_then (detach_root i) (\<lambda>a.
       case a of Inl e \<Rightarrow> done_with (Inl e) | Inr u \<Rightarrow> delete_root i)"

datatype root_error =
    Names_no_golden string
  | No_listing string
  | No_such_golden golden_error
  | Not_cloned string
  | No_volume_id
  | Not_attached "string option"

text \<open>The volume a pallet is cloned from: the engine's word on what is mounted at its path first, the
  command line's or the path's own name only when it says nothing.\<close>
definition pallet_source :: "json \<Rightarrow> string \<Rightarrow> string \<Rightarrow> string" where
  "pallet_source listing img guess =
     (case Option.bind (pallet_path img) (pallet_volume listing) of Some v \<Rightarrow> v | None \<Rightarrow> guess)"

definition note_pallet :: "string \<Rightarrow> string \<Rightarrow> roots_world \<Rightarrow> roots_world" where
  "note_pallet img vol w =
     (case pallet_path img of Some p \<Rightarrow> w\<lparr>rw_pallets := (p, vol) # rw_pallets w\<rparr> | None \<Rightarrow> w)"

definition clone_golden :: "string \<Rightarrow> string \<Rightarrow> golden \<Rightarrow> (root_error + json) root_calls" where
  "clone_golden n img g =
     (case g of
        Template t \<Rightarrow>
          and_then (clone_template n t) (\<lambda>a. done_with (case a of Inl e \<Rightarrow> Inl (Not_cloned e) | Inr body \<Rightarrow> Inr body))
      | Pallet guess \<Rightarrow>
          and_then list_volumes (\<lambda>a.
            case a of
              Inl e \<Rightarrow> done_with (Inl (No_listing e))
            | Inr listing \<Rightarrow>
                (let vol = pallet_source listing img guess
                 in and_then (change (note_pallet img vol)) (\<lambda>_.
                      case pallet_golden listing vol of
                        Inl e \<Rightarrow> done_with (Inl (No_such_golden e))
                      | Inr p \<Rightarrow>
                          and_then (clone_volume n p) (\<lambda>a. done_with (case a of Inl e \<Rightarrow> Inl (Not_cloned e) | Inr body \<Rightarrow> Inr body))))))"

text \<open>A template's clone takes no owner: it is set after, which may fail.\<close>
definition own_root :: "golden \<Rightarrow> bool \<Rightarrow> unit root_calls" where
  "own_root g has_owner =
     (case g of
        Template t \<Rightarrow> if has_owner then and_then (root_call (\<lambda>oc w. w) (\<lambda>oc w. ())) (\<lambda>a. done_with ()) else done_with ()
      | Pallet v \<Rightarrow> done_with ())"

definition attach_or_undo :: "string \<Rightarrow> (root_error + string \<times> string) root_calls" where
  "attach_or_undo i =
     and_then (attach_root i) (\<lambda>a.
       case (case a of Inl e \<Rightarrow> None | Inr info \<Rightarrow> as_str (jget info ''device_hint'')) of
         Some device \<Rightarrow> done_with (Inr (i, device))
       | None \<Rightarrow> and_then (destroy i) (\<lambda>b.
           done_with (Inl (Not_attached (case b of Inl undo \<Rightarrow> Some undo | Inr u \<Rightarrow> None)))))"

text \<open>\<open>make\<close>: the clone's volume and the device it is attached at.\<close>
definition make_root :: "string \<Rightarrow> string \<Rightarrow> string \<Rightarrow> bool \<Rightarrow> (root_error + string \<times> string) root_calls" where
  "make_root cmdline n img has_owner =
     (case golden_of img cmdline of
        None \<Rightarrow> done_with (Inl (Names_no_golden img))
      | Some g \<Rightarrow>
          and_then (clone_golden n img g) (\<lambda>a.
            case a of
              Inl e \<Rightarrow> done_with (Inl e)
            | Inr created \<Rightarrow>
                (case clone_id created of
                   None \<Rightarrow> done_with (Inl No_volume_id)
                 | Some i \<Rightarrow> and_then (own_root g has_owner) (\<lambda>_. attach_or_undo i))))"

text \<open>Whether a listed golden is in the engine; \<open>None\<close> when no list names it or it is not there.\<close>
definition carried :: "string \<Rightarrow> string \<Rightarrow> (string + string option) root_calls" where
  "carried cmdline path =
     (case listed_volume cmdline path of
        None \<Rightarrow> done_with (Inr None)
      | Some vol \<Rightarrow>
          and_then list_volumes (\<lambda>a.
            done_with (case a of
                Inl e \<Rightarrow> Inl e
              | Inr listing \<Rightarrow>
                  (case pallet_golden listing vol of
                     Inr p \<Rightarrow> Inr (Some (PALLET_ROOT @ ''/'' @ path))
                   | Inl why \<Rightarrow> Inr None))))"

definition pallet_volume_of :: "roots_world \<Rightarrow> string \<Rightarrow> string option" where
  "pallet_volume_of w path = map_of (rw_pallets w) path"

fun destroy_each :: "(string \<times> string) list \<Rightarrow> nat \<Rightarrow> nat root_calls" where
  "destroy_each [] gone = done_with gone"
| "destroy_each ((n, i) # rs) gone =
     and_then (destroy i) (\<lambda>a. destroy_each rs (case a of Inl e \<Rightarrow> gone | Inr u \<Rightarrow> gone + 1))"

text \<open>What this kubelet has is asked for after the listing.\<close>
definition sweep :: "string \<Rightarrow> nat root_calls" where
  "sweep own =
     and_then list_volumes (\<lambda>a.
       case a of
         Inl e \<Rightarrow> done_with 0
       | Inr listing \<Rightarrow> and_then (look rw_known) (\<lambda>known. destroy_each (orphans listing known own) 0))"

section \<open>Runs\<close>

text \<open>What a kubelet does with roots, each with the outcomes of its calls; where they are used up the
  kubelet stopped, and starts again knowing nothing. A container's removal destroys the root that
  was made for it.\<close>
datatype roots_op = Make string string string bool | Remove string | Sweep string

definition forgetting :: "roots_world \<Rightarrow> roots_world" where
  "forgetting w = w\<lparr>rw_pallets := [], rw_known := []\<rparr>"

definition ended :: "'a option \<times> roots_world \<times> root_outcome list \<Rightarrow> roots_world" where
  "ended r = (case r of (Some x, w, os) \<Rightarrow> w | (None, w, os) \<Rightarrow> forgetting w)"

definition root_volume :: "roots_world \<Rightarrow> string \<Rightarrow> bool" where
  "root_volume w i = list_all (\<lambda>v. ev_id v = i \<longrightarrow> starts_with (ev_name v) VOLUME_PREFIX) (rw_volumes w)"

definition run_roots_op :: "roots_op \<times> root_outcome list \<Rightarrow> roots_world \<Rightarrow> roots_world" where
  "run_roots_op opos w =
     (case opos of (op, os) \<Rightarrow>
        (case op of
           Make cmdline container img has_owner \<Rightarrow> ended (make_root cmdline (root_volume_name container) img has_owner (w, os))
         | Remove i \<Rightarrow> if root_volume w i then ended (destroy i (w, os)) else w
         | Sweep own \<Rightarrow> ended (sweep own (w, os))))"

definition run_roots :: "(roots_op \<times> root_outcome list) list \<Rightarrow> roots_world \<Rightarrow> roots_world" where
  "run_roots ops w = fold run_roots_op ops w"

end
