(* ===== verification/RootsSafety.thy ===== *)
theory RootsSafety
  imports ContainerRoots
begin

text \<open>Every container root is one clone of a sealed golden, whatever fails: the invariant of the engine's
  volumes, its preservation by \<open>make\<close>, \<open>destroy\<close> and \<open>sweep\<close>, what a failed \<open>make\<close> leaves and what the
  sweep spares and takes.\<close>

section \<open>The invariant\<close>

definition root_ok :: "roots_world \<Rightarrow> engine_volume \<Rightarrow> bool" where
  "root_ok w v = (\<not> ev_sealed v \<and> (\<exists>p. ev_parent v = Some p \<and> golden_there w p))"

definition roots_ok :: "roots_world \<Rightarrow> bool" where
  "roots_ok w =
     (distinct (map ev_id (rw_volumes w)) \<and>
      (\<forall>v \<in> set (rw_volumes w). starts_with (ev_name v) VOLUME_PREFIX \<longrightarrow> root_ok w v) \<and>
      (\<forall>p \<in> snd ` set (rw_templates w). golden_there w p))"

text \<open>What is known of some volumes of an earlier world: they are still there, and those that were
  attached are.\<close>
definition same_volume :: "engine_volume \<Rightarrow> engine_volume \<Rightarrow> bool" where
  "same_volume v v' =
     (ev_id v' = ev_id v \<and> ev_name v' = ev_name v \<and> ev_parent v' = ev_parent v \<and> ev_sealed v' = ev_sealed v \<and>
      ev_in_use v' = ev_in_use v \<and> (ev_attached v \<longrightarrow> ev_attached v'))"

definition still_there :: "(engine_volume \<Rightarrow> bool) \<Rightarrow> roots_world \<Rightarrow> roots_world \<Rightarrow> bool" where
  "still_there H w0 w = (\<forall>v \<in> set (rw_volumes w0). H v \<longrightarrow> (\<exists>v' \<in> set (rw_volumes w). same_volume v v'))"

definition roots_good :: "(engine_volume \<Rightarrow> bool) \<Rightarrow> roots_world \<Rightarrow> roots_world \<Rightarrow> bool" where
  "roots_good H w0 w = (roots_ok w \<and> still_there H w0 w \<and> set (rw_known w0) \<subseteq> set (rw_known w))"

lemma same_volume_refl [simp]: "same_volume v v"
  by (simp add: same_volume_def)

lemma still_there_refl: "still_there H w w"
  by (auto simp: still_there_def intro: same_volume_refl)

lemma golden_there_iff:
  "golden_there w p \<longleftrightarrow> (\<exists>v \<in> set (rw_volumes w). ev_id v = p \<and> ev_sealed v \<and> \<not> starts_with (ev_name v) VOLUME_PREFIX)"
  by (auto simp: golden_there_def list_ex_iff)

lemma in_with_id: "v \<in> set (rw_volumes (with_id i f w)) \<longleftrightarrow> (\<exists>u \<in> set (rw_volumes w). v = (if ev_id u = i then f u else u))"
  unfolding with_id_def by (simp add: image_iff del: if_image_distrib)

lemma golden_with_id:
  assumes "\<And>v. ev_id (f v) = ev_id v" "\<And>v. ev_name (f v) = ev_name v" "\<And>v. ev_sealed (f v) = ev_sealed v"
  shows "golden_there (with_id i f w) p = golden_there w p"
proof -
  define g where "g = (\<lambda>v. if ev_id v = i then f v else v)"
  have "ev_id (g v) = ev_id v" "ev_name (g v) = ev_name v" "ev_sealed (g v) = ev_sealed v" for v by (simp_all add: g_def assms)
  moreover have "rw_volumes (with_id i f w) = map g (rw_volumes w)" by (simp add: with_id_def g_def)
  ultimately show ?thesis by (simp add: golden_there_iff)
qed

text \<open>A change that renames nothing, seals nothing and detaches none of \<open>H\<close>.\<close>
lemma good_with_id:
  assumes "roots_good H w0 w"
    and f: "\<And>v. ev_id (f v) = ev_id v" "\<And>v. ev_name (f v) = ev_name v" "\<And>v. ev_parent (f v) = ev_parent v"
      "\<And>v. ev_sealed (f v) = ev_sealed v" "\<And>v. ev_in_use (f v) = ev_in_use v"
    and a: "\<And>v. \<lbrakk>ev_id v = i; ev_attached v; \<not> ev_attached (f v)\<rbrakk> \<Longrightarrow> \<forall>u \<in> set (rw_volumes w0). H u \<longrightarrow> ev_id u \<noteq> i"
  shows "roots_good H w0 (with_id i f w)"
proof -
  define g where "g = (\<lambda>v. if ev_id v = i then f v else v)"
  have vols: "rw_volumes (with_id i f w) = map g (rw_volumes w)" by (simp add: with_id_def g_def)
  have there: "golden_there (with_id i f w) p = golden_there w p" for p by (rule golden_with_id) (simp_all add: f)
  have ids: "map ev_id (rw_volumes (with_id i f w)) = map ev_id (rw_volumes w)"
    by (simp add: with_id_def f)
  have ok: "roots_ok (with_id i f w)"
    using assms(1) unfolding roots_good_def roots_ok_def root_ok_def there ids
    by (auto simp: with_id_def f)
  have "\<exists>v' \<in> set (rw_volumes (with_id i f w)). same_volume u v'" if u: "u \<in> set (rw_volumes w0)" "H u" for u
  proof -
    obtain v where v: "v \<in> set (rw_volumes w)" "same_volume u v"
      using assms(1) u by (auto simp: roots_good_def still_there_def)
    have "same_volume u (g v)"
      using v(2) a [of v] u by (auto simp: same_volume_def f g_def)
    then show ?thesis using v(1) by (auto simp: vols)
  qed
  then show ?thesis using ok assms(1) by (simp add: roots_good_def still_there_def with_id_def)
qed

lemma good_clone:
  assumes "roots_good H w0 w" "golden_there w p"
  shows "roots_good H w0 (clone_root i n p w)"
proof (cases "has_id w p \<and> \<not> has_id w i")
  case True
  have there: "golden_there (clone_root i n p w) q" if "golden_there w q" for q
    using that True by (auto simp: golden_there_iff clone_root_def)
  have "roots_ok (clone_root i n p w)"
    using assms there True unfolding roots_good_def roots_ok_def root_ok_def
    by (auto simp: clone_root_def has_id_def new_root_def)
  moreover have "still_there H w0 (clone_root i n p w)"
    using assms(1) True by (auto simp: roots_good_def still_there_def clone_root_def)
  ultimately show ?thesis using assms(1) by (simp add: roots_good_def clone_root_def)
next
  case False
  then show ?thesis using assms(1) unfolding clone_root_def by presburger
qed

lemma good_known: "\<lbrakk>roots_good H w0 w; set (rw_known w) \<subseteq> set k\<rbrakk> \<Longrightarrow> roots_good H w0 (w\<lparr>rw_known := k\<rparr>)"
  by (auto simp add: roots_good_def roots_ok_def root_ok_def golden_there_def still_there_def)

lemma good_pallet: "roots_good H w0 w \<Longrightarrow> roots_good H w0 (note_pallet img vol w)"
  by (simp add: note_pallet_def roots_good_def roots_ok_def root_ok_def golden_there_def still_there_def split: option.split)

lemma good_happens:
  assumes "roots_good H w0 w"
  shows "roots_good H w0 (roots_happen e w)"
proof (cases e)
  case (Root_made i n p)
  have "golden_there (w\<lparr>rw_known := n # rw_known w\<rparr>) p = golden_there w p" by (simp add: golden_there_def)
  then show ?thesis
    using good_known [OF assms, of "n # rw_known w"] good_clone [of H w0 "w\<lparr>rw_known := n # rw_known w\<rparr>" p i n] Root_made
    by (auto simp: Let_def)
next
  case (Root_attached i)
  show ?thesis
    unfolding Root_attached roots_happen.simps by (rule good_with_id [OF assms]) (auto split: if_splits)
qed

lemma good_meanwhile: "roots_good H w0 w \<Longrightarrow> roots_good H w0 (roots_meanwhile oc w)"
proof -
  have "roots_good H w0 w \<Longrightarrow> roots_good H w0 (fold roots_happen es w)" for es w
    by (induction es arbitrary: w) (simp_all add: good_happens)
  then show "roots_good H w0 w \<Longrightarrow> roots_good H w0 (roots_meanwhile oc w)" by (simp add: roots_meanwhile_def)
qed

section \<open>What the calls keep\<close>

definition roots_steady :: "(roots_world \<Rightarrow> bool) \<Rightarrow> bool" where
  "roots_steady P = (\<forall>H w0. stable_amid (roots_good H w0) roots_meanwhile P)"

lemma roots_steadyI: "(\<And>H w0 w e. roots_good H w0 w \<Longrightarrow> P w \<Longrightarrow> P (roots_happen e w)) \<Longrightarrow> roots_steady P"
  unfolding roots_steady_def stable_amid_def
proof (intro allI impI)
  fix H w0 w oc
  assume step: "\<And>H w0 w e. roots_good H w0 w \<Longrightarrow> P w \<Longrightarrow> P (roots_happen e w)" and w: "roots_good H w0 w" "P w"
  have "P (fold roots_happen es w)" for es
    using w by (induction es arbitrary: w) (simp_all add: good_happens step)
  then show "roots_good H w0 (roots_meanwhile oc w) \<and> P (roots_meanwhile oc w)"
    using good_meanwhile [OF w(1)] by (simp add: roots_meanwhile_def)
qed

lemma roots_steadyD: "roots_steady P \<Longrightarrow> stable_amid (roots_good H w0) roots_meanwhile P"
  by (simp add: roots_steady_def)

definition is_root :: "string \<Rightarrow> roots_world \<Rightarrow> bool" where
  "is_root i w = (\<forall>v \<in> set (rw_volumes w). ev_id v = i \<longrightarrow> starts_with (ev_name v) VOLUME_PREFIX)"

definition spared :: "(engine_volume \<Rightarrow> bool) \<Rightarrow> roots_world \<Rightarrow> string \<Rightarrow> bool" where
  "spared H w0 i = (\<forall>u \<in> set (rw_volumes w0). H u \<longrightarrow> ev_id u \<noteq> i)"

lemma steady_true: "roots_steady (\<lambda>w. True)"
  by (rule roots_steadyI) simp

lemma happen_adds:
  "v \<in> set (rw_volumes (roots_happen e w)) \<Longrightarrow>
     starts_with (ev_name v) VOLUME_PREFIX \<or> (\<exists>u \<in> set (rw_volumes w). ev_id v = ev_id u \<and> ev_name v = ev_name u)"
  by (cases e) (auto simp: Let_def clone_root_def with_id_def new_root_def split: if_splits)

lemma golden_happens: "golden_there w p \<Longrightarrow> golden_there (roots_happen e w) p"
proof (cases e)
  case (Root_attached i)
  have "golden_there (with_id i (\<lambda>v. if ev_name v \<in> set (rw_known w) then v\<lparr>ev_attached := True\<rparr> else v) w) p = golden_there w p"
    by (rule golden_with_id) simp_all
  then show "golden_there w p \<Longrightarrow> golden_there (roots_happen e w) p" by (simp add: Root_attached)
qed (auto simp: golden_there_iff Let_def clone_root_def)

lemma root_happens: "is_root i w \<Longrightarrow> is_root i (roots_happen e w)"
  using happen_adds [of _ e w] by (fastforce simp: is_root_def)

lemma steady_golden: "roots_steady (\<lambda>w. \<forall>p. A p \<longrightarrow> golden_there w p)"
  by (rule roots_steadyI) (auto simp: golden_happens)

abbreviation roots_keep ::
  "(engine_volume \<Rightarrow> bool) \<Rightarrow> roots_world \<Rightarrow> (roots_world \<Rightarrow> bool) \<Rightarrow> 'a root_calls \<Rightarrow> ('a \<Rightarrow> roots_world \<Rightarrow> bool) \<Rightarrow> bool" where
  "roots_keep H w0 \<equiv> upholds (roots_good H w0)"

text \<open>A volume that is a root is no golden, nor the source of one.\<close>
lemma good_delete:
  assumes "roots_good H w0 w" "is_root i w" "spared H w0 i" "deletable w i"
  shows "roots_good H w0 (w\<lparr>rw_volumes := filter (\<lambda>v. ev_id v \<noteq> i) (rw_volumes w)\<rparr>)"
proof -
  let ?w = "w\<lparr>rw_volumes := filter (\<lambda>v. ev_id v \<noteq> i) (rw_volumes w)\<rparr>"
  have there: "golden_there ?w p" if "golden_there w p" for p
    using that assms(2) by (auto simp: golden_there_iff is_root_def)
  have w: "distinct (map ev_id (rw_volumes w))"
    "\<And>v. \<lbrakk>v \<in> set (rw_volumes w); starts_with (ev_name v) VOLUME_PREFIX\<rbrakk> \<Longrightarrow> root_ok w v"
    "\<And>p. p \<in> snd ` set (rw_templates w) \<Longrightarrow> golden_there w p"
    using assms(1) by (auto simp: roots_good_def roots_ok_def)
  have "root_ok ?w v" if "root_ok w v" for v using that there by (auto simp: root_ok_def)
  then have "roots_ok ?w" using w there by (simp add: roots_ok_def distinct_map_filter)
  moreover have "\<exists>v' \<in> set (rw_volumes ?w). same_volume u v'" if u: "u \<in> set (rw_volumes w0)" "H u" for u
  proof -
    obtain v' where "v' \<in> set (rw_volumes w)" "same_volume u v'" using assms(1) u by (auto simp: roots_good_def still_there_def)
    moreover have "ev_id u \<noteq> i" using assms(3) u by (simp add: spared_def)
    ultimately show ?thesis by (auto simp: same_volume_def)
  qed
  ultimately show ?thesis using assms(1) by (simp add: roots_good_def still_there_def)
qed

definition are_roots :: "string set \<Rightarrow> roots_world \<Rightarrow> bool" where
  "are_roots J w = (\<forall>j \<in> J. is_root j w)"

lemma steady_roots: "roots_steady (are_roots J)"
  by (rule roots_steadyI) (meson are_roots_def root_happens)

lemma roots_with_id:
  assumes "are_roots J w" "\<And>v. ev_id (f v) = ev_id v" "\<And>v. ev_name (f v) = ev_name v"
  shows "are_roots J (with_id i f w)"
  unfolding are_roots_def is_root_def
proof (intro ballI impI)
  fix j v assume j: "j \<in> J" and v: "v \<in> set (rw_volumes (with_id i f w))" "ev_id v = j"
  obtain u where "u \<in> set (rw_volumes w)" "v = (if ev_id u = i then f u else u)"
    using v(1) by (auto simp only: in_with_id)
  then show "starts_with (ev_name v) VOLUME_PREFIX"
    using assms j v(2) by (cases "ev_id u = i") (auto simp: are_roots_def is_root_def)
qed

lemma keep_destroy_of:
  assumes "i \<in> J" "spared H w0 i"
  shows "roots_keep H w0 (are_roots J) (destroy i) (\<lambda>_. are_roots J)"
  unfolding destroy_def
proof (rule upholds_then)
  show "roots_keep H w0 (are_roots J) (detach_root i) (\<lambda>_. are_roots J)"
    unfolding detach_root_def
  proof (rule upholds_call [OF roots_steadyD [OF steady_roots]])
    fix w assume "roots_good H w0 w" "are_roots J w"
    moreover from this have "roots_good H w0 (with_id i (\<lambda>v. v\<lparr>ev_attached := False\<rparr>) w)"
      by (intro good_with_id) (use assms(2) in \<open>simp_all add: spared_def\<close>)
    ultimately show "roots_good H w0 (with_id i (\<lambda>v. v\<lparr>ev_attached := False\<rparr>) w) \<and>
        (\<forall>e :: string. are_roots J (with_id i (\<lambda>v. v\<lparr>ev_attached := False\<rparr>) w)) \<and> are_roots J (with_id i (\<lambda>v. v\<lparr>ev_attached := False\<rparr>) w)"
      by (simp add: roots_with_id)
  qed
  show "roots_keep H w0 (are_roots J) (case a of Inl e \<Rightarrow> done_with (Inl e) | Inr u \<Rightarrow> delete_root i) (\<lambda>_. are_roots J)" for a
  proof (cases a)
    case (Inl e)
    then show ?thesis by (simp add: upholds_done)
  next
    case (Inr u)
    have "roots_keep H w0 (are_roots J) (delete_root i) (\<lambda>_. are_roots J)"
      unfolding delete_root_def
    proof (rule upholds_call_if [OF roots_steadyD [OF steady_roots]])
      fix w assume w: "roots_good H w0 w" "are_roots J w" "deletable w i"
      have "roots_good H w0 (w\<lparr>rw_volumes := filter (\<lambda>v. ev_id v \<noteq> i) (rw_volumes w)\<rparr>)"
        by (rule good_delete) (use w assms in \<open>simp_all add: are_roots_def\<close>)
      moreover have "are_roots J (w\<lparr>rw_volumes := filter (\<lambda>v. ev_id v \<noteq> i) (rw_volumes w)\<rparr>)"
        using w(2) by (simp add: are_roots_def is_root_def)
      ultimately show "roots_good H w0 (w\<lparr>rw_volumes := filter (\<lambda>v. ev_id v \<noteq> i) (rw_volumes w)\<rparr>) \<and>
          (\<forall>e :: string. are_roots J (w\<lparr>rw_volumes := filter (\<lambda>v. ev_id v \<noteq> i) (rw_volumes w)\<rparr>)) \<and>
          are_roots J (w\<lparr>rw_volumes := filter (\<lambda>v. ev_id v \<noteq> i) (rw_volumes w)\<rparr>)"
        by simp
    qed simp
    then show ?thesis by (simp add: Inr)
  qed
qed

section \<open>What the listing says\<close>

lemma volume_json_fields [simp]:
  "jget (volume_json v) ''name'' = JStr (ev_name v)" "jget (volume_json v) ''id'' = JStr (ev_id v)"
  "jget (volume_json v) ''parent'' = opt_str (ev_parent v)" "jget (volume_json v) ''sealed'' = JBool (ev_sealed v)"
  "jget (volume_json v) ''in_use'' = JBool (ev_in_use v)" "elems (jget (volume_json v) ''attachments'') = [] \<longleftrightarrow> \<not> ev_attached v"
  by (simp_all add: volume_json_def jget_def elems_def)

lemma as_str_JStr [simp]: "as_str (JStr s) = Some s" "as_str (opt_str x) = x" "as_bool (JBool b) = Some b"
  by (simp_all add: as_str_def as_bool_def opt_str_def split: option.split)

lemma listing_items [simp]:
  "as_array (jget (listing_of w) ''items'') = Some (map volume_json (rw_volumes w))"
  "elems (jget (listing_of w) ''items'') = map volume_json (rw_volumes w)"
  by (simp_all add: listing_of_def jget_def as_array_def elems_def)

lemma find_map_json:
  "find_map (\<lambda>x. if P x then Some x else None) (map volume_json vs) = Some y \<Longrightarrow> \<exists>v \<in> set vs. y = volume_json v \<and> P (volume_json v)"
  by (drule find_map_Some) (auto split: if_splits)

text \<open>The golden of a pallet is sealed and no root.\<close>
lemma pallet_golden_there:
  assumes "roots_ok w" "pallet_golden (listing_of w) vol = Inr p"
  shows "golden_there w p"
proof -
  have sealed: "golden_there w (ev_id v)" if "v \<in> set (rw_volumes w)" "ev_sealed v" for v
    using that assms(1) by (auto simp: golden_there_iff roots_ok_def root_ok_def)
  have parent: "golden_there w p" if sp: "sealed_parent (map volume_json (rw_volumes w)) vol = Inr p"
  proof -
    let ?by_id = "\<lambda>i. find_map (\<lambda>v. if as_str (jget v ''id'') = Some i then Some v else None) (map volume_json (rw_volumes w))"
    obtain c where c: "by_name (map volume_json (rw_volumes w)) vol = Some c"
      using sp by (cases "by_name (map volume_json (rw_volumes w)) vol") (auto simp: sealed_parent_def)
    obtain i where i: "as_str (jget c ''parent'') = Some i"
      using sp c by (cases "as_str (jget c ''parent'')") (auto simp: sealed_parent_def)
    obtain g where g: "?by_id i = Some g"
      using sp c i by (cases "?by_id i") (simp_all add: sealed_parent_def)
    have "is_sealed g" "i = p" using sp unfolding sealed_parent_def c i option.case g by (auto split: if_splits)
    then obtain v where "v \<in> set (rw_volumes w)" "ev_id v = p" "ev_sealed v"
      using find_map_json [OF g] by (auto simp: is_sealed_def)
    then show ?thesis using sealed by blast
  qed
  show ?thesis
  proof (cases "by_name (map volume_json (rw_volumes w)) (vol @ ''.golden'')")
    case None
    then show ?thesis using assms(2) parent by (simp add: pallet_golden_def)
  next
    case (Some g)
    then obtain v where v: "v \<in> set (rw_volumes w)" "g = volume_json v"
      using find_map_json [OF Some [unfolded by_name_def]] by auto
    show ?thesis
      using assms(2) parent sealed [OF v(1)] v(2) Some by (auto simp: pallet_golden_def is_sealed_def split: if_splits)
  qed
qed

text \<open>What the sweep takes for an orphan.\<close>
definition orphaned :: "string list \<Rightarrow> string \<Rightarrow> engine_volume \<Rightarrow> bool" where
  "orphaned known own v =
     (starts_with (ev_name v) VOLUME_PREFIX \<and> ev_name v \<notin> set known \<and> (own = [] \<or> \<not> starts_with (ev_name v) own) \<and>
      \<not> ev_in_use v \<and> \<not> ev_attached v)"

lemma orphans_listed:
  "orphans (listing_of w) known own = map (\<lambda>v. (ev_name v, ev_id v)) (filter (orphaned known own) (rw_volumes w))"
proof -
  have "orphan_of known own (volume_json v) = (if orphaned known own v then Some (ev_name v, ev_id v) else None)" for v
    by (simp add: orphan_of_def orphaned_def)
  then have "List.map_filter (orphan_of known own) (map volume_json vs) =
      map (\<lambda>v. (ev_name v, ev_id v)) (filter (orphaned known own) vs)" for vs
    by (induction vs) (simp_all add: List.map_filter_simps)
  then show ?thesis by (simp add: orphans_def)
qed

section \<open>Making\<close>

text \<open>The volume \<open>i\<close> is a root named \<open>n\<close>, none of \<open>H\<close>; attached, if that is said.\<close>
definition makes_root :: "(engine_volume \<Rightarrow> bool) \<Rightarrow> roots_world \<Rightarrow> string \<Rightarrow> string \<Rightarrow> bool \<Rightarrow> roots_world \<Rightarrow> bool" where
  "makes_root H w0 n i attached w =
     (spared H w0 i \<and>
      (\<exists>v \<in> set (rw_volumes w). ev_id v = i \<and> ev_name v = n \<and> ev_parent v \<noteq> None \<and> (attached \<longrightarrow> ev_attached v)))"

lemma makes_happens:
  assumes "makes_root H w0 n i b w"
  shows "makes_root H w0 n i b (roots_happen e w)"
proof -
  obtain v where v: "v \<in> set (rw_volumes w)" "ev_id v = i" "ev_name v = n" "ev_parent v \<noteq> None" "b \<longrightarrow> ev_attached v"
    using assms by (auto simp: makes_root_def)
  have "\<exists>v' \<in> set (rw_volumes (roots_happen e w)). ev_id v' = i \<and> ev_name v' = n \<and> ev_parent v' \<noteq> None \<and> (b \<longrightarrow> ev_attached v')"
  proof (cases e)
    case (Root_made i' n' p)
    then show ?thesis using v by (auto simp: Let_def clone_root_def)
  next
    case (Root_attached j)
    let ?f = "\<lambda>v. if ev_name v \<in> set (rw_known w) then v\<lparr>ev_attached := True\<rparr> else v"
    have "(if ev_id v = j then ?f v else v) \<in> set (rw_volumes (roots_happen e w))"
      using v(1) unfolding Root_attached roots_happen.simps in_with_id by blast
    then show ?thesis using v by (intro bexI [where x = "if ev_id v = j then ?f v else v"]) auto
  qed
  then show ?thesis using assms by (simp add: makes_root_def)
qed

lemma steady_makes: "roots_steady (makes_root H w0 n i b)"
  by (rule roots_steadyI) (rule makes_happens)

lemma makes_is_root:
  assumes "roots_good H w0 w" "makes_root H w0 n i b w" "starts_with n VOLUME_PREFIX"
  shows "is_root i w \<and> spared H w0 i"
proof -
  obtain v where v: "v \<in> set (rw_volumes w)" "ev_id v = i" "ev_name v = n" using assms(2) by (auto simp: makes_root_def)
  have "u = v" if "u \<in> set (rw_volumes w)" "ev_id u = i" for u
  proof -
    have "inj_on ev_id (set (rw_volumes w))" using assms(1) by (simp add: roots_good_def roots_ok_def distinct_map)
    then show ?thesis using v(1,2) that by (metis inj_onD)
  qed
  then show ?thesis using v(3) assms(2,3) by (metis is_root_def makes_root_def)
qed

lemma clone_makes:
  assumes "roots_good H w0 w" "has_id w p" "\<not> has_id w i"
  shows "makes_root H w0 n i False (clone_root i n p w)"
proof -
  have "spared H w0 i"
    unfolding spared_def
  proof (intro ballI impI)
    fix u assume "u \<in> set (rw_volumes w0)" "H u"
    then obtain v where "v \<in> set (rw_volumes w)" "same_volume u v"
      using assms(1) unfolding roots_good_def still_there_def by blast
    then show "ev_id u \<noteq> i" using assms(3) unfolding has_id_def same_volume_def by (metis image_eqI)
  qed
  then show ?thesis using assms(2,3) by (simp add: makes_root_def clone_root_def new_root_def)
qed

lemma golden_has_id: "golden_there w p \<Longrightarrow> has_id w p"
  by (auto simp: golden_there_iff has_id_def)

lemma keep_clone:
  assumes "roots_steady P"
    "\<And>w oc. \<lbrakk>roots_good H w0 w; P w; allowed oc w\<rbrakk> \<Longrightarrow> golden_there w (p w) \<and> \<not> has_id w (ro_id oc) \<and> names_it oc"
  shows "roots_keep H w0 P
    (root_call_if allowed (\<lambda>oc w. clone_root (ro_id oc) n (p w) w) (\<lambda>oc w. ro_body oc))
    (\<lambda>a w. \<forall>body i. a = Inr body \<longrightarrow> clone_id body = Some i \<longrightarrow> makes_root H w0 n i False w)"
proof (rule upholds_call_if [OF roots_steadyD [OF assms(1)]])
  fix w oc
  assume w: "roots_good H w0 w" "P w" "allowed oc w"
  note a = assms(2) [OF w]
  have "roots_good H w0 (clone_root (ro_id oc) n (p w) w)" using good_clone w(1) a by blast
  moreover have "makes_root H w0 n i False (clone_root (ro_id oc) n (p w) w)" if "clone_id (ro_body oc) = Some i" for i
    using clone_makes [OF w(1) golden_has_id] a that by (auto simp: names_it_def)
  ultimately show "roots_good H w0 (clone_root (ro_id oc) n (p w) w) \<and>
     (\<forall>e. \<forall>body i. Inl e = Inr body \<longrightarrow> clone_id body = Some i \<longrightarrow> makes_root H w0 n i False (clone_root (ro_id oc) n (p w) w)) \<and>
     (\<forall>body i. Inr (ro_body oc) = Inr body \<longrightarrow> clone_id body = Some i \<longrightarrow> makes_root H w0 n i False (clone_root (ro_id oc) n (p w) w))"
    by simp
qed simp

abbreviation cloned :: "(engine_volume \<Rightarrow> bool) \<Rightarrow> roots_world \<Rightarrow> string \<Rightarrow> ('e + json) \<Rightarrow> roots_world \<Rightarrow> bool" where
  "cloned H w0 n a w \<equiv> (\<forall>body i. a = Inr body \<longrightarrow> clone_id body = Some i \<longrightarrow> makes_root H w0 n i False w)"

lemma keep_clone_template: "roots_keep H w0 (\<lambda>w. True) (clone_template n t) (cloned H w0 n)"
  unfolding clone_template_def
proof (rule keep_clone [OF steady_true])
  fix w oc
  assume "roots_good H w0 w"
    "(case map_of (rw_templates w) t of Some p \<Rightarrow> has_id w p | None \<Rightarrow> False) \<and> \<not> has_id w (ro_id oc) \<and> names_it oc"
  then show "golden_there w (the (map_of (rw_templates w) t)) \<and> \<not> has_id w (ro_id oc) \<and> names_it oc"
    by (auto simp: roots_good_def roots_ok_def split: option.splits dest!: map_of_SomeD)
qed

lemma keep_clone_volume: "roots_keep H w0 (\<lambda>w. golden_there w p) (clone_volume n p) (cloned H w0 n)"
  unfolding clone_volume_def
  by (rule keep_clone) (use steady_golden [of "\<lambda>q. q = p"] in simp_all)

lemma keep_list: "roots_keep H w0 (\<lambda>w. True) list_volumes
    (\<lambda>a w. \<forall>listing vol p. a = Inr listing \<longrightarrow> pallet_golden listing vol = Inr p \<longrightarrow> golden_there w p)"
  unfolding list_volumes_def
  by (rule upholds_call [OF roots_steadyD [OF steady_true]]) (auto simp: roots_good_def pallet_golden_there)

lemma golden_note: "golden_there (note_pallet img vol w) p = golden_there w p"
  by (simp add: note_pallet_def golden_there_def split: option.split)

lemma keep_clone_golden: "roots_keep H w0 (\<lambda>w. True) (clone_golden n img g) (cloned H w0 n)"
proof (cases g)
  case (Template t)
  show ?thesis
    unfolding clone_golden_def Template golden.case
    by (rule upholds_then [OF keep_clone_template]) (auto intro!: upholds_done split: sum.split)
next
  case (Pallet guess)
  have clone: "roots_keep H w0 (\<lambda>w. \<forall>vol p. pallet_golden listing vol = Inr p \<longrightarrow> golden_there w p)
     (let vol = pallet_source listing img guess
      in and_then (change (note_pallet img vol)) (\<lambda>_.
           case pallet_golden listing vol of
             Inl e \<Rightarrow> done_with (Inl (No_such_golden e))
           | Inr p \<Rightarrow>
               and_then (clone_volume n p) (\<lambda>a. done_with (case a of Inl e \<Rightarrow> Inl (Not_cloned e) | Inr body \<Rightarrow> Inr body))))
     (cloned H w0 n)" for listing
    unfolding Let_def
  proof (rule upholds_then [where Q = "\<lambda>_ w. \<forall>vol p. pallet_golden listing vol = Inr p \<longrightarrow> golden_there w p"])
    fix u :: unit
    show "roots_keep H w0 (\<lambda>w. \<forall>vol p. pallet_golden listing vol = Inr p \<longrightarrow> golden_there w p)
       (case pallet_golden listing (pallet_source listing img guess) of
          Inl e \<Rightarrow> done_with (Inl (No_such_golden e))
        | Inr p \<Rightarrow> and_then (clone_volume n p) (\<lambda>a. done_with (case a of Inl e \<Rightarrow> Inl (Not_cloned e) | Inr body \<Rightarrow> Inr body)))
       (cloned H w0 n)"
    proof (cases "pallet_golden listing (pallet_source listing img guess)")
      case (Inr p)
      have "roots_keep H w0 (\<lambda>w. golden_there w p)
          (and_then (clone_volume n p) (\<lambda>a. done_with (case a of Inl e \<Rightarrow> Inl (Not_cloned e) | Inr body \<Rightarrow> Inr body))) (cloned H w0 n)"
        by (rule upholds_then [OF keep_clone_volume]) (auto intro!: upholds_done split: sum.split)
      then show ?thesis unfolding Inr sum.case by (rule upholds_pre) (use Inr in blast)
    qed (simp add: upholds_done)
  qed (auto intro!: upholds_change simp: good_pallet golden_note)
  show ?thesis
    unfolding clone_golden_def Pallet golden.case
  proof (rule upholds_then [OF keep_list])
    fix a
    show "roots_keep H w0 (\<lambda>w. \<forall>listing vol p. a = Inr listing \<longrightarrow> pallet_golden listing vol = Inr p \<longrightarrow> golden_there w p)
       (case a of Inl e \<Rightarrow> done_with (Inl (No_listing e))
        | Inr listing \<Rightarrow>
            (let vol = pallet_source listing img guess
             in and_then (change (note_pallet img vol)) (\<lambda>_.
                  case pallet_golden listing vol of
                    Inl e \<Rightarrow> done_with (Inl (No_such_golden e))
                  | Inr p \<Rightarrow>
                      and_then (clone_volume n p) (\<lambda>a. done_with (case a of Inl e \<Rightarrow> Inl (Not_cloned e) | Inr body \<Rightarrow> Inr body)))))
       (cloned H w0 n)"
      using clone by (cases a) (auto intro!: upholds_done)
  qed
qed

lemma keep_own: "roots_keep H w0 (makes_root H w0 n i False) (own_root g has_owner) (\<lambda>_. makes_root H w0 n i False)"
proof -
  have call: "roots_keep H w0 (makes_root H w0 n i False) (root_call (\<lambda>oc w. w) (\<lambda>oc w. ())) (\<lambda>_. makes_root H w0 n i False)"
    by (rule upholds_call [OF roots_steadyD [OF steady_makes]]) simp_all
  then show ?thesis
    by (auto simp: own_root_def upholds_done intro!: upholds_then [OF call] split: golden.split)
qed

definition attached_made :: "(engine_volume \<Rightarrow> bool) \<Rightarrow> roots_world \<Rightarrow> string \<Rightarrow> 'e + string \<times> string \<Rightarrow> roots_world \<Rightarrow> bool" where
  "attached_made H w0 n a w = (\<forall>i d. a = Inr (i, d) \<longrightarrow> makes_root H w0 n i True w)"

lemma attach_makes:
  assumes "roots_good H w0 w" "makes_root H w0 n i False w"
  shows "roots_good H w0 (with_id i (\<lambda>v. v\<lparr>ev_attached := True\<rparr>) w) \<and> makes_root H w0 n i True (with_id i (\<lambda>v. v\<lparr>ev_attached := True\<rparr>) w)"
proof
  show "roots_good H w0 (with_id i (\<lambda>v. v\<lparr>ev_attached := True\<rparr>) w)" by (rule good_with_id [OF assms(1)]) simp_all
  obtain v where v: "v \<in> set (rw_volumes w)" "ev_id v = i" "ev_name v = n" "ev_parent v \<noteq> None"
    using assms(2) by (auto simp: makes_root_def)
  have "v\<lparr>ev_attached := True\<rparr> \<in> set (rw_volumes (with_id i (\<lambda>v. v\<lparr>ev_attached := True\<rparr>) w))"
    using v(1,2) unfolding in_with_id by (intro bexI [where x = v]) simp_all
  then show "makes_root H w0 n i True (with_id i (\<lambda>v. v\<lparr>ev_attached := True\<rparr>) w)"
    using v assms(2) unfolding makes_root_def by (intro conjI bexI [where x = "v\<lparr>ev_attached := True\<rparr>"]) auto
qed

lemma makes_weaken: "makes_root H w0 n i True w \<Longrightarrow> makes_root H w0 n i False w"
  by (auto simp: makes_root_def)

lemma keep_attach:
  assumes "starts_with n VOLUME_PREFIX"
  shows "roots_keep H w0 (makes_root H w0 n i False) (attach_or_undo i) (attached_made H w0 n)"
  unfolding attach_or_undo_def
proof (rule upholds_then [where Q = "\<lambda>a w. makes_root H w0 n i (\<exists>info. a = Inr info) w"])
  show "roots_keep H w0 (makes_root H w0 n i False) (attach_root i) (\<lambda>a w. makes_root H w0 n i (\<exists>info. a = Inr info) w)"
    unfolding attach_root_def
    by (rule upholds_call_if [OF roots_steadyD [OF steady_makes]]) (simp_all add: attach_makes makes_weaken)
next
  fix a
  let ?device = "case a of Inl e \<Rightarrow> None | Inr info \<Rightarrow> as_str (jget info ''device_hint'')"
  show "roots_keep H w0 (makes_root H w0 n i (\<exists>info. a = Inr info))
     (case ?device of
        Some device \<Rightarrow> done_with (Inr (i, device))
      | None \<Rightarrow> and_then (destroy i) (\<lambda>b. done_with (Inl (Not_attached (case b of Inl undo \<Rightarrow> Some undo | Inr u \<Rightarrow> None)))))
     (attached_made H w0 n)"
  proof (cases ?device)
    case None
    have "roots_keep H w0 (makes_root H w0 n i (\<exists>info. a = Inr info)) (destroy i) (\<lambda>_ _. True)"
    proof (cases "spared H w0 i")
      case True
      show ?thesis
        by (rule upholds_post [OF upholds_pre [OF keep_destroy_of [of i "{i}", OF _ True]]])
          (use makes_is_root assms in \<open>auto simp: are_roots_def\<close>)
    qed (simp add: upholds_def makes_root_def)
    from upholds_then [OF this, of "\<lambda>b. done_with (Inl (Not_attached (case b of Inl undo \<Rightarrow> Some undo | Inr u \<Rightarrow> None)))" "attached_made H w0 n"]
    show ?thesis unfolding None option.case by (simp add: upholds_done attached_made_def)
  next
    case (Some d)
    then have "\<exists>info. a = Inr info" by (cases a) auto
    then show ?thesis unfolding Some option.case by (simp add: upholds_done attached_made_def)
  qed
qed

lemma keep_make:
  assumes "starts_with n VOLUME_PREFIX"
  shows "roots_keep H w0 (\<lambda>w. True) (make_root cmdline n img has_owner) (attached_made H w0 n)"
proof (cases "golden_of img cmdline")
  case None
  then show ?thesis by (simp add: make_root_def upholds_done attached_made_def)
next
  case (Some g)
  show ?thesis
    unfolding make_root_def Some option.case
  proof (rule upholds_then [OF keep_clone_golden])
    fix a :: "root_error + json"
    show "roots_keep H w0 (cloned H w0 n a)
      (case a of Inl e \<Rightarrow> done_with (Inl e)
       | Inr created \<Rightarrow>
           (case clone_id created of
              None \<Rightarrow> done_with (Inl No_volume_id)
            | Some i \<Rightarrow> and_then (own_root g has_owner) (\<lambda>_. attach_or_undo i)))
      (attached_made H w0 n)"
    proof (cases a)
      case (Inr created)
      show ?thesis
      proof (cases "clone_id created")
        case (Some i)
        have "roots_keep H w0 (makes_root H w0 n i False) (and_then (own_root g has_owner) (\<lambda>_. attach_or_undo i)) (attached_made H w0 n)"
          by (rule upholds_then [OF keep_own keep_attach [OF assms]])
        then show ?thesis unfolding Inr sum.case Some option.case by (rule upholds_pre) (use Some in simp)
      qed (simp add: Inr upholds_done attached_made_def)
    qed (simp add: upholds_done attached_made_def)
  qed
qed

section \<open>Sweeping\<close>

text \<open>What the sweep must not touch.\<close>
definition unorphaned :: "string list \<Rightarrow> string \<Rightarrow> engine_volume \<Rightarrow> bool" where
  "unorphaned known own v = (\<not> orphaned known own v)"

lemma orphan_spared:
  assumes "roots_good (unorphaned (rw_known w0) own) w0 w" "set (rw_known w) \<subseteq> set known" "(n, i) \<in> set (orphans (listing_of w) known own)"
  shows "is_root i w \<and> spared (unorphaned (rw_known w0) own) w0 i"
proof -
  obtain v where v: "v \<in> set (rw_volumes w)" "ev_id v = i" "orphaned known own v"
    using assms(3) by (auto simp: orphans_listed)
  have one: "u = v" if "u \<in> set (rw_volumes w)" "ev_id u = i" for u
  proof -
    have "inj_on ev_id (set (rw_volumes w))" using assms(1) by (simp add: roots_good_def roots_ok_def distinct_map)
    then show ?thesis using v(1,2) that by (metis inj_onD)
  qed
  have "ev_id u \<noteq> i" if u: "u \<in> set (rw_volumes w0)" "unorphaned (rw_known w0) own u" for u
  proof
    assume i: "ev_id u = i"
    obtain v' where "v' \<in> set (rw_volumes w)" "same_volume u v'"
      using assms(1) u by (auto simp: roots_good_def still_there_def)
    then have "same_volume u v" using one i by (auto simp: same_volume_def)
    moreover have "set (rw_known w0) \<subseteq> set known" using assms(1,2) by (auto simp: roots_good_def)
    ultimately show False using v(3) u(2) by (auto simp: unorphaned_def orphaned_def same_volume_def)
  qed
  then show ?thesis using one v(3) by (auto simp: is_root_def spared_def orphaned_def)
qed

lemma keep_destroy_each:
  "\<forall>(n, i) \<in> set rs. i \<in> J \<and> spared H w0 i \<Longrightarrow> roots_keep H w0 (are_roots J) (destroy_each rs gone) (\<lambda>_ _. True)"
proof (induction rs arbitrary: gone)
  case (Cons r rs)
  obtain n i where r: "r = (n, i)" by (cases r)
  show ?case
    unfolding r destroy_each.simps
    by (rule upholds_then [OF keep_destroy_of [of i J]]) (use Cons r in auto)
qed (simp add: upholds_done)

lemma keep_sweep: "roots_keep (unorphaned (rw_known w0) own) w0 (\<lambda>w. True) (sweep own) (\<lambda>_ _. True)"
  unfolding sweep_def
proof (rule upholds_then [where Q = "\<lambda>a w. \<forall>l. a = Inr l \<longrightarrow> l = listing_of w"])
  let ?H = "unorphaned (rw_known w0) own"
  show "roots_keep ?H w0 (\<lambda>w. True) list_volumes (\<lambda>a w. \<forall>l. a = Inr l \<longrightarrow> l = listing_of w)"
    unfolding list_volumes_def by (rule upholds_call [OF roots_steadyD [OF steady_true]]) simp_all
  fix a :: "string + json"
  show "roots_keep ?H w0 (\<lambda>w. \<forall>l. a = Inr l \<longrightarrow> l = listing_of w)
     (case a of Inl e \<Rightarrow> done_with 0
      | Inr listing \<Rightarrow> and_then (look rw_known) (\<lambda>known. destroy_each (orphans listing known own) 0)) (\<lambda>_ _. True)"
  proof (cases a)
    case (Inr l)
    show ?thesis
      unfolding Inr sum.case
    proof (rule upholds_then [where Q = "\<lambda>known w. \<forall>(n, i) \<in> set (orphans l known own). is_root i w \<and> spared ?H w0 i"])
      show "roots_keep ?H w0 (\<lambda>w. \<forall>l'. Inr l = Inr l' \<longrightarrow> l' = listing_of w) (look rw_known)
         (\<lambda>known w. \<forall>(n, i) \<in> set (orphans l known own). is_root i w \<and> spared ?H w0 i)"
        by (rule upholds_look) (auto dest: orphan_spared)
      fix known
      let ?rs = "orphans l known own"
      show "roots_keep ?H w0 (\<lambda>w. \<forall>(n, i) \<in> set ?rs. is_root i w \<and> spared ?H w0 i) (destroy_each ?rs 0) (\<lambda>_ _. True)"
      proof (cases "\<forall>(n, i) \<in> set ?rs. spared ?H w0 i")
        case True
        show ?thesis
          by (rule upholds_pre [OF keep_destroy_each [of ?rs "snd ` set ?rs"]]) (use True in \<open>force simp: are_roots_def\<close>)+
      qed (auto simp: upholds_def)
    qed
  qed (simp add: upholds_done)
qed

section \<open>Runs\<close>

lemma ok_good: "roots_ok w \<Longrightarrow> roots_good H w w"
  by (simp add: roots_good_def still_there_refl)

lemma good_ended:
  assumes "upholds (roots_good H w) (\<lambda>w. P w) c Q" "roots_ok w" "P w"
  shows "roots_ok (ended (c (w, os)))"
proof -
  obtain r w' os' where c: "c (w, os) = (r, w', os')" by (cases "c (w, os)") auto
  have "roots_good H w w'"
    using upholds_stopped [OF assms(1) ok_good [OF assms(2)] assms(3)] upholds_result [OF assms(1) ok_good [OF assms(2)] assms(3)] c
    by (cases r) auto
  moreover have "roots_ok (forgetting w') = roots_ok w'"
    by (simp add: forgetting_def roots_ok_def root_ok_def golden_there_def)
  ultimately show ?thesis by (cases r) (simp_all add: c ended_def roots_good_def)
qed

lemma root_volume_name_prefix: "starts_with (root_volume_name c) VOLUME_PREFIX"
  by (simp add: root_volume_name_def starts_with_def)

lemma op_ok: "roots_ok w \<Longrightarrow> roots_ok (run_roots_op opos w)"
proof -
  assume ok: "roots_ok w"
  obtain op os where o: "opos = (op, os)" by (cases opos)
  show ?thesis
  proof (cases op)
    case (Make cmdline c img has_owner)
    then show ?thesis
      using good_ended [OF keep_make [OF root_volume_name_prefix] ok TrueI] by (simp add: o run_roots_op_def)
  next
    case (Remove i)
    have "roots_ok (ended (destroy i (w, os)))" if "root_volume w i"
      by (rule good_ended [OF keep_destroy_of [of i "{i}" "\<lambda>v. False" w] ok])
        (use that in \<open>auto simp: spared_def are_roots_def is_root_def root_volume_def list_all_iff\<close>)
    then show ?thesis using ok by (simp add: o Remove run_roots_op_def)
  next
    case (Sweep own)
    then show ?thesis using good_ended [OF keep_sweep ok TrueI] by (simp add: o run_roots_op_def)
  qed
qed

lemma run_ok: "roots_ok w \<Longrightarrow> roots_ok (run_roots ops w)"
proof (induction ops arbitrary: w)
  case (Cons opos ops)
  then show ?case using op_ok by (simp add: run_roots_def)
qed (simp add: run_roots_def)

end
