(* ===== verification/RootsProps.thy ===== *)
theory RootsProps
  imports RootsSafety
begin

text \<open>What the container roots promise: a container's root is one clone of a sealed golden and its own,
  a root that could not be attached is gone, and the sweep takes what nothing holds and nothing else.\<close>

section \<open>An engine with one pallet\<close>

definition busybox_engine :: roots_world where
  "busybox_engine = \<lparr>rw_volumes =
       [\<lparr>ev_id = ''g1'', ev_name = ''busybox.golden'', ev_parent = None, ev_sealed = True, ev_attached = False, ev_in_use = False, ev_mounted = None\<rparr>,
        \<lparr>ev_id = ''c1'', ev_name = ''busybox'', ev_parent = Some ''g1'', ev_sealed = False, ev_attached = True, ev_in_use = True,
          ev_mounted = Some ''/p/busybox''\<rparr>],
     rw_templates = [], rw_pallets = [], rw_known = []\<rparr>"

lemma busybox_ok: "roots_ok busybox_engine"
  by (simp add: busybox_engine_def roots_ok_def starts_with_def)

definition answers :: "string \<Rightarrow> json \<Rightarrow> root_outcome" where
  "answers i body = \<lparr>oc_does = True, oc_ok = True, oc_error = [], ro_id = i, ro_body = body, ro_events = []\<rparr>"

definition refuses :: root_outcome where
  "refuses = \<lparr>oc_does = False, oc_ok = False, oc_error = ''503'', ro_id = [], ro_body = JNull, ro_events = []\<rparr>"

definition clone_answer :: "string \<Rightarrow> root_outcome" where
  "clone_answer i = answers i (JObj [(''id'', JStr i)])"

definition attach_answer :: root_outcome where
  "attach_answer = answers [] (JObj [(''device_hint'', JStr ''/dev/ublkb7'')])"

section \<open>One clone each\<close>

text \<open>C11. Whatever was made, removed and swept before, with whatever calls that failed, took effect without an
  answer or were cut short, and whatever other containers got meanwhile: the root that is made for a
  container is a volume that was not there, under the container's name and attached; and every root
  there is, is a writable clone of a sealed golden that is not itself a root, so one layer lies
  between the golden and what the container writes.\<close>
theorem each_root_is_its_own_clone:
  assumes "roots_ok w0" "w = run_roots ops w0"
    "make_root cmdline (root_volume_name c) img has_owner (w, os) = (Some (Inr (i, d)), w', os')"
  shows "\<not> has_id w i \<and> (\<exists>v \<in> set (rw_volumes w'). ev_id v = i \<and> ev_name v = root_volume_name c \<and> ev_attached v) \<and>
    (\<forall>v \<in> set (rw_volumes w'). starts_with (ev_name v) VOLUME_PREFIX \<longrightarrow>
       \<not> ev_sealed v \<and> (\<exists>g \<in> set (rw_volumes w'). ev_parent v = Some (ev_id g) \<and> ev_sealed g \<and> \<not> starts_with (ev_name g) VOLUME_PREFIX))"
proof -
  have ok: "roots_ok w" using assms(1,2) run_ok by simp
  have good: "roots_good (\<lambda>_. True) w w' \<and> attached_made (\<lambda>_. True) w (root_volume_name c) (Inr (i, d) :: root_error + _) w'"
    using upholds_result [OF keep_make [OF root_volume_name_prefix] ok_good [OF ok] TrueI assms(3)] .
  then have "makes_root (\<lambda>_. True) w (root_volume_name c) i True w'" by (simp add: attached_made_def)
  then have "\<not> has_id w i \<and> (\<exists>v \<in> set (rw_volumes w'). ev_id v = i \<and> ev_name v = root_volume_name c \<and> ev_attached v)"
    by (auto simp: makes_root_def spared_def has_id_def)
  moreover have "roots_ok w'" using good by (simp add: roots_good_def)
  ultimately show ?thesis by (fastforce simp: roots_ok_def root_ok_def golden_there_iff)
qed

text \<open>A container of busybox whose attach is refused leaves nothing; another one gets a root.\<close>
definition one_refused :: "(roots_op \<times> root_outcome list) list" where
  "one_refused = [(Make [] ''ct-1'' ''/pallets/busybox'' True,
     [answers [] JNull, clone_answer ''v1'', refuses, answers [] JNull, answers [] JNull])]"

lemmas root_calls = call_amid_def call_amid_if_def and_then_def done_with_def look_def change_def Let_def roots_meanwhile_def

theorem each_root_is_its_own_clone_witness:
  "\<not> has_id (run_roots one_refused busybox_engine) ''v2'' \<and>
   (\<exists>v \<in> set (rw_volumes (fst (snd (make_root [] (root_volume_name ''ct-2'') ''/pallets/busybox'' True
        (run_roots one_refused busybox_engine, [answers [] JNull, clone_answer ''v2'', attach_answer]))))).
      ev_id v = ''v2'' \<and> ev_name v = ''ctr-ct-2'' \<and> ev_attached v)"
proof -
  let ?w = "run_roots one_refused busybox_engine"
  let ?r = "make_root [] (root_volume_name ''ct-2'') ''/pallets/busybox'' True (?w, [answers [] JNull, clone_answer ''v2'', attach_answer])"
  have "fst ?r = Some (Inr (''v2'', ''/dev/ublkb7''))" by code_simp
  then have r: "?r = (Some (Inr (''v2'', ''/dev/ublkb7'')), fst (snd ?r), snd (snd ?r))" by (metis prod.collapse)
  show ?thesis
    using each_root_is_its_own_clone [OF busybox_ok refl r] by (simp add: root_volume_name_def)
qed

section \<open>Nothing half made\<close>

text \<open>Nobody else does anything, and a call without an answer did not take effect.\<close>
definition plain :: "root_outcome list \<Rightarrow> bool" where
  "plain os = list_all (\<lambda>oc. ro_events oc = [] \<and> (oc_does oc \<longrightarrow> oc_ok oc)) os"

lemma plain_Cons: "plain (oc # os) \<longleftrightarrow> ro_events oc = [] \<and> (oc_does oc \<longrightarrow> oc_ok oc) \<and> plain os"
  by (simp add: plain_def)

text \<open>What a call did, by its answer.\<close>
lemma plain_call:
  assumes "root_call_if allowed effect answer (w, os) = (Some a, w', os')" "plain os"
  shows "plain os' \<and> (case a of Inl e \<Rightarrow> w' = w | Inr x \<Rightarrow> \<exists>oc. allowed oc w \<and> w' = effect oc w \<and> x = answer oc w')"
  using assms by (cases os) (auto simp: call_amid_if_def plain_Cons roots_meanwhile_def Let_def split: if_splits)

lemma call_any: "root_call effect answer = root_call_if (\<lambda>oc w. True) effect answer"
proof
  fix s show "root_call effect answer s = root_call_if (\<lambda>oc w. True) effect answer s"
    by (cases s) (auto simp: call_amid_def call_amid_if_def Let_def split: list.split)
qed

lemma then_result: "and_then c f s = (Some y, t) \<longleftrightarrow> (\<exists>x u. c s = (Some x, u) \<and> f x u = (Some y, t))"
  by (auto simp: and_then_def split: prod.split option.split)

lemma done_result: "done_with x s = (Some y, t) \<longleftrightarrow> y = x \<and> t = s"
  by (auto simp: done_with_def)

lemma plain_list:
  assumes "list_volumes (w, os) = (Some a, w', os')" "plain os"
  shows "plain os' \<and> w' = w"
  using plain_call [OF assms(1) [unfolded list_volumes_def call_any] assms(2)] by (auto split: sum.splits)

definition one_more :: "roots_world \<Rightarrow> string \<Rightarrow> json \<Rightarrow> roots_world \<Rightarrow> bool" where
  "one_more w n body w' =
     (\<exists>i p. \<not> has_id w i \<and> (clone_id body = None \<or> clone_id body = Some i) \<and> rw_volumes w' = rw_volumes w @ [new_root i n p])"

abbreviation cloned_one :: "roots_world \<Rightarrow> string \<Rightarrow> root_error + json \<Rightarrow> roots_world \<Rightarrow> bool" where
  "cloned_one w n a w' \<equiv> (case a of Inl e \<Rightarrow> rw_volumes w' = rw_volumes w | Inr body \<Rightarrow> one_more w n body w')"

lemma one_more_clone:
  assumes "has_id w p" "\<not> has_id w (ro_id oc)" "names_it oc"
  shows "one_more w n (ro_body oc) (clone_root (ro_id oc) n p w)"
  unfolding one_more_def
  by (rule exI [of _ "ro_id oc"], rule exI [of _ p]) (use assms in \<open>simp add: clone_root_def names_it_def\<close>)

lemma plain_clone_volume:
  assumes "clone_volume n p (w, os) = (Some a, w', os')" "plain os"
  shows "plain os' \<and> (case a of Inl e \<Rightarrow> w' = w | Inr body \<Rightarrow> one_more w n body w')"
proof (cases a)
  case (Inr body)
  then obtain oc where "has_id w p \<and> \<not> has_id w (ro_id oc) \<and> names_it oc" "w' = clone_root (ro_id oc) n p w" "body = ro_body oc" "plain os'"
    using plain_call [OF assms(1) [unfolded clone_volume_def] assms(2)] by auto
  then show ?thesis using one_more_clone Inr by simp
qed (use plain_call [OF assms(1) [unfolded clone_volume_def] assms(2)] in simp)

lemma plain_clone_template:
  assumes "clone_template n t (w, os) = (Some a, w', os')" "plain os"
  shows "plain os' \<and> (case a of Inl e \<Rightarrow> w' = w | Inr body \<Rightarrow> one_more w n body w')"
proof (cases a)
  case (Inr body)
  then obtain oc where oc: "case map_of (rw_templates w) t of Some p \<Rightarrow> has_id w p | None \<Rightarrow> False"
    "\<not> has_id w (ro_id oc)" "names_it oc"
    "w' = clone_root (ro_id oc) n (the (map_of (rw_templates w) t)) w" "body = ro_body oc" "plain os'"
    using plain_call [OF assms(1) [unfolded clone_template_def] assms(2)] by auto
  then have "has_id w (the (map_of (rw_templates w) t))" by (cases "map_of (rw_templates w) t") simp_all
  then show ?thesis using one_more_clone oc Inr by simp
qed (use plain_call [OF assms(1) [unfolded clone_template_def] assms(2)] in simp)

lemma one_more_note: "one_more (note_pallet img vol w) n body w' = one_more w n body w'"
  by (simp add: one_more_def has_id_def note_pallet_def split: option.split)

lemma note_volumes: "rw_volumes (note_pallet img vol w) = rw_volumes w"
  by (simp add: note_pallet_def split: option.split)

lemma plain_clone:
  assumes "clone_golden n img g (w, os) = (Some a, w', os')" "plain os"
  shows "plain os' \<and> cloned_one w n a w'"
proof (cases g)
  case (Template t)
  obtain b where "clone_template n t (w, os) = (Some b, w', os')" "a = (case b of Inl e \<Rightarrow> Inl (Not_cloned e) | Inr body \<Rightarrow> Inr body)"
    using assms(1) by (auto simp: clone_golden_def Template then_result done_result)
  then show ?thesis using plain_clone_template [of n t w os b w' os'] assms(2) by (cases b) auto
next
  case (Pallet guess)
  obtain l w1 os1 where l: "list_volumes (w, os) = (Some l, w1, os1)"
    using assms(1) by (auto simp: clone_golden_def Pallet then_result)
  note p1 = plain_list [OF l assms(2)]
  show ?thesis
  proof (cases l)
    case (Inl e)
    then show ?thesis using assms(1) l p1 by (auto simp: clone_golden_def Pallet then_result done_result)
  next
    case (Inr listing)
    let ?vol = "pallet_source listing img guess"
    let ?w = "note_pallet img ?vol w"
    show ?thesis
    proof (cases "pallet_golden listing ?vol")
      case (Inl e)
      then show ?thesis
        using assms(1) l p1 by (auto simp: clone_golden_def Pallet \<open>l = Inr listing\<close> then_result done_result change_def Let_def note_volumes)
    next
      case (Inr p)
      then obtain b os2 where "clone_volume n p (?w, os1) = (Some b, w', os2)" "os2 = os'"
        "a = (case b of Inl e \<Rightarrow> Inl (Not_cloned e) | Inr body \<Rightarrow> Inr body)"
        using assms(1) l p1 by (auto simp: clone_golden_def Pallet \<open>l = Inr listing\<close> then_result done_result change_def Let_def)
      then show ?thesis using plain_clone_volume [of n p ?w os1 b w' os2] p1 by (cases b) (auto simp: one_more_note note_volumes)
    qed
  qed
qed

lemma plain_own:
  assumes "own_root g has_owner (w, os) = (Some u, w', os')" "plain os"
  shows "plain os' \<and> w' = w"
proof -
  have call: "plain os2 \<and> w2 = w1" if "root_call (\<lambda>oc w. w) (\<lambda>oc w. ()) (w1, os1) = (Some a, w2, os2)" "plain os1" for a w1 os1 w2 os2
    using plain_call [OF that(1) [unfolded call_any] that(2)] by (auto split: sum.splits)
  show ?thesis
    using assms call by (auto simp: own_root_def then_result done_result split: golden.splits if_splits)
qed

text \<open>Undone, the volume is gone again; an attach that failed attached nothing.\<close>
lemma plain_destroy:
  assumes "destroy i (w, os) = (Some (Inr u), w', os')" "plain os" "rw_volumes w = vs @ [v]" "ev_id v = i" "i \<notin> ev_id ` set vs"
  shows "rw_volumes w' = vs"
proof -
  obtain a w1 os1 where a: "detach_root i (w, os) = (Some a, w1, os1)"
    "(case a of Inl e \<Rightarrow> done_with (Inl e) | Inr x \<Rightarrow> delete_root i) (w1, os1) = (Some (Inr u), w', os')"
    using assms(1) by (auto simp: destroy_def then_result)
  have d: "detach_root i (w, os) = (Some a, w1, os1)" "\<exists>x. a = Inr x" "delete_root i (w1, os1) = (Some (Inr u), w', os')"
    using a by (cases a; simp add: done_result)+
  have w1: "plain os1" "w1 = with_id i (\<lambda>v. v\<lparr>ev_attached := False\<rparr>) w"
    using plain_call [OF d(1) [unfolded detach_root_def call_any] assms(2)] d(2) by auto
  have "rw_volumes w' = filter (\<lambda>v. ev_id v \<noteq> i) (rw_volumes w1)"
    using plain_call [OF d(3) [unfolded delete_root_def] w1(1)] by auto
  moreover have "map (\<lambda>v. if ev_id v = i then v\<lparr>ev_attached := False\<rparr> else v) vs = vs"
    using assms(5) by (intro map_idI) auto
  moreover have "filter (\<lambda>v. ev_id v \<noteq> i) vs = vs" using assms(5) by (intro filter_True) auto
  ultimately show ?thesis by (simp add: w1(2) with_id_def assms(3,4))
qed

lemma plain_attach:
  assumes "attach_or_undo i (w, os) = (Some (Inl e), w', os')" "plain os" "rw_volumes w = vs @ [v]" "ev_id v = i" "i \<notin> ev_id ` set vs"
  shows "rw_volumes w' = vs \<or> (\<exists>undo. e = Not_attached (Some undo))"
proof -
  let ?device = "\<lambda>a. case a of Inl e \<Rightarrow> None | Inr info \<Rightarrow> as_str (jget info ''device_hint'')"
  obtain a w1 os1 where a: "attach_root i (w, os) = (Some a, w1, os1)"
    "(case ?device a of
        Some device \<Rightarrow> done_with (Inr (i, device))
      | None \<Rightarrow> and_then (destroy i) (\<lambda>b. done_with (Inl (Not_attached (case b of Inl undo \<Rightarrow> Some undo | Inr u \<Rightarrow> None))))) (w1, os1) =
     (Some (Inl e), w', os')"
    using assms(1) by (auto simp: attach_or_undo_def then_result)
  have none: "?device a = None" using a(2) by (cases "?device a") (simp_all add: done_result)
  obtain b where b: "destroy i (w1, os1) = (Some b, w', os')" "e = Not_attached (case b of Inl undo \<Rightarrow> Some undo | Inr u \<Rightarrow> None)"
    using a(2) unfolding none option.case by (auto simp: then_result done_result)
  have p: "plain os1" "w1 = w \<or> w1 = with_id i (\<lambda>v. v\<lparr>ev_attached := True\<rparr>) w"
    using plain_call [OF a(1) [unfolded attach_root_def] assms(2)] by (auto split: sum.splits)
  have "map (\<lambda>v. if ev_id v = i then v\<lparr>ev_attached := True\<rparr> else v) vs = vs"
    using assms(5) by (intro map_idI) auto
  then have vols: "\<exists>u. rw_volumes w1 = vs @ [u] \<and> ev_id u = i"
    using p(2) assms(3,4) by (auto simp: with_id_def)
  show ?thesis
  proof (cases b)
    case (Inr u)
    obtain v' where "rw_volumes w1 = vs @ [v']" "ev_id v' = i" using vols by blast
    then show ?thesis using plain_destroy [OF b(1) [unfolded Inr] p(1) _ _ assms(5)] by blast
  qed (use b(2) in simp)
qed

text \<open>C26. A root that could not be made leaves nothing behind: when \<open>make\<close> fails, the engine has the volumes
  it had, unless the clone's answer named no volume or the undoing was refused too (which is logged).
  Nobody else made roots meanwhile, and a call without an answer had no effect.\<close>
theorem nothing_half_made:
  assumes "make_root cmdline n img has_owner (w, os) = (Some (Inl e), w', os')" "plain os"
  shows "rw_volumes w' = rw_volumes w \<or> e = No_volume_id \<or> (\<exists>undo. e = Not_attached (Some undo))"
proof (cases "golden_of img cmdline")
  case None
  then show ?thesis using assms(1) by (simp add: make_root_def done_result)
next
  case (Some g)
  obtain a w1 os1 where c: "clone_golden n img g (w, os) = (Some a, w1, os1)"
    using assms(1) by (auto simp: make_root_def Some then_result)
  note p1 = plain_clone [OF c assms(2)]
  show ?thesis
  proof (cases a)
    case (Inl e')
    then show ?thesis using assms(1) c p1 by (auto simp: make_root_def Some then_result done_result)
  next
    case (Inr body)
    obtain i p where i: "\<not> has_id w i" "clone_id body = None \<or> clone_id body = Some i" "rw_volumes w1 = rw_volumes w @ [new_root i n p]"
      using p1 Inr by (auto simp: one_more_def)
    show ?thesis
    proof (cases "clone_id body")
      case None
      then show ?thesis using assms(1) c by (auto simp: make_root_def Some Inr then_result done_result)
    next
      case (Some j)
      then have j: "j = i" using i(2) by simp
      obtain u w2 os2 where o: "own_root g has_owner (w1, os1) = (Some u, w2, os2)" "attach_or_undo i (w2, os2) = (Some (Inl e), w', os')"
        using assms(1) c by (auto simp: make_root_def \<open>golden_of img cmdline = Some g\<close> Inr Some j then_result)
      have "plain os2" "w2 = w1" using plain_own [OF o(1)] p1 by auto
      then show ?thesis
        using plain_attach [OF o(2)] i(1,3) by (auto simp: has_id_def new_root_def)
    qed
  qed
qed

theorem nothing_half_made_witness:
  "rw_volumes (fst (snd (make_root [] ''ctr-ct-1'' ''/pallets/busybox'' True (busybox_engine, snd (hd one_refused))))) = rw_volumes busybox_engine"
proof -
  let ?r = "make_root [] ''ctr-ct-1'' ''/pallets/busybox'' True (busybox_engine, snd (hd one_refused))"
  have "fst ?r = Some (Inl (Not_attached None))" by code_simp
  then have r: "?r = (Some (Inl (Not_attached None)), fst (snd ?r), snd (snd ?r))" by (metis prod.collapse)
  have "plain (snd (hd one_refused))" by (simp add: plain_def one_refused_def answers_def refuses_def clone_answer_def)
  then show ?thesis using nothing_half_made [OF r] by simp
qed

section \<open>The sweep\<close>

text \<open>C25. The sweep spares what is held: a volume that is no container root, that is attached or in use, or
  whose name this kubelet has, is making or would mint, is there afterwards as it was and, if it was
  attached, attached; whichever calls fail or are cut short, and whatever is made meanwhile.\<close>
theorem sweep_spares_what_is_held:
  assumes "roots_ok w" "sweep own (w, os) = (r, w', os')" "v \<in> set (rw_volumes w)"
    "\<not> starts_with (ev_name v) VOLUME_PREFIX \<or> ev_attached v \<or> ev_in_use v \<or> ev_name v \<in> set (rw_known w) \<or>
     (own \<noteq> [] \<and> starts_with (ev_name v) own)"
  shows "\<exists>v' \<in> set (rw_volumes w'). same_volume v v'"
proof -
  have "roots_good (unorphaned (rw_known w) own) w w'"
    using upholds_stopped [OF keep_sweep ok_good [OF assms(1)] TrueI] upholds_result [OF keep_sweep ok_good [OF assms(1)] TrueI] assms(2)
    by (cases r) auto
  moreover have "unorphaned (rw_known w) own v" using assms(4) by (auto simp: unorphaned_def orphaned_def)
  ultimately show ?thesis using assms(3) by (auto simp: roots_good_def still_there_def)
qed

lemma quiet_root_call:
  "root_call_if allowed effect answer (w, answers i b # os) =
     (if allowed (answers i b) w then (Some (Inr (answer (answers i b) (effect (answers i b) w))), effect (answers i b) w, os)
      else (Some (Inl []), w, os))"
  by (simp add: call_amid_if_def roots_meanwhile_def answers_def Let_def)

lemma destroy_fine:
  assumes "\<forall>v \<in> set (rw_volumes w). (ev_id v = i \<longrightarrow> \<not> ev_attached v) \<and> ev_parent v \<noteq> Some i"
  shows "destroy i (w, answers [] JNull # answers [] JNull # os) =
    (Some (Inr ()), w\<lparr>rw_volumes := filter (\<lambda>v. ev_id v \<noteq> i) (rw_volumes w)\<rparr>, os)"
proof -
  have "map (\<lambda>v. if ev_id v = i then v\<lparr>ev_attached := False\<rparr> else v) (rw_volumes w) = rw_volumes w"
    using assms by (intro map_idI) auto
  then have "with_id i (\<lambda>v. v\<lparr>ev_attached := False\<rparr>) w = w" by (simp add: with_id_def)
  moreover have "deletable w i" using assms by (simp add: deletable_def list_all_iff)
  ultimately show ?thesis
    by (simp add: destroy_def and_then_def detach_root_def delete_root_def call_any quiet_root_call)
qed

lemma destroy_each_fine:
  "\<forall>(n, i) \<in> set rs. \<forall>v \<in> set (rw_volumes w). (ev_id v = i \<longrightarrow> \<not> ev_attached v) \<and> ev_parent v \<noteq> Some i \<Longrightarrow>
   destroy_each rs gone (w, replicate (2 * length rs) (answers [] JNull) @ os) =
     (Some (gone + length rs), w\<lparr>rw_volumes := filter (\<lambda>v. ev_id v \<notin> snd ` set rs) (rw_volumes w)\<rparr>, os)"
proof (induction rs arbitrary: gone w)
  case (Cons r rs)
  obtain n i where r: "r = (n, i)" by (cases r)
  let ?w = "w\<lparr>rw_volumes := filter (\<lambda>v. ev_id v \<noteq> i) (rw_volumes w)\<rparr>"
  have "destroy_each rs (gone + 1) (?w, replicate (2 * length rs) (answers [] JNull) @ os) =
      (Some (gone + 1 + length rs), ?w\<lparr>rw_volumes := filter (\<lambda>v. ev_id v \<notin> snd ` set rs) (rw_volumes ?w)\<rparr>, os)"
    by (rule Cons.IH) (use Cons.prems in auto)
  moreover have "filter (\<lambda>v. ev_id v \<notin> snd ` set rs) (filter (\<lambda>v. ev_id v \<noteq> i) vs) = filter (\<lambda>v. ev_id v \<notin> snd ` set (r # rs)) vs" for vs
    by (induction vs) (auto simp: r)
  ultimately show ?case
    using Cons.prems by (simp add: r and_then_def destroy_fine)
qed (simp add: done_with_def)

text \<open>And it takes what nothing holds: when every call is answered, exactly the roots that are not
  attached, not in use and none of this kubelet's are gone, and their number is what it returns.\<close>
theorem sweep_takes_the_orphans:
  assumes "distinct (map ev_id (rw_volumes w))"
    "\<forall>u \<in> set (rw_volumes w). \<forall>v \<in> set (rw_volumes w). orphaned (rw_known w) own v \<longrightarrow> ev_parent u \<noteq> Some (ev_id v)"
    "k = length (filter (orphaned (rw_known w) own) (rw_volumes w))"
  shows "sweep own (w, replicate (1 + 2 * k) (answers [] JNull)) =
    (Some k, w\<lparr>rw_volumes := filter (\<lambda>v. \<not> orphaned (rw_known w) own v) (rw_volumes w)\<rparr>, [])"
proof -
  let ?rs = "map (\<lambda>v. (ev_name v, ev_id v)) (filter (orphaned (rw_known w) own) (rw_volumes w))"
  have inj: "inj_on ev_id (set (rw_volumes w))" using assms(1) by (simp add: distinct_map)
  have "destroy_each ?rs 0 (w, replicate (2 * length ?rs) (answers [] JNull) @ []) =
      (Some (0 + length ?rs), w\<lparr>rw_volumes := filter (\<lambda>v. ev_id v \<notin> snd ` set ?rs) (rw_volumes w)\<rparr>, [])"
  proof (rule destroy_each_fine, clarsimp)
    fix u v assume "u \<in> set (rw_volumes w)" "v \<in> set (rw_volumes w)" "orphaned (rw_known w) own v"
    then show "(ev_id u = ev_id v \<longrightarrow> \<not> ev_attached u) \<and> ev_parent u \<noteq> Some (ev_id v)"
      using inj assms(2) by (metis inj_onD orphaned_def)
  qed
  moreover have "filter (\<lambda>v. ev_id v \<notin> snd ` set ?rs) (rw_volumes w) = filter (\<lambda>v. \<not> orphaned (rw_known w) own v) (rw_volumes w)"
    using inj by (intro filter_cong) (auto simp: image_image dest: inj_onD)
  ultimately show ?thesis
    by (simp add: sweep_def and_then_def look_def list_volumes_def call_any quiet_root_call orphans_listed assms(3))
qed

text \<open>A root of an earlier kubelet's is taken; one of this kubelet's, one that is attached and one that is
  known are not.\<close>
definition after_restart :: roots_world where
  "after_restart = busybox_engine\<lparr>rw_volumes := rw_volumes busybox_engine @
     [new_root ''v1'' ''ctr-ct-old-1'' ''g1'', (new_root ''v2'' ''ctr-ct-old-2'' ''g1'')\<lparr>ev_attached := True\<rparr>,
      new_root ''v3'' ''ctr-ct-new-1'' ''g1''], rw_known := [''ctr-ct-new-1'']\<rparr>"

theorem sweep_spares_what_is_held_witness:
  "\<exists>v' \<in> set (rw_volumes (fst (snd (sweep ''ctr-ct-new-'' (after_restart, [answers [] JNull, refuses]))))). ev_id v' = ''v2'' \<and> ev_attached v'"
proof -
  have "roots_ok after_restart"
    by (simp add: after_restart_def busybox_engine_def roots_ok_def root_ok_def golden_there_def new_root_def starts_with_def)
  moreover obtain r w' os' where "sweep ''ctr-ct-new-'' (after_restart, [answers [] JNull, refuses]) = (r, w', os')"
    by (metis prod.collapse)
  moreover have "(new_root ''v2'' ''ctr-ct-old-2'' ''g1'')\<lparr>ev_attached := True\<rparr> \<in> set (rw_volumes after_restart)"
    by (simp add: after_restart_def)
  ultimately show ?thesis
    using sweep_spares_what_is_held by (fastforce simp: same_volume_def new_root_def)
qed

theorem sweep_takes_the_orphans_witness:
  "map ev_id (rw_volumes (fst (snd (sweep ''ctr-ct-new-'' (after_restart, replicate 3 (answers [] JNull)))))) = [''g1'', ''c1'', ''v2'', ''v3'']"
proof -
  have o: "orphaned (rw_known after_restart) ''ctr-ct-new-'' v \<longleftrightarrow> ev_id v = ''v1''" if "v \<in> set (rw_volumes after_restart)" for v
    using that by (auto simp: after_restart_def busybox_engine_def orphaned_def new_root_def starts_with_def)
  have "distinct (map ev_id (rw_volumes after_restart))"
    by (simp add: after_restart_def busybox_engine_def new_root_def)
  moreover have "\<forall>u \<in> set (rw_volumes after_restart). \<forall>v \<in> set (rw_volumes after_restart).
      orphaned (rw_known after_restart) ''ctr-ct-new-'' v \<longrightarrow> ev_parent u \<noteq> Some (ev_id v)"
    using o by (auto simp: after_restart_def busybox_engine_def new_root_def)
  moreover have "1 = length (filter (orphaned (rw_known after_restart) ''ctr-ct-new-'') (rw_volumes after_restart))"
    by (simp add: after_restart_def busybox_engine_def orphaned_def new_root_def starts_with_def)
  ultimately have "sweep ''ctr-ct-new-'' (after_restart, replicate (1 + 2 * 1) (answers [] JNull)) =
    (Some 1, after_restart\<lparr>rw_volumes := filter (\<lambda>v. \<not> orphaned (rw_known after_restart) ''ctr-ct-new-'' v) (rw_volumes after_restart)\<rparr>, [])"
    by (rule sweep_takes_the_orphans)
  then show ?thesis
    by (simp add: numeral_3_eq_3 after_restart_def busybox_engine_def orphaned_def new_root_def starts_with_def)
qed

end
