(* ===== verification/DiskMove.thy ===== *)
theory DiskMove
  imports Json "HOL-Library.List_Lexorder" "HOL-Library.Char_ord"
begin

text \<open>A running machine's disk moved to another node's storage: the request, the record of each
  move, and what a pass decides (\<open>src/pkg/kubelet/src/vm_disk_move.rs\<close>). The record is written on
  the VMI; what a pass then does, with a guest that runs and a kubelet that may stop at any point,
  is in the theory \<open>DiskSwitch\<close>. The JSON parser is an argument, and so is which hypervisor a
  name means.\<close>

section \<open>Maps in key order\<close>

fun bt_insert :: "string \<Rightarrow> 'v \<Rightarrow> (string \<times> 'v) list \<Rightarrow> (string \<times> 'v) list" where
  "bt_insert k v [] = [(k, v)]"
| "bt_insert k v ((k', v') # xs) =
     (if k = k' then (k, v) # xs
      else if k < k' then (k, v) # (k', v') # xs
      else (k', v') # bt_insert k v xs)"

lemma map_of_bt_insert: "map_of (bt_insert k v xs) = (map_of xs)(k \<mapsto> v)"
  by (induction k v xs rule: bt_insert.induct) (auto simp: fun_eq_iff)

section \<open>The record\<close>

abbreviation COPYING :: string where "COPYING \<equiv> ''copying''"
abbreviation SWITCHING :: string where "SWITCHING \<equiv> ''switching''"
abbreviation SWITCHED :: string where "SWITCHED \<equiv> ''switched''"
abbreviation MOVED :: string where "MOVED \<equiv> ''moved''"
abbreviation FAILED :: string where "FAILED \<equiv> ''failed''"
abbreviation UNKNOWN :: string where "UNKNOWN \<equiv> ''unknown''"

record disk_move =
  mv_to :: string
  mv_node :: string
  mv_from :: string
  mv_migration :: string
  mv_state :: string
  mv_bytes_total :: nat
  mv_bytes_remaining :: nat
  mv_volume :: string
  mv_message :: string

type_synonym disk_records = "(string \<times> disk_move) list"

definition move_active :: "disk_move \<Rightarrow> bool" where
  "move_active m = (mv_state m = COPYING \<or> mv_state m = SWITCHING \<or> mv_state m = SWITCHED)"

text \<open>Where the disk is: node and volume; \<open>None\<close> when that is not known for sure.\<close>
definition location :: "disk_move \<Rightarrow> (string \<times> string) option" where
  "location m =
     (if mv_state m = SWITCHED \<or> mv_state m = MOVED then Some (mv_to m, mv_volume m)
      else if mv_state m = UNKNOWN then None
      else Some (mv_node m, mv_from m))"

section \<open>Reading and writing the VMI\<close>

abbreviation REQUEST :: string where "REQUEST \<equiv> ''storm.io/move-disks''"
abbreviation RECORD :: string where "RECORD \<equiv> ''storm.io/disk-moves''"

datatype request_error = Not_json | Not_object | No_node string

fun request_members :: "(string \<times> json) list \<Rightarrow> request_error + (string \<times> string) list" where
  "request_members [] = Inr []"
| "request_members ((disk, v) # kvs) =
     (case as_str v of
        None \<Rightarrow> Inl (No_node disk)
      | Some n \<Rightarrow>
          if n = [] then Inl (No_node disk)
          else (case request_members kvs of Inl e \<Rightarrow> Inl e | Inr r \<Rightarrow> Inr ((disk, n) # r)))"

definition requests :: "(string \<Rightarrow> json option) \<Rightarrow> json \<Rightarrow> request_error + (string \<times> string) list" where
  "requests parse vmi =
     (case as_str (jpath vmi [''metadata'', ''annotations'', REQUEST]) of
        None \<Rightarrow> Inr []
      | Some text \<Rightarrow>
          (case parse text of
             None \<Rightarrow> Inl Not_json
           | Some v \<Rightarrow> (case as_object v of None \<Rightarrow> Inl Not_object | Some kvs \<Rightarrow> request_members kvs)))"

text \<open>A record that does not parse is none.\<close>
definition records :: "(string \<Rightarrow> disk_records option) \<Rightarrow> json \<Rightarrow> disk_records" where
  "records parse vmi =
     (case Option.bind (as_str (jpath vmi [''metadata'', ''annotations'', RECORD])) parse of
        Some rs \<Rightarrow> rs | None \<Rightarrow> [])"

definition record_patch :: "(disk_records \<Rightarrow> string) \<Rightarrow> string \<Rightarrow> disk_records \<Rightarrow> json" where
  "record_patch show uid rs =
     JObj [(''metadata'', JObj [(''annotations'', JObj [(RECORD, if rs = [] then JNull else JStr (show rs))]),
                               (''uid'', JStr uid)])]"

definition moved_in :: "disk_records \<Rightarrow> (string \<times> string) list" where
  "moved_in rs = map (\<lambda>(d, m). (d, mv_volume m)) (filter (\<lambda>(d, m). mv_state m = SWITCHED \<or> mv_state m = MOVED) rs)"

definition moved_volumes :: "(string \<Rightarrow> disk_records option) \<Rightarrow> json \<Rightarrow> (string \<times> string) list" where
  "moved_volumes parse vmi = filter (\<lambda>(d, v). v \<noteq> []) (moved_in (records parse vmi))"

datatype off_node_reason = On_node string string | Move_unknown string

definition off_node :: "(string \<Rightarrow> disk_records option) \<Rightarrow> json \<Rightarrow> string \<Rightarrow> off_node_reason option" where
  "off_node parse vmi here =
     (case List.map_filter (\<lambda>(d, m). case location m of
             Some (n, v) \<Rightarrow> if n = here then None else Some (On_node d n)
           | None \<Rightarrow> Some (Move_unknown d)) (records parse vmi) of
        [] \<Rightarrow> None
      | r # _ \<Rightarrow> Some r)"

section \<open>Deciding\<close>

datatype move_step = Nothing | Start string | Continue | Cancel | Forget

definition move_step :: "string option \<Rightarrow> disk_move option \<Rightarrow> string \<Rightarrow> move_step" where
  "move_step want rec here =
     (case rec of
        None \<Rightarrow> (case want of Some to \<Rightarrow> if to \<noteq> here then Start to else Nothing | None \<Rightarrow> Nothing)
      | Some r \<Rightarrow>
          if mv_state r = COPYING \<and> want \<noteq> Some (mv_to r) then Cancel
          else if mv_state r = SWITCHING \<or> mv_state r = SWITCHED \<or> mv_state r = COPYING then Continue
          else if mv_state r = UNKNOWN then Nothing
          else if mv_state r = MOVED then
            (case want of Some to \<Rightarrow> if to \<noteq> mv_to r then Start to else Nothing | None \<Rightarrow> Nothing)
          else
            (case want of
               None \<Rightarrow> Forget
             | Some to \<Rightarrow> if to \<noteq> mv_to r \<and> to \<noteq> mv_node r then Start to else Nothing))"

datatype refusal = Cannot_switch | Migrating | Is_seed string | Not_own string

definition refusal_of :: "(string \<Rightarrow> bool) \<Rightarrow> string \<Rightarrow> string \<Rightarrow> string option \<Rightarrow> bool \<Rightarrow> bool \<Rightarrow> bool \<Rightarrow> refusal option" where
  "refusal_of is_cloud_hypervisor disk kind volume owned seed migrating =
     (if is_cloud_hypervisor kind then Some Cannot_switch
      else if migrating then Some Migrating
      else if seed then Some (Is_seed disk)
      else if volume = None \<or> \<not> owned then Some (Not_own disk)
      else None)"

end
