(* ===== verification/DiskSwitch.thy ===== *)
theory DiskSwitch
  imports DiskMove Calls "HOL-Library.AList"
begin

text \<open>What a pass does about the moves of a running machine's disks (\<open>move_disks\<close>,
  \<open>start_disk_move\<close>, \<open>carry_disk_move\<close>, \<open>switch_disk_over\<close>, \<open>undo_disk_switch\<close> and
  \<open>retire_disk_source\<close> of \<open>src/pkg/kubelet/src/vm_manager.rs\<close>).

  The code talks to four others: the API server (the record on the VMI), the storage service (the
  migration: a mirror of the volume, its cutover, completion and abort), the engine (attaching and
  detaching) and the machine (pause, switch, run). What they do is the documented behaviour of
  \<open>vm_disk_move.rs\<close>; how each call goes is an input, an \<open>outcome\<close>: whether it took effect and
  whether it answered well, so an effect whose answer was lost is one of the cases. The kubelet
  stops when the outcomes are used up, between any two calls; what it had in memory is lost then.

  Between calls the guest goes on writing while it is not paused. Times, events and log lines are
  left out; a device is named by its volume.\<close>

section \<open>The world\<close>

record dmig =
  dg_from :: string
  dg_copy :: string
  dg_disk :: string
  dg_state :: string
  dg_stale :: bool

record machine_disks =
  md_volumes :: "(string \<times> string option) list"
  md_owned :: "string list"

text \<open>The record on the VMI and what this kubelet last wrote; the machine's disks as this kubelet
  and as the registration have them; which volume each disk of the guest really is on, and
  whether it is paused; the migrations; every volume there ever was, with the disk it is for; the
  volumes deleted and those let go on this node.\<close>
record world =
  w_annot :: disk_records
  w_mem :: "disk_records option"
  w_vm :: machine_disks
  w_reg :: machine_disks
  w_guest :: "string \<Rightarrow> string option"
  w_paused :: bool
  w_migs :: "string \<Rightarrow> dmig option"
  w_volumes :: "string \<Rightarrow> string option"
  w_deleted :: "string set"
  w_detached :: "string set"

text \<open>What else an outcome says: what a started migration and its copy are called and whether the
  answer names the copy; whether the guest writes before the call; which migration moves on by
  itself before it, to which state; and what is left to copy.\<close>
record outcome = call_outcome +
  oc_id :: string
  oc_copy :: string
  oc_named :: bool
  oc_writes :: bool
  oc_progress :: "(string \<times> string) option"
  oc_bytes :: "nat \<times> nat"

section \<open>Calls\<close>

type_synonym 'a calls = "(world, outcome, 'a) calling"

text \<open>The guest writes: a copy that was cut over and whose source the guest is on misses it.\<close>
definition guest_writes :: "world \<Rightarrow> world" where
  "guest_writes w =
     (if w_paused w then w
      else w\<lparr>w_migs := \<lambda>i. map_option (\<lambda>m.
               if dg_state m = ''cut_over'' \<and> w_guest w (dg_disk m) = Some (dg_from m) then m\<lparr>dg_stale := True\<rparr> else m)
             (w_migs w i)\<rparr>)"

text \<open>A mirror gets in sync, or fails.\<close>
definition mig_progress :: "(string \<times> string) option \<Rightarrow> world \<Rightarrow> world" where
  "mig_progress p w =
     (case p of
        None \<Rightarrow> w
      | Some (i, s) \<Rightarrow>
          (case w_migs w i of
             None \<Rightarrow> w
           | Some m \<Rightarrow>
               if (dg_state m = COPYING \<and> (s = ''synced'' \<or> s = FAILED)) \<or> (dg_state m = ''synced'' \<and> s = FAILED)
               then w\<lparr>w_migs := (w_migs w)(i \<mapsto> m\<lparr>dg_state := s\<rparr>)\<rparr> else w))"

definition meanwhile :: "outcome \<Rightarrow> world \<Rightarrow> world" where
  "meanwhile oc w = (let w' = mig_progress (oc_progress oc) w in if oc_writes oc then guest_writes w' else w')"

abbreviation call :: "(outcome \<Rightarrow> world \<Rightarrow> world) \<Rightarrow> (outcome \<Rightarrow> world \<Rightarrow> 'a) \<Rightarrow> (string + 'a) calls" where
  "call \<equiv> call_amid meanwhile"

lemmas call_def = call_amid_def

subsection \<open>The storage service\<close>

text \<open>What \<open>DiskMigration::of\<close> reads.\<close>
record dmig_view =
  dv_id :: string
  dv_state :: string
  dv_target :: "string option"
  dv_total :: nat
  dv_remaining :: nat

definition view_of :: "outcome \<Rightarrow> string \<Rightarrow> dmig \<Rightarrow> dmig_view" where
  "view_of oc i m =
     \<lparr>dv_id = i, dv_state = dg_state m, dv_target = (if oc_named oc then Some (dg_copy m) else None),
      dv_total = fst (oc_bytes oc), dv_remaining = snd (oc_bytes oc)\<rparr>"

text \<open>\<open>get\<close>: no such migration is \<open>None\<close>, the answer 404, whose text is \<open>stormstorage 404 ...\<close>.\<close>
definition mig_get :: "string \<Rightarrow> (string + dmig_view option) calls" where
  "mig_get i = call (\<lambda>oc w. w) (\<lambda>oc w. map_option (view_of oc i) (w_migs w i))"

text \<open>\<open>cutover\<close> (of a migration in sync), \<open>complete\<close> (deletes the source) and \<open>abort\<close> (deletes the
  copy). One that changes nothing may still answer, with the state as it is.\<close>
definition mig_cutover :: "string \<Rightarrow> world \<Rightarrow> world" where
  "mig_cutover i w =
     (case w_migs w i of
        None \<Rightarrow> w
      | Some m \<Rightarrow> if dg_state m = ''synced'' then w\<lparr>w_migs := (w_migs w)(i \<mapsto> m\<lparr>dg_state := ''cut_over''\<rparr>)\<rparr> else w)"

definition mig_complete :: "string \<Rightarrow> world \<Rightarrow> world" where
  "mig_complete i w =
     (case w_migs w i of
        None \<Rightarrow> w
      | Some m \<Rightarrow> w\<lparr>w_migs := (w_migs w)(i \<mapsto> m\<lparr>dg_state := ''completed''\<rparr>),
                    w_deleted := insert (dg_from m) (w_deleted w)\<rparr>)"

definition mig_abort :: "string \<Rightarrow> world \<Rightarrow> world" where
  "mig_abort i w =
     (case w_migs w i of
        None \<Rightarrow> w
      | Some m \<Rightarrow> w\<lparr>w_migs := (w_migs w)(i \<mapsto> m\<lparr>dg_state := ''aborted''\<rparr>),
                    w_deleted := insert (dg_copy m) (w_deleted w)\<rparr>)"

definition mig_verb :: "(string \<Rightarrow> world \<Rightarrow> world) \<Rightarrow> string \<Rightarrow> (string + dmig_view option) calls" where
  "mig_verb verb i = call (\<lambda>oc. verb i) (\<lambda>oc w. map_option (view_of oc i) (w_migs w i))"

text \<open>\<open>start\<close>: a new migration, mirroring to a new volume; a volume that is gone cannot be.\<close>
definition mig_start :: "string \<Rightarrow> string \<Rightarrow> (string + dmig_view) calls" where
  "mig_start disk volume = (\<lambda>(w, os).
     case os of
       [] \<Rightarrow> (None, w, [])
     | oc # os' \<Rightarrow>
         let w1 = meanwhile oc w; i = oc_id oc; c = oc_copy oc;
             m = \<lparr>dg_from = volume, dg_copy = c, dg_disk = disk, dg_state = COPYING, dg_stale = False\<rparr>
         in if volume \<in> w_deleted w1 \<or> w_migs w1 i \<noteq> None \<or> i = [] \<or> w_volumes w1 c \<noteq> None \<or> c = []
               \<or> \<not> (oc_does oc \<or> oc_ok oc)
            then (Some (Inl (oc_error oc)), w1, os')
            else (Some (if oc_ok oc then Inr (view_of oc i m) else Inl (oc_error oc)),
                  w1\<lparr>w_migs := (w_migs w1)(i \<mapsto> m), w_volumes := (w_volumes w1)(c \<mapsto> disk)\<rparr>, os'))"

subsection \<open>The machine, the engine, the API server\<close>

definition pause :: "(string + unit) calls" where
  "pause = call (\<lambda>oc w. w\<lparr>w_paused := True\<rparr>) (\<lambda>oc w. ())"

definition unpause :: "(string + unit) calls" where
  "unpause = call (\<lambda>oc w. w\<lparr>w_paused := False\<rparr>) (\<lambda>oc w. ())"

definition switch_disk :: "string \<Rightarrow> string \<Rightarrow> (string + unit) calls" where
  "switch_disk disk volume = call (\<lambda>oc w. w\<lparr>w_guest := (w_guest w)(disk \<mapsto> volume)\<rparr>) (\<lambda>oc w. ())"

text \<open>A volume that is gone cannot be attached.\<close>
definition attach :: "string \<Rightarrow> (string + bool) calls" where
  "attach volume =
     call (\<lambda>oc w. if volume \<in> w_deleted w then w else w\<lparr>w_detached := w_detached w - {volume}\<rparr>)
          (\<lambda>oc w. volume \<notin> w_deleted w)"

definition detach :: "string \<Rightarrow> (string + unit) calls" where
  "detach volume = call (\<lambda>oc w. w\<lparr>w_detached := insert volume (w_detached w)\<rparr>) (\<lambda>oc w. ())"

text \<open>\<open>record_disks\<close>: the registration, best effort.\<close>
definition record_disks :: "(string + unit) calls" where
  "record_disks = call (\<lambda>oc w. w\<lparr>w_reg := w_vm w\<rparr>) (\<lambda>oc w. ())"

text \<open>The record this kubelet last wrote, else the VMI's.\<close>
definition disk_move_records :: "disk_records calls" where
  "disk_move_records = look (\<lambda>w. case w_mem w of Some r \<Rightarrow> r | None \<Rightarrow> w_annot w)"

text \<open>Where a start attaches a disk (\<open>moved_disks\<close>, which every pass and every write sets from the
  record): the volume a move put it on, if one did.\<close>
definition moved_volume :: "world \<Rightarrow> string \<Rightarrow> string option" where
  "moved_volume w =
     map_of (case w_mem w of Some rs \<Rightarrow> moved_in rs | None \<Rightarrow> filter (\<lambda>(d, v). v \<noteq> []) (moved_in (w_annot w)))"

definition write_disk_moves :: "disk_records \<Rightarrow> bool calls" where
  "write_disk_moves rs =
     and_then (call (\<lambda>oc w. w\<lparr>w_annot := rs\<rparr>) (\<lambda>oc w. ()))
       (\<lambda>a. case a of
              Inl e \<Rightarrow> done_with False
            | Inr u \<Rightarrow> and_then (change (\<lambda>w. w\<lparr>w_mem := Some rs\<rparr>)) (\<lambda>_. done_with True))"

section \<open>A move, step by step\<close>

text \<open>What the node has: the storage service and the machine's control; and what else a pass is told:
  this node's name, whether the machine runs, is being migrated or
  has a hypervisor that cannot switch, and which disk is the seed.\<close>
record move_config =
  mc_storage :: bool
  mc_machine :: bool
  mc_here :: string
  mc_running :: bool
  mc_migrating :: bool
  mc_cloud_hypervisor :: bool
  mc_seed :: "string \<Rightarrow> bool"

definition volume_of :: "machine_disks \<Rightarrow> string \<Rightarrow> string option" where
  "volume_of vm disk = (case map_of (md_volumes vm) disk of Some v \<Rightarrow> v | None \<Rightarrow> None)"

definition put_on :: "string \<Rightarrow> string \<Rightarrow> string \<Rightarrow> machine_disks \<Rightarrow> machine_disks" where
  "put_on disk from volume vm =
     \<lparr>md_volumes = AList.update disk (Some volume) (md_volumes vm),
      md_owned = map (\<lambda>v. if v = from then volume else v) (md_owned vm)\<rparr>"

definition failed_with :: "string \<Rightarrow> disk_move \<Rightarrow> disk_move" where
  "failed_with why r = r\<lparr>mv_state := FAILED, mv_message := why\<rparr>"

definition moved_now :: "disk_move \<Rightarrow> disk_move" where
  "moved_now r = r\<lparr>mv_state := MOVED, mv_message := '''', mv_bytes_remaining := 0\<rparr>"

text \<open>The answer to the completion was an error: has it happened all the same?\<close>
definition ask_retired :: "disk_move \<Rightarrow> disk_move calls" where
  "ask_retired r =
     and_then (mig_get (mv_migration r)) (\<lambda>g. done_with
       (let waits = r\<lparr>mv_message := ''the source is not retired yet''\<rparr> in
        case g of Inr (Some v) \<Rightarrow> if dv_state v = ''completed'' then moved_now r else waits | _ \<Rightarrow> waits))"

definition complete_source :: "disk_move \<Rightarrow> disk_move calls" where
  "complete_source r =
     and_then (mig_verb mig_complete (mv_migration r)) (\<lambda>b.
       case b of
         Inr (Some v) \<Rightarrow> done_with (if dv_state v = ''completed'' then moved_now r else r)
       | _ \<Rightarrow> ask_retired r)"

text \<open>The source let go here, then retired.\<close>
definition retire_disk_source :: "move_config \<Rightarrow> disk_move \<Rightarrow> disk_move calls" where
  "retire_disk_source cfg r =
     (if \<not> mc_storage cfg then done_with r
      else and_then (detach (mv_from r)) (\<lambda>a.
        case a of
          Inl e \<Rightarrow> done_with (r\<lparr>mv_message := ''the source is still attached here''\<rparr>)
        | Inr u \<Rightarrow> complete_source r))"

text \<open>Given up before the disk moved: the guest runs again, the copy is aborted.\<close>
definition undo_disk_switch :: "move_config \<Rightarrow> disk_move \<Rightarrow> string \<Rightarrow> disk_move calls" where
  "undo_disk_switch cfg r why =
     and_then unpause (\<lambda>_.
       if mc_storage cfg
       then and_then (mig_verb mig_abort (mv_migration r)) (\<lambda>a.
              done_with (failed_with (case a of Inr (Some v) \<Rightarrow> why
                                              | _ \<Rightarrow> why @ ''; the copy's abort was refused'') r))
       else done_with (failed_with (why @ ''; the copy's abort was refused'') r))"

text \<open>Up to three times, until the guest runs.\<close>
fun unpause_tries :: "nat \<Rightarrow> bool calls" where
  "unpause_tries 0 = done_with False"
| "unpause_tries (Suc n) = and_then unpause (\<lambda>a. case a of Inr _ \<Rightarrow> done_with True | Inl e \<Rightarrow> unpause_tries n)"

text \<open>The disk is on the copy: recorded where a restart finds it, the guest run, the source retired.\<close>
definition after_switch :: "move_config \<Rightarrow> string \<Rightarrow> disk_move \<Rightarrow> disk_move calls" where
  "after_switch cfg disk r =
     and_then (change (\<lambda>w. w\<lparr>w_vm := put_on disk (mv_from r) (mv_volume r) (w_vm w)\<rparr>)) (\<lambda>_.
     and_then record_disks (\<lambda>_.
     and_then (unpause_tries 3) (\<lambda>ran.
       let r = r\<lparr>mv_state := SWITCHED\<rparr> in
       retire_disk_source cfg
         (if ran then r else r\<lparr>mv_message := ''on the copy, but the guest would not run again''\<rparr>))))"

text \<open>The switch itself: a disk that may be on either is not known any more.\<close>
definition do_switch :: "move_config \<Rightarrow> string \<Rightarrow> disk_move \<Rightarrow> disk_move calls" where
  "do_switch cfg disk r =
     and_then (switch_disk disk (mv_volume r)) (\<lambda>s.
       case s of
         Inl e \<Rightarrow> and_then unpause (\<lambda>u. done_with
           (r\<lparr>mv_state := UNKNOWN, mv_message := ''the switch answered an error''\<rparr>))
       | Inr u \<Rightarrow> after_switch cfg disk r)"

text \<open>The migration is cut over: the copy is attached here.\<close>
definition attach_and_switch :: "move_config \<Rightarrow> string \<Rightarrow> disk_move \<Rightarrow> disk_move calls" where
  "attach_and_switch cfg disk r =
     and_then (attach (mv_volume r)) (\<lambda>c.
       if c = Inr True then do_switch cfg disk r
       else undo_disk_switch cfg r ''the copy would not attach here'')"

text \<open>The guest is paused.\<close>
definition cut_and_switch :: "move_config \<Rightarrow> string \<Rightarrow> disk_move \<Rightarrow> disk_move calls" where
  "cut_and_switch cfg disk r =
     and_then (mig_verb mig_cutover (mv_migration r)) (\<lambda>b.
       case b of
         Inr (Some v) \<Rightarrow>
           if dv_state v \<noteq> ''cut_over'' then undo_disk_switch cfg r ''the cutover left the migration''
           else attach_and_switch cfg disk r
       | _ \<Rightarrow> undo_disk_switch cfg r ''the cutover was refused'')"

text \<open>The copy is in sync: on record, pause, cut over, attach, switch, run.\<close>
definition switch_disk_over :: "move_config \<Rightarrow> disk_records \<Rightarrow> string \<Rightarrow> disk_move \<Rightarrow> disk_move calls" where
  "switch_disk_over cfg rs disk r =
     (if \<not> mc_machine cfg then done_with r
      else and_then (look (\<lambda>w. map_of (md_volumes (w_vm w)) disk)) (\<lambda>d.
        if d = None then done_with r
        else
          let r = r\<lparr>mv_state := SWITCHING, mv_message := ''''\<rparr> in
          and_then (write_disk_moves (bt_insert disk r rs)) (\<lambda>written.
            if \<not> written then done_with (r\<lparr>mv_state := COPYING\<rparr>)
            else and_then pause (\<lambda>a.
              case a of
                Inl e \<Rightarrow> done_with (r\<lparr>mv_state := COPYING, mv_message := ''the guest would not pause, tried again''\<rparr>)
              | Inr u \<Rightarrow> cut_and_switch cfg disk r))))"

text \<open>A move in flight, one step further.\<close>
definition carry_switching :: "move_config \<Rightarrow> disk_move \<Rightarrow> disk_move calls" where
  "carry_switching cfg r =
     and_then (mig_get (mv_migration r)) (\<lambda>g.
     and_then (if mc_machine cfg then unpause else done_with (Inr ())) (\<lambda>_.
       case g of
         Inr (Some v) \<Rightarrow>
           if dv_state v = ''synced'' \<or> dv_state v = COPYING
           then done_with (r\<lparr>mv_state := COPYING, mv_message := ''the switch was left before the cutover; tried again''\<rparr>)
           else done_with (r\<lparr>mv_state := UNKNOWN, mv_message := ''the kubelet stopped during the switch''\<rparr>)
       | _ \<Rightarrow> done_with r))"

definition carry_copying :: "move_config \<Rightarrow> disk_records \<Rightarrow> string \<Rightarrow> disk_move \<Rightarrow> disk_move calls" where
  "carry_copying cfg rs disk r =
     and_then (mig_get (mv_migration r)) (\<lambda>g.
       case g of
         Inl e \<Rightarrow> done_with (if contains_str e ''404'' then failed_with ''stormstorage no longer has the migration'' r else r)
       | Inr None \<Rightarrow> done_with (failed_with ''stormstorage no longer has the migration'' r)
       | Inr (Some v) \<Rightarrow>
           let r = r\<lparr>mv_bytes_total := dv_total v, mv_bytes_remaining := dv_remaining v,
                     mv_volume := (case dv_target v of Some t \<Rightarrow> t | None \<Rightarrow> mv_volume r)\<rparr>
           in if dv_state v = FAILED \<or> dv_state v = ''aborted'' then done_with (failed_with ''the copy failed'' r)
              else if dv_state v = ''synced'' \<and> mv_volume r \<noteq> [] then switch_disk_over cfg rs disk r
              else if dv_state v = ''cut_over'' \<or> dv_state v = ''completed''
              then and_then (mig_verb mig_abort (mv_migration r)) (\<lambda>a.
                     done_with (failed_with (case a of Inr (Some v) \<Rightarrow> ''cut over with the guest still on the source: aborted''
                       | _ \<Rightarrow> ''cut over with the guest still on the source: the abort was refused'') r))
              else done_with r)"

definition carry_disk_move :: "move_config \<Rightarrow> disk_records \<Rightarrow> string \<Rightarrow> disk_move \<Rightarrow> disk_move calls" where
  "carry_disk_move cfg rs disk r =
     (if \<not> mc_storage cfg then done_with (r\<lparr>mv_message := ''this node has no stormstorage any more''\<rparr>)
      else and_then (look (\<lambda>w. mv_volume r \<noteq> [] \<and> volume_of (w_vm w) disk = Some (mv_volume r))) (\<lambda>on_copy.
        if mv_state r = SWITCHING \<and> \<not> on_copy then carry_switching cfg r
        else if on_copy \<or> mv_state r = SWITCHED then retire_disk_source cfg (r\<lparr>mv_state := SWITCHED\<rparr>)
        else carry_copying cfg rs disk r))"

definition new_move :: "move_config \<Rightarrow> string \<Rightarrow> disk_move option \<Rightarrow> string option \<Rightarrow> disk_move" where
  "new_move cfg to prior volume =
     \<lparr>mv_to = to, mv_node = (case Option.bind prior location of Some (n, v) \<Rightarrow> n | None \<Rightarrow> mc_here cfg),
      mv_from = (case volume of Some v \<Rightarrow> v | None \<Rightarrow> ''''), mv_migration = '''', mv_state = '''',
      mv_bytes_total = 0, mv_bytes_remaining = 0, mv_volume = '''', mv_message = ''''\<rparr>"

definition start_mirror :: "string \<Rightarrow> disk_move \<Rightarrow> disk_move calls" where
  "start_mirror disk r =
     and_then (mig_start disk (mv_from r)) (\<lambda>a.
       case a of
         Inl e \<Rightarrow> done_with (failed_with e r)
       | Inr v \<Rightarrow> done_with (r\<lparr>mv_migration := dv_id v, mv_state := COPYING,
           mv_volume := (case dv_target v of Some t \<Rightarrow> t | None \<Rightarrow> ''''),
           mv_bytes_total := dv_total v, mv_bytes_remaining := dv_remaining v\<rparr>))"

text \<open>A move refused, or its mirror started.\<close>
definition start_disk_move :: "move_config \<Rightarrow> string \<Rightarrow> string \<Rightarrow> disk_move option \<Rightarrow> disk_move calls" where
  "start_disk_move cfg disk to prior =
     and_then (look w_vm) (\<lambda>vm.
       let volume = volume_of vm disk; r = new_move cfg to prior volume
       in if map_of (md_volumes vm) disk = None then done_with (failed_with ''the machine has no such disk'' r)
          else if refusal_of (\<lambda>k. mc_cloud_hypervisor cfg) disk '''' volume
                 (case volume of Some v \<Rightarrow> v \<in> set (md_owned vm) | None \<Rightarrow> False) (mc_seed cfg disk) (mc_migrating cfg) \<noteq> None
          then done_with (failed_with ''refused'' r)
          else if \<not> mc_storage cfg then done_with (failed_with ''this node has no stormstorage (--stormstorage)'' r)
          else start_mirror disk r)"

definition cancel_disk_move :: "move_config \<Rightarrow> disk_move \<Rightarrow> disk_move calls" where
  "cancel_disk_move cfg r =
     (if \<not> mc_storage cfg then done_with r
      else and_then (mig_verb mig_abort (mv_migration r)) (\<lambda>a.
        case a of
          Inr (Some v) \<Rightarrow> done_with (failed_with ''cancelled: the request no longer names this node'' r)
        | _ \<Rightarrow> done_with r))"

section \<open>A pass\<close>

text \<open>One disk: what the step decides, and the record it leaves.\<close>
definition visit_disk :: "move_config \<Rightarrow> (string \<times> string) list \<Rightarrow> string \<Rightarrow> disk_records \<Rightarrow> disk_records calls" where
  "visit_disk cfg wanted disk rs =
     (case move_step (map_of wanted disk) (map_of rs disk) (mc_here cfg) of
        Nothing \<Rightarrow> done_with rs
      | Forget \<Rightarrow> done_with (filter (\<lambda>(d, r). d \<noteq> disk) rs)
      | Start to \<Rightarrow> and_then (start_disk_move cfg disk to (map_of rs disk)) (\<lambda>r. done_with (bt_insert disk r rs))
      | Cancel \<Rightarrow> and_then (cancel_disk_move cfg (the (map_of rs disk))) (\<lambda>r. done_with (bt_insert disk r rs))
      | Continue \<Rightarrow>
          and_then (carry_disk_move cfg rs disk (the (map_of rs disk))) (\<lambda>r. done_with (bt_insert disk r rs)))"

fun visit_disks :: "move_config \<Rightarrow> (string \<times> string) list \<Rightarrow> string list \<Rightarrow> disk_records \<Rightarrow> disk_records calls" where
  "visit_disks cfg wanted [] rs = done_with rs"
| "visit_disks cfg wanted (d # ds) rs = and_then (visit_disk cfg wanted d rs) (visit_disks cfg wanted ds)"

text \<open>A request that cannot be read is \<open>None\<close>: nothing is looked at. The result is whether there
  is a move in flight, so that the pass comes again.\<close>
definition move_disks :: "move_config \<Rightarrow> (string \<times> string) list option \<Rightarrow> bool calls" where
  "move_disks cfg request =
     (case request of
        None \<Rightarrow> done_with False
      | Some wanted \<Rightarrow>
          and_then disk_move_records (\<lambda>recs.
            if wanted = [] \<and> recs = [] then done_with False
            else if \<not> mc_running cfg then done_with False
            else and_then (visit_disks cfg wanted (sort (remdups (map fst wanted @ map fst recs))) recs) (\<lambda>rs.
              and_then (if rs \<noteq> recs then write_disk_moves rs else done_with True) (\<lambda>_.
                done_with (list_ex (\<lambda>(d, r). move_active r) rs)))))"

text \<open>A deleted VMI: its copies in flight are aborted, best effort.\<close>
fun abort_each :: "disk_records \<Rightarrow> string list \<Rightarrow> unit calls" where
  "abort_each rs [] = done_with ()"
| "abort_each rs (d # ds) =
     (case map_of rs d of
        Some r \<Rightarrow>
          if mv_state r = COPYING \<and> mv_migration r \<noteq> []
          then and_then (mig_verb mig_abort (mv_migration r)) (\<lambda>_. abort_each rs ds)
          else abort_each rs ds
      | None \<Rightarrow> abort_each rs ds)"

definition abort_disk_moves :: "move_config \<Rightarrow> unit calls" where
  "abort_disk_moves cfg =
     (if \<not> mc_storage cfg then done_with ()
      else and_then disk_move_records (\<lambda>rs. abort_each rs (map fst rs)))"

text \<open>The kubelet starts again: what it had in memory is what the registration says.\<close>
definition restart :: "world \<Rightarrow> world" where
  "restart w = w\<lparr>w_mem := None, w_vm := w_reg w\<rparr>"

inductive disk_step :: "world \<Rightarrow> world \<Rightarrow> bool" where
  pass_done: "move_disks cfg request (w, os) = (Some b, w', os') \<Longrightarrow> disk_step w w'"
| pass_cut_short: "move_disks cfg request (w, os) = (None, w', os') \<Longrightarrow> disk_step w (restart w')"
| vmi_deleted: "abort_disk_moves cfg (w, os) = (r, w', os') \<Longrightarrow> disk_step w (w'\<lparr>w_mem := None\<rparr>)"
| stopped: "disk_step w (restart w)"
| time_passes: "disk_step w (meanwhile oc w)"

end
