(* ===== verification/DiskSafety.thy ===== *)
theory DiskSafety
  imports DiskSwitch
begin

text \<open>The volume a guest is on is never deleted, never let go and never one that missed a write,
  whichever calls fail, whichever answers are lost and wherever the kubelet stops. The invariant
  relates the record on the VMI, the record in memory, the kubelet's and the registration's view
  of the disks to where the guest really is; a logic of calls, in which every call keeps the
  invariant also when the kubelet stops after it, carries it through the passes.\<close>

section \<open>The invariant\<close>

text \<open>The migration a record speaks of.\<close>
definition at_mig :: "world \<Rightarrow> string \<Rightarrow> disk_move \<Rightarrow> dmig \<Rightarrow> bool" where
  "at_mig w d r m =
     (w_migs w (mv_migration r) = Some m \<and> dg_disk m = d \<and> dg_from m = mv_from r \<and>
      (mv_volume r = [] \<or> mv_volume r = dg_copy m))"

definition mirroring :: "dmig \<Rightarrow> bool" where
  "mirroring m = (dg_state m = COPYING \<or> dg_state m = ''synced'')"

text \<open>What a record of disk \<open>d\<close> says of where the guest is, \<open>v\<close> being the volume the kubelet
  takes the disk to be on.\<close>
definition rec_ok :: "world \<Rightarrow> string \<Rightarrow> string option \<Rightarrow> disk_move option \<Rightarrow> bool" where
  "rec_ok w d v ro =
     (case ro of
        None \<Rightarrow> (\<forall>x. v = Some x \<longrightarrow> x \<notin> w_deleted w \<longrightarrow> w_guest w d = Some x)
      | Some r \<Rightarrow>
          if mv_state r = UNKNOWN then True
          else if mv_state r = COPYING then
            (\<exists>m. at_mig w d r m \<and> w_guest w d = Some (dg_from m) \<and> v \<noteq> Some (dg_copy m)) \<and>
            (\<forall>x. v = Some x \<longrightarrow> x \<notin> w_deleted w \<longrightarrow> w_guest w d = Some x)
          else if mv_state r = SWITCHING then
            (\<exists>m. at_mig w d r m \<and> mv_volume r = dg_copy m \<and>
               (w_guest w d = Some (dg_from m) \<or> w_guest w d = Some (dg_copy m)) \<and>
               (v = Some (dg_copy m) \<longrightarrow> w_guest w d = Some (dg_copy m)) \<and>
               (mirroring m \<longrightarrow> w_guest w d = Some (dg_from m)) \<and>
               (\<forall>x. v = Some x \<longrightarrow> x \<notin> w_deleted w \<longrightarrow> x = dg_from m \<or> x = dg_copy m))
          else if mv_state r = SWITCHED then
            (\<exists>m. at_mig w d r m \<and> mv_volume r = dg_copy m \<and> w_guest w d = Some (dg_copy m) \<and>
               (\<forall>x. v = Some x \<longrightarrow> x \<notin> w_deleted w \<longrightarrow> x = dg_from m \<or> x = dg_copy m))
          else (\<forall>x. v = Some x \<longrightarrow> x \<notin> w_deleted w \<longrightarrow> w_guest w d = Some x))"

definition records_ok :: "world \<Rightarrow> disk_records \<Rightarrow> bool" where
  "records_ok w rs =
     (\<forall>d. rec_ok w d (volume_of (w_vm w) d) (map_of rs d) \<and> rec_ok w d (volume_of (w_reg w) d) (map_of rs d))"

text \<open>What holds of the storage: each volume is for one disk; a migration's two volumes are
  different and for its disk; the copies of different migrations are different; a mirror that runs
  misses nothing; one that is completed deleted its source.\<close>
definition storage_ok :: "world \<Rightarrow> bool" where
  "storage_ok w =
     ((\<forall>i m. w_migs w i = Some m \<longrightarrow>
         dg_from m \<noteq> dg_copy m \<and> w_volumes w (dg_from m) = Some (dg_disk m) \<and>
         w_volumes w (dg_copy m) = Some (dg_disk m) \<and> dg_copy m \<noteq> [] \<and> (dg_stale m \<longrightarrow> \<not> mirroring m) \<and>
         (dg_state m = ''completed'' \<longrightarrow> dg_from m \<in> w_deleted w)) \<and>
      (\<forall>i j m n. w_migs w i = Some m \<longrightarrow> w_migs w j = Some n \<longrightarrow> dg_copy m = dg_copy n \<longrightarrow> i = j) \<and>
      (\<forall>d x. volume_of (w_vm w) d = Some x \<or> volume_of (w_reg w) d = Some x \<or> w_guest w d = Some x
         \<longrightarrow> w_volumes w x = Some d))"

text \<open>The volume every disk of the guest is on is there, attached, and has every write.\<close>
definition guest_safe :: "world \<Rightarrow> bool" where
  "guest_safe w =
     (\<forall>d g. w_guest w d = Some g \<longrightarrow>
        g \<notin> w_deleted w \<and> g \<notin> w_detached w \<and>
        (\<forall>i m. w_migs w i = Some m \<longrightarrow> dg_copy m = g \<longrightarrow> \<not> dg_stale m))"

definition records_now :: "world \<Rightarrow> disk_records" where
  "records_now w = (case w_mem w of Some r \<Rightarrow> r | None \<Rightarrow> w_annot w)"

definition world_ok :: "world \<Rightarrow> bool" where
  "world_ok w = (storage_ok w \<and> guest_safe w \<and> records_ok w (w_annot w) \<and> records_ok w (records_now w))"

section \<open>The logic of calls, for these worlds\<close>

abbreviation keeps :: "(world \<Rightarrow> bool) \<Rightarrow> 'a calls \<Rightarrow> ('a \<Rightarrow> world \<Rightarrow> bool) \<Rightarrow> bool" where
  "keeps \<equiv> upholds world_ok"

abbreviation stable :: "(world \<Rightarrow> bool) \<Rightarrow> bool" where
  "stable \<equiv> stable_amid world_ok meanwhile"

lemmas keeps_def = upholds_def [where good = world_ok]
lemmas keeps_done = upholds_done [where good = world_ok]
lemmas keeps_stopped = upholds_stopped [where good = world_ok]
lemmas keeps_result = upholds_result [where good = world_ok]
lemmas keeps_then = upholds_then [where good = world_ok]
lemmas keeps_look = upholds_look [where good = world_ok]
lemmas keeps_change = upholds_change [where good = world_ok]
lemmas keeps_pre = upholds_pre [where good = world_ok]
lemmas keeps_post = upholds_post [where good = world_ok]
lemmas keeps_if = upholds_if [where good = world_ok]
lemmas stable_def = stable_amid_def [where good = world_ok and meanwhile = meanwhile]
lemmas keeps_call = upholds_call [where good = world_ok and meanwhile = meanwhile]

section \<open>What records survive\<close>

text \<open>The guest and the two views of its disks stay, volumes only go, and a migration keeps its
  volumes and does not start to mirror again: then every record stays as true as it was.\<close>
definition kept :: "dmig \<Rightarrow> dmig \<Rightarrow> bool" where
  "kept m n = (dg_from n = dg_from m \<and> dg_copy n = dg_copy m \<and> dg_disk n = dg_disk m \<and> (mirroring n \<longrightarrow> mirroring m))"

definition grows :: "world \<Rightarrow> world \<Rightarrow> bool" where
  "grows w v =
     (w_guest v = w_guest w \<and> w_vm v = w_vm w \<and> w_reg v = w_reg w \<and> w_deleted w \<subseteq> w_deleted v \<and>
      (\<forall>i m. w_migs w i = Some m \<longrightarrow> (\<exists>n. w_migs v i = Some n \<and> kept m n)))"

lemma at_mig_grows: "\<lbrakk>at_mig w d r m; grows w v\<rbrakk> \<Longrightarrow> \<exists>n. at_mig v d r n \<and> kept m n"
proof -
  assume m: "at_mig w d r m" "grows w v"
  then obtain n where "w_migs v (mv_migration r) = Some n" "kept m n" unfolding at_mig_def grows_def by blast
  then show ?thesis using m(1) by (auto simp: at_mig_def kept_def)
qed

definition both_ok :: "world \<Rightarrow> string \<Rightarrow> disk_move option \<Rightarrow> bool" where
  "both_ok w d ro = (rec_ok w d (volume_of (w_vm w) d) ro \<and> rec_ok w d (volume_of (w_reg w) d) ro)"

definition others_ok :: "world \<Rightarrow> string \<Rightarrow> disk_records \<Rightarrow> bool" where
  "others_ok w d rs = (\<forall>d'. d' \<noteq> d \<longrightarrow> both_ok w d' (map_of rs d'))"

lemma records_ok_both: "records_ok w rs \<longleftrightarrow> (\<forall>d. both_ok w d (map_of rs d))"
  by (simp add: records_ok_def both_ok_def)

lemma records_ok_insert: "records_ok w (bt_insert d r rs) \<longleftrightarrow> others_ok w d rs \<and> both_ok w d (Some r)"
  by (auto simp: records_ok_both others_ok_def map_of_bt_insert)

lemma records_ok_split: "records_ok w rs \<longleftrightarrow> others_ok w d rs \<and> both_ok w d (map_of rs d)"
  by (auto simp: records_ok_both others_ok_def)

text \<open>The four forms of a record, spelt out.\<close>
lemma rec_ok_copying: "mv_state r = COPYING \<Longrightarrow> rec_ok w d v (Some r) \<longleftrightarrow>
   (\<exists>m. at_mig w d r m \<and> w_guest w d = Some (dg_from m) \<and> v \<noteq> Some (dg_copy m)) \<and>
   (\<forall>x. v = Some x \<longrightarrow> x \<notin> w_deleted w \<longrightarrow> w_guest w d = Some x)"
  by (simp add: rec_ok_def)

lemma rec_ok_switching: "mv_state r = SWITCHING \<Longrightarrow> rec_ok w d v (Some r) \<longleftrightarrow>
   (\<exists>m. at_mig w d r m \<and> mv_volume r = dg_copy m \<and>
      (w_guest w d = Some (dg_from m) \<or> w_guest w d = Some (dg_copy m)) \<and>
      (v = Some (dg_copy m) \<longrightarrow> w_guest w d = Some (dg_copy m)) \<and>
      (mirroring m \<longrightarrow> w_guest w d = Some (dg_from m)) \<and>
      (\<forall>x. v = Some x \<longrightarrow> x \<notin> w_deleted w \<longrightarrow> x = dg_from m \<or> x = dg_copy m))"
  by (simp add: rec_ok_def)

lemma rec_ok_switched: "mv_state r = SWITCHED \<Longrightarrow> rec_ok w d v (Some r) \<longleftrightarrow>
   (\<exists>m. at_mig w d r m \<and> mv_volume r = dg_copy m \<and> w_guest w d = Some (dg_copy m) \<and>
      (\<forall>x. v = Some x \<longrightarrow> x \<notin> w_deleted w \<longrightarrow> x = dg_from m \<or> x = dg_copy m))"
  by (simp add: rec_ok_def)

lemma rec_ok_settled: "ro = None \<or> (\<exists>r. ro = Some r \<and> \<not> move_active r \<and> mv_state r \<noteq> UNKNOWN) \<Longrightarrow>
   rec_ok w d v ro \<longleftrightarrow> (\<forall>x. v = Some x \<longrightarrow> x \<notin> w_deleted w \<longrightarrow> w_guest w d = Some x)"
  by (auto simp: rec_ok_def move_active_def)

lemma rec_ok_unknown: "mv_state r = UNKNOWN \<Longrightarrow> rec_ok w d v (Some r)"
  by (simp add: rec_ok_def)

lemma rec_ok_grows:
  assumes ok: "rec_ok w d x ro" and g: "grows w v"
  shows "rec_ok v d x ro"
proof -
  have eq: "w_guest v = w_guest w" "w_deleted w \<subseteq> w_deleted v" using g by (simp_all add: grows_def)
  note keep = at_mig_grows [OF _ g]
  consider "ro = None \<or> (\<exists>r. ro = Some r \<and> \<not> move_active r \<and> mv_state r \<noteq> UNKNOWN)"
    | r where "ro = Some r" "mv_state r = COPYING" | r where "ro = Some r" "mv_state r = SWITCHING"
    | r where "ro = Some r" "mv_state r = SWITCHED" | r where "ro = Some r" "mv_state r = UNKNOWN"
    unfolding move_active_def by (cases ro) auto
  then show ?thesis
  proof cases
    case 1
    then show ?thesis using ok eq by (auto simp: rec_ok_settled)
  next
    case 2
    from ok obtain m where m: "at_mig w d r m" "w_guest w d = Some (dg_from m)" "x \<noteq> Some (dg_copy m)"
      "\<forall>y. x = Some y \<longrightarrow> y \<notin> w_deleted w \<longrightarrow> w_guest w d = Some y"
      unfolding 2(1) rec_ok_copying [OF 2(2)] by blast
    obtain n where n: "at_mig v d r n" "kept m n" using keep [OF m(1)] by blast
    show ?thesis unfolding 2(1) rec_ok_copying [OF 2(2)] using m n eq by (auto simp: kept_def)
  next
    case 3
    from ok obtain m where m: "at_mig w d r m" "mv_volume r = dg_copy m"
      "w_guest w d = Some (dg_from m) \<or> w_guest w d = Some (dg_copy m)"
      "x = Some (dg_copy m) \<longrightarrow> w_guest w d = Some (dg_copy m)" "mirroring m \<longrightarrow> w_guest w d = Some (dg_from m)"
      "\<forall>y. x = Some y \<longrightarrow> y \<notin> w_deleted w \<longrightarrow> y = dg_from m \<or> y = dg_copy m"
      unfolding 3(1) rec_ok_switching [OF 3(2)] by blast
    obtain n where n: "at_mig v d r n" "kept m n" using keep [OF m(1)] by blast
    show ?thesis unfolding 3(1) rec_ok_switching [OF 3(2)]
      by (rule exI [of _ n]) (use m n eq in \<open>auto simp: kept_def\<close>)
  next
    case 4
    from ok obtain m where m: "at_mig w d r m" "mv_volume r = dg_copy m" "w_guest w d = Some (dg_copy m)"
      "\<forall>y. x = Some y \<longrightarrow> y \<notin> w_deleted w \<longrightarrow> y = dg_from m \<or> y = dg_copy m"
      unfolding 4(1) rec_ok_switched [OF 4(2)] by blast
    obtain n where n: "at_mig v d r n" "kept m n" using keep [OF m(1)] by blast
    show ?thesis unfolding 4(1) rec_ok_switched [OF 4(2)]
      by (rule exI [of _ n]) (use m n eq in \<open>auto simp: kept_def\<close>)
  next
    case 5
    then show ?thesis by (simp add: rec_ok_unknown)
  qed
qed

lemma both_ok_grows: "\<lbrakk>both_ok w d ro; grows w v\<rbrakk> \<Longrightarrow> both_ok v d ro"
  using rec_ok_grows by (auto simp: both_ok_def grows_def)

lemma others_ok_grows: "\<lbrakk>others_ok w d rs; grows w v\<rbrakk> \<Longrightarrow> others_ok v d rs"
  using both_ok_grows by (auto simp: others_ok_def)

lemma records_ok_grows: "\<lbrakk>records_ok w rs; grows w v\<rbrakk> \<Longrightarrow> records_ok v rs"
  unfolding records_ok_both using both_ok_grows by blast

section \<open>What happens meanwhile\<close>

text \<open>A migration as it may be a moment later.\<close>
definition later :: "dmig \<Rightarrow> dmig \<Rightarrow> bool" where
  "later m n = (dg_from n = dg_from m \<and> dg_copy n = dg_copy m \<and> dg_disk n = dg_disk m \<and>
     (mirroring n \<longrightarrow> mirroring m) \<and> (dg_state n = ''cut_over'' \<longleftrightarrow> dg_state m = ''cut_over'') \<and>
     (dg_state n = ''completed'' \<longrightarrow> dg_state m = ''completed''))"

text \<open>Two worlds that differ in the migrations only, and in those as time passes.\<close>
definition later_world :: "world \<Rightarrow> world \<Rightarrow> bool" where
  "later_world w v =
     (\<exists>f. v = w\<lparr>w_migs := f\<rparr> \<and> (\<forall>i. rel_option later (w_migs w i) (f i)) \<and>
        (\<forall>i m n. w_migs w i = Some m \<longrightarrow> f i = Some n \<longrightarrow> dg_stale n \<longrightarrow> \<not> dg_stale m \<longrightarrow>
           dg_state m = ''cut_over'' \<and> \<not> w_paused w \<and> w_guest w (dg_disk m) = Some (dg_from m)))"

lemma later_mig:
  assumes "later_world w v"
  shows "w_migs w i = Some m \<Longrightarrow> \<exists>n. w_migs v i = Some n \<and> later m n"
    and "w_migs v i = Some n \<Longrightarrow> \<exists>m. w_migs w i = Some m \<and> later m n"
proof -
  have r: "rel_option later (w_migs w i) (w_migs v i)" using assms by (auto simp: later_world_def)
  show "w_migs w i = Some m \<Longrightarrow> \<exists>n. w_migs v i = Some n \<and> later m n" using r by (auto simp: option_rel_Some1)
  show "w_migs v i = Some n \<Longrightarrow> \<exists>m. w_migs w i = Some m \<and> later m n" using r by (auto simp: option_rel_Some2)
qed

lemma later_world_fields:
  assumes "later_world w v"
  shows "w_annot v = w_annot w" "w_mem v = w_mem w" "w_vm v = w_vm w" "w_reg v = w_reg w" "w_guest v = w_guest w"
    "w_paused v = w_paused w" "w_volumes v = w_volumes w" "w_deleted v = w_deleted w" "w_detached v = w_detached w"
  using assms by (auto simp: later_world_def)

lemma guest_writes_later: "later_world w (guest_writes w)"
  by (auto simp: later_world_def guest_writes_def rel_option_iff later_def mirroring_def
           intro!: exI [of _ "w_migs (guest_writes w)"] split: option.splits if_splits)

lemma mig_progress_later: "later_world w (mig_progress p w)"
  by (auto simp: later_world_def mig_progress_def rel_option_iff later_def mirroring_def
           intro!: exI [of _ "w_migs (mig_progress p w)"] split: option.splits prod.splits if_splits)

lemma later_grows: "later_world w v \<Longrightarrow> grows w v"
  using later_mig(1) by (fastforce simp: grows_def kept_def later_def later_world_fields)

lemmas records_ok_later = records_ok_grows [OF _ later_grows]

lemma stale_later:
  assumes "later_world w v" "w_migs v i = Some n" "dg_stale n"
  shows "\<exists>m. w_migs w i = Some m \<and> later m n \<and>
    (dg_stale m \<or> (dg_state m = ''cut_over'' \<and> \<not> w_paused w \<and> w_guest w (dg_disk m) = Some (dg_from m)))"
proof -
  obtain m where m: "w_migs w i = Some m" "later m n" using later_mig(2) [OF assms(1,2)] by blast
  then show ?thesis using assms by (auto simp: later_world_def)
qed

lemma storage_mig: "\<lbrakk>storage_ok w; w_migs w i = Some m\<rbrakk> \<Longrightarrow> dg_from m \<noteq> dg_copy m \<and>
   w_volumes w (dg_from m) = Some (dg_disk m) \<and> w_volumes w (dg_copy m) = Some (dg_disk m) \<and>
   dg_copy m \<noteq> [] \<and> (dg_stale m \<longrightarrow> \<not> mirroring m) \<and> (dg_state m = ''completed'' \<longrightarrow> dg_from m \<in> w_deleted w)"
  by (simp add: storage_ok_def)

lemma storage_copies: "\<lbrakk>storage_ok w; w_migs w i = Some m; w_migs w j = Some n; dg_copy m = dg_copy n\<rbrakk> \<Longrightarrow> i = j"
  unfolding storage_ok_def by blast

lemma storage_volumes: "\<lbrakk>storage_ok w; volume_of (w_vm w) d = Some x \<or> volume_of (w_reg w) d = Some x \<or> w_guest w d = Some x\<rbrakk>
   \<Longrightarrow> w_volumes w x = Some d"
  unfolding storage_ok_def by blast

lemma storage_ok_later:
  assumes "storage_ok w" "later_world w v"
  shows "storage_ok v"
proof -
  note f = later_world_fields [OF assms(2)]
  have 1: "dg_from n \<noteq> dg_copy n \<and> w_volumes v (dg_from n) = Some (dg_disk n) \<and>
         w_volumes v (dg_copy n) = Some (dg_disk n) \<and> dg_copy n \<noteq> [] \<and>
         (dg_state n = ''completed'' \<longrightarrow> dg_from n \<in> w_deleted v)" if "w_migs v i = Some n" for i n
  proof -
    from later_mig(2) [OF assms(2) that] obtain m where "w_migs w i = Some m" "later m n" by blast
    then show ?thesis using storage_mig [OF assms(1), of i m] by (simp add: later_def f)
  qed
  have 2: "\<not> mirroring n" if "w_migs v i = Some n" "dg_stale n" for i n
  proof -
    from stale_later [OF assms(2) that] obtain m where m: "w_migs w i = Some m" "later m n"
      "dg_stale m \<or> dg_state m = ''cut_over''" by blast
    then have "\<not> mirroring m" using storage_mig [OF assms(1) m(1)] by (auto simp: mirroring_def)
    then show ?thesis using m(2) by (auto simp: later_def)
  qed
  have 3: "i = j" if "w_migs v i = Some m" "w_migs v j = Some n" "dg_copy m = dg_copy n" for i j m n
  proof -
    from later_mig(2) [OF assms(2) that(1)] later_mig(2) [OF assms(2) that(2)]
    obtain m' n' where "w_migs w i = Some m'" "later m' m" "w_migs w j = Some n'" "later n' n" by blast
    then show ?thesis using storage_copies [OF assms(1)] that(3) by (simp add: later_def)
  qed
  show ?thesis unfolding storage_ok_def
  proof (intro conjI allI impI)
    show "i = j" if "w_migs v i = Some m" "w_migs v j = Some n" "dg_copy m = dg_copy n" for i j m n by (rule 3 [OF that])
    show "w_volumes v x = Some d" if "volume_of (w_vm v) d = Some x \<or> volume_of (w_reg v) d = Some x \<or> w_guest v d = Some x"
      for d x using storage_volumes [OF assms(1)] that by (simp add: f)
  qed (use 1 2 in blast)+
qed

lemma storage_guest: "\<lbrakk>storage_ok w; w_guest w d = Some g\<rbrakk> \<Longrightarrow> w_volumes w g = Some d"
  by (simp add: storage_ok_def)

lemma guest_safe_later:
  assumes "guest_safe w" "storage_ok w" "later_world w v"
  shows "guest_safe v"
proof -
  note f = later_world_fields [OF assms(3)]
  have "\<not> dg_stale n" if g: "w_guest w d = Some g" and n: "w_migs v i = Some n" "dg_copy n = g" for d g i n
  proof
    assume "dg_stale n"
    then obtain m where m: "w_migs w i = Some m" "later m n"
      "dg_stale m \<or> (dg_state m = ''cut_over'' \<and> \<not> w_paused w \<and> w_guest w (dg_disk m) = Some (dg_from m))"
      using stale_later [OF assms(3) n(1)] by blast
    then have c: "dg_copy m = g" using n(2) by (simp add: later_def)
    then have "\<not> dg_stale m" using assms(1) g m(1) by (auto simp: guest_safe_def)
    then have "w_guest w (dg_disk m) = Some (dg_from m)" using m(3) by blast
    moreover have "dg_disk m = d" using storage_mig [OF assms(2) m(1)] storage_guest [OF assms(2) g] c by simp
    ultimately show False using g c storage_mig [OF assms(2) m(1)] by simp
  qed
  then show ?thesis using assms(1) by (simp add: guest_safe_def f)
qed

lemma world_ok_later:
  assumes "world_ok w" "later_world w v"
  shows "world_ok v"
proof -
  have "records_now v = records_now w"
    by (cases "w_mem w") (simp_all add: records_now_def later_world_fields [OF assms(2)])
  then show ?thesis
    using assms(1) storage_ok_later [OF _ assms(2)] guest_safe_later [OF _ _ assms(2)] records_ok_later [OF _ assms(2)]
    by (simp add: world_ok_def later_world_fields [OF assms(2)])
qed

definition steady :: "(world \<Rightarrow> bool) \<Rightarrow> bool" where
  "steady P = (\<forall>w v. later_world w v \<longrightarrow> P w \<longrightarrow> P v)"

lemma steady_stable: "steady P \<Longrightarrow> stable P"
proof -
  assume P: "steady P"
  have "world_ok (meanwhile oc w) \<and> P (meanwhile oc w)" if "world_ok w" "P w" for w oc
  proof -
    let ?w = "mig_progress (oc_progress oc) w"
    have 1: "world_ok ?w \<and> P ?w"
      using world_ok_later [OF that(1) mig_progress_later] mig_progress_later P that(2) unfolding steady_def by blast
    then have "world_ok (guest_writes ?w) \<and> P (guest_writes ?w)"
      using world_ok_later [OF _ guest_writes_later] guest_writes_later P unfolding steady_def by blast
    then show ?thesis using 1 by (simp add: meanwhile_def Let_def)
  qed
  then show ?thesis by (simp add: stable_def)
qed

section \<open>What each call keeps\<close>

text \<open>A condition that lasts while the guest stays where it is.\<close>
definition lasting :: "(world \<Rightarrow> bool) \<Rightarrow> bool" where
  "lasting X = (\<forall>w v. grows w v \<longrightarrow> X w \<longrightarrow> X v)"

named_theorems lasting_intros

lemma lastingD: "\<lbrakk>lasting X; X w; grows w v\<rbrakk> \<Longrightarrow> X v"
  by (simp add: lasting_def)

lemma lasting_both [lasting_intros]: "lasting (\<lambda>w. both_ok w d ro)"
  using both_ok_grows by (auto simp: lasting_def)

lemma lasting_others [lasting_intros]: "lasting (\<lambda>w. others_ok w d rs)"
  using others_ok_grows by (auto simp: lasting_def)

lemma lasting_records [lasting_intros]: "lasting (\<lambda>w. records_ok w rs)"
  using records_ok_grows by (auto simp: lasting_def)

lemma lasting_conj [lasting_intros]: "\<lbrakk>lasting X; lasting Y\<rbrakk> \<Longrightarrow> lasting (\<lambda>w. X w \<and> Y w)"
  by (simp add: lasting_def)

lemma lasting_imp [lasting_intros]: "\<lbrakk>b \<Longrightarrow> lasting X\<rbrakk> \<Longrightarrow> lasting (\<lambda>w. b \<longrightarrow> X w)"
  by (auto simp: lasting_def)

lemma lasting_vm [lasting_intros]: "lasting (\<lambda>w. p (w_vm w) (w_guest w))"
  by (simp add: lasting_def grows_def)

lemma lasting_steady: "lasting X \<Longrightarrow> steady X"
  using later_grows by (auto simp: lasting_def steady_def)

lemma steady_conj: "\<lbrakk>steady X; steady Y\<rbrakk> \<Longrightarrow> steady (\<lambda>w. X w \<and> Y w)"
  by (simp add: steady_def)

lemma grows_refl [simp]: "grows w w"
  by (auto simp: grows_def kept_def)

text \<open>A call that leaves the records alone and lets the rest grow.\<close>
lemma grown_ok:
  assumes "world_ok w" "grows w v" "w_annot v = w_annot w" "w_mem v = w_mem w" "storage_ok v" "guest_safe v"
  shows "world_ok v"
proof -
  have "records_now v = records_now w" by (cases "w_mem w") (simp_all add: records_now_def assms(3,4))
  then show ?thesis using assms records_ok_grows [OF _ assms(2)] by (simp add: world_ok_def)
qed

lemma keeps_grown:
  assumes X: "lasting X" and P: "steady P"
    and good: "\<And>w oc. \<lbrakk>world_ok w; X w; P w\<rbrakk> \<Longrightarrow> grows w (effect oc w) \<and> world_ok (effect oc w) \<and>
        Q (Inr (answer oc (effect oc w))) (effect oc w)"
    and bad: "\<And>e w. Q (Inl e) w"
  shows "keeps (\<lambda>w. X w \<and> P w) (call effect answer) (\<lambda>a w. X w \<and> Q a w)"
proof (rule keeps_call)
  show "stable (\<lambda>w. X w \<and> P w)" by (intro steady_stable steady_conj lasting_steady X P)
  fix w oc assume w: "world_ok w" "X w \<and> P w"
  then have "X (effect oc w)" using good lastingD [OF X] by blast
  then show "world_ok (effect oc w) \<and> (\<forall>e. X (effect oc w) \<and> Q (Inl e) (effect oc w)) \<and>
     X (effect oc w) \<and> Q (Inr (answer oc (effect oc w))) (effect oc w)"
    using good w bad by blast
qed (use bad in auto)

lemma steady_True [simp]: "steady (\<lambda>w. True)"
  by (simp add: steady_def)

lemma keeps_grown_any:
  assumes "lasting X" "\<And>w oc. \<lbrakk>world_ok w; X w\<rbrakk> \<Longrightarrow> grows w (effect oc w) \<and> world_ok (effect oc w)"
  shows "keeps X (call effect answer) (\<lambda>a. X)"
  using keeps_grown [OF assms(1) steady_True, of effect "\<lambda>a w. True" answer] assms(2) by simp

end
