(* ===== verification/DiskPasses.thy ===== *)
theory DiskPasses
  imports DiskSafety
begin

text \<open>Every call of a disk's move keeps the invariant of \<open>DiskSafety\<close>, and so does every pass,
  whatever the calls answer and wherever it is cut short.\<close>

section \<open>The storage service's calls\<close>

text \<open>A migration whose state changes, volumes that go not being a guest's.\<close>
definition set_mig :: "string \<Rightarrow> dmig \<Rightarrow> string set \<Rightarrow> world \<Rightarrow> world" where
  "set_mig i n D w = w\<lparr>w_migs := (w_migs w)(i \<mapsto> n), w_deleted := D\<rparr>"

lemma set_mig_fields [simp]:
  "w_annot (set_mig i n D w) = w_annot w" "w_mem (set_mig i n D w) = w_mem w" "w_vm (set_mig i n D w) = w_vm w"
  "w_reg (set_mig i n D w) = w_reg w" "w_guest (set_mig i n D w) = w_guest w" "w_paused (set_mig i n D w) = w_paused w"
  "w_volumes (set_mig i n D w) = w_volumes w" "w_deleted (set_mig i n D w) = D" "w_detached (set_mig i n D w) = w_detached w"
  "w_migs (set_mig i n D w) = (w_migs w)(i \<mapsto> n)"
  by (simp_all add: set_mig_def)

lemma set_mig_storage:
  assumes "storage_ok w" "w_migs w i = Some m" "kept m n" "dg_stale n = dg_stale m"
    "dg_state n = ''completed'' \<longrightarrow> dg_from n \<in> D" "w_deleted w \<subseteq> D"
  shows "storage_ok (set_mig i n D w)"
  unfolding storage_ok_def
proof (intro conjI allI impI)
  fix j q assume j: "w_migs (set_mig i n D w) j = Some q"
  show "dg_from q \<noteq> dg_copy q" "w_volumes (set_mig i n D w) (dg_from q) = Some (dg_disk q)"
    "w_volumes (set_mig i n D w) (dg_copy q) = Some (dg_disk q)" "dg_copy q \<noteq> []" "dg_stale q \<Longrightarrow> \<not> mirroring q"
    "dg_state q = ''completed'' \<Longrightarrow> dg_from q \<in> w_deleted (set_mig i n D w)"
    using storage_mig [OF assms(1), of j q] storage_mig [OF assms(1,2)] assms(3,4,5,6) j
    by (auto simp: kept_def split: if_splits)
next
  fix j k q r assume jk: "w_migs (set_mig i n D w) j = Some q" "w_migs (set_mig i n D w) k = Some r" "dg_copy q = dg_copy r"
  define q' r' where "q' = (if j = i then m else q)" and "r' = (if k = i then m else r)"
  have "w_migs w j = Some q'" "w_migs w k = Some r'" "dg_copy q' = dg_copy r'"
    using jk assms(2,3) by (auto simp: q'_def r'_def kept_def split: if_splits)
  then show "j = k" by (rule storage_copies [OF assms(1)])
next
  fix d x assume "volume_of (w_vm (set_mig i n D w)) d = Some x \<or> volume_of (w_reg (set_mig i n D w)) d = Some x \<or>
    w_guest (set_mig i n D w) d = Some x"
  then show "w_volumes (set_mig i n D w) x = Some d" using storage_volumes [OF assms(1)] by simp
qed

lemma set_mig_grows: "\<lbrakk>w_migs w i = Some m; kept m n; w_deleted w \<subseteq> D\<rbrakk> \<Longrightarrow> grows w (set_mig i n D w)"
  by (auto simp: grows_def) (auto simp: kept_def)

lemma set_mig_guest:
  assumes "guest_safe w" "w_migs w i = Some m" "kept m n" "dg_stale n = dg_stale m"
    "\<And>d g. w_guest w d = Some g \<Longrightarrow> g \<notin> D"
  shows "guest_safe (set_mig i n D w)"
  unfolding guest_safe_def
proof (intro allI impI conjI)
  fix d g assume g: "w_guest (set_mig i n D w) d = Some g"
  show "g \<notin> w_deleted (set_mig i n D w)" using assms(5) g by simp
  show "g \<notin> w_detached (set_mig i n D w)" using assms(1) g by (simp add: guest_safe_def)
  fix j q assume q: "w_migs (set_mig i n D w) j = Some q" "dg_copy q = g"
  define q' where "q' = (if j = i then m else q)"
  have "w_migs w j = Some q'" "dg_copy q' = g" "dg_stale q' = dg_stale q"
    using q assms(2,3,4) by (auto simp: q'_def kept_def split: if_splits)
  then show "\<not> dg_stale q" using assms(1) g by (fastforce simp: guest_safe_def)
qed

lemma set_mig_ok:
  assumes "world_ok w" "w_migs w i = Some m" "kept m n" "dg_stale n = dg_stale m"
    "dg_state n = ''completed'' \<longrightarrow> dg_from n \<in> D" "w_deleted w \<subseteq> D" "\<And>d g. w_guest w d = Some g \<Longrightarrow> g \<notin> D"
  shows "grows w (set_mig i n D w) \<and> world_ok (set_mig i n D w)"
proof -
  have g: "grows w (set_mig i n D w)" using set_mig_grows assms(2,3,6) by blast
  moreover have "storage_ok (set_mig i n D w)" using set_mig_storage assms by (auto simp: world_ok_def)
  moreover have "guest_safe (set_mig i n D w)" using set_mig_guest [OF _ assms(2,3,4,7)] assms(1) by (auto simp: world_ok_def)
  ultimately show ?thesis using grown_ok [OF assms(1) g] by simp
qed

text \<open>The cutover.\<close>
lemma mig_cutover_ok: "world_ok w \<Longrightarrow> grows w (mig_cutover i w) \<and> world_ok (mig_cutover i w)"
proof -
  assume w: "world_ok w"
  show ?thesis
  proof (cases "\<exists>m. w_migs w i = Some m \<and> dg_state m = ''synced''")
    case True
    then obtain m where m: "w_migs w i = Some m" "dg_state m = ''synced''" by blast
    have e: "mig_cutover i w = set_mig i (m\<lparr>dg_state := ''cut_over''\<rparr>) (w_deleted w) w"
      using m by (simp add: mig_cutover_def set_mig_def)
    show ?thesis unfolding e
      by (rule set_mig_ok [OF w m(1)]) (use w m in \<open>auto simp: kept_def mirroring_def world_ok_def guest_safe_def\<close>)
  next
    case False
    then have "mig_cutover i w = w" by (auto simp: mig_cutover_def split: option.splits)
    then show ?thesis using w by simp
  qed
qed

lemma guests_not: "\<lbrakk>world_ok w; w_volumes w x = Some d; w_guest w d \<noteq> Some x; w_guest w e = Some g\<rbrakk> \<Longrightarrow> g \<noteq> x \<and> g \<notin> w_deleted w"
  using storage_guest [of w e g] by (auto simp: world_ok_def guest_safe_def)

text \<open>Completing, when the guest is not on the source; aborting, when it is not on the copy.\<close>
lemma mig_complete_ok:
  assumes w: "world_ok w" and away: "\<And>m. w_migs w i = Some m \<Longrightarrow> w_guest w (dg_disk m) \<noteq> Some (dg_from m)"
  shows "grows w (mig_complete i w) \<and> world_ok (mig_complete i w)"
proof (cases "w_migs w i")
  case None
  then show ?thesis using w by (simp add: mig_complete_def)
next
  case (Some m)
  have e: "mig_complete i w = set_mig i (m\<lparr>dg_state := ''completed''\<rparr>) (insert (dg_from m) (w_deleted w)) w"
    using Some by (simp add: mig_complete_def set_mig_def)
  have v: "w_volumes w (dg_from m) = Some (dg_disk m)" using w Some storage_mig [of w i m] by (simp add: world_ok_def)
  show ?thesis unfolding e
    by (rule set_mig_ok [OF w Some]) (use guests_not [OF w v away [OF Some]] in \<open>auto simp: kept_def mirroring_def\<close>)
qed

lemma mig_abort_ok:
  assumes w: "world_ok w" and away: "\<And>m. w_migs w i = Some m \<Longrightarrow> w_guest w (dg_disk m) \<noteq> Some (dg_copy m)"
  shows "grows w (mig_abort i w) \<and> world_ok (mig_abort i w)"
proof (cases "w_migs w i")
  case None
  then show ?thesis using w by (simp add: mig_abort_def)
next
  case (Some m)
  have e: "mig_abort i w = set_mig i (m\<lparr>dg_state := ''aborted''\<rparr>) (insert (dg_copy m) (w_deleted w)) w"
    using Some by (simp add: mig_abort_def set_mig_def)
  have v: "w_volumes w (dg_copy m) = Some (dg_disk m)" using w Some storage_mig [of w i m] by (simp add: world_ok_def)
  show ?thesis unfolding e
    by (rule set_mig_ok [OF w Some]) (use guests_not [OF w v away [OF Some]] in \<open>auto simp: kept_def mirroring_def\<close>)
qed

section \<open>What each call keeps\<close>

text \<open>The world grows and neither copy of the records changes.\<close>
definition calm :: "world \<Rightarrow> world \<Rightarrow> bool" where
  "calm w v = (grows w v \<and> w_annot v = w_annot w \<and> w_mem v = w_mem w)"

definition calming :: "(world \<Rightarrow> bool) \<Rightarrow> bool" where
  "calming X = (\<forall>w v. calm w v \<longrightarrow> X w \<longrightarrow> X v)"

named_theorems calming_intros

lemma calmingD: "\<lbrakk>calming X; X w; calm w v\<rbrakk> \<Longrightarrow> X v"
  by (simp add: calming_def)

lemma lasting_calming [calming_intros]: "lasting X \<Longrightarrow> calming X"
  unfolding calming_def lasting_def calm_def by blast

lemma calming_conj [calming_intros]: "\<lbrakk>calming X; calming Y\<rbrakk> \<Longrightarrow> calming (\<lambda>w. X w \<and> Y w)"
  by (simp add: calming_def)

lemma calming_records [calming_intros]: "calming (\<lambda>w. w_annot w = rs)" "calming (\<lambda>w. w_mem w = ro)"
  by (simp_all add: calming_def calm_def)

lemma later_calm: "later_world w v \<Longrightarrow> calm w v"
  using later_grows [of w v] later_world_fields [of w v] by (simp add: calm_def)

lemma calming_steady: "calming X \<Longrightarrow> steady X"
  using later_calm by (auto simp: calming_def steady_def)

lemma keeps_calm:
  assumes X: "calming X" and P: "steady P"
    and good: "\<And>w oc. \<lbrakk>world_ok w; X w; P w\<rbrakk> \<Longrightarrow> calm w (effect oc w) \<and> world_ok (effect oc w) \<and>
        Q (Inr (answer oc (effect oc w))) (effect oc w)"
    and bad: "\<And>e w. Q (Inl e) w"
  shows "keeps (\<lambda>w. X w \<and> P w) (call effect answer) (\<lambda>a w. X w \<and> Q a w)"
proof (rule keeps_call)
  show "stable (\<lambda>w. X w \<and> P w)" by (intro steady_stable steady_conj calming_steady X P)
  fix w oc assume w: "world_ok w" "X w \<and> P w"
  then have "X (effect oc w)" using good calmingD [OF X] by blast
  then show "world_ok (effect oc w) \<and> (\<forall>e. X (effect oc w) \<and> Q (Inl e) (effect oc w)) \<and>
     X (effect oc w) \<and> Q (Inr (answer oc (effect oc w))) (effect oc w)"
    using good w bad by blast
qed (use bad in auto)

lemma keeps_calm_any:
  assumes "calming X" "\<And>w oc. \<lbrakk>world_ok w; X w\<rbrakk> \<Longrightarrow> calm w (effect oc w) \<and> world_ok (effect oc w) \<and> Q (Inr (answer oc (effect oc w))) (effect oc w)"
    "\<And>e w. Q (Inl e) w"
  shows "keeps X (call effect answer) (\<lambda>a w. X w \<and> Q a w)"
  using keeps_calm [OF assms(1) steady_True, of effect Q answer] assms(2,3) by simp

lemma keeps_calm_only:
  assumes "calming X" "\<And>w oc. \<lbrakk>world_ok w; X w\<rbrakk> \<Longrightarrow> calm w (effect oc w) \<and> world_ok (effect oc w)"
  shows "keeps X (call effect answer) (\<lambda>a. X)"
  using keeps_calm_any [OF assms(1), of effect "\<lambda>a w. True" answer] assms(2) by simp

lemma calm_refl [simp]: "calm w w"
  by (simp add: calm_def)

lemma calm_ok: "\<lbrakk>world_ok w; calm w v; storage_ok v; guest_safe v\<rbrakk> \<Longrightarrow> calm w v \<and> world_ok v"
  using grown_ok [of w v] by (simp add: calm_def)

text \<open>What an answer of the storage service says of the migration.\<close>
definition got :: "string \<Rightarrow> (string + dmig_view option) \<Rightarrow> world \<Rightarrow> bool" where
  "got i a w = (\<forall>v. a = Inr (Some v) \<longrightarrow>
     (\<exists>m. w_migs w i = Some m \<and> dv_state v = dg_state m \<and> (dv_target v = None \<or> dv_target v = Some (dg_copy m))))"

lemma got_view: "got i (Inr (map_option (view_of oc i) (w_migs w i))) w"
  by (auto simp: got_def view_of_def)

lemma got_Inl [simp]: "got i (Inl e) w"
  by (simp add: got_def)

lemma keeps_get: "calming X \<Longrightarrow> keeps X (mig_get i) (\<lambda>a w. X w \<and> got i a w)"
  unfolding mig_get_def by (rule keeps_calm_any) (simp_all add: got_view)

lemma keeps_verb:
  assumes "calming X" "\<And>w. \<lbrakk>world_ok w; X w\<rbrakk> \<Longrightarrow> grows w (verb i w) \<and> world_ok (verb i w)"
    "\<And>w. w_annot (verb i w) = w_annot w \<and> w_mem (verb i w) = w_mem w"
  shows "keeps X (mig_verb verb i) (\<lambda>a w. X w \<and> got i a w)"
  unfolding mig_verb_def by (rule keeps_calm_any [OF assms(1)]) (use assms(2,3) in \<open>simp_all add: got_view calm_def\<close>)

lemma verb_records [simp]:
  "w_annot (mig_cutover i w) = w_annot w" "w_mem (mig_cutover i w) = w_mem w"
  "w_annot (mig_complete i w) = w_annot w" "w_mem (mig_complete i w) = w_mem w"
  "w_annot (mig_abort i w) = w_annot w" "w_mem (mig_abort i w) = w_mem w"
  "w_paused (mig_cutover i w) = w_paused w"
  by (simp_all add: mig_cutover_def mig_complete_def mig_abort_def split: option.splits)

lemma paused_ok: "world_ok w \<Longrightarrow> calm w (w\<lparr>w_paused := b\<rparr>) \<and> world_ok (w\<lparr>w_paused := b\<rparr>)"
proof -
  assume w: "world_ok w"
  have c: "calm w (w\<lparr>w_paused := b\<rparr>)" by (auto simp: calm_def grows_def kept_def)
  show ?thesis by (rule calm_ok [OF w c]) (use w in \<open>simp_all add: world_ok_def storage_ok_def guest_safe_def\<close>)
qed

lemma keeps_pause: "calming X \<Longrightarrow> keeps X pause (\<lambda>a w. X w \<and> (a = Inr () \<longrightarrow> w_paused w))"
  unfolding pause_def by (rule keeps_calm_any) (simp_all add: paused_ok)

lemma keeps_unpause: "calming X \<Longrightarrow> keeps X unpause (\<lambda>a. X)"
  unfolding unpause_def by (rule keeps_calm_only) (simp_all add: paused_ok)

lemma keeps_unpause_tries: "calming X \<Longrightarrow> keeps X (unpause_tries n) (\<lambda>b. X)"
proof (induction n)
  case 0
  then show ?case by (simp add: keeps_done)
next
  case (Suc n)
  show ?case unfolding unpause_tries.simps
    by (rule keeps_then [OF keeps_unpause [OF Suc.prems]]) (auto split: sum.splits intro: keeps_done Suc)
qed

lemma detached_ok:
  assumes w: "world_ok w" and x: "w_volumes w x = Some d" "w_guest w d \<noteq> Some x"
  shows "calm w (w\<lparr>w_detached := insert x (w_detached w)\<rparr>) \<and> world_ok (w\<lparr>w_detached := insert x (w_detached w)\<rparr>)"
proof -
  have c: "calm w (w\<lparr>w_detached := insert x (w_detached w)\<rparr>)" by (auto simp: calm_def grows_def kept_def)
  show ?thesis
  proof (rule calm_ok [OF w c])
    show "guest_safe (w\<lparr>w_detached := insert x (w_detached w)\<rparr>)"
      using w guests_not [OF w x] by (auto simp: world_ok_def guest_safe_def)
  qed (use w in \<open>simp add: world_ok_def storage_ok_def\<close>)
qed

lemma keeps_detach:
  assumes "calming X" "\<And>w. \<lbrakk>world_ok w; X w\<rbrakk> \<Longrightarrow> \<exists>d. w_volumes w x = Some d \<and> w_guest w d \<noteq> Some x"
  shows "keeps X (detach x) (\<lambda>a. X)"
  unfolding detach_def by (rule keeps_calm_only [OF assms(1)]) (use assms(2) detached_ok in blast)

lemma attached_ok:
  assumes w: "world_ok w"
  shows "calm w (w\<lparr>w_detached := w_detached w - {x}\<rparr>) \<and> world_ok (w\<lparr>w_detached := w_detached w - {x}\<rparr>)"
proof -
  have c: "calm w (w\<lparr>w_detached := w_detached w - {x}\<rparr>)" by (auto simp: calm_def grows_def kept_def)
  show ?thesis by (rule calm_ok [OF w c]) (use w in \<open>simp_all add: world_ok_def storage_ok_def guest_safe_def\<close>)
qed

section \<open>Writing the record\<close>

lemma rec_ok_regs [simp]:
  "rec_ok (w\<lparr>w_annot := a\<rparr>) d x ro = rec_ok w d x ro" "rec_ok (w\<lparr>w_mem := b\<rparr>) d x ro = rec_ok w d x ro"
  "rec_ok (w\<lparr>w_reg := p\<rparr>) d x ro = rec_ok w d x ro" "rec_ok (w\<lparr>w_vm := p\<rparr>) d x ro = rec_ok w d x ro"
  by (simp_all add: rec_ok_def at_mig_def cong: option.case_cong)

lemma records_ok_writes [simp]:
  "records_ok (w\<lparr>w_annot := a\<rparr>) rs = records_ok w rs" "records_ok (w\<lparr>w_mem := b\<rparr>) rs = records_ok w rs"
  by (simp_all add: records_ok_def)

lemma safe_writes [simp]:
  "guest_safe (w\<lparr>w_annot := a\<rparr>) = guest_safe w" "guest_safe (w\<lparr>w_mem := b\<rparr>) = guest_safe w"
  "guest_safe (w\<lparr>w_reg := p\<rparr>) = guest_safe w" "guest_safe (w\<lparr>w_vm := p\<rparr>) = guest_safe w"
  "storage_ok (w\<lparr>w_annot := a\<rparr>) = storage_ok w" "storage_ok (w\<lparr>w_mem := b\<rparr>) = storage_ok w"
  by (simp_all add: guest_safe_def storage_ok_def)

lemma world_ok_annot: "\<lbrakk>world_ok w; records_ok w rs\<rbrakk> \<Longrightarrow> world_ok (w\<lparr>w_annot := rs\<rparr>)"
  by (cases "w_mem w") (simp_all add: world_ok_def records_now_def)

lemma world_ok_mem: "\<lbrakk>world_ok w; records_ok w rs\<rbrakk> \<Longrightarrow> world_ok (w\<lparr>w_mem := Some rs\<rparr>)"
  by (simp add: world_ok_def records_now_def)

lemma grows_writes: "grows w (w\<lparr>w_annot := a\<rparr>)" "grows w (w\<lparr>w_mem := b\<rparr>)"
  by (auto simp: grows_def kept_def)

lemma keeps_write:
  assumes X: "steady X" "\<And>w a. X w \<Longrightarrow> X (w\<lparr>w_annot := a\<rparr>)" "\<And>w b. X w \<Longrightarrow> X (w\<lparr>w_mem := b\<rparr>)"
    and ok: "\<And>w. \<lbrakk>world_ok w; X w\<rbrakk> \<Longrightarrow> records_ok w rs"
  shows "keeps X (write_disk_moves rs) (\<lambda>b w. X w \<and> (b \<longrightarrow> w_annot w = rs \<and> w_mem w = Some rs))"
  unfolding write_disk_moves_def
proof (rule keeps_then)
  show "keeps X (call (\<lambda>oc w. w\<lparr>w_annot := rs\<rparr>) (\<lambda>oc w. ())) (\<lambda>a w. X w \<and> (a = Inr () \<longrightarrow> w_annot w = rs))"
  proof (rule keeps_call)
    show "stable X" by (intro steady_stable X)
    fix w oc assume w: "world_ok w" "X w"
    then show "world_ok (w\<lparr>w_annot := rs\<rparr>) \<and>
       (\<forall>e. X (w\<lparr>w_annot := rs\<rparr>) \<and> (Inl e = Inr () \<longrightarrow> w_annot (w\<lparr>w_annot := rs\<rparr>) = rs)) \<and>
       X (w\<lparr>w_annot := rs\<rparr>) \<and> (Inr () = Inr () \<longrightarrow> w_annot (w\<lparr>w_annot := rs\<rparr>) = rs)"
      using world_ok_annot [OF w(1) ok [OF w]] X(2) [OF w(2)] by simp
  qed simp
  show "keeps (\<lambda>w. X w \<and> (a = Inr () \<longrightarrow> w_annot w = rs))
     (case a of Inl e \<Rightarrow> done_with False
      | Inr u \<Rightarrow> and_then (change (\<lambda>w. w\<lparr>w_mem := Some rs\<rparr>)) (\<lambda>_. done_with True))
     (\<lambda>b w. X w \<and> (b \<longrightarrow> w_annot w = rs \<and> w_mem w = Some rs))" for a
  proof (cases a)
    case (Inl e)
    then show ?thesis by (simp add: keeps_done)
  next
    case (Inr u)
    show ?thesis unfolding Inr sum.case
      by (rule keeps_then [OF keeps_change [of _ _ "\<lambda>_ w. X w \<and> w_annot w = rs \<and> w_mem w = Some rs"]])
        (use ok world_ok_mem X(3) in \<open>auto intro: keeps_done\<close>)
  qed
qed

lemma lasting_writes: "lasting X \<Longrightarrow> X w \<Longrightarrow> X (w\<lparr>w_annot := a\<rparr>) \<and> X (w\<lparr>w_mem := b\<rparr>)"
  using lastingD grows_writes by blast

lemma keeps_write_lasting:
  assumes "lasting X" "\<And>w. \<lbrakk>world_ok w; X w\<rbrakk> \<Longrightarrow> records_ok w rs"
  shows "keeps X (write_disk_moves rs) (\<lambda>b w. X w \<and> (b \<longrightarrow> w_annot w = rs \<and> w_mem w = Some rs))"
  by (rule keeps_write) (use assms lasting_steady lasting_writes in blast)+

section \<open>Retiring the source\<close>

lemma both_ok_same: "\<lbrakk>mv_state r' = mv_state r; mv_migration r' = mv_migration r; mv_from r' = mv_from r; mv_volume r' = mv_volume r\<rbrakk>
   \<Longrightarrow> both_ok w d (Some r') = both_ok w d (Some r)"
  by (simp add: both_ok_def rec_ok_def at_mig_def)

lemma switched_guest:
  assumes "both_ok w d (Some r)" "mv_state r = SWITCHED"
  shows "\<exists>m. at_mig w d r m \<and> mv_volume r = dg_copy m \<and> w_guest w d = Some (dg_copy m)"
  using assms by (auto simp: both_ok_def rec_ok_switched)

lemma switched_mig:
  assumes "both_ok w d (Some r)" "mv_state r = SWITCHED" "w_migs w (mv_migration r) = Some m"
  shows "dg_disk m = d \<and> dg_from m = mv_from r \<and> w_guest w d = Some (dg_copy m)"
  using switched_guest [OF assms(1,2)] assms(3) by (auto simp: at_mig_def)

lemma switched_away:
  assumes w: "world_ok w" and r: "both_ok w d (Some r)" "mv_state r = SWITCHED"
  shows "w_volumes w (mv_from r) = Some d \<and> w_guest w d \<noteq> Some (mv_from r)"
proof -
  obtain m where m: "at_mig w d r m" "w_guest w d = Some (dg_copy m)" using switched_guest [OF r] by blast
  then show ?thesis using w storage_mig [of w "mv_migration r" m] by (auto simp: world_ok_def at_mig_def)
qed

text \<open>The source is gone: the record may say so.\<close>
lemma moved_ok:
  assumes r: "both_ok w d (Some r)" "mv_state r = SWITCHED" "mv_from r \<in> w_deleted w" "mv_state r' = MOVED"
  shows "both_ok w d (Some r')"
proof -
  have "rec_ok w d v (Some r')" if ok: "rec_ok w d v (Some r)" for v
  proof -
    obtain m :: dmig where m: "dg_from m = mv_from r" "w_guest w d = Some (dg_copy m)"
      "\<forall>x. v = Some x \<longrightarrow> x \<notin> w_deleted w \<longrightarrow> x = dg_from m \<or> x = dg_copy m"
      using ok unfolding rec_ok_switched [OF r(2)] at_mig_def by blast
    then have "v = Some x \<longrightarrow> x \<notin> w_deleted w \<longrightarrow> w_guest w d = Some x" for x using r(3) by metis
    moreover have "\<not> move_active r'" "mv_state r' \<noteq> UNKNOWN" using r(4) by (simp_all add: move_active_def)
    ultimately show ?thesis by (simp add: rec_ok_settled)
  qed
  then show ?thesis using r(1) by (simp add: both_ok_def)
qed

lemma completed_gone:
  assumes "world_ok w" "got (mv_migration r) (Inr (Some v)) w" "dv_state v = ''completed''"
    "both_ok w d (Some r)" "mv_state r = SWITCHED"
  shows "mv_from r \<in> w_deleted w"
proof -
  obtain m where m: "w_migs w (mv_migration r) = Some m" "dg_state m = ''completed''" using assms(2,3) by (auto simp: got_def)
  then show ?thesis using switched_mig [OF assms(4,5) m(1)] storage_mig [of w _ m] assms(1) by (auto simp: world_ok_def)
qed

lemma keeps_reply:
  assumes "\<And>v. keeps (P (Inr (Some v))) (f v) R" "\<And>a. keeps (P a) g R"
  shows "keeps (P a) (case a of Inl e \<Rightarrow> g | Inr None \<Rightarrow> g | Inr (Some v) \<Rightarrow> f v) R"
proof (cases a)
  case (Inr b)
  then show ?thesis using assms(1) assms(2) [of "Inr None"] by (cases b) simp_all
qed (use assms(2) in simp)

lemma moved_now_ok:
  assumes "world_ok w" "both_ok w d (Some r)" "mv_state r = SWITCHED"
    "got (mv_migration r) (Inr (Some v)) w" "dv_state v = ''completed''"
  shows "both_ok w d (Some (moved_now r))"
  by (rule moved_ok [OF assms(2,3) completed_gone [OF assms(1,4,5,2,3)]]) (simp add: moved_now_def)

lemma both_ok_message [simp]: "both_ok w d (Some (r\<lparr>mv_message := s\<rparr>)) = both_ok w d (Some r)"
  by (rule both_ok_same) simp_all

lemma keeps_ask_retired:
  assumes X: "calming X" and r: "mv_state r = SWITCHED"
  shows "keeps (\<lambda>w. X w \<and> both_ok w d (Some r)) (ask_retired r) (\<lambda>r' w. X w \<and> both_ok w d (Some r'))"
  unfolding ask_retired_def
  by (rule keeps_then [OF keeps_get], intro calming_intros X lasting_intros, rule keeps_done)
    (auto simp: Let_def moved_now_ok r split: sum.splits option.splits)

lemma keeps_complete:
  assumes X: "calming X" and r: "mv_state r = SWITCHED"
  shows "keeps (\<lambda>w. X w \<and> both_ok w d (Some r)) (complete_source r) (\<lambda>r' w. X w \<and> both_ok w d (Some r'))"
  unfolding complete_source_def
proof (rule keeps_then)
  let ?X = "\<lambda>w. X w \<and> both_ok w d (Some r)"
  show "keeps ?X (mig_verb mig_complete (mv_migration r)) (\<lambda>b w. ?X w \<and> got (mv_migration r) b w)"
  proof (rule keeps_verb)
    show "calming ?X" by (intro calming_intros X lasting_intros)
    fix w assume w: "world_ok w" "?X w"
    show "grows w (mig_complete (mv_migration r) w) \<and> world_ok (mig_complete (mv_migration r) w)"
      by (rule mig_complete_ok [OF w(1)]) (use w switched_away [of w d r] switched_mig [of w d r] r in auto)
  qed simp
  show "keeps (\<lambda>w. ?X w \<and> got (mv_migration r) b w)
     (case b of Inl e \<Rightarrow> ask_retired r | Inr None \<Rightarrow> ask_retired r
      | Inr (Some v) \<Rightarrow> done_with (if dv_state v = ''completed'' then moved_now r else r))
     (\<lambda>r' w. X w \<and> both_ok w d (Some r'))" for b
    by (rule keeps_reply; (rule keeps_done | rule keeps_pre [OF keeps_ask_retired [OF X r]]))
      (auto simp: moved_now_ok r)
qed

lemma keeps_retire:
  assumes X: "calming X" and r: "mv_state r = SWITCHED"
  shows "keeps (\<lambda>w. X w \<and> both_ok w d (Some r)) (retire_disk_source cfg r) (\<lambda>r' w. X w \<and> both_ok w d (Some r'))"
  unfolding retire_disk_source_def
proof (intro keeps_if keeps_then)
  show "keeps (\<lambda>w. X w \<and> both_ok w d (Some r)) (detach (mv_from r)) (\<lambda>a w. X w \<and> both_ok w d (Some r))"
    by (rule keeps_detach, intro calming_intros X lasting_intros) (use switched_away r in blast)
qed (auto split: sum.split intro: keeps_done keeps_complete [OF X r])

section \<open>Giving a copy up\<close>

lemma copying_guest:
  assumes "both_ok w d (Some r)" "mv_state r = COPYING"
  shows "\<exists>m. at_mig w d r m \<and> w_guest w d = Some (dg_from m)"
  using assms unfolding both_ok_def rec_ok_copying [OF assms(2)] by blast

lemma copying_mig:
  assumes "both_ok w d (Some r)" "mv_state r = COPYING" "w_migs w (mv_migration r) = Some m"
  shows "dg_disk m = d" "dg_from m = mv_from r" "w_guest w d = Some (dg_from m)" "mv_volume r = [] \<or> mv_volume r = dg_copy m"
  using copying_guest [OF assms(1,2)] assms(3) by (auto simp: at_mig_def)

lemma copying_abort_ok:
  assumes "world_ok w" "both_ok w d (Some r)" "mv_state r = COPYING" "i = mv_migration r"
  shows "grows w (mig_abort i w) \<and> world_ok (mig_abort i w)"
proof (rule mig_abort_ok [OF assms(1)])
  fix m assume "w_migs w i = Some m"
  then have m: "w_migs w (mv_migration r) = Some m" using assms(4) by simp
  show "w_guest w (dg_disk m) \<noteq> Some (dg_copy m)"
    using copying_mig [OF assms(2,3) m] storage_mig [of w _ m] m assms(1) by (auto simp: world_ok_def)
qed

lemma failed_ok:
  assumes "both_ok w d (Some r)" "mv_state r = COPYING" "mv_state r' = FAILED"
  shows "both_ok w d (Some r')"
proof -
  have "\<not> move_active r'" "mv_state r' \<noteq> UNKNOWN" using assms(3) by (simp_all add: move_active_def)
  then show ?thesis using assms(1) unfolding both_ok_def rec_ok_copying [OF assms(2)] by (simp add: rec_ok_settled)
qed

lemma failed_with_state [simp]: "mv_state (failed_with why r) = FAILED"
  by (simp add: failed_with_def)

lemma keeps_abort:
  assumes X: "calming X" and r: "mv_state r = COPYING" "i = mv_migration r"
  shows "keeps (\<lambda>w. X w \<and> both_ok w d (Some r)) (mig_verb mig_abort i) (\<lambda>a w. X w \<and> both_ok w d (Some r))"
proof (rule keeps_post [OF keeps_verb [where X = "\<lambda>w. X w \<and> both_ok w d (Some r)"]])
  show "calming (\<lambda>w. X w \<and> both_ok w d (Some r))" by (intro calming_intros X lasting_intros)
  show "grows w (mig_abort i w) \<and> world_ok (mig_abort i w)" if "world_ok w" "X w \<and> both_ok w d (Some r)" for w
    using copying_abort_ok [OF that(1) _ r] that(2) by blast
qed simp_all

lemma keeps_undo:
  assumes X: "calming X"
  shows "keeps (\<lambda>w. X w \<and> both_ok w d (Some (r\<lparr>mv_state := COPYING\<rparr>))) (undo_disk_switch cfg r why)
    (\<lambda>r' w. X w \<and> both_ok w d (Some r'))"
  unfolding undo_disk_switch_def
proof (intro keeps_if keeps_then)
  let ?X = "\<lambda>w. X w \<and> both_ok w d (Some (r\<lparr>mv_state := COPYING\<rparr>))"
  show "keeps ?X unpause (\<lambda>u. ?X)" by (intro keeps_unpause calming_intros X lasting_intros)
  show "keeps ?X (mig_verb mig_abort (mv_migration r)) (\<lambda>a. ?X)" by (rule keeps_abort [OF X]) simp_all
qed (auto intro!: keeps_done intro: failed_ok [of _ _ "r\<lparr>mv_state := COPYING\<rparr>"])

section \<open>The switch\<close>

text \<open>The migration was cut over with the guest paused, and nothing was written since.\<close>
definition fresh :: "string \<Rightarrow> world \<Rightarrow> bool" where
  "fresh i w = (w_paused w \<and> (\<exists>m. w_migs w i = Some m \<and> dg_state m = ''cut_over'' \<and> \<not> dg_stale m))"

lemma fresh_steady: "steady (fresh i)"
  unfolding steady_def
proof (intro allI impI)
  fix w v assume v: "later_world w v" and f: "fresh i w"
  obtain m where m: "w_migs w i = Some m" "dg_state m = ''cut_over''" "\<not> dg_stale m" using f by (auto simp: fresh_def)
  obtain n where n: "w_migs v i = Some n" "later m n" using later_mig(1) [OF v m(1)] by blast
  have "\<not> dg_stale n"
    using stale_later [OF v n(1)] m f by (auto simp: fresh_def)
  then show "fresh i v" using n m f by (auto simp: fresh_def later_def later_world_fields [OF v])
qed

definition not_cut :: "string \<Rightarrow> world \<Rightarrow> bool" where
  "not_cut i w = (\<forall>m. w_migs w i = Some m \<longrightarrow> dg_state m \<noteq> ''cut_over'')"

lemma not_cut_steady: "steady (not_cut i)"
  unfolding steady_def
proof (intro allI impI)
  fix w v assume v: "later_world w v" and w: "not_cut i w"
  have "dg_state n \<noteq> ''cut_over''" if "w_migs v i = Some n" for n
    using later_mig(2) [OF v that] w by (auto simp: later_def not_cut_def)
  then show "not_cut i v" by (simp add: not_cut_def)
qed

lemma paused_steady: "steady w_paused"
  by (simp add: steady_def later_world_fields)

lemma keeps_pause_not_cut:
  "calming X \<Longrightarrow> keeps (\<lambda>w. X w \<and> not_cut i w) pause (\<lambda>a w. X w \<and> (a = Inr () \<longrightarrow> w_paused w \<and> not_cut i w))"
  unfolding pause_def by (rule keeps_calm [OF _ not_cut_steady]) (simp_all add: paused_ok not_cut_def)

lemma keeps_cutover:
  assumes X: "calming X"
  shows "keeps (\<lambda>w. X w \<and> (w_paused w \<and> not_cut i w)) (mig_verb mig_cutover i)
    (\<lambda>b w. X w \<and> (\<forall>v. b = Inr (Some v) \<longrightarrow> dv_state v = ''cut_over'' \<longrightarrow> fresh i w))"
  unfolding mig_verb_def
proof (rule keeps_calm [OF X])
  show "steady (\<lambda>w. w_paused w \<and> not_cut i w)" by (intro steady_conj paused_steady not_cut_steady)
  fix w oc
  assume w: "world_ok w" "w_paused w \<and> not_cut i w"
  have "fresh i (mig_cutover i w)" if n: "w_migs (mig_cutover i w) i = Some n" "dg_state n = ''cut_over''" for n
  proof (cases "w_migs w i")
    case None
    then show ?thesis using n by (simp add: mig_cutover_def)
  next
    case (Some m)
    have "\<not> dg_stale m" if "dg_state m = ''synced''"
      using storage_mig [of w i m] w(1) Some that by (auto simp: world_ok_def mirroring_def)
    then show ?thesis using Some n w(2) by (auto simp: mig_cutover_def fresh_def not_cut_def split: if_splits)
  qed
  then have "\<forall>v. Inr (map_option (view_of oc i) (w_migs (mig_cutover i w) i)) = Inr (Some v) \<longrightarrow>
      dv_state v = ''cut_over'' \<longrightarrow> fresh i (mig_cutover i w)"
    by (auto simp: view_of_def)
  then show "calm w (mig_cutover i w) \<and> world_ok (mig_cutover i w) \<and>
     (\<forall>v. Inr (map_option (view_of oc i) (w_migs (mig_cutover i w) i)) = Inr (Some v) \<longrightarrow>
      dv_state v = ''cut_over'' \<longrightarrow> fresh i (mig_cutover i w))"
    using mig_cutover_ok [OF w(1), of i] by (simp add: calm_def)
qed simp

text \<open>The copy is there and attached.\<close>
definition held :: "string \<Rightarrow> world \<Rightarrow> bool" where
  "held x w = (x \<notin> w_deleted w \<and> x \<notin> w_detached w)"

lemma held_steady: "steady (held x)"
  by (simp add: steady_def held_def later_world_fields)

lemma keeps_attach:
  assumes X: "calming X"
  shows "keeps (\<lambda>w. X w \<and> fresh i w) (attach x) (\<lambda>c w. X w \<and> (c = Inr True \<longrightarrow> fresh i w \<and> held x w))"
  unfolding attach_def
proof (rule keeps_calm [OF X fresh_steady])
  fix w oc assume w: "world_ok w" "fresh i w"
  let ?v = "if x \<in> w_deleted w then w else w\<lparr>w_detached := w_detached w - {x}\<rparr>"
  have "calm w ?v \<and> world_ok ?v" using w(1) attached_ok by simp
  moreover have "fresh i ?v" using w(2) by (simp add: fresh_def)
  ultimately show "calm w ?v \<and> world_ok ?v \<and> (Inr (x \<notin> w_deleted ?v) = Inr True \<longrightarrow> fresh i ?v \<and> held x ?v)"
    by (auto simp: held_def)
qed simp

lemma rec_ok_guest: "d' \<noteq> d \<Longrightarrow> rec_ok (w\<lparr>w_guest := (w_guest w)(d := g)\<rparr>) d' v ro = rec_ok w d' v ro"
  by (simp add: rec_ok_def at_mig_def cong: option.case_cong)

lemma others_ok_guest: "others_ok (w\<lparr>w_guest := (w_guest w)(d := g)\<rparr>) d rs = others_ok w d rs"
  by (auto simp: others_ok_def both_ok_def rec_ok_guest)

text \<open>The guest is put on the copy: a record \<open>switching\<close> stays true, and \<open>switched\<close> becomes it.\<close>
lemma switched_disk_ok:
  assumes w: "world_ok w" and r: "both_ok w d (Some r)" "mv_state r = COPYING" "mv_volume r \<noteq> []"
    and f: "fresh (mv_migration r) w" "held (mv_volume r) w" and q: "mv_migration q = mv_migration r" "mv_from q = mv_from r"
    "mv_volume q = mv_volume r" "mv_state q = SWITCHING \<or> mv_state q = SWITCHED"
    and v: "v = w\<lparr>w_guest := (w_guest w)(d \<mapsto> mv_volume r)\<rparr>"
  shows "both_ok v d (Some q)" "storage_ok v" "guest_safe v"
proof -
  obtain m where m: "w_migs w (mv_migration r) = Some m" "dg_state m = ''cut_over''" "\<not> dg_stale m"
    using f(1) by (auto simp: fresh_def)
  have d: "dg_disk m = d" "dg_from m = mv_from r" "w_guest w d = Some (dg_from m)" "mv_volume r = dg_copy m"
    using copying_mig [OF r(1,2) m(1)] r(3) by simp_all
  have s: "storage_ok w" "guest_safe w" using w by (simp_all add: world_ok_def)
  have views: "x = dg_from m" if "volume_of p d = Some x" "x \<notin> w_deleted w" "p = w_vm w \<or> p = w_reg w" for x p
    using r(1) that d(3) unfolding both_ok_def rec_ok_copying [OF r(2)] by auto
  have at: "at_mig v d q m" using m(1) d q by (simp add: at_mig_def v)
  have "rec_ok v d (volume_of p d) (Some q)" if p: "p = w_vm w \<or> p = w_reg w" for p
  proof (cases "mv_state q = SWITCHING")
    case True
    have "\<not> mirroring m" using m(2) by (simp add: mirroring_def)
    then show ?thesis unfolding rec_ok_switching [OF True] using views [OF _ _ p] at d q by (auto simp: v)
  next
    case False
    then have t: "mv_state q = SWITCHED" using q by blast
    then show ?thesis unfolding rec_ok_switched [OF t] using views [OF _ _ p] at d q by (auto simp: v)
  qed
  then show "both_ok v d (Some q)" by (simp add: both_ok_def v)
  show "storage_ok v"
    unfolding storage_ok_def
  proof (intro conjI allI impI)
    fix i n assume "w_migs v i = Some n"
    then show "dg_from n \<noteq> dg_copy n" "w_volumes v (dg_from n) = Some (dg_disk n)" "w_volumes v (dg_copy n) = Some (dg_disk n)"
      "dg_copy n \<noteq> []" "dg_stale n \<Longrightarrow> \<not> mirroring n" "dg_state n = ''completed'' \<Longrightarrow> dg_from n \<in> w_deleted v"
      using storage_mig [OF s(1), of i n] by (simp_all add: v)
  next
    fix i j n k assume "w_migs v i = Some n" "w_migs v j = Some k" "dg_copy n = dg_copy k"
    then show "i = j" using storage_copies [OF s(1)] by (simp add: v)
  next
    fix e x assume "volume_of (w_vm v) e = Some x \<or> volume_of (w_reg v) e = Some x \<or> w_guest v e = Some x"
    then show "w_volumes v x = Some e"
      using storage_volumes [OF s(1), of e x] storage_mig [OF s(1) m(1)] d by (auto simp: v split: if_splits)
  qed
  show "guest_safe v"
    unfolding guest_safe_def
  proof (intro allI impI conjI)
    fix e g assume g: "w_guest v e = Some g"
    show "g \<notin> w_deleted v" "g \<notin> w_detached v"
      using g s(2) f(2) by (auto simp: v guest_safe_def held_def split: if_splits)
    fix i n assume n: "w_migs v i = Some n" "dg_copy n = g"
    show "\<not> dg_stale n"
    proof (cases "e = d")
      case True
      then have "i = mv_migration r" using storage_copies [OF s(1) _ m(1), of i n] n g d by (simp add: v)
      then show ?thesis using n m by (simp add: v)
    next
      case False
      then show ?thesis using g n s(2) by (simp add: v guest_safe_def)
    qed
  qed
qed

text \<open>What holds between the write of the record and the switch, and after the switch.\<close>
definition on_record :: "string \<Rightarrow> disk_records \<Rightarrow> disk_move \<Rightarrow> world \<Rightarrow> bool" where
  "on_record d rs r w = (others_ok w d rs \<and> w_annot w = bt_insert d r rs \<and> w_mem w = Some (bt_insert d r rs))"

lemma on_record_calming: "calming (on_record d rs r)"
  unfolding on_record_def by (intro calming_intros lasting_intros)

lemma world_ok_on_record:
  "on_record d rs r w \<Longrightarrow> world_ok w \<longleftrightarrow> storage_ok w \<and> guest_safe w \<and> both_ok w d (Some r)"
  by (auto simp: world_ok_def on_record_def records_now_def records_ok_insert)

lemma keeps_switch:
  assumes s: "mv_state r = SWITCHING" "mv_volume r \<noteq> []"
  shows "keeps (\<lambda>w. (on_record d rs r w \<and> both_ok w d (Some (r\<lparr>mv_state := COPYING\<rparr>))) \<and> fresh (mv_migration r) w \<and> held (mv_volume r) w)
    (switch_disk d (mv_volume r))
    (\<lambda>a w. on_record d rs r w \<and> (a = Inr () \<longrightarrow> both_ok w d (Some (r\<lparr>mv_state := SWITCHED\<rparr>))))"
  unfolding switch_disk_def
proof (rule keeps_call)
  show "stable (\<lambda>w. (on_record d rs r w \<and> both_ok w d (Some (r\<lparr>mv_state := COPYING\<rparr>))) \<and> fresh (mv_migration r) w \<and> held (mv_volume r) w)"
    by (intro steady_stable steady_conj fresh_steady held_steady calming_steady calming_conj on_record_calming calming_intros lasting_intros)
  fix w oc assume w: "world_ok w"
    and p: "(on_record d rs r w \<and> both_ok w d (Some (r\<lparr>mv_state := COPYING\<rparr>))) \<and> fresh (mv_migration r) w \<and> held (mv_volume r) w"
  let ?v = "w\<lparr>w_guest := (w_guest w)(d \<mapsto> mv_volume r)\<rparr>"
  note ok = switched_disk_ok [OF w, of d "r\<lparr>mv_state := COPYING\<rparr>", simplified, where v = ?v]
  have rec: "on_record d rs r ?v" using p by (simp add: on_record_def others_ok_guest)
  have "both_ok ?v d (Some r)" "storage_ok ?v" "guest_safe ?v" "both_ok ?v d (Some (r\<lparr>mv_state := SWITCHED\<rparr>))"
    using ok p s by simp_all
  then show "world_ok ?v \<and> (\<forall>e. on_record d rs r ?v \<and> (Inl e = Inr () \<longrightarrow> both_ok ?v d (Some (r\<lparr>mv_state := SWITCHED\<rparr>)))) \<and>
      on_record d rs r ?v \<and> (Inr () = Inr () \<longrightarrow> both_ok ?v d (Some (r\<lparr>mv_state := SWITCHED\<rparr>)))"
    using rec world_ok_on_record [OF rec] by simp
qed simp

lemma volume_of_put_on: "volume_of (put_on d f x vm) e = (if e = d then Some x else volume_of vm e)"
  by (simp add: volume_of_def put_on_def update_conv)

lemma others_ok_put_on: "others_ok (w\<lparr>w_vm := put_on d f x (w_vm w)\<rparr>) d rs = others_ok w d rs"
  by (auto simp: others_ok_def both_ok_def volume_of_put_on)

lemma registered_ok [simp]: "both_ok w d ro \<Longrightarrow> both_ok (w\<lparr>w_reg := w_vm w\<rparr>) d ro"
  by (simp add: both_ok_def)

lemma registered_storage: "storage_ok w \<Longrightarrow> storage_ok (w\<lparr>w_reg := w_vm w\<rparr>)"
  unfolding storage_ok_def by simp

lemma keeps_put_on:
  assumes r: "mv_state r = SWITCHING"
  shows "keeps (\<lambda>w. on_record d rs r w \<and> both_ok w d (Some (r\<lparr>mv_state := SWITCHED\<rparr>)))
    (change (\<lambda>w. w\<lparr>w_vm := put_on d (mv_from r) (mv_volume r) (w_vm w)\<rparr>))
    (\<lambda>u w. on_record d rs r w \<and> both_ok w d (Some (r\<lparr>mv_state := SWITCHED\<rparr>)))"
proof (rule keeps_change)
  fix w assume w: "world_ok w" and p: "on_record d rs r w \<and> both_ok w d (Some (r\<lparr>mv_state := SWITCHED\<rparr>))"
  let ?v = "w\<lparr>w_vm := put_on d (mv_from r) (mv_volume r) (w_vm w)\<rparr>"
  have old: "storage_ok w" "guest_safe w" "both_ok w d (Some r)" using w p world_ok_on_record by blast+
  have "\<exists>m. at_mig w d (r\<lparr>mv_state := SWITCHED\<rparr>) m \<and> mv_volume r = dg_copy m \<and> w_guest w d = Some (dg_copy m)"
    using switched_guest [of w d "r\<lparr>mv_state := SWITCHED\<rparr>"] p by simp
  then obtain m where m: "at_mig w d r m" "mv_volume r = dg_copy m" "w_guest w d = Some (dg_copy m)"
    by (auto simp: at_mig_def)
  have "rec_ok w d (volume_of (w_reg w) d) (Some r)" "rec_ok w d (volume_of (w_reg w) d) (Some (r\<lparr>mv_state := SWITCHED\<rparr>))"
    using old(3) p by (simp_all add: both_ok_def)
  moreover have "rec_ok w d (Some (mv_volume r)) (Some r)"
  proof -
    have "mirroring m \<longrightarrow> w_guest w d = Some (dg_from m)"
      using old(3) m(1) unfolding both_ok_def rec_ok_switching [OF r] at_mig_def by auto
    then show ?thesis unfolding rec_ok_switching [OF r] using m by auto
  qed
  moreover have "rec_ok w d (Some (mv_volume r)) (Some (r\<lparr>mv_state := SWITCHED\<rparr>))"
    using m by (auto simp: rec_ok_switched at_mig_def)
  ultimately have both: "both_ok ?v d (Some r)" "both_ok ?v d (Some (r\<lparr>mv_state := SWITCHED\<rparr>))"
    by (simp_all add: both_ok_def volume_of_put_on)
  have rec: "on_record d rs r ?v" using p by (simp add: on_record_def others_ok_put_on)
  have "w_volumes w (mv_volume r) = Some d" using storage_volumes [OF old(1), of d "mv_volume r"] m by simp
  then have "storage_ok ?v" using old(1) unfolding storage_ok_def by (auto simp: volume_of_put_on)
  then show "world_ok ?v \<and> on_record d rs r ?v \<and> both_ok ?v d (Some (r\<lparr>mv_state := SWITCHED\<rparr>))"
    using world_ok_on_record [OF rec] rec both old by simp
qed

lemma keeps_record_disks:
  shows "keeps (\<lambda>w. on_record d rs r w \<and> both_ok w d (Some q)) record_disks
    (\<lambda>a w. on_record d rs r w \<and> both_ok w d (Some q))"
  unfolding record_disks_def
proof (rule keeps_call)
  show "stable (\<lambda>w. on_record d rs r w \<and> both_ok w d (Some q))"
    by (intro steady_stable calming_steady calming_conj on_record_calming calming_intros lasting_intros)
  fix w :: world and oc assume w: "world_ok w" and p: "on_record d rs r w \<and> both_ok w d (Some q)"
  let ?v = "w\<lparr>w_reg := w_vm w\<rparr>"
  have rec: "on_record d rs r ?v" using p by (simp add: on_record_def others_ok_def)
  have "world_ok ?v"
    using w p world_ok_on_record [OF rec] world_ok_on_record [of d rs r w] registered_storage by simp
  then show "world_ok ?v \<and> (\<forall>e::string. on_record d rs r ?v \<and> both_ok ?v d (Some q)) \<and>
     on_record d rs r ?v \<and> both_ok ?v d (Some q)"
    using p rec by simp
qed

lemma on_record_others: "calming (\<lambda>w. others_ok w d rs)"
  by (intro calming_intros lasting_intros)

lemma keeps_after_switch:
  assumes r: "mv_state r = SWITCHING"
  shows "keeps (\<lambda>w. on_record d rs r w \<and> both_ok w d (Some (r\<lparr>mv_state := SWITCHED\<rparr>))) (after_switch cfg d r)
    (\<lambda>r' w. others_ok w d rs \<and> both_ok w d (Some r'))"
  unfolding after_switch_def
proof (rule keeps_then [OF keeps_put_on [OF r]], rule keeps_then [OF keeps_record_disks], rule keeps_then)
  let ?X = "\<lambda>w. on_record d rs r w \<and> both_ok w d (Some (r\<lparr>mv_state := SWITCHED\<rparr>))"
  show "keeps ?X (unpause_tries 3) (\<lambda>b. ?X)"
    by (intro keeps_unpause_tries calming_conj on_record_calming calming_intros lasting_intros)
  fix ran
  have "keeps (\<lambda>w. others_ok w d rs \<and> both_ok w d (Some q)) (retire_disk_source cfg q) (\<lambda>r' w. others_ok w d rs \<and> both_ok w d (Some r'))"
    if "mv_state q = SWITCHED" for q
    by (rule keeps_retire [OF on_record_others that])
  then show "keeps ?X (let r = r\<lparr>mv_state := SWITCHED\<rparr> in
       retire_disk_source cfg (if ran then r else r\<lparr>mv_message := ''on the copy, but the guest would not run again''\<rparr>))
     (\<lambda>r' w. others_ok w d rs \<and> both_ok w d (Some r'))"
    unfolding Let_def by (rule keeps_pre) (auto simp: on_record_def)
qed

text \<open>What a step leaves: the other disks' records as they were, and a good one of this disk.\<close>
definition leaves :: "string \<Rightarrow> disk_records \<Rightarrow> disk_move \<Rightarrow> world \<Rightarrow> bool" where
  "leaves d rs r w = (others_ok w d rs \<and> both_ok w d (Some r))"

lemma keeps_undo_on_record:
  "keeps (\<lambda>w. on_record d rs r w \<and> both_ok w d (Some (r\<lparr>mv_state := COPYING\<rparr>))) (undo_disk_switch cfg r why) (leaves d rs)"
  by (rule keeps_pre [OF keeps_post [OF keeps_undo [OF on_record_others]]]) (auto simp: leaves_def on_record_def)

lemma keeps_do_switch:
  assumes s: "mv_state r = SWITCHING" "mv_volume r \<noteq> []"
  shows "keeps (\<lambda>w. (on_record d rs r w \<and> both_ok w d (Some (r\<lparr>mv_state := COPYING\<rparr>))) \<and> fresh (mv_migration r) w \<and> held (mv_volume r) w)
    (do_switch cfg d r) (leaves d rs)"
  unfolding do_switch_def
proof (rule keeps_then [OF keeps_switch [OF s]])
  fix a :: "string + unit"
  show "keeps (\<lambda>w. on_record d rs r w \<and> (a = Inr () \<longrightarrow> both_ok w d (Some (r\<lparr>mv_state := SWITCHED\<rparr>))))
    (case a of Inl e \<Rightarrow> and_then unpause (\<lambda>u. done_with (r\<lparr>mv_state := UNKNOWN, mv_message := ''the switch answered an error''\<rparr>))
     | Inr u \<Rightarrow> after_switch cfg d r) (leaves d rs)"
  proof (cases a)
    case (Inl e)
    have "keeps (on_record d rs r) (and_then unpause (\<lambda>u. done_with (r\<lparr>mv_state := UNKNOWN, mv_message := ''the switch answered an error''\<rparr>))) (leaves d rs)"
      by (rule keeps_then [OF keeps_unpause [OF on_record_calming]], rule keeps_done)
        (simp add: leaves_def on_record_def both_ok_def rec_ok_unknown)
    then show ?thesis using Inl by simp
  next
    case (Inr u)
    show ?thesis unfolding Inr sum.case
      by (rule keeps_pre [OF keeps_post [OF keeps_after_switch [OF s(1)]]]) (auto simp: leaves_def)
  qed
qed

lemma keeps_attach_and_switch:
  assumes s: "mv_state r = SWITCHING" "mv_volume r \<noteq> []"
  shows "keeps (\<lambda>w. (on_record d rs r w \<and> both_ok w d (Some (r\<lparr>mv_state := COPYING\<rparr>))) \<and> fresh (mv_migration r) w)
    (attach_and_switch cfg d r) (leaves d rs)"
  unfolding attach_and_switch_def
proof (rule keeps_then [OF keeps_attach])
  show "calming (\<lambda>w. on_record d rs r w \<and> both_ok w d (Some (r\<lparr>mv_state := COPYING\<rparr>)))"
    by (intro calming_conj on_record_calming calming_intros lasting_intros)
  fix c :: "string + bool"
  show "keeps (\<lambda>w. (on_record d rs r w \<and> both_ok w d (Some (r\<lparr>mv_state := COPYING\<rparr>))) \<and>
      (c = Inr True \<longrightarrow> fresh (mv_migration r) w \<and> held (mv_volume r) w))
    (if c = Inr True then do_switch cfg d r else undo_disk_switch cfg r ''the copy would not attach here'') (leaves d rs)"
    by (rule keeps_if; rule keeps_pre [OF keeps_do_switch [OF s]] keeps_pre [OF keeps_undo_on_record]) auto
qed

lemma keeps_cut_and_switch:
  assumes s: "mv_state r = SWITCHING" "mv_volume r \<noteq> []"
  shows "keeps (\<lambda>w. (on_record d rs r w \<and> both_ok w d (Some (r\<lparr>mv_state := COPYING\<rparr>))) \<and> w_paused w \<and> not_cut (mv_migration r) w)
    (cut_and_switch cfg d r) (leaves d rs)"
  unfolding cut_and_switch_def
proof (rule keeps_then [OF keeps_cutover])
  let ?X = "\<lambda>w. on_record d rs r w \<and> both_ok w d (Some (r\<lparr>mv_state := COPYING\<rparr>))"
  show "calming ?X" by (intro calming_conj on_record_calming calming_intros lasting_intros)
  fix b :: "string + dmig_view option"
  show "keeps (\<lambda>w. ?X w \<and> (\<forall>v. b = Inr (Some v) \<longrightarrow> dv_state v = ''cut_over'' \<longrightarrow> fresh (mv_migration r) w))
    (case b of Inl e \<Rightarrow> undo_disk_switch cfg r ''the cutover was refused''
     | Inr None \<Rightarrow> undo_disk_switch cfg r ''the cutover was refused''
     | Inr (Some v) \<Rightarrow> if dv_state v \<noteq> ''cut_over'' then undo_disk_switch cfg r ''the cutover left the migration''
           else attach_and_switch cfg d r) (leaves d rs)"
    by (rule keeps_reply, rule keeps_if; rule keeps_pre [OF keeps_undo_on_record] keeps_pre [OF keeps_attach_and_switch [OF s]])
      auto
qed

lemma copying_switching:
  assumes "both_ok w d (Some r)" "mv_state r = COPYING" "mv_volume r \<noteq> []"
    "mv_state q = SWITCHING" "mv_migration q = mv_migration r" "mv_from q = mv_from r" "mv_volume q = mv_volume r"
  shows "both_ok w d (Some q)"
  using assms unfolding both_ok_def rec_ok_copying [OF assms(2)] rec_ok_switching [OF assms(4)] at_mig_def by auto

lemma keeps_switch_over:
  assumes r: "mv_state r = COPYING" "mv_volume r \<noteq> []"
  shows "keeps (\<lambda>w. leaves d rs r w \<and> not_cut (mv_migration r) w) (switch_disk_over cfg rs d r) (leaves d rs)"
  unfolding switch_disk_over_def
proof (rule keeps_if, goal_cases)
  case 1
  show ?case by (rule keeps_done) simp
next
  case 2
  let ?q = "r\<lparr>mv_state := SWITCHING, mv_message := ''''\<rparr>"
  let ?X = "\<lambda>w. leaves d rs r w \<and> not_cut (mv_migration r) w"
  let ?Y = "\<lambda>w. on_record d rs ?q w \<and> both_ok w d (Some (?q\<lparr>mv_state := COPYING\<rparr>))"
  have same: "both_ok w d (Some (?q\<lparr>mv_state := COPYING\<rparr>)) = both_ok w d (Some r)"
    "both_ok w d (Some (?q\<lparr>mv_state := COPYING, mv_message := s\<rparr>)) = both_ok w d (Some r)" for w s
    by (rule both_ok_same; simp add: r)+
  have last: "lasting (leaves d rs r)" unfolding leaves_def by (intro lasting_intros)
  have put: "keeps ?X (write_disk_moves (bt_insert d ?q rs))
     (\<lambda>b w. ?X w \<and> (b \<longrightarrow> w_annot w = bt_insert d ?q rs \<and> w_mem w = Some (bt_insert d ?q rs)))"
  proof (rule keeps_write)
    show "steady ?X" by (intro steady_conj lasting_steady last not_cut_steady)
    show "?X (w\<lparr>w_annot := a\<rparr>)" if "?X w" for w a using that lasting_writes [OF last] by (simp add: not_cut_def)
    show "?X (w\<lparr>w_mem := b\<rparr>)" if "?X w" for w b using that lasting_writes [OF last] by (simp add: not_cut_def)
    show "records_ok w (bt_insert d ?q rs)" if "?X w" for w
      using that copying_switching [of w d r ?q] r by (simp add: leaves_def records_ok_insert)
  qed
  have stopped: "keeps (\<lambda>w. ?Y w \<and> (a = Inr () \<longrightarrow> w_paused w \<and> not_cut (mv_migration r) w))
     (case a of Inl e \<Rightarrow> done_with (?q\<lparr>mv_state := COPYING, mv_message := ''the guest would not pause, tried again''\<rparr>)
      | Inr u \<Rightarrow> cut_and_switch cfg d ?q) (leaves d rs)" for a :: "string + unit"
  proof (cases a)
    case (Inl e)
    show ?thesis unfolding Inl sum.case by (rule keeps_done) (simp add: leaves_def on_record_def same [simplified])
  next
    case (Inr u)
    show ?thesis unfolding Inr sum.case
      by (rule keeps_pre [OF keeps_cut_and_switch]) (use r in auto)
  qed
  have "keeps (\<lambda>w. ?Y w \<and> not_cut (mv_migration r) w) pause (\<lambda>a w. ?Y w \<and> (a = Inr () \<longrightarrow> w_paused w \<and> not_cut (mv_migration r) w))"
    by (intro keeps_pause_not_cut calming_conj on_record_calming calming_intros lasting_intros)
  note pause = keeps_then [OF this stopped]
  have written: "keeps (\<lambda>w. ?X w \<and> (b \<longrightarrow> w_annot w = bt_insert d ?q rs \<and> w_mem w = Some (bt_insert d ?q rs)))
     (if \<not> b then done_with (?q\<lparr>mv_state := COPYING\<rparr>)
      else and_then pause (\<lambda>a. case a of Inl e \<Rightarrow> done_with (?q\<lparr>mv_state := COPYING, mv_message := ''the guest would not pause, tried again''\<rparr>)
             | Inr u \<Rightarrow> cut_and_switch cfg d ?q)) (leaves d rs)" for b
    by (rule keeps_if, rule keeps_done, simp add: leaves_def same [simplified], rule keeps_pre [OF pause])
      (simp add: leaves_def on_record_def same [simplified])
  show ?case unfolding Let_def
    by (rule keeps_then [OF keeps_look [where Q = "\<lambda>x. ?X"]], assumption, rule keeps_if, rule keeps_done, simp,
      rule keeps_then [OF put written])
qed

section \<open>A move, a pass\<close>

lemma leaves_calming: "calming (leaves d rs r)"
  unfolding leaves_def by (intro calming_intros lasting_intros)

lemma leaves_failed: "\<lbrakk>leaves d rs r w; mv_state r = COPYING; mv_state r' = FAILED\<rbrakk> \<Longrightarrow> leaves d rs r' w"
  unfolding leaves_def using failed_ok by blast

lemma leaves_unknown: "\<lbrakk>leaves d rs r w; mv_state r' = UNKNOWN\<rbrakk> \<Longrightarrow> leaves d rs r' w"
  by (simp add: leaves_def both_ok_def rec_ok_unknown)

text \<open>The mirror still runs, so the guest was not switched: the record goes back to \<open>copying\<close>.\<close>
lemma switching_copying:
  assumes w: "world_ok w" and r: "both_ok w d (Some r)" "mv_state r = SWITCHING"
    and m: "w_migs w (mv_migration r) = Some m" "mirroring m" and q: "mv_state q = COPYING" "mv_migration q = mv_migration r"
    "mv_from q = mv_from r" "mv_volume q = mv_volume r"
  shows "both_ok w d (Some q)"
proof -
  have "rec_ok w d v (Some q)" if v: "rec_ok w d v (Some r)" for v
  proof -
    from v m have g: "w_guest w d = Some (dg_from m)" "at_mig w d r m" "mv_volume r = dg_copy m"
      "v = Some (dg_copy m) \<longrightarrow> w_guest w d = Some (dg_copy m)"
      "\<forall>x. v = Some x \<longrightarrow> x \<notin> w_deleted w \<longrightarrow> x = dg_from m \<or> x = dg_copy m"
      unfolding rec_ok_switching [OF r(2)] at_mig_def by auto
    have "dg_from m \<noteq> dg_copy m" using w m(1) storage_mig [of w _ m] by (simp add: world_ok_def)
    then show ?thesis unfolding rec_ok_copying [OF q(1)] using g q by (auto simp: at_mig_def)
  qed
  then show ?thesis using r(1) by (simp add: both_ok_def)
qed

lemma keeps_carry_switching:
  assumes r: "mv_state r = SWITCHING"
  shows "keeps (leaves d rs r) (carry_switching cfg r) (leaves d rs)"
  unfolding carry_switching_def
proof (rule keeps_then [OF keeps_get [OF leaves_calming]])
  fix g :: "string + dmig_view option"
  let ?q = "r\<lparr>mv_state := COPYING, mv_message := ''the switch was left before the cutover; tried again''\<rparr>"
  let ?Z = "\<lambda>w. leaves d rs r w \<and> (\<forall>v. g = Inr (Some v) \<longrightarrow> dv_state v = ''synced'' \<or> dv_state v = COPYING \<longrightarrow> leaves d rs ?q w)"
  have "keeps ?Z (if mc_machine cfg then unpause else done_with (Inr ())) (\<lambda>a. ?Z)"
  proof (rule keeps_if)
    have "calming (\<lambda>w. \<forall>v. g = Inr (Some v) \<longrightarrow> dv_state v = ''synced'' \<or> dv_state v = COPYING \<longrightarrow> leaves d rs ?q w)"
      using leaves_calming [of d rs ?q] by (auto simp: calming_def)
    then show "keeps ?Z unpause (\<lambda>a. ?Z)" by (intro keeps_unpause calming_conj leaves_calming)
  qed (simp add: keeps_done)
  then have "keeps ?Z (and_then (if mc_machine cfg then unpause else done_with (Inr ())) (\<lambda>_.
       case g of
         Inr (Some v) \<Rightarrow>
           if dv_state v = ''synced'' \<or> dv_state v = COPYING then done_with ?q
           else done_with (r\<lparr>mv_state := UNKNOWN, mv_message := ''the kubelet stopped during the switch''\<rparr>)
       | _ \<Rightarrow> done_with r)) (leaves d rs)"
  proof (rule keeps_then)
    show "keeps ?Z (case g of
         Inr (Some v) \<Rightarrow>
           if dv_state v = ''synced'' \<or> dv_state v = COPYING then done_with ?q
           else done_with (r\<lparr>mv_state := UNKNOWN, mv_message := ''the kubelet stopped during the switch''\<rparr>)
       | _ \<Rightarrow> done_with r) (leaves d rs)" for a :: "string + unit"
    proof (cases "\<exists>v. g = Inr (Some v)")
      case True
      then obtain v where g: "g = Inr (Some v)" by blast
      have "keeps ?Z (if dv_state v = ''synced'' \<or> dv_state v = COPYING then done_with ?q
           else done_with (r\<lparr>mv_state := UNKNOWN, mv_message := ''the kubelet stopped during the switch''\<rparr>)) (leaves d rs)"
      proof (intro keeps_if keeps_done)
        fix w assume "world_ok w" and z: "?Z w" and v: "dv_state v = ''synced'' \<or> dv_state v = COPYING"
        show "leaves d rs ?q w" using z v g by blast
      next
        fix w assume "world_ok w" and z: "?Z w"
        then have "leaves d rs r w" by blast
        then show "leaves d rs (r\<lparr>mv_state := UNKNOWN, mv_message := ''the kubelet stopped during the switch''\<rparr>) w"
          by (rule leaves_unknown) simp
      qed
      then show ?thesis by (simp add: g)
    next
      case False
      have "keeps ?Z (done_with r) (leaves d rs)" by (rule keeps_done) blast
      then show ?thesis using False by (simp split: sum.split option.split)
    qed
  qed
  then show "keeps (\<lambda>w. leaves d rs r w \<and> got (mv_migration r) g w)
     (and_then (if mc_machine cfg then unpause else done_with (Inr ())) (\<lambda>_.
       case g of
         Inr (Some v) \<Rightarrow>
           if dv_state v = ''synced'' \<or> dv_state v = COPYING then done_with ?q
           else done_with (r\<lparr>mv_state := UNKNOWN, mv_message := ''the kubelet stopped during the switch''\<rparr>)
       | _ \<Rightarrow> done_with r)) (leaves d rs)"
  proof (rule keeps_pre, intro conjI allI impI)
    fix w v assume w: "world_ok w" "leaves d rs r w \<and> got (mv_migration r) g w"
      and v: "g = Inr (Some v)" "dv_state v = ''synced'' \<or> dv_state v = COPYING"
    then obtain m where "w_migs w (mv_migration r) = Some m" "mirroring m" by (auto simp: got_def mirroring_def)
    then show "leaves d rs ?q w" using switching_copying [OF w(1), of d r m ?q] w(2) r by (simp add: leaves_def)
  qed simp
qed

text \<open>What the answer adds to the record of a copy.\<close>
lemma leaves_progress:
  assumes "leaves d rs r w" "mv_state r = COPYING" "got (mv_migration r) (Inr (Some v)) w"
  shows "leaves d rs (r\<lparr>mv_bytes_total := a, mv_bytes_remaining := b,
      mv_volume := (case dv_target v of Some t \<Rightarrow> t | None \<Rightarrow> mv_volume r)\<rparr>) w"
    and "dv_state v = ''synced'' \<Longrightarrow> not_cut (mv_migration r) w"
proof -
  let ?q = "r\<lparr>mv_bytes_total := a, mv_bytes_remaining := b, mv_volume := (case dv_target v of Some t \<Rightarrow> t | None \<Rightarrow> mv_volume r)\<rparr>"
  obtain m where m: "w_migs w (mv_migration r) = Some m" "dv_state v = dg_state m"
    "dv_target v = None \<or> dv_target v = Some (dg_copy m)" using assms(3) by (auto simp: got_def)
  have q: "mv_state ?q = COPYING" using assms(2) by simp
  have "rec_ok w d x (Some ?q)" if "rec_ok w d x (Some r)" for x
    using that m unfolding rec_ok_copying [OF q] rec_ok_copying [OF assms(2)] by (auto simp: at_mig_def)
  then show "leaves d rs ?q w" using assms(1) by (simp add: leaves_def both_ok_def)
  show "not_cut (mv_migration r) w" if "dv_state v = ''synced''"
  proof -
    have "dg_state m = ''synced''" using m(2) that by simp
    then show ?thesis by (simp add: not_cut_def m(1))
  qed
qed

lemma keeps_carry_copying:
  assumes r: "mv_state r = COPYING"
  shows "keeps (leaves d rs r) (carry_copying cfg rs d r) (leaves d rs)"
  unfolding carry_copying_def
proof (rule keeps_then [OF keeps_get [OF leaves_calming]])
  fix g :: "string + dmig_view option"
  show "keeps (\<lambda>w. leaves d rs r w \<and> got (mv_migration r) g w)
     (case g of
         Inl e \<Rightarrow> done_with (if contains_str e ''404'' then failed_with ''stormstorage no longer has the migration'' r else r)
       | Inr None \<Rightarrow> done_with (failed_with ''stormstorage no longer has the migration'' r)
       | Inr (Some v) \<Rightarrow>
           let r = r\<lparr>mv_bytes_total := dv_total v, mv_bytes_remaining := dv_remaining v,
                     mv_volume := (case dv_target v of Some t \<Rightarrow> t | None \<Rightarrow> mv_volume r)\<rparr>
           in if dv_state v = FAILED \<or> dv_state v = ''aborted'' then done_with (failed_with ''the copy failed'' r)
              else if dv_state v = ''synced'' \<and> mv_volume r \<noteq> [] then switch_disk_over cfg rs d r
              else if dv_state v = ''cut_over'' \<or> dv_state v = ''completed''
              then and_then (mig_verb mig_abort (mv_migration r)) (\<lambda>a.
                     done_with (failed_with (case a of Inr (Some v) \<Rightarrow> ''cut over with the guest still on the source: aborted''
                       | _ \<Rightarrow> ''cut over with the guest still on the source: the abort was refused'') r))
              else done_with r) (leaves d rs)"
  proof (cases "\<exists>v. g = Inr (Some v)")
    case False
    then show ?thesis by (auto split: sum.split option.split intro!: keeps_done intro: leaves_failed r)
  next
    case True
    then obtain v where g: "g = Inr (Some v)" by blast
    define q where "q = r\<lparr>mv_bytes_total := dv_total v, mv_bytes_remaining := dv_remaining v,
                     mv_volume := (case dv_target v of Some t \<Rightarrow> t | None \<Rightarrow> mv_volume r)\<rparr>"
    have q: "mv_state q = COPYING" "mv_migration q = mv_migration r" using r by (simp_all add: q_def)
    have pre: "keeps (\<lambda>w. leaves d rs r w \<and> got (mv_migration r) g w) c (leaves d rs)"
      if "keeps (\<lambda>w. leaves d rs q w \<and> (dv_state v = ''synced'' \<longrightarrow> not_cut (mv_migration r) w)) c (leaves d rs)" for c
      by (rule keeps_pre [OF that]) (use leaves_progress [OF _ r, of d rs _ v] g in \<open>auto simp: q_def\<close>)
    have abort: "keeps (leaves d rs q) (mig_verb mig_abort (mv_migration q)) (\<lambda>a. leaves d rs q)"
      unfolding leaves_def by (rule keeps_abort [OF on_record_others q(1)]) simp
    show ?thesis unfolding g sum.case option.case Let_def q_def [symmetric]
    proof (rule pre [unfolded g], intro keeps_if, goal_cases)
      case 1
      show ?case by (rule keeps_done) (auto intro: leaves_failed q)
    next
      case 2
      then show ?case using keeps_pre [OF keeps_switch_over [OF q(1), of d rs cfg]] q(2) by auto
    next
      case 3
      show ?case by (rule keeps_pre [OF keeps_then [OF abort keeps_done]]) (auto intro: leaves_failed q)
    next
      case 4
      show ?case by (rule keeps_done) simp
    qed
  qed
qed

text \<open>The record says \<open>switching\<close> and the machine is on the copy: the switch went through.\<close>
lemma switching_switched:
  assumes r: "both_ok w d (Some r)" "mv_state r = SWITCHING" "mv_volume r \<noteq> []" "volume_of (w_vm w) d = Some (mv_volume r)"
    and q: "mv_state q = SWITCHED" "mv_migration q = mv_migration r" "mv_from q = mv_from r" "mv_volume q = mv_volume r"
  shows "both_ok w d (Some q)"
proof -
  obtain m where m: "at_mig w d r m" "mv_volume r = dg_copy m"
    using r(1) unfolding both_ok_def rec_ok_switching [OF r(2)] by blast
  have g: "w_guest w d = Some (dg_copy m)"
    using r(1,4) m unfolding both_ok_def rec_ok_switching [OF r(2)] at_mig_def by auto
  have "rec_ok w d v (Some q)" if v: "rec_ok w d v (Some r)" for v
    using v m g q unfolding rec_ok_switching [OF r(2)] rec_ok_switched [OF q(1)] at_mig_def by auto
  then show ?thesis using r(1) by (simp add: both_ok_def)
qed

lemma copying_not_on_copy:
  assumes "both_ok w d (Some r)" "mv_state r = COPYING" "mv_volume r \<noteq> []"
  shows "volume_of (w_vm w) d \<noteq> Some (mv_volume r)"
  using assms unfolding both_ok_def rec_ok_copying [OF assms(2)] at_mig_def by auto

lemma keeps_carry:
  assumes r: "move_active r"
  shows "keeps (leaves d rs r) (carry_disk_move cfg rs d r) (leaves d rs)"
  unfolding carry_disk_move_def
proof (rule keeps_if)
  show "keeps (leaves d rs r) (done_with (r\<lparr>mv_message := ''this node has no stormstorage any more''\<rparr>)) (leaves d rs)"
    by (rule keeps_done) (simp add: leaves_def)
  let ?on = "\<lambda>w. mv_volume r \<noteq> [] \<and> volume_of (w_vm w) d = Some (mv_volume r)"
  have retire: "keeps (leaves d rs (r\<lparr>mv_state := SWITCHED\<rparr>)) (retire_disk_source cfg (r\<lparr>mv_state := SWITCHED\<rparr>)) (leaves d rs)"
    by (rule keeps_pre [OF keeps_post [OF keeps_retire [OF on_record_others]]]) (simp_all add: leaves_def)
  show "keeps (leaves d rs r) (and_then (look ?on) (\<lambda>on_copy.
        if mv_state r = SWITCHING \<and> \<not> on_copy then carry_switching cfg r
        else if on_copy \<or> mv_state r = SWITCHED then retire_disk_source cfg (r\<lparr>mv_state := SWITCHED\<rparr>)
        else carry_copying cfg rs d r)) (leaves d rs)"
  proof (rule keeps_then [OF keeps_look [where Q = "\<lambda>b w. leaves d rs r w \<and> b = ?on w"]])
    fix on_copy
    show "keeps (\<lambda>w. leaves d rs r w \<and> on_copy = ?on w)
       (if mv_state r = SWITCHING \<and> \<not> on_copy then carry_switching cfg r
        else if on_copy \<or> mv_state r = SWITCHED then retire_disk_source cfg (r\<lparr>mv_state := SWITCHED\<rparr>)
        else carry_copying cfg rs d r) (leaves d rs)"
    proof (intro keeps_if, goal_cases)
      case 1
      then have s: "mv_state r = SWITCHING" by simp
      show ?case by (rule keeps_pre [OF keeps_carry_switching [OF s]]) simp
    next
      case 2
      show ?case
      proof (rule keeps_pre [OF retire])
        fix w assume w: "leaves d rs r w \<and> on_copy = ?on w"
        have "both_ok w d (Some (r\<lparr>mv_state := SWITCHED\<rparr>))"
        proof (cases "mv_state r = SWITCHED")
          case True
          then show ?thesis using w both_ok_same [of "r\<lparr>mv_state := SWITCHED\<rparr>" r w d] by (simp add: leaves_def)
        next
          case False
          then have on: "?on w" using 2 w by blast
          then have "mv_state r = SWITCHING"
            using False r w copying_not_on_copy [of w d r] by (auto simp: move_active_def leaves_def)
          then show ?thesis using switching_switched [of w d r "r\<lparr>mv_state := SWITCHED\<rparr>"] w on by (simp add: leaves_def)
        qed
        then show "leaves d rs (r\<lparr>mv_state := SWITCHED\<rparr>) w" using w by (simp add: leaves_def)
      qed
    next
      case 3
      then have s: "mv_state r = COPYING" using r by (auto simp: move_active_def)
      show ?case by (rule keeps_pre [OF keeps_carry_copying [OF s]]) simp
    qed
  qed simp
qed

lemma keeps_cancel:
  assumes r: "mv_state r = COPYING"
  shows "keeps (leaves d rs r) (cancel_disk_move cfg r) (leaves d rs)"
  unfolding cancel_disk_move_def
proof (intro keeps_if keeps_then)
  show "keeps (leaves d rs r) (mig_verb mig_abort (mv_migration r)) (\<lambda>a. leaves d rs r)"
    unfolding leaves_def by (rule keeps_abort [OF on_record_others r]) simp
  show "keeps (leaves d rs r)
     (case a of Inr (Some v) \<Rightarrow> done_with (failed_with ''cancelled: the request no longer names this node'' r)
      | _ \<Rightarrow> done_with r) (leaves d rs)" for a :: "string + dmig_view option"
    by (rule keeps_reply; rule keeps_done) (simp_all add: leaves_failed [OF _ r])
qed (simp add: keeps_done)

section \<open>Starting\<close>

definition settled :: "disk_move option \<Rightarrow> bool" where
  "settled ro = (ro = None \<or> (\<exists>r. ro = Some r \<and> \<not> move_active r \<and> mv_state r \<noteq> UNKNOWN))"

lemma settled_iff: "settled ro \<Longrightarrow> both_ok w d ro \<longleftrightarrow>
   (\<forall>x. volume_of (w_vm w) d = Some x \<or> volume_of (w_reg w) d = Some x \<longrightarrow> x \<notin> w_deleted w \<longrightarrow> w_guest w d = Some x)"
  unfolding both_ok_def settled_def by (auto simp: rec_ok_settled)

lemma settled_failed: "mv_state r = FAILED \<Longrightarrow> settled (Some r)"
  by (simp add: settled_def move_active_def)

text \<open>A migration the storage service starts.\<close>
definition started :: "string \<Rightarrow> string \<Rightarrow> string \<Rightarrow> string \<Rightarrow> world \<Rightarrow> world" where
  "started i c disk x w =
     w\<lparr>w_migs := (w_migs w)(i \<mapsto> \<lparr>dg_from = x, dg_copy = c, dg_disk = disk, dg_state = COPYING, dg_stale = False\<rparr>),
       w_volumes := (w_volumes w)(c \<mapsto> disk)\<rparr>"

lemma started_fields [simp]:
  "w_annot (started i c d x w) = w_annot w" "w_mem (started i c d x w) = w_mem w" "w_vm (started i c d x w) = w_vm w"
  "w_reg (started i c d x w) = w_reg w" "w_guest (started i c d x w) = w_guest w" "w_paused (started i c d x w) = w_paused w"
  "w_deleted (started i c d x w) = w_deleted w" "w_detached (started i c d x w) = w_detached w"
  "w_volumes (started i c d x w) = (w_volumes w)(c \<mapsto> d)"
  "w_migs (started i c d x w) = (w_migs w)(i \<mapsto> \<lparr>dg_from = x, dg_copy = c, dg_disk = d, dg_state = COPYING, dg_stale = False\<rparr>)"
  by (simp_all add: started_def)

lemma started_storage:
  assumes w: "storage_ok w" and x: "w_volumes w x = Some d" and new: "w_migs w i = None" "w_volumes w c = None" "c \<noteq> []"
  shows "storage_ok (started i c d x w)"
  unfolding storage_ok_def
proof (intro conjI allI impI)
  fix j m assume j: "w_migs (started i c d x w) j = Some m"
  show "dg_from m \<noteq> dg_copy m" "w_volumes (started i c d x w) (dg_from m) = Some (dg_disk m)"
    "w_volumes (started i c d x w) (dg_copy m) = Some (dg_disk m)" "dg_copy m \<noteq> []" "dg_stale m \<Longrightarrow> \<not> mirroring m"
    "dg_state m = ''completed'' \<Longrightarrow> dg_from m \<in> w_deleted (started i c d x w)"
    using storage_mig [OF w, of j m] j x new by (auto split: if_splits)
next
  fix j k m n assume j: "w_migs (started i c d x w) j = Some m" "w_migs (started i c d x w) k = Some n" "dg_copy m = dg_copy n"
  have old: "dg_copy p \<noteq> c" if "w_migs w l = Some p" for l p using storage_mig [OF w that] new(2) by auto
  show "j = k"
    using j old [of j m] old [of k n] storage_copies [OF w, of j m k n] by (cases "j = i"; cases "k = i") auto
next
  fix e y assume "volume_of (w_vm (started i c d x w)) e = Some y \<or> volume_of (w_reg (started i c d x w)) e = Some y \<or>
    w_guest (started i c d x w) e = Some y"
  then have "w_volumes w y = Some e" using storage_volumes [OF w] by simp
  then show "w_volumes (started i c d x w) y = Some e" using new(2) by auto
qed

lemma started_guest:
  assumes "guest_safe w" "storage_ok w" "w_volumes w c = None"
  shows "guest_safe (started i c d x w)"
  unfolding guest_safe_def
proof (intro allI impI conjI)
  fix e g assume g: "w_guest (started i c d x w) e = Some g"
  show "g \<notin> w_deleted (started i c d x w)" "g \<notin> w_detached (started i c d x w)"
    using assms(1) g by (simp_all add: guest_safe_def)
  show "\<not> dg_stale m" if "w_migs (started i c d x w) j = Some m" "dg_copy m = g" for j m
    using assms(1) g that by (auto simp: guest_safe_def split: if_splits)
qed

lemma started_grows: "w_migs w i = None \<Longrightarrow> grows w (started i c d x w)"
  by (auto simp: grows_def kept_def)

lemma started_ok:
  assumes "world_ok w" "w_volumes w x = Some d" "w_migs w i = None" "w_volumes w c = None" "c \<noteq> []"
  shows "calm w (started i c d x w) \<and> world_ok (started i c d x w)"
  by (rule calm_ok) (use assms started_storage started_guest started_grows in \<open>auto simp: world_ok_def calm_def\<close>)

end
