(* ===== verification/DiskProps.thy ===== *)
theory DiskProps
  imports DiskPasses
begin

text \<open>Whole passes over a machine's disks, restarts between and inside them, and the properties
  of the moves: the disk the guest is on is safe throughout, an uncertain move is never acted on,
  and a guest left paused by a stopped kubelet stays paused.\<close>

section \<open>A move begun\<close>

definition begun :: "string \<Rightarrow> string \<Rightarrow> dmig_view \<Rightarrow> world \<Rightarrow> bool" where
  "begun d x v w =
     (x \<notin> w_deleted w \<and> (\<exists>m. w_migs w (dv_id v) = Some m \<and> dg_from m = x \<and> dg_disk m = d \<and>
        (dv_target v = None \<or> dv_target v = Some (dg_copy m)) \<and>
        volume_of (w_vm w) d \<noteq> Some (dg_copy m) \<and> volume_of (w_reg w) d \<noteq> Some (dg_copy m)))"

lemma keeps_mig_start:
  assumes X: "calming X" and x: "\<And>w. \<lbrakk>world_ok w; X w\<rbrakk> \<Longrightarrow> w_volumes w x = Some d"
  shows "keeps X (mig_start d x) (\<lambda>a w. X w \<and> (\<forall>v. a = Inr v \<longrightarrow> begun d x v w))"
  unfolding keeps_def
proof (intro allI impI)
  fix w os assume w: "world_ok w" "X w"
  show "case mig_start d x (w, os) of
     (Some a, w', os') \<Rightarrow> world_ok w' \<and> X w' \<and> (\<forall>v. a = Inr v \<longrightarrow> begun d x v w') | (None, w', os') \<Rightarrow> world_ok w'"
  proof (cases os)
    case Nil
    then show ?thesis using w by (simp add: mig_start_def)
  next
    case (Cons oc os')
    define u where "u = meanwhile oc w"
    have u: "world_ok u" "X u"
      using steady_stable [OF calming_steady [OF X]] w unfolding stable_def u_def by blast+
    let ?m = "\<lparr>dg_from = x, dg_copy = oc_copy oc, dg_disk = d, dg_state = COPYING, dg_stale = False\<rparr>"
    let ?no = "x \<in> w_deleted u \<or> w_migs u (oc_id oc) \<noteq> None \<or> oc_id oc = [] \<or> w_volumes u (oc_copy oc) \<noteq> None \<or>
       oc_copy oc = [] \<or> \<not> (oc_does oc \<or> oc_ok oc)"
    show ?thesis
    proof (cases ?no)
      case True
      then have "mig_start d x (w, os) = (Some (Inl (oc_error oc)), u, os')"
        unfolding mig_start_def Cons u_def by (simp add: Let_def)
      then show ?thesis using u by simp
    next
      case False
      let ?v = "started (oc_id oc) (oc_copy oc) d x u"
      have e: "mig_start d x (w, os) = (Some (if oc_ok oc then Inr (view_of oc (oc_id oc) ?m) else Inl (oc_error oc)), ?v, os')"
        using False unfolding mig_start_def Cons u_def by (auto simp: Let_def started_def)
      have ok: "calm u ?v \<and> world_ok ?v" using started_ok [OF u(1) x [OF u]] False by blast
      have "volume_of p d \<noteq> Some (oc_copy oc)" if "p = w_vm u \<or> p = w_reg u" for p
        using storage_volumes [of u d "oc_copy oc"] u(1) False that by (auto simp: world_ok_def)
      then have "begun d x (view_of oc (oc_id oc) ?m) ?v" using False by (simp add: begun_def view_of_def)
      then show ?thesis using ok calmingD [OF X u(2)] by (simp add: e)
    qed
  qed
qed

lemma calming_vm: "calming (\<lambda>w. w_vm w = p)"
  by (simp add: calming_def calm_def grows_def)

text \<open>The record of a mirror just started.\<close>
lemma begun_copying:
  assumes ro: "settled ro" "both_ok w d ro" "volume_of (w_vm w) d = Some x" and v: "begun d x v w"
    and r: "mv_state r = COPYING" "mv_migration r = dv_id v" "mv_from r = x"
    "mv_volume r = (case dv_target v of Some t \<Rightarrow> t | None \<Rightarrow> '''')"
  shows "both_ok w d (Some r)"
proof -
  obtain m where m: "x \<notin> w_deleted w" "w_migs w (dv_id v) = Some m" "dg_from m = x" "dg_disk m = d"
    "dv_target v = None \<or> dv_target v = Some (dg_copy m)" "volume_of (w_vm w) d \<noteq> Some (dg_copy m)"
    "volume_of (w_reg w) d \<noteq> Some (dg_copy m)" using v by (auto simp: begun_def)
  have views: "\<forall>y. volume_of (w_vm w) d = Some y \<or> volume_of (w_reg w) d = Some y \<longrightarrow> y \<notin> w_deleted w \<longrightarrow> w_guest w d = Some y"
    using settled_iff [OF ro(1)] ro(2) by blast
  have "at_mig w d r m" "w_guest w d = Some (dg_from m)" using m r ro(3) views by (auto simp: at_mig_def)
  then show ?thesis unfolding both_ok_def rec_ok_copying [OF r(1)] using m views by auto
qed

lemma leaves_settled: "\<lbrakk>settled ro; both_ok w d ro; others_ok w d rs; mv_state r = FAILED\<rbrakk> \<Longrightarrow> leaves d rs r w"
  unfolding leaves_def using settled_iff [of ro] settled_iff [OF settled_failed] by blast

lemma leaves_not_started: "\<lbrakk>settled ro; others_ok w d rs \<and> both_ok w d ro\<rbrakk> \<Longrightarrow> leaves d rs (failed_with why r) w"
  using leaves_settled [of ro w d rs "failed_with why r"] by simp

lemma keeps_start_mirror:
  assumes ro: "settled ro" and r: "mv_from r = x" "mv_volume r = ''''"
  shows "keeps (\<lambda>w. (others_ok w d rs \<and> both_ok w d ro) \<and> volume_of (w_vm w) d = Some x) (start_mirror d r) (leaves d rs)"
  unfolding start_mirror_def
proof (rule keeps_then [OF keeps_mig_start])
  let ?X = "\<lambda>w. (others_ok w d rs \<and> both_ok w d ro) \<and> volume_of (w_vm w) d = Some x"
  have "calming (\<lambda>w. volume_of (w_vm w) d = Some x)" by (simp add: calming_def calm_def grows_def)
  then show "calming ?X" by (intro calming_conj) (intro calming_intros lasting_intros)+
  show "w_volumes w (mv_from r) = Some d" if "world_ok w" "?X w" for w
    using storage_volumes [of w d x] that r by (auto simp: world_ok_def)
  fix a :: "string + dmig_view"
  show "keeps (\<lambda>w. ?X w \<and> (\<forall>v. a = Inr v \<longrightarrow> begun d (mv_from r) v w))
     (case a of
        Inl e \<Rightarrow> done_with (failed_with e r)
      | Inr v \<Rightarrow> done_with (r\<lparr>mv_migration := dv_id v, mv_state := COPYING,
          mv_volume := (case dv_target v of Some t \<Rightarrow> t | None \<Rightarrow> ''''),
          mv_bytes_total := dv_total v, mv_bytes_remaining := dv_remaining v\<rparr>)) (leaves d rs)"
  proof (cases a)
    case (Inl e)
    show ?thesis unfolding Inl sum.case by (rule keeps_done) (use leaves_not_started [OF ro] in blast)
  next
    case (Inr v)
    show ?thesis unfolding Inr sum.case
    proof (rule keeps_done)
      fix w assume w: "?X w \<and> (\<forall>u. Inr v = (Inr u :: string + dmig_view) \<longrightarrow> begun d (mv_from r) u w)"
      show "leaves d rs (r\<lparr>mv_migration := dv_id v, mv_state := COPYING,
          mv_volume := (case dv_target v of Some t \<Rightarrow> t | None \<Rightarrow> ''''),
          mv_bytes_total := dv_total v, mv_bytes_remaining := dv_remaining v\<rparr>) w"
        unfolding leaves_def
        by (rule conjI, use w in blast, rule begun_copying [OF ro, where x = x and v = v]) (use w r in auto)
    qed
  qed
qed

lemma keeps_start:
  assumes ro: "settled ro"
  shows "keeps (\<lambda>w. others_ok w d rs \<and> both_ok w d ro) (start_disk_move cfg d to ro) (leaves d rs)"
  unfolding start_disk_move_def
proof (rule keeps_then [OF keeps_look [where Q = "\<lambda>vm w. (others_ok w d rs \<and> both_ok w d ro) \<and> w_vm w = vm"]])
  fix vm
  let ?X = "\<lambda>w. (others_ok w d rs \<and> both_ok w d ro) \<and> w_vm w = vm"
  let ?r = "new_move cfg to ro (volume_of vm d)"
  have failed: "keeps ?X (done_with (failed_with why ?r)) (leaves d rs)" for why
    by (rule keeps_done) (use leaves_not_started [OF ro] in blast)
  have go: "keeps ?X (start_mirror d ?r) (leaves d rs)" if own: "\<not> refusal_of (\<lambda>k. mc_cloud_hypervisor cfg) d '''' (volume_of vm d)
      (case volume_of vm d of Some v \<Rightarrow> v \<in> set (md_owned vm) | None \<Rightarrow> False) (mc_seed cfg d) (mc_migrating cfg) \<noteq> None"
  proof -
    obtain x where x: "volume_of vm d = Some x" using own by (auto simp: refusal_of_def split: if_splits)
    show ?thesis by (rule keeps_pre [OF keeps_start_mirror [OF ro, of _ x]]) (use x in \<open>auto simp: new_move_def\<close>)
  qed
  show "keeps ?X
     (let volume = volume_of vm d; r = new_move cfg to ro volume
       in if map_of (md_volumes vm) d = None then done_with (failed_with ''the machine has no such disk'' r)
          else if refusal_of (\<lambda>k. mc_cloud_hypervisor cfg) d '''' volume
                 (case volume of Some v \<Rightarrow> v \<in> set (md_owned vm) | None \<Rightarrow> False) (mc_seed cfg d) (mc_migrating cfg) \<noteq> None
          then done_with (failed_with ''refused'' r)
          else if \<not> mc_storage cfg then done_with (failed_with ''this node has no stormstorage (--stormstorage)'' r)
          else start_mirror d r) (leaves d rs)"
    unfolding Let_def by (intro keeps_if failed go)
qed simp

section \<open>Passes\<close>

lemma leaves_insert: "leaves d rs r w \<Longrightarrow> records_ok w (bt_insert d r rs)"
  by (simp add: leaves_def records_ok_insert)

lemma map_of_without: "map_of (filter (\<lambda>(k, r). k \<noteq> d) rs) = (map_of rs)(d := None)"
  by (induction rs) (auto simp: fun_eq_iff)

text \<open>What the step decided says of the record.\<close>
lemma decided:
  "move_step want ro here = Forget \<Longrightarrow> settled ro"
  "move_step want ro here = Start to \<Longrightarrow> settled ro"
  "move_step want ro here = Cancel \<Longrightarrow> \<exists>r. ro = Some r \<and> mv_state r = COPYING"
  "move_step want ro here = Continue \<Longrightarrow> \<exists>r. ro = Some r \<and> move_active r"
  by (cases ro; auto simp: move_step_def settled_def move_active_def split: if_splits option.splits)+

lemma keeps_visit: "keeps (\<lambda>w. records_ok w rs) (visit_disk cfg wanted d rs) (\<lambda>rs' w. records_ok w rs')"
proof -
  let ?ro = "map_of rs d"
  let ?X = "\<lambda>w. others_ok w d rs \<and> both_ok w d ?ro"
  have split: "(\<lambda>w. records_ok w rs) = ?X" by (auto simp: records_ok_split [of _ rs d])
  have insert: "keeps ?X (and_then c (\<lambda>r. done_with (bt_insert d r rs))) (\<lambda>rs' w. records_ok w rs')"
    if "keeps ?X c (leaves d rs)" for c
    by (rule keeps_then [OF that], rule keeps_done) (rule leaves_insert)
  show ?thesis
  proof (cases "move_step (map_of wanted d) ?ro (mc_here cfg)")
    case Nothing
    then show ?thesis unfolding visit_disk_def by (simp add: keeps_done)
  next
    case Forget
    note s = decided(1) [OF Forget]
    have "records_ok w (filter (\<lambda>(k, r). k \<noteq> d) rs)" if x: "?X w" for w
    proof -
      have "both_ok w d None" using x settled_iff [OF s] settled_iff [of None w d] by (simp add: settled_def)
      then show ?thesis using x by (auto simp: records_ok_both others_ok_def map_of_without)
    qed
    then show ?thesis unfolding visit_disk_def split by (simp add: Forget keeps_done)
  next
    case (Start to)
    show ?thesis unfolding visit_disk_def split Start move_step.case
      by (rule insert [OF keeps_start [OF decided(2) [OF Start]]])
  next
    case Cancel
    obtain r where r: "?ro = Some r" "mv_state r = COPYING" using decided(3) [OF Cancel] by blast
    have "keeps ?X (cancel_disk_move cfg r) (leaves d rs)"
      by (rule keeps_pre [OF keeps_cancel [OF r(2)]]) (simp add: leaves_def r)
    moreover have "move_step (map_of wanted d) (Some r) (mc_here cfg) = Cancel" using Cancel r by simp
    ultimately show ?thesis unfolding visit_disk_def split using insert r by simp
  next
    case Continue
    obtain r where r: "?ro = Some r" "move_active r" using decided(4) [OF Continue] by blast
    have "keeps ?X (carry_disk_move cfg rs d r) (leaves d rs)"
      by (rule keeps_pre [OF keeps_carry [OF r(2)]]) (simp add: leaves_def r)
    moreover have "move_step (map_of wanted d) (Some r) (mc_here cfg) = Continue" using Continue r by simp
    ultimately show ?thesis unfolding visit_disk_def split using insert r by simp
  qed
qed

lemma keeps_visits: "keeps (\<lambda>w. records_ok w rs) (visit_disks cfg wanted ds rs) (\<lambda>rs' w. records_ok w rs')"
proof (induction ds arbitrary: rs)
  case (Cons d ds)
  show ?case unfolding visit_disks.simps by (rule keeps_then [OF keeps_visit Cons])
qed (simp add: keeps_done)

lemma keeps_moves: "keeps (\<lambda>w. True) (move_disks cfg request) (\<lambda>b w. True)"
proof (cases request)
  case None
  then show ?thesis by (simp add: move_disks_def keeps_done)
next
  case (Some wanted)
  have put: "keeps (\<lambda>w. records_ok w rs) (if rs \<noteq> recs then write_disk_moves rs else done_with True) (\<lambda>b w. True)" for rs recs
    by (intro keeps_if keeps_done keeps_post [OF keeps_write_lasting] lasting_intros) auto
  have look: "keeps (\<lambda>w. True) disk_move_records (\<lambda>recs w. records_ok w recs)"
    unfolding disk_move_records_def by (rule keeps_look) (simp add: world_ok_def records_now_def)
  have end_ok: "keeps (\<lambda>w. P w) (done_with b) (\<lambda>b w. True)" for P and b :: bool by (simp add: keeps_done)
  show ?thesis unfolding move_disks_def Some option.case
    by (intro keeps_then [OF look] keeps_if end_ok keeps_then [OF keeps_visits] keeps_then [OF put])
qed

lemma keeps_abort_each: "keeps (\<lambda>w. records_ok w rs) (abort_each rs ds) (\<lambda>u w. True)"
proof (induction ds)
  case (Cons d ds)
  have "keeps (\<lambda>w. records_ok w rs) (mig_verb mig_abort (mv_migration r)) (\<lambda>a w. records_ok w rs)"
    if r: "map_of rs d = Some r" "mv_state r = COPYING" for r
    by (rule keeps_pre [OF keeps_post [OF keeps_abort [OF on_record_others r(2)]]])
      (auto simp: records_ok_split [of _ rs d] r(1))
  then show ?case using Cons by (auto intro: keeps_then split: option.split)
qed (simp add: keeps_done)

lemma keeps_abort_moves: "keeps (\<lambda>w. True) (abort_disk_moves cfg) (\<lambda>u w. True)"
proof -
  have look: "keeps (\<lambda>w. True) disk_move_records (\<lambda>rs w. records_ok w rs)"
    unfolding disk_move_records_def by (rule keeps_look) (simp add: world_ok_def records_now_def)
  show ?thesis unfolding abort_disk_moves_def
    by (intro keeps_if keeps_done keeps_then [OF look keeps_abort_each]) simp
qed

lemma restart_ok: "world_ok w \<Longrightarrow> world_ok (restart w)"
proof -
  assume w: "world_ok w"
  have r: "records_ok (restart w) (w_annot w)"
    using w unfolding world_ok_def records_ok_def restart_def by simp
  have "storage_ok (restart w)" using w unfolding world_ok_def storage_ok_def restart_def by simp
  moreover have "guest_safe (restart w)" using w by (simp add: world_ok_def restart_def)
  ultimately show ?thesis using r by (simp add: world_ok_def restart_def records_now_def)
qed

lemma disk_step_ok: "\<lbrakk>world_ok w; disk_step w v\<rbrakk> \<Longrightarrow> world_ok v"
proof -
  assume w: "world_ok w"
  assume "disk_step w v"
  then show ?thesis
  proof cases
    case (pass_done cfg request os b os')
    then show ?thesis using keeps_result [OF keeps_moves w] by blast
  next
    case (pass_cut_short cfg request os w' os')
    then show ?thesis using keeps_stopped [OF keeps_moves w] restart_ok by blast
  next
    case (vmi_deleted cfg os r w' os')
    then have "world_ok w'" using keeps_result [OF keeps_abort_moves w] keeps_stopped [OF keeps_abort_moves w] by (cases r) auto
    then show ?thesis unfolding vmi_deleted(1) by (simp add: world_ok_def records_now_def)
  next
    case stopped
    then show ?thesis using restart_ok [OF w] by simp
  next
    case (time_passes oc)
    then show ?thesis using steady_stable [OF steady_True] w by (simp add: stable_def)
  qed
qed

section \<open>From a machine as it booted\<close>

text \<open>A machine whose disks have a volume each (or none), no two the same.\<close>
definition own_volumes :: "(string \<times> string option) list \<Rightarrow> bool" where
  "own_volumes disks = (distinct (map fst disks) \<and> distinct (List.map_filter snd disks))"

definition booted :: "(string \<times> string option) list \<Rightarrow> string list \<Rightarrow> world" where
  "booted disks owned =
     \<lparr>w_annot = [], w_mem = None, w_vm = \<lparr>md_volumes = disks, md_owned = owned\<rparr>, w_reg = \<lparr>md_volumes = disks, md_owned = owned\<rparr>,
      w_guest = volume_of \<lparr>md_volumes = disks, md_owned = owned\<rparr>, w_paused = False, w_migs = (\<lambda>i. None),
      w_volumes = map_of (List.map_filter (\<lambda>(d, v). map_option (\<lambda>x. (x, d)) v) disks),
      w_deleted = {}, w_detached = {}\<rparr>"

lemma volumes_of_disks:
  assumes "own_volumes disks" "map_of disks d = Some (Some x)"
  shows "map_of (List.map_filter (\<lambda>(d, v). map_option (\<lambda>x. (x, d)) v) disks) x = Some d"
proof -
  have "(d, Some x) \<in> set disks" using assms(2) by (rule map_of_SomeD)
  then show ?thesis using assms(1) unfolding own_volumes_def
  proof (induction disks)
    case (Cons p disks)
    obtain e v where p: "p = (e, v)" by (cases p)
    show ?case
    proof (cases v)
      case None
      then show ?thesis using Cons p by (auto simp: List.map_filter_simps)
    next
      case (Some y)
      have "y \<noteq> x" if "(d, Some x) \<in> set disks"
      proof -
        have "x \<in> set (List.map_filter snd disks)" using that by (force simp: List.map_filter_def)
        then show ?thesis using Cons.prems p Some by (auto simp: List.map_filter_simps)
      qed
      then show ?thesis using Cons p Some by (auto simp: List.map_filter_simps)
    qed
  qed simp
qed

lemma booted_ok:
  assumes "own_volumes disks"
  shows "world_ok (booted disks owned)"
proof -
  let ?vm = "\<lparr>md_volumes = disks, md_owned = owned\<rparr>"
  have "w_volumes (booted disks owned) x = Some d" if "volume_of ?vm d = Some x" for d x
  proof -
    have "map_of disks d = Some (Some x)" using that by (auto simp: volume_of_def split: option.splits)
    then show ?thesis using volumes_of_disks [OF assms] by (simp add: booted_def)
  qed
  then have "storage_ok (booted disks owned)" by (simp add: storage_ok_def booted_def)
  moreover have "guest_safe (booted disks owned)" by (simp add: guest_safe_def booted_def)
  moreover have "records_ok (booted disks owned) []" by (simp add: records_ok_def rec_ok_def booted_def)
  ultimately show ?thesis by (simp add: world_ok_def records_now_def booted_def)
qed

interpretation moves: inv_system disk_step "booted disks owned" "\<lambda>w. own_volumes disks \<longrightarrow> world_ok w" for disks owned
  by unfold_locales (use booted_ok disk_step_ok in blast)+

section \<open>A machine left paused\<close>

text \<open>Calls that change neither the records nor what is known of the machine, nor whether it runs.\<close>
definition unmoved :: "world \<Rightarrow> world \<Rightarrow> bool" where
  "unmoved w v = (w_annot v = w_annot w \<and> w_mem v = w_mem w \<and> w_vm v = w_vm w \<and> w_reg v = w_reg w \<and> w_paused v = w_paused w)"

definition quiet :: "'a calls \<Rightarrow> ('a \<Rightarrow> bool) \<Rightarrow> bool" where
  "quiet c Q = (\<forall>w os x v os'. c (w, os) = (x, v, os') \<longrightarrow> unmoved w v \<and> (\<forall>y. x = Some y \<longrightarrow> Q y))"

lemma unmoved_trans: "\<lbrakk>unmoved u v; unmoved v w\<rbrakk> \<Longrightarrow> unmoved u w"
  by (simp add: unmoved_def)

lemma quiet_done: "Q x \<Longrightarrow> quiet (done_with x) Q"
  by (simp add: quiet_def done_with_def unmoved_def)

lemma quiet_weaken: "\<lbrakk>quiet c P; \<And>y. P y \<Longrightarrow> Q y\<rbrakk> \<Longrightarrow> quiet c Q"
  unfolding quiet_def by blast

lemma quiet_then:
  assumes "quiet c P" "\<And>x. P x \<Longrightarrow> quiet (f x) Q"
  shows "quiet (and_then c f) Q"
  unfolding quiet_def
proof (intro allI impI)
  fix w os x v os' assume e: "and_then c f (w, os) = (x, v, os')"
  obtain y u us where c: "c (w, os) = (y, u, us)" by (cases "c (w, os)") auto
  show "unmoved w v \<and> (\<forall>z. x = Some z \<longrightarrow> Q z)"
  proof (cases y)
    case None
    then show ?thesis using e c assms(1) unfolding quiet_def and_then_def by fastforce
  next
    case (Some z)
    then have "unmoved w u" "P z" using assms(1) c unfolding quiet_def by blast+
    moreover have "f z (u, us) = (x, v, os')" using e c Some by (simp add: and_then_def)
    ultimately show ?thesis using assms(2) unmoved_trans unfolding quiet_def by blast
  qed
qed

lemma meanwhile_unmoved: "unmoved w (meanwhile oc w)"
  by (simp add: unmoved_def meanwhile_def mig_progress_def guest_writes_def Let_def split: option.split)

lemma quiet_call: "(\<And>oc w. unmoved w (effect oc w)) \<Longrightarrow> quiet (call effect answer) (\<lambda>a. True)"
  unfolding quiet_def call_def
  using meanwhile_unmoved unmoved_trans by (auto simp: Let_def unmoved_def split: list.splits)

lemma quiet_retire:
  "quiet (retire_disk_source cfg r)
     (\<lambda>q. mv_to q = mv_to r \<and> mv_volume q = mv_volume r \<and> (mv_state q = mv_state r \<or> mv_state q = MOVED))"
proof -
  let ?Q = "\<lambda>q. mv_to q = mv_to r \<and> mv_volume q = mv_volume r \<and> (mv_state q = mv_state r \<or> mv_state q = MOVED)"
  have get: "quiet (mig_get i) (\<lambda>a. True)" for i unfolding mig_get_def by (rule quiet_call) (simp add: unmoved_def)
  have complete: "quiet (mig_verb mig_complete i) (\<lambda>a. True)" for i
    unfolding mig_verb_def by (rule quiet_call) (simp add: unmoved_def mig_complete_def split: option.split)
  have detach: "quiet (detach x) (\<lambda>a. True)" for x unfolding detach_def by (rule quiet_call) (simp add: unmoved_def)
  have ask: "quiet (ask_retired r) ?Q"
    unfolding ask_retired_def
    by (rule quiet_then [OF get], rule quiet_done) (simp add: Let_def moved_now_def split: sum.split option.split)
  have finish: "quiet (complete_source r) ?Q"
    unfolding complete_source_def
  proof (rule quiet_then [OF complete])
    fix b :: "string + dmig_view option"
    show "quiet (case b of Inr (Some v) \<Rightarrow> done_with (if dv_state v = ''completed'' then moved_now r else r)
       | _ \<Rightarrow> ask_retired r) ?Q"
      using ask by (auto simp: moved_now_def intro!: quiet_done split: sum.split option.split)
  qed
  show ?thesis
  proof (cases "mc_storage cfg")
    case True
    then have e: "retire_disk_source cfg r = and_then (detach (mv_from r)) (\<lambda>a. case a of
        Inl e \<Rightarrow> done_with (r\<lparr>mv_message := ''the source is still attached here''\<rparr>) | Inr u \<Rightarrow> complete_source r)"
      by (simp add: retire_disk_source_def)
    show ?thesis unfolding e by (rule quiet_then [OF detach]) (auto intro: quiet_done finish split: sum.split)
  next
    case False
    then show ?thesis by (simp add: retire_disk_source_def quiet_done)
  qed
qed

text \<open>The switch went through and is on record, and the machine is paused.\<close>
definition past_switch :: "string \<Rightarrow> string \<Rightarrow> string \<Rightarrow> disk_records \<Rightarrow> bool" where
  "past_switch d to x rs =
     (case rs of
        [(e, r)] \<Rightarrow> e = d \<and> mv_to r = to \<and> mv_volume r = x \<and>
          (mv_state r = SWITCHING \<or> mv_state r = SWITCHED \<or> mv_state r = MOVED)
      | _ \<Rightarrow> False)"

lemma past_switchE:
  assumes "past_switch d to x rs"
  obtains r where "rs = [(d, r)]" "mv_to r = to" "mv_volume r = x"
    "mv_state r = SWITCHING \<or> mv_state r = SWITCHED \<or> mv_state r = MOVED"
proof -
  have "\<exists>p. rs = [p]"
  proof (cases rs)
    case (Cons p ps)
    then show ?thesis using assms by (cases ps) (auto simp: past_switch_def)
  qed (use assms in \<open>simp add: past_switch_def\<close>)
  then obtain e r where "rs = [(e, r)]" by (metis surj_pair)
  then show ?thesis using that [of r] assms unfolding past_switch_def by auto
qed

definition left_paused :: "string \<Rightarrow> string \<Rightarrow> string \<Rightarrow> world \<Rightarrow> bool" where
  "left_paused d to x w =
     (w_paused w \<and> x \<noteq> [] \<and> volume_of (w_vm w) d = Some x \<and> volume_of (w_reg w) d = Some x \<and>
      past_switch d to x (w_annot w) \<and> past_switch d to x (records_now w))"

text \<open>The steps of a kubelet whose VMI goes on asking for the move.\<close>
inductive asked_step :: "(string \<times> string) list \<Rightarrow> world \<Rightarrow> world \<Rightarrow> bool" for wanted where
  asked_pass: "move_disks cfg (Some wanted) (w, os) = (Some b, w', os') \<Longrightarrow> asked_step wanted w w'"
| asked_cut_short: "move_disks cfg (Some wanted) (w, os) = (None, w', os') \<Longrightarrow> asked_step wanted w (restart w')"
| asked_stopped: "asked_step wanted w (restart w)"
| asked_time: "asked_step wanted w (meanwhile oc w)"

lemma asked_is_step: "asked_step wanted w v \<Longrightarrow> disk_step w v"
  by (cases rule: asked_step.cases) (auto intro: disk_step.intros)

lemma left_paused_unmoved: "\<lbrakk>left_paused d to x w; unmoved w v\<rbrakk> \<Longrightarrow> left_paused d to x v"
  by (cases "w_mem w") (simp_all add: left_paused_def unmoved_def records_now_def)

lemma left_paused_restart: "left_paused d to x w \<Longrightarrow> left_paused d to x (restart w)"
  by (simp add: left_paused_def restart_def records_now_def)

text \<open>A pass over the one disk changes the record at most.\<close>
lemma visit_past_switch:
  assumes w: "left_paused d to x w" and rs: "past_switch d to x rs" and v: "visit_disk cfg [(d, to)] d rs (w, os) = (y, v, os')"
  shows "unmoved w v \<and> (\<forall>rs'. y = Some rs' \<longrightarrow> past_switch d to x rs')"
proof -
  obtain r where r: "rs = [(d, r)]" "mv_to r = to" "mv_volume r = x"
    "mv_state r = SWITCHING \<or> mv_state r = SWITCHED \<or> mv_state r = MOVED" using rs by (rule past_switchE)
  show ?thesis
  proof (cases "mv_state r = MOVED")
    case True
    then have "y = Some rs \<and> v = w" using v r by (auto simp: visit_disk_def move_step_def done_with_def)
    then show ?thesis using rs by (auto simp: unmoved_def)
  next
    case False
    let ?c = "and_then (if mc_storage cfg then retire_disk_source cfg (r\<lparr>mv_state := SWITCHED\<rparr>)
        else done_with (r\<lparr>mv_message := ''this node has no stormstorage any more''\<rparr>)) (\<lambda>r. done_with (bt_insert d r rs))"
    have "carry_disk_move cfg rs d r (w, os) = (if mc_storage cfg then retire_disk_source cfg (r\<lparr>mv_state := SWITCHED\<rparr>)
        else done_with (r\<lparr>mv_message := ''this node has no stormstorage any more''\<rparr>)) (w, os)"
      using w r by (simp add: carry_disk_move_def and_then_def look_def left_paused_def)
    then have e: "visit_disk cfg [(d, to)] d rs (w, os) = ?c (w, os)"
      using r False by (auto simp: visit_disk_def move_step_def and_then_def)
    have "quiet ?c (past_switch d to x)"
    proof (rule quiet_then)
      let ?P = "\<lambda>q. mv_to q = to \<and> mv_volume q = x \<and> (mv_state q = SWITCHING \<or> mv_state q = SWITCHED \<or> mv_state q = MOVED)"
      have "quiet (retire_disk_source cfg (r\<lparr>mv_state := SWITCHED\<rparr>)) ?P"
        by (rule quiet_weaken [OF quiet_retire]) (use r in auto)
      then show "quiet (if mc_storage cfg then retire_disk_source cfg (r\<lparr>mv_state := SWITCHED\<rparr>)
        else done_with (r\<lparr>mv_message := ''this node has no stormstorage any more''\<rparr>)) ?P"
        using r by (simp add: quiet_done)
      show "quiet (done_with (bt_insert d q rs)) (past_switch d to x)" if "?P q" for q
        by (rule quiet_done) (use that r in \<open>auto simp: past_switch_def\<close>)
    qed
    then show ?thesis using v unfolding e quiet_def by blast
  qed
qed

lemma left_paused_writes:
  "\<lbrakk>left_paused d to x w; past_switch d to x rs\<rbrakk> \<Longrightarrow> left_paused d to x (w\<lparr>w_annot := rs\<rparr>)"
  "\<lbrakk>left_paused d to x w; past_switch d to x rs\<rbrakk> \<Longrightarrow> left_paused d to x (w\<lparr>w_mem := Some rs\<rparr>)"
  by (cases "w_mem w"; simp add: left_paused_def records_now_def)+

lemma write_left_paused:
  assumes w: "left_paused d to x w" and rs: "past_switch d to x rs" and v: "write_disk_moves rs (w, os) = (b, v, os')"
  shows "left_paused d to x v"
proof (cases os)
  case Nil
  then show ?thesis using v w by (auto simp: write_disk_moves_def and_then_def call_def)
next
  case (Cons oc us)
  have u: "left_paused d to x (meanwhile oc w)" by (rule left_paused_unmoved [OF w meanwhile_unmoved])
  note put = left_paused_writes(1) [OF u rs]
  show ?thesis
    using v u put left_paused_writes(2) [OF put rs] unfolding Cons write_disk_moves_def and_then_def call_def
    by (auto simp: Let_def done_with_def change_def split: if_splits)
qed

lemma pass_left_paused:
  assumes w: "left_paused d to x w" and v: "move_disks cfg (Some [(d, to)]) (w, os) = (b, v, os')"
  shows "left_paused d to x v"
proof (cases "mc_running cfg")
  case False
  then show ?thesis using v w
    by (auto simp: move_disks_def and_then_def disk_move_records_def look_def done_with_def)
next
  case True
  obtain rs where rs: "rs = records_now w" "past_switch d to x rs" using w by (simp add: left_paused_def)
  then obtain r where r: "rs = [(d, r)]" by (elim past_switchE)
  obtain y u us where vis: "visit_disk cfg [(d, to)] d rs (w, os) = (y, u, us)" by (cases "visit_disk cfg [(d, to)] d rs (w, os)") auto
  note ok = visit_past_switch [OF w rs(2) vis]
  have u: "left_paused d to x u" by (rule left_paused_unmoved [OF w]) (use ok in blast)
  have e: "move_disks cfg (Some [(d, to)]) (w, os) =
     and_then (visit_disks cfg [(d, to)] [d] rs) (\<lambda>rs'.
       and_then (if rs' \<noteq> rs then write_disk_moves rs' else done_with True) (\<lambda>_. done_with (list_ex (\<lambda>(d, r). move_active r) rs')))
     (w, os)"
    using r True by (simp add: move_disks_def and_then_def disk_move_records_def look_def rs(1) [unfolded records_now_def, symmetric])
  show ?thesis
  proof (cases y)
    case None
    then show ?thesis using v u vis unfolding e by (auto simp: and_then_def)
  next
    case (Some rs')
    have p: "past_switch d to x rs'" using ok Some by blast
    obtain z t ts where wr: "(if rs' \<noteq> rs then write_disk_moves rs' else done_with True) (u, us) = (z, t, ts)"
      by (cases "(if rs' \<noteq> rs then write_disk_moves rs' else done_with True) (u, us)") auto
    have "left_paused d to x t"
      using wr u write_left_paused [OF u p] by (auto simp: done_with_def split: if_splits)
    moreover have "v = t" using v vis wr Some unfolding e by (auto simp: and_then_def done_with_def split: option.splits)
    ultimately show ?thesis by simp
  qed
qed

lemma asked_left_paused: "\<lbrakk>left_paused d to x w; asked_step [(d, to)] w v\<rbrakk> \<Longrightarrow> left_paused d to x v"
  by (erule asked_step.cases)
    (auto intro: pass_left_paused left_paused_restart left_paused_unmoved meanwhile_unmoved)

section \<open>A move that nothing disturbs\<close>

text \<open>A computation that, given \<open>n\<close> calls that take effect and answer, ends as \<open>Q\<close> says.\<close>
definition undisturbed :: "outcome list \<Rightarrow> bool" where
  "undisturbed os = (\<forall>oc \<in> set os. oc_ok oc \<and> oc_progress oc = None)"

definition goes :: "nat \<Rightarrow> (world \<Rightarrow> bool) \<Rightarrow> 'a calls \<Rightarrow> ('a \<Rightarrow> world \<Rightarrow> bool) \<Rightarrow> bool" where
  "goes n P c Q = (\<forall>w os. P w \<longrightarrow> undisturbed os \<longrightarrow> n \<le> length os \<longrightarrow>
     (\<exists>x w' os'. c (w, os) = (Some x, w', os') \<and> Q x w' \<and> undisturbed os' \<and> length os = n + length os'))"

lemma goes_done: "(\<And>w. P w \<Longrightarrow> Q x w) \<Longrightarrow> goes 0 P (done_with x) Q"
  by (simp add: goes_def done_with_def)

lemma goes_look: "(\<And>w. P w \<Longrightarrow> Q (f w) w) \<Longrightarrow> goes 0 P (look f) Q"
  by (simp add: goes_def look_def)

lemma goes_change: "(\<And>w. P w \<Longrightarrow> Q () (f w)) \<Longrightarrow> goes 0 P (change f) Q"
  by (simp add: goes_def change_def)

lemma goes_then:
  assumes "goes n P c Q" "\<And>x w. Q x w \<Longrightarrow> goes m (Q x) (f x) R"
  shows "goes (n + m) P (and_then c f) R"
  unfolding goes_def
proof (intro allI impI)
  fix w os assume w: "P w" "undisturbed os" "n + m \<le> length os"
  then obtain x u us where c: "c (w, os) = (Some x, u, us)" "Q x u" "undisturbed us" "length os = n + length us"
    using assms(1) unfolding goes_def by (meson add_leD1)
  then obtain y v vs where "f x (u, us) = (Some y, v, vs)" "R y v" "undisturbed vs" "length us = m + length vs"
    using assms(2) [OF c(2)] w(3) unfolding goes_def by (metis add_le_cancel_left)
  then show "\<exists>y v vs. and_then c f (w, os) = (Some y, v, vs) \<and> R y v \<and> undisturbed vs \<and> length os = n + m + length vs"
    using c by (auto simp: and_then_def)
qed

lemma goes_seq: "\<lbrakk>goes n P c Q; \<And>x w. Q x w \<Longrightarrow> goes m (Q x) (f x) R; k = n + m\<rbrakk> \<Longrightarrow> goes k P (and_then c f) R"
  using goes_then by blast

lemma goes_inr: "\<lbrakk>a = Inr () \<and> p; goes n P (f ()) R\<rbrakk> \<Longrightarrow> goes n (\<lambda>w. a = Inr () \<and> P w) (case a of Inl e \<Rightarrow> g e | Inr u \<Rightarrow> f u) R"
  by simp

lemma goes_true: "\<lbrakk>x \<and> p; goes n P c R\<rbrakk> \<Longrightarrow> goes n (\<lambda>w. x \<and> P w) (if \<not> x then g else c) R"
  by simp

lemma goes_some: "\<lbrakk>x \<noteq> None \<and> p; goes n P c R\<rbrakk> \<Longrightarrow> goes n (\<lambda>w. x \<noteq> None \<and> P w) (if x = None then g else c) R"
  by auto

lemma goes_false: "\<lbrakk>\<not> x \<and> p; goes n P c R\<rbrakk> \<Longrightarrow> goes n (\<lambda>w. \<not> x \<and> P w) (if x then g else c) R"
  by simp

lemma goes_pre: "\<lbrakk>goes n P c Q; \<And>w. P' w \<Longrightarrow> P w\<rbrakk> \<Longrightarrow> goes n P' c Q"
  unfolding goes_def by blast

text \<open>A condition on all but the missed writes.\<close>
definition unread :: "(world \<Rightarrow> bool) \<Rightarrow> bool" where
  "unread P = (\<forall>w. P w \<longrightarrow> P (guest_writes w))"

lemma goes_call:
  assumes "unread P" "\<And>w oc. P w \<Longrightarrow> Q (Inr (answer oc (effect oc w))) (effect oc w)"
  shows "goes 1 P (call effect answer) Q"
  unfolding goes_def
proof (intro allI impI)
  fix w os assume w: "P w" "undisturbed os" "1 \<le> length os"
  then obtain oc us where os: "os = oc # us" by (cases os) auto
  have ok: "oc_ok oc" "oc_progress oc = None" "undisturbed us" using w(2) os by (simp_all add: undisturbed_def)
  have p: "P (meanwhile oc w)" using w(1) assms(1) ok(2) by (simp add: meanwhile_def mig_progress_def unread_def Let_def)
  have e: "call effect answer (w, os) = (Some (Inr (answer oc (effect oc (meanwhile oc w)))), effect oc (meanwhile oc w), us)"
    using ok(1) by (simp add: call_def os Let_def)
  show "\<exists>x w' os'. call effect answer (w, os) = (Some x, w', os') \<and> Q x w' \<and> undisturbed os' \<and> length os = 1 + length os'"
    unfolding e using assms(2) [OF p] ok(3) os by auto
qed

lemma goes_post: "\<lbrakk>goes n P c Q; \<And>x w. Q x w \<Longrightarrow> Q' x w\<rbrakk> \<Longrightarrow> goes n P c Q'"
  unfolding goes_def by blast

text \<open>The migration \<open>i\<close> of disk \<open>d\<close> from \<open>f\<close> to \<open>c\<close> in state \<open>s\<close>, the guest paused or not and on \<open>g\<close>.\<close>
definition going :: "string \<Rightarrow> string \<Rightarrow> string \<Rightarrow> string \<Rightarrow> string \<Rightarrow> bool \<Rightarrow> string \<Rightarrow> world \<Rightarrow> bool" where
  "going d i f c s b g w =
     (map_option (\<lambda>m. (dg_state m, dg_from m, dg_copy m, dg_disk m)) (w_migs w i) = Some (s, f, c, d) \<and>
      w_paused w = b \<and> w_guest w d = Some g \<and> c \<notin> w_deleted w \<and> map_of (md_volumes (w_vm w)) d \<noteq> None)"

lemma going_guest_writes: "going d i f c s b g w \<Longrightarrow> going d i f c s b g (guest_writes w)"
  by (cases "w_migs w i") (simp_all add: going_def guest_writes_def)

lemma going_unread: "unread (going d i f c s b g)" "unread (\<lambda>w. going d i f c s b g w \<and> volume_of (w_vm w) d = v)"
  using going_guest_writes by (auto simp: unread_def guest_writes_def)

lemma going_writes [simp]:
  "going d i f c s b g (w\<lparr>w_annot := a\<rparr>) = going d i f c s b g w" "going d i f c s b g (w\<lparr>w_mem := m\<rparr>) = going d i f c s b g w"
  by (simp_all add: going_def)

lemma goes_write:
  assumes P: "unread P" "\<And>w a. P w \<Longrightarrow> P (w\<lparr>w_annot := a\<rparr>)" "\<And>w b. P w \<Longrightarrow> P (w\<lparr>w_mem := b\<rparr>)"
  shows "goes 1 P (write_disk_moves rs) (\<lambda>ok w. ok \<and> w_mem w = Some rs \<and> P w)"
  unfolding write_disk_moves_def
proof (rule goes_seq)
  show "goes 1 P (call (\<lambda>oc w. w\<lparr>w_annot := rs\<rparr>) (\<lambda>oc w. ())) (\<lambda>a w. a = Inr () \<and> P w)"
    by (rule goes_call [OF P(1)]) (simp add: P(2))
  fix a :: "string + unit" and w assume a: "a = Inr () \<and> P w"
  have "goes 0 P (and_then (change (\<lambda>w. w\<lparr>w_mem := Some rs\<rparr>)) (\<lambda>_. done_with True)) (\<lambda>ok w. ok \<and> w_mem w = Some rs \<and> P w)"
    by (rule goes_seq [OF goes_change [where Q = "\<lambda>u w. w_mem w = Some rs \<and> P w"] goes_done]) (simp_all add: P(3))
  then show "goes 0 (\<lambda>w. a = Inr () \<and> P w) (case a of Inl e \<Rightarrow> done_with False
       | Inr u \<Rightarrow> and_then (change (\<lambda>w. w\<lparr>w_mem := Some rs\<rparr>)) (\<lambda>_. done_with True)) (\<lambda>ok w. ok \<and> w_mem w = Some rs \<and> P w)"
    using a by simp
qed simp

lemma goes_write_going: "goes 1 (going d i f c s b g) (write_disk_moves rs) (\<lambda>ok w. ok \<and> going d i f c s b g w)"
  by (rule goes_post [OF goes_write [OF going_unread(1)]]) auto

text \<open>What the storage service answered.\<close>
definition answered :: "(string + dmig_view option) \<Rightarrow> string \<Rightarrow> string \<Rightarrow> bool" where
  "answered a s c = (case a of
     Inr (Some u) \<Rightarrow> dv_state u = s \<and> (dv_target u = None \<or> dv_target u = Some c) | _ \<Rightarrow> False)"

lemma answered_view [simp]: "answered (Inr (Some (view_of oc i k))) s c \<longleftrightarrow> dg_state k = s \<and> (oc_named oc \<longrightarrow> dg_copy k = c)"
  by (auto simp: answered_def view_of_def)

lemma answeredE: "answered a s c \<Longrightarrow> \<exists>u. a = Inr (Some u) \<and> dv_state u = s \<and> (dv_target u = None \<or> dv_target u = Some c)"
  by (simp add: answered_def split: sum.splits option.splits)

text \<open>From the pause to the end.\<close>
lemma goes_retire:
  assumes cfg: "mc_storage cfg" and r: "mv_migration r = i"
  shows "goes 2 (\<lambda>w. going d i f c s b g w \<and> volume_of (w_vm w) d = v) (retire_disk_source cfg r)
    (\<lambda>r' w. mv_state r' = MOVED \<and> f \<in> w_deleted w \<and> w_paused w = b \<and> w_guest w d = Some g \<and> volume_of (w_vm w) d = v)"
proof -
  let ?P = "\<lambda>w. going d i f c s b g w \<and> volume_of (w_vm w) d = v"
  let ?R = "\<lambda>r' w. mv_state r' = MOVED \<and> f \<in> w_deleted w \<and> w_paused w = b \<and> w_guest w d = Some g \<and> volume_of (w_vm w) d = v"
  let ?C = "\<lambda>a w. answered a ''completed'' c \<and>
     f \<in> w_deleted w \<and> w_paused w = b \<and> w_guest w d = Some g \<and> volume_of (w_vm w) d = v"
  have detach: "goes 1 ?P (detach (mv_from r)) (\<lambda>a w. a = Inr () \<and> ?P w)"
    unfolding detach_def by (rule goes_call [OF going_unread(2)]) (simp add: going_def)
  have complete: "goes 1 ?P (mig_verb mig_complete (mv_migration r)) ?C"
    unfolding mig_verb_def r
    by (rule goes_call [OF going_unread(2)]) (auto simp: going_def mig_complete_def)
  have finish: "goes 1 ?P (complete_source r) ?R"
    unfolding complete_source_def
    by (rule goes_seq [OF complete, of 0]) (auto intro!: goes_done dest!: answeredE simp: moved_now_def)
  have "goes 2 ?P (and_then (detach (mv_from r)) (\<lambda>a. case a of
      Inl e \<Rightarrow> done_with (r\<lparr>mv_message := ''the source is still attached here''\<rparr>) | Inr u \<Rightarrow> complete_source r)) ?R"
    by (rule goes_seq [OF detach]) (erule goes_inr, rule finish, simp)
  then show ?thesis using cfg by (simp add: retire_disk_source_def)
qed

lemma disks_put_on: "map_of (md_volumes (put_on d f x vm)) d = Some (Some x)"
  by (simp add: put_on_def update_conv)

lemma goes_after_switch:
  assumes cfg: "mc_storage cfg" and r: "mv_migration r = i" "mv_volume r = c"
  shows "goes 4 (going d i f c s True c) (after_switch cfg d r)
    (\<lambda>r' w. mv_state r' = MOVED \<and> f \<in> w_deleted w \<and> \<not> w_paused w \<and> w_guest w d = Some c \<and> volume_of (w_vm w) d = Some c)"
proof -
  let ?on = "\<lambda>w. volume_of (w_vm w) d = Some c"
  have put: "goes 0 (going d i f c s True c) (change (\<lambda>w. w\<lparr>w_vm := put_on d (mv_from r) (mv_volume r) (w_vm w)\<rparr>))
     (\<lambda>u w. going d i f c s True c w \<and> ?on w)"
    by (rule goes_change) (simp add: going_def volume_of_put_on r disks_put_on)
  have rec: "goes 1 (\<lambda>w. going d i f c s True c w \<and> ?on w) record_disks (\<lambda>a w. going d i f c s True c w \<and> ?on w)"
    unfolding record_disks_def by (rule goes_call [OF going_unread(2)]) (simp add: going_def)
  have run: "goes 1 (\<lambda>w. going d i f c s True c w \<and> ?on w) unpause (\<lambda>a w. a = Inr () \<and> going d i f c s False c w \<and> ?on w)"
    unfolding unpause_def by (rule goes_call [OF going_unread(2)]) (simp add: going_def)
  have tries: "goes 1 (\<lambda>w. going d i f c s True c w \<and> ?on w) (unpause_tries 3) (\<lambda>ok w. going d i f c s False c w \<and> ?on w)"
    unfolding numeral_3_eq_3 unpause_tries.simps by (rule goes_seq [OF run, of 0]) (auto intro: goes_done)
  have "goes 4 (going d i f c s True c) (after_switch cfg d r)
    (\<lambda>r' w. mv_state r' = MOVED \<and> f \<in> w_deleted w \<and> w_paused w = False \<and> w_guest w d = Some c \<and> volume_of (w_vm w) d = Some c)"
    unfolding after_switch_def Let_def
    by (rule goes_seq [OF put, of 4], rule goes_seq [OF rec, of 3], rule goes_seq [OF tries, of 2], rule goes_retire [OF cfg])
      (simp_all add: r)
  then show ?thesis by simp
qed

text \<open>What a move that went through leaves.\<close>
definition arrived :: "string \<Rightarrow> string \<Rightarrow> string \<Rightarrow> disk_move \<Rightarrow> world \<Rightarrow> bool" where
  "arrived d f c r w = (mv_state r = MOVED \<and> f \<in> w_deleted w \<and> \<not> w_paused w \<and> w_guest w d = Some c \<and> volume_of (w_vm w) d = Some c)"

lemma goes_cut_and_switch:
  assumes cfg: "mc_storage cfg" and r: "mv_migration r = i" "mv_volume r = c"
  shows "goes 7 (going d i f c ''synced'' True f) (cut_and_switch cfg d r) (arrived d f c)"
proof -
  have cut: "goes 1 (going d i f c ''synced'' True f) (mig_verb mig_cutover (mv_migration r))
     (\<lambda>a w. answered a ''cut_over'' c \<and> going d i f c ''cut_over'' True f w)"
    unfolding mig_verb_def r by (rule goes_call [OF going_unread(1)]) (auto simp: going_def mig_cutover_def)
  have attach: "goes 1 (going d i f c ''cut_over'' True f) (attach (mv_volume r))
     (\<lambda>a w. a = Inr True \<and> going d i f c ''cut_over'' True f w)"
    unfolding attach_def r by (rule goes_call [OF going_unread(1)]) (simp add: going_def)
  have switch: "goes 1 (going d i f c ''cut_over'' True f) (switch_disk d (mv_volume r))
     (\<lambda>a w. a = Inr () \<and> going d i f c ''cut_over'' True c w)"
    unfolding switch_disk_def r by (rule goes_call [OF going_unread(1)]) (simp add: going_def)
  have after: "goes 4 (going d i f c ''cut_over'' True c) (after_switch cfg d r) (arrived d f c)"
    unfolding arrived_def by (rule goes_after_switch [OF cfg r])
  have do: "goes 5 (going d i f c ''cut_over'' True f) (do_switch cfg d r) (arrived d f c)"
    unfolding do_switch_def by (rule goes_seq [OF switch]) (erule goes_inr, rule after, simp)
  have attached: "goes 6 (going d i f c ''cut_over'' True f) (attach_and_switch cfg d r) (arrived d f c)"
    unfolding attach_and_switch_def by (rule goes_seq [OF attach, of 5]) (auto intro: goes_pre [OF do])
  show ?thesis unfolding cut_and_switch_def
    by (rule goes_seq [OF cut, of 6]) (auto dest!: answeredE intro: goes_pre [OF attached])
qed

lemma goes_switch_over:
  assumes cfg: "mc_storage cfg" "mc_machine cfg" and r: "mv_migration r = i" "mv_volume r = c"
  shows "goes 9 (going d i f c ''synced'' False f) (switch_disk_over cfg rs d r) (arrived d f c)"
proof -
  let ?P = "going d i f c ''synced'' False f"
  let ?q = "r\<lparr>mv_state := SWITCHING, mv_message := ''''\<rparr>"
  have pause: "goes 1 ?P pause (\<lambda>a w. a = Inr () \<and> going d i f c ''synced'' True f w)"
    unfolding pause_def by (rule goes_call [OF going_unread(1)]) (simp add: going_def)
  have cut: "goes 7 (going d i f c ''synced'' True f) (cut_and_switch cfg d ?q) (arrived d f c)"
    by (rule goes_cut_and_switch [OF cfg(1)]) (simp_all add: r)
  have stop: "goes 8 ?P (and_then pause (\<lambda>a. case a of
       Inl e \<Rightarrow> done_with (?q\<lparr>mv_state := COPYING, mv_message := ''the guest would not pause, tried again''\<rparr>)
     | Inr u \<Rightarrow> cut_and_switch cfg d ?q)) (arrived d f c)"
    by (rule goes_seq [OF pause]) (erule goes_inr, rule cut, simp)
  have "goes 9 ?P (and_then (write_disk_moves (bt_insert d ?q rs)) (\<lambda>written.
            if \<not> written then done_with (?q\<lparr>mv_state := COPYING\<rparr>)
            else and_then pause (\<lambda>a.
              case a of
                Inl e \<Rightarrow> done_with (?q\<lparr>mv_state := COPYING, mv_message := ''the guest would not pause, tried again''\<rparr>)
              | Inr u \<Rightarrow> cut_and_switch cfg d ?q))) (arrived d f c)" (is "goes 9 ?P ?go _")
    by (rule goes_seq [OF goes_write_going]) (erule goes_true, rule stop, simp)
  note go = this
  have all: "goes 9 ?P (and_then (look (\<lambda>w. map_of (md_volumes (w_vm w)) d)) (\<lambda>x. if x = None then done_with r else ?go)) (arrived d f c)"
    by (rule goes_seq [OF goes_look [where Q = "\<lambda>x w. x \<noteq> None \<and> ?P w"]], simp add: going_def, erule goes_some, rule go, simp)
  show ?thesis unfolding switch_disk_over_def Let_def by (subst if_not_P, use cfg(2) in simp) (rule all)
qed

lemma goes_carry_copying:
  assumes cfg: "mc_storage cfg" "mc_machine cfg" and r: "mv_migration r = i" "mv_volume r = c" "c \<noteq> ''''"
  shows "goes 10 (going d i f c ''synced'' False f) (carry_copying cfg rs d r) (arrived d f c)"
  unfolding carry_copying_def
proof (rule goes_seq [where n = 1 and m = 9])
  let ?P = "going d i f c ''synced'' False f"
  show "goes 1 ?P (mig_get (mv_migration r)) (\<lambda>a w. answered a ''synced'' c \<and> ?P w)"
    unfolding mig_get_def r by (rule goes_call [OF going_unread(1)]) (auto simp: going_def)
  fix a w assume "answered a ''synced'' c \<and> ?P w"
  then obtain v where a: "a = Inr (Some v)" "dv_state v = ''synced''" "dv_target v = None \<or> dv_target v = Some c"
    and t: "answered a ''synced'' c" using answeredE by blast
  define q where "q = r\<lparr>mv_bytes_total := dv_total v, mv_bytes_remaining := dv_remaining v,
                     mv_volume := (case dv_target v of Some t \<Rightarrow> t | None \<Rightarrow> mv_volume r)\<rparr>"
  have q: "mv_migration q = i" "mv_volume q = c" using a(3) r by (auto simp: q_def)
  show "goes 9 (\<lambda>w. answered a ''synced'' c \<and> ?P w)
     (case a of
         Inl e \<Rightarrow> done_with (if contains_str e ''404'' then failed_with ''stormstorage no longer has the migration'' r else r)
       | Inr None \<Rightarrow> done_with (failed_with ''stormstorage no longer has the migration'' r)
       | Inr (Some v) \<Rightarrow>
           let r = r\<lparr>mv_bytes_total := dv_total v, mv_bytes_remaining := dv_remaining v,
                     mv_volume := (case dv_target v of Some t \<Rightarrow> t | None \<Rightarrow> mv_volume r)\<rparr>
           in if dv_state v = FAILED \<or> dv_state v = ''aborted'' then done_with (failed_with ''the copy failed'' r)
              else if dv_state v = ''synced'' \<and> mv_volume r \<noteq> [] then switch_disk_over cfg rs d r
              else if dv_state v = ''cut_over'' \<or> dv_state v = ''completed''
              then and_then (mig_verb mig_abort (mv_migration r)) (\<lambda>a.
                     done_with (failed_with (case a of Inr (Some v) \<Rightarrow> ''cut over with the guest still on the source: aborted''
                       | _ \<Rightarrow> ''cut over with the guest still on the source: the abort was refused'') r))
              else done_with r) (arrived d f c)"
    unfolding a(1) sum.case option.case Let_def q_def [symmetric]
    using goes_switch_over [OF cfg q, of d f rs] a(2) q r(3) t by (simp add: a(1))
qed simp

text \<open>A pass over the one disk of the record.\<close>
lemma goes_pass:
  assumes cfg: "mc_storage cfg" "mc_machine cfg" "mc_running cfg" and r: "mv_migration r = i" "mv_volume r = c" "c \<noteq> ''''"
    "mv_state r = COPYING" "mv_to r = to"
  shows "goes 11 (\<lambda>w. going d i f c ''synced'' False f w \<and> records_now w = [(d, r)] \<and> volume_of (w_vm w) d \<noteq> Some c)
     (move_disks cfg (Some [(d, to)]))
     (\<lambda>more w. \<not> more \<and> (\<exists>q. records_now w = [(d, q)] \<and> arrived d f c q w))"
proof -
  let ?P = "\<lambda>w. going d i f c ''synced'' False f w \<and> records_now w = [(d, r)] \<and> volume_of (w_vm w) d \<noteq> Some c"
  have step: "move_step (Some to) (Some r) (mc_here cfg) = Continue" using r by (simp add: move_step_def)
  have carry: "goes 10 ?P (carry_disk_move cfg [(d, r)] d r) (arrived d f c)"
  proof -
    have "goes 10 ?P (and_then (look (\<lambda>w. volume_of (w_vm w) d = Some c)) (\<lambda>on_copy.
        if on_copy then retire_disk_source cfg (r\<lparr>mv_state := SWITCHED\<rparr>) else carry_copying cfg [(d, r)] d r)) (arrived d f c)"
      by (rule goes_seq [OF goes_look [where Q = "\<lambda>x w. \<not> x \<and> going d i f c ''synced'' False f w"]], simp,
          erule goes_false, rule goes_carry_copying [OF cfg(1,2) r(1-3)], simp)
    then show ?thesis using cfg r by (simp add: carry_disk_move_def)
  qed
  have visit: "goes 10 ?P (visit_disks cfg [(d, to)] [d] [(d, r)]) (\<lambda>rs w. \<exists>q. rs = [(d, q)] \<and> arrived d f c q w)"
  proof -
    have "goes 10 ?P (visit_disk cfg [(d, to)] d [(d, r)]) (\<lambda>rs w. \<exists>q. rs = [(d, q)] \<and> arrived d f c q w)"
      unfolding visit_disk_def using step by (simp, intro goes_seq [OF carry, where m = 0] goes_done) auto
    then show ?thesis unfolding visit_disks.simps by (rule goes_seq [where m = 0]) (auto intro: goes_done)
  qed
  have last: "goes 1 (arrived d f c q) (and_then (if [(d, q)] \<noteq> [(d, r)] then write_disk_moves [(d, q)] else done_with True)
       (\<lambda>_. done_with (list_ex (\<lambda>(d, r). move_active r) [(d, q)])))
     (\<lambda>more w. \<not> more \<and> (\<exists>q. records_now w = [(d, q)] \<and> arrived d f c q w))" if q: "mv_state q = MOVED" for q
  proof -
    have ne: "q \<noteq> r" using q r by auto
    have "goes 1 (arrived d f c q) (write_disk_moves [(d, q)]) (\<lambda>ok w. ok \<and> w_mem w = Some [(d, q)] \<and> arrived d f c q w)"
      by (rule goes_write) (simp_all add: arrived_def unread_def guest_writes_def)
    then have "goes 1 (arrived d f c q) (and_then (write_disk_moves [(d, q)]) (\<lambda>_. done_with False))
       (\<lambda>more w. \<not> more \<and> (\<exists>q. records_now w = [(d, q)] \<and> arrived d f c q w))"
      by (rule goes_seq [where m = 0], intro goes_done) (auto simp: records_now_def)
    then show ?thesis using ne q by (simp add: move_active_def)
  qed
  have pass: "goes 11 ?P (and_then (visit_disks cfg [(d, to)] [d] [(d, r)]) (\<lambda>rs.
       and_then (if rs \<noteq> [(d, r)] then write_disk_moves rs else done_with True) (\<lambda>_. done_with (list_ex (\<lambda>(d, r). move_active r) rs))))
     (\<lambda>more w. \<not> more \<and> (\<exists>q. records_now w = [(d, q)] \<and> arrived d f c q w))"
  proof (rule goes_seq [OF visit])
    fix rs w assume "\<exists>q. rs = [(d, q)] \<and> arrived d f c q w"
    then obtain q where q: "rs = [(d, q)]" "arrived d f c q w" by blast
    have m: "mv_state q = MOVED" using q(2) by (simp add: arrived_def)
    show "goes 1 (\<lambda>w. \<exists>q. rs = [(d, q)] \<and> arrived d f c q w)
       (and_then (if rs \<noteq> [(d, r)] then write_disk_moves rs else done_with True) (\<lambda>_. done_with (list_ex (\<lambda>(d, r). move_active r) rs)))
       (\<lambda>more w. \<not> more \<and> (\<exists>q. records_now w = [(d, q)] \<and> arrived d f c q w))"
      unfolding q(1) by (rule goes_pre [OF last [OF m]]) simp
  qed simp
  have "goes 11 ?P (and_then disk_move_records (\<lambda>recs.
            if [(d, to)] = [] \<and> recs = [] then done_with False
            else if \<not> mc_running cfg then done_with False
            else and_then (visit_disks cfg [(d, to)] (sort (remdups (map fst [(d, to)] @ map fst recs))) recs) (\<lambda>rs.
              and_then (if rs \<noteq> recs then write_disk_moves rs else done_with True) (\<lambda>_.
                done_with (list_ex (\<lambda>(d, r). move_active r) rs)))))
     (\<lambda>more w. \<not> more \<and> (\<exists>q. records_now w = [(d, q)] \<and> arrived d f c q w))"
    unfolding disk_move_records_def
  proof (rule goes_seq [OF goes_look [where Q = "\<lambda>x w. x = [(d, r)] \<and> ?P w"]])
    show "(case w_mem w of None \<Rightarrow> w_annot w | Some r \<Rightarrow> r) = [(d, r)] \<and> ?P w" if "?P w" for w
      using that by (simp add: records_now_def)
    fix recs and w assume b: "recs = [(d, r)] \<and> ?P w"
    then have "sort (remdups (map fst [(d, to)] @ map fst recs)) = [d]" by simp
    then show "goes 11 (\<lambda>w. recs = [(d, r)] \<and> ?P w) (if [(d, to)] = [] \<and> recs = [] then done_with False
            else if \<not> mc_running cfg then done_with False
            else and_then (visit_disks cfg [(d, to)] (sort (remdups (map fst [(d, to)] @ map fst recs))) recs) (\<lambda>rs.
              and_then (if rs \<noteq> recs then write_disk_moves rs else done_with True) (\<lambda>_.
                done_with (list_ex (\<lambda>(d, r). move_active r) rs))))
     (\<lambda>more w. \<not> more \<and> (\<exists>q. records_now w = [(d, q)] \<and> arrived d f c q w))"
      using pass b cfg(3) by (simp del: visit_disks.simps list_ex_iff)
  qed simp
  then show ?thesis by (simp add: move_disks_def)
qed

section \<open>A pass ends\<close>


























section \<open>Properties\<close>

text \<open>An error whose text has 404 in it, be it part of the address the call failed to reach, is read
  as the migration being gone: the move is given up with its mirror still running.\<close>
lemma any_404_gives_up:
  assumes "mc_storage cfg" "mv_state r = COPYING" "volume_of (w_vm w) d \<noteq> Some (mv_volume r)" "\<not> oc_ok oc"
    "contains_str (oc_error oc) ''404''" "meanwhile oc w = w"
  shows "carry_disk_move cfg rs d r (w, oc # os) = (Some (failed_with ''stormstorage no longer has the migration'' r), w, os)"
  using assms by (auto simp: carry_disk_move_def carry_copying_def mig_get_def call_def and_then_def look_def done_with_def Let_def)



text \<open>And what the kubelet takes a disk to be on is what the guest is on: of a disk with no move
  in flight or in doubt, the volume the machine's record names is the guest's, unless it is gone.\<close>
theorem settled_disk_is_known:
  assumes "own_volumes disks" "disk_step\<^sup>*\<^sup>* (booted disks owned) w" "settled (map_of (records_now w) d)"
    "volume_of (w_vm w) d = Some x"
  shows "x \<in> w_deleted w \<or> w_guest w d = Some x"
proof -
  have "world_ok w" using moves.inv_reachable [OF assms(2)] assms(1) by blast
  then have "both_ok w d (map_of (records_now w) d)" by (simp add: world_ok_def records_ok_both)
  then show ?thesis using assms(3,4) settled_iff by blast
qed

text \<open>C12. A copy in sync is switched to in one pass, when nothing fails and nothing interferes: the
  guest runs on the copy, the record says \<open>moved\<close>, the source is deleted and no further pass is due.\<close>
theorem synced_copy_is_switched_to:
  assumes "mc_storage cfg" "mc_machine cfg" "mc_running cfg" "records_now w = [(d, r)]" "mv_state r = COPYING" "mv_to r = to"
    "w_migs w (mv_migration r) = Some m" "dg_state m = ''synced''" "dg_copy m = mv_volume r" "dg_disk m = d" "mv_volume r \<noteq> ''''"
    "\<not> w_paused w" "w_guest w d = Some (dg_from m)" "volume_of (w_vm w) d = Some (dg_from m)" "dg_from m \<noteq> dg_copy m"
    "dg_copy m \<notin> w_deleted w" "11 \<le> length os" "undisturbed os"
  shows "\<exists>w' os' q. move_disks cfg (Some [(d, to)]) (w, os) = (Some False, w', os') \<and> records_now w' = [(d, q)] \<and>
     mv_state q = MOVED \<and> w_guest w' d = Some (mv_volume r) \<and> \<not> w_paused w' \<and> dg_from m \<in> w_deleted w'"
proof -
  have "map_of (md_volumes (w_vm w)) d \<noteq> None" using assms(14) by (cases "map_of (md_volumes (w_vm w)) d") (simp_all add: volume_of_def)
  then have "going d (mv_migration r) (dg_from m) (mv_volume r) ''synced'' False (dg_from m) w"
    using assms by (simp add: going_def)
  moreover have "volume_of (w_vm w) d \<noteq> Some (mv_volume r)" using assms by simp
  ultimately obtain more w' os' where e: "move_disks cfg (Some [(d, to)]) (w, os) = (Some more, w', os')"
    and a: "\<not> more" "\<exists>q. records_now w' = [(d, q)] \<and> arrived d (dg_from m) (mv_volume r) q w'"
    using goes_pass [OF assms(1-3) refl refl assms(11,5,6), of d "dg_from m"] assms(4,17,18) unfolding goes_def by blast
  then show ?thesis by (auto simp: arrived_def)
qed

text \<open>C36. A guest that a stopped kubelet left paused after the switch stays paused: the record says
  \<open>switching\<close> or further and the machine is on the copy, so every later pass retires the source and
  none ever runs the guest again, as long as the VMI goes on asking for the same move.\<close>
theorem left_paused_for_good:
  assumes "left_paused d to x w" "(asked_step [(d, to)])\<^sup>*\<^sup>* w v"
  shows "w_paused v \<and> volume_of (w_vm v) d = Some x"
proof -
  from assms(2,1) have "left_paused d to x v"
    by (induction rule: rtranclp_induct) (auto intro: asked_left_paused)
  then show ?thesis by (simp add: left_paused_def)
qed

section \<open>Witnesses\<close>

definition one_disk :: world where
  "one_disk = booted [(''root'', Some ''v1'')] [''v1'']"

definition move_node :: move_config where
  "move_node = \<lparr>mc_storage = True, mc_machine = True, mc_here = ''n1'', mc_running = True, mc_migrating = False,
     mc_cloud_hypervisor = False, mc_seed = (\<lambda>d. False)\<rparr>"

definition all_well :: outcome where
  "all_well = \<lparr>oc_does = True, oc_ok = True, oc_error = '''', oc_id = ''m1'', oc_copy = ''v2'', oc_named = True, oc_writes = True,
     oc_progress = None, oc_bytes = (10, 0)\<rparr>"

abbreviation asked_pass_of :: "outcome list \<Rightarrow> world \<Rightarrow> bool option \<times> world \<times> outcome list" where
  "asked_pass_of os w \<equiv> move_disks move_node (Some [(''root'', ''n2'')]) (w, os)"

definition mirror_started :: world where
  "mirror_started = fst (snd (asked_pass_of [all_well, all_well] one_disk))"




theorem settled_disk_is_known_witness: "''v1'' \<in> w_deleted one_disk \<or> w_guest one_disk ''root'' = Some ''v1''"
proof (rule settled_disk_is_known [where disks = "[(''root'', Some ''v1'')]" and owned = "[''v1'']"])
  show "own_volumes [(''root'', Some ''v1'')]" by code_simp
  show "disk_step\<^sup>*\<^sup>* (booted [(''root'', Some ''v1'')] [''v1'']) one_disk" by (simp add: one_disk_def)
  show "settled (map_of (records_now one_disk) ''root'')" by (simp add: settled_def one_disk_def booted_def records_now_def)
  show "volume_of (w_vm one_disk) ''root'' = Some ''v1''" by code_simp
qed

definition mirror_synced :: world where
  "mirror_synced = mig_progress (Some (''m1'', ''synced'')) mirror_started"

theorem synced_copy_is_switched_to_witness:
  "\<exists>w' os' q. move_disks move_node (Some [(''root'', ''n2'')]) (mirror_synced, replicate 11 all_well) = (Some False, w', os') \<and>
     records_now w' = [(''root'', q)] \<and> mv_state q = MOVED \<and> w_guest w' ''root'' = Some ''v2'' \<and> \<not> w_paused w' \<and>
     ''v1'' \<in> w_deleted w'"
proof -
  define r where "r = snd (hd (records_now mirror_synced))"
  have "records_now mirror_synced = [(''root'', \<lparr>mv_to = ''n2'', mv_node = ''n1'', mv_from = ''v1'', mv_migration = ''m1'',
     mv_state = COPYING, mv_bytes_total = 10, mv_bytes_remaining = 0, mv_volume = ''v2'', mv_message = ''''\<rparr>)]" by code_simp
  then have r: "records_now mirror_synced = [(''root'', r)]" "mv_state r = COPYING" "mv_to r = ''n2''" "mv_migration r = ''m1''"
    "mv_volume r = ''v2''" by (simp_all add: r_def)
  have m: "w_migs mirror_synced ''m1'' = Some \<lparr>dg_from = ''v1'', dg_copy = ''v2'', dg_disk = ''root'', dg_state = ''synced'', dg_stale = False\<rparr>"
    by code_simp
  have w: "\<not> w_paused mirror_synced" "w_guest mirror_synced ''root'' = Some ''v1''"
    "volume_of (w_vm mirror_synced) ''root'' = Some ''v1''" "''v2'' \<notin> w_deleted mirror_synced" by code_simp+
  have u: "undisturbed (replicate 11 all_well)" by (simp add: undisturbed_def all_well_def)
  have c: "mc_storage move_node" "mc_machine move_node" "mc_running move_node" by (simp_all add: move_node_def)
  show ?thesis
    using synced_copy_is_switched_to [OF c r(1-3), of "\<lparr>dg_from = ''v1'', dg_copy = ''v2'', dg_disk = ''root'',
       dg_state = ''synced'', dg_stale = False\<rparr>" "replicate 11 all_well"] r m w u by simp
qed

text \<open>A kubelet that stops right after it recorded the switch, as it starts again.\<close>
definition stopped_after_switch :: world where
  "stopped_after_switch = restart (fst (snd (asked_pass_of (replicate 7 all_well) mirror_synced)))"

text \<open>From the unpause to the end of the pass the guest writes to the copy while the VMI's record still
  says \<open>switching\<close>: a node that goes down then has the source as the disk's place, and a start
  attaches it, although it is not the disk any more.\<close>
definition off_record :: "string \<Rightarrow> string \<Rightarrow> world \<Rightarrow> bool" where
  "off_record from copy w =
     (w_guest w ''root'' = Some copy \<and> \<not> w_paused w \<and> from \<notin> w_deleted w \<and> moved_volume (restart w) ''root'' = None \<and>
      map (location \<circ> snd) (w_annot w) = [Some (''n1'', from)])"

lemma switch_not_on_record: "off_record ''v1'' ''v2'' (fst (snd (asked_pass_of (replicate 8 all_well) mirror_synced)))"
  by code_simp

theorem left_paused_for_good_witness: "w_paused stopped_after_switch \<and> volume_of (w_vm stopped_after_switch) ''root'' = Some ''v2''"
  by (rule left_paused_for_good [OF _ rtranclp.rtrancl_refl, where to = "''n2''"]) code_simp

end
