(* ===== verification/Migration.thy ===== *)
theory Migration
  imports DiskMove
begin

text \<open>A VMI's live migration as its object says it (\<open>src/pkg/kubelet/src/vm_migration.rs\<close>, and whose
  a VMI is, in \<open>vm_manager.rs\<close>): the state under \<open>status.migrationState\<close>, which part a node has in
  it, the record of its disks, what is refused, and the patches the two kubelets write. The JSON
  parser and printer, the clock and which hypervisor a name means are arguments. A merge patch
  does what RFC 7386 says, which the content type of the requests names.\<close>

section \<open>The state\<close>

record mig_state =
  ms_uid :: string
  ms_source :: string
  ms_target :: "string option"
  ms_address :: "string option"
  ms_port :: "nat option"
  ms_started :: bool
  ms_completed :: bool
  ms_failed :: bool
  ms_abort :: bool

definition text_at :: "json \<Rightarrow> string \<Rightarrow> string option" where
  "text_at m k = (case as_str (jget m k) of Some s \<Rightarrow> if s = [] then None else Some s | None \<Rightarrow> None)"

definition least_port :: "json \<Rightarrow> nat option" where
  "least_port v =
     (case as_object v of
        None \<Rightarrow> None
      | Some kvs \<Rightarrow> (case List.map_filter (\<lambda>(k, x). parse_unsigned 16 k) kvs of
                       [] \<Rightarrow> None
                     | p # ps \<Rightarrow> Some (Min (set (p # ps)))))"

definition state_in :: "json \<Rightarrow> mig_state option" where
  "state_in m =
     (case text_at m ''migrationUid'' of
        None \<Rightarrow> None
      | Some uid \<Rightarrow> Some
          \<lparr>ms_uid = uid,
           ms_source = (case text_at m ''sourceNode'' of Some s \<Rightarrow> s | None \<Rightarrow> []),
           ms_target = text_at m ''targetNode'',
           ms_address = text_at m ''targetNodeAddress'',
           ms_port = least_port (jget m ''targetDirectMigrationNodePorts''),
           ms_started = (text_at m ''startTimestamp'' \<noteq> None),
           ms_completed = (as_bool (jget m ''completed'') = Some True),
           ms_failed = (as_bool (jget m ''failed'') = Some True),
           ms_abort = (as_bool (jget m ''abortRequested'') = Some True)\<rparr>)"

definition state_of_vmi :: "json \<Rightarrow> mig_state option" where
  "state_of_vmi vmi = state_in (jpath vmi [''status'', ''migrationState''])"

definition mig_active :: "mig_state \<Rightarrow> bool" where
  "mig_active s = (\<not> ms_completed s \<and> \<not> ms_failed s)"

definition mig_moved :: "mig_state \<Rightarrow> bool" where
  "mig_moved s = (ms_completed s \<and> \<not> ms_failed s)"

section \<open>Whose it is\<close>

datatype mig_role = Source mig_state | Target mig_state

definition role_in :: "mig_state option \<Rightarrow> string \<Rightarrow> mig_role option" where
  "role_in so node =
     (case so of
        None \<Rightarrow> None
      | Some s \<Rightarrow>
          if ms_target s = Some node \<and> ms_source s \<noteq> node
          then (if ms_failed s then None else Some (Target s))
          else if ms_source s = node then Some (Source s) else None)"

definition arriving_in :: "mig_state option \<Rightarrow> string \<Rightarrow> bool" where
  "arriving_in so node = (case role_in so node of Some (Target s) \<Rightarrow> True | _ \<Rightarrow> False)"

definition moved_away_in :: "mig_state option \<Rightarrow> string \<Rightarrow> bool" where
  "moved_away_in so node =
     (case so of Some s \<Rightarrow> mig_moved s \<and> ms_source s = node \<and> ms_target s \<noteq> Some node | None \<Rightarrow> False)"

definition placed_at :: "json \<Rightarrow> string option" where
  "placed_at vmi =
     (case text_at (jget vmi ''status'') ''nodeName'' of
        Some n \<Rightarrow> Some n
      | None \<Rightarrow> text_at (jget vmi ''spec'') ''nodeName'')"

definition assigned_to :: "json \<Rightarrow> string \<Rightarrow> bool" where
  "assigned_to vmi node = (placed_at vmi = Some node)"

definition ours :: "json \<Rightarrow> string \<Rightarrow> bool" where
  "ours vmi node = (assigned_to vmi node \<or> arriving_in (state_of_vmi vmi) node)"

text \<open>\<open>placed_on\<close>: the lists merged by uid, the first copy of each kept.\<close>
fun first_of_each :: "string list \<Rightarrow> json list \<Rightarrow> json list" where
  "first_of_each seen [] = []"
| "first_of_each seen (v # vs) =
     (let uid = str_or [] (jpath v [''metadata'', ''uid''])
      in if uid \<in> set seen then first_of_each seen vs else v # first_of_each (uid # seen) vs)"

definition placed_on :: "json list \<Rightarrow> string \<Rightarrow> json list" where
  "placed_on answers node =
     first_of_each [] (filter (\<lambda>v. ours v node) (concat (map (\<lambda>l. elems (jget l ''items'')) answers)))"

definition being_deleted :: "json \<Rightarrow> bool" where
  "being_deleted vmi = (jpath vmi [''metadata'', ''deletionTimestamp''] \<noteq> JNull)"

text \<open>Is the machine this object describes this node's to answer for: whatever the object's place
  says, one that moved is its target's.\<close>
definition placed_here :: "json \<Rightarrow> string \<Rightarrow> string \<Rightarrow> bool" where
  "placed_here vmi uid node =
     (let m = jpath vmi [''status'', ''migrationState'']
      in as_str (jpath vmi [''metadata'', ''uid'']) = Some uid \<and> \<not> being_deleted vmi \<and> assigned_to vmi node \<and>
         \<not> (as_bool (jget m ''completed'') = Some True \<and> as_bool (jget m ''failed'') \<noteq> Some True \<and>
            (case as_str (jget m ''targetNode'') of Some t \<Rightarrow> t \<noteq> node | None \<Rightarrow> False)))"

section \<open>The record of the disks\<close>

abbreviation DISKS :: string where "DISKS \<equiv> ''storm.io/migration-disks''"

type_synonym disk_ids = "(string \<times> string) list"

definition disks_of :: "(string \<Rightarrow> json option) \<Rightarrow> json \<Rightarrow> string \<Rightarrow> disk_ids option" where
  "disks_of parse vmi uid =
     (case Option.bind (as_str (jpath vmi [''metadata'', ''annotations'', DISKS])) parse of
        None \<Rightarrow> None
      | Some v \<Rightarrow>
          if as_str (jget v ''migrationUid'') \<noteq> Some uid then None
          else (case as_object (jget v ''disks'') of
                  None \<Rightarrow> None
                | Some kvs \<Rightarrow> Some (List.map_filter (\<lambda>(d, m). map_option (Pair d) (as_str m)) kvs)))"

definition disks_patch :: "(json \<Rightarrow> string) \<Rightarrow> string \<Rightarrow> string \<Rightarrow> disk_ids \<Rightarrow> json" where
  "disks_patch show vmi_uid uid disks =
     JObj [(''metadata'', JObj [
       (''annotations'', JObj [(DISKS,
          JStr (show (JObj [(''disks'', JObj (map (\<lambda>(d, m). (d, JStr m)) disks)), (''migrationUid'', JStr uid)])))]),
       (''uid'', JStr vmi_uid)])]"

section \<open>What is refused, and where to send\<close>

datatype mig_refusal = No_tls_migration | On_pod_network | Not_machines_own string | Off_node off_node_reason

definition mig_refusal ::
  "(string \<Rightarrow> bool) \<Rightarrow> string \<Rightarrow> (string \<times> string option) list \<Rightarrow> string list \<Rightarrow> bool \<Rightarrow> mig_refusal option" where
  "mig_refusal is_cloud_hypervisor kind disks owned pod_network =
     (if is_cloud_hypervisor kind then Some No_tls_migration
      else if pod_network then Some On_pod_network
      else (case filter (\<lambda>(name, volume). case volume of Some v \<Rightarrow> v \<notin> set owned | None \<Rightarrow> True) disks of
              [] \<Rightarrow> None
            | (name, volume) # _ \<Rightarrow> Some (Not_machines_own name)))"

definition listen_uri :: "nat \<Rightarrow> string" where
  "listen_uri port = ''tcp:0.0.0.0:'' @ show_nat port"

definition send_uri :: "(string \<Rightarrow> bool) \<Rightarrow> string \<Rightarrow> nat \<Rightarrow> string" where
  "send_uri is_ipv6 address port =
     (if is_ipv6 address then ''tcp:['' @ address @ '']:'' @ show_nat port
      else ''tcp:'' @ address @ '':'' @ show_nat port)"

text \<open>The port a receiver listens on: the first of \<open>PORTS\<close> that no other receiver here has, and the
  first of all when every one is taken. Sixteen-bit ports, the range's end saturating.\<close>
abbreviation PORTS :: nat where "PORTS \<equiv> 64"
abbreviation DEFAULT_PORT :: nat where "DEFAULT_PORT \<equiv> 49152"

definition first_port :: "nat \<Rightarrow> nat" where
  "first_port configured = (if configured = 0 then DEFAULT_PORT else configured)"

definition pick_port :: "nat \<Rightarrow> nat list \<Rightarrow> nat" where
  "pick_port first used =
     (case filter (\<lambda>p. p \<notin> set used) [first ..< min (first + PORTS) 65535] of
        [] \<Rightarrow> first
      | p # _ \<Rightarrow> p)"

text \<open>What a node lacks to take part.\<close>
datatype mig_lack = No_storage | No_certificate | No_address

definition lacks :: "bool \<Rightarrow> bool \<Rightarrow> string \<Rightarrow> mig_lack list" where
  "lacks storage certificate address =
     (if storage then [] else [No_storage]) @ (if certificate then [] else [No_certificate]) @
     (if address \<noteq> [] then [] else [No_address])"

section \<open>The patches\<close>

definition target_ready :: "string \<Rightarrow> nat \<Rightarrow> json" where
  "target_ready address port =
     JObj [(''targetDirectMigrationNodePorts'', JObj [(show_nat port, JInt 0)]), (''targetNodeAddress'', JStr address)]"

definition sending :: "string \<Rightarrow> json" where
  "sending now = JObj [(''startTimestamp'', JStr now)]"

definition completed :: "string \<Rightarrow> json" where
  "completed now = JObj [(''completed'', JBool True), (''endTimestamp'', JStr now)]"

definition failed :: "string \<Rightarrow> string \<Rightarrow> bool \<Rightarrow> json" where
  "failed now why aborted =
     JObj ((if aborted then [(''abortStatus'', JStr ''Succeeded'')] else []) @
       [(''endTimestamp'', JStr now), (''failed'', JBool True), (''failureReason'', JStr why)])"

definition migration_patch :: "json \<Rightarrow> json \<Rightarrow> json" where
  "migration_patch vmi written =
     JObj [(''metadata'', JObj [(''uid'', jpath vmi [''metadata'', ''uid''])]),
           (''status'', JObj [(''migrationState'', written)])]"

end
