(* ===== verification/MigrationPass.thy ===== *)
theory MigrationPass
  imports Migration Calls
begin

text \<open>A live migration of one VMI as its nodes' kubelets carry it: \<open>migrate_out\<close> and \<open>migrate_in\<close> of
  \<open>src/pkg/kubelet/src/vm_manager.rs\<close> and what they call, within the part of a pass over the VMI
  (\<open>reconcile_one\<close>) that starts, adopts and stops its machine.

  The world is the VMI's migration state and disks record, and where it is placed; what each
  node's kubelet has in memory and on record; each node's machine, with the memory transfer going
  out of it; and the storage service's mirrors. How a call goes is an outcome; what the others do
  by themselves (the guest's memory arrives, a machine ends, a disk gets in sync, somebody asks
  for an abort, the controller begins a migration) are events, which happen before any call and
  between passes. A pass is handed the VMI as it is when the pass begins. Times, events reported,
  log lines and the reasons written are left out, and so are calls that change none of this.\<close>

section \<open>The world\<close>

text \<open>What a node's kubelet holds of the VMI: its machine (\<open>vms\<close>), a machine receiving (\<open>incoming\<close>), one
  being stopped by force, the handle its registration has, the migrations it sent and those whose
  disks are done.\<close>
record vm_entry =
  ve_handle :: nat
  ve_ended :: bool

record receiver =
  rc_migration :: string
  rc_handle :: nat
  rc_port :: nat
  rc_reported :: bool

record mig_node =
  nd_vm :: "vm_entry option"
  nd_incoming :: "receiver option"
  nd_forced :: "nat option"
  nd_registered :: "nat option"
  nd_sent :: "string list"
  nd_done :: "string list"

datatype run_state = Absent | Running | Paused | Waiting

record machine =
  mh_handle :: nat
  mh_state :: run_state

text \<open>The transfer out of a node's machine: the migration it was for, where it goes, and the
  hypervisor's word for how it is going.\<close>
record transfer =
  tr_uid :: string
  tr_to :: string
  tr_word :: string

record mig_world =
  mw_state :: "mig_state option"
  mw_disks :: "(string \<times> disk_ids) option"
  mw_placed :: string
  mw_used :: "string list"
  mw_nodes :: "string \<Rightarrow> mig_node"
  mw_machines :: "string \<Rightarrow> machine"
  mw_transfers :: "string \<Rightarrow> transfer option"
  mw_mirrors :: "string \<Rightarrow> string option"

definition on_node :: "string \<Rightarrow> (mig_node \<Rightarrow> mig_node) \<Rightarrow> mig_world \<Rightarrow> mig_world" where
  "on_node n f w = w\<lparr>mw_nodes := (mw_nodes w)(n := f (mw_nodes w n))\<rparr>"

definition run_state_of :: "mig_world \<Rightarrow> string \<Rightarrow> run_state" where
  "run_state_of w n = mh_state (mw_machines w n)"

definition set_run :: "string \<Rightarrow> run_state \<Rightarrow> mig_world \<Rightarrow> mig_world" where
  "set_run n r w = w\<lparr>mw_machines := (mw_machines w)(n := (mw_machines w n)\<lparr>mh_state := r\<rparr>)\<rparr>"

definition set_transfer :: "string \<Rightarrow> transfer option \<Rightarrow> mig_world \<Rightarrow> mig_world" where
  "set_transfer n t w = w\<lparr>mw_transfers := (mw_transfers w)(n := t)\<rparr>"

definition transfer_word :: "mig_world \<Rightarrow> string \<Rightarrow> string" where
  "transfer_word w n = (case mw_transfers w n of None \<Rightarrow> ''none'' | Some t \<Rightarrow> tr_word t)"

section \<open>What happens by itself\<close>

datatype mig_event =
    Memory_arrives string bool
  | Transfer_fails string
  | Machine_ends string
  | Mirror_turns string string
  | Target_chosen string
  | Abort_asked
  | Migration_begins string
  | Placed_on_target
  | Node_reboots string

definition machine_gone :: "string \<Rightarrow> mig_world \<Rightarrow> mig_world" where
  "machine_gone n w = set_transfer n None (set_run n Absent w)"

definition fresh_node :: mig_node where
  "fresh_node = \<lparr>nd_vm = None, nd_incoming = None, nd_forced = None, nd_registered = None, nd_sent = [], nd_done = []\<rparr>"

definition mirror_turns :: "string option \<Rightarrow> string \<Rightarrow> bool" where
  "mirror_turns was now =
     ((was = Some ''copying'' \<and> (now = ''synced'' \<or> now = ''failed'')) \<or> (was = Some ''synced'' \<and> now = ''failed''))"

text \<open>The guest runs on the target when the stream ends, or is left paused there; the source's machine
  is paused. A migration begins on the node the VMI is placed on, once the one before is over and
  the VMI placed accordingly, and has a uid of its own.\<close>
primrec happen :: "mig_event \<Rightarrow> mig_world \<Rightarrow> mig_world" where
  "happen (Memory_arrives n paused) w =
     (case mw_transfers w n of
        None \<Rightarrow> w
      | Some t \<Rightarrow>
          if tr_word t = ''active'' \<and> run_state_of w n = Running \<and> run_state_of w (tr_to t) = Waiting
          then set_transfer n (Some (t\<lparr>tr_word := ''completed''\<rparr>))
                 (set_run (tr_to t) (if paused then Paused else Running) (set_run n Paused w))
          else w)"
| "happen (Transfer_fails n) w =
     (case mw_transfers w n of
        None \<Rightarrow> w
      | Some t \<Rightarrow> if tr_word t = ''active'' then set_transfer n (Some (t\<lparr>tr_word := ''failed''\<rparr>)) w else w)"
| "happen (Machine_ends n) w = machine_gone n w"
| "happen (Mirror_turns i s) w =
     (if mirror_turns (mw_mirrors w i) s then w\<lparr>mw_mirrors := (mw_mirrors w)(i \<mapsto> s)\<rparr> else w)"
| "happen (Target_chosen t) w =
     (case mw_state w of
        None \<Rightarrow> w
      | Some s \<Rightarrow> if mig_active s \<and> ms_target s = None \<and> t \<noteq> ms_source s
                 then w\<lparr>mw_state := Some (s\<lparr>ms_target := Some t\<rparr>)\<rparr> else w)"
| "happen Abort_asked w = w\<lparr>mw_state := map_option (\<lambda>s. s\<lparr>ms_abort := True\<rparr>) (mw_state w)\<rparr>"
| "happen (Migration_begins uid) w =
     (if uid \<noteq> [] \<and> uid \<notin> set (mw_used w) \<and>
         (case mw_state w of
            None \<Rightarrow> True
          | Some s \<Rightarrow> \<not> mig_active s \<and> (mig_moved s \<longrightarrow> ms_target s = Some (mw_placed w)))
      then w\<lparr>mw_state := Some \<lparr>ms_uid = uid, ms_source = mw_placed w, ms_target = None, ms_address = None,
               ms_port = None, ms_started = False, ms_completed = False, ms_failed = False, ms_abort = False\<rparr>,
             mw_used := uid # mw_used w\<rparr>
      else w)"
| "happen Placed_on_target w =
     (case mw_state w of
        None \<Rightarrow> w
      | Some s \<Rightarrow> (case ms_target s of
                    None \<Rightarrow> w
                  | Some t \<Rightarrow> if mig_moved s then w\<lparr>mw_placed := t\<rparr> else w))"
| "happen (Node_reboots n) w = on_node n (\<lambda>_. fresh_node) (machine_gone n w)"

text \<open>A node does not reboot in the middle of its own pass.\<close>
definition in_passing :: "mig_event \<Rightarrow> bool" where
  "in_passing e = (case e of Node_reboots n \<Rightarrow> False | _ \<Rightarrow> True)"

record mig_outcome = call_outcome +
  mo_events :: "mig_event list"
  mo_id :: string
  mo_named :: bool
  mo_reaches :: string

type_synonym 'a mig_calls = "(mig_world, mig_outcome, 'a) calling"

definition in_between :: "mig_outcome \<Rightarrow> mig_world \<Rightarrow> mig_world" where
  "in_between oc w = fold happen (filter in_passing (mo_events oc)) w"

abbreviation mig_call ::
  "(mig_outcome \<Rightarrow> mig_world \<Rightarrow> mig_world) \<Rightarrow> (mig_outcome \<Rightarrow> mig_world \<Rightarrow> 'a) \<Rightarrow> (string + 'a) mig_calls" where
  "mig_call \<equiv> call_amid in_between"

abbreviation mig_call_if ::
  "(mig_outcome \<Rightarrow> mig_world \<Rightarrow> bool) \<Rightarrow> (mig_outcome \<Rightarrow> mig_world \<Rightarrow> mig_world) \<Rightarrow>
   (mig_outcome \<Rightarrow> mig_world \<Rightarrow> 'a) \<Rightarrow> (string + 'a) mig_calls" where
  "mig_call_if \<equiv> call_amid_if in_between"

section \<open>Calls\<close>

text \<open>What a node has, and what a pass over the VMI is told: the machine's hypervisor, its disks with
  their volumes and those it made, whether it is on the pod network or has a disk elsewhere; the
  disks the VMI's spec names; ports other receivers have; whether a failed start is given up.\<close>
record mig_config =
  mk_storage :: "string \<Rightarrow> bool"
  mk_certificate :: "string \<Rightarrow> bool"
  mk_ip :: "string \<Rightarrow> string"
  mk_port :: "string \<Rightarrow> nat"
  mk_used_ports :: "string \<Rightarrow> nat list"
  mk_control :: "string \<Rightarrow> bool"
  mk_cloud_hypervisor :: "string \<Rightarrow> bool"
  mk_kind :: string
  mk_disks :: "(string \<times> string option) list"
  mk_owned :: "string list"
  mk_pod_network :: bool
  mk_off_node :: "off_node_reason option"
  mk_spec_disks :: "string list"
  mk_gives_up :: bool

definition missing :: "mig_config \<Rightarrow> string \<Rightarrow> bool" where
  "missing cfg n = (lacks (mk_storage cfg n) (mk_certificate cfg n) (mk_ip cfg n) \<noteq> [])"

definition refused :: "mig_config \<Rightarrow> bool" where
  "refused cfg =
     (mig_refusal (mk_cloud_hypervisor cfg) (mk_kind cfg) (mk_disks cfg) (mk_owned cfg) (mk_pod_network cfg) \<noteq> None \<or>
      mk_off_node cfg \<noteq> None)"

text \<open>The VMI as a pass is handed it.\<close>
record vmi_view =
  vv_state :: "mig_state option"
  vv_disks :: "(string \<times> disk_ids) option"
  vv_placed :: string

definition view_now :: "mig_world \<Rightarrow> vmi_view" where
  "view_now w = \<lparr>vv_state = mw_state w, vv_disks = mw_disks w, vv_placed = mw_placed w\<rparr>"

definition disks_for :: "vmi_view \<Rightarrow> string \<Rightarrow> disk_ids option" where
  "disks_for v uid = (case vv_disks v of Some (u, ds) \<Rightarrow> if u = uid then Some ds else None | None \<Rightarrow> None)"

subsection \<open>The API server\<close>

text \<open>A merge into the VMI's migration state, if the object still records this migration.\<close>
definition write_migration :: "vmi_view \<Rightarrow> string \<Rightarrow> (mig_state \<Rightarrow> mig_state) \<Rightarrow> bool mig_calls" where
  "write_migration v uid written =
     (if map_option ms_uid (vv_state v) \<noteq> Some uid then done_with False
      else and_then (mig_call (\<lambda>oc w. w\<lparr>mw_state := map_option written (mw_state w)\<rparr>) (\<lambda>oc w. ()))
        (\<lambda>a. done_with (case a of Inl e \<Rightarrow> False | Inr u \<Rightarrow> True)))"

definition fail_migration :: "vmi_view \<Rightarrow> mig_state \<Rightarrow> unit mig_calls" where
  "fail_migration v s = and_then (write_migration v (ms_uid s) (\<lambda>m. m\<lparr>ms_failed := True\<rparr>)) (\<lambda>_. done_with ())"

definition annotate :: "string \<Rightarrow> disk_ids \<Rightarrow> bool mig_calls" where
  "annotate uid made =
     and_then (mig_call (\<lambda>oc w. w\<lparr>mw_disks := Some (uid, made)\<rparr>) (\<lambda>oc w. ()))
       (\<lambda>a. done_with (case a of Inl e \<Rightarrow> False | Inr u \<Rightarrow> True))"

subsection \<open>The storage service\<close>

text \<open>\<open>get\<close>: the state and whether the copy is named; no such mirror is \<open>None\<close>, the answer 404.\<close>
definition mirror_get :: "string \<Rightarrow> (string + (string \<times> bool) option) mig_calls" where
  "mirror_get i = mig_call (\<lambda>oc w. w) (\<lambda>oc w. map_option (\<lambda>st. (st, mo_named oc)) (mw_mirrors w i))"

definition mirror_verb :: "(string \<Rightarrow> string) \<Rightarrow> string \<Rightarrow> (string + unit) mig_calls" where
  "mirror_verb f i = mig_call (\<lambda>oc w. w\<lparr>mw_mirrors := (mw_mirrors w)(i := map_option f (mw_mirrors w i))\<rparr>) (\<lambda>oc w. ())"

definition abort_mirror :: "string \<Rightarrow> string" where
  "abort_mirror st = (if st = ''completed'' then st else ''aborted'')"

text \<open>The verbs that move a mirror on after the guest did.\<close>
definition finish_verb :: "string \<Rightarrow> (string \<Rightarrow> string) option" where
  "finish_verb st =
     (if st = ''synced'' then Some (\<lambda>x. if x = ''synced'' then ''cut_over'' else x)
      else if st = ''cut_over'' then Some (\<lambda>x. if x = ''cut_over'' then ''completed'' else x)
      else if st = ''failed'' then Some (\<lambda>x. if x = ''failed'' then ''copying'' else x)
      else None)"

text \<open>\<open>start\<close>: a new mirror.\<close>
definition mirror_start :: "(string + string) mig_calls" where
  "mirror_start =
     mig_call_if (\<lambda>oc w. mo_id oc \<noteq> [] \<and> mw_mirrors w (mo_id oc) = None)
       (\<lambda>oc w. w\<lparr>mw_mirrors := (mw_mirrors w)(mo_id oc \<mapsto> ''copying'')\<rparr>) (\<lambda>oc w. mo_id oc)"

subsection \<open>The engine and the machine\<close>

text \<open>A machine is started, running or waiting for its memory. Its tap is held while there is another
  one; a start that fails is undone.\<close>
definition launch :: "string \<Rightarrow> run_state \<Rightarrow> (string + nat) mig_calls" where
  "launch n r =
     mig_call_if (\<lambda>oc w. run_state_of w n = Absent \<and> oc_ok oc)
       (\<lambda>oc w. let h = Suc (mh_handle (mw_machines w n))
               in on_node n (\<lambda>d. d\<lparr>nd_registered := Some h\<rparr>)
                    (set_transfer n None (w\<lparr>mw_machines := (mw_machines w)(n := \<lparr>mh_handle = h, mh_state = r\<rparr>)\<rparr>)))
       (\<lambda>oc w. mh_handle (mw_machines w n))"

text \<open>\<open>stop\<close>: the machine with this handle ends; when every cleanup is confirmed, the registration
  under the machine's name goes.\<close>
definition stop :: "string \<Rightarrow> nat \<Rightarrow> bool mig_calls" where
  "stop n h =
     and_then
       (mig_call
         (\<lambda>oc w. let w1 = (if mh_handle (mw_machines w n) = h then machine_gone n w else w)
                 in if oc_ok oc then on_node n (\<lambda>d. d\<lparr>nd_registered := None\<rparr>) w1 else w1)
         (\<lambda>oc w. ()))
       (\<lambda>a. done_with (case a of Inl e \<Rightarrow> False | Inr u \<Rightarrow> True))"

text \<open>A machine that does not run cannot send. What listens at the address may be no receiver.\<close>
definition send_memory :: "mig_config \<Rightarrow> string \<Rightarrow> string \<Rightarrow> string \<Rightarrow> (string + unit) mig_calls" where
  "send_memory cfg n uid address =
     mig_call_if (\<lambda>oc w. run_state_of w n = Running \<and> transfer_word w n \<noteq> ''active'')
       (\<lambda>oc w. set_transfer n (Some \<lparr>tr_uid = uid, tr_to = mo_reaches oc,
                 tr_word = (if mk_ip cfg (mo_reaches oc) = address then ''active'' else ''failed'')\<rparr>) w)
       (\<lambda>oc w. ())"

definition progress :: "string \<Rightarrow> (string + string) mig_calls" where
  "progress n = mig_call (\<lambda>oc w. w) (\<lambda>oc w. transfer_word w n)"

text \<open>\<open>migrate_cancel\<close>, which succeeds also when nothing is being sent.\<close>
definition cancel :: "string \<Rightarrow> (string + unit) mig_calls" where
  "cancel n =
     mig_call (\<lambda>oc w. case mw_transfers w n of
                 Some t \<Rightarrow> if tr_word t = ''active'' then set_transfer n (Some (t\<lparr>tr_word := ''cancelled''\<rparr>)) w else w
               | None \<Rightarrow> w) (\<lambda>oc w. ())"

definition machine_state :: "string \<Rightarrow> (string + run_state) mig_calls" where
  "machine_state n = mig_call (\<lambda>oc w. w) (\<lambda>oc w. run_state_of w n)"

definition unpause_machine :: "string \<Rightarrow> (string + unit) mig_calls" where
  "unpause_machine n =
     mig_call (\<lambda>oc w. if run_state_of w n = Paused then set_run n Running w else w) (\<lambda>oc w. ())"

text \<open>A call that changes nothing here: attaching a copy, laying the certificate out, arming the
  listener, asking whether the machine ended.\<close>
definition does_it :: "bool mig_calls" where
  "does_it = and_then (mig_call (\<lambda>oc w. w) (\<lambda>oc w. ())) (\<lambda>a. done_with (case a of Inl e \<Rightarrow> False | Inr u \<Rightarrow> True))"

section \<open>Stopping by force, and the disks\<close>

abbreviation set_forced :: "string \<Rightarrow> nat \<Rightarrow> mig_world \<Rightarrow> mig_world" where
  "set_forced n h \<equiv> on_node n (\<lambda>d. d\<lparr>nd_forced := Some h\<rparr>)"

definition finish_forced :: "string \<Rightarrow> bool mig_calls" where
  "finish_forced n =
     and_then (look (\<lambda>w. nd_forced (mw_nodes w n))) (\<lambda>f.
       case f of
         None \<Rightarrow> done_with True
       | Some h \<Rightarrow> and_then (stop n h) (\<lambda>b.
           if b then and_then (change (on_node n (\<lambda>d. d\<lparr>nd_forced := None\<rparr>))) (\<lambda>_. done_with True)
           else done_with False))"

text \<open>A receiver given up on.\<close>
definition drop_receiver :: "string \<Rightarrow> unit mig_calls" where
  "drop_receiver n =
     change (\<lambda>w. case nd_incoming (mw_nodes w n) of
       None \<Rightarrow> w
     | Some inc \<Rightarrow> on_node n (\<lambda>d. d\<lparr>nd_incoming := None, nd_forced := Some (rc_handle inc)\<rparr>) w)"

text \<open>A machine of this node's that is to stop at once.\<close>
definition force_machine :: "string \<Rightarrow> unit mig_calls" where
  "force_machine n =
     change (\<lambda>w. case nd_vm (mw_nodes w n) of
       None \<Rightarrow> w
     | Some e \<Rightarrow> on_node n (\<lambda>d. d\<lparr>nd_vm := None, nd_forced := Some (ve_handle e)\<rparr>) w)"

definition mark_done :: "string \<Rightarrow> string \<Rightarrow> unit mig_calls" where
  "mark_done n uid = change (on_node n (\<lambda>d. d\<lparr>nd_done := uid # nd_done d\<rparr>))"

text \<open>A failed migration's mirrors; the result is whether every one was aborted or is over.\<close>
fun abort_each_mirror :: "disk_ids \<Rightarrow> bool \<Rightarrow> bool mig_calls" where
  "abort_each_mirror [] all = done_with all"
| "abort_each_mirror ((d, i) # ds) all =
     and_then (mirror_get i) (\<lambda>a.
       case a of
         Inl e \<Rightarrow> abort_each_mirror ds (all \<and> contains_str e ''404'')
       | Inr None \<Rightarrow> abort_each_mirror ds all
       | Inr (Some (st, nm)) \<Rightarrow>
           if st = ''aborted'' \<or> st = ''completed'' then abort_each_mirror ds all
           else and_then (mirror_verb abort_mirror i) (\<lambda>b.
             abort_each_mirror ds (all \<and> (case b of Inl e \<Rightarrow> False | Inr u \<Rightarrow> True))))"

definition abort_disks :: "mig_config \<Rightarrow> string \<Rightarrow> vmi_view \<Rightarrow> mig_state \<Rightarrow> unit mig_calls" where
  "abort_disks cfg n v s =
     and_then (look (\<lambda>w. ms_uid s \<in> set (nd_done (mw_nodes w n)))) (\<lambda>already.
       if already then done_with ()
       else if disks_for v (ms_uid s) = None \<or> \<not> mk_storage cfg n then mark_done n (ms_uid s)
       else and_then (abort_each_mirror (the (disks_for v (ms_uid s))) True) (\<lambda>all.
         if all then mark_done n (ms_uid s) else done_with ()))"

text \<open>After the guest moved: each disk cut over to the copy here and completed, never aborted.\<close>
fun finish_each_mirror :: "disk_ids \<Rightarrow> bool \<Rightarrow> bool mig_calls" where
  "finish_each_mirror [] all = done_with all"
| "finish_each_mirror ((d, i) # ds) all =
     and_then (mirror_get i) (\<lambda>a.
       case a of
         Inl e \<Rightarrow> finish_each_mirror ds (all \<and> contains_str e ''404'')
       | Inr None \<Rightarrow> finish_each_mirror ds all
       | Inr (Some (st, nm)) \<Rightarrow>
           if st = ''completed'' \<or> st = ''aborted'' then finish_each_mirror ds all
           else (case finish_verb st of
                   None \<Rightarrow> finish_each_mirror ds False
                 | Some f \<Rightarrow> and_then (mirror_verb f i) (\<lambda>_. finish_each_mirror ds False)))"

definition finish_disks :: "mig_config \<Rightarrow> string \<Rightarrow> vmi_view \<Rightarrow> mig_state \<Rightarrow> unit mig_calls" where
  "finish_disks cfg n v s =
     and_then (look (\<lambda>w. ms_uid s \<in> set (nd_done (mw_nodes w n)))) (\<lambda>already.
       if already then done_with ()
       else if disks_for v (ms_uid s) = None \<or> \<not> mk_storage cfg n then mark_done n (ms_uid s)
       else and_then (finish_each_mirror (the (disks_for v (ms_uid s))) True) (\<lambda>all.
         if all then mark_done n (ms_uid s) else done_with ()))"

section \<open>The source\<close>

text \<open>A mirror for each disk, until one is refused: whether none was, and those made.\<close>
fun start_mirrors :: "string list \<Rightarrow> disk_ids \<Rightarrow> (bool \<times> disk_ids) mig_calls" where
  "start_mirrors [] made = done_with (True, made)"
| "start_mirrors (d # ds) made =
     and_then mirror_start (\<lambda>a.
       case a of Inl e \<Rightarrow> done_with (False, made) | Inr i \<Rightarrow> start_mirrors ds (bt_insert d i made))"

fun take_back :: "disk_ids \<Rightarrow> unit mig_calls" where
  "take_back [] = done_with ()"
| "take_back ((d, i) # ds) = and_then (mirror_verb abort_mirror i) (\<lambda>_. take_back ds)"

definition mirror_disks :: "mig_config \<Rightarrow> vmi_view \<Rightarrow> mig_state \<Rightarrow> bool mig_calls" where
  "mirror_disks cfg v s =
     and_then (start_mirrors (map fst (mk_disks cfg)) []) (\<lambda>(ok, made).
       and_then (if ok then annotate (ms_uid s) made else done_with False) (\<lambda>recorded.
         if recorded then done_with True
         else and_then (take_back made) (\<lambda>_. and_then (fail_migration v s) (\<lambda>_. done_with False))))"

definition while_sending :: "string \<Rightarrow> vmi_view \<Rightarrow> mig_state \<Rightarrow> unit mig_calls" where
  "while_sending n v s =
     (if ms_abort s
      then and_then (cancel n) (\<lambda>a. case a of Inl e \<Rightarrow> done_with () | Inr u \<Rightarrow> fail_migration v s)
      else and_then (progress n) (\<lambda>a.
        case a of
          Inl e \<Rightarrow> done_with ()
        | Inr st \<Rightarrow>
            if st = ''completed''
            then and_then (write_migration v (ms_uid s) (\<lambda>m. m\<lparr>ms_completed := True\<rparr>)) (\<lambda>_. done_with ())
            else if st = ''failed'' \<or> st = ''cancelled'' then fail_migration v s
            else done_with ()))"

definition send_to_target :: "mig_config \<Rightarrow> string \<Rightarrow> vmi_view \<Rightarrow> mig_state \<Rightarrow> bool mig_calls" where
  "send_to_target cfg n v s =
     and_then does_it (\<lambda>laid_out.
       if \<not> laid_out then and_then (fail_migration v s) (\<lambda>_. done_with False)
       else and_then (send_memory cfg n (ms_uid s) (the (ms_address s))) (\<lambda>a.
         case a of
           Inl e \<Rightarrow> and_then (fail_migration v s) (\<lambda>_. done_with False)
         | Inr u \<Rightarrow>
             and_then (change (on_node n (\<lambda>d. d\<lparr>nd_sent := ms_uid s # nd_sent d\<rparr>))) (\<lambda>_.
               and_then (write_migration v (ms_uid s) (\<lambda>m. m\<lparr>ms_started := True\<rparr>)) (\<lambda>_. done_with True))))"

text \<open>The part of a migration in flight, the machine running here.\<close>
definition carry_out :: "mig_config \<Rightarrow> string \<Rightarrow> vmi_view \<Rightarrow> mig_state \<Rightarrow> bool mig_calls" where
  "carry_out cfg n v s =
     and_then (look (\<lambda>w. ms_started s \<or> ms_uid s \<in> set (nd_sent (mw_nodes w n)))) (\<lambda>started.
       if ms_abort s \<and> \<not> started then and_then (fail_migration v s) (\<lambda>_. done_with False)
       else if ms_target s = None then done_with False
       else if missing cfg n \<or> refused cfg then and_then (fail_migration v s) (\<lambda>_. done_with False)
       else if disks_for v (ms_uid s) = None then mirror_disks cfg v s
       else if \<not> mk_control cfg n then done_with True
       else if started then and_then (while_sending n v s) (\<lambda>_. done_with True)
       else if ms_address s = None \<or> ms_port s = None then done_with True
       else send_to_target cfg n v s)"

definition migrate_out :: "mig_config \<Rightarrow> string \<Rightarrow> vmi_view \<Rightarrow> mig_state \<Rightarrow> bool mig_calls" where
  "migrate_out cfg n v s =
     (if mig_moved s
      then and_then (force_machine n) (\<lambda>_. and_then (finish_forced n) (\<lambda>_. done_with True))
      else if ms_failed s then and_then (abort_disks cfg n v s) (\<lambda>_. done_with False)
      else and_then (look (\<lambda>w. nd_vm (mw_nodes w n))) (\<lambda>vm.
        case vm of
          Some e \<Rightarrow>
            if ve_ended e
            then and_then (if ms_started s then done_with () else fail_migration v s) (\<lambda>_. done_with False)
            else carry_out cfg n v s
        | None \<Rightarrow> and_then (if ms_started s then done_with () else fail_migration v s) (\<lambda>_. done_with False)))"

section \<open>The target\<close>

text \<open>The copies in sync; \<open>None\<close> when one failed or was aborted.\<close>
fun gather_copies :: "disk_ids \<Rightarrow> disk_ids \<Rightarrow> disk_ids option mig_calls" where
  "gather_copies [] copies = done_with (Some copies)"
| "gather_copies ((d, i) # ds) copies =
     and_then (mirror_get i) (\<lambda>a.
       case a of
         Inr (Some (st, named)) \<Rightarrow>
           if st = ''synced'' \<and> named then gather_copies ds (bt_insert d i copies)
           else if st = ''failed'' \<or> st = ''aborted'' then done_with None
           else gather_copies ds copies
       | _ \<Rightarrow> gather_copies ds copies)"

text \<open>Every disk of the spec has a copy, and it attaches.\<close>
fun attach_copies :: "string list \<Rightarrow> disk_ids \<Rightarrow> bool mig_calls" where
  "attach_copies [] copies = done_with True"
| "attach_copies (d # ds) copies =
     (if map_of copies d = None then done_with False
      else and_then does_it (\<lambda>b. if b then attach_copies ds copies else done_with False))"

text \<open>The control socket comes up a moment after the spawn: the listener is tried this many times.\<close>
fun arm_listener :: "nat \<Rightarrow> bool mig_calls" where
  "arm_listener 0 = done_with False"
| "arm_listener (Suc k) = and_then does_it (\<lambda>b. if b then done_with True else arm_listener k)"

definition receive :: "mig_config \<Rightarrow> string \<Rightarrow> mig_state \<Rightarrow> disk_ids \<Rightarrow> receiver option mig_calls" where
  "receive cfg n s copies =
     and_then (attach_copies (mk_spec_disks cfg) copies) (\<lambda>b.
       if \<not> b then done_with None
       else and_then does_it (\<lambda>laid_out.
         if \<not> laid_out then done_with None
         else and_then (launch n Waiting) (\<lambda>a.
           case a of
             Inl e \<Rightarrow> done_with None
           | Inr h \<Rightarrow>
               and_then (if mk_control cfg n then arm_listener 50 else done_with False) (\<lambda>armed.
                 if armed
                 then done_with (Some \<lparr>rc_migration = ms_uid s, rc_handle = h,
                        rc_port = pick_port (first_port (mk_port cfg n)) (mk_used_ports cfg n), rc_reported = False\<rparr>)
                 else and_then (change (set_forced n h)) (\<lambda>_. done_with None)))))"

definition say_ready :: "mig_config \<Rightarrow> string \<Rightarrow> vmi_view \<Rightarrow> mig_state \<Rightarrow> nat \<Rightarrow> bool mig_calls" where
  "say_ready cfg n v s port =
     write_migration v (ms_uid s) (\<lambda>m. m\<lparr>ms_address := Some (mk_ip cfg n), ms_port := Some port\<rparr>)"

text \<open>The memory arrived: a machine left paused is run, and it is this node's like any other.\<close>
definition arrive :: "mig_config \<Rightarrow> string \<Rightarrow> receiver \<Rightarrow> unit mig_calls" where
  "arrive cfg n inc =
     and_then
       (if mk_control cfg n
        then and_then (machine_state n) (\<lambda>a. case a of
               Inr Paused \<Rightarrow> and_then (unpause_machine n) (\<lambda>_. done_with ()) | _ \<Rightarrow> done_with ())
        else done_with ())
       (\<lambda>_. change (on_node n (\<lambda>d. d\<lparr>nd_vm := Some \<lparr>ve_handle = rc_handle inc, ve_ended = False\<rparr>,
                                   nd_registered := Some (rc_handle inc)\<rparr>)))"

definition settle_in :: "mig_config \<Rightarrow> string \<Rightarrow> vmi_view \<Rightarrow> mig_state \<Rightarrow> unit mig_calls" where
  "settle_in cfg n v s =
     and_then (look (\<lambda>w. nd_incoming (mw_nodes w n))) (\<lambda>io.
       and_then (change (on_node n (\<lambda>d. d\<lparr>nd_incoming := None\<rparr>))) (\<lambda>_.
         and_then (case io of None \<Rightarrow> done_with () | Some inc \<Rightarrow> arrive cfg n inc) (\<lambda>_.
           and_then (look (\<lambda>w. nd_vm (mw_nodes w n))) (\<lambda>vm.
             if vm = None then done_with () else finish_disks cfg n v s))))"

definition start_receiver :: "mig_config \<Rightarrow> string \<Rightarrow> vmi_view \<Rightarrow> mig_state \<Rightarrow> disk_ids \<Rightarrow> unit mig_calls" where
  "start_receiver cfg n v s disks =
     and_then (gather_copies disks []) (\<lambda>cs.
       case cs of
         None \<Rightarrow> fail_migration v s
       | Some copies \<Rightarrow>
           if length copies < length disks then done_with ()
           else and_then (receive cfg n s copies) (\<lambda>io.
             case io of
               None \<Rightarrow> fail_migration v s
             | Some inc \<Rightarrow> and_then (say_ready cfg n v s (rc_port inc)) (\<lambda>b.
                 change (on_node n (\<lambda>d. d\<lparr>nd_incoming := Some (inc\<lparr>rc_reported := b\<rparr>)\<rparr>)))))"

text \<open>One that receives already: where to send is said until it is written.\<close>
definition keep_receiving :: "mig_config \<Rightarrow> string \<Rightarrow> vmi_view \<Rightarrow> mig_state \<Rightarrow> receiver \<Rightarrow> unit mig_calls" where
  "keep_receiving cfg n v s inc =
     (if rc_reported inc then done_with ()
      else and_then (say_ready cfg n v s (rc_port inc)) (\<lambda>b.
        change (on_node n (\<lambda>d. d\<lparr>nd_incoming := map_option (\<lambda>i. i\<lparr>rc_reported := b\<rparr>) (nd_incoming d)\<rparr>))))"

definition migrate_in :: "mig_config \<Rightarrow> string \<Rightarrow> vmi_view \<Rightarrow> mig_state \<Rightarrow> bool mig_calls" where
  "migrate_in cfg n v s =
     (if mig_moved s then and_then (settle_in cfg n v s) (\<lambda>_. done_with False)
      else and_then (look (\<lambda>w. mw_nodes w n)) (\<lambda>d.
        and_then
          (if nd_vm d \<noteq> None then and_then (force_machine n) (\<lambda>_. fail_migration v s)
           else if ms_abort s \<and> \<not> ms_started s then drop_receiver n
           else (case nd_incoming d of
                   Some inc \<Rightarrow> keep_receiving cfg n v s inc
                 | None \<Rightarrow>
                     if missing cfg n then fail_migration v s
                     else (case disks_for v (ms_uid s) of
                             None \<Rightarrow> done_with ()
                           | Some disks \<Rightarrow> start_receiver cfg n v s disks)))
          (\<lambda>_. done_with True)))"

section \<open>A pass over the VMI\<close>

definition migrate :: "mig_config \<Rightarrow> string \<Rightarrow> vmi_view \<Rightarrow> bool mig_calls" where
  "migrate cfg n v =
     (case role_in (vv_state v) n of
        Some (Target s) \<Rightarrow> migrate_in cfg n v s
      | Some (Source s) \<Rightarrow> migrate_out cfg n v s
      | None \<Rightarrow> done_with False)"

text \<open>A machine that ended is recorded as ended (\<open>absorb_ends_for\<close>), when the engine says so.\<close>
definition absorb_end :: "string \<Rightarrow> unit mig_calls" where
  "absorb_end n =
     and_then (look (\<lambda>w. nd_vm (mw_nodes w n))) (\<lambda>vm.
       case vm of
         None \<Rightarrow> done_with ()
       | Some e \<Rightarrow>
           and_then (mig_call (\<lambda>oc w. w)
                      (\<lambda>oc w. mh_handle (mw_machines w n) \<noteq> ve_handle e \<or> run_state_of w n = Absent)) (\<lambda>a.
             case a of
               Inr True \<Rightarrow> change (on_node n (\<lambda>d. d\<lparr>nd_vm := map_option (\<lambda>x. x\<lparr>ve_ended := True\<rparr>) (nd_vm d)\<rparr>))
             | _ \<Rightarrow> done_with ()))"

text \<open>A cold start, of a VMI with no machine here that did not move away.\<close>
definition start_cold :: "mig_config \<Rightarrow> string \<Rightarrow> vmi_view \<Rightarrow> unit mig_calls" where
  "start_cold cfg n v =
     and_then (look (\<lambda>w. mw_nodes w n)) (\<lambda>d.
       if nd_vm d \<noteq> None \<or> nd_forced d \<noteq> None \<or> moved_away_in (vv_state v) n then done_with ()
       else and_then (launch n Running) (\<lambda>a.
         case a of
           Inr h \<Rightarrow> change (on_node n (\<lambda>d. d\<lparr>nd_vm := Some \<lparr>ve_handle = h, ve_ended = False\<rparr>\<rparr>))
         | Inl e \<Rightarrow>
             if mk_gives_up cfg
             then change (on_node n (\<lambda>d. d\<lparr>nd_vm := Some \<lparr>ve_handle = 0, ve_ended = True\<rparr>\<rparr>))
             else done_with ()))"

text \<open>The VMI is not (or no more) this node's: its receiver and its machine stop.\<close>
definition let_go :: "string \<Rightarrow> unit mig_calls" where
  "let_go n =
     and_then (drop_receiver n) (\<lambda>_. and_then (finish_forced n) (\<lambda>b.
       if \<not> b then done_with ()
       else and_then (look (\<lambda>w. nd_vm (mw_nodes w n))) (\<lambda>vm.
         case vm of
           None \<Rightarrow> done_with ()
         | Some e \<Rightarrow> and_then (stop n (ve_handle e)) (\<lambda>b.
             if b then change (on_node n (\<lambda>d. d\<lparr>nd_vm := None\<rparr>)) else done_with ()))))"

definition vmi_pass :: "mig_config \<Rightarrow> string \<Rightarrow> unit mig_calls" where
  "vmi_pass cfg n =
     and_then (look view_now) (\<lambda>v.
       if vv_placed v = n \<or> arriving_in (vv_state v) n
       then and_then (finish_forced n) (\<lambda>_. and_then (migrate cfg n v) (\<lambda>b.
              if b then done_with () else and_then (absorb_end n) (\<lambda>_. start_cold cfg n v)))
       else let_go n)"

text \<open>The kubelet starts again: it knows what the machine's registration says.\<close>
definition kubelet_restarts :: "string \<Rightarrow> mig_world \<Rightarrow> mig_world" where
  "kubelet_restarts n =
     on_node n (\<lambda>d. fresh_node\<lparr>nd_registered := nd_registered d,
       nd_vm := map_option (\<lambda>h. \<lparr>ve_handle = h, ve_ended = False\<rparr>) (nd_registered d)\<rparr>)"

datatype mig_move = Pass string "mig_outcome list" | Restart string | Happens mig_event

definition move_once :: "mig_config \<Rightarrow> mig_move \<Rightarrow> mig_world \<Rightarrow> mig_world" where
  "move_once cfg m w =
     (case m of
        Pass n os \<Rightarrow> (case vmi_pass cfg n (w, os) of (Some _, w', _) \<Rightarrow> w' | (None, w', _) \<Rightarrow> kubelet_restarts n w')
      | Restart n \<Rightarrow> kubelet_restarts n w
      | Happens e \<Rightarrow> happen e w)"

definition run_moves :: "mig_config \<Rightarrow> mig_move list \<Rightarrow> mig_world \<Rightarrow> mig_world" where
  "run_moves cfg ms w = fold (move_once cfg) ms w"

text \<open>A VMI placed on a node, nothing started yet.\<close>
definition placed_vmi :: "string \<Rightarrow> mig_world" where
  "placed_vmi n =
     \<lparr>mw_state = None, mw_disks = None, mw_placed = n, mw_used = [], mw_nodes = (\<lambda>_. fresh_node),
      mw_machines = (\<lambda>_. \<lparr>mh_handle = 0, mh_state = Absent\<rparr>), mw_transfers = (\<lambda>_. None), mw_mirrors = (\<lambda>_. None)\<rparr>"

end
