(* ===== verification/MigrationSafety.thy ===== *)
theory MigrationSafety
  imports MigrationPass
begin

text \<open>A migrating guest runs on one node at most, whichever calls fail, whichever answers are lost and
  wherever a kubelet stops, as long as no node reboots and no kubelet that starts again has lost the
  registration of its machine. The invariant ties the machines that run to the transfers, to the
  VMI's migration state and to what the kubelet of the VMI's node knows.\<close>

section \<open>The invariant\<close>

lemma run_state_simps [simp]:
  "run_state_of (on_node n f w) m = run_state_of w m"
  "run_state_of (set_transfer n t w) m = run_state_of w m"
  "run_state_of (set_run n r w) m = (if m = n then r else run_state_of w m)"
  "run_state_of (machine_gone n w) m = (if m = n then Absent else run_state_of w m)"
  "run_state_of (w\<lparr>mw_state := so\<rparr>) m = run_state_of w m"
  "run_state_of (w\<lparr>mw_disks := ds\<rparr>) m = run_state_of w m"
  "run_state_of (w\<lparr>mw_placed := p\<rparr>) m = run_state_of w m"
  "run_state_of (w\<lparr>mw_mirrors := ms\<rparr>) m = run_state_of w m"
  "run_state_of (w\<lparr>mw_used := us\<rparr>) m = run_state_of w m"
  by (simp_all add: run_state_of_def on_node_def set_run_def set_transfer_def machine_gone_def)

lemma transfer_simps [simp]:
  "mw_transfers (on_node n f w) = mw_transfers w"
  "mw_transfers (set_transfer n t w) = (mw_transfers w)(n := t)"
  "mw_transfers (set_run n r w) = mw_transfers w"
  "mw_transfers (machine_gone n w) = (mw_transfers w)(n := None)"
  by (simp_all add: on_node_def set_run_def set_transfer_def machine_gone_def)

lemma node_simps [simp]:
  "mw_nodes (on_node n f w) = (mw_nodes w)(n := f (mw_nodes w n))"
  "mw_nodes (set_transfer n t w) = mw_nodes w"
  "mw_nodes (set_run n r w) = mw_nodes w"
  "mw_nodes (machine_gone n w) = mw_nodes w"
  by (simp_all add: on_node_def set_run_def set_transfer_def machine_gone_def)

lemma vmi_simps [simp]:
  "mw_state (on_node n f w) = mw_state w" "mw_state (set_transfer n t w) = mw_state w"
  "mw_state (set_run n r w) = mw_state w" "mw_state (machine_gone n w) = mw_state w"
  "mw_placed (on_node n f w) = mw_placed w" "mw_placed (set_transfer n t w) = mw_placed w"
  "mw_placed (set_run n r w) = mw_placed w" "mw_placed (machine_gone n w) = mw_placed w"
  "mw_used (on_node n f w) = mw_used w" "mw_used (set_transfer n t w) = mw_used w"
  "mw_used (set_run n r w) = mw_used w" "mw_used (machine_gone n w) = mw_used w"
  "mw_mirrors (on_node n f w) = mw_mirrors w" "mw_mirrors (set_transfer n t w) = mw_mirrors w"
  "mw_mirrors (set_run n r w) = mw_mirrors w" "mw_mirrors (machine_gone n w) = mw_mirrors w"
  "mw_disks (on_node n f w) = mw_disks w" "mw_disks (set_transfer n t w) = mw_disks w"
  "mw_disks (set_run n r w) = mw_disks w" "mw_disks (machine_gone n w) = mw_disks w"
  by (simp_all add: on_node_def set_run_def set_transfer_def machine_gone_def)

text \<open>Is the memory being sent, or sent?\<close>
definition sending_from :: "mig_world \<Rightarrow> string \<Rightarrow> bool" where
  "sending_from w n = (\<exists>t. mw_transfers w n = Some t \<and> tr_word t = ''active'')"

definition sent_from :: "mig_world \<Rightarrow> string \<Rightarrow> bool" where
  "sent_from w n = (\<exists>t. mw_transfers w n = Some t \<and> tr_word t = ''completed'')"

lemma from_simps [simp]:
  "sending_from (on_node n f w) m = sending_from w m" "sent_from (on_node n f w) m = sent_from w m"
  "sending_from (set_run n r w) m = sending_from w m" "sent_from (set_run n r w) m = sent_from w m"
  "sending_from (w\<lparr>mw_state := so\<rparr>) m = sending_from w m" "sent_from (w\<lparr>mw_state := so\<rparr>) m = sent_from w m"
  "sending_from (w\<lparr>mw_placed := p\<rparr>) m = sending_from w m" "sent_from (w\<lparr>mw_placed := p\<rparr>) m = sent_from w m"
  "sending_from (w\<lparr>mw_mirrors := ms\<rparr>) m = sending_from w m" "sent_from (w\<lparr>mw_mirrors := ms\<rparr>) m = sent_from w m"
  "sending_from (w\<lparr>mw_disks := ds\<rparr>) m = sending_from w m" "sent_from (w\<lparr>mw_disks := ds\<rparr>) m = sent_from w m"
  "sending_from (set_transfer n t w) m = (if m = n then \<exists>u. t = Some u \<and> tr_word u = ''active'' else sending_from w m)"
  "sent_from (set_transfer n t w) m = (if m = n then \<exists>u. t = Some u \<and> tr_word u = ''completed'' else sent_from w m)"
  by (simp_all add: sending_from_def sent_from_def)

text \<open>No other node runs the guest, and this one sends it nowhere.\<close>
definition alone :: "string \<Rightarrow> mig_world \<Rightarrow> bool" where
  "alone n w = ((\<forall>m. m \<noteq> n \<longrightarrow> run_state_of w m \<noteq> Running) \<and> \<not> sending_from w n \<and> \<not> sent_from w n)"

text \<open>The transfer out of a node, if there is one, is this migration's, and goes to its target.\<close>
definition own_transfer :: "string \<Rightarrow> string \<Rightarrow> string option \<Rightarrow> mig_world \<Rightarrow> bool" where
  "own_transfer n uid target w =
     (\<forall>t. mw_transfers w n = Some t \<longrightarrow>
        tr_uid t = uid \<and> (tr_word t = ''active'' \<or> tr_word t = ''completed'' \<longrightarrow> target = Some (tr_to t)))"

text \<open>A migration that moved: only its target runs the guest.\<close>
definition moved_ok :: "mig_state \<Rightarrow> mig_world \<Rightarrow> bool" where
  "moved_ok s w =
     (\<exists>t. ms_target s = Some t \<and> t \<noteq> ms_source s \<and> alone t w \<and> (mw_placed w = ms_source s \<or> mw_placed w = t))"

text \<open>One in flight: the VMI is placed on its source, the address is the target's, what was sent goes
  to the target, and once the memory is there only the target runs the guest.\<close>
definition active_ok :: "mig_config \<Rightarrow> mig_state \<Rightarrow> mig_world \<Rightarrow> bool" where
  "active_ok cfg s w =
     (mw_placed w = ms_source s \<and> ms_target s \<noteq> Some (ms_source s) \<and>
      (\<forall>a. ms_address s = Some a \<longrightarrow> (\<exists>t. ms_target s = Some t \<and> a = mk_ip cfg t)) \<and>
      (ms_started s \<or> ms_uid s \<in> set (nd_sent (mw_nodes w (ms_source s))) \<longrightarrow>
         own_transfer (ms_source s) (ms_uid s) (ms_target s) w) \<and>
      (\<forall>t. mw_transfers w (ms_source s) = Some t \<longrightarrow> tr_word t = ''completed'' \<longrightarrow> tr_uid t = ms_uid s \<longrightarrow>
         alone (tr_to t) w))"

definition state_ok :: "mig_config \<Rightarrow> mig_state \<Rightarrow> mig_world \<Rightarrow> bool" where
  "state_ok cfg s w =
     (ms_uid s \<in> set (mw_used w) \<and> (mig_moved s \<longrightarrow> moved_ok s w) \<and> (mig_active s \<longrightarrow> active_ok cfg s w))"

definition machines_ok :: "mig_world \<Rightarrow> bool" where
  "machines_ok w =
     ((\<forall>m n. run_state_of w m = Running \<longrightarrow> run_state_of w n = Running \<longrightarrow> m = n) \<and>
      (\<forall>n. sending_from w n \<longrightarrow> run_state_of w n = Running \<and> n = mw_placed w \<and> nd_vm (mw_nodes w n) \<noteq> None) \<and>
      (\<forall>n. sent_from w n \<longrightarrow> run_state_of w n = Paused) \<and>
      (\<forall>m. run_state_of w m = Running \<longrightarrow> m \<noteq> mw_placed w \<longrightarrow>
         nd_vm (mw_nodes w (mw_placed w)) \<noteq> None \<or> moved_away_in (mw_state w) (mw_placed w)) \<and>
      (\<forall>n. set (nd_sent (mw_nodes w n)) \<subseteq> set (mw_used w)) \<and>
      (\<forall>n t. mw_transfers w n = Some t \<longrightarrow> tr_uid t \<in> set (mw_used w)))"

definition mig_ok :: "mig_config \<Rightarrow> mig_world \<Rightarrow> bool" where
  "mig_ok cfg w = (machines_ok w \<and> (\<forall>s. mw_state w = Some s \<longrightarrow> state_ok cfg s w))"

lemma alone_running: "\<lbrakk>alone t w; run_state_of w n = Running\<rbrakk> \<Longrightarrow> n = t"
  unfolding alone_def by blast

lemma runs_once: "\<lbrakk>machines_ok w; run_state_of w m = Running; run_state_of w n = Running\<rbrakk> \<Longrightarrow> m = n"
  by (simp add: machines_ok_def)

lemma while_sends:
  "\<lbrakk>machines_ok w; sending_from w n\<rbrakk> \<Longrightarrow> run_state_of w n = Running \<and> n = mw_placed w \<and> nd_vm (mw_nodes w n) \<noteq> None"
  by (simp add: machines_ok_def)

lemma once_sent: "\<lbrakk>machines_ok w; sent_from w n\<rbrakk> \<Longrightarrow> run_state_of w n = Paused"
  by (simp add: machines_ok_def)

lemma known_at_home:
  "\<lbrakk>machines_ok w; run_state_of w m = Running; m \<noteq> mw_placed w\<rbrakk> \<Longrightarrow>
     nd_vm (mw_nodes w (mw_placed w)) \<noteq> None \<or> moved_away_in (mw_state w) (mw_placed w)"
  unfolding machines_ok_def by blast

lemma uids_used:
  "machines_ok w \<Longrightarrow> set (nd_sent (mw_nodes w n)) \<subseteq> set (mw_used w)"
  "\<lbrakk>machines_ok w; mw_transfers w n = Some t\<rbrakk> \<Longrightarrow> tr_uid t \<in> set (mw_used w)"
  unfolding machines_ok_def by blast+

lemma machines_okI:
  assumes "\<And>m n. \<lbrakk>run_state_of w m = Running; run_state_of w n = Running\<rbrakk> \<Longrightarrow> m = n"
    and "\<And>n. sending_from w n \<Longrightarrow> run_state_of w n = Running \<and> n = mw_placed w \<and> nd_vm (mw_nodes w n) \<noteq> None"
    and "\<And>n. sent_from w n \<Longrightarrow> run_state_of w n = Paused"
    and "\<And>m. \<lbrakk>run_state_of w m = Running; m \<noteq> mw_placed w\<rbrakk> \<Longrightarrow>
          nd_vm (mw_nodes w (mw_placed w)) \<noteq> None \<or> moved_away_in (mw_state w) (mw_placed w)"
    and "\<And>n. set (nd_sent (mw_nodes w n)) \<subseteq> set (mw_used w)"
    and "\<And>n t. mw_transfers w n = Some t \<Longrightarrow> tr_uid t \<in> set (mw_used w)"
  shows "machines_ok w"
  unfolding machines_ok_def using assms by blast

section \<open>Changes that keep it\<close>

text \<open>Fewer machines run, fewer transfers go on, the kubelets know no less and sent no more.\<close>
definition calmer :: "mig_world \<Rightarrow> mig_world \<Rightarrow> bool" where
  "calmer w v =
     ((\<forall>n. run_state_of v n = run_state_of w n \<or> (run_state_of w n = Absent \<and> run_state_of v n = Waiting \<and> mw_transfers v n = None) \<or>
           (run_state_of v n = Absent \<and> mw_transfers v n = None)) \<and>
      (\<forall>n. mw_transfers v n = mw_transfers w n \<or> mw_transfers v n = None \<or>
           (\<exists>t x. mw_transfers w n = Some t \<and> mw_transfers v n = Some (t\<lparr>tr_word := x\<rparr>) \<and> x \<noteq> ''active'' \<and> x \<noteq> ''completed'')) \<and>
      (\<forall>n. nd_vm (mw_nodes w n) \<noteq> None \<longrightarrow> nd_vm (mw_nodes v n) \<noteq> None) \<and>
      (\<forall>n. set (nd_sent (mw_nodes v n)) \<subseteq> set (nd_sent (mw_nodes w n))) \<and>
      mw_state v = mw_state w \<and> mw_placed v = mw_placed w \<and> mw_used v = mw_used w)"

lemma calmer_transfer:
  assumes "calmer w v" "mw_transfers v n = Some t"
  shows "\<exists>u. mw_transfers w n = Some u \<and> tr_uid u = tr_uid t \<and> tr_to u = tr_to t \<and>
     (tr_word t = ''active'' \<or> tr_word t = ''completed'' \<longrightarrow> u = t)"
proof -
  consider "mw_transfers v n = mw_transfers w n" | "mw_transfers v n = None"
    | u x where "mw_transfers w n = Some u" "mw_transfers v n = Some (u\<lparr>tr_word := x\<rparr>)" "x \<noteq> ''active''" "x \<noteq> ''completed''"
    using assms(1) [unfolded calmer_def, THEN conjunct2, THEN conjunct1, rule_format, of n] by (elim disjE exE conjE) auto
  then show ?thesis
  proof cases
    case 1
    then have "mw_transfers w n = Some t" using assms(2) by simp
    then show ?thesis by auto
  next
    case 2
    then show ?thesis using assms(2) by simp
  next
    case 3
    then show ?thesis using assms(2) by auto
  qed
qed

lemma calmer_sending: "\<lbrakk>calmer w v; sending_from v n\<rbrakk> \<Longrightarrow> sending_from w n"
  using calmer_transfer [of w v n] by (fastforce simp: sending_from_def)

lemma calmer_sent: "\<lbrakk>calmer w v; sent_from v n\<rbrakk> \<Longrightarrow> sent_from w n"
  using calmer_transfer [of w v n] by (fastforce simp: sent_from_def)

lemma calmer_running: "\<lbrakk>calmer w v; run_state_of v n = Running\<rbrakk> \<Longrightarrow> run_state_of w n = Running"
proof -
  assume a: "calmer w v" "run_state_of v n = Running"
  have "run_state_of v n = run_state_of w n \<or> run_state_of v n = Waiting \<or> run_state_of v n = Absent"
    using a(1) [unfolded calmer_def, THEN conjunct1, rule_format, of n] by auto
  then show ?thesis using a(2) by auto
qed

lemma calmer_alone: "\<lbrakk>calmer w v; alone n w\<rbrakk> \<Longrightarrow> alone n v"
  unfolding alone_def using calmer_sending calmer_sent calmer_running by blast

lemma calmer_own: "\<lbrakk>calmer w v; own_transfer n u t w\<rbrakk> \<Longrightarrow> own_transfer n u t v"
  unfolding own_transfer_def using calmer_transfer [of w v n] by metis

lemma calmer_same:
  "calmer w v \<Longrightarrow> mw_state v = mw_state w \<and> mw_placed v = mw_placed w \<and> mw_used v = mw_used w"
  by (simp add: calmer_def)

lemma calmer_knows:
  "\<lbrakk>calmer w v; nd_vm (mw_nodes w n) \<noteq> None\<rbrakk> \<Longrightarrow> nd_vm (mw_nodes v n) \<noteq> None"
  "calmer w v \<Longrightarrow> set (nd_sent (mw_nodes v n)) \<subseteq> set (nd_sent (mw_nodes w n))"
  by (simp_all add: calmer_def)

lemma calmer_from:
  assumes "calmer w v"
  shows "sending_from v n \<Longrightarrow> run_state_of v n = run_state_of w n"
    and "sent_from v n \<Longrightarrow> run_state_of v n = run_state_of w n"
  using assms [unfolded calmer_def, THEN conjunct1, rule_format, of n] by (auto simp: sending_from_def sent_from_def)

lemma calmer_machines:
  assumes c: "calmer w v" and m: "machines_ok w"
  shows "machines_ok v"
proof (rule machines_okI)
  note same = calmer_same [OF c]
  show "m = n" if "run_state_of v m = Running" "run_state_of v n = Running" for m n
    using calmer_running [OF c that(1)] calmer_running [OF c that(2)] runs_once [OF m] by blast
  show "run_state_of v n = Running \<and> n = mw_placed v \<and> nd_vm (mw_nodes v n) \<noteq> None" if "sending_from v n" for n
    using while_sends [OF m calmer_sending [OF c that]] calmer_from(1) [OF c that] same calmer_knows(1) [OF c, of n] by auto
  show "run_state_of v n = Paused" if "sent_from v n" for n
    using once_sent [OF m calmer_sent [OF c that]] calmer_from(2) [OF c that] by simp
  show "nd_vm (mw_nodes v (mw_placed v)) \<noteq> None \<or> moved_away_in (mw_state v) (mw_placed v)"
    if "run_state_of v k = Running" "k \<noteq> mw_placed v" for k
    using known_at_home [OF m calmer_running [OF c that(1)]] that(2) same calmer_knows(1) [OF c, of "mw_placed w"] by auto
  show "set (nd_sent (mw_nodes v n)) \<subseteq> set (mw_used v)" for n
    using calmer_knows(2) [OF c, of n] same uids_used(1) [OF m, of n] by auto
  show "tr_uid t \<in> set (mw_used v)" if sent: "mw_transfers v n = Some t" for n t
  proof -
    obtain u where "mw_transfers w n = Some u" "tr_uid u = tr_uid t" using calmer_transfer [OF c sent] by blast
    then show ?thesis using uids_used(2) [OF m, of n u] same by simp
  qed
qed

lemma calmer_moved: "\<lbrakk>calmer w v; moved_ok s w\<rbrakk> \<Longrightarrow> moved_ok s v"
  using calmer_same [of w v] calmer_alone [of w v] unfolding moved_ok_def by auto

lemma calmer_active:
  assumes c: "calmer w v" and s: "active_ok cfg s w"
  shows "active_ok cfg s v"
proof -
  have p: "mw_placed v = mw_placed w" using calmer_same [OF c] by auto
  have a: "own_transfer (ms_source s) (ms_uid s) (ms_target s) v"
    if "ms_started s \<or> ms_uid s \<in> set (nd_sent (mw_nodes v (ms_source s)))"
    using that s calmer_knows(2) [OF c, of "ms_source s"] calmer_own [OF c] unfolding active_ok_def by blast
  have b: "alone (tr_to t) v"
    if "mw_transfers v (ms_source s) = Some t" "tr_word t = ''completed''" "tr_uid t = ms_uid s" for t
    using calmer_transfer [OF c that(1)] that s calmer_alone [OF c] unfolding active_ok_def by auto
  show ?thesis
    unfolding active_ok_def p using s [unfolded active_ok_def] a b by (intro conjI) (elim conjE; iprover)+
qed

lemma calmer_state: "\<lbrakk>calmer w v; state_ok cfg s w\<rbrakk> \<Longrightarrow> state_ok cfg s v"
  using calmer_same [of w v] calmer_moved [of w v] calmer_active [of w v] unfolding state_ok_def by auto

lemma calmer_ok: "\<lbrakk>calmer w v; mig_ok cfg w\<rbrakk> \<Longrightarrow> mig_ok cfg v"
  using calmer_machines calmer_state calmer_same unfolding mig_ok_def by metis

subsection \<open>Changes that calm\<close>

lemma gone_calmer [simp]: "calmer w (machine_gone n w)"
  by (simp add: calmer_def)

lemma cancelled_calmer:
  "\<lbrakk>mw_transfers w n = Some t; x \<noteq> ''active''; x \<noteq> ''completed''\<rbrakk> \<Longrightarrow> calmer w (set_transfer n (Some (t\<lparr>tr_word := x\<rparr>)) w)"
  by (auto simp: calmer_def)

lemma stored_calmer [simp]:
  "calmer w (w\<lparr>mw_mirrors := ms\<rparr>)" "calmer w (w\<lparr>mw_disks := ds\<rparr>)" "calmer w w"
  by (simp_all add: calmer_def)

lemma same_state_calmer: "calmer w (w\<lparr>mw_state := mw_state w\<rparr>)"
  by (simp add: calmer_def)

lemma node_calmer:
  "\<lbrakk>nd_vm (f (mw_nodes w n)) = None \<longrightarrow> nd_vm (mw_nodes w n) = None; set (nd_sent (f (mw_nodes w n))) \<subseteq> set (nd_sent (mw_nodes w n))\<rbrakk>
   \<Longrightarrow> calmer w (on_node n f w)"
  by (auto simp: calmer_def)

lemma calmer_trans_node:
  "\<lbrakk>calmer w v; nd_vm (f (mw_nodes v n)) = None \<longrightarrow> nd_vm (mw_nodes v n) = None;
    set (nd_sent (f (mw_nodes v n))) \<subseteq> set (nd_sent (mw_nodes v n))\<rbrakk> \<Longrightarrow> calmer w (on_node n f v)"
  unfolding calmer_def by (auto 0 3)

text \<open>A machine that waits for its memory.\<close>
lemma waiting_calmer:
  "run_state_of w n = Absent \<Longrightarrow>
   calmer w (on_node n (\<lambda>d. d\<lparr>nd_registered := Some h\<rparr>)
     (set_transfer n None (w\<lparr>mw_machines := (mw_machines w)(n := \<lparr>mh_handle = h, mh_state = Waiting\<rparr>)\<rparr>)))"
  by (auto simp: calmer_def run_state_of_def on_node_def set_transfer_def)

subsection \<open>Changes of the migration's state\<close>

lemma moved_away_moved: "moved_away_in (Some s) n \<longleftrightarrow> mig_moved s \<and> ms_source s = n \<and> ms_target s \<noteq> Some n"
  by (simp add: moved_away_in_def)

lemma other_state:
  assumes "mig_ok cfg w" "moved_away_in (mw_state w) (mw_placed w) \<Longrightarrow> moved_away_in so (mw_placed w)"
    and "\<And>s. so = Some s \<Longrightarrow> state_ok cfg s (w\<lparr>mw_state := so\<rparr>)"
  shows "mig_ok cfg (w\<lparr>mw_state := so\<rparr>)"
proof -
  have m: "machines_ok w" using assms(1) by (simp add: mig_ok_def)
  note m_facts = runs_once [OF m] while_sends [OF m] once_sent [OF m] uids_used [OF m]
  have "machines_ok (w\<lparr>mw_state := so\<rparr>)"
  proof (rule machines_okI)
    show "nd_vm (mw_nodes (w\<lparr>mw_state := so\<rparr>) (mw_placed (w\<lparr>mw_state := so\<rparr>))) \<noteq> None \<or>
        moved_away_in (mw_state (w\<lparr>mw_state := so\<rparr>)) (mw_placed (w\<lparr>mw_state := so\<rparr>))"
      if "run_state_of (w\<lparr>mw_state := so\<rparr>) k = Running" "k \<noteq> mw_placed (w\<lparr>mw_state := so\<rparr>)" for k
      using known_at_home [OF m, of k] that assms(2) by auto
  qed (use m_facts in simp_all)
  then show ?thesis using assms(3) by (simp add: mig_ok_def)
qed

lemma unmoved_state [simp]:
  "alone n (w\<lparr>mw_state := so\<rparr>) = alone n w" "own_transfer n u t (w\<lparr>mw_state := so\<rparr>) = own_transfer n u t w"
  "moved_ok s (w\<lparr>mw_state := so\<rparr>) = moved_ok s w" "active_ok cfg s (w\<lparr>mw_state := so\<rparr>) = active_ok cfg s w"
  "state_ok cfg s (w\<lparr>mw_state := so\<rparr>) = state_ok cfg s w"
  by (simp_all add: alone_def own_transfer_def moved_ok_def active_ok_def state_ok_def sending_from_def sent_from_def)

lemma active_not_moved: "mig_active s \<Longrightarrow> \<not> mig_moved s"
  by (simp add: mig_active_def mig_moved_def)

lemma failed_state_ok:
  "\<lbrakk>mig_ok cfg w; mw_state w = Some s; mig_active s\<rbrakk> \<Longrightarrow> mig_ok cfg (w\<lparr>mw_state := Some (s\<lparr>ms_failed := True\<rparr>)\<rparr>)"
  by (rule other_state) (auto simp: mig_ok_def state_ok_def moved_away_moved mig_moved_def mig_active_def)

lemma completed_state_ok:
  assumes "mig_ok cfg w" "mw_state w = Some s" "mig_active s" "ms_target s = Some t" "alone t w"
  shows "mig_ok cfg (w\<lparr>mw_state := Some (s\<lparr>ms_completed := True\<rparr>)\<rparr>)"
proof (rule other_state)
  show "moved_away_in (Some (s\<lparr>ms_completed := True\<rparr>)) (mw_placed w)" if "moved_away_in (mw_state w) (mw_placed w)"
    using that assms(2,3) active_not_moved by (simp add: moved_away_moved)
  have a: "active_ok cfg s w" using assms(1-3) by (simp add: mig_ok_def state_ok_def)
  show "state_ok cfg s' (w\<lparr>mw_state := Some (s\<lparr>ms_completed := True\<rparr>)\<rparr>)" if "Some (s\<lparr>ms_completed := True\<rparr>) = Some s'" for s'
    using that assms a by (auto simp: mig_ok_def state_ok_def moved_ok_def active_ok_def mig_active_def)
qed (use assms in auto)

lemma started_state_ok:
  assumes "mig_ok cfg w" "mw_state w = Some s" "mig_active s" "ms_uid s \<in> set (nd_sent (mw_nodes w (ms_source s)))"
  shows "mig_ok cfg (w\<lparr>mw_state := Some (s\<lparr>ms_started := True\<rparr>)\<rparr>)"
proof (rule other_state)
  show "moved_away_in (Some (s\<lparr>ms_started := True\<rparr>)) (mw_placed w)" if "moved_away_in (mw_state w) (mw_placed w)"
    using that assms(2) by (simp add: moved_away_moved mig_moved_def)
  show "state_ok cfg s' (w\<lparr>mw_state := Some (s\<lparr>ms_started := True\<rparr>)\<rparr>)" if "Some (s\<lparr>ms_started := True\<rparr>) = Some s'" for s'
    using that assms by (auto simp: mig_ok_def state_ok_def moved_ok_def active_ok_def mig_active_def mig_moved_def)
qed (use assms in auto)

lemma address_state_ok:
  assumes "mig_ok cfg w" "mw_state w = Some s" "mig_active s" "ms_target s = Some n"
  shows "mig_ok cfg (w\<lparr>mw_state := Some (s\<lparr>ms_address := Some (mk_ip cfg n), ms_port := Some p\<rparr>)\<rparr>)"
proof (rule other_state)
  show "moved_away_in (Some (s\<lparr>ms_address := Some (mk_ip cfg n), ms_port := Some p\<rparr>)) (mw_placed w)"
    if "moved_away_in (mw_state w) (mw_placed w)"
    using that assms(2) by (simp add: moved_away_moved mig_moved_def)
  show "state_ok cfg s' (w\<lparr>mw_state := Some (s\<lparr>ms_address := Some (mk_ip cfg n), ms_port := Some p\<rparr>)\<rparr>)"
    if "Some (s\<lparr>ms_address := Some (mk_ip cfg n), ms_port := Some p\<rparr>) = Some s'" for s'
    using that assms by (auto simp: mig_ok_def state_ok_def moved_ok_def active_ok_def mig_active_def mig_moved_def)
qed (use assms in auto)

subsection \<open>What happens by itself\<close>

lemma mig_okD: "mig_ok cfg w \<Longrightarrow> machines_ok w" "\<lbrakk>mig_ok cfg w; mw_state w = Some s\<rbrakk> \<Longrightarrow> state_ok cfg s w"
  by (simp_all add: mig_ok_def)

lemma mig_moved_ok: "\<lbrakk>mig_ok cfg w; mw_state w = Some s; mig_moved s\<rbrakk> \<Longrightarrow> moved_ok s w"
  by (simp add: mig_ok_def state_ok_def)

lemma mig_active_ok: "\<lbrakk>mig_ok cfg w; mw_state w = Some s; mig_active s\<rbrakk> \<Longrightarrow> active_ok cfg s w"
  by (simp add: mig_ok_def state_ok_def)

text \<open>The world after the memory arrived.\<close>
lemma arrived_ok:
  assumes ok: "mig_ok cfg w" and t: "mw_transfers w n = Some t" "tr_word t = ''active''"
    and r: "run_state_of w n = Running" "run_state_of w (tr_to t) = Waiting"
  shows "mig_ok cfg (happen (Memory_arrives n p) w)"
proof -
  note m = mig_okD(1) [OF ok]
  define v where "v = set_transfer n (Some (t\<lparr>tr_word := ''completed''\<rparr>)) (set_run (tr_to t) (if p then Paused else Running) (set_run n Paused w))"
  have hap: "happen (Memory_arrives n p) w = v" using t r by (simp add: v_def)
  have from_n: "sending_from w n" using t by (simp add: sending_from_def)
  have home: "n = mw_placed w" "nd_vm (mw_nodes w n) \<noteq> None" using while_sends [OF m from_n] by auto
  have only: "run_state_of w m \<noteq> Running" if "m \<noteq> n" for m using runs_once [OF m r(1)] that by blast
  have ne: "tr_to t \<noteq> n" using r by auto
  have idle: "\<not> sending_from w (tr_to t)" "\<not> sent_from w (tr_to t)"
    using while_sends [OF m, of "tr_to t"] once_sent [OF m, of "tr_to t"] r(2) by auto
  have al: "alone (tr_to t) v" using only idle ne by (auto simp: alone_def v_def)
  have sends: "\<not> sending_from v k" for k using while_sends [OF m, of k] home(1) by (auto simp: v_def)
  have not_moved: "\<not> mig_moved s" if st: "mw_state w = Some s" for s
  proof
    assume mv: "mig_moved s"
    obtain u where "alone u w" using mig_moved_ok [OF ok st mv] by (auto simp: moved_ok_def)
    then show False using from_n alone_running [of u w n] r(1) by (auto simp: alone_def)
  qed
  have "machines_ok v"
  proof (rule machines_okI)
    show "k = l" if "run_state_of v k = Running" "run_state_of v l = Running" for k l
      using alone_running [OF al that(1)] alone_running [OF al that(2)] by simp
    show "run_state_of v k = Running \<and> k = mw_placed v \<and> nd_vm (mw_nodes v k) \<noteq> None" if "sending_from v k" for k
      using sends that by blast
    show "run_state_of v k = Paused" if "sent_from v k" for k
      using that once_sent [OF m, of k] idle ne by (auto simp: v_def split: if_splits)
    show "nd_vm (mw_nodes v (mw_placed v)) \<noteq> None \<or> moved_away_in (mw_state v) (mw_placed v)" for k
      using home by (simp add: v_def)
    show "set (nd_sent (mw_nodes v k)) \<subseteq> set (mw_used v)" for k
      using uids_used(1) [OF m] by (simp add: v_def)
    show "tr_uid u \<in> set (mw_used v)" if "mw_transfers v k = Some u" for k u
      using that uids_used(2) [OF m] t(1) by (auto simp: v_def split: if_splits)
  qed
  moreover have "state_ok cfg s v" if "mw_state v = Some s" for s
  proof -
    have s: "mw_state w = Some s" using that by (simp add: v_def)
    have a: "active_ok cfg s v" if "mig_active s"
    proof -
      have act: "active_ok cfg s w" using mig_active_ok [OF ok s that] .
      then have src: "ms_source s = n" using home by (simp add: active_ok_def)
      show ?thesis using act al t unfolding active_ok_def src by (auto simp: v_def own_transfer_def)
    qed
    show ?thesis using a s not_moved [OF s] mig_okD(2) [OF ok s] by (simp add: state_ok_def v_def)
  qed
  ultimately show ?thesis unfolding hap mig_ok_def by blast
qed

lemma chosen_ok:
  assumes ok: "mig_ok cfg w" and s: "mw_state w = Some s" "mig_active s" "ms_target s = None" "t \<noteq> ms_source s"
  shows "mig_ok cfg (w\<lparr>mw_state := Some (s\<lparr>ms_target := Some t\<rparr>)\<rparr>)"
proof (rule other_state [OF ok])
  have a: "active_ok cfg s w" using mig_active_ok [OF ok s(1,2)] .
  show "moved_away_in (Some (s\<lparr>ms_target := Some t\<rparr>)) (mw_placed w)" if "moved_away_in (mw_state w) (mw_placed w)"
    using that s active_not_moved by (simp add: moved_away_moved)
  show "state_ok cfg s' (w\<lparr>mw_state := Some (s\<lparr>ms_target := Some t\<rparr>)\<rparr>)" if e: "Some (s\<lparr>ms_target := Some t\<rparr>) = Some s'" for s'
  proof -
    have s': "s' = s\<lparr>ms_target := Some t\<rparr>" using e by simp
    have "active_ok cfg s' w" using a s unfolding s' active_ok_def by (auto simp: own_transfer_def)
    moreover have "\<not> mig_moved s'" using s(2) by (simp add: s' mig_moved_def mig_active_def)
    ultimately show ?thesis using mig_okD(2) [OF ok s(1)] by (simp add: state_ok_def s')
  qed
qed

lemma abort_ok:
  assumes ok: "mig_ok cfg w" and s: "mw_state w = Some s"
  shows "mig_ok cfg (w\<lparr>mw_state := Some (s\<lparr>ms_abort := True\<rparr>)\<rparr>)"
proof (rule other_state [OF ok])
  show "moved_away_in (Some (s\<lparr>ms_abort := True\<rparr>)) (mw_placed w)" if "moved_away_in (mw_state w) (mw_placed w)"
    using that s by (simp add: moved_away_moved mig_moved_def)
  show "state_ok cfg s' (w\<lparr>mw_state := Some (s\<lparr>ms_abort := True\<rparr>)\<rparr>)" if e: "Some (s\<lparr>ms_abort := True\<rparr>) = Some s'" for s'
    using e mig_okD(2) [OF ok s] by (auto simp: state_ok_def mig_moved_def mig_active_def moved_ok_def active_ok_def)
qed

lemma used_simps [simp]:
  "alone n (w\<lparr>mw_used := us\<rparr>) = alone n w" "moved_ok s (w\<lparr>mw_used := us\<rparr>) = moved_ok s w"
  "active_ok cfg s (w\<lparr>mw_used := us\<rparr>) = active_ok cfg s w"
  "sending_from (w\<lparr>mw_used := us\<rparr>) m = sending_from w m" "sent_from (w\<lparr>mw_used := us\<rparr>) m = sent_from w m"
  by (simp_all add: alone_def moved_ok_def active_ok_def own_transfer_def sending_from_def sent_from_def)

lemma placed_simps [simp]:
  "alone n (w\<lparr>mw_placed := p\<rparr>) = alone n w"
  by (simp add: alone_def)

lemma begins_ok:
  assumes ok: "mig_ok cfg w" and uid: "uid \<notin> set (mw_used w)"
    and over: "\<And>s. mw_state w = Some s \<Longrightarrow> \<not> mig_active s \<and> (mig_moved s \<longrightarrow> ms_target s = Some (mw_placed w))"
    and s0: "ms_uid s0 = uid" "ms_source s0 = mw_placed w" "ms_target s0 = None" "ms_address s0 = None"
      "\<not> ms_started s0" "\<not> ms_completed s0" "\<not> ms_failed s0"
  shows "mig_ok cfg (w\<lparr>mw_state := Some s0, mw_used := uid # mw_used w\<rparr>)"
proof -
  note m = mig_okD(1) [OF ok]
  let ?v = "w\<lparr>mw_state := Some s0, mw_used := uid # mw_used w\<rparr>"
  have "\<not> moved_away_in (mw_state w) (mw_placed w)"
    using over by (auto simp: moved_away_in_def split: option.splits)
  then have home: "nd_vm (mw_nodes w (mw_placed w)) \<noteq> None" if "run_state_of w k = Running" "k \<noteq> mw_placed w" for k
    using known_at_home [OF m that] by blast
  have "machines_ok ?v"
    by (rule machines_okI)
      (use runs_once [OF m] while_sends [OF m] once_sent [OF m] home subset_insertI2 [OF uids_used(1) [OF m]]
           insertI2 [OF uids_used(2) [OF m]] in \<open>simp_all\<close>)
  moreover have "active_ok cfg s0 w"
  proof -
    have "uid \<notin> set (nd_sent (mw_nodes w n))" for n using uids_used(1) [OF m, of n] uid by auto
    moreover have "tr_uid t \<noteq> uid" if "mw_transfers w n = Some t" for n t using uids_used(2) [OF m that] uid by auto
    ultimately show ?thesis using s0 unfolding active_ok_def by simp
  qed
  then have "state_ok cfg s0 ?v" using s0 by (auto simp: state_ok_def mig_moved_def)
  ultimately show ?thesis by (simp add: mig_ok_def)
qed

lemma placed_ok:
  assumes ok: "mig_ok cfg w" and s: "mw_state w = Some s" "mig_moved s" "ms_target s = Some t"
  shows "mig_ok cfg (w\<lparr>mw_placed := t\<rparr>)"
proof -
  note m = mig_okD(1) [OF ok]
  have al: "alone t w" "t \<noteq> ms_source s" using mig_moved_ok [OF ok s(1,2)] s(3) by (auto simp: moved_ok_def)
  have sends: "\<not> sending_from w k" for k
    using while_sends [OF m, of k] alone_running [OF al(1), of k] al(1) by (auto simp: alone_def)
  have "machines_ok (w\<lparr>mw_placed := t\<rparr>)"
  proof (rule machines_okI)
    show "nd_vm (mw_nodes (w\<lparr>mw_placed := t\<rparr>) (mw_placed (w\<lparr>mw_placed := t\<rparr>))) \<noteq> None \<or>
        moved_away_in (mw_state (w\<lparr>mw_placed := t\<rparr>)) (mw_placed (w\<lparr>mw_placed := t\<rparr>))"
      if "run_state_of (w\<lparr>mw_placed := t\<rparr>) k = Running" "k \<noteq> mw_placed (w\<lparr>mw_placed := t\<rparr>)" for k
      using that alone_running [OF al(1), of k] by simp
  qed (use runs_once [OF m] sends once_sent [OF m] uids_used [OF m] in simp_all)
  moreover have "state_ok cfg s (w\<lparr>mw_placed := t\<rparr>)"
    using mig_okD(2) [OF ok s(1)] s al active_not_moved by (auto simp: state_ok_def moved_ok_def)
  ultimately show ?thesis using s(1) by (simp add: mig_ok_def)
qed

lemma event_ok:
  assumes ok: "mig_ok cfg w" and e: "in_passing e"
  shows "mig_ok cfg (happen e w)"
proof (cases e)
  case (Memory_arrives n p)
  show ?thesis
  proof (cases "\<exists>t. mw_transfers w n = Some t \<and> tr_word t = ''active'' \<and> run_state_of w n = Running \<and>
      run_state_of w (tr_to t) = Waiting")
    case True
    then show ?thesis using arrived_ok [OF ok, of n _ p] unfolding Memory_arrives by blast
  next
    case False
    then show ?thesis using ok unfolding Memory_arrives by (auto split: option.split)
  qed
next
  case (Transfer_fails n)
  then show ?thesis using ok calmer_ok [OF cancelled_calmer ok] by (auto split: option.split)
next
  case (Machine_ends n)
  then show ?thesis using calmer_ok [OF gone_calmer ok] by simp
next
  case (Mirror_turns i s)
  then show ?thesis using ok calmer_ok [OF stored_calmer(1) ok] by simp
next
  case (Target_chosen t)
  then show ?thesis using ok chosen_ok [OF ok] by (auto split: option.split)
next
  case Abort_asked
  then show ?thesis using ok abort_ok [OF ok] calmer_ok [OF same_state_calmer ok] by (cases "mw_state w") auto
next
  case (Migration_begins uid)
  then show ?thesis using ok begins_ok [OF ok, of uid] by (auto split: option.splits)
next
  case Placed_on_target
  then show ?thesis using ok placed_ok [OF ok] by (auto split: option.splits)
next
  case (Node_reboots n)
  then show ?thesis using e by (simp add: in_passing_def)
qed

section \<open>What a pass knows\<close>

text \<open>The migration a pass was handed is still in flight.\<close>
definition act :: "mig_state \<Rightarrow> mig_world \<Rightarrow> bool" where
  "act s w =
     (\<exists>r. mw_state w = Some r \<and> ms_uid r = ms_uid s \<and> mig_active r \<and> ms_source r = ms_source s \<and>
        (\<forall>t. ms_target s = Some t \<longrightarrow> ms_target r = Some t) \<and> (ms_started s \<longrightarrow> ms_started r))"

text \<open>Whether the VMI's machine belongs on this node, as far as starting one goes.\<close>
definition target_of_moved :: "string \<Rightarrow> mig_world \<Rightarrow> bool" where
  "target_of_moved n w = (\<exists>s. mw_state w = Some s \<and> mig_moved s \<and> ms_target s = Some n)"

definition at_home :: "string \<Rightarrow> mig_world \<Rightarrow> bool" where
  "at_home n w = ((mw_placed w = n \<or> target_of_moved n w) \<and> \<not> moved_away_in (mw_state w) n)"

definition given_up :: "string \<Rightarrow> mig_world \<Rightarrow> bool" where
  "given_up n w = (moved_away_in (mw_state w) n \<or> (mw_placed w \<noteq> n \<and> \<not> target_of_moved n w))"

definition taken_over :: "string \<Rightarrow> mig_world \<Rightarrow> bool" where
  "taken_over n w = (alone n w \<and> at_home n w)"

text \<open>A condition that lasts: what happens by itself does not change it, nor does what calms.\<close>
definition lasts :: "mig_config \<Rightarrow> (mig_world \<Rightarrow> bool) \<Rightarrow> bool" where
  "lasts cfg X =
     ((\<forall>w v. mig_ok cfg w \<longrightarrow> X w \<longrightarrow> calmer w v \<longrightarrow> X v) \<and>
      (\<forall>w e. mig_ok cfg w \<longrightarrow> X w \<longrightarrow> in_passing e \<longrightarrow> X (happen e w)))"

named_theorems lasts_intros

lemma lasts_calmer: "\<lbrakk>lasts cfg X; mig_ok cfg w; X w; calmer w v\<rbrakk> \<Longrightarrow> X v"
  by (simp add: lasts_def)

lemma lasts_event: "\<lbrakk>lasts cfg X; mig_ok cfg w; X w; in_passing e\<rbrakk> \<Longrightarrow> X (happen e w)"
  by (simp add: lasts_def)

lemma lasts_const [lasts_intros]: "lasts cfg (\<lambda>w. b)"
  by (simp add: lasts_def)

lemma lasts_conj [lasts_intros]: "\<lbrakk>lasts cfg X; lasts cfg Y\<rbrakk> \<Longrightarrow> lasts cfg (\<lambda>w. X w \<and> Y w)"
  by (simp add: lasts_def)

lemma lasts_imp [lasts_intros]: "(b \<Longrightarrow> lasts cfg X) \<Longrightarrow> lasts cfg (\<lambda>w. b \<longrightarrow> X w)"
  by (auto simp: lasts_def)

text \<open>A condition on the VMI alone.\<close>
lemma lasts_vmi:
  assumes "\<And>w v. \<lbrakk>X w; mw_state v = mw_state w; mw_placed v = mw_placed w\<rbrakk> \<Longrightarrow> X v"
    and "\<And>w s t. \<lbrakk>mig_ok cfg w; X w; mw_state w = Some s; mig_active s; ms_target s = None; t \<noteq> ms_source s\<rbrakk>
          \<Longrightarrow> X (w\<lparr>mw_state := Some (s\<lparr>ms_target := Some t\<rparr>)\<rparr>)"
    and "\<And>w s. \<lbrakk>mig_ok cfg w; X w; mw_state w = Some s\<rbrakk> \<Longrightarrow> X (w\<lparr>mw_state := Some (s\<lparr>ms_abort := True\<rparr>)\<rparr>)"
    and "\<And>w s uid. \<lbrakk>mig_ok cfg w; X w; \<And>r. mw_state w = Some r \<Longrightarrow> \<not> mig_active r \<and> (mig_moved r \<longrightarrow> ms_target r = Some (mw_placed w));
            ms_source s = mw_placed w; mig_active s; ms_target s = None\<rbrakk>
          \<Longrightarrow> X (w\<lparr>mw_state := Some s, mw_used := uid # mw_used w\<rparr>)"
    and "\<And>w s t. \<lbrakk>mig_ok cfg w; X w; mw_state w = Some s; mig_moved s; ms_target s = Some t\<rbrakk> \<Longrightarrow> X (w\<lparr>mw_placed := t\<rparr>)"
  shows "lasts cfg X"
  unfolding lasts_def
proof (intro conjI allI impI)
  show "X v" if "mig_ok cfg w" "X w" "calmer w v" for w v using assms(1) [of w v] that calmer_same by blast
  show "X (happen e w)" if ok: "mig_ok cfg w" and X: "X w" and e: "in_passing e" for w e
  proof (cases e)
    case (Memory_arrives n p)
    then show ?thesis using assms(1) [OF X] X by (auto split: option.split)
  next
    case (Transfer_fails n)
    then show ?thesis using assms(1) [OF X] X by (auto split: option.split)
  next
    case (Machine_ends n)
    then show ?thesis using assms(1) [OF X] by simp
  next
    case (Mirror_turns i s)
    then show ?thesis using assms(1) [OF X] X by simp
  next
    case (Target_chosen t)
    then show ?thesis using X assms(2) [OF ok X] by (auto split: option.split)
  next
    case Abort_asked
    then show ?thesis using X assms(1) [OF X] assms(3) [OF ok X] by (cases "mw_state w") auto
  next
    case (Migration_begins uid)
    then show ?thesis using X assms(4) [OF ok X] by (auto simp: mig_active_def split: option.splits)
  next
    case Placed_on_target
    then show ?thesis using X assms(5) [OF ok X] by (auto split: option.splits)
  next
    case (Node_reboots n)
    then show ?thesis using e by (simp add: in_passing_def)
  qed
qed

lemma act_lasts [lasts_intros]: "lasts cfg (act s)"
proof (rule lasts_vmi)
  show "act s (w\<lparr>mw_placed := t\<rparr>)" if "act s w" for w t using that by (simp add: act_def)
qed (auto simp: act_def mig_active_def)

lemma given_up_lasts [lasts_intros]: "lasts cfg (given_up n)"
proof (rule lasts_vmi)
  show "given_up n (w\<lparr>mw_placed := t\<rparr>)"
    if "mig_ok cfg w" "given_up n w" "mw_state w = Some s" "mig_moved s" "ms_target s = Some t" for w s t
    using that mig_moved_ok [OF that(1,3,4)]
    by (auto simp: given_up_def target_of_moved_def moved_away_in_def moved_ok_def)
qed (auto simp: given_up_def target_of_moved_def moved_away_in_def mig_active_def mig_moved_def split: option.splits)

lemma at_home_lasts [lasts_intros]: "lasts cfg (at_home n)"
proof (rule lasts_vmi)
  show "at_home n (w\<lparr>mw_placed := t\<rparr>)"
    if "mig_ok cfg w" "at_home n w" "mw_state w = Some s" "mig_moved s" "ms_target s = Some t" for w s t
    using that mig_moved_ok [OF that(1,3,4)]
    by (auto simp: at_home_def target_of_moved_def moved_away_in_def moved_ok_def)
qed (auto simp: at_home_def target_of_moved_def moved_away_in_def mig_active_def mig_moved_def)

lemma alone_lasts [lasts_intros]: "lasts cfg (alone n)"
  unfolding lasts_def
proof (intro conjI allI impI)
  show "alone n v" if "alone n w" "calmer w v" for w v using calmer_alone that by blast
  show "alone n (happen e w)" if al: "alone n w" and e: "in_passing e" for w e
  proof (cases e)
    case (Memory_arrives m p)
    have "\<not> (run_state_of w m = Running \<and> sending_from w m)" using al alone_running [OF al, of m] by (auto simp: alone_def)
    then have "happen e w = w" unfolding Memory_arrives by (auto simp: sending_from_def split: option.split)
    then show ?thesis using al by simp
  next
    case (Transfer_fails m)
    then show ?thesis using al calmer_alone [OF cancelled_calmer al] by (auto split: option.split)
  next
    case (Machine_ends m)
    then show ?thesis using calmer_alone [OF gone_calmer al] by simp
  next
    case (Node_reboots m)
    then show ?thesis using e by (simp add: in_passing_def)
  qed (use al in \<open>auto simp: alone_def split: option.split\<close>)
qed

lemma taken_over_lasts [lasts_intros]: "lasts cfg (taken_over n)"
  using lasts_conj [OF alone_lasts at_home_lasts] by (simp add: taken_over_def [abs_def])

section \<open>The calls\<close>

lemma between_ok:
  assumes X: "lasts cfg X"
  shows "stable_amid (mig_ok cfg) in_between X"
proof -
  have "mig_ok cfg (fold happen (filter in_passing es) w) \<and> X (fold happen (filter in_passing es) w)"
    if "mig_ok cfg w" "X w" for es w
    using that by (induction es arbitrary: w) (auto intro: event_ok lasts_event [OF X])
  then show ?thesis by (simp add: stable_amid_def in_between_def)
qed

abbreviation migs :: "mig_config \<Rightarrow> (mig_world \<Rightarrow> bool) \<Rightarrow> 'a mig_calls \<Rightarrow> ('a \<Rightarrow> mig_world \<Rightarrow> bool) \<Rightarrow> bool" where
  "migs cfg \<equiv> upholds (mig_ok cfg)"

lemma migs_calm:
  assumes "lasts cfg X" "\<And>oc w. calmer w (effect oc w)"
  shows "migs cfg X (mig_call effect answer) (\<lambda>a. X)"
  by (rule upholds_call [OF between_ok [OF assms(1)]])
    (auto intro: calmer_ok [OF assms(2)] lasts_calmer [OF assms(1) _ _ assms(2)])

lemma migs_calm_if:
  assumes "lasts cfg X" "\<And>oc w. allowed oc w \<Longrightarrow> calmer w (effect oc w)"
  shows "migs cfg X (mig_call_if allowed effect answer) (\<lambda>a. X)"
  by (rule upholds_call_if [OF between_ok [OF assms(1)]])
    (auto intro: calmer_ok [OF assms(2)] lasts_calmer [OF assms(1) _ _ assms(2)])

text \<open>A call that only asks: what it answers is so.\<close>
lemma migs_ask:
  assumes "lasts cfg X"
  shows "migs cfg X (mig_call (\<lambda>oc w. w) answer) (\<lambda>a w. X w \<and> (\<forall>x. a = Inr x \<longrightarrow> (\<exists>oc. x = answer oc w)))"
  by (rule upholds_call [OF between_ok [OF assms]]) auto

lemma migs_change_calm:
  assumes "lasts cfg X" "\<And>w. calmer w (f w)"
  shows "migs cfg X (change f) (\<lambda>a. X)"
  by (rule upholds_change) (auto intro: calmer_ok [OF assms(2)] lasts_calmer [OF assms(1) _ _ assms(2)])

lemma migs_yes_no:
  assumes "migs cfg X c (\<lambda>a. X)"
  shows "migs cfg X (and_then c (\<lambda>a. done_with (f a))) (\<lambda>b. X)"
  by (rule upholds_then [OF assms]) (auto intro: upholds_done)

lemma migs_does_it: "lasts cfg X \<Longrightarrow> migs cfg X does_it (\<lambda>b. X)"
  unfolding does_it_def by (intro migs_yes_no migs_calm) simp_all

lemma migs_mirror_get: "lasts cfg X \<Longrightarrow> migs cfg X (mirror_get i) (\<lambda>b. X)"
  unfolding mirror_get_def by (rule migs_calm) simp_all

lemma migs_mirror_verb: "lasts cfg X \<Longrightarrow> migs cfg X (mirror_verb f i) (\<lambda>b. X)"
  unfolding mirror_verb_def by (rule migs_calm) simp_all

lemma migs_mirror_start: "lasts cfg X \<Longrightarrow> migs cfg X mirror_start (\<lambda>b. X)"
  unfolding mirror_start_def by (rule migs_calm_if) simp_all

lemma migs_annotate: "lasts cfg X \<Longrightarrow> migs cfg X (annotate u made) (\<lambda>b. X)"
  unfolding annotate_def by (intro migs_yes_no migs_calm) simp_all

lemma migs_progress:
  "lasts cfg X \<Longrightarrow> migs cfg X (progress n) (\<lambda>a w. X w \<and> (\<forall>x. a = Inr x \<longrightarrow> x = transfer_word w n))"
  unfolding progress_def by (rule upholds_post [OF migs_ask]) auto

lemma migs_cancel: "lasts cfg X \<Longrightarrow> migs cfg X (cancel n) (\<lambda>b. X)"
  unfolding cancel_def by (rule migs_calm) (auto intro: cancelled_calmer split: option.split)

lemma migs_machine_state: "lasts cfg X \<Longrightarrow> migs cfg X (machine_state n) (\<lambda>b. X)"
  unfolding machine_state_def by (rule migs_calm) simp_all

lemma migs_stop: "lasts cfg X \<Longrightarrow> migs cfg X (stop n h) (\<lambda>b. X)"
  unfolding stop_def by (intro migs_yes_no migs_calm) (auto simp: Let_def intro!: calmer_trans_node)

lemma migs_finish_forced: "lasts cfg X \<Longrightarrow> migs cfg X (finish_forced n) (\<lambda>b. X)"
  unfolding finish_forced_def
  by (rule upholds_then [OF upholds_look [where Q = "\<lambda>f. X"]])
    (auto intro!: upholds_done upholds_if upholds_then [OF migs_stop] upholds_then [OF migs_change_calm]
      node_calmer split: option.split)

lemma migs_drop_receiver: "lasts cfg X \<Longrightarrow> migs cfg X (drop_receiver n) (\<lambda>b. X)"
  unfolding drop_receiver_def by (rule migs_change_calm) (auto intro: node_calmer split: option.split)

lemma migs_mark_done: "lasts cfg X \<Longrightarrow> migs cfg X (mark_done n u) (\<lambda>b. X)"
  unfolding mark_done_def by (rule migs_change_calm) (auto intro: node_calmer)

text \<open>A machine that waits for its memory.\<close>
lemma migs_launch_waiting: "lasts cfg X \<Longrightarrow> migs cfg X (launch n Waiting) (\<lambda>b. X)"
  unfolding launch_def by (rule migs_calm_if) (auto simp: Let_def intro: waiting_calmer)

subsection \<open>Writing the migration's state\<close>

text \<open>A write under a view whose migration is in flight. The write keeps the invariant and makes \<open>Y\<close>
  of \<open>X\<close>; \<open>Y\<close> also follows from \<open>X\<close> when the write did not take place.\<close>
lemma migs_write:
  assumes "stable_amid (mig_ok cfg) in_between X"
    and "\<And>w. \<lbrakk>mig_ok cfg w; X w\<rbrakk> \<Longrightarrow> mig_ok cfg (w\<lparr>mw_state := map_option f (mw_state w)\<rparr>) \<and> Y (w\<lparr>mw_state := map_option f (mw_state w)\<rparr>)"
    and "\<And>w. \<lbrakk>mig_ok cfg w; X w\<rbrakk> \<Longrightarrow> Y w"
  shows "migs cfg X (write_migration v uid f) (\<lambda>b. Y)"
proof (cases "map_option ms_uid (vv_state v) = Some uid")
  case True
  then show ?thesis
    unfolding write_migration_def
    by (simp, intro upholds_then [OF upholds_call [OF assms(1), where Q = "\<lambda>a. Y"]])
      (use assms(2,3) in \<open>auto intro: upholds_done\<close>)
next
  case False
  then show ?thesis using assms(3) by (simp add: write_migration_def upholds_done)
qed

lemma actE:
  assumes "act s w"
  obtains r where "mw_state w = Some r" "ms_uid r = ms_uid s" "mig_active r" "ms_source r = ms_source s"
    "\<And>t. ms_target s = Some t \<Longrightarrow> ms_target r = Some t"
  using assms by (auto simp: act_def)

lemma act_not_away: "act s w \<Longrightarrow> \<not> moved_away_in (mw_state w) n \<and> \<not> target_of_moved n w"
  by (auto simp: act_def moved_away_moved target_of_moved_def active_not_moved)

lemma act_home: "\<lbrakk>mig_ok cfg w; act s w\<rbrakk> \<Longrightarrow> mw_placed w = ms_source s"
  by (auto elim!: actE dest: mig_active_ok simp: active_ok_def)

text \<open>A migration in flight that fails: its source keeps the VMI.\<close>
lemma migs_fail: "migs cfg (act s) (fail_migration v s) (\<lambda>b. at_home (ms_source s))"
  unfolding fail_migration_def
proof (rule upholds_then [OF migs_write [OF between_ok [OF act_lasts]]])
  fix w assume ok: "mig_ok cfg w" and a: "act s w"
  obtain r where r: "mw_state w = Some r" "mig_active r" using a by (rule actE)
  have p: "mw_placed w = ms_source s" using act_home [OF ok a] .
  show "mig_ok cfg (w\<lparr>mw_state := map_option (\<lambda>m. m\<lparr>ms_failed := True\<rparr>) (mw_state w)\<rparr>) \<and>
      at_home (ms_source s) (w\<lparr>mw_state := map_option (\<lambda>m. m\<lparr>ms_failed := True\<rparr>) (mw_state w)\<rparr>)"
    using failed_state_ok [OF ok r] r p by (simp add: at_home_def moved_away_moved mig_moved_def)
  show "at_home (ms_source s) w" using p act_not_away [OF a] by (simp add: at_home_def)
qed (auto intro: upholds_done)

lemma migs_fail_any: "migs cfg (act s) (fail_migration v s) (\<lambda>b w. True)"
  by (rule upholds_post [OF migs_fail]) simp

text \<open>The source says that the guest moved, when only the target runs it.\<close>
lemma migs_complete:
  "migs cfg (\<lambda>w. act s w \<and> (\<exists>t. ms_target s = Some t \<and> alone t w))
     (write_migration v (ms_uid s) (\<lambda>m. m\<lparr>ms_completed := True\<rparr>)) (\<lambda>b w. True)"
proof (cases "ms_target s")
  case None
  then show ?thesis by (simp add: upholds_def)
next
  case (Some t)
  show ?thesis
  proof (rule upholds_pre [OF migs_write [OF between_ok [OF lasts_conj [OF act_lasts alone_lasts]]]])
    fix w assume ok: "mig_ok cfg w" and a: "act s w \<and> alone t w"
    obtain r where r: "mw_state w = Some r" "mig_active r" "ms_target r = Some t" using a Some by (auto elim: actE)
    show "mig_ok cfg (w\<lparr>mw_state := map_option (\<lambda>m. m\<lparr>ms_completed := True\<rparr>) (mw_state w)\<rparr>) \<and> True"
      using completed_state_ok [OF ok r] a r(1) by simp
  qed (use Some in auto)
qed

text \<open>The target says where to send.\<close>
lemma migs_say_ready:
  assumes "ms_target s = Some n"
  shows "migs cfg (act s) (say_ready cfg n v s p) (\<lambda>b w. True)"
  unfolding say_ready_def
proof (rule migs_write [OF between_ok [OF act_lasts]])
  fix w assume ok: "mig_ok cfg w" and a: "act s w"
  obtain r where r: "mw_state w = Some r" "mig_active r" "ms_target r = Some n" using a assms by (auto elim: actE)
  show "mig_ok cfg (w\<lparr>mw_state := map_option (\<lambda>m. m\<lparr>ms_address := Some (mk_ip cfg n), ms_port := Some p\<rparr>) (mw_state w)\<rparr>) \<and> True"
    using address_state_ok [OF ok r] r(1) by simp
qed simp

subsection \<open>Sending\<close>

lemma own_event:
  assumes "own_transfer n u t w" "in_passing e"
  shows "own_transfer n u t (happen e w)"
  using assms by (cases e) (auto simp: own_transfer_def in_passing_def split: option.splits)

lemma own_lasts [lasts_intros]: "lasts cfg (own_transfer n u t)"
  unfolding lasts_def using calmer_own own_event by blast

lemma events_keep_nodes: "in_passing e \<Longrightarrow> mw_nodes (happen e w) = mw_nodes w"
  by (cases e) (auto simp: in_passing_def split: option.split)

lemma between_keeps_nodes: "mw_nodes (in_between oc w) = mw_nodes w"
proof -
  have "mw_nodes (fold happen (filter in_passing es) w) = mw_nodes w" for es
    by (induction es arbitrary: w) (auto simp: events_keep_nodes)
  then show ?thesis by (simp add: in_between_def)
qed

lemma known_lasts [lasts_intros]: "lasts cfg (\<lambda>w. nd_vm (mw_nodes w n) \<noteq> None)"
  unfolding lasts_def using calmer_knows(1) events_keep_nodes by metis

lemma sent_between:
  assumes "lasts cfg X"
  shows "stable_amid (mig_ok cfg) in_between (\<lambda>w. X w \<and> u \<in> set (nd_sent (mw_nodes w n)))"
  using between_ok [OF assms] by (simp add: stable_amid_def between_keeps_nodes)

lemma send_ok:
  assumes inj: "inj (mk_ip cfg)" and ok: "mig_ok cfg w" and a: "act s w" and k: "nd_vm (mw_nodes w n) \<noteq> None"
    and r: "run_state_of w n = Running" and src: "ms_source s = n"
    and t: "ms_target s = Some t" and word: "word = ''active'' \<longrightarrow> mk_ip cfg x = mk_ip cfg t" "word \<noteq> ''completed''"
  shows "mig_ok cfg (set_transfer n (Some \<lparr>tr_uid = ms_uid s, tr_to = x, tr_word = word\<rparr>) w)"
    and "own_transfer n (ms_uid s) (ms_target s) (set_transfer n (Some \<lparr>tr_uid = ms_uid s, tr_to = x, tr_word = word\<rparr>) w)"
proof -
  let ?v = "set_transfer n (Some \<lparr>tr_uid = ms_uid s, tr_to = x, tr_word = word\<rparr>) w"
  note m = mig_okD(1) [OF ok]
  show own: "own_transfer n (ms_uid s) (ms_target s) ?v"
    using word t inj by (auto simp: own_transfer_def inj_def)
  obtain q where q: "mw_state w = Some q" "ms_uid q = ms_uid s" "mig_active q" "ms_source q = n" "ms_target q = Some t"
    using a t src by (auto elim: actE)
  have home: "mw_placed w = n" using act_home [OF ok a] src by simp
  have used: "ms_uid s \<in> set (mw_used w)" using mig_okD(2) [OF ok q(1)] q(2) by (simp add: state_ok_def)
  have "machines_ok ?v"
  proof (rule machines_okI)
    show "run_state_of ?v k = Running \<and> k = mw_placed ?v \<and> nd_vm (mw_nodes ?v k) \<noteq> None" if "sending_from ?v k" for k
      using that while_sends [OF m, of k] r home k by (auto split: if_splits)
    show "run_state_of ?v k = Paused" if "sent_from ?v k" for k
      using that once_sent [OF m, of k] word(2) by (auto split: if_splits)
    show "nd_vm (mw_nodes ?v (mw_placed ?v)) \<noteq> None \<or> moved_away_in (mw_state ?v) (mw_placed ?v)" for k
      using k home by simp
    show "tr_uid y \<in> set (mw_used ?v)" if "mw_transfers ?v k = Some y" for k y
      using that uids_used(2) [OF m] used by (auto split: if_splits)
  qed (use runs_once [OF m] uids_used(1) [OF m] in simp_all)
  moreover have "active_ok cfg q ?v"
    using mig_active_ok [OF ok q(1,3)] q own word(2) t unfolding active_ok_def by auto
  ultimately show "mig_ok cfg ?v"
    using q mig_okD(2) [OF ok q(1)] active_not_moved by (simp add: mig_ok_def state_ok_def)
qed

lemma migs_send:
  assumes "inj (mk_ip cfg)" "ms_source s = n" "ms_target s = Some t" "ms_address s = Some (mk_ip cfg t)"
  shows "migs cfg (\<lambda>w. act s w \<and> nd_vm (mw_nodes w n) \<noteq> None) (send_memory cfg n (ms_uid s) (the (ms_address s)))
     (\<lambda>a w. act s w \<and> (\<forall>u. a = Inr u \<longrightarrow> own_transfer n (ms_uid s) (ms_target s) w))"
  unfolding send_memory_def
proof (rule upholds_call_if [OF between_ok])
  show "lasts cfg (\<lambda>w. act s w \<and> nd_vm (mw_nodes w n) \<noteq> None)" by (intro lasts_intros)
qed (use send_ok [OF assms(1) _ _ _ _ assms(2,3)] assms(4) in \<open>auto simp: act_def\<close>)

lemma sent_change_ok:
  assumes ok: "mig_ok cfg w" and a: "act s w" and own: "own_transfer n (ms_uid s) (ms_target s) w"
    and src: "ms_source s = n" and t: "ms_target s = Some t"
  shows "mig_ok cfg (on_node n (\<lambda>d. d\<lparr>nd_sent := ms_uid s # nd_sent d\<rparr>) w)"
proof -
  let ?v = "on_node n (\<lambda>d. d\<lparr>nd_sent := ms_uid s # nd_sent d\<rparr>) w"
  note m = mig_okD(1) [OF ok]
  obtain q where q: "mw_state w = Some q" "ms_uid q = ms_uid s" "mig_active q" "ms_source q = n" "ms_target q = Some t"
    using a t src by (auto elim: actE)
  have used: "ms_uid s \<in> set (mw_used w)" using mig_okD(2) [OF ok q(1)] q(2) by (simp add: state_ok_def)
  have "machines_ok ?v"
  proof (rule machines_okI)
    show "run_state_of ?v k = Running \<and> k = mw_placed ?v \<and> nd_vm (mw_nodes ?v k) \<noteq> None" if "sending_from ?v k" for k
      using that while_sends [OF m, of k] by auto
    show "nd_vm (mw_nodes ?v (mw_placed ?v)) \<noteq> None \<or> moved_away_in (mw_state ?v) (mw_placed ?v)"
      if "run_state_of ?v k = Running" "k \<noteq> mw_placed ?v" for k
      using that known_at_home [OF m, of k] by auto
    show "set (nd_sent (mw_nodes ?v k)) \<subseteq> set (mw_used ?v)" for k
      using uids_used(1) [OF m, of k] used by auto
  qed (use runs_once [OF m] once_sent [OF m] uids_used(2) [OF m] in simp_all)
  moreover have "active_ok cfg q ?v"
    using mig_active_ok [OF ok q(1,3)] q own t unfolding active_ok_def
    by (auto simp: own_transfer_def alone_def)
  ultimately show ?thesis
    using q mig_okD(2) [OF ok q(1)] active_not_moved by (simp add: mig_ok_def state_ok_def)
qed

lemma migs_start_written:
  "migs cfg (\<lambda>w. act s w \<and> ms_uid s \<in> set (nd_sent (mw_nodes w (ms_source s))))
     (write_migration v (ms_uid s) (\<lambda>m. m\<lparr>ms_started := True\<rparr>)) (\<lambda>b w. True)"
proof (rule migs_write [OF sent_between [OF act_lasts]])
  fix w assume ok: "mig_ok cfg w" and a: "act s w \<and> ms_uid s \<in> set (nd_sent (mw_nodes w (ms_source s)))"
  obtain r where r: "mw_state w = Some r" "mig_active r" "ms_uid r = ms_uid s" "ms_source r = ms_source s"
    using a by (auto elim: actE)
  show "mig_ok cfg (w\<lparr>mw_state := map_option (\<lambda>m. m\<lparr>ms_started := True\<rparr>) (mw_state w)\<rparr>) \<and> True"
    using started_state_ok [OF ok r(1,2)] a r by simp
qed simp

subsection \<open>The machine of a node\<close>

text \<open>A node that gave the VMI up, or is none of its nodes, may forget its machine.\<close>
lemma forget_ok:
  assumes ok: "mig_ok cfg w" and g: "given_up n w" and s: "\<And>d. nd_sent (f d) = nd_sent d"
  shows "mig_ok cfg (on_node n f w)"
proof -
  note m = mig_okD(1) [OF ok]
  have not_sending: "\<not> sending_from w n"
  proof
    assume from_n: "sending_from w n"
    then have r: "run_state_of w n = Running" "n = mw_placed w" using while_sends [OF m] by auto
    then obtain s where st: "mw_state w = Some s" "mig_moved s" "ms_source s = n" "ms_target s \<noteq> Some n"
      using g by (auto simp: given_up_def moved_away_in_def split: option.splits)
    obtain t where "alone t w" "ms_target s = Some t" using mig_moved_ok [OF ok st(1,2)] by (auto simp: moved_ok_def)
    then show False using alone_running [of t w n] r(1) st(4) by auto
  qed
  have home: "nd_vm (mw_nodes (on_node n f w) (mw_placed w)) \<noteq> None \<or> moved_away_in (mw_state w) (mw_placed w)"
    if "run_state_of w k = Running" "k \<noteq> mw_placed w" for k
    using known_at_home [OF m that] g by (auto simp: given_up_def)
  have "machines_ok (on_node n f w)"
  proof (rule machines_okI)
    show "run_state_of (on_node n f w) k = Running \<and> k = mw_placed (on_node n f w) \<and> nd_vm (mw_nodes (on_node n f w) k) \<noteq> None"
      if "sending_from (on_node n f w) k" for k
      using that while_sends [OF m, of k] not_sending by auto
  qed (use runs_once [OF m] once_sent [OF m] uids_used [OF m] home s in simp_all)
  moreover have "state_ok cfg q (on_node n f w)" if "mw_state w = Some q" for q
    using mig_okD(2) [OF ok that] s unfolding state_ok_def moved_ok_def active_ok_def
    by (simp add: alone_def own_transfer_def)
  ultimately show ?thesis by (simp add: mig_ok_def)
qed

lemma node_vmi [simp]:
  "act s (on_node n f w) = act s w" "at_home k (on_node n f w) = at_home k w" "given_up k (on_node n f w) = given_up k w"
  "alone k (on_node n f w) = alone k w" "taken_over k (on_node n f w) = taken_over k w"
  by (simp_all add: act_def at_home_def given_up_def target_of_moved_def alone_def taken_over_def)

lemma migs_force_machine:
  "migs cfg (\<lambda>w. given_up n w \<and> act s w) (force_machine n) (\<lambda>b. act s)"
  "migs cfg (given_up n) (force_machine n) (\<lambda>b w. True)"
  unfolding force_machine_def
  by (rule upholds_change; auto intro: forget_ok split: option.split)+

text \<open>A cold start: no machine runs the guest, since the VMI's node, which is this one, knows none.\<close>
lemma cold_ok:
  assumes ok: "mig_ok cfg w" and h: "at_home n w" "nd_vm (mw_nodes w n) = None" and r: "run_state_of w n = Absent"
  shows "mig_ok cfg (on_node n (\<lambda>d. d\<lparr>nd_registered := Some h\<rparr>)
     (set_transfer n None (w\<lparr>mw_machines := (mw_machines w)(n := \<lparr>mh_handle = h, mh_state = Running\<rparr>)\<rparr>)))"
proof -
  define v where "v = on_node n (\<lambda>d. d\<lparr>nd_registered := Some h\<rparr>)
     (set_transfer n None (w\<lparr>mw_machines := (mw_machines w)(n := \<lparr>mh_handle = h, mh_state = Running\<rparr>)\<rparr>))"
  note m = mig_okD(1) [OF ok]
  have st: "run_state_of v k = (if k = n then Running else run_state_of w k)" for k
    by (simp add: v_def run_state_of_def on_node_def set_transfer_def)
  have same: "mw_state v = mw_state w" "mw_placed v = mw_placed w" "mw_used v = mw_used w"
    "mw_transfers v = (mw_transfers w)(n := None)" "nd_vm (mw_nodes v k) = nd_vm (mw_nodes w k)"
    "nd_sent (mw_nodes v k) = nd_sent (mw_nodes w k)" for k
    by (simp_all add: v_def on_node_def set_transfer_def)
  have frm: "sending_from v k = (k \<noteq> n \<and> sending_from w k)" "sent_from v k = (k \<noteq> n \<and> sent_from w k)" for k
    by (auto simp: sending_from_def sent_from_def same)
  have none: "run_state_of w k \<noteq> Running" for k
  proof
    assume k: "run_state_of w k = Running"
    then have "k \<noteq> n" using r by auto
    show False
    proof (cases "target_of_moved n w")
      case True
      then obtain s where "mw_state w = Some s" "mig_moved s" "ms_target s = Some n" by (auto simp: target_of_moved_def)
      then have "alone n w" using mig_moved_ok [OF ok] by (auto simp: moved_ok_def)
      then show False using alone_running [OF _ k] \<open>k \<noteq> n\<close> by blast
    next
      case False
      then have "mw_placed w = n" "\<not> moved_away_in (mw_state w) n" using h(1) by (auto simp: at_home_def)
      then show False using known_at_home [OF m k] \<open>k \<noteq> n\<close> h(2) by simp
    qed
  qed
  have al: "alone n v" unfolding alone_def st frm using none by simp
  have "machines_ok v"
  proof (rule machines_okI)
    show "k = l" if "run_state_of v k = Running" "run_state_of v l = Running" for k l
      using that none by (auto simp: st split: if_splits)
    show "run_state_of v k = Running \<and> k = mw_placed v \<and> nd_vm (mw_nodes v k) \<noteq> None" if "sending_from v k" for k
      using that while_sends [OF m, of k] none by (auto simp: frm)
    show "run_state_of v k = Paused" if "sent_from v k" for k
      using that once_sent [OF m, of k] by (auto simp: frm st)
    show "nd_vm (mw_nodes v (mw_placed v)) \<noteq> None \<or> moved_away_in (mw_state v) (mw_placed v)"
      if k: "run_state_of v k = Running" "k \<noteq> mw_placed v" for k
    proof -
      have "k = n" using k none by (auto simp: st split: if_splits)
      then obtain s where s: "mw_state w = Some s" "mig_moved s" "ms_target s = Some n"
        using h(1) k(2) by (auto simp: at_home_def target_of_moved_def same)
      then show ?thesis using mig_moved_ok [OF ok s(1,2)] k(2) \<open>k = n\<close>
        by (auto simp: same moved_ok_def moved_away_moved)
    qed
    show "set (nd_sent (mw_nodes v k)) \<subseteq> set (mw_used v)" for k using uids_used(1) [OF m] by (simp add: same)
    show "tr_uid t \<in> set (mw_used v)" if "mw_transfers v k = Some t" for k t
      using that uids_used(2) [OF m] by (auto simp: same split: if_splits)
  qed
  moreover have "state_ok cfg q v" if q: "mw_state w = Some q" for q
  proof -
    have "moved_ok q v" if mv: "mig_moved q"
    proof -
      obtain t where t: "ms_target q = Some t" "t \<noteq> ms_source q" "alone t w" "mw_placed w = ms_source q \<or> mw_placed w = t"
        using mig_moved_ok [OF ok q mv] by (auto simp: moved_ok_def)
      then have "n = t" using h(1) q mv by (auto simp: at_home_def target_of_moved_def moved_away_in_def)
      then show ?thesis using t al by (simp add: moved_ok_def same)
    qed
    moreover have "active_ok cfg q v" if act: "mig_active q"
    proof -
      have a: "active_ok cfg q w" using mig_active_ok [OF ok q act] .
      have "\<not> target_of_moved n w" using q act by (auto simp: target_of_moved_def active_not_moved)
      then have "ms_source q = n" using h(1) a by (auto simp: at_home_def active_ok_def)
      then show ?thesis using a by (simp add: active_ok_def same own_transfer_def)
    qed
    ultimately show ?thesis using mig_okD(2) [OF ok q] by (simp add: state_ok_def same)
  qed
  ultimately have "mig_ok cfg v" by (simp add: mig_ok_def same)
  then show ?thesis by (simp add: v_def)
qed

text \<open>A machine left paused is run, where only it may run.\<close>
lemma unpause_ok:
  assumes ok: "mig_ok cfg w" and h: "taken_over n w" and r: "run_state_of w n = Paused"
  shows "mig_ok cfg (set_run n Running w)"
proof -
  note m = mig_okD(1) [OF ok]
  have al: "alone n w" using h by (simp add: taken_over_def)
  have none: "run_state_of w k \<noteq> Running" for k using alone_running [OF al, of k] r by auto
  have alv: "alone n (set_run n Running w)" using al by (simp add: alone_def)
  have "machines_ok (set_run n Running w)"
  proof (rule machines_okI)
    show "k = l" if "run_state_of (set_run n Running w) k = Running" "run_state_of (set_run n Running w) l = Running" for k l
      using that none by (auto split: if_splits)
    show "run_state_of (set_run n Running w) k = Running \<and> k = mw_placed (set_run n Running w) \<and>
        nd_vm (mw_nodes (set_run n Running w) k) \<noteq> None" if "sending_from (set_run n Running w) k" for k
      using that while_sends [OF m, of k] none by auto
    show "run_state_of (set_run n Running w) k = Paused" if "sent_from (set_run n Running w) k" for k
      using that once_sent [OF m, of k] al by (auto simp: alone_def)
    show "nd_vm (mw_nodes (set_run n Running w) (mw_placed (set_run n Running w))) \<noteq> None \<or>
        moved_away_in (mw_state (set_run n Running w)) (mw_placed (set_run n Running w))"
      if k: "run_state_of (set_run n Running w) k = Running" "k \<noteq> mw_placed (set_run n Running w)" for k
    proof -
      have "k = n" using k none by (auto split: if_splits)
      then obtain s where s: "mw_state w = Some s" "mig_moved s" "ms_target s = Some n"
        using h k(2) by (auto simp: taken_over_def at_home_def target_of_moved_def)
      then show ?thesis using mig_moved_ok [OF ok s(1,2)] k(2) \<open>k = n\<close>
        by (auto simp: moved_ok_def moved_away_moved)
    qed
  qed (use uids_used [OF m] in simp_all)
  moreover have "state_ok cfg q (set_run n Running w)" if q: "mw_state w = Some q" for q
  proof -
    have "moved_ok q (set_run n Running w)" if mv: "mig_moved q"
    proof -
      obtain t where t: "ms_target q = Some t" "t \<noteq> ms_source q" "alone t w" "mw_placed w = ms_source q \<or> mw_placed w = t"
        using mig_moved_ok [OF ok q mv] by (auto simp: moved_ok_def)
      then have "n = t" using h q mv
        by (auto simp: taken_over_def at_home_def target_of_moved_def moved_away_in_def)
      then show ?thesis using t alv by (auto simp: moved_ok_def)
    qed
    moreover have "active_ok cfg q (set_run n Running w)" if act: "mig_active q"
    proof -
      have a: "active_ok cfg q w" using mig_active_ok [OF ok q act] .
      have "\<not> target_of_moved n w" using q act by (auto simp: target_of_moved_def active_not_moved)
      then have src: "ms_source q = n" using h a by (auto simp: taken_over_def at_home_def active_ok_def)
      have "\<not> sent_from w n" using al by (simp add: alone_def)
      then show ?thesis using a unfolding active_ok_def src
        by (auto simp: own_transfer_def sent_from_def)
    qed
    ultimately show ?thesis using mig_okD(2) [OF ok q] by (simp add: state_ok_def)
  qed
  ultimately show ?thesis by (simp add: mig_ok_def)
qed

end
