(* ===== verification/MigrationKeeps.thy ===== *)
theory MigrationKeeps
  imports MigrationSafety
begin

text \<open>The passes of a migration keep the invariant of \<open>MigrationSafety\<close>: the loops over the disks, the
  source's part, the target's part, the start, and the whole pass.\<close>

section \<open>Loops over the disks\<close>

lemma migs_skip: "migs cfg X (done_with x) (\<lambda>b. X)"
  by (rule upholds_done)

lemma migs_only: "migs cfg X c (\<lambda>b. X) \<Longrightarrow> migs cfg X c (\<lambda>b w. True)"
  by (rule upholds_post) simp_all

lemma keeps_abort_mirrors:
  assumes X: "lasts cfg X"
  shows "migs cfg X (abort_each_mirror ds all) (\<lambda>b. X)"
proof (induction ds arbitrary: all)
  case (Cons p ds)
  obtain d i where p: "p = (d, i)" by (cases p)
  show ?case
    unfolding p abort_each_mirror.simps
    by (rule upholds_then [OF migs_mirror_get [OF X]])
      (use Cons.IH in \<open>auto intro!: upholds_then [OF migs_mirror_verb [OF X]] split: sum.split option.split\<close>)
qed (simp add: migs_skip)

lemma keeps_finish_each:
  assumes X: "lasts cfg X"
  shows "migs cfg X (finish_each_mirror ds all) (\<lambda>b. X)"
proof (induction ds arbitrary: all)
  case (Cons p ds)
  obtain d i where p: "p = (d, i)" by (cases p)
  show ?case
    unfolding p finish_each_mirror.simps
    by (rule upholds_then [OF migs_mirror_get [OF X]])
      (use Cons.IH in \<open>auto intro!: upholds_then [OF migs_mirror_verb [OF X]] split: sum.split option.split\<close>)
qed (simp add: migs_skip)

lemma keeps_abort_disks:
  assumes X: "lasts cfg X"
  shows "migs cfg X (abort_disks c n v s) (\<lambda>b. X)"
  unfolding abort_disks_def
  by (rule upholds_then [OF upholds_look [where Q = "\<lambda>f. X"]])
    (auto intro!: migs_skip migs_mark_done [OF X] upholds_then [OF keeps_abort_mirrors [OF X]])

lemma keeps_finish_disks:
  assumes X: "lasts cfg X"
  shows "migs cfg X (finish_disks c n v s) (\<lambda>b. X)"
  unfolding finish_disks_def
  by (rule upholds_then [OF upholds_look [where Q = "\<lambda>f. X"]])
    (auto intro!: migs_skip migs_mark_done [OF X] upholds_then [OF keeps_finish_each [OF X]])

lemma keeps_start_mirrors:
  assumes X: "lasts cfg X"
  shows "migs cfg X (start_mirrors ds made) (\<lambda>b. X)"
proof (induction ds arbitrary: made)
  case (Cons d ds)
  show ?case
    unfolding start_mirrors.simps
    by (rule upholds_then [OF migs_mirror_start [OF X]]) (use Cons.IH in \<open>auto intro: migs_skip split: sum.split\<close>)
qed (simp add: migs_skip)

lemma keeps_take_back:
  assumes X: "lasts cfg X"
  shows "migs cfg X (take_back ds) (\<lambda>b. X)"
proof (induction ds)
  case (Cons p ds)
  obtain d i where p: "p = (d, i)" by (cases p)
  show ?case unfolding p take_back.simps by (rule upholds_then [OF migs_mirror_verb [OF X]]) (rule Cons.IH)
qed (simp add: migs_skip)

lemma keeps_gather:
  assumes X: "lasts cfg X"
  shows "migs cfg X (gather_copies ds cs) (\<lambda>b. X)"
proof (induction ds arbitrary: cs)
  case (Cons p ds)
  obtain d i where p: "p = (d, i)" by (cases p)
  show ?case
    unfolding p gather_copies.simps
    by (rule upholds_then [OF migs_mirror_get [OF X]])
      (use Cons.IH in \<open>auto intro!: migs_skip split: sum.split option.split\<close>)
qed (simp add: migs_skip)

lemma keeps_attach_copies:
  assumes X: "lasts cfg X"
  shows "migs cfg X (attach_copies ds cs) (\<lambda>b. X)"
proof (induction ds)
  case (Cons d ds)
  show ?case
    unfolding attach_copies.simps
    by (intro upholds_if migs_skip upholds_then [OF migs_does_it [OF X]]) (use Cons.IH in \<open>auto intro: migs_skip\<close>)
qed (simp add: migs_skip)

lemma keeps_arm:
  assumes X: "lasts cfg X"
  shows "migs cfg X (arm_listener k) (\<lambda>b. X)"
proof (induction k)
  case (Suc k)
  show ?case
    unfolding arm_listener.simps
    by (rule upholds_then [OF migs_does_it [OF X]]) (use Suc.IH in \<open>auto intro: migs_skip\<close>)
qed (simp add: migs_skip)

lemma keeps_forced:
  assumes X: "lasts cfg X"
  shows "migs cfg X (change (set_forced n h)) (\<lambda>b. X)"
  by (rule migs_change_calm [OF X]) (auto intro: node_calmer)

lemma keeps_receive:
  assumes X: "lasts cfg X"
  shows "migs cfg X (receive c n s cs) (\<lambda>b. X)"
proof -
  have armed: "migs cfg X (if mk_control c n then arm_listener 50 else done_with False) (\<lambda>b. X)"
    by (intro upholds_if keeps_arm [OF X] migs_skip)
  have forced: "migs cfg X (and_then (change (set_forced n h)) (\<lambda>_. done_with None)) (\<lambda>b. X)" for h
    by (rule upholds_then [OF keeps_forced [OF X] migs_skip])
  have then_arm: "migs cfg X (and_then (if mk_control c n then arm_listener 50 else done_with False) (\<lambda>armed.
         if armed then done_with (Some (r h)) else and_then (change (set_forced n h)) (\<lambda>_. done_with None))) (\<lambda>b. X)" for h r
    by (rule upholds_then [OF armed]) (auto intro: migs_skip forced)
  have launched: "migs cfg X (and_then (launch n Waiting) (\<lambda>a. case a of Inl e \<Rightarrow> done_with None | Inr h \<Rightarrow>
       and_then (if mk_control c n then arm_listener 50 else done_with False) (\<lambda>armed.
         if armed then done_with (Some (r h)) else and_then (change (set_forced n h)) (\<lambda>_. done_with None)))) (\<lambda>b. X)" for r
  proof (rule upholds_then [OF migs_launch_waiting [OF X]])
    fix a :: "string + nat"
    show "migs cfg X (case a of Inl e \<Rightarrow> done_with None | Inr h \<Rightarrow>
       and_then (if mk_control c n then arm_listener 50 else done_with False) (\<lambda>armed.
         if armed then done_with (Some (r h)) else and_then (change (set_forced n h)) (\<lambda>_. done_with None))) (\<lambda>b. X)"
      by (cases a) (simp_all only: sum.case migs_skip then_arm)
  qed
  show ?thesis
    unfolding receive_def
    by (rule upholds_then [OF keeps_attach_copies [OF X]], rule upholds_if [OF migs_skip],
        rule upholds_then [OF migs_does_it [OF X]], rule upholds_if [OF migs_skip launched])
qed

lemma keeps_drop_receiver:
  assumes X: "lasts cfg X"
  shows "migs cfg X (drop_receiver n) (\<lambda>b. X)"
  by (rule migs_drop_receiver [OF X])

lemma keeps_set_incoming:
  assumes X: "lasts cfg X"
  shows "migs cfg X (change (on_node n (\<lambda>d. d\<lparr>nd_incoming := f d\<rparr>))) (\<lambda>b. X)"
  by (rule migs_change_calm [OF X]) (auto intro: node_calmer)

lemma keeps_set_vm:
  assumes X: "lasts cfg X"
  shows "migs cfg X (change (on_node n (\<lambda>d. d\<lparr>nd_vm := Some e\<rparr>))) (\<lambda>b. X)"
  "migs cfg X (change (on_node n (\<lambda>d. d\<lparr>nd_vm := Some e, nd_registered := r\<rparr>))) (\<lambda>b. X)"
  "migs cfg X (change (on_node n (\<lambda>d. d\<lparr>nd_vm := map_option g (nd_vm d)\<rparr>))) (\<lambda>b. X)"
  by (rule migs_change_calm [OF X]; auto intro: node_calmer)+

section \<open>The source's part\<close>

lemma act_at_home: "\<lbrakk>mig_ok cfg w; act s w; ms_source s = n\<rbrakk> \<Longrightarrow> at_home n w"
  using act_home act_not_away by (auto simp: at_home_def)

lemma migs_mirror_disks:
  assumes "ms_source s = n"
  shows "migs cfg (act s) (mirror_disks cfg v s) (\<lambda>b w. b \<or> at_home n w)"
proof -
  have undone: "migs cfg (act s) (and_then (take_back made) (\<lambda>_. and_then (fail_migration v s) (\<lambda>_. done_with False)))
     (\<lambda>b w. b \<or> at_home n w)" for made
    by (intro upholds_then [OF keeps_take_back [OF act_lasts]] upholds_then [OF migs_fail] upholds_done)
      (use assms in simp)
  have noted: "migs cfg (act s) (if ok then annotate (ms_uid s) made else done_with False) (\<lambda>b. act s)" for ok made
    by (intro upholds_if migs_annotate act_lasts migs_skip)
  show ?thesis
    unfolding mirror_disks_def
  proof (rule upholds_then [OF keeps_start_mirrors [OF act_lasts]])
    fix x :: "bool \<times> disk_ids"
    obtain ok made where x: "x = (ok, made)" by (cases x)
    show "migs cfg (act s) (case x of (ok, made) \<Rightarrow>
        and_then (if ok then annotate (ms_uid s) made else done_with False) (\<lambda>recorded.
          if recorded then done_with True
          else and_then (take_back made) (\<lambda>_. and_then (fail_migration v s) (\<lambda>_. done_with False))))
        (\<lambda>b w. b \<or> at_home n w)"
      unfolding x prod.case
      by (rule upholds_then [OF noted], rule upholds_if [OF upholds_done undone]) simp
  qed
qed

text \<open>While the memory is sent: the guest moved only when the hypervisor says so, and then only the
  target runs it.\<close>
lemma migs_while_sending:
  assumes n: "ms_source s = n" and t: "ms_target s = Some t"
  shows "migs cfg (\<lambda>w. act s w \<and> own_transfer n (ms_uid s) (ms_target s) w) (while_sending n v s) (\<lambda>b w. True)"
proof -
  let ?X = "\<lambda>w. act s w \<and> own_transfer n (ms_uid s) (ms_target s) w"
  have X: "lasts cfg ?X" by (intro lasts_intros)
  have fails: "migs cfg ?X (fail_migration v s) (\<lambda>b w. True)"
    by (rule upholds_pre [OF migs_fail_any]) simp
  have al: "alone t w" if ok: "mig_ok cfg w" and x: "?X w" and word: "transfer_word w n = ''completed''" for w
  proof -
    obtain q where q: "mw_state w = Some q" "ms_uid q = ms_uid s" "mig_active q" "ms_source q = n" "ms_target q = Some t"
      using x t n by (auto elim: actE)
    obtain y where y: "mw_transfers w n = Some y" "tr_word y = ''completed''"
      using word by (auto simp: transfer_word_def split: option.splits)
    then have "tr_uid y = ms_uid s" "tr_to y = t" using x t by (auto simp: own_transfer_def)
    then show ?thesis using mig_active_ok [OF ok q(1,3)] q y by (auto simp: active_ok_def)
  qed
  have said: "migs cfg (\<lambda>w. ?X w \<and> (\<forall>x. Inr st = Inr x \<longrightarrow> x = transfer_word w n))
      (if st = ''completed'' then and_then (write_migration v (ms_uid s) (\<lambda>m. m\<lparr>ms_completed := True\<rparr>)) (\<lambda>_. done_with ())
       else if st = ''failed'' \<or> st = ''cancelled'' then fail_migration v s else done_with ()) (\<lambda>b w. True)" for st
  proof (intro upholds_if)
    assume st: "st = ''completed''"
    show "migs cfg (\<lambda>w. ?X w \<and> (\<forall>x. Inr st = Inr x \<longrightarrow> x = transfer_word w n))
       (and_then (write_migration v (ms_uid s) (\<lambda>m. m\<lparr>ms_completed := True\<rparr>)) (\<lambda>_. done_with ())) (\<lambda>b w. True)"
      by (rule upholds_then [OF upholds_pre [OF migs_complete]])
        (use al t st in \<open>auto intro: upholds_done\<close>)
  qed (auto intro: upholds_done upholds_pre [OF fails])
  have cancelled: "migs cfg ?X (and_then (cancel n) (\<lambda>a. case a of Inl e \<Rightarrow> done_with () | Inr u \<Rightarrow> fail_migration v s)) (\<lambda>b w. True)"
    by (rule upholds_then [OF migs_cancel [OF X]]) (auto intro: upholds_done fails split: sum.split)
  have asked: "migs cfg ?X (and_then (progress n) (\<lambda>a. case a of Inl e \<Rightarrow> done_with ()
      | Inr st \<Rightarrow> if st = ''completed'' then and_then (write_migration v (ms_uid s) (\<lambda>m. m\<lparr>ms_completed := True\<rparr>)) (\<lambda>_. done_with ())
          else if st = ''failed'' \<or> st = ''cancelled'' then fail_migration v s else done_with ())) (\<lambda>b w. True)"
  proof (rule upholds_then [OF migs_progress [OF X]])
    fix a :: "string + string"
    show "migs cfg (\<lambda>w. ?X w \<and> (\<forall>x. a = Inr x \<longrightarrow> x = transfer_word w n))
      (case a of Inl e \<Rightarrow> done_with ()
      | Inr st \<Rightarrow> if st = ''completed'' then and_then (write_migration v (ms_uid s) (\<lambda>m. m\<lparr>ms_completed := True\<rparr>)) (\<lambda>_. done_with ())
          else if st = ''failed'' \<or> st = ''cancelled'' then fail_migration v s else done_with ()) (\<lambda>b w. True)"
    proof (cases a)
      case (Inl e)
      then show ?thesis by (simp add: upholds_done)
    next
      case (Inr st)
      show ?thesis unfolding Inr sum.case by (rule said)
    qed
  qed
  show ?thesis
    unfolding while_sending_def by (rule upholds_if [OF cancelled asked])
qed

lemma migs_send_to_target:
  assumes inj: "inj (mk_ip cfg)" and n: "ms_source s = n" and t: "ms_target s = Some t" "ms_address s = Some (mk_ip cfg t)"
  shows "migs cfg (\<lambda>w. act s w \<and> nd_vm (mw_nodes w n) \<noteq> None) (send_to_target cfg n v s) (\<lambda>b w. b \<or> at_home n w)"
proof -
  let ?X = "\<lambda>w. act s w \<and> nd_vm (mw_nodes w n) \<noteq> None"
  have X: "lasts cfg ?X" by (intro lasts_intros)
  have fails: "migs cfg (act s) (and_then (fail_migration v s) (\<lambda>_. done_with False)) (\<lambda>b w. b \<or> at_home n w)"
    by (rule upholds_then [OF migs_fail]) (auto intro: upholds_done simp: n)
  have sent: "migs cfg (\<lambda>w. act s w \<and> own_transfer n (ms_uid s) (ms_target s) w)
      (and_then (change (on_node n (\<lambda>d. d\<lparr>nd_sent := ms_uid s # nd_sent d\<rparr>))) (\<lambda>_.
         and_then (write_migration v (ms_uid s) (\<lambda>m. m\<lparr>ms_started := True\<rparr>)) (\<lambda>_. done_with True))) (\<lambda>b w. b \<or> at_home n w)"
  proof (rule upholds_then [OF upholds_change [where Q = "\<lambda>u w. act s w \<and> ms_uid s \<in> set (nd_sent (mw_nodes w (ms_source s)))"]])
    show "migs cfg (\<lambda>w. act s w \<and> ms_uid s \<in> set (nd_sent (mw_nodes w (ms_source s))))
      (and_then (write_migration v (ms_uid s) (\<lambda>m. m\<lparr>ms_started := True\<rparr>)) (\<lambda>_. done_with True)) (\<lambda>b w. b \<or> at_home n w)"
      by (rule upholds_then [OF migs_start_written]) (auto intro: upholds_done)
  qed (use sent_change_ok [OF _ _ _ n t(1)] n in auto)
  have go: "migs cfg ?X (and_then (send_memory cfg n (ms_uid s) (the (ms_address s))) (\<lambda>a. case a of
       Inl e \<Rightarrow> and_then (fail_migration v s) (\<lambda>_. done_with False)
     | Inr u \<Rightarrow> and_then (change (on_node n (\<lambda>d. d\<lparr>nd_sent := ms_uid s # nd_sent d\<rparr>))) (\<lambda>_.
           and_then (write_migration v (ms_uid s) (\<lambda>m. m\<lparr>ms_started := True\<rparr>)) (\<lambda>_. done_with True)))) (\<lambda>b w. b \<or> at_home n w)"
  proof (rule upholds_then [OF migs_send [OF inj n t]])
    fix a :: "string + unit"
    show "migs cfg (\<lambda>w. act s w \<and> (\<forall>u. a = Inr u \<longrightarrow> own_transfer n (ms_uid s) (ms_target s) w)) (case a of
       Inl e \<Rightarrow> and_then (fail_migration v s) (\<lambda>_. done_with False)
     | Inr u \<Rightarrow> and_then (change (on_node n (\<lambda>d. d\<lparr>nd_sent := ms_uid s # nd_sent d\<rparr>))) (\<lambda>_.
           and_then (write_migration v (ms_uid s) (\<lambda>m. m\<lparr>ms_started := True\<rparr>)) (\<lambda>_. done_with True))) (\<lambda>b w. b \<or> at_home n w)"
    proof (cases a)
      case (Inl e)
      show ?thesis unfolding Inl sum.case by (rule upholds_pre [OF fails]) simp
    next
      case (Inr u)
      show ?thesis unfolding Inr sum.case by (rule upholds_pre [OF sent]) simp
    qed
  qed
  show ?thesis
    unfolding send_to_target_def
    by (rule upholds_then [OF migs_does_it [OF X]], rule upholds_if [OF upholds_pre [OF fails] go]) simp
qed

text \<open>What the pass was handed, of a migration this node sends.\<close>
definition handed_out :: "mig_config \<Rightarrow> mig_state \<Rightarrow> string \<Rightarrow> bool" where
  "handed_out cfg s n =
     (ms_source s = n \<and> (\<forall>a. ms_address s = Some a \<longrightarrow> (\<exists>t. ms_target s = Some t \<and> a = mk_ip cfg t)))"

lemma own_since:
  assumes ok: "mig_ok cfg w" and a: "act s w" and src: "ms_source s = n" and t: "ms_target s \<noteq> None"
    and st: "ms_started s \<or> ms_uid s \<in> set (nd_sent (mw_nodes w n))"
  shows "own_transfer n (ms_uid s) (ms_target s) w"
proof -
  obtain q where q: "mw_state w = Some q" "ms_uid q = ms_uid s" "mig_active q" "ms_source q = n" "ms_target q = ms_target s"
    "ms_started s \<longrightarrow> ms_started q"
    using a src t by (auto simp: act_def)
  show ?thesis using mig_active_ok [OF ok q(1,3)] q st by (auto simp: active_ok_def)
qed

lemma migs_carry_out:
  assumes inj: "inj (mk_ip cfg)" and h: "handed_out cfg s n"
  shows "migs cfg (\<lambda>w. act s w \<and> nd_vm (mw_nodes w n) \<noteq> None) (carry_out cfg n v s) (\<lambda>b w. b \<or> at_home n w)"
  unfolding carry_out_def
proof (rule upholds_then [OF upholds_look [where Q = "\<lambda>st w. act s w \<and> nd_vm (mw_nodes w n) \<noteq> None \<and>
    (st \<longrightarrow> ms_started s \<or> ms_uid s \<in> set (nd_sent (mw_nodes w n)))"]])
  fix st :: bool
  have src: "ms_source s = n" using h by (simp add: handed_out_def)
  let ?P = "\<lambda>w. act s w \<and> nd_vm (mw_nodes w n) \<noteq> None \<and> (st \<longrightarrow> ms_started s \<or> ms_uid s \<in> set (nd_sent (mw_nodes w n)))"
  let ?R = "\<lambda>b w. b \<or> at_home n w"
  have fails: "migs cfg ?P (and_then (fail_migration v s) (\<lambda>_. done_with False)) ?R"
    by (rule upholds_then [OF upholds_pre [OF migs_fail]]) (auto intro: upholds_done simp: src)
  have stays: "migs cfg ?P (done_with False) ?R" using act_at_home src by (auto intro: upholds_done)
  have on: "migs cfg ?P (done_with True) ?R" by (rule upholds_done) simp
  have mirror: "migs cfg ?P (mirror_disks cfg v s) ?R"
    by (rule upholds_pre [OF migs_mirror_disks [OF src]]) simp
  have send: "migs cfg ?P (and_then (while_sending n v s) (\<lambda>_. done_with True)) ?R"
    if t: "ms_target s \<noteq> None" and "st"
  proof -
    obtain t where "ms_target s = Some t" using t by blast
    then show ?thesis
      by (intro upholds_then [OF upholds_pre [OF migs_while_sending [OF src]]])
        (use own_since [OF _ _ src t] \<open>st\<close> in \<open>auto intro: upholds_done\<close>)
  qed
  have start: "migs cfg ?P (send_to_target cfg n v s) ?R" if addr: "ms_address s \<noteq> None"
  proof -
    obtain t where "ms_target s = Some t" "ms_address s = Some (mk_ip cfg t)"
      using addr h by (auto simp: handed_out_def)
    then show ?thesis by (intro upholds_pre [OF migs_send_to_target [OF inj src]]) auto
  qed
  show "migs cfg ?P
     (if ms_abort s \<and> \<not> st then and_then (fail_migration v s) (\<lambda>_. done_with False)
       else if ms_target s = None then done_with False
       else if missing cfg n \<or> refused cfg then and_then (fail_migration v s) (\<lambda>_. done_with False)
       else if disks_for v (ms_uid s) = None then mirror_disks cfg v s
       else if \<not> mk_control cfg n then done_with True
       else if st then and_then (while_sending n v s) (\<lambda>_. done_with True)
       else if ms_address s = None \<or> ms_port s = None then done_with True
       else send_to_target cfg n v s) ?R"
    by (intro upholds_if fails stays on mirror send start) auto
qed auto

lemma migs_over_out:
  assumes "\<not> mig_active s"
  shows "migs cfg (\<lambda>w. (mig_active s \<longrightarrow> act s w) \<and> (mig_moved s \<longrightarrow> given_up n w) \<and> (ms_failed s \<longrightarrow> at_home n w))
     (migrate_out cfg n v s) (\<lambda>b w. b \<or> at_home n w)"
    (is "migs cfg ?P _ ?R")
proof -
  have leaves: "migs cfg ?P (and_then (force_machine n) (\<lambda>_. and_then (finish_forced n) (\<lambda>_. done_with True))) ?R"
    if "mig_moved s"
    by (rule upholds_then [OF upholds_pre [OF migs_force_machine(2)]])
      (use that in \<open>auto intro!: upholds_then [OF migs_finish_forced [OF lasts_const]] upholds_done\<close>)
  have fails: "migs cfg ?P (and_then (abort_disks cfg n v s) (\<lambda>_. done_with False)) ?R" if "ms_failed s"
    by (rule upholds_then [OF upholds_pre [OF keeps_abort_disks [OF at_home_lasts]]])
      (use that in \<open>auto intro: upholds_done\<close>)
  show ?thesis
    unfolding migrate_out_def
    by (rule upholds_if, erule leaves, rule upholds_if, erule fails)
      (use assms in \<open>auto simp: mig_active_def mig_moved_def\<close>)
qed

lemma migs_migrate_out:
  assumes inj: "inj (mk_ip cfg)" and h: "handed_out cfg s n" and a: "mig_active s"
  shows "migs cfg (act s) (migrate_out cfg n v s) (\<lambda>b w. b \<or> at_home n w)"
    (is "migs cfg ?P _ ?R")
proof -
  have src: "ms_source s = n" using h by (simp add: handed_out_def)
  have ended: "migs cfg (act s) (and_then (if ms_started s then done_with () else fail_migration v s) (\<lambda>_. done_with False)) ?R"
  proof (rule upholds_then [where Q = "\<lambda>u. at_home n"])
    show "migs cfg (act s) (if ms_started s then done_with () else fail_migration v s) (\<lambda>u. at_home n)"
      using act_at_home src upholds_post [OF migs_fail [of cfg s v]] by (auto intro: upholds_done)
  qed (auto intro: upholds_done)
  have flight: "migs cfg ?P (and_then (look (\<lambda>w. nd_vm (mw_nodes w n))) (\<lambda>vm. case vm of
        Some e \<Rightarrow> if ve_ended e then and_then (if ms_started s then done_with () else fail_migration v s) (\<lambda>_. done_with False)
                 else carry_out cfg n v s
      | None \<Rightarrow> and_then (if ms_started s then done_with () else fail_migration v s) (\<lambda>_. done_with False))) ?R"
  proof (rule upholds_then [OF upholds_look [where Q = "\<lambda>vm w. act s w \<and> nd_vm (mw_nodes w n) = vm"]])
    fix vm :: "vm_entry option"
    show "migs cfg (\<lambda>w. act s w \<and> nd_vm (mw_nodes w n) = vm) (case vm of
        Some e \<Rightarrow> if ve_ended e then and_then (if ms_started s then done_with () else fail_migration v s) (\<lambda>_. done_with False)
                 else carry_out cfg n v s
      | None \<Rightarrow> and_then (if ms_started s then done_with () else fail_migration v s) (\<lambda>_. done_with False)) ?R"
    proof (cases vm)
      case None
      show ?thesis unfolding None option.case by (rule upholds_pre [OF ended]) simp
    next
      case (Some e)
      show ?thesis unfolding Some option.case
        by (rule upholds_if [OF upholds_pre [OF ended] upholds_pre [OF migs_carry_out [OF inj h]]]) auto
    qed
  qed auto
  show ?thesis
    using flight a by (simp add: migrate_out_def mig_active_def mig_moved_def)
qed

section \<open>The target's part\<close>

lemma migs_arrive: "migs cfg (taken_over n) (arrive cfg n inc) (\<lambda>b. taken_over n)"
proof -
  have run: "migs cfg (taken_over n) (unpause_machine n) (\<lambda>b. taken_over n)"
    unfolding unpause_machine_def
    by (rule upholds_call [OF between_ok [OF taken_over_lasts]])
      (auto intro: unpause_ok simp: taken_over_def alone_def at_home_def target_of_moved_def)
  have paused: "migs cfg (taken_over n) (and_then (machine_state n) (\<lambda>a. case a of
       Inr Paused \<Rightarrow> and_then (unpause_machine n) (\<lambda>_. done_with ()) | _ \<Rightarrow> done_with ())) (\<lambda>b. taken_over n)"
    by (rule upholds_then [OF migs_machine_state [OF taken_over_lasts]])
      (auto intro!: migs_skip upholds_then [OF run] split: sum.split run_state.split)
  show ?thesis
    unfolding arrive_def
    by (rule upholds_then [where Q = "\<lambda>u. taken_over n"])
      (auto intro!: upholds_if paused migs_skip keeps_set_vm(2) taken_over_lasts)
qed

lemma migs_settle_in: "migs cfg (taken_over n) (settle_in cfg n v s) (\<lambda>b. taken_over n)"
proof -
  have rest: "migs cfg (taken_over n) (and_then (look (\<lambda>w. nd_vm (mw_nodes w n)))
     (\<lambda>vm. if vm = None then done_with () else finish_disks cfg n v s)) (\<lambda>b. taken_over n)"
    by (rule upholds_then [OF upholds_look [where Q = "\<lambda>vm. taken_over n"]])
      (auto intro!: migs_skip keeps_finish_disks taken_over_lasts)
  have got: "migs cfg (taken_over n) (case io of None \<Rightarrow> done_with () | Some inc \<Rightarrow> arrive cfg n inc) (\<lambda>b. taken_over n)" for io
    by (auto intro!: migs_skip migs_arrive split: option.split)
  show ?thesis
    unfolding settle_in_def
    by (rule upholds_then [OF upholds_look [where Q = "\<lambda>io. taken_over n"]])
      (auto intro!: upholds_then [OF keeps_set_incoming [OF taken_over_lasts]] upholds_then [OF got] rest)
qed

lemma migs_start_receiver:
  assumes t: "ms_target s = Some n"
  shows "migs cfg (act s) (start_receiver cfg n v s ds) (\<lambda>b w. True)"
proof -
  have ready: "migs cfg (act s) (and_then (say_ready cfg n v s p) (\<lambda>b. change (on_node n (\<lambda>d. d\<lparr>nd_incoming := f b d\<rparr>)))) (\<lambda>b w. True)" for p f
    by (rule upholds_then [OF migs_say_ready [OF t]]) (rule keeps_set_incoming [OF lasts_const])
  have got: "migs cfg (act s) (and_then (receive cfg n s cs) (\<lambda>io. case io of
       None \<Rightarrow> fail_migration v s
     | Some inc \<Rightarrow> and_then (say_ready cfg n v s (rc_port inc)) (\<lambda>b.
         change (on_node n (\<lambda>d. d\<lparr>nd_incoming := Some (inc\<lparr>rc_reported := b\<rparr>)\<rparr>))))) (\<lambda>b w. True)" for cs
    by (rule upholds_then [OF keeps_receive [OF act_lasts]]) (auto intro!: migs_fail_any ready split: option.split)
  show ?thesis
    unfolding start_receiver_def
    by (rule upholds_then [OF keeps_gather [OF act_lasts]])
      (auto intro!: migs_fail_any got upholds_done split: option.split)
qed

lemma act_given_up: "\<lbrakk>mig_ok cfg w; act s w; ms_source s \<noteq> n\<rbrakk> \<Longrightarrow> given_up n w"
  using act_home act_not_away by (auto simp: given_up_def)

lemma migs_migrate_in:
  assumes t: "ms_target s = Some n" "ms_source s \<noteq> n"
  shows "migs cfg (\<lambda>w. (mig_active s \<longrightarrow> act s w) \<and> (mig_moved s \<longrightarrow> taken_over n w) \<and> \<not> ms_failed s)
     (migrate_in cfg n v s) (\<lambda>b w. b \<or> at_home n w)"
    (is "migs cfg ?P _ ?R")
proof -
  have arrives: "migs cfg ?P (and_then (settle_in cfg n v s) (\<lambda>_. done_with False)) ?R" if "mig_moved s"
    by (rule upholds_then [OF upholds_pre [OF migs_settle_in]])
      (use that in \<open>auto intro: upholds_done simp: taken_over_def\<close>)
  have forces: "migs cfg (act s) (and_then (force_machine n) (\<lambda>_. fail_migration v s)) (\<lambda>b w. True)"
    by (rule upholds_then [OF upholds_pre [OF migs_force_machine(1)]]) (use act_given_up t in \<open>auto intro: migs_fail_any\<close>)
  have keeps: "migs cfg (act s) (keep_receiving cfg n v s inc) (\<lambda>b w. True)" for inc
    unfolding keep_receiving_def
    by (intro upholds_if upholds_done upholds_then [OF migs_say_ready [OF t(1)]] keeps_set_incoming lasts_const) simp
  have flight: "migs cfg (act s)
     (if nd_vm d \<noteq> None then and_then (force_machine n) (\<lambda>_. fail_migration v s)
      else if ms_abort s \<and> \<not> ms_started s then drop_receiver n
      else (case nd_incoming d of
              Some inc \<Rightarrow> keep_receiving cfg n v s inc
            | None \<Rightarrow> if missing cfg n then fail_migration v s
                     else (case disks_for v (ms_uid s) of None \<Rightarrow> done_with () | Some disks \<Rightarrow> start_receiver cfg n v s disks)))
     (\<lambda>b w. True)" for d
    by (auto intro!: upholds_if forces keeps migs_only [OF keeps_drop_receiver [OF act_lasts]] migs_fail_any upholds_done
        migs_start_receiver t split: option.split)
  have looks: "migs cfg ?P (and_then (look (\<lambda>w. mw_nodes w n)) (\<lambda>d. and_then
     (if nd_vm d \<noteq> None then and_then (force_machine n) (\<lambda>_. fail_migration v s)
      else if ms_abort s \<and> \<not> ms_started s then drop_receiver n
      else (case nd_incoming d of
              Some inc \<Rightarrow> keep_receiving cfg n v s inc
            | None \<Rightarrow> if missing cfg n then fail_migration v s
                     else (case disks_for v (ms_uid s) of None \<Rightarrow> done_with () | Some disks \<Rightarrow> start_receiver cfg n v s disks)))
     (\<lambda>_. done_with True))) ?R" if "\<not> mig_moved s"
    by (rule upholds_then [OF upholds_look [where Q = "\<lambda>d. act s"]], use that in \<open>simp add: mig_moved_def mig_active_def\<close>,
        rule upholds_then [OF flight], rule upholds_done, simp)
  show ?thesis
    unfolding migrate_in_def by (intro upholds_if arrives looks)
qed

section \<open>The whole pass\<close>

lemma roleE:
  assumes "role_in so n = Some r"
  obtains (Sends) s where "r = Source s" "so = Some s" "ms_source s = n"
        | (Receives) s where "r = Target s" "so = Some s" "ms_target s = Some n" "ms_source s \<noteq> n" "\<not> ms_failed s"
  using assms by (auto simp: role_in_def split: option.splits if_splits)

text \<open>What holds of the part a node has, from when the pass was handed the VMI.\<close>
definition part_ok :: "mig_config \<Rightarrow> string \<Rightarrow> mig_role option \<Rightarrow> mig_world \<Rightarrow> bool" where
  "part_ok cfg n r w =
     (case r of
        None \<Rightarrow> at_home n w
      | Some (Source s) \<Rightarrow> (mig_active s \<longrightarrow> act s w) \<and> (mig_moved s \<longrightarrow> given_up n w) \<and> (ms_failed s \<longrightarrow> at_home n w)
      | Some (Target s) \<Rightarrow> (mig_active s \<longrightarrow> act s w) \<and> (mig_moved s \<longrightarrow> taken_over n w) \<and> \<not> ms_failed s)"

lemma part_lasts [lasts_intros]: "lasts cfg (part_ok c n r)"
proof (cases r)
  case None
  then show ?thesis using at_home_lasts [of cfg n] by (simp add: part_ok_def [abs_def])
next
  case (Some p)
  show ?thesis
  proof (cases p)
    case (Source s)
    show ?thesis unfolding part_ok_def [abs_def] Some Source option.case mig_role.case by (intro lasts_intros)
  next
    case (Target s)
    show ?thesis unfolding part_ok_def [abs_def] Some Target option.case mig_role.case by (intro lasts_intros)
  qed
qed

lemma handed_part:
  assumes ok: "mig_ok cfg w" and here: "mw_placed w = n \<or> arriving_in (mw_state w) n"
  shows "part_ok cfg n (role_in (mw_state w) n) w"
proof (cases "role_in (mw_state w) n")
  case None
  then have "mw_placed w = n" "\<not> moved_away_in (mw_state w) n"
    using here by (auto simp: arriving_in_def moved_away_in_def role_in_def split: option.splits if_splits)
  then show ?thesis by (simp add: None part_ok_def at_home_def)
next
  case (Some r)
  then show ?thesis
  proof (cases rule: roleE)
    case (Sends s)
    have p: "mw_placed w = n" using here Some Sends by (auto simp: arriving_in_def)
    have "given_up n w" if mv: "mig_moved s"
    proof -
      obtain t where "ms_target s = Some t" "t \<noteq> n" using mig_moved_ok [OF ok Sends(2) mv] Sends(3) by (auto simp: moved_ok_def)
      then show ?thesis using Sends mv by (simp add: given_up_def moved_away_moved)
    qed
    moreover have "at_home n w" if "ms_failed s"
      using that p Sends by (simp add: at_home_def moved_away_moved mig_moved_def)
    ultimately show ?thesis
      unfolding part_ok_def Some option.case Sends(1) mig_role.case using Sends(2) by (auto simp: act_def)
  next
    case (Receives s)
    have "taken_over n w" if mv: "mig_moved s"
      using mig_moved_ok [OF ok Receives(2) mv] Receives mv
      by (auto simp: taken_over_def at_home_def target_of_moved_def moved_ok_def moved_away_moved)
    then show ?thesis
      unfolding part_ok_def Some option.case Receives(1) mig_role.case using Receives(2,5) by (auto simp: act_def)
  qed
qed

lemma handed_address:
  assumes ok: "mig_ok cfg w" and s: "mw_state w = Some s" "ms_source s = n" "mig_active s"
  shows "handed_out cfg s n"
  using mig_active_ok [OF ok s(1,3)] s(2) by (simp add: handed_out_def active_ok_def)

lemma migs_migrate:
  assumes inj: "inj (mk_ip cfg)" and h: "\<And>s. \<lbrakk>vv_state v = Some s; ms_source s = n; mig_active s\<rbrakk> \<Longrightarrow> handed_out cfg s n"
  shows "migs cfg (part_ok cfg n (role_in (vv_state v) n)) (migrate cfg n v) (\<lambda>b w. b \<or> at_home n w)"
proof (cases "role_in (vv_state v) n")
  case None
  show ?thesis by (simp add: None migrate_def) (rule upholds_done, simp add: part_ok_def)
next
  case (Some r)
  then show ?thesis
  proof (cases rule: roleE)
    case (Sends s)
    show ?thesis
    proof (cases "mig_active s")
      case True
      show ?thesis
        unfolding migrate_def Some option.case Sends(1) mig_role.case
        by (rule upholds_pre [OF migs_migrate_out [OF inj h [OF Sends(2,3) True] True]]) (use True in \<open>simp add: part_ok_def\<close>)
    next
      case False
      show ?thesis
        unfolding migrate_def Some option.case Sends(1) mig_role.case
        by (rule upholds_pre [OF migs_over_out [OF False]]) (simp add: part_ok_def)
    qed
  next
    case (Receives s)
    show ?thesis
      unfolding migrate_def Some option.case Receives(1) mig_role.case
      by (rule upholds_pre [OF migs_migrate_in [OF Receives(3,4)]]) (simp add: part_ok_def)
  qed
qed

lemma migs_absorb_end: "lasts cfg X \<Longrightarrow> migs cfg X (absorb_end n) (\<lambda>b. X)"
  unfolding absorb_end_def
  by (rule upholds_then [OF upholds_look [where Q = "\<lambda>vm. X"]])
    (auto intro!: migs_skip upholds_then [OF migs_calm] keeps_set_vm(3) split: option.split sum.split bool.split)

lemma kept_between:
  assumes "lasts cfg X"
  shows "stable_amid (mig_ok cfg) in_between (\<lambda>w. X w \<and> p (mw_nodes w n))"
  using between_ok [OF assms] by (simp add: stable_amid_def between_keeps_nodes)

lemma migs_start_cold: "migs cfg (at_home n) (start_cold cfg n v) (\<lambda>b w. True)"
  unfolding start_cold_def
proof (rule upholds_then [OF upholds_look [where Q = "\<lambda>d w. at_home n w \<and> d = mw_nodes w n"]])
  fix d :: mig_node
  have cold: "migs cfg (\<lambda>w. at_home n w \<and> nd_vm (mw_nodes w n) = None) (launch n Running) (\<lambda>a w. True)"
    unfolding launch_def
    by (rule upholds_call_if [OF kept_between [OF at_home_lasts]]) (auto intro: cold_ok simp: Let_def simp del: fun_upd_apply)
  have set: "migs cfg (\<lambda>w. True) (change (on_node n (\<lambda>d. d\<lparr>nd_vm := Some e\<rparr>))) (\<lambda>b w. True)" for e
    by (rule keeps_set_vm(1) [OF lasts_const])
  show "migs cfg (\<lambda>w. at_home n w \<and> d = mw_nodes w n)
      (if nd_vm d \<noteq> None \<or> nd_forced d \<noteq> None \<or> moved_away_in (vv_state v) n then done_with ()
       else and_then (launch n Running) (\<lambda>a.
         case a of
           Inr h \<Rightarrow> change (on_node n (\<lambda>d. d\<lparr>nd_vm := Some \<lparr>ve_handle = h, ve_ended = False\<rparr>\<rparr>))
         | Inl e \<Rightarrow>
             if mk_gives_up cfg
             then change (on_node n (\<lambda>d. d\<lparr>nd_vm := Some \<lparr>ve_handle = 0, ve_ended = True\<rparr>\<rparr>))
             else done_with ())) (\<lambda>b w. True)"
    by (rule upholds_if) (auto intro!: upholds_done upholds_then [OF upholds_pre [OF cold]] set split: sum.split)
qed auto

lemma migs_let_go: "migs cfg (given_up n) (let_go n) (\<lambda>b w. True)"
proof -
  have gone: "migs cfg (given_up n) (change (on_node n (\<lambda>d. d\<lparr>nd_vm := None\<rparr>))) (\<lambda>b w. True)"
    by (rule upholds_change) (auto intro: forget_ok)
  have rest: "migs cfg (given_up n) (and_then (look (\<lambda>w. nd_vm (mw_nodes w n))) (\<lambda>vm. case vm of
        None \<Rightarrow> done_with ()
      | Some e \<Rightarrow> and_then (stop n (ve_handle e)) (\<lambda>b.
          if b then change (on_node n (\<lambda>d. d\<lparr>nd_vm := None\<rparr>)) else done_with ()))) (\<lambda>b w. True)"
    by (rule upholds_then [OF upholds_look [where Q = "\<lambda>vm. given_up n"]])
      (auto intro!: upholds_done upholds_then [OF migs_stop [OF given_up_lasts]] gone split: option.split)
  show ?thesis
    unfolding let_go_def
    by (rule upholds_then [OF migs_drop_receiver [OF given_up_lasts]], rule upholds_then [OF migs_finish_forced [OF given_up_lasts]])
      (auto intro!: upholds_done rest)
qed

theorem vmi_pass_ok:
  assumes inj: "inj (mk_ip cfg)"
  shows "migs cfg (\<lambda>w. True) (vmi_pass cfg n) (\<lambda>b w. True)"
  unfolding vmi_pass_def
proof (rule upholds_then [OF upholds_look [where Q = "\<lambda>v w. v = view_now w"]])
  fix v :: vmi_view
  show "migs cfg (\<lambda>w. v = view_now w)
     (if vv_placed v = n \<or> arriving_in (vv_state v) n
      then and_then (finish_forced n) (\<lambda>_. and_then (migrate cfg n v) (\<lambda>b.
             if b then done_with () else and_then (absorb_end n) (\<lambda>_. start_cold cfg n v)))
      else let_go n) (\<lambda>b w. True)"
  proof (rule upholds_if)
    assume here: "vv_placed v = n \<or> arriving_in (vv_state v) n"
    let ?H = "\<forall>s. vv_state v = Some s \<longrightarrow> ms_source s = n \<longrightarrow> mig_active s \<longrightarrow> handed_out cfg s n"
    let ?P = "\<lambda>w. part_ok cfg n (role_in (vv_state v) n) w \<and> ?H"
    have pre: "?P w" if "mig_ok cfg w" "v = view_now w" for w
      using handed_part [OF that(1), of n] handed_address [OF that(1)] here that(2) by (auto simp: view_now_def)
    have start: "migs cfg (\<lambda>w. b \<or> at_home n w) (if b then done_with () else and_then (absorb_end n) (\<lambda>_. start_cold cfg n v))
        (\<lambda>b w. True)" for b
      by (auto intro!: upholds_done upholds_then [OF migs_absorb_end [OF at_home_lasts]] migs_start_cold)
    have rest: "migs cfg ?P (and_then (migrate cfg n v) (\<lambda>b.
        if b then done_with () else and_then (absorb_end n) (\<lambda>_. start_cold cfg n v))) (\<lambda>b w. True)"
    proof (cases ?H)
      case True
      then show ?thesis
        by (intro upholds_then [OF upholds_pre [OF migs_migrate [OF inj]] start]) auto
    next
      case False
      then show ?thesis by (auto simp: upholds_def)
    qed
    show "migs cfg (\<lambda>w. v = view_now w) (and_then (finish_forced n) (\<lambda>_. and_then (migrate cfg n v) (\<lambda>b.
             if b then done_with () else and_then (absorb_end n) (\<lambda>_. start_cold cfg n v)))) (\<lambda>b w. True)"
      by (rule upholds_then [OF upholds_pre [OF migs_finish_forced] rest])
        (use pre in \<open>auto intro: lasts_intros\<close>)
  next
    assume away: "\<not> (vv_placed v = n \<or> arriving_in (vv_state v) n)"
    have "given_up n w" if "mig_ok cfg w" "v = view_now w" for w
    proof -
      have "\<not> target_of_moved n w"
      proof
        assume "target_of_moved n w"
        then obtain s where s: "mw_state w = Some s" "mig_moved s" "ms_target s = Some n" by (auto simp: target_of_moved_def)
        then have "arriving_in (mw_state w) n"
          using mig_moved_ok [OF that(1) s(1,2)] by (auto simp: arriving_in_def role_in_def moved_ok_def mig_moved_def)
        then show False using away that(2) by (simp add: view_now_def)
      qed
      then show ?thesis using away that(2) by (simp add: given_up_def view_now_def)
    qed
    then show "migs cfg (\<lambda>w. v = view_now w) (let_go n) (\<lambda>b w. True)"
      by (intro upholds_pre [OF migs_let_go])
  qed
qed simp

section \<open>Every move\<close>

text \<open>No node reboots, and a kubelet that starts again has its machine's registration.\<close>
definition registered :: "string \<Rightarrow> mig_world \<Rightarrow> bool" where
  "registered n w = (nd_vm (mw_nodes w n) \<noteq> None \<longrightarrow> nd_registered (mw_nodes w n) \<noteq> None)"

definition mild :: "mig_config \<Rightarrow> mig_move \<Rightarrow> mig_world \<Rightarrow> bool" where
  "mild cfg m w =
     (case m of
        Pass n os \<Rightarrow> (case vmi_pass cfg n (w, os) of (Some _, w', _) \<Rightarrow> True | (None, w', _) \<Rightarrow> registered n w')
      | Restart n \<Rightarrow> registered n w
      | Happens e \<Rightarrow> in_passing e)"

fun all_mild :: "mig_config \<Rightarrow> mig_move list \<Rightarrow> mig_world \<Rightarrow> bool" where
  "all_mild cfg [] w = True"
| "all_mild cfg (m # ms) w = (mild cfg m w \<and> all_mild cfg ms (move_once cfg m w))"

lemma mig_restart_ok: "\<lbrakk>mig_ok cfg w; registered n w\<rbrakk> \<Longrightarrow> mig_ok cfg (kubelet_restarts n w)"
  unfolding kubelet_restarts_def
  by (rule calmer_ok [OF node_calmer]) (auto simp: registered_def fresh_node_def)

lemma move_ok:
  assumes inj: "inj (mk_ip cfg)" and ok: "mig_ok cfg w" and m: "mild cfg m w"
  shows "mig_ok cfg (move_once cfg m w)"
proof (cases m)
  case (Pass n os)
  obtain r w' os' where p: "vmi_pass cfg n (w, os) = (r, w', os')" by (cases "vmi_pass cfg n (w, os)") auto
  have "mig_ok cfg w'"
    using upholds_stopped [OF vmi_pass_ok [OF inj] ok TrueI] upholds_result [OF vmi_pass_ok [OF inj] ok TrueI] p by (cases r) auto
  then show ?thesis using m p mig_restart_ok by (cases r) (auto simp: Pass move_once_def mild_def)
next
  case (Restart n)
  then show ?thesis using m ok mig_restart_ok by (simp add: move_once_def mild_def)
next
  case (Happens e)
  then show ?thesis using m ok event_ok by (simp add: move_once_def mild_def)
qed

lemma placed_vmi_ok: "mig_ok cfg (placed_vmi n)"
  by (simp add: mig_ok_def machines_ok_def placed_vmi_def run_state_of_def sending_from_def sent_from_def fresh_node_def)

lemma moves_ok:
  assumes "inj (mk_ip cfg)"
  shows "\<lbrakk>mig_ok cfg w; all_mild cfg ms w\<rbrakk> \<Longrightarrow> mig_ok cfg (run_moves cfg ms w)"
proof (induction ms arbitrary: w)
  case (Cons m ms)
  then show ?case using move_ok [OF assms] by (simp add: run_moves_def)
qed (simp add: run_moves_def)

end
