(* ===== verification/MigrationProps.thy ===== *)
theory MigrationProps
  imports MigrationKeeps
begin

text \<open>What the live migration of a VMI promises, and where it does not.\<close>

section \<open>Two nodes, one disk\<close>

definition two_nodes :: mig_config where
  "two_nodes = \<lparr>mk_storage = \<lambda>_. True, mk_certificate = \<lambda>_. True, mk_ip = \<lambda>n. n, mk_port = \<lambda>_. 0,
     mk_used_ports = \<lambda>_. [], mk_control = \<lambda>_. True, mk_cloud_hypervisor = \<lambda>k. k = ''cloud-hypervisor'', mk_kind = ''qemu'',
     mk_disks = [(''root'', Some ''v'')], mk_owned = [''v''], mk_pod_network = False, mk_off_node = None,
     mk_spec_disks = [''root''], mk_gives_up = False\<rparr>"

definition good_call :: "string \<Rightarrow> mig_outcome" where
  "good_call i = \<lparr>oc_does = True, oc_ok = True, oc_error = [], mo_events = [], mo_id = i, mo_named = True, mo_reaches = ''b''\<rparr>"

definition bad_call :: mig_outcome where
  "bad_call = \<lparr>oc_does = False, oc_ok = False, oc_error = [], mo_events = [], mo_id = [], mo_named = True, mo_reaches = ''b''\<rparr>"

definition well :: "string \<Rightarrow> mig_outcome list" where
  "well i = (let c = good_call i in [c, c, c, c, c, c, c, c])"

text \<open>The VMI starts on \<open>a\<close>; a migration to \<open>b\<close> mirrors its disk; \<open>b\<close> receives; \<open>a\<close> sends; the memory
  arrives.\<close>
definition mirrored :: "mig_move list" where
  "mirrored = [Pass ''a'' (well ''i1''), Happens (Migration_begins ''m1''), Happens (Target_chosen ''b''), Pass ''a'' (well ''i1''),
     Happens (Mirror_turns ''i1'' ''synced'')]"

definition arrived_moves :: "mig_move list" where
  "arrived_moves = mirrored @ [Pass ''b'' (well ''i1''), Pass ''a'' (well ''i1''), Happens (Memory_arrives ''a'' False)]"

definition after :: "mig_move list \<Rightarrow> mig_world" where
  "after ms = run_moves two_nodes ms (placed_vmi ''a'')"

section \<open>Evaluating passes\<close>

text \<open>A world of the two nodes, written out.\<close>
definition two :: "mig_state option \<Rightarrow> (string \<times> disk_ids) option \<Rightarrow> string \<Rightarrow> string list \<Rightarrow> mig_node \<Rightarrow> mig_node \<Rightarrow>
    machine \<Rightarrow> machine \<Rightarrow> transfer option \<Rightarrow> string option \<Rightarrow> string option \<Rightarrow> mig_world" where
  "two so ds pl us na nb ma mb ta i1 i2 =
     \<lparr>mw_state = so, mw_disks = ds, mw_placed = pl, mw_used = us, mw_nodes = (\<lambda>_. fresh_node)(''a'' := na, ''b'' := nb),
      mw_machines = (\<lambda>_. \<lparr>mh_handle = 0, mh_state = Absent\<rparr>)(''a'' := ma, ''b'' := mb),
      mw_transfers = (\<lambda>_. None)(''a'' := ta), mw_mirrors = (\<lambda>_. None)(''i1'' := i1, ''i2'' := i2)\<rparr>"

named_theorems two_simps

lemma two_look [two_simps]:
  "mw_state (two so ds pl us na nb ma mb ta i1 i2) = so" "mw_disks (two so ds pl us na nb ma mb ta i1 i2) = ds"
  "mw_placed (two so ds pl us na nb ma mb ta i1 i2) = pl" "mw_used (two so ds pl us na nb ma mb ta i1 i2) = us"
  "mw_nodes (two so ds pl us na nb ma mb ta i1 i2) ''a'' = na" "mw_nodes (two so ds pl us na nb ma mb ta i1 i2) ''b'' = nb"
  "mw_machines (two so ds pl us na nb ma mb ta i1 i2) ''a'' = ma" "mw_machines (two so ds pl us na nb ma mb ta i1 i2) ''b'' = mb"
  "mw_transfers (two so ds pl us na nb ma mb ta i1 i2) ''a'' = ta" "mw_transfers (two so ds pl us na nb ma mb ta i1 i2) ''b'' = None"
  "mw_mirrors (two so ds pl us na nb ma mb ta i1 i2) ''i1'' = i1" "mw_mirrors (two so ds pl us na nb ma mb ta i1 i2) ''i2'' = i2"
  "run_state_of (two so ds pl us na nb ma mb ta i1 i2) ''a'' = mh_state ma"
  "run_state_of (two so ds pl us na nb ma mb ta i1 i2) ''b'' = mh_state mb"
  "transfer_word (two so ds pl us na nb ma mb ta i1 i2) ''a'' = (case ta of None \<Rightarrow> ''none'' | Some t \<Rightarrow> tr_word t)"
  by (simp_all add: two_def run_state_of_def transfer_word_def)

lemma two_change [two_simps]:
  "(two so ds pl us na nb ma mb ta i1 i2)\<lparr>mw_state := so'\<rparr> = two so' ds pl us na nb ma mb ta i1 i2"
  "(two so ds pl us na nb ma mb ta i1 i2)\<lparr>mw_disks := ds'\<rparr> = two so ds' pl us na nb ma mb ta i1 i2"
  "(two so ds pl us na nb ma mb ta i1 i2)\<lparr>mw_placed := pl'\<rparr> = two so ds pl' us na nb ma mb ta i1 i2"
  "(two so ds pl us na nb ma mb ta i1 i2)\<lparr>mw_used := us'\<rparr> = two so ds pl us' na nb ma mb ta i1 i2"
  "on_node ''a'' f (two so ds pl us na nb ma mb ta i1 i2) = two so ds pl us (f na) nb ma mb ta i1 i2"
  "on_node ''b'' f (two so ds pl us na nb ma mb ta i1 i2) = two so ds pl us na (f nb) ma mb ta i1 i2"
  "set_run ''a'' r (two so ds pl us na nb ma mb ta i1 i2) = two so ds pl us na nb (ma\<lparr>mh_state := r\<rparr>) mb ta i1 i2"
  "set_run ''b'' r (two so ds pl us na nb ma mb ta i1 i2) = two so ds pl us na nb ma (mb\<lparr>mh_state := r\<rparr>) ta i1 i2"
  "set_transfer ''a'' t (two so ds pl us na nb ma mb ta i1 i2) = two so ds pl us na nb ma mb t i1 i2"
  "set_transfer ''b'' None (two so ds pl us na nb ma mb ta i1 i2) = two so ds pl us na nb ma mb ta i1 i2"
  "(two so ds pl us na nb ma mb ta i1 i2)\<lparr>mw_mirrors := (mw_mirrors (two so ds pl us na nb ma mb ta i1 i2))(''i1'' := x)\<rparr> =
     two so ds pl us na nb ma mb ta x i2"
  "(two so ds pl us na nb ma mb ta i1 i2)\<lparr>mw_mirrors := (mw_mirrors (two so ds pl us na nb ma mb ta i1 i2))(''i2'' := x)\<rparr> =
     two so ds pl us na nb ma mb ta i1 x"
  "(two so ds pl us na nb ma mb ta i1 i2)\<lparr>mw_machines := (mw_machines (two so ds pl us na nb ma mb ta i1 i2))(''a'' := m)\<rparr> =
     two so ds pl us na nb m mb ta i1 i2"
  "(two so ds pl us na nb ma mb ta i1 i2)\<lparr>mw_machines := (mw_machines (two so ds pl us na nb ma mb ta i1 i2))(''b'' := m)\<rparr> =
     two so ds pl us na nb ma m ta i1 i2"
  by (auto simp: two_def on_node_def set_run_def set_transfer_def fun_eq_iff)

lemma run_then: "and_then m f s = (case m s of (None, t) \<Rightarrow> (None, t) | (Some x, t) \<Rightarrow> f x t)"
  by (simp add: and_then_def)

lemma run_frozen: "and_then m f = and_then m f"
  ..

lemma run_basic:
  "done_with x s = (Some x, s)" "look f (w, os) = (Some (f w), w, os)" "change g (w, os) = (Some (), g w, os)"
  by (simp_all add: done_with_def look_def change_def)

lemma run_call:
  "mig_call effect answer (w, []) = (None, w, [])"
  "mig_call effect answer (w, oc # os) =
     (let w1 = in_between oc w; w2 = (if oc_does oc \<or> oc_ok oc then effect oc w1 else w1)
      in (Some (if oc_ok oc then Inr (answer oc w2) else Inl (oc_error oc)), w2, os))"
  "mig_call_if allowed effect answer (w, []) = (None, w, [])"
  "mig_call_if allowed effect answer (w, oc # os) =
     (let w1 = in_between oc w
      in if allowed oc w1 \<and> (oc_does oc \<or> oc_ok oc)
         then (Some (if oc_ok oc then Inr (answer oc (effect oc w1)) else Inl (oc_error oc)), effect oc w1, os)
         else (Some (Inl (oc_error oc)), w1, os))"
  by (simp_all add: call_amid_def call_amid_if_def)

lemma quiet_mig_call [two_simps]: "in_between (good_call i) w = w" "in_between bad_call w = w"
  by (simp_all add: in_between_def good_call_def bad_call_def)

lemma good_call_fields [two_simps]:
  "oc_does (good_call i)" "oc_ok (good_call i)" "mo_id (good_call i) = i" "mo_named (good_call i)" "mo_reaches (good_call i) = ''b''"
  "\<not> oc_does bad_call" "\<not> oc_ok bad_call" "oc_error bad_call = []"
  by (simp_all add: good_call_def bad_call_def)

lemma two_nodes_config [two_simps]:
  "\<not> missing two_nodes ''a''" "\<not> missing two_nodes ''b''" "\<not> refused two_nodes" "mk_control two_nodes n" "mk_storage two_nodes n"
  "mk_disks two_nodes = [(''root'', Some ''v'')]" "mk_spec_disks two_nodes = [''root'']" "\<not> mk_gives_up two_nodes"
  "mk_ip two_nodes n = n" "pick_port (first_port (mk_port two_nodes n)) (mk_used_ports two_nodes n) = 49152"
  by (simp_all add: two_nodes_def missing_def lacks_def refused_def mig_refusal_def first_port_def pick_port_def upt_rec)

lemma arm_first: "arm_listener 50 = and_then does_it (\<lambda>b. if b then done_with True else arm_listener 49)"
  using arm_listener.simps(2) [of 49] by simp

lemmas pass_defs = run_then run_basic run_call vmi_pass_def view_now_def arriving_in_def role_in_def moved_away_in_def
  mig_moved_def mig_active_def finish_forced_def drop_receiver_def force_machine_def mark_done_def abort_disks_def finish_disks_def
  disks_for_def write_migration_def fail_migration_def annotate_def mirror_get_def mirror_verb_def abort_mirror_def finish_verb_def
  mirror_start_def launch_def stop_def machine_gone_def send_memory_def progress_def cancel_def machine_state_def
  unpause_machine_def does_it_def mirror_disks_def while_sending_def send_to_target_def carry_out_def migrate_out_def
  receive_def say_ready_def arrive_def settle_in_def start_receiver_def keep_receiving_def migrate_in_def migrate_def
  absorb_end_def start_cold_def let_go_def fresh_node_def well_def Let_def arm_first kubelet_restarts_def mirror_turns_def

abbreviation off :: machine where "off \<equiv> \<lparr>mh_handle = 0, mh_state = Absent\<rparr>"

lemma start_two: "placed_vmi ''a'' = two None None ''a'' [] fresh_node fresh_node off off None None None"
  by (simp add: placed_vmi_def two_def fun_eq_iff)



lemmas trace_defs = after_def run_moves_def move_once_def arrived_moves_def mirrored_def start_two pass_defs two_simps

section \<open>One node at most\<close>

text \<open>C6. A VMI that is migrated, any number of times, between any number of nodes, runs on one node at
  most: whichever calls fail or take effect without an answer, wherever a pass is cut short and its
  kubelet starts again, whatever happens by itself between two calls. Once a migration is written
  as completed, and not as failed, its source does not run the guest. Node addresses differ, no node
  reboots, and a kubelet that starts again with a machine finds its registration.\<close>
theorem guest_runs_on_one_node:
  assumes "inj (mk_ip cfg)" "all_mild cfg ms (placed_vmi home)" "w = run_moves cfg ms (placed_vmi home)"
  shows "(\<forall>m n. run_state_of w m = Running \<and> run_state_of w n = Running \<longrightarrow> m = n) \<and>
    (\<forall>s. mw_state w = Some s \<and> mig_moved s \<longrightarrow> run_state_of w (ms_source s) \<noteq> Running)"
proof -
  have ok: "mig_ok cfg w" using moves_ok [OF assms(1) placed_vmi_ok assms(2)] assms(3) by simp
  have "run_state_of w (ms_source s) \<noteq> Running" if "mw_state w = Some s" "mig_moved s" for s
    using mig_moved_ok [OF ok that] by (auto simp: moved_ok_def alone_def)
  then show ?thesis using runs_once [OF mig_okD(1) [OF ok]] by blast
qed

text \<open>The guest moved: it runs on \<open>b\<close>, the migration is written as completed, and \<open>a\<close> does not run it.\<close>
theorem guest_runs_on_one_node_witness:
  "run_state_of (after (arrived_moves @ [Pass ''a'' (well ''i1'')])) ''b'' = Running \<and>
   run_state_of (after (arrived_moves @ [Pass ''a'' (well ''i1'')])) ''a'' \<noteq> Running"
proof -
  let ?ms = "arrived_moves @ [Pass ''a'' (well ''i1'')]"
  have "inj (mk_ip two_nodes)" by (simp add: two_nodes_def)
  moreover have "all_mild two_nodes ?ms (placed_vmi ''a'')"
    by (simp add: mild_def in_passing_def trace_defs cong: run_frozen)
  moreover have "run_state_of (after ?ms) ''b'' = Running" by (simp add: trace_defs cong: run_frozen)
  moreover have "\<exists>s. mw_state (after ?ms) = Some s \<and> mig_moved s \<and> ms_source s = ''a''"
    by (simp add: trace_defs cong: run_frozen)
  ultimately show ?thesis
    using guest_runs_on_one_node [of two_nodes ?ms "''a''" "after ?ms"] unfolding after_def by blast
qed

text \<open>A source node that reboots in the two seconds before it looks at the transfer again starts the
  VMI anew, while the guest runs on the target.\<close>
theorem reboot_runs_the_guest_twice:
  "run_state_of (after (arrived_moves @ [Happens (Node_reboots ''a''), Pass ''a'' (well ''i1'')])) ''a'' = Running \<and>
   run_state_of (after (arrived_moves @ [Happens (Node_reboots ''a''), Pass ''a'' (well ''i1'')])) ''b'' = Running"
  by (simp add: trace_defs cong: run_frozen)

section \<open>The guest lost\<close>






section \<open>The disks follow\<close>

definition all_at :: "string \<Rightarrow> disk_ids \<Rightarrow> mig_world \<Rightarrow> mig_world" where
  "all_at st ds w = w\<lparr>mw_mirrors := (\<lambda>i. if i \<in> snd ` set ds then Some st else mw_mirrors w i)\<rparr>"

lemma all_at_look [simp]:
  "mw_mirrors (all_at st ds w) i = (if i \<in> snd ` set ds then Some st else mw_mirrors w i)"
  "mw_nodes (all_at st ds w) = mw_nodes w" "all_at st' ds (all_at st ds w) = all_at st' ds w" "all_at st [] w = w"
  by (auto simp: all_at_def fun_eq_iff)

text \<open>One round: each mirror found in a state with a verb gets it.\<close>
lemma finish_round:
  assumes "finish_verb st = Some f" "f st = st'" "st \<noteq> ''completed''" "st \<noteq> ''aborted''"
  shows "\<lbrakk>distinct (map snd ds); \<forall>p \<in> set ds. mw_mirrors w (snd p) = Some st\<rbrakk> \<Longrightarrow>
    finish_each_mirror ds all (w, replicate (2 * length ds) (good_call x) @ os) = (Some (all \<and> ds = []), all_at st' ds w, os)"
proof (induction ds arbitrary: all w)
  case (Cons p ds)
  obtain d i where p: "p = (d, i)" by (cases p)
  let ?w = "w\<lparr>mw_mirrors := (mw_mirrors w)(i \<mapsto> st')\<rparr>"
  have i: "i \<notin> snd ` set ds" using Cons.prems(1) p by auto
  have "finish_each_mirror ds False (?w, replicate (2 * length ds) (good_call x) @ os) = (Some False, all_at st' ds ?w, os)"
  proof (rule Cons.IH [of ?w False, simplified])
    show "distinct (map snd ds)" using Cons.prems(1) by simp
    show "\<forall>q\<in>set ds. (if snd q = i then Some st' else mw_mirrors w (snd q)) = Some st"
      using Cons.prems(2) i by (force simp: p)
  qed
  moreover have "all_at st' ds ?w = all_at st' (p # ds) w"
    using i by (auto simp: all_at_def p fun_eq_iff)
  ultimately show ?case
    using Cons.prems(2) assms
    by (simp add: p run_then run_basic run_call mirror_get_def mirror_verb_def quiet_mig_call good_call_fields Let_def)
qed (simp add: run_basic)

text \<open>A last look: every mirror is completed.\<close>
lemma finish_look:
  "\<forall>p \<in> set ds. mw_mirrors w (snd p) = Some ''completed'' \<Longrightarrow>
    finish_each_mirror ds all (w, replicate (length ds) (good_call x) @ os) = (Some all, w, os)"
proof (induction ds)
  case (Cons p ds)
  then show ?case
    by (cases p) (simp add: run_then run_basic run_call mirror_get_def quiet_mig_call good_call_fields Let_def)
qed (simp add: run_basic)

text \<open>C13. Once the guest moved, the target finishes the disks in three passes when no call fails, however
  many they are: every mirror that is in sync is cut over in the first and completed in the second
  (the source's volume retired), and the third finds nothing left and remembers that it is done.\<close>
theorem moved_disks_finish:
  assumes "mk_storage cfg n" "disks_for v (ms_uid s) = Some ds" "ds \<noteq> []" "distinct (map snd ds)"
    "\<forall>p \<in> set ds. mw_mirrors w (snd p) = Some ''synced''" "ms_uid s \<notin> set (nd_done (mw_nodes w n))"
  shows "\<exists>w'. and_then (finish_disks cfg n v s) (\<lambda>_. and_then (finish_disks cfg n v s) (\<lambda>_. finish_disks cfg n v s))
       (w, replicate (5 * length ds) (good_call x)) = (Some (), w', []) \<and>
     (\<forall>p \<in> set ds. mw_mirrors w' (snd p) = Some ''completed'') \<and> ms_uid s \<in> set (nd_done (mw_nodes w' n))"
proof -
  let ?good = "\<lambda>k. replicate k (good_call x)"
  have outcomes: "?good (5 * length ds) = ?good (2 * length ds) @ (?good (2 * length ds) @ ?good (length ds))"
    by (simp add: replicate_add [symmetric])
  have ids: "snd p \<in> snd ` set ds" if "p \<in> set ds" for p using that by blast
  have cut: "finish_each_mirror ds True (w, ?good (2 * length ds) @ os) = (Some False, all_at ''cut_over'' ds w, os)" for os
    using finish_round [of "''synced''", OF _ _ _ _ assms(4,5)] assms(3) by (simp add: finish_verb_def)
  have completed: "finish_each_mirror ds True (all_at ''cut_over'' ds w, ?good (2 * length ds) @ os) =
      (Some False, all_at ''completed'' ds w, os)" for os
    using finish_round [of "''cut_over''" _ _ ds "all_at ''cut_over'' ds w"] assms(3,4) ids by (simp add: finish_verb_def)
  have looked: "finish_each_mirror ds True (all_at ''completed'' ds w, ?good (length ds)) = (Some True, all_at ''completed'' ds w, [])"
    using finish_look [of ds "all_at ''completed'' ds w" True x "[]"] ids by simp
  have pass: "finish_disks cfg n v s (u, os) =
      and_then (finish_each_mirror ds True) (\<lambda>all. if all then mark_done n (ms_uid s) else done_with ()) (u, os)"
    if "ms_uid s \<notin> set (nd_done (mw_nodes u n))" for u os
    using assms(1,2) that by (simp add: finish_disks_def run_then run_basic)
  show ?thesis
    using assms(6) ids by (simp add: outcomes run_then run_basic pass cut completed looked mark_done_def)
qed

definition moved_state :: mig_state where
  "moved_state = \<lparr>ms_uid = ''m1'', ms_source = ''a'', ms_target = Some ''b'', ms_address = None, ms_port = None,
     ms_started = True, ms_completed = True, ms_failed = False, ms_abort = False\<rparr>"

definition moved_view :: vmi_view where
  "moved_view = \<lparr>vv_state = Some moved_state, vv_disks = Some (''m1'', [(''data'', ''i2''), (''root'', ''i1'')]), vv_placed = ''b''\<rparr>"

definition synced_world :: mig_world where
  "synced_world = (placed_vmi ''b'')\<lparr>mw_mirrors := [''i1'' \<mapsto> ''synced'', ''i2'' \<mapsto> ''synced'']\<rparr>"

theorem moved_disks_finish_witness:
  "\<exists>w'. and_then (finish_disks two_nodes ''b'' moved_view moved_state)
       (\<lambda>_. and_then (finish_disks two_nodes ''b'' moved_view moved_state) (\<lambda>_. finish_disks two_nodes ''b'' moved_view moved_state))
       (synced_world, replicate 10 (good_call ''i1'')) = (Some (), w', []) \<and>
     mw_mirrors w' ''i1'' = Some ''completed'' \<and> mw_mirrors w' ''i2'' = Some ''completed''"
proof -
  have "mk_storage two_nodes ''b''" by (simp add: two_nodes_def)
  moreover have "disks_for moved_view (ms_uid moved_state) = Some [(''data'', ''i2''), (''root'', ''i1'')]"
    by (simp add: disks_for_def moved_view_def moved_state_def)
  moreover have "\<forall>p \<in> set [(''data'', ''i2''), (''root'', ''i1'')]. mw_mirrors synced_world (snd p) = Some ''synced''"
    by (simp add: synced_world_def)
  moreover have "ms_uid moved_state \<notin> set (nd_done (mw_nodes synced_world ''b''))"
    by (simp add: synced_world_def placed_vmi_def fresh_node_def)
  ultimately show ?thesis
    using moved_disks_finish [of two_nodes "''b''" moved_view moved_state "[(''data'', ''i2''), (''root'', ''i1'')]" synced_world "''i1''"]
    by auto
qed

end
