(* ===== verification/Snapshots.thy ===== *)
theory Snapshots
  imports Json
begin

text \<open>Snapshots of virtual machines (\<open>src/pkg/kubelet/src/vm_snapshot.rs\<close>): which node takes a
  VirtualMachineSnapshot, the take that runs beside the kubelet's passes, and its content's end with
  the object. One snapshot object, any number of nodes: each node's kubelet lists the object and
  visits it later, as it was when it was listed; its writes are refused when they name a version that is not
  the object's. The reader of the object's spec (another crate) and of times are arguments, and a
  disk on another driver's claim is left out.\<close>

section \<open>The object\<close>

record snap_request =
  sr_vm :: string
  sr_deadline :: "nat option"

record snap_obj =
  so_phase :: "string option"
  so_owner :: "string option"
  so_finalizers :: "string list"
  so_deleted :: bool
  so_retain :: bool
  so_group :: string
  so_created :: "int option"
  so_request :: "string + snap_request"
  so_version :: "string option"

abbreviation FINALIZER :: string where "FINALIZER \<equiv> ''storm.io/snapshot''"
abbreviation NODE_ANNOTATION :: string where "NODE_ANNOTATION \<equiv> ''storm.io/snapshot-node''"
abbreviation DEFAULT_DEADLINE :: nat where "DEFAULT_DEADLINE \<equiv> 300"

definition snap_in :: "(json \<Rightarrow> string + snap_request) \<Rightarrow> (string \<Rightarrow> int option) \<Rightarrow> json \<Rightarrow> snap_obj" where
  "snap_in request parse_time v =
     \<lparr>so_phase = as_str (jpath v [''status'', ''phase'']),
      so_owner = as_str (jpath v [''metadata'', ''annotations'', NODE_ANNOTATION]),
      so_finalizers = List.map_filter as_str (elems (jpath v [''metadata'', ''finalizers''])),
      so_deleted = (jpath v [''metadata'', ''deletionTimestamp''] \<noteq> JNull),
      so_retain = (as_str (jpath v [''spec'', ''deletionPolicy'']) = Some ''Retain''),
      so_group = str_or [] (jpath v [''status'', ''virtualMachineSnapshotContentName'']),
      so_created = Option.bind (as_str (jpath v [''metadata'', ''creationTimestamp''])) parse_time,
      so_request = request v,
      so_version = as_str (jpath v [''metadata'', ''resourceVersion''])\<rparr>"

section \<open>What to do with it\<close>

datatype snap_why = Rejected string | Too_late nat | Not_running string

datatype snap_action = Skip | Claim | Resume | Fail snap_why

definition as_signed :: "nat \<Rightarrow> int" where
  "as_signed n = (if n < 2 ^ 63 then int n else int n - 2 ^ 64)"

definition over :: "snap_obj \<Rightarrow> bool" where
  "over s = (so_phase s = Some ''Succeeded'' \<or> so_phase s = Some ''Failed'')"

text \<open>Times in seconds.\<close>
definition decide :: "snap_obj \<Rightarrow> string \<Rightarrow> bool \<Rightarrow> bool \<Rightarrow> int \<Rightarrow> snap_action" where
  "decide s node registered in_flight now =
     (if over s \<or> in_flight then Skip
      else if \<not> (case so_owner s of Some n \<Rightarrow> n = node | None \<Rightarrow> registered) then Skip
      else (case so_request s of
              Inl why \<Rightarrow> Fail (Rejected why)
            | Inr req \<Rightarrow>
                let deadline = (case sr_deadline req of Some d \<Rightarrow> d | None \<Rightarrow> DEFAULT_DEADLINE)
                in if (case so_created s of Some c \<Rightarrow> as_signed deadline < now - c | None \<Rightarrow> False) then Fail (Too_late deadline)
                   else if \<not> registered then Fail (Not_running (sr_vm req))
                   else if so_owner s \<noteq> None then Resume else Claim))"

text \<open>This node's to finish deleting: it took it and holds its finalizer.\<close>
definition holds_snap :: "string \<Rightarrow> snap_obj \<Rightarrow> bool" where
  "holds_snap node s = (so_owner s = Some node \<and> FINALIZER \<in> set (so_finalizers s))"

section \<open>The world\<close>

text \<open>A take: begun, its object marked in progress; the engine asked; its result to be
  written: the group's name, if it gives one, and whether the snapshot was taken.\<close>
datatype take_stage = Begun | Asked | Result "string option" bool

record snap_world =
  sw_obj :: "snap_obj option"
  sw_clock :: nat
  sw_seen :: "string \<Rightarrow> snap_obj option"
  sw_here :: "string \<Rightarrow> bool"
  sw_task :: "string \<Rightarrow> take_stage option"
  sw_groups :: "string \<Rightarrow> bool"

text \<open>\<open>in_flight\<close>: from the start of a take until its result is dealt with.\<close>
definition in_flight_on :: "snap_world \<Rightarrow> string \<Rightarrow> bool" where
  "in_flight_on w n = (sw_task w n \<noteq> None)"

text \<open>Every write gives the object a version it never had; one that is being deleted goes with its last
  finalizer.\<close>
definition put_obj :: "snap_obj \<Rightarrow> snap_world \<Rightarrow> snap_world" where
  "put_obj s w =
     (if so_deleted s \<and> so_finalizers s = [] then w\<lparr>sw_obj := None\<rparr>
      else w\<lparr>sw_obj := Some (s\<lparr>so_version := Some (show_nat (Suc (sw_clock w)))\<rparr>), sw_clock := Suc (sw_clock w)\<rparr>)"

definition write_obj :: "(snap_obj \<Rightarrow> snap_obj) \<Rightarrow> snap_world \<Rightarrow> snap_world" where
  "write_obj f w = (case sw_obj w of Some s \<Rightarrow> put_obj (f s) w | None \<Rightarrow> w)"

text \<open>A write against the version that was read.\<close>
definition same_version :: "snap_obj \<Rightarrow> snap_world \<Rightarrow> bool" where
  "same_version seen w =
     (case sw_obj w of
        Some s \<Rightarrow> (case so_version seen of Some v \<Rightarrow> so_version s = Some v | None \<Rightarrow> True)
      | None \<Rightarrow> False)"

definition write_against :: "snap_obj \<Rightarrow> (snap_obj \<Rightarrow> snap_obj) \<Rightarrow> snap_world \<Rightarrow> snap_world" where
  "write_against seen f w = (if same_version seen w then write_obj f w else w)"

definition set_task :: "string \<Rightarrow> take_stage option \<Rightarrow> snap_world \<Rightarrow> snap_world" where
  "set_task n t w = w\<lparr>sw_task := (sw_task w)(n := t)\<rparr>"

section \<open>A visit\<close>

text \<open>How a write goes: it takes effect or not, and is answered or not; an answer means it did.\<close>
datatype write_end = Done_said | Done_unsaid | Not_done

definition takes_effect :: "write_end \<Rightarrow> bool" where
  "takes_effect e = (e \<noteq> Not_done)"

text \<open>\<open>claim\<close>: the node's name, and the finalizer where there is an engine to delete the content with.\<close>
definition claimed_by :: "string \<Rightarrow> bool \<Rightarrow> snap_obj \<Rightarrow> snap_obj \<Rightarrow> snap_obj" where
  "claimed_by node has_engine seen s =
     s\<lparr>so_owner := Some node,
       so_finalizers := (if has_engine
                         then so_finalizers seen @ (if FINALIZER \<in> set (so_finalizers seen) then [] else [FINALIZER])
                         else so_finalizers s)\<rparr>"

definition claim_snap :: "string \<Rightarrow> bool \<Rightarrow> snap_obj \<Rightarrow> write_end \<Rightarrow> snap_world \<Rightarrow> snap_world" where
  "claim_snap n has_engine seen e w =
     (if \<not> takes_effect e \<or> \<not> same_version seen w then w
      else let w' = write_against seen (claimed_by n has_engine seen) w
           in if e = Done_said then set_task n (Some Begun) w' else w')"

text \<open>\<open>release\<close>: the content first, unless it is to be retained, and then the finalizer.\<close>
definition unfinalized :: "snap_obj \<Rightarrow> snap_obj \<Rightarrow> snap_obj" where
  "unfinalized seen s = s\<lparr>so_finalizers := filter (\<lambda>x. x \<noteq> FINALIZER) (so_finalizers seen)\<rparr>"

definition release_snap :: "string \<Rightarrow> bool \<Rightarrow> snap_obj \<Rightarrow> bool \<Rightarrow> write_end \<Rightarrow> snap_world \<Rightarrow> snap_world" where
  "release_snap n has_engine seen deleted e w =
     (if \<not> so_retain seen \<and> (\<not> has_engine \<or> \<not> deleted) then w
      else let w' = (if so_retain seen \<or> so_group seen = [] then w else w\<lparr>sw_groups := (sw_groups w)(n := False)\<rparr>)
           in if takes_effect e then write_against seen (unfinalized seen) w' else w')"

definition fail_snap :: "write_end \<Rightarrow> snap_world \<Rightarrow> snap_world" where
  "fail_snap e w = (if takes_effect e then write_obj (\<lambda>s. s\<lparr>so_phase := Some ''Failed''\<rparr>) w else w)"

text \<open>One object of a pass. \<open>deleted\<close> is whether the engine deleted the content, \<open>now\<close> the time.\<close>
definition visit_snap :: "string \<Rightarrow> bool \<Rightarrow> int \<Rightarrow> bool \<Rightarrow> write_end \<Rightarrow> snap_world \<Rightarrow> snap_world" where
  "visit_snap n has_engine now deleted e w =
     (case sw_seen w n of
        None \<Rightarrow> w
      | Some seen \<Rightarrow>
          (let w0 = w\<lparr>sw_seen := (sw_seen w)(n := None)\<rparr>
           in if so_deleted seen
              then (if \<not> in_flight_on w n \<and> holds_snap n seen then release_snap n has_engine seen deleted e w0 else w0)
              else (case decide seen n (sw_here w n) (in_flight_on w n) now of
                      Skip \<Rightarrow> w0
                    | Fail why \<Rightarrow> fail_snap e w0
                    | Claim \<Rightarrow> claim_snap n has_engine seen e w0
                    | Resume \<Rightarrow> set_task n (Some Begun) w0)))"

section \<open>A take\<close>

text \<open>\<open>start\<close> and \<open>finish\<close>: in progress, the engine's group under a name of its own, the result. A take
  that fails may have made the group, and may name it or not; a status that names no group, a merge patch,
  says nothing of it.\<close>
definition take_on :: "string \<Rightarrow> bool \<Rightarrow> bool \<Rightarrow> bool \<Rightarrow> write_end \<Rightarrow> snap_world \<Rightarrow> snap_world" where
  "take_on n made named succeeded e w =
     (case sw_task w n of
        None \<Rightarrow> w
      | Some Begun \<Rightarrow>
          set_task n (Some Asked) (if takes_effect e then write_obj (\<lambda>s. s\<lparr>so_phase := Some ''InProgress''\<rparr>) w else w)
      | Some Asked \<Rightarrow>
          (let w' = (if made then w\<lparr>sw_groups := (sw_groups w)(n := True)\<rparr> else w)
           in set_task n (Some (Result (if made \<and> named then Some ''g'' else None) succeeded)) w')
      | Some (Result r ok) \<Rightarrow>
          set_task n None
            (if takes_effect e
             then write_obj (\<lambda>s. s\<lparr>so_phase := Some (if ok then ''Succeeded'' else ''Failed''),
                    so_group := (case r of Some g \<Rightarrow> g | None \<Rightarrow> so_group s)\<rparr>) w
             else w))"

section \<open>What happens\<close>

datatype snap_move =
    Lists string
  | Visits string int bool write_end
  | Takes string bool bool bool write_end
  | Kubelet_restarts string
  | Machine_here string bool
  | Deleted_by_user
  | Edited

definition snap_moves :: "bool \<Rightarrow> snap_move \<Rightarrow> snap_world \<Rightarrow> snap_world" where
  "snap_moves has_engine m w =
     (case m of
        Lists n \<Rightarrow> w\<lparr>sw_seen := (sw_seen w)(n := sw_obj w)\<rparr>
      | Visits n now deleted e \<Rightarrow> visit_snap n has_engine now deleted e w
      | Takes n made named succeeded e \<Rightarrow> take_on n made named succeeded e w
      | Kubelet_restarts n \<Rightarrow> set_task n None (w\<lparr>sw_seen := (sw_seen w)(n := None)\<rparr>)
      | Machine_here n b \<Rightarrow> w\<lparr>sw_here := (sw_here w)(n := b)\<rparr>
      | Deleted_by_user \<Rightarrow> write_obj (\<lambda>s. s\<lparr>so_deleted := True\<rparr>) w
      | Edited \<Rightarrow> write_obj (\<lambda>s. s) w)"

definition run_snap :: "bool \<Rightarrow> snap_move list \<Rightarrow> snap_world \<Rightarrow> snap_world" where
  "run_snap has_engine ms w = fold (snap_moves has_engine) ms w"

text \<open>A snapshot just asked for.\<close>
definition asked_for :: "snap_request \<Rightarrow> bool \<Rightarrow> int \<Rightarrow> (string \<Rightarrow> bool) \<Rightarrow> snap_world" where
  "asked_for req retain now placed =
     \<lparr>sw_obj = Some \<lparr>so_phase = None, so_owner = None, so_finalizers = [], so_deleted = False, so_retain = retain, so_group = [],
        so_created = Some now, so_request = Inr req, so_version = Some (show_nat 0)\<rparr>,
      sw_clock = 0, sw_seen = (\<lambda>_. None), sw_here = placed, sw_task = (\<lambda>_. None), sw_groups = (\<lambda>_. False)\<rparr>"

end
