(* ===== verification/SnapshotProps.thy ===== *)
theory SnapshotProps
  imports Snapshots
begin

text \<open>A snapshot is taken by one node, and its content goes with its object when no take is cut short and
  none of its results is lost; when one is, the content is left behind.\<close>

section \<open>Versions\<close>

lemma show_nat_inject: "show_nat a = show_nat b \<longleftrightarrow> a = b"
  by (metis digits_val_show)

definition versions_ok :: "snap_world \<Rightarrow> bool" where
  "versions_ok w =
     ((\<forall>t. sw_obj w = Some t \<longrightarrow> so_version t = Some (show_nat (sw_clock w))) \<and>
      (\<forall>n s. sw_seen w n = Some s \<longrightarrow>
         (\<exists>v \<le> sw_clock w. so_version s = Some (show_nat v) \<and> (v = sw_clock w \<longrightarrow> (\<forall>t. sw_obj w = Some t \<longrightarrow> t = s)))))"

lemma same_is_current:
  assumes "versions_ok w" "sw_seen w n = Some s" "same_version s w"
  shows "sw_obj w = Some s"
proof -
  obtain t where t: "sw_obj w = Some t" using assms(3) by (auto simp: same_version_def split: option.splits)
  obtain v where v: "v \<le> sw_clock w" "so_version s = Some (show_nat v)" "v = sw_clock w \<longrightarrow> t = s"
    using assms(1,2) t by (auto simp: versions_ok_def)
  have "so_version t = Some (show_nat (sw_clock w))" using assms(1) t by (simp add: versions_ok_def)
  then have "v = sw_clock w" using assms(3) t v(2) by (simp add: same_version_def show_nat_inject)
  then show ?thesis using t v(3) by simp
qed

lemma put_obj_fields [simp]:
  "sw_seen (put_obj s w) = sw_seen w" "sw_task (put_obj s w) = sw_task w" "sw_here (put_obj s w) = sw_here w"
  "sw_groups (put_obj s w) = sw_groups w"
  by (simp_all add: put_obj_def)

lemma write_obj_fields [simp]:
  "sw_seen (write_obj f w) = sw_seen w" "sw_task (write_obj f w) = sw_task w" "sw_here (write_obj f w) = sw_here w"
  "sw_groups (write_obj f w) = sw_groups w"
  by (simp_all add: write_obj_def split: option.splits)

lemma versions_put:
  assumes "versions_ok w"
  shows "versions_ok (put_obj s w)"
proof -
  have "\<exists>v \<le> sw_clock (put_obj s w). so_version u = Some (show_nat v) \<and>
      (v = sw_clock (put_obj s w) \<longrightarrow> (\<forall>t. sw_obj (put_obj s w) = Some t \<longrightarrow> t = u))" if u: "sw_seen w n = Some u" for n u
  proof -
    obtain v where v: "v \<le> sw_clock w" "so_version u = Some (show_nat v)" using assms u unfolding versions_ok_def by blast
    show ?thesis by (rule exI [of _ v]) (use v in \<open>simp add: put_obj_def\<close>)
  qed
  moreover have "so_version t = Some (show_nat (sw_clock (put_obj s w)))" if "sw_obj (put_obj s w) = Some t" for t
    using that by (auto simp: put_obj_def split: if_splits)
  ultimately show ?thesis by (simp add: versions_ok_def)
qed

lemma versions_write: "versions_ok w \<Longrightarrow> versions_ok (write_obj f w)"
  by (simp add: write_obj_def versions_put split: option.splits)

lemma versions_other:
  "versions_ok (w\<lparr>sw_task := t\<rparr>) = versions_ok w" "versions_ok (w\<lparr>sw_here := h\<rparr>) = versions_ok w"
  "versions_ok (w\<lparr>sw_groups := g\<rparr>) = versions_ok w"
  by (simp_all add: versions_ok_def)

lemma versions_unseen: "versions_ok w \<Longrightarrow> versions_ok (w\<lparr>sw_seen := (sw_seen w)(n := None)\<rparr>)"
  by (auto simp: versions_ok_def split: if_splits)

section \<open>One owner\<close>

definition owned_by :: "string option \<Rightarrow> snap_world \<Rightarrow> bool" where
  "owned_by owner w =
     ((\<forall>s. sw_obj w = Some s \<longrightarrow> so_owner s = owner) \<and> (\<forall>n. sw_task w n \<noteq> None \<longrightarrow> owner = Some n) \<and>
      (\<forall>n s m. sw_seen w n = Some s \<longrightarrow> so_owner s = Some m \<longrightarrow> owner = Some m))"

definition snap_good :: "string option \<Rightarrow> snap_world \<Rightarrow> bool" where
  "snap_good owner w = (versions_ok w \<and> owned_by owner w)"

lemma write_obj_some: "sw_obj (write_obj f w) = Some t \<Longrightarrow> \<exists>s v. sw_obj w = Some s \<and> t = (f s)\<lparr>so_version := v\<rparr>"
  by (auto simp: write_obj_def put_obj_def split: option.splits if_splits)

lemma owned_write:
  assumes "snap_good owner w" "\<And>s. so_owner (f s) = so_owner s"
  shows "snap_good owner (write_obj f w)"
  using assms by (auto simp: snap_good_def versions_write owned_by_def dest!: write_obj_some)

lemma owned_unseen: "snap_good owner w \<Longrightarrow> snap_good owner (w\<lparr>sw_seen := (sw_seen w)(n := None)\<rparr>)"
  by (auto simp: snap_good_def versions_unseen owned_by_def split: if_splits)

lemma owned_task:
  "\<lbrakk>snap_good owner w; t \<noteq> None \<Longrightarrow> owner = Some n\<rbrakk> \<Longrightarrow> snap_good owner (set_task n t w)"
  by (auto simp: snap_good_def set_task_def versions_other owned_by_def)

lemma owned_groups: "snap_good owner w \<Longrightarrow> snap_good owner (w\<lparr>sw_groups := g\<rparr>)"
  by (auto simp: snap_good_def versions_other owned_by_def)

text \<open>A claim that takes effect is of an object nobody had claimed.\<close>
lemma owned_claim:
  assumes "snap_good owner w" "sw_seen w n = Some seen" "so_owner seen = None"
  shows "\<exists>owner'. snap_good owner' (claim_snap n has_engine seen e (w\<lparr>sw_seen := (sw_seen w)(n := None)\<rparr>))"
proof (cases "takes_effect e \<and> same_version seen w")
  case False
  then show ?thesis
    using owned_unseen [OF assms(1)] by (auto simp: claim_snap_def same_version_def)
next
  case True
  let ?w = "w\<lparr>sw_seen := (sw_seen w)(n := None)\<rparr>"
  have obj: "sw_obj w = Some seen" using same_is_current assms(1,2) True by (simp add: snap_good_def)
  then have "owner = None" using assms(1,3) by (simp add: snap_good_def owned_by_def)
  then have none: "\<And>m. sw_task w m = None" "\<And>m s k. sw_seen w m = Some s \<Longrightarrow> so_owner s = None"
    using assms(1) by (auto simp: snap_good_def owned_by_def)
  have v: "versions_ok (write_obj (claimed_by n has_engine seen) ?w)"
    using assms(1) by (simp add: versions_write versions_unseen snap_good_def)
  have "owned_by (Some n) (write_obj (claimed_by n has_engine seen) ?w)"
    using none by (auto simp: owned_by_def claimed_by_def dest!: write_obj_some split: if_splits)
  then have "snap_good (Some n) (write_obj (claimed_by n has_engine seen) ?w)" using v by (simp add: snap_good_def)
  moreover have "same_version seen ?w" using True by (simp add: same_version_def)
  ultimately show ?thesis
    using True owned_task [of "Some n" _ "Some Begun" n] by (auto simp: claim_snap_def write_against_def Let_def)
qed

lemma decide_claim: "decide s n h f now = Claim \<Longrightarrow> so_owner s = None"
  by (auto simp: decide_def Let_def split: if_splits sum.splits)

lemma decide_resume: "decide s n h f now = Resume \<Longrightarrow> so_owner s = Some n"
  by (auto simp: decide_def Let_def split: if_splits sum.splits option.splits)

lemma owned_visit:
  assumes "snap_good owner w"
  shows "\<exists>owner'. snap_good owner' (visit_snap n has_engine now deleted e w)"
proof (cases "sw_seen w n")
  case None
  then show ?thesis using assms by (auto simp: visit_snap_def)
next
  case (Some seen)
  let ?w = "w\<lparr>sw_seen := (sw_seen w)(n := None)\<rparr>"
  note w0 = owned_unseen [OF assms, of n]
  have against: "snap_good owner (write_against seen (unfinalized seen) w')" if "snap_good owner w'" for w'
    using that owned_write by (auto simp: write_against_def unfinalized_def)
  show ?thesis
  proof (cases "so_deleted seen")
    case True
    have "snap_good owner (release_snap n has_engine seen deleted e ?w)"
      using w0 owned_groups [OF w0] against by (auto simp: release_snap_def Let_def)
    then show ?thesis using w0 True by (auto simp: visit_snap_def Some Let_def)
  next
    case False
    show ?thesis
    proof (cases "decide seen n (sw_here w n) (in_flight_on w n) now")
      case Skip
      then show ?thesis using w0 False by (auto simp: visit_snap_def Some)
    next
      case Claim
      then show ?thesis using owned_claim [OF assms Some decide_claim [OF Claim]] False by (simp add: visit_snap_def Some Let_def)
    next
      case Resume
      have "owner = Some n" using decide_resume [OF Resume] assms Some by (auto simp: snap_good_def owned_by_def)
      then show ?thesis using owned_task [OF w0] Resume False by (auto simp: visit_snap_def Some Let_def)
    next
      case (Fail why)
      have "snap_good owner (fail_snap e ?w)" using w0 owned_write by (auto simp: fail_snap_def)
      then show ?thesis using Fail False by (auto simp: visit_snap_def Some Let_def)
    qed
  qed
qed

lemma owned_take: "snap_good owner w \<Longrightarrow> snap_good owner (take_on n made named succeeded e w)"
proof -
  assume w: "snap_good owner w"
  have n: "owner = Some n" if "sw_task w n \<noteq> None" using w that by (simp add: snap_good_def owned_by_def)
  show ?thesis
    using w n
    by (auto simp: take_on_def Let_def split: option.split take_stage.split intro!: owned_task owned_write owned_groups)
qed

lemma owned_move: "snap_good owner w \<Longrightarrow> \<exists>owner'. snap_good owner' (snap_moves has_engine m w)"
proof (cases m)
  case (Lists n)
  assume w: "snap_good owner w"
  have "versions_ok (w\<lparr>sw_seen := (sw_seen w)(n := sw_obj w)\<rparr>)" using w by (auto simp: snap_good_def versions_ok_def)
  then have "snap_good owner (snap_moves has_engine m w)"
    using w by (auto simp: Lists snap_moves_def snap_good_def owned_by_def)
  then show ?thesis by blast
next
  case (Machine_here n b)
  assume "snap_good owner w"
  then show ?thesis by (auto simp: Machine_here snap_moves_def snap_good_def versions_other owned_by_def)
next
  case Deleted_by_user
  assume "snap_good owner w"
  then have "snap_good owner (snap_moves has_engine m w)" by (simp add: Deleted_by_user snap_moves_def owned_write)
  then show ?thesis by blast
next
  case Edited
  assume "snap_good owner w"
  then have "snap_good owner (snap_moves has_engine m w)" by (simp add: Edited snap_moves_def owned_write)
  then show ?thesis by blast
qed (auto simp: snap_moves_def intro: owned_visit owned_take owned_task owned_unseen)

lemma owned_run: "snap_good owner w \<Longrightarrow> \<exists>owner'. snap_good owner' (run_snap has_engine ms w)"
proof (induction ms arbitrary: owner w)
  case (Cons m ms)
  then show ?case using owned_move by (fastforce simp: run_snap_def)
qed (auto simp: run_snap_def)

lemma asked_good: "snap_good None (asked_for req retain now placed)"
  by (simp add: asked_for_def snap_good_def versions_ok_def owned_by_def)

text \<open>C15. One node takes a snapshot: however many nodes have the machine, list the object and claim it, in
  whatever order and with whatever writes lost or unanswered, no two of them ever have a take of it
  running, and the one that has is the one the object names.\<close>
theorem one_node_takes_it:
  assumes "w = run_snap has_engine ms (asked_for req retain now placed)"
  shows "(\<forall>m n. sw_task w m \<noteq> None \<and> sw_task w n \<noteq> None \<longrightarrow> m = n) \<and>
    (\<forall>n s. sw_task w n \<noteq> None \<and> sw_obj w = Some s \<longrightarrow> so_owner s = Some n)"
proof -
  obtain owner where "snap_good owner w" using owned_run [OF asked_good] assms by blast
  then have "owned_by owner w" by (simp add: snap_good_def)
  then show ?thesis unfolding owned_by_def by (metis option.inject)
qed

section \<open>The content and the object\<close>

text \<open>No kubelet stops while it takes the snapshot, no result of a take is lost, and a take names the group
  it has made.\<close>
definition unbroken :: "snap_move \<Rightarrow> snap_world \<Rightarrow> bool" where
  "unbroken m w =
     (case m of
        Kubelet_restarts n \<Rightarrow> sw_task w n = None
      | Takes n made named succeeded e \<Rightarrow> takes_effect e \<and> (made \<longrightarrow> named)
      | _ \<Rightarrow> True)"

fun all_unbroken :: "snap_move list \<Rightarrow> snap_world \<Rightarrow> bool" where
  "all_unbroken [] w = True"
| "all_unbroken (m # ms) w = (unbroken m w \<and> all_unbroken ms (snap_moves True m w))"

definition finalized :: "snap_world \<Rightarrow> bool" where
  "finalized w = (case sw_obj w of Some s \<Rightarrow> FINALIZER \<in> set (so_finalizers s) | None \<Rightarrow> False)"

definition names_content :: "snap_world \<Rightarrow> bool" where
  "names_content w = (case sw_obj w of Some s \<Rightarrow> so_group s \<noteq> [] | None \<Rightarrow> False)"

definition one_policy :: "bool \<Rightarrow> snap_world \<Rightarrow> bool" where
  "one_policy retain w =
     ((\<forall>s. sw_obj w = Some s \<longrightarrow> so_retain s = retain) \<and> (\<forall>n s. sw_seen w n = Some s \<longrightarrow> so_retain s = retain))"

text \<open>Without the finalizer the owner's kubelet does nothing more with it.\<close>
definition let_be :: "string option \<Rightarrow> snap_world \<Rightarrow> bool" where
  "let_be owner w =
     (owner \<noteq> None \<longrightarrow> \<not> finalized w \<longrightarrow>
        (\<forall>s. sw_obj w = Some s \<longrightarrow> so_deleted s) \<and> (\<forall>n s. sw_seen w n = Some s \<longrightarrow> so_owner s = Some n \<longrightarrow> so_deleted s))"

definition takes_ok :: "snap_world \<Rightarrow> bool" where
  "takes_ok w = (\<forall>n. sw_task w n \<noteq> None \<longrightarrow> finalized w \<and> (\<forall>g b. sw_task w n = Some (Result (Some g) b) \<longrightarrow> g = ''g''))"

text \<open>A group that is not to be retained belongs to an object with this kubelet's finalizer, which names it or
  will when the take's result is written.\<close>
definition groups_ok :: "bool \<Rightarrow> string option \<Rightarrow> snap_world \<Rightarrow> bool" where
  "groups_ok retain owner w =
     (\<forall>n. sw_groups w n \<longrightarrow> owner = Some n \<and>
        (retain \<or> finalized w \<and> (names_content w \<or> (\<exists>b. sw_task w n = Some (Result (Some ''g'') b)))))"

definition content_ok :: "bool \<Rightarrow> string option \<Rightarrow> snap_world \<Rightarrow> bool" where
  "content_ok retain owner w =
     (snap_good owner w \<and> one_policy retain w \<and> let_be owner w \<and> takes_ok w \<and> groups_ok retain owner w)"

lemmas content_parts = one_policy_def let_be_def takes_ok_def groups_ok_def

lemma finalized_other [simp]:
  "finalized (w\<lparr>sw_seen := x\<rparr>) = finalized w" "finalized (w\<lparr>sw_here := h\<rparr>) = finalized w"
  "finalized (w\<lparr>sw_groups := g\<rparr>) = finalized w" "finalized (set_task n t w) = finalized w"
  by (simp_all add: finalized_def set_task_def)

text \<open>A write that leaves owner, deletion, retention and finalizers.\<close>
lemma write_finalized:
  assumes "\<And>s. so_finalizers (f s) = so_finalizers s"
  shows "finalized (write_obj f w) = finalized w"
  using assms by (auto simp: finalized_def write_obj_def put_obj_def split: option.splits)

lemma content_write:
  assumes ok: "content_ok retain owner w"
    and f: "\<And>s. so_finalizers (f s) = so_finalizers s" "\<And>s. so_owner (f s) = so_owner s" "\<And>s. so_retain (f s) = so_retain s"
      "\<And>s. so_deleted s \<Longrightarrow> so_deleted (f s)" "\<And>s. so_group s \<noteq> [] \<Longrightarrow> so_group (f s) \<noteq> []"
  shows "content_ok retain owner (write_obj f w)"
proof -
  have fin: "finalized (write_obj f w) = finalized w" using f(1) by (rule write_finalized)
  have named: "finalized w \<Longrightarrow> names_content w \<Longrightarrow> names_content (write_obj f w)"
    using f by (auto simp: names_content_def finalized_def write_obj_def put_obj_def split: option.splits)
  have "snap_good owner (write_obj f w)" using ok owned_write f(2) by (simp add: content_ok_def)
  moreover have "one_policy retain (write_obj f w)" using ok f(3) by (auto simp: content_ok_def one_policy_def dest!: write_obj_some)
  moreover have "let_be owner (write_obj f w)" using ok f(4) unfolding content_ok_def let_be_def fin by (auto dest!: write_obj_some)
  moreover have "takes_ok (write_obj f w)" using ok by (simp add: content_ok_def takes_ok_def fin)
  moreover have "groups_ok retain owner (write_obj f w)" using ok named by (auto simp: content_ok_def groups_ok_def fin)
  ultimately show ?thesis by (simp add: content_ok_def)
qed

lemma names_other [simp]:
  "names_content (w\<lparr>sw_seen := x\<rparr>) = names_content w" "names_content (w\<lparr>sw_here := h\<rparr>) = names_content w"
  "names_content (w\<lparr>sw_groups := g\<rparr>) = names_content w" "names_content (set_task n t w) = names_content w"
  by (simp_all add: names_content_def set_task_def)

lemma set_task_look [simp]:
  "sw_obj (set_task n t w) = sw_obj w" "sw_seen (set_task n t w) = sw_seen w" "sw_groups (set_task n t w) = sw_groups w"
  "sw_task (set_task n t w) m = (if m = n then t else sw_task w m)"
  by (simp_all add: set_task_def)

lemma content_unseen: "content_ok retain owner w \<Longrightarrow> content_ok retain owner (w\<lparr>sw_seen := (sw_seen w)(n := None)\<rparr>)"
  by (simp add: content_ok_def owned_unseen content_parts)

lemma content_here: "content_ok retain owner w \<Longrightarrow> content_ok retain owner (w\<lparr>sw_here := h\<rparr>)"
  by (simp add: content_ok_def snap_good_def versions_other owned_by_def content_parts)

lemma content_task:
  assumes "content_ok retain owner w" "t \<noteq> None \<Longrightarrow> owner = Some n \<and> finalized w" "\<And>g b. t = Some (Result (Some g) b) \<Longrightarrow> g = ''g''"
    "\<And>b. sw_task w n = Some (Result (Some ''g'') b) \<Longrightarrow> retain \<or> names_content w"
  shows "content_ok retain owner (set_task n t w)"
proof -
  have "snap_good owner (set_task n t w)" using assms(1,2) owned_task by (auto simp: content_ok_def)
  moreover have "takes_ok (set_task n t w)" using assms(1-3) by (auto simp: content_ok_def takes_ok_def)
  moreover have "groups_ok retain owner (set_task n t w)" using assms(1,4) by (auto simp: content_ok_def groups_ok_def)
  moreover have "one_policy retain (set_task n t w)" "let_be owner (set_task n t w)"
    using assms(1) by (simp_all add: content_ok_def one_policy_def let_be_def)
  ultimately show ?thesis by (simp add: content_ok_def)
qed

lemma task_facts:
  assumes "content_ok retain owner w" "sw_task w n \<noteq> None"
  shows "owner = Some n" "finalized w"
  using assms by (auto simp: content_ok_def snap_good_def owned_by_def takes_ok_def)

lemma content_take:
  assumes "content_ok retain owner w" "takes_effect e" "made \<longrightarrow> named"
  shows "content_ok retain owner (take_on n made named succeeded e w)"
proof (cases "sw_task w n")
  case None
  then show ?thesis using assms(1) by (simp add: take_on_def)
next
  case (Some stage)
  note t = task_facts [OF assms(1), of n, unfolded Some, simplified]
  show ?thesis
  proof (cases stage)
    case Begun
    let ?f = "\<lambda>s. s\<lparr>so_phase := Some ''InProgress''\<rparr>"
    have "content_ok retain owner (write_obj ?f w)" by (rule content_write [OF assms(1)]) simp_all
    then have "content_ok retain owner (set_task n (Some Asked) (write_obj ?f w))"
      by (rule content_task) (use t Some Begun in \<open>simp_all add: write_finalized\<close>)
    then show ?thesis using assms(2) by (simp add: take_on_def Some Begun)
  next
    case Asked
    show ?thesis
    proof (cases made)
      case True
      let ?v = "set_task n (Some (Result (Some ''g'') succeeded)) (w\<lparr>sw_groups := (sw_groups w)(n := True)\<rparr>)"
      have "snap_good owner ?v" using assms(1) owned_groups t(1) by (intro owned_task) (simp_all add: content_ok_def)
      moreover have "takes_ok ?v" using assms(1) t(2) by (auto simp: content_ok_def takes_ok_def)
      moreover have "groups_ok retain owner ?v" using assms(1) t by (auto simp: content_ok_def groups_ok_def)
      moreover have "one_policy retain ?v" "let_be owner ?v" using assms(1) by (simp_all add: content_ok_def one_policy_def let_be_def)
      ultimately show ?thesis using assms(3) True by (simp add: take_on_def Some Asked Let_def content_ok_def)
    next
      case False
      have "content_ok retain owner (set_task n (Some (Result None succeeded)) w)"
        by (rule content_task [OF assms(1)]) (use t Some Asked in simp_all)
      then show ?thesis using False by (simp add: take_on_def Some Asked Let_def)
    qed
  next
    case (Result r ok)
    let ?f = "\<lambda>s. s\<lparr>so_phase := Some (if ok then ''Succeeded'' else ''Failed''),
        so_group := (case r of Some g \<Rightarrow> g | None \<Rightarrow> so_group s)\<rparr>"
    have r: "r = Some g \<Longrightarrow> g = ''g''" for g using assms(1) Some Result by (auto simp: content_ok_def takes_ok_def)
    have good: "content_ok retain owner (write_obj ?f w)"
      by (rule content_write [OF assms(1)]) (use r in \<open>auto split: option.split\<close>)
    have "names_content (write_obj ?f w)" if "r = Some ''g''"
      using t(2) that by (auto simp: names_content_def finalized_def write_obj_def put_obj_def split: option.splits)
    then have "content_ok retain owner (set_task n None (write_obj ?f w))"
      by (intro content_task [OF good]) (use Some Result in auto)
    then show ?thesis using assms(2) by (simp add: take_on_def Some Result)
  qed
qed

lemma content_claim:
  assumes ok: "content_ok retain owner w" and seen: "sw_seen w n = Some seen" "\<not> so_deleted seen" "so_owner seen = None"
  shows "\<exists>owner'. content_ok retain owner' (claim_snap n True seen e (w\<lparr>sw_seen := (sw_seen w)(n := None)\<rparr>))"
proof (cases "takes_effect e \<and> same_version seen w")
  case False
  then show ?thesis using content_unseen [OF ok] by (auto simp: claim_snap_def same_version_def)
next
  case True
  let ?w = "w\<lparr>sw_seen := (sw_seen w)(n := None)\<rparr>"
  let ?v = "write_obj (claimed_by n True seen) ?w"
  have obj: "sw_obj w = Some seen" using same_is_current seen(1) True ok by (auto simp: content_ok_def snap_good_def)
  then have none: "owner = None" using ok seen(3) by (auto simp: content_ok_def snap_good_def owned_by_def)
  then have idle: "sw_task w m = None" "\<not> sw_groups w m" for m
    using ok by (auto simp: content_ok_def snap_good_def owned_by_def groups_ok_def)
  obtain owner' where good: "snap_good owner' (claim_snap n True seen Done_unsaid ?w)"
    using owned_claim [OF _ seen(1,3), of owner True Done_unsaid] ok unfolding content_ok_def by blast
  have claim: "claim_snap n True seen Done_unsaid ?w = ?v"
    using True by (simp add: claim_snap_def write_against_def same_version_def takes_effect_def)
  have v: "\<exists>x. sw_obj ?v = Some ((claimed_by n True seen seen)\<lparr>so_version := x\<rparr>)"
    by (rule exI [of _ "Some (show_nat (Suc (sw_clock w)))"])
      (use seen(2) in \<open>simp add: write_obj_def put_obj_def obj claimed_by_def\<close>)
  then have fin: "finalized ?v" by (auto simp: finalized_def claimed_by_def)
  have owner': "owner' = Some n" using good v unfolding claim by (auto simp: snap_good_def owned_by_def claimed_by_def)
  have "one_policy retain ?v" using ok v obj by (auto simp: content_ok_def one_policy_def claimed_by_def)
  then have "content_ok retain (Some n) ?v"
    using good idle fin unfolding claim owner' by (simp add: content_ok_def let_be_def takes_ok_def groups_ok_def)
  then have "content_ok retain (Some n) ?v \<and> content_ok retain (Some n) (set_task n (Some Begun) ?v)"
    using content_task [of retain "Some n" ?v "Some Begun" n] idle fin by simp
  then show ?thesis
    using True by (auto simp: claim_snap_def write_against_def same_version_def Let_def)
qed

lemma content_release:
  assumes ok: "content_ok retain owner w" and seen: "sw_seen w n = Some seen" "so_deleted seen" "holds_snap n seen" "sw_task w n = None"
  shows "content_ok retain owner (release_snap n True seen deleted e (w\<lparr>sw_seen := (sw_seen w)(n := None)\<rparr>))"
proof -
  let ?w = "w\<lparr>sw_seen := (sw_seen w)(n := None)\<rparr>"
  have retain: "so_retain seen = retain" using ok seen(1) by (auto simp: content_ok_def one_policy_def)
  have owner: "owner = Some n" using ok seen(1,3) by (auto simp: content_ok_def snap_good_def owned_by_def holds_snap_def)
  define w' where "w' = (if retain \<or> so_group seen = [] then ?w else ?w\<lparr>sw_groups := (sw_groups ?w)(n := False)\<rparr>)"
  have "content_ok retain owner (?w\<lparr>sw_groups := (sw_groups ?w)(n := False)\<rparr>)"
    using content_unseen [OF ok, of n] by (auto simp: content_ok_def owned_groups content_parts)
  then have ok': "content_ok retain owner w'" using content_unseen [OF ok, of n] by (cases retain) (simp_all add: w'_def)
  have "content_ok retain owner (write_obj (unfinalized seen) w')" if same: "same_version seen w'"
  proof -
    let ?v = "write_obj (unfinalized seen) w'"
    have obj: "sw_obj w = Some seen"
      using same_is_current seen(1) same ok by (auto simp: content_ok_def snap_good_def same_version_def w'_def split: if_splits)
    have obj': "sw_obj w' = Some seen" using obj by (simp add: w'_def)
    have gone: "\<not> finalized ?v"
      using obj' by (auto simp: finalized_def write_obj_def put_obj_def unfinalized_def)
    have del: "sw_obj ?v = Some s \<Longrightarrow> so_deleted s \<and> so_retain s = retain" for s
      using obj' seen(2) retain by (auto simp: unfinalized_def dest!: write_obj_some)
    have mine: "m = n" if "sw_seen ?v m = Some s" "so_owner s = Some m" for m s
      using ok' that owner by (auto simp: content_ok_def snap_good_def owned_by_def)
    have unseen: "sw_seen ?v n = None" by (simp add: w'_def)
    have idle: "sw_task ?v m = None" for m
      using ok' owner seen(4) by (cases "m = n") (auto simp: content_ok_def snap_good_def owned_by_def w'_def)
    have groups: "m = n \<and> retain" if "sw_groups ?v m" for m
    proof -
      have "m = n" using ok' that owner by (auto simp: content_ok_def groups_ok_def)
      moreover have "retain"
      proof (rule ccontr)
        assume no: "\<not> retain"
        then have "so_group seen = []" "sw_groups w n" using that \<open>m = n\<close> by (auto simp: w'_def split: if_splits)
        then show False using ok no seen(4) obj by (auto simp: content_ok_def groups_ok_def names_content_def)
      qed
      ultimately show ?thesis by simp
    qed
    have "snap_good owner ?v" using ok' owned_write [of owner w' "unfinalized seen"] by (simp add: content_ok_def unfinalized_def)
    moreover have "one_policy retain ?v" using ok' del by (auto simp: content_ok_def one_policy_def)
    moreover have "let_be owner ?v" using del mine unseen by (fastforce simp: let_be_def)
    moreover have "takes_ok ?v" using idle by (simp add: takes_ok_def)
    moreover have "groups_ok retain owner ?v" using groups owner by (auto simp: groups_ok_def)
    ultimately show ?thesis by (simp add: content_ok_def)
  qed
  then have "content_ok retain owner (if takes_effect e then write_against seen (unfinalized seen) w' else w')"
    using ok' by (simp add: write_against_def)
  moreover have "release_snap n True seen deleted e ?w \<in>
      {?w, if takes_effect e then write_against seen (unfinalized seen) w' else w'}"
    by (simp add: release_snap_def Let_def retain [symmetric] w'_def)
  ultimately show ?thesis using content_unseen [OF ok, of n] by auto
qed

lemma content_visit:
  assumes ok: "content_ok retain owner w"
  shows "\<exists>owner'. content_ok retain owner' (visit_snap n True now deleted e w)"
proof (cases "sw_seen w n")
  case None
  then show ?thesis using ok by (auto simp: visit_snap_def)
next
  case (Some seen)
  let ?w = "w\<lparr>sw_seen := (sw_seen w)(n := None)\<rparr>"
  note w0 = content_unseen [OF ok, of n]
  show ?thesis
  proof (cases "so_deleted seen")
    case True
    then show ?thesis
      using w0 content_release [OF ok Some] by (cases "sw_task w n = None \<and> holds_snap n seen") (auto simp: visit_snap_def Some in_flight_on_def)
  next
    case False
    show ?thesis
    proof (cases "decide seen n (sw_here w n) (in_flight_on w n) now")
      case Skip
      then show ?thesis using w0 False by (auto simp: visit_snap_def Some)
    next
      case Claim
      then show ?thesis using content_claim [OF ok Some False decide_claim [OF Claim]] False by (simp add: visit_snap_def Some Let_def)
    next
      case Resume
      have mine: "so_owner seen = Some n" using decide_resume [OF Resume] .
      have idle: "sw_task w n = None" using Resume by (auto simp: decide_def in_flight_on_def Let_def split: if_splits)
      have "owner = Some n" using mine ok Some by (auto simp: content_ok_def snap_good_def owned_by_def)
      moreover have "finalized w" using mine ok Some False \<open>owner = Some n\<close> by (auto simp: content_ok_def let_be_def)
      ultimately have "content_ok retain owner (set_task n (Some Begun) ?w)"
        using idle by (intro content_task [OF w0]) simp_all
      then show ?thesis using Resume False by (auto simp: visit_snap_def Some Let_def)
    next
      case (Fail why)
      have "content_ok retain owner (fail_snap e ?w)" using w0 content_write [OF w0] by (simp add: fail_snap_def)
      then show ?thesis using Fail False by (auto simp: visit_snap_def Some Let_def)
    qed
  qed
qed

lemma content_run:
  "\<lbrakk>content_ok retain owner w; all_unbroken ms w\<rbrakk> \<Longrightarrow> \<exists>owner'. content_ok retain owner' (run_snap True ms w)"
proof (induction ms arbitrary: owner w)
  case (Cons m ms)
  have "\<exists>owner'. content_ok retain owner' (snap_moves True m w)"
  proof (cases m)
    case (Lists n)
    have w: "snap_good owner w" using Cons.prems(1) by (simp add: content_ok_def)
    have "versions_ok (w\<lparr>sw_seen := (sw_seen w)(n := sw_obj w)\<rparr>)" using w by (auto simp: snap_good_def versions_ok_def)
    then have "snap_good owner (w\<lparr>sw_seen := (sw_seen w)(n := sw_obj w)\<rparr>)" using w by (auto simp: snap_good_def owned_by_def)
    then have "content_ok retain owner (w\<lparr>sw_seen := (sw_seen w)(n := sw_obj w)\<rparr>)"
      using Cons.prems(1) by (simp add: content_ok_def content_parts)
    then show ?thesis by (auto simp: Lists snap_moves_def)
  next
    case (Visits n now deleted e)
    then show ?thesis using content_visit [OF Cons.prems(1)] by (simp add: snap_moves_def)
  next
    case (Takes n made named succeeded e)
    then have "takes_effect e" "made \<longrightarrow> named" using Cons.prems(2) by (simp_all add: unbroken_def)
    from content_take [OF Cons.prems(1) this] show ?thesis unfolding Takes snap_moves_def by (auto simp del: disj_not1)
  next
    case (Kubelet_restarts n)
    have "content_ok retain owner (set_task n None (w\<lparr>sw_seen := (sw_seen w)(n := None)\<rparr>))"
      by (rule content_task [OF content_unseen [OF Cons.prems(1)]]) (use Cons.prems(2) Kubelet_restarts in \<open>simp_all add: unbroken_def\<close>)
    then show ?thesis by (auto simp: Kubelet_restarts snap_moves_def)
  next
    case (Machine_here n b)
    then show ?thesis using content_here [OF Cons.prems(1)] by (auto simp: snap_moves_def)
  next
    case Deleted_by_user
    have "content_ok retain owner (write_obj (\<lambda>s. s\<lparr>so_deleted := True\<rparr>) w)" by (rule content_write [OF Cons.prems(1)]) simp_all
    then show ?thesis by (auto simp: Deleted_by_user snap_moves_def)
  next
    case Edited
    have "content_ok retain owner (write_obj (\<lambda>s. s) w)" by (rule content_write [OF Cons.prems(1)]) simp_all
    then show ?thesis by (auto simp: Edited snap_moves_def)
  qed
  then show ?case using Cons by (auto simp: run_snap_def)
qed (auto simp: run_snap_def)

text \<open>C16. A snapshot's content goes with it: once the object is gone, no node's engine has the group, unless the
  object says to retain it. That is so for any number of nodes, passes over old copies of the object,
  refused and unanswered claims, failed deletions and edits, as long as no kubelet stops while it takes the
  snapshot, no take's result is lost and every take names the group it made.\<close>
theorem content_goes_with_the_snapshot:
  assumes "all_unbroken ms (asked_for req False now placed)" "w = run_snap True ms (asked_for req False now placed)" "sw_obj w = None"
  shows "\<not> sw_groups w n"
proof -
  have "content_ok False None (asked_for req False now placed)"
    using asked_good by (simp add: content_ok_def content_parts asked_for_def)
  then obtain owner where "content_ok False owner w" using content_run assms(1,2) by blast
  then show ?thesis using assms(3) by (auto simp: content_ok_def groups_ok_def finalized_def)
qed

section \<open>One machine, one node\<close>

definition on_a :: snap_world where
  "on_a = asked_for \<lparr>sr_vm = ''db'', sr_deadline = None\<rparr> False 0 (\<lambda>n. n = ''a'')"

definition look_at :: "snap_move list" where
  "look_at = [Lists ''a'', Visits ''a'' 1 True Done_said]"

definition taken_and_deleted :: "snap_move list" where
  "taken_and_deleted = look_at @ [Lists ''b'', Visits ''b'' 1 True Done_said, Takes ''a'' False False True Done_said, Takes ''a'' True True True Done_said,
     Takes ''a'' False False True Done_said, Deleted_by_user] @ look_at"

lemmas snap_run = run_snap_def snap_moves_def visit_snap_def take_on_def decide_def over_def claim_snap_def release_snap_def
  fail_snap_def write_against_def same_version_def write_obj_def put_obj_def set_task_def claimed_by_def unfinalized_def
  holds_snap_def in_flight_on_def takes_effect_def asked_for_def on_a_def look_at_def as_signed_def Let_def

theorem one_node_takes_it_witness:
  "sw_task (run_snap True look_at on_a) ''a'' = Some Begun \<and> so_owner (the (sw_obj (run_snap True look_at on_a))) = Some ''a''"
proof -
  have begun: "sw_task (run_snap True look_at on_a) ''a'' = Some Begun" and obj: "sw_obj (run_snap True look_at on_a) \<noteq> None"
    by (simp_all add: snap_run)
  have "run_snap True look_at on_a = run_snap True look_at (asked_for \<lparr>sr_vm = ''db'', sr_deadline = None\<rparr> False 0 (\<lambda>n. n = ''a''))"
    by (simp add: on_a_def)
  from one_node_takes_it [OF this] begun obj show ?thesis by (metis option.collapse option.distinct(1))
qed

theorem content_goes_with_the_snapshot_witness:
  "sw_obj (run_snap True taken_and_deleted on_a) = None \<and> \<not> sw_groups (run_snap True taken_and_deleted on_a) ''a'' \<and>
   sw_groups (run_snap True (take 8 taken_and_deleted) on_a) ''a''"
proof -
  have gone: "sw_obj (run_snap True taken_and_deleted on_a) = None" by (simp add: taken_and_deleted_def snap_run)
  have "all_unbroken taken_and_deleted (asked_for \<lparr>sr_vm = ''db'', sr_deadline = None\<rparr> False 0 (\<lambda>n. n = ''a''))"
    by (simp add: taken_and_deleted_def look_at_def unbroken_def takes_effect_def)
  from content_goes_with_the_snapshot [OF this _ gone, of "''a''"]
  have "\<not> sw_groups (run_snap True taken_and_deleted on_a) ''a''" by (simp add: on_a_def)
  moreover have "sw_groups (run_snap True (take 8 taken_and_deleted) on_a) ''a''" by (simp add: taken_and_deleted_def snap_run)
  ultimately show ?thesis using gone by blast
qed


end
