(* ===== verification/PodStart.thy ===== *)
theory PodStart
  imports PodStatus Calls
begin

text \<open>Starting, stopping and adopting a pod (\<open>pkg/kubelet/src/pod_manager.rs\<close>: \<open>start_pod\<close>,
  \<open>run_init_containers\<close>, \<open>sidecar_step\<close>, \<open>stop_pod_within\<close>, \<open>recover_state\<close> and the pass \<open>sync_pods_observed\<close>
  over one object, as \<open>kubelet.rs\<close> calls it). One pod on a node; a pass uses one outcome for every call
  it makes, and a kubelet that stops between two calls has none left. The clock is read once per pass.
  What a container is created with (mounts, environment, image reference) is left out, as are
  events and the timing of starts; the resolution of images, volumes, tokens and networks are calls that are
  answered or refused.\<close>

section \<open>A pod and its world\<close>

definition pod_uid :: "json \<Rightarrow> string" where
  "pod_uid pod = str_or [] (jpath pod [''metadata'', ''uid''])"

definition pod_name :: "json \<Rightarrow> string" where
  "pod_name pod = str_or [] (jpath pod [''metadata'', ''name''])"

definition pod_namespace :: "json \<Rightarrow> string" where
  "pod_namespace pod = str_or ''default'' (jpath pod [''metadata'', ''namespace''])"

definition init_specs :: "json \<Rightarrow> json list" where
  "init_specs pod = elems (jpath pod [''spec'', ''initContainers''])"

definition init_name :: "json \<Rightarrow> string" where
  "init_name spec = str_or ''init'' (jget spec ''name'')"

record start_env =
  sv_node :: string
  sv_at :: clock
  sv_save_ok :: bool
  sv_admission :: bool
  sv_logs_survive :: bool
  sv_active_since :: "string \<Rightarrow> duration option"

text \<open>What a call's outcome says besides: its error, a container's state, a probe's result, the sandbox's
  address, and the runtime a status pass meets.\<close>
record start_outcome = call_outcome +
  po_error :: cri_error
  po_status :: container_status_info
  po_probe :: probe_result
  po_ip :: string
  po_runtime :: runtime

text \<open>What happened, for the statements: a sandbox was made, a container was looked at or made, the status
  pass ran, the pod's volumes were taken down (with the sandboxes there were).\<close>
datatype start_event =
    Ran_box
  | Looked string container_status_info
  | Made string
  | Checked_pod
  | Unpublished "string list"

record waiting_entry =
  we_kind :: string
  we_reason :: string

text \<open>The manager; its entries for this pod in \<open>kept_inits\<close>, \<open>first_seen\<close>, \<open>network_waits\<close>, \<open>waiting\<close>,
  \<open>start_holdoff\<close>, \<open>create_refusals\<close> and \<open>event_waits\<close>; whether the pass told the reactor it failed. And
  the runtime's sandboxes of the pod, how many identities it gave, and whether it made a sandbox nobody
  was told of. The trace has its latest event first.\<close>
record pod_world =
  pw_m :: manager
  pw_kept :: "string list"
  pw_seen :: "instant option"
  pw_network_wait :: "instant option option"
  pw_waiting :: "waiting_entry option"
  pw_holdoff :: "instant option"
  pw_refusals :: nat
  pw_event_wait :: bool
  pw_failed :: bool
  pw_boxes :: "string list"
  pw_made :: nat
  pw_lost :: bool
  pw_trace :: "start_event list"

type_synonym 'a pod_pass = "(pod_world, start_outcome, 'a) calling"

section \<open>Steps\<close>

definition if_ok :: "('e + 'a) pod_pass \<Rightarrow> ('a \<Rightarrow> ('e + 'b) pod_pass) \<Rightarrow> ('e + 'b) pod_pass" where
  "if_ok m f = and_then m (\<lambda>r. case r of Inl x \<Rightarrow> done_with (Inl x) | Inr x \<Rightarrow> f x)"

definition happened :: "start_event \<Rightarrow> pod_world \<Rightarrow> pod_world" where
  "happened ev w = w\<lparr>pw_trace := ev # pw_trace w\<rparr>"

definition log_calls :: "rt_call list \<Rightarrow> pod_world \<Rightarrow> pod_world" where
  "log_calls cs w = w\<lparr>pw_m := (pw_m w)\<lparr>m_calls := m_calls (pw_m w) @ cs\<rparr>\<rparr>"

definition record_of :: "string \<Rightarrow> pod_world \<Rightarrow> pod_state option" where
  "record_of u w = m_pods (pw_m w) u"

definition put_record :: "string \<Rightarrow> pod_state option \<Rightarrow> pod_world \<Rightarrow> pod_world" where
  "put_record u st w = w\<lparr>pw_m := (pw_m w)\<lparr>m_pods := (m_pods (pw_m w))(u := st)\<rparr>\<rparr>"

definition with_record :: "string \<Rightarrow> (pod_state \<Rightarrow> pod_state) \<Rightarrow> pod_world \<Rightarrow> pod_world" where
  "with_record u f w = (case record_of u w of Some st \<Rightarrow> put_record u (Some (f st)) w | None \<Rightarrow> w)"

definition on_deadlines :: "(deadlines \<Rightarrow> deadlines) \<Rightarrow> pod_world \<Rightarrow> pod_world" where
  "on_deadlines f w = w\<lparr>pw_m := (pw_m w)\<lparr>m_deadlines := f (m_deadlines (pw_m w))\<rparr>\<rparr>"

definition pod_due :: "start_env \<Rightarrow> string \<Rightarrow> duration \<Rightarrow> pod_world \<Rightarrow> pod_world" where
  "pod_due e u d = on_deadlines (due_in (now (sv_at e)) u d)"

text \<open>A call of the runtime or another service.\<close>
definition asks ::
  "rt_call list \<Rightarrow> (start_outcome \<Rightarrow> pod_world \<Rightarrow> pod_world) \<Rightarrow> (start_outcome \<Rightarrow> pod_world \<Rightarrow> 'a) \<Rightarrow> (cri_error + 'a) pod_pass" where
  "asks cs effect answer = (\<lambda>(w, os).
     case os of
       [] \<Rightarrow> (None, w, [])
     | oc # os' \<Rightarrow>
         let w1 = log_calls cs w; w2 = (if oc_does oc \<or> oc_ok oc then effect oc w1 else w1)
         in (Some (if oc_ok oc then Inr (answer oc w2) else Inl (po_error oc)), w2, os'))"

definition told :: "(cri_error + unit) pod_pass" where
  "told = asks [] (\<lambda>oc w. w) (\<lambda>oc w. ())"

text \<open>The error of a call whose error is a text, and what the code makes of it.\<close>
definition told_as :: "(string \<Rightarrow> cri_error) \<Rightarrow> (cri_error + unit) pod_pass" where
  "told_as f = and_then told (\<lambda>r. done_with (case r of Inl x \<Rightarrow> Inl (f (show_cri_error x)) | Inr () \<Rightarrow> Inr ()))"

definition ignoring :: "('e + 'a) pod_pass \<Rightarrow> unit pod_pass" where
  "ignoring m = and_then m (\<lambda>_. done_with ())"

definition container_status :: "string \<Rightarrow> string \<Rightarrow> (cri_error + container_status_info) pod_pass" where
  "container_status n cid =
     asks [] (\<lambda>oc w. if oc_ok oc then happened (Looked n (po_status oc)) w else w) (\<lambda>oc w. po_status oc)"

definition create_container :: "string \<Rightarrow> (cri_error + string) pod_pass" where
  "create_container n =
     asks [CreateContainer n 0] (\<lambda>oc w. happened (Made n) (w\<lparr>pw_made := Suc (pw_made w)\<rparr>))
       (\<lambda>oc w. ''c'' @ show_nat (pw_made w))"

definition start_container :: "string \<Rightarrow> (cri_error + unit) pod_pass" where
  "start_container cid = asks [StartContainer cid] (\<lambda>oc w. w) (\<lambda>oc w. ())"

definition stop_container :: "string \<Rightarrow> int \<Rightarrow> (cri_error + unit) pod_pass" where
  "stop_container cid grace = asks [StopContainer cid grace] (\<lambda>oc w. w) (\<lambda>oc w. ())"

definition remove_container :: "string \<Rightarrow> (cri_error + unit) pod_pass" where
  "remove_container cid = asks [RemoveContainer cid] (\<lambda>oc w. w) (\<lambda>oc w. ())"

section \<open>Init containers\<close>

definition new_init_report :: "json \<Rightarrow> string \<Rightarrow> string \<Rightarrow> string \<Rightarrow> int \<Rightarrow> string \<Rightarrow> string \<Rightarrow> int \<Rightarrow> int \<Rightarrow> init_report" where
  "new_init_report spec cid img_ref state code reason message started finished =
     \<lparr>ir_name = init_name spec, ir_container_id = cid, ir_state = state, ir_exit_code = code, ir_reason = reason,
      ir_message = message, ir_image = str_or [] (jget spec ''image''), ir_image_ref = img_ref, ir_started_at = started,
      ir_finished_at = finished, ir_restartable = False, ir_started = False, ir_ready = False, ir_restart_count = 0\<rparr>"

definition put_report :: "init_report \<Rightarrow> init_report list \<Rightarrow> init_report list" where
  "put_report r out =
     (if \<exists>x \<in> set out. ir_name x = ir_name r then update_first (\<lambda>x. ir_name x = ir_name r) (\<lambda>_. r) out else out @ [r])"

definition set_inits :: "string \<Rightarrow> init_report list \<Rightarrow> pod_world \<Rightarrow> pod_world" where
  "set_inits u out = with_record u (\<lambda>st. st\<lparr>init_statuses := out\<rparr>)"

text \<open>\<open>record_init\<close>: the reports with this one, also on the pod's record.\<close>
definition record_init :: "string \<Rightarrow> init_report list \<Rightarrow> init_report \<Rightarrow> init_report list pod_pass" where
  "record_init u out r = and_then (change (set_inits u (put_report r out))) (\<lambda>_. done_with (put_report r out))"

text \<open>A start that goes on, or the error that ends it, with the reports so far.\<close>
type_synonym init_end = "init_report list \<times> cri_error option"

definition sidecar_exited ::
  "start_env \<Rightarrow> string \<Rightarrow> string \<Rightarrow> string \<Rightarrow> container_status_info \<Rightarrow> init_report \<Rightarrow> init_report list \<Rightarrow> init_end pod_pass" where
  "sidecar_exited e u n cid s report out =
     and_then (ignoring (remove_container cid)) (\<lambda>_.
     and_then (look (\<lambda>w. case record_of u w of
          Some st \<Rightarrow> (case restart_counts st n of Some c \<Rightarrow> u32_inc c | None \<Rightarrow> 1)
        | None \<Rightarrow> u32_inc (ir_restart_count report))) (\<lambda>restarts.
     and_then (change (with_record u (\<lambda>st. st\<lparr>container_ids := AList.delete n (container_ids st),
          ps_started := (ps_started st)(n := None), startup_passed := (startup_passed st)(n := None),
          restart_counts := (restart_counts st)(n \<mapsto> restarts)\<rparr>))) (\<lambda>_.
     and_then (change (\<lambda>w. let m = pw_m w; b = restarted (sv_at e) (sv_save_ok e) (cl_key u n) (m_backoff m);
          w' = w\<lparr>pw_m := m\<lparr>m_backoff := b\<rparr>\<rparr>
        in case wait b (cl_key u n) (now (sv_at e)) of Some left \<Rightarrow> pod_due e u left w' | None \<Rightarrow> w')) (\<lambda>_.
     and_then (record_init u out (report\<lparr>ir_state := ''waiting'', ir_reason := ''CrashLoopBackOff'',
          ir_exit_code := si_exit_code s, ir_message := ''exited with code '' @ show_int (si_exit_code s) @ ''; restarting'',
          ir_restart_count := restarts\<rparr>)) (\<lambda>out'.
     done_with (out', Some (Pending (''sidecar '' @ n @ '' exited with code '' @ show_int (si_exit_code s) @ ''; restarting it''))))))))"

text \<open>The startup probe of a running sidecar: whether it has passed, now or before.\<close>
definition sidecar_probe :: "string \<Rightarrow> string \<Rightarrow> json \<Rightarrow> bool pod_pass" where
  "sidecar_probe u n spec =
     and_then (look (\<lambda>w. case record_of u w of Some st \<Rightarrow> startup_passed st n = Some True | None \<Rightarrow> False)) (\<lambda>passed.
     if is_null (jget spec ''startupProbe'') \<or> passed then done_with True
     else and_then (ignoring told) (\<lambda>_.
       and_then (asks [] (\<lambda>oc w. w) (\<lambda>oc w. po_probe oc)) (\<lambda>r.
       if r = Inr ProbeSuccess
       then and_then (change (with_record u (\<lambda>st. st\<lparr>startup_passed := (startup_passed st)(n \<mapsto> True)\<rparr>))) (\<lambda>_. done_with True)
       else done_with False)))"

definition sidecar_running ::
  "start_env \<Rightarrow> string \<Rightarrow> string \<Rightarrow> json \<Rightarrow> init_report \<Rightarrow> init_report list \<Rightarrow> init_end pod_pass" where
  "sidecar_running e u n spec report out =
     and_then (sidecar_probe u n spec) (\<lambda>passed.
     if \<not> passed
     then and_then (record_init u out (report\<lparr>ir_state := ''running''\<rparr>)) (\<lambda>out'.
          and_then (change (pod_due e u (period (jget spec ''startupProbe'')))) (\<lambda>_.
          done_with (out', Some (Pending (''sidecar '' @ n @ '': waiting for its startupProbe'')))))
     else and_then (record_init u out (report\<lparr>ir_state := ''running'', ir_started := True,
            ir_ready := (is_null (jget spec ''readinessProbe'') \<or> (\<exists>r \<in> set out. ir_name r = n \<and> ir_ready r))\<rparr>)) (\<lambda>out'.
          done_with (out', None)))"

definition sidecar_step ::
  "start_env \<Rightarrow> string \<Rightarrow> json \<Rightarrow> string \<Rightarrow> string \<Rightarrow> init_report list \<Rightarrow> init_end pod_pass" where
  "sidecar_step e u spec cid img_ref out =
     (let n = init_name spec in
      and_then (look (\<lambda>w. case record_of u w of
           Some st \<Rightarrow> (case restart_counts st n of Some c \<Rightarrow> c | None \<Rightarrow> 0) | None \<Rightarrow> 0)) (\<lambda>count.
      and_then (container_status n cid) (\<lambda>r.
      case r of
        Inl err \<Rightarrow> done_with (out, Some err)
      | Inr s \<Rightarrow>
          (let report = (new_init_report spec cid img_ref [] 0 [] [] (si_started_at s) 0)
                          \<lparr>ir_restartable := True, ir_restart_count := count\<rparr>
           in case si_state s of
                Exited \<Rightarrow> sidecar_exited e u n cid s report out
              | Running \<Rightarrow> sidecar_running e u n spec report out
              | _ \<Rightarrow> and_then (record_init u out (report\<lparr>ir_state := ''running''\<rparr>)) (\<lambda>out'.
                       and_then (change (pod_due e u RECHECK)) (\<lambda>_.
                       done_with (out', Some (Pending (''sidecar '' @ n @ '' is starting'')))))))))"

text \<open>An ordinary init container: looked at once; its exit, its deadline, or another wait.\<close>
definition init_exited ::
  "start_env \<Rightarrow> string \<Rightarrow> json \<Rightarrow> string \<Rightarrow> string \<Rightarrow> container_status_info \<Rightarrow> init_report list \<Rightarrow> init_end pod_pass" where
  "init_exited e u spec cid img_ref s out =
     (if si_exit_code s \<noteq> 0
      then and_then (ignoring (remove_container cid)) (\<lambda>_.
           done_with (out @ [new_init_report spec cid img_ref ''terminated'' (si_exit_code s) ''Error'' (si_message s)
                               (si_started_at s) (si_finished_at s)],
             Some (Runtime (''init container '' @ init_name spec @ '' exited with code '' @ show_int (si_exit_code s)))))
      else let out' = out @ [new_init_report spec cid img_ref ''terminated'' 0 ''Completed'' [] (si_started_at s) (si_finished_at s)]
        in and_then (change (set_inits u out')) (\<lambda>_.
           and_then (if sv_logs_survive e then ignoring (remove_container cid)
                     else change (\<lambda>w. w\<lparr>pw_kept := pw_kept w @ [cid]\<rparr>)) (\<lambda>_.
           done_with (out', None))))"

definition DEADLINE_TEXT :: string where
  "DEADLINE_TEXT = ''Pod was active on the node longer than the specified deadline (activeDeadlineSeconds ''"

definition init_overdue ::
  "json \<Rightarrow> json \<Rightarrow> string \<Rightarrow> string \<Rightarrow> container_status_info \<Rightarrow> init_report list \<Rightarrow> init_end pod_pass" where
  "init_overdue pod spec cid img_ref s out =
     (let deadline = show_nat (case as_u64 (jpath pod [''spec'', ''activeDeadlineSeconds'']) of Some n \<Rightarrow> n | None \<Rightarrow> 0);
          why = DEADLINE_TEXT @ deadline @ '')'';
          grace = (case as_i64 (jpath pod [''spec'', ''terminationGracePeriodSeconds'']) of Some g \<Rightarrow> g | None \<Rightarrow> 30)
      in and_then (ignoring (stop_container cid grace)) (\<lambda>_.
         and_then (ignoring (remove_container cid)) (\<lambda>_.
         done_with (out @ [new_init_report spec cid img_ref ''terminated'' (- 1) ''DeadlineExceeded'' why (si_started_at s) 0],
           Some (Runtime (''DeadlineExceeded: '' @ why))))))"

text \<open>It runs: its exit is an event where the kubelet gets those, and its deadline, if any, is due.\<close>
definition init_waits :: "start_env \<Rightarrow> string \<Rightarrow> json \<Rightarrow> duration option \<Rightarrow> init_report list \<Rightarrow> init_end pod_pass" where
  "init_waits e u spec left out =
     and_then (change (\<lambda>w.
        if sv_admission e
        then (case left of None \<Rightarrow> (\<lambda>w. w) | Some l \<Rightarrow> pod_due e u l) (w\<lparr>pw_event_wait := True\<rparr>)
        else pod_due e u (case left of None \<Rightarrow> RECHECK | Some l \<Rightarrow> min l RECHECK) w)) (\<lambda>_.
     done_with (out, Some (Pending (''init container '' @ init_name spec @ '' is running''))))"

definition wait_init ::
  "start_env \<Rightarrow> json \<Rightarrow> json \<Rightarrow> string \<Rightarrow> string \<Rightarrow> init_report list \<Rightarrow> init_end pod_pass" where
  "wait_init e pod spec cid img_ref out =
     and_then (container_status (init_name spec) cid) (\<lambda>r.
     case r of
       Inl err \<Rightarrow> done_with (out, Some err)
     | Inr s \<Rightarrow>
         if si_state s = Exited then init_exited e (pod_uid pod) spec cid img_ref s out
         else and_then (look (\<lambda>w. active_deadline_left (sv_active_since e) pod (pw_seen w) (now (sv_at e)))) (\<lambda>left.
              if left = Some 0 then init_overdue pod spec cid img_ref s out
              else init_waits e (pod_uid pod) spec left out))"

text \<open>Its container: the one on the record, or a new one, on the record before it is started.\<close>
definition init_container :: "start_env \<Rightarrow> string \<Rightarrow> string \<Rightarrow> string option \<Rightarrow> (cri_error + string) pod_pass" where
  "init_container e u n existing =
     (case existing of
        Some cid \<Rightarrow> done_with (Inr cid)
      | None \<Rightarrow>
          if_ok (create_container n) (\<lambda>cid.
          and_then (change (with_record u (\<lambda>st. st\<lparr>container_ids := AList.update n cid (container_ids st)\<rparr>))) (\<lambda>_.
          if_ok (start_container cid) (\<lambda>_.
          and_then (change (with_record u (\<lambda>st. st\<lparr>ps_started := (ps_started st)(n \<mapsto> now (sv_at e))\<rparr>))) (\<lambda>_.
          done_with (Inr cid))))))"

definition startup_image :: "(cri_error + string) pod_pass" where
  "startup_image = asks [] (\<lambda>oc w. w) (\<lambda>oc w. si_image_ref (po_status oc))"

definition run_init :: "start_env \<Rightarrow> json \<Rightarrow> json \<Rightarrow> init_report list \<Rightarrow> init_end pod_pass" where
  "run_init e pod spec out =
     (let u = pod_uid pod; n = init_name spec; side = is_restartable_init spec in
      and_then (look (\<lambda>w. Option.bind (record_of u w) (\<lambda>st. map_of (container_ids st) n))) (\<lambda>existing.
      and_then (look (\<lambda>w. if side \<and> existing = None then wait (m_backoff (pw_m w)) (cl_key u n) (now (sv_at e)) else None)) (\<lambda>backing.
      case backing of
        Some left \<Rightarrow>
          and_then (change (pod_due e u left)) (\<lambda>_.
          done_with (out, Some (Pending (''sidecar '' @ n @ '': back-off '' @ show_nat (as_secs left) @ ''s before restarting it''))))
      | None \<Rightarrow>
          and_then startup_image (\<lambda>img.
          case img of
            Inl err \<Rightarrow> done_with (out, Some err)
          | Inr img_ref \<Rightarrow>
              and_then (init_container e u n existing) (\<lambda>r.
              case r of
                Inl err \<Rightarrow> done_with (out, Some err)
              | Inr cid \<Rightarrow>
                  if side then sidecar_step e u spec cid img_ref out
                  else wait_init e pod spec cid img_ref out)))))"

fun run_init_containers :: "start_env \<Rightarrow> json \<Rightarrow> json list \<Rightarrow> init_report list \<Rightarrow> init_end pod_pass" where
  "run_init_containers e pod [] out = done_with (out, None)"
| "run_init_containers e pod (spec # specs) out =
     (if \<exists>r \<in> set out. ir_name r = init_name spec \<and> succeeded r then run_init_containers e pod specs out
      else and_then (run_init e pod spec out) (\<lambda>(out', stop).
           case stop of Some err \<Rightarrow> done_with (out', Some err) | None \<Rightarrow> run_init_containers e pod specs out'))"

section \<open>The start\<close>

definition new_record :: "json \<Rightarrow> string \<Rightarrow> pod_state" where
  "new_record pod sandbox =
     \<lparr>ps_namespace = pod_namespace pod, ps_name = pod_name pod, ps_uid = pod_uid pod, sandbox_id = Some sandbox,
      container_ids = [], ps_phase = ''Starting'', ps_pod = pod, ps_pod_ip = None, restart_counts = (\<lambda>_. None),
      ps_ready = (\<lambda>_. None), liveness_failures = (\<lambda>_. None), startup_passed = (\<lambda>_. None), ps_started = (\<lambda>_. None),
      terminated = (\<lambda>_. None), init_statuses = [], sandbox_stopped = False\<rparr>"

text \<open>The sandbox is on the record as soon as the runtime has told of it.\<close>
definition run_pod_sandbox :: "json \<Rightarrow> (cri_error + string) pod_pass" where
  "run_pod_sandbox pod =
     asks []
       (\<lambda>oc w. let b = ''s'' @ show_nat (Suc (pw_made w));
                   w' = happened Ran_box (w\<lparr>pw_made := Suc (pw_made w), pw_boxes := b # pw_boxes w\<rparr>)
               in if oc_ok oc then put_record (pod_uid pod) (Some (new_record pod b)) w' else w'\<lparr>pw_lost := True\<rparr>)
       (\<lambda>oc w. ''s'' @ show_nat (pw_made w))"

definition start_sandbox :: "json \<Rightarrow> (cri_error + string) pod_pass" where
  "start_sandbox pod =
     and_then (look (\<lambda>w. Option.bind (record_of (pod_uid pod) w) sandbox_id)) (\<lambda>existing.
     case existing of
       Some b \<Rightarrow> done_with (Inr b)
     | None \<Rightarrow>
         if_ok (if as_bool (jpath pod [''spec'', ''hostNetwork'']) = Some True then done_with (Inr ()) else told_as NetworkNotReady) (\<lambda>_.
         run_pod_sandbox pod))"

definition started_report :: "json \<Rightarrow> string \<Rightarrow> string \<Rightarrow> container_report" where
  "started_report spec cid img_ref =
     \<lparr>cr_name = str_or ''unnamed'' (jget spec ''name''), cr_container_id = cid, cr_state = ''running'',
      cr_ready = is_null (jget spec ''readinessProbe''), cr_restart_count = 0, cr_exit_code = 0,
      cr_image = str_or [] (jget spec ''image''), cr_image_ref = img_ref, cr_reason = [], cr_message = [],
      cr_started_at = 0, cr_finished_at = 0\<rparr>"

definition failing_as :: "string \<Rightarrow> string \<Rightarrow> (cri_error + 'a) pod_pass \<Rightarrow> (cri_error + 'a) pod_pass" where
  "failing_as n reason m =
     and_then m (\<lambda>r. done_with (case r of Inl x \<Rightarrow> Inl (container_error x n reason) | Inr x \<Rightarrow> Inr x))"

definition start_app :: "json \<Rightarrow> json \<Rightarrow> (cri_error + container_report) pod_pass" where
  "start_app pod spec =
     (let n = str_or ''unnamed'' (jget spec ''name''); u = pod_uid pod in
      and_then (ignoring told) (\<lambda>_.
      if_ok startup_image (\<lambda>img_ref.
      if_ok (failing_as n ''CreateContainerError'' (create_container n)) (\<lambda>cid.
      and_then (change (with_record u (\<lambda>st. st\<lparr>container_ids := AList.update n cid (container_ids st)\<rparr>))) (\<lambda>_.
      if_ok (failing_as n ''StartError'' (start_container cid)) (\<lambda>_.
      done_with (Inr (started_report spec cid img_ref))))))))"

fun start_apps :: "json \<Rightarrow> json list \<Rightarrow> (cri_error + container_report list) pod_pass" where
  "start_apps pod [] = done_with (Inr [])"
| "start_apps pod (spec # specs) =
     if_ok (start_app pod spec) (\<lambda>r. if_ok (start_apps pod specs) (\<lambda>rs. done_with (Inr (r # rs))))"

text \<open>The record of a started pod: its containers, and what its sidecars had.\<close>
definition sidecar_kept :: "string list \<Rightarrow> (string \<Rightarrow> 'a option) \<Rightarrow> (string \<Rightarrow> 'a option) \<Rightarrow> string \<Rightarrow> 'a option" where
  "sidecar_kept sidecars old m = (\<lambda>n. if n \<in> set sidecars \<and> old n \<noteq> None then old n else m n)"

definition started_record ::
  "start_env \<Rightarrow> json \<Rightarrow> string \<Rightarrow> string option \<Rightarrow> container_report list \<Rightarrow> init_report list \<Rightarrow> pod_state option \<Rightarrow> pod_state" where
  "started_record e pod sandbox ip rs inits prev =
     (let sidecars = (case prev of Some _ \<Rightarrow> sidecar_names pod | None \<Rightarrow> []);
          st = (case prev of Some st \<Rightarrow> st | None \<Rightarrow> new_record pod sandbox);
          ids = fold (\<lambda>r. AList.update (cr_name r) (cr_container_id r)) rs []
      in (new_record pod sandbox)\<lparr>
        container_ids := fold (\<lambda>n ids. case map_of (container_ids st) n of Some c \<Rightarrow> AList.update n c ids | None \<Rightarrow> ids) sidecars ids,
        ps_phase := ''Running'', ps_pod_ip := ip,
        restart_counts := sidecar_kept sidecars (restart_counts st) (\<lambda>_. None),
        ps_ready := fold (\<lambda>r m. m(ir_name r \<mapsto> ir_ready r)) (filter ir_restartable inits)
                      (fold (\<lambda>r m. m(cr_name r \<mapsto> cr_ready r)) rs (\<lambda>_. None)),
        startup_passed := sidecar_kept sidecars (startup_passed st) (\<lambda>_. None),
        ps_started := sidecar_kept sidecars (ps_started st) (fold (\<lambda>r m. m(cr_name r \<mapsto> now (sv_at e))) rs (\<lambda>_. None)),
        init_statuses := inits\<rparr>)"

definition update_of ::
  "json \<Rightarrow> string \<Rightarrow> string \<Rightarrow> container_report list \<Rightarrow> init_report list \<Rightarrow> string option \<Rightarrow> pod_status_update" where
  "update_of pod phase message statuses inits ip =
     \<lparr>pu_namespace = pod_namespace pod, pu_name = pod_name pod, pu_phase = phase, pu_message = message, pu_reason = [],
      pu_container_statuses = statuses, pu_init_container_statuses = inits,
      pu_declared_init_containers = declared_init_containers pod, pu_pod_ip = ip\<rparr>"

definition recorded_inits :: "string \<Rightarrow> pod_world \<Rightarrow> init_report list" where
  "recorded_inits u w = (case record_of u w of Some st \<Rightarrow> init_statuses st | None \<Rightarrow> [])"

text \<open>After the sandbox: its address, the init containers, then the containers.\<close>
definition start_in_sandbox :: "start_env \<Rightarrow> json \<Rightarrow> string \<Rightarrow> (cri_error + pod_status_update) pod_pass" where
  "start_in_sandbox e pod sandbox =
     (let u = pod_uid pod in
      if_ok (asks [] (\<lambda>oc w. w) (\<lambda>oc w. if po_ip oc = [] then None else Some (po_ip oc))) (\<lambda>ip.
      and_then (look (recorded_inits u)) (\<lambda>inits0.
      and_then (run_init_containers e pod (init_specs pod) inits0) (\<lambda>(inits, stop).
      case stop of
        Some err \<Rightarrow> and_then (change (set_inits u inits)) (\<lambda>_. done_with (Inl err))
      | None \<Rightarrow>
          if_ok (start_apps pod (elems (jpath pod [''spec'', ''containers'']))) (\<lambda>rs.
          and_then (change (\<lambda>w. put_record u (Some (started_record e pod sandbox ip rs inits (record_of u w))) w)) (\<lambda>_.
          done_with (Inr (update_of pod ''Running'' [] rs inits ip))))))))"

text \<open>Images (where they are prepared beforehand), volumes, the token, DNS and the log directories, then the
  sandbox.\<close>
definition start_pod :: "start_env \<Rightarrow> json \<Rightarrow> (cri_error + pod_status_update) pod_pass" where
  "start_pod e pod =
     if_ok (if sv_admission e then told else done_with (Inr ())) (\<lambda>_.
     if_ok told (\<lambda>_. if_ok told (\<lambda>_. if_ok told (\<lambda>_. if_ok told (\<lambda>_.
     if_ok (start_sandbox pod) (start_in_sandbox e pod))))))"

section \<open>The stop\<close>

definition gone_ok :: "(cri_error + unit) pod_pass \<Rightarrow> (cri_error + unit) pod_pass" where
  "gone_ok m = and_then m (\<lambda>r. done_with (case r of Inl (NotFound _) \<Rightarrow> Inr () | _ \<Rightarrow> r))"

fun each_ok :: "('a \<Rightarrow> (cri_error + unit) pod_pass) \<Rightarrow> 'a list \<Rightarrow> (cri_error + unit) pod_pass" where
  "each_ok f [] = done_with (Inr ())"
| "each_ok f (x # xs) = if_ok (f x) (\<lambda>_. each_ok f xs)"

text \<open>All are stopped, and the first error counts.\<close>
fun stop_together :: "int \<Rightarrow> string list \<Rightarrow> (cri_error + unit) pod_pass" where
  "stop_together grace [] = done_with (Inr ())"
| "stop_together grace (cid # cids) =
     and_then (gone_ok (stop_container cid grace)) (\<lambda>r.
     and_then (stop_together grace cids) (\<lambda>r'.
     done_with (case r of Inl x \<Rightarrow> Inl x | Inr _ \<Rightarrow> r')))"

definition is_not_found :: "cri_error \<Rightarrow> bool" where
  "is_not_found x = (case x of NotFound _ \<Rightarrow> True | _ \<Rightarrow> False)"

definition stop_pod_sandbox :: "string \<Rightarrow> (cri_error + unit) pod_pass" where
  "stop_pod_sandbox b = asks [StopSandbox b] (\<lambda>oc w. w) (\<lambda>oc w. ())"

text \<open>A runtime that says it has no such sandbox has none.\<close>
definition remove_pod_sandbox :: "string \<Rightarrow> (cri_error + unit) pod_pass" where
  "remove_pod_sandbox b = (\<lambda>(w, os).
     case os of
       [] \<Rightarrow> (None, w, [])
     | oc # os' \<Rightarrow>
         (Some (if oc_ok oc then Inr () else Inl (po_error oc)),
          if oc_does oc \<or> oc_ok oc \<or> is_not_found (po_error oc) then w\<lparr>pw_boxes := removeAll b (pw_boxes w)\<rparr> else w, os'))"

definition stop_sidecar_of :: "int \<Rightarrow> (string \<times> string) list \<Rightarrow> string \<Rightarrow> (cri_error + unit) pod_pass" where
  "stop_sidecar_of grace ids n =
     (case map_of ids n of
        None \<Rightarrow> done_with (Inr ())
      | Some cid \<Rightarrow> if_ok (gone_ok (stop_container cid grace)) (\<lambda>_. gone_ok (remove_container cid)))"

definition remove_kept :: "string \<Rightarrow> (cri_error + unit) pod_pass" where
  "remove_kept cid =
     if_ok (gone_ok (remove_container cid)) (\<lambda>_.
     and_then (change (\<lambda>w. w\<lparr>pw_kept := filter (\<lambda>c. c \<noteq> cid) (pw_kept w)\<rparr>)) (\<lambda>_. done_with (Inr ())))"

text \<open>The containers of a record: the pod's own, its sidecars, the init containers that were kept.\<close>
definition stop_containers :: "pod_state \<Rightarrow> int \<Rightarrow> (cri_error + unit) pod_pass" where
  "stop_containers st grace =
     (let sidecars = sidecar_names (ps_pod st);
          apps = map snd (filter (\<lambda>(n, _). n \<notin> set sidecars) (container_ids st))
      in if_ok (stop_together grace apps) (\<lambda>_.
         if_ok (each_ok (\<lambda>cid. gone_ok (remove_container cid)) apps) (\<lambda>_.
         if_ok (each_ok (stop_sidecar_of grace (container_ids st)) (rev sidecars)) (\<lambda>_.
         and_then (look pw_kept) (each_ok remove_kept)))))"

definition stop_record :: "string \<Rightarrow> pod_state \<Rightarrow> int \<Rightarrow> (cri_error + unit) pod_pass" where
  "stop_record u st grace =
     if_ok (stop_containers st grace) (\<lambda>_.
     and_then (change (\<lambda>w. w\<lparr>pw_kept := [], pw_m := (pw_m w)\<lparr>m_last_terminated :=
          (\<lambda>k. if fst k = u then None else m_last_terminated (pw_m w) k)\<rparr>\<rparr>)) (\<lambda>_.
     case sandbox_id st of
       None \<Rightarrow> done_with (Inr ())
     | Some b \<Rightarrow> if_ok (gone_ok (stop_pod_sandbox b)) (\<lambda>_. gone_ok (remove_pod_sandbox b))))"

text \<open>Whether every volume is down.\<close>
definition teardown_volumes :: "(cri_error + unit) pod_pass" where
  "teardown_volumes =
     and_then (asks [] (\<lambda>oc w. happened (Unpublished (pw_boxes w)) w) (\<lambda>oc w. ())) (\<lambda>r.
     done_with (case r of Inl _ \<Rightarrow> Inl (VolumeNotReady ''Pod volume cleanup is still pending'') | Inr () \<Rightarrow> Inr ()))"

definition forget :: "start_env \<Rightarrow> string \<Rightarrow> pod_world \<Rightarrow> pod_world" where
  "forget e u w =
     (let m = pw_m w in
      w\<lparr>pw_m := m\<lparr>m_pods := (m_pods m)(u := None), m_backoff := forget_pod (sv_at e) (sv_save_ok e) u (m_backoff m),
          m_deadlines := forget_deadlines u (m_deadlines m)\<rparr>,
        pw_seen := None, pw_network_wait := None, pw_waiting := None\<rparr>)"

definition stop_pod_within :: "start_env \<Rightarrow> string \<Rightarrow> int option \<Rightarrow> (cri_error + unit) pod_pass" where
  "stop_pod_within e u grace =
     and_then (look (record_of u)) (\<lambda>r.
     if_ok (case r of
              None \<Rightarrow> done_with (Inr ())
            | Some st \<Rightarrow> stop_record u st (case grace of Some g \<Rightarrow> max g 0 | None \<Rightarrow> termination_grace (ps_pod st))) (\<lambda>_.
     if_ok teardown_volumes (\<lambda>_.
     and_then (change (forget e u)) (\<lambda>_. done_with (Inr ())))))"

section \<open>Why a start did not end\<close>

definition set_waiting :: "string \<Rightarrow> string \<Rightarrow> pod_world \<Rightarrow> pod_world" where
  "set_waiting kind reason w = w\<lparr>pw_waiting := Some \<lparr>we_kind = kind, we_reason = reason\<rparr>\<rparr>"

definition waiting_pod_as :: "json \<Rightarrow> string \<Rightarrow> string \<Rightarrow> pod_status_update pod_pass" where
  "waiting_pod_as pod kind message =
     and_then (change (set_waiting kind message)) (\<lambda>_.
     done_with (update_of pod ''Pending'' message (creating_statuses_as pod kind message) [] None))"

definition waiting_pod :: "json \<Rightarrow> string \<Rightarrow> pod_status_update pod_pass" where
  "waiting_pod pod message = waiting_pod_as pod ''ContainerCreating'' message"

definition retry_wait :: "start_env \<Rightarrow> string \<Rightarrow> duration \<Rightarrow> pod_world \<Rightarrow> pod_world" where
  "retry_wait e u waited w =
     (if pw_event_wait w then w\<lparr>pw_event_wait := False\<rparr> else pod_due e u (wait_backoff waited) w)"

definition hold_off :: "start_env \<Rightarrow> string \<Rightarrow> duration \<Rightarrow> pod_world \<Rightarrow> pod_world" where
  "hold_off e u after w = pod_due e u after (w\<lparr>pw_holdoff := Some (now (sv_at e) + int after)\<rparr>)"

definition cleanup_partial_start :: "string \<Rightarrow> pod_world \<Rightarrow> pod_world" where
  "cleanup_partial_start u =
     with_record u (\<lambda>st. if sandbox_id st \<noteq> None \<or> container_ids st \<noteq> [] then st\<lparr>ps_phase := ''Cleanup''\<rparr> else st)"

definition image_failed :: "start_env \<Rightarrow> json \<Rightarrow> duration \<Rightarrow> string \<Rightarrow> pod_status_update pod_pass" where
  "image_failed e pod waited what =
     (let u = pod_uid pod in
      and_then (change (cleanup_partial_start u)) (\<lambda>_.
      and_then (look (\<lambda>w. case pw_waiting w of
           Some x \<Rightarrow> we_kind x = ''ErrImagePull'' \<or> we_kind x = ''ImagePullBackOff'' | None \<Rightarrow> False)) (\<lambda>again.
      and_then (change (\<lambda>w. hold_off e u (start_backoff waited) (w\<lparr>pw_event_wait := False\<rparr>))) (\<lambda>_.
      waiting_pod_as pod (if again then ''ImagePullBackOff'' else ''ErrImagePull'') what))))"

definition container_failed :: "start_env \<Rightarrow> json \<Rightarrow> duration \<Rightarrow> string \<Rightarrow> string \<Rightarrow> string \<Rightarrow> pod_status_update pod_pass" where
  "container_failed e pod waited container reason message =
     (let u = pod_uid pod in
      and_then (change (cleanup_partial_start u)) (\<lambda>_.
      if reason = ''StartError'' \<and> as_str (jpath pod [''spec'', ''restartPolicy'']) = Some ''Never''
      then and_then (change (set_waiting ''StartError'' message)) (\<lambda>_.
           and_then (look (recorded_inits u)) (\<lambda>inits.
           done_with (update_of pod ''Failed'' (''container '' @ container @ '' failed to start: '' @ message)
             (failed_start_statuses pod container message) inits None)))
      else and_then (change (\<lambda>w. let n = Suc (pw_refusals w)
               in hold_off e u (create_backoff n waited) (w\<lparr>pw_refusals := n, pw_event_wait := False\<rparr>))) (\<lambda>_.
           waiting_pod_as pod (if reason = ''StartError'' then ''RunContainerError'' else reason)
             (''container '' @ container @ '': '' @ message))))"

definition start_ended :: "start_env \<Rightarrow> json \<Rightarrow> duration \<Rightarrow> cri_error \<Rightarrow> pod_status_update pod_pass" where
  "start_ended e pod waited err =
     (let u = pod_uid pod; message = show_cri_error err in
      and_then (look (recorded_inits u)) (\<lambda>inits.
      and_then (change (\<lambda>w. retry_wait e u waited ((with_record u (\<lambda>st. st\<lparr>ps_phase := ''Cleanup''\<rparr>) w)\<lparr>pw_failed := True\<rparr>))) (\<lambda>_.
      and_then (change (set_waiting ''StartError'' message)) (\<lambda>_.
      done_with (update_of pod ''Failed'' message
        (if \<exists>r \<in> set inits. ir_state r = ''terminated'' \<and> ir_exit_code r \<noteq> 0
         then creating_statuses_as pod ''PodInitializing'' message else failed_start_statuses pod [] message) inits None)))))"

text \<open>What the pass makes of a start's error. \<open>waited\<close> is the time since the pod was first seen.\<close>
definition start_failed :: "start_env \<Rightarrow> json \<Rightarrow> duration \<Rightarrow> cri_error \<Rightarrow> pod_status_update pod_pass" where
  "start_failed e pod waited err =
     (let u = pod_uid pod; t = now (sv_at e) in
      case err of
        Pending what \<Rightarrow> and_then (change (retry_wait e u waited)) (\<lambda>_. waiting_pod pod what)
      | NetworkNotConfigured what \<Rightarrow>
          and_then (change (\<lambda>w. pod_due e u NETWORK_FALLBACK (w\<lparr>pw_network_wait := Some None, pw_event_wait := False\<rparr>))) (\<lambda>_.
          waiting_pod pod (''network is not ready: '' @ what))
      | NetworkNotReady what \<Rightarrow>
          and_then (change (\<lambda>w. let since0 = (case pw_network_wait w of Some (Some t0) \<Rightarrow> t0 | _ \<Rightarrow> t)
              in pod_due e u (wait_backoff (since since0 t)) (w\<lparr>pw_network_wait := Some (Some since0), pw_event_wait := False\<rparr>))) (\<lambda>_.
          waiting_pod pod (''network is not ready: '' @ what))
      | NodeStorage what \<Rightarrow> and_then (change (retry_wait e u waited)) (\<lambda>_. waiting_pod pod what)
      | VolumeNotReady what \<Rightarrow>
          and_then (change (retry_wait e u waited)) (\<lambda>_. waiting_pod pod (volume_wait_message what waited))
      | ImagePull what \<Rightarrow> image_failed e pod waited what
      | Container c reason message \<Rightarrow> container_failed e pod waited c reason message
      | Connection what \<Rightarrow>
          and_then (change (\<lambda>w. retry_wait e u waited (cleanup_partial_start u w))) (\<lambda>_.
          waiting_pod_as pod ''ContainerCreating'' (''container runtime unreachable: '' @ what))
      | _ \<Rightarrow> start_ended e pod waited err)"

section \<open>Admission\<close>

abbreviation APPARMOR_REASON :: string where "APPARMOR_REASON \<equiv> ''AppArmor''"
abbreviation APPARMOR_PREFIX :: string where "APPARMOR_PREFIX \<equiv> ''container.apparmor.security.beta.kubernetes.io/''"

definition asks_profile :: "json \<Rightarrow> bool" where
  "asks_profile sc = (case as_str (jpath sc [''appArmorProfile'', ''type'']) of Some t \<Rightarrow> t \<noteq> ''Unconfined'' | None \<Rightarrow> False)"

definition annotated_wants :: "string list \<Rightarrow> string \<times> json \<Rightarrow> string list" where
  "annotated_wants wants kv =
     (case strip_prefix APPARMOR_PREFIX (fst kv) of
        None \<Rightarrow> wants
      | Some c \<Rightarrow>
          (let who = ''container '' @ c
           in if (case as_str (snd kv) of Some v \<Rightarrow> v \<noteq> ''unconfined'' | None \<Rightarrow> False) \<and> who \<notin> set wants
              then wants @ [who] else wants))"

text \<open>An object's members are in the order of their keys.\<close>
definition apparmor_wants :: "json \<Rightarrow> string list" where
  "apparmor_wants pod =
     foldl annotated_wants
       ((if asks_profile (jpath pod [''spec'', ''securityContext'']) then [''the pod''] else []) @
        concat (map (\<lambda>l. map (\<lambda>c. ''container '' @ str_or ''?'' (jget c ''name''))
                             (filter (\<lambda>c. asks_profile (jget c ''securityContext'')) (elems (jpath pod [''spec'', l]))))
                 [''initContainers'', ''containers'', ''ephemeralContainers'']))
       (case as_object (jpath pod [''metadata'', ''annotations'']) of Some kvs \<Rightarrow> kvs | None \<Rightarrow> [])"

definition apparmor_refusal :: "json \<Rightarrow> string option" where
  "apparmor_refusal pod =
     (let wants = apparmor_wants pod
      in if wants = [] then None
         else Some (''Cannot enforce AppArmor: this node'' @ [CHR 0x27] @ ''s runtime applies no AppArmor profile, and ''
                    @ join_with '', '' wants @ '' asks for one''))"

section \<open>A pass\<close>

text \<open>What a pass over one object says: its update, if any, and whether the pod is removed.\<close>
record sync_outcome =
  so_updates :: "pod_status_update list"
  so_removed :: bool

abbreviation nothing_said :: sync_outcome where "nothing_said \<equiv> \<lparr>so_updates = [], so_removed = False\<rparr>"
abbreviation said :: "pod_status_update \<Rightarrow> sync_outcome" where "said x \<equiv> \<lparr>so_updates = [x], so_removed = False\<rparr>"

text \<open>The status pass, with the runtime it meets.\<close>
definition with_runtime :: "start_env \<Rightarrow> (pass_env \<Rightarrow> manager \<Rightarrow> 'a \<times> manager) \<Rightarrow> 'a pod_pass" where
  "with_runtime e f = (\<lambda>(w, os).
     case os of
       [] \<Rightarrow> (None, w, [])
     | oc # os' \<Rightarrow>
         (let (r, m) = f \<lparr>rt = po_runtime oc, at = sv_at e, save_ok = sv_save_ok e\<rparr> (pw_m w)
          in (Some r, w\<lparr>pw_m := m\<rparr>, os')))"

definition check_known :: "start_env \<Rightarrow> json \<Rightarrow> sync_outcome pod_pass" where
  "check_known e pod =
     (let u = pod_uid pod in
      and_then (change (\<lambda>w. happened Checked_pod (with_record u (\<lambda>st. st\<lparr>ps_pod := pod\<rparr>) w))) (\<lambda>_.
      and_then (with_runtime e (\<lambda>pe. check_pod_status pe u)) (\<lambda>r.
      case r of
        Inr update \<Rightarrow> done_with (said update)
      | Inl _ \<Rightarrow> and_then (change (\<lambda>w. pod_due e u RECHECK (w\<lparr>pw_failed := True\<rparr>))) (\<lambda>_. done_with nothing_said))))"

definition start_succeeded :: "start_env \<Rightarrow> string \<Rightarrow> pod_world \<Rightarrow> pod_world" where
  "start_succeeded e u w =
     pod_due e u RECHECK (w\<lparr>pw_holdoff := None, pw_refusals := 0, pw_seen := None, pw_network_wait := None, pw_waiting := None\<rparr>)"

definition start_new :: "start_env \<Rightarrow> json \<Rightarrow> sync_outcome pod_pass" where
  "start_new e pod =
     (let u = pod_uid pod; t = now (sv_at e) in
      and_then (look pw_holdoff) (\<lambda>holdoff.
      case (case holdoff of Some x \<Rightarrow> if t < x then Some x else None | None \<Rightarrow> None) of
        Some x \<Rightarrow> and_then (change (on_deadlines (due_at u x))) (\<lambda>_. done_with nothing_said)
      | None \<Rightarrow>
          (case apparmor_refusal pod of
             Some why \<Rightarrow>
               done_with (said ((update_of pod ''Failed'' why [] [] None)\<lparr>pu_reason := APPARMOR_REASON\<rparr>))
           | None \<Rightarrow>
               and_then (change (\<lambda>w. w\<lparr>pw_seen := Some (case pw_seen w of Some x \<Rightarrow> x | None \<Rightarrow> t)\<rparr>)) (\<lambda>_.
               and_then (look pw_seen) (\<lambda>seen.
               and_then (start_pod e pod) (\<lambda>r.
               case r of
                 Inr update \<Rightarrow> and_then (change (start_succeeded e u)) (\<lambda>_. done_with (said update))
               | Inl err \<Rightarrow>
                   and_then (start_failed e pod (case seen of Some x \<Rightarrow> since x t | None \<Rightarrow> 0) err) (\<lambda>update.
                   done_with (said update))))))))"

text \<open>A start that failed half way is taken down first; whether that is done.\<close>
definition clean_up :: "start_env \<Rightarrow> string \<Rightarrow> bool pod_pass" where
  "clean_up e u =
     and_then (look (\<lambda>w. case record_of u w of Some st \<Rightarrow> ps_phase st = ''Cleanup'' | None \<Rightarrow> False)) (\<lambda>partial.
     if \<not> partial then done_with True
     else and_then (look (\<lambda>w. (pw_seen w, pw_waiting w))) (\<lambda>(seen, waiting).
          and_then (stop_pod_within e u None) (\<lambda>r.
          case r of
            Inl _ \<Rightarrow> and_then (change (pod_due e u RECHECK)) (\<lambda>_. done_with False)
          | Inr _ \<Rightarrow>
              and_then (change (\<lambda>w. w\<lparr>pw_seen := (case seen of None \<Rightarrow> pw_seen w | _ \<Rightarrow> seen),
                                     pw_waiting := (case waiting of None \<Rightarrow> pw_waiting w | _ \<Rightarrow> waiting)\<rparr>)) (\<lambda>_.
              done_with True))))"

text \<open>Terminal, and meant to be.\<close>
definition refused_before :: "json \<Rightarrow> bool" where
  "refused_before pod =
     (str_or ''Pending'' (jpath pod [''status'', ''phase'']) = ''Failed'' \<and> as_str (jpath pod [''status'', ''reason'']) = Some APPARMOR_REASON)"

definition ended_for_good :: "json \<Rightarrow> bool" where
  "ended_for_good pod =
     (str_or ''Pending'' (jpath pod [''status'', ''phase'']) \<in> {''Succeeded'', ''Failed''} \<and> pod_restart_policy pod \<noteq> ''Always'')"

definition is_deleted :: "json \<Rightarrow> bool" where
  "is_deleted pod = (jpath pod [''metadata'', ''deletionTimestamp''] \<noteq> JNull)"

definition assigned_here :: "start_env \<Rightarrow> json \<Rightarrow> bool" where
  "assigned_here e pod = (str_or [] (jpath pod [''spec'', ''nodeName'']) = sv_node e)"

definition sync_deleted :: "start_env \<Rightarrow> json \<Rightarrow> sync_outcome pod_pass" where
  "sync_deleted e pod =
     (let u = pod_uid pod in
      and_then (look (record_of u)) (\<lambda>known.
      if known = None then done_with \<lparr>so_updates = [], so_removed = True\<rparr>
      else and_then (stop_pod_within e u (Some (termination_grace pod))) (\<lambda>r.
           case r of
             Inl _ \<Rightarrow> and_then (change (\<lambda>w. w\<lparr>pw_failed := True\<rparr>)) (\<lambda>_. done_with nothing_said)
           | Inr _ \<Rightarrow> done_with \<lparr>so_updates = [], so_removed = True\<rparr>)))"

definition sync_pod :: "start_env \<Rightarrow> json \<Rightarrow> sync_outcome pod_pass" where
  "sync_pod e pod =
     (let u = pod_uid pod in
      if \<not> assigned_here e pod then done_with nothing_said
      else if is_deleted pod then sync_deleted e pod
      else if refused_before pod then done_with nothing_said
      else if ended_for_good pod
      then and_then (with_runtime e (\<lambda>pe m. ((), stop_finished_sandbox pe u m))) (\<lambda>_. done_with nothing_said)
      else and_then (clean_up e u) (\<lambda>clean.
           if \<not> clean then done_with nothing_said
           else and_then (look (record_of u)) (\<lambda>known.
                if (case known of Some st \<Rightarrow> ps_phase st \<noteq> ''Starting'' | None \<Rightarrow> False)
                then check_known e pod else start_new e pod)))"

section \<open>The kubelet\<close>

text \<open>\<open>reconcile\<close> of a pod, its claims reserved. A deletion is acknowledged (the API server's object is
  deleted) once the pod is stopped; an object without a spec is never started. A true answer is an
  acknowledged deletion.\<close>
definition reconcile_pod :: "start_env \<Rightarrow> string \<Rightarrow> json option \<Rightarrow> (cri_error + bool) pod_pass" where
  "reconcile_pod e u desired =
     (case desired of
        None \<Rightarrow> if_ok (stop_pod_within e u None) (\<lambda>_. done_with (Inr True))
      | Some pod \<Rightarrow>
          if is_deleted pod
          then if_ok (stop_pod_within e u (Some (termination_grace pod))) (\<lambda>_. if_ok told (\<lambda>_. done_with (Inr True)))
          else if jget pod ''spec'' = JNull then done_with (Inr False)
          else and_then (sync_pod e pod) (\<lambda>_. done_with (Inr False)))"

text \<open>A sandbox the runtime lists when the kubelet starts, its containers' names and identities, its address.\<close>
record found_sandbox =
  fs_id :: string
  fs_uid :: string
  fs_namespace :: string
  fs_name :: string
  fs_containers :: "cri_error + (string \<times> string) list"
  fs_ip :: "cri_error + string"

definition adopted :: "found_sandbox \<Rightarrow> (string \<times> string) list \<Rightarrow> pod_state" where
  "adopted f cs =
     (new_record JNull (fs_id f))\<lparr>ps_namespace := fs_namespace f, ps_name := fs_name f, ps_uid := fs_uid f,
        container_ids := fold (\<lambda>(n, c). if n = [] then (\<lambda>ids. ids) else AList.update n c) cs [],
        ps_phase := ''Running'',
        ps_pod_ip := (case fs_ip f of Inr ip \<Rightarrow> if ip = [] then None else Some ip | Inl _ \<Rightarrow> None)\<rparr>"

fun recover_state :: "found_sandbox list \<Rightarrow> (string \<Rightarrow> pod_state option) \<Rightarrow> cri_error option \<times> (string \<Rightarrow> pod_state option)" where
  "recover_state [] pods = (None, pods)"
| "recover_state (f # fs) pods =
     (if fs_uid f = [] then recover_state fs pods
      else case fs_containers f of
             Inl err \<Rightarrow> (Some err, pods)
           | Inr cs \<Rightarrow>
               recover_state fs (if pods (fs_uid f) = None then pods(fs_uid f \<mapsto> adopted f cs) else pods))"

end
