(* ===== verification/PodStartSafety.thy ===== *)
theory PodStartSafety
  imports PodStart PodPass
begin

text \<open>What holds after every call of a pass over a pod that starts, runs or stops: no container of the pod
  is made before its init containers are done in the same sandbox, and every sandbox the runtime told of is
  on the record until it is removed. Both are statements about what a pass shows (\<open>shown\<close>): its trace,
  the runtime's sandboxes, and three fields of the record.\<close>

section \<open>What a pass shows\<close>

record shown =
  sh_trace :: "start_event list"
  sh_boxes :: "string list"
  sh_lost :: bool
  sh_core :: "(string \<times> init_report list \<times> string option) option"

definition core_of :: "pod_state \<Rightarrow> string \<times> init_report list \<times> string option" where
  "core_of st = (ps_phase st, init_statuses st, sandbox_id st)"

definition shown_of :: "string \<Rightarrow> pod_world \<Rightarrow> shown" where
  "shown_of u w = \<lparr>sh_trace = pw_trace w, sh_boxes = pw_boxes w, sh_lost = pw_lost w, sh_core = map_option core_of (record_of u w)\<rparr>"

lemma shown_simps [simp]:
  "shown_of u (log_calls cs w) = shown_of u w"
  "shown_of u (on_deadlines f w) = shown_of u w"
  "shown_of u (pod_due e u' d w) = shown_of u w"
  "shown_of u (w\<lparr>pw_kept := k\<rparr>) = shown_of u w" "shown_of u (w\<lparr>pw_seen := s\<rparr>) = shown_of u w"
  "shown_of u (w\<lparr>pw_network_wait := nw\<rparr>) = shown_of u w" "shown_of u (w\<lparr>pw_waiting := wt\<rparr>) = shown_of u w"
  "shown_of u (w\<lparr>pw_holdoff := h\<rparr>) = shown_of u w" "shown_of u (w\<lparr>pw_refusals := rf\<rparr>) = shown_of u w"
  "shown_of u (w\<lparr>pw_event_wait := b\<rparr>) = shown_of u w" "shown_of u (w\<lparr>pw_failed := b\<rparr>) = shown_of u w"
  "shown_of u (w\<lparr>pw_made := k'\<rparr>) = shown_of u w"
  "shown_of u (w\<lparr>pw_m := (pw_m w)\<lparr>m_backoff := bo\<rparr>\<rparr>) = shown_of u w"
  "shown_of u (w\<lparr>pw_m := (pw_m w)\<lparr>m_last_terminated := lt\<rparr>\<rparr>) = shown_of u w"
  "shown_of u (set_waiting kd rs w) = shown_of u w"
  by (simp_all add: shown_of_def record_of_def log_calls_def on_deadlines_def pod_due_def set_waiting_def)

lemma record_simps [simp]:
  "record_of u (put_record u st w) = st" "u' \<noteq> u \<Longrightarrow> record_of u (put_record u' st w) = record_of u w"
  by (simp_all add: record_of_def put_record_def)

lemma put_record_fields [simp]:
  "pw_trace (put_record u st w) = pw_trace w" "pw_boxes (put_record u st w) = pw_boxes w" "pw_lost (put_record u st w) = pw_lost w"
  by (simp_all add: put_record_def)

lemma shown_put: "shown_of u (put_record u st w) = (shown_of u w)\<lparr>sh_core := map_option core_of st\<rparr>"
  by (simp add: shown_of_def)

lemma shown_with_record: "(\<And>st. core_of (f st) = core_of st) \<Longrightarrow> shown_of u (with_record u' f w) = shown_of u w"
  by (cases "u' = u") (auto simp: with_record_def shown_of_def split: option.split)

lemma shown_retry [simp]: "shown_of u (retry_wait e u' d w) = shown_of u w"
  by (simp add: retry_wait_def)

lemma shown_hold_off [simp]: "shown_of u (hold_off e u' d w) = shown_of u w"
  by (simp add: hold_off_def)

section \<open>Quiet computations\<close>

text \<open>A computation that leaves \<open>g\<close> of the world as it is.\<close>
definition keeps_view :: "(pod_world \<Rightarrow> 'b) \<Rightarrow> 'a pod_pass \<Rightarrow> bool" where
  "keeps_view g m = (\<forall>w os. g (fst (snd (m (w, os)))) = g w)"

abbreviation hushed :: "string \<Rightarrow> 'a pod_pass \<Rightarrow> bool" where
  "hushed u \<equiv> keeps_view (shown_of u)"

lemma hushed_done [simp, intro]: "keeps_view g (done_with x)"
  by (simp add: keeps_view_def done_with_def)

lemma hushed_look [simp, intro]: "keeps_view g (look f)"
  by (simp add: keeps_view_def look_def)

lemma hushed_change: "(\<And>w. g (f w) = g w) \<Longrightarrow> keeps_view g (change f)"
  by (simp add: keeps_view_def change_def)

lemma hushed_then:
  assumes "keeps_view g m" "\<And>x. keeps_view g (f x)"
  shows "keeps_view g (and_then m f)"
  unfolding keeps_view_def
proof (intro allI)
  fix w os
  obtain r w' os' where m: "m (w, os) = (r, w', os')" by (cases "m (w, os)") auto
  then have "g w' = g w" using assms(1) by (metis keeps_view_def fst_conv snd_conv)
  moreover have "g (fst (snd (f x (w', os')))) = g w'" for x using assms(2) by (simp add: keeps_view_def)
  ultimately show "g (fst (snd (and_then m f (w, os)))) = g w" by (simp add: and_then_def m split: option.split)
qed

lemma hushed_if_ok: "\<lbrakk>keeps_view g m; \<And>x. keeps_view g (f x)\<rbrakk> \<Longrightarrow> keeps_view g (if_ok m f)"
  unfolding if_ok_def by (rule hushed_then) (auto split: sum.split)

lemma hushed_asks:
  "\<lbrakk>\<And>oc w. g (effect oc w) = g w; \<And>w. g (log_calls cs w) = g w\<rbrakk> \<Longrightarrow> keeps_view g (asks cs effect answer)"
  by (simp add: keeps_view_def asks_def Let_def split: list.split)

lemma hushed_calls [simp, intro]:
  "hushed u told" "hushed u (told_as g)" "hushed u (start_container c)" "hushed u (stop_container c gr)" "hushed u (remove_container c)"
  "hushed u startup_image" "hushed u (stop_pod_sandbox b)"
  by (auto simp: told_def told_as_def start_container_def stop_container_def remove_container_def startup_image_def
      stop_pod_sandbox_def intro!: hushed_asks hushed_then)

lemma hushed_ignoring [simp, intro]: "keeps_view g m \<Longrightarrow> keeps_view g (ignoring m)"
  by (simp add: ignoring_def hushed_then)

lemma hushed_gone_ok [simp, intro]: "keeps_view g m \<Longrightarrow> keeps_view g (gone_ok m)"
  by (simp add: gone_ok_def hushed_then)

section \<open>The rules\<close>

abbreviation runs :: "(shown \<Rightarrow> bool) \<Rightarrow> string \<Rightarrow> (shown \<Rightarrow> bool) \<Rightarrow> 'a pod_pass \<Rightarrow> ('a \<Rightarrow> shown \<Rightarrow> bool) \<Rightarrow> bool" where
  "runs G u P m Q \<equiv> upholds (\<lambda>w. G (shown_of u w)) (\<lambda>w. P (shown_of u w)) m (\<lambda>r w. Q r (shown_of u w))"

lemma runs_quiet: "hushed u m \<Longrightarrow> runs G u P m (\<lambda>_. P)"
  unfolding upholds_def keeps_view_def
  by (smt (verit) case_prodI2 fst_conv option.case_eq_if snd_conv)

lemma runs_if_ok:
  assumes "runs G u P m (\<lambda>r v. case r of Inl x \<Rightarrow> R (Inl x) v | Inr y \<Rightarrow> Q y v)" "\<And>y. runs G u (Q y) (f y) R"
  shows "runs G u P (if_ok m f) R"
  unfolding if_ok_def
proof (rule upholds_then [OF assms(1)])
  fix r
  show "runs G u (\<lambda>v. case r of Inl x \<Rightarrow> R (Inl x) v | Inr y \<Rightarrow> Q y v) (case r of Inl x \<Rightarrow> done_with (Inl x) | Inr x \<Rightarrow> f x) R"
    by (cases r) (auto intro: upholds_done assms(2))
qed

lemma runs_quiet_if_ok:
  assumes "hushed u m" "\<And>x v. P v \<Longrightarrow> R (Inl x) v" "\<And>y. runs G u P (f y) R"
  shows "runs G u P (if_ok m f) R"
  by (rule runs_if_ok [where Q = "\<lambda>_. P"])
     (rule upholds_post [OF runs_quiet [OF assms(1)]], use assms(2,3) in \<open>auto split: sum.split\<close>)

lemma runs_quiet_then: "\<lbrakk>hushed u m; \<And>y. runs G u P (f y) R\<rbrakk> \<Longrightarrow> runs G u P (and_then m f) R"
  by (rule upholds_then [OF runs_quiet]) auto

lemma runs_change:
  "(\<And>w. G (shown_of u w) \<Longrightarrow> P (shown_of u w) \<Longrightarrow> G (shown_of u (f w)) \<and> Q () (shown_of u (f w))) \<Longrightarrow> runs G u P (change f) Q"
  by (rule upholds_change)

lemma runs_asks:
  assumes "\<And>oc w. G (shown_of u w) \<Longrightarrow> P (shown_of u w) \<Longrightarrow> G (shown_of u (effect oc w)) \<and>
      (\<not> oc_ok oc \<longrightarrow> (\<forall>x. Q (Inl x) (shown_of u (effect oc w)))) \<and>
      (oc_ok oc \<longrightarrow> Q (Inr (answer oc (effect oc w))) (shown_of u (effect oc w)))"
    and "\<And>v x. P v \<Longrightarrow> Q (Inl x) v"
  shows "runs G u P (asks cs effect answer) Q"
  unfolding upholds_def
proof (intro allI impI)
  fix w os assume w: "G (shown_of u w)" "P (shown_of u w)"
  show "case asks cs effect answer (w, os) of (Some x, w', os') \<Rightarrow> G (shown_of u w') \<and> Q x (shown_of u w') | (None, w', os') \<Rightarrow> G (shown_of u w')"
  proof (cases os)
    case (Cons oc os')
    have l: "G (shown_of u (log_calls cs w))" "P (shown_of u (log_calls cs w))" using w by simp_all
    show ?thesis using assms(1) [OF l, of oc] assms(2) [OF l(2)] l Cons by (auto simp: asks_def Let_def)
  qed (use w in \<open>simp add: asks_def\<close>)
qed

section \<open>Init containers before the others\<close>

definition since_box :: "start_event list \<Rightarrow> start_event list" where
  "since_box tr = takeWhile (\<lambda>ev. ev \<noteq> Ran_box) tr"

text \<open>In the present sandbox: the runtime said that it exited well, that it runs.\<close>
definition done_in :: "start_event list \<Rightarrow> string \<Rightarrow> bool" where
  "done_in tr n = (\<exists>s. Looked n s \<in> set (since_box tr) \<and> si_state s = Exited \<and> si_exit_code s = 0)"

definition up_in :: "start_event list \<Rightarrow> string \<Rightarrow> bool" where
  "up_in tr n = (\<exists>s. Looked n s \<in> set (since_box tr) \<and> si_state s = Running)"

definition spec_done :: "start_event list \<Rightarrow> json \<Rightarrow> bool" where
  "spec_done tr c = (if is_restartable_init c then up_in tr (init_name c) else done_in tr (init_name c))"

definition inits_done :: "json list \<Rightarrow> start_event list \<Rightarrow> bool" where
  "inits_done cs tr = (\<forall>c \<in> set cs. spec_done tr c)"

text \<open>In a trace, latest event first: a container that is no init container was made, or the pod was taken
  to be started, when all init containers were done.\<close>
fun apps_wait :: "json list \<Rightarrow> start_event list \<Rightarrow> bool" where
  "apps_wait cs [] = True"
| "apps_wait cs (ev # tr) =
     (apps_wait cs tr \<and>
      (case ev of Made n \<Rightarrow> n \<in> init_name ` set cs \<or> inits_done cs tr | Checked_pod \<Rightarrow> inits_done cs tr | _ \<Rightarrow> True))"

lemma since_box_cons: "ev \<noteq> Ran_box \<Longrightarrow> since_box (ev # tr) = ev # since_box tr"
  by (simp add: since_box_def)

lemma done_grow: "ev \<noteq> Ran_box \<Longrightarrow> done_in tr n \<Longrightarrow> done_in (ev # tr) n"
  by (auto simp: done_in_def since_box_cons)

lemma up_grow: "ev \<noteq> Ran_box \<Longrightarrow> up_in tr n \<Longrightarrow> up_in (ev # tr) n"
  by (auto simp: up_in_def since_box_cons)

lemma inits_grow: "ev \<noteq> Ran_box \<Longrightarrow> inits_done cs tr \<Longrightarrow> inits_done cs (ev # tr)"
  by (auto simp: inits_done_def spec_done_def done_grow up_grow)

lemmas done_grows = done_grow up_grow inits_grow

text \<open>A report of success is of an ordinary init container that is done.\<close>
definition reports_ok :: "json list \<Rightarrow> start_event list \<Rightarrow> init_report list \<Rightarrow> bool" where
  "reports_ok cs tr out =
     (\<forall>r \<in> set out. succeeded r \<longrightarrow>
        done_in tr (ir_name r) \<and> (\<exists>c \<in> set cs. \<not> is_restartable_init c \<and> init_name c = ir_name r))"

lemma reports_grow: "ev \<noteq> Ran_box \<Longrightarrow> reports_ok cs tr out \<Longrightarrow> reports_ok cs (ev # tr) out"
  by (auto simp: reports_ok_def done_grows)

section \<open>The invariant\<close>

text \<open>With \<open>fresh\<close>, the kubelet has not been restarted since the pod came.\<close>
definition pod_good :: "bool \<Rightarrow> json list \<Rightarrow> shown \<Rightarrow> bool" where
  "pod_good fresh cs v =
     ((fresh \<longrightarrow> apps_wait cs (sh_trace v) \<and>
        (\<forall>ph out b. sh_core v = Some (ph, out, b) \<longrightarrow>
           (ph = ''Starting'' \<longrightarrow> reports_ok cs (sh_trace v) out) \<and>
           (ph \<noteq> ''Starting'' \<longrightarrow> ph \<noteq> ''Cleanup'' \<longrightarrow> inits_done cs (sh_trace v)))) \<and>
      (\<not> sh_lost v \<longrightarrow>
        (\<forall>b \<in> set (sh_boxes v). \<exists>ph out. sh_core v = Some (ph, out, Some b)) \<and>
        (\<forall>bs. Unpublished bs \<in> set (sh_trace v) \<longrightarrow> bs = [])) \<and>
      (\<forall>ph out sb. sh_core v = Some (ph, out, sb) \<longrightarrow> sb \<noteq> None))"

text \<open>While a pod starts in sandbox \<open>b\<close>: the init containers \<open>ds\<close> are done and the reports are right.\<close>
definition starting :: "bool \<Rightarrow> json list \<Rightarrow> json list \<Rightarrow> init_report list \<Rightarrow> string \<Rightarrow> shown \<Rightarrow> bool" where
  "starting fresh cs ds out b v =
     ((fresh \<longrightarrow> inits_done ds (sh_trace v) \<and> reports_ok cs (sh_trace v) out) \<and> (\<not> sh_lost v \<longrightarrow> set (sh_boxes v) \<subseteq> {b}))"

text \<open>An event other than a new sandbox.\<close>
definition with_event :: "start_event \<Rightarrow> shown \<Rightarrow> shown" where
  "with_event ev v = v\<lparr>sh_trace := ev # sh_trace v\<rparr>"

lemma shown_happened: "shown_of u (happened ev w) = with_event ev (shown_of u w)"
  by (simp add: shown_of_def happened_def with_event_def record_of_def)

lemma good_event:
  assumes "pod_good fresh cs v" "ev \<noteq> Ran_box" "\<And>bs. ev = Unpublished bs \<Longrightarrow> \<not> sh_lost v \<Longrightarrow> bs = []"
    "\<And>n. fresh \<Longrightarrow> ev = Made n \<Longrightarrow> n \<in> init_name ` set cs \<or> inits_done cs (sh_trace v)"
    "fresh \<Longrightarrow> ev = Checked_pod \<Longrightarrow> inits_done cs (sh_trace v)"
  shows "pod_good fresh cs (with_event ev v)"
  using assms unfolding pod_good_def with_event_def
  by (auto simp: done_grows reports_grow split: start_event.split)

lemma starting_event: "\<lbrakk>starting fresh cs ds out b v; ev \<noteq> Ran_box\<rbrakk> \<Longrightarrow> starting fresh cs ds out b (with_event ev v)"
  by (auto simp: starting_def with_event_def done_grows reports_grow)

lemma starting_out:
  "\<lbrakk>starting fresh cs ds out b v; fresh \<Longrightarrow> reports_ok cs (sh_trace v) out \<Longrightarrow> reports_ok cs (sh_trace v) out'\<rbrakk> \<Longrightarrow>
   starting fresh cs ds out' b v"
  by (auto simp: starting_def)

lemma starting_fewer: "starting fresh cs (ds @ [c]) out b v \<Longrightarrow> starting fresh cs ds out b v"
  by (auto simp: starting_def inits_done_def)

lemma runs_status:
  assumes "\<And>v x. P v \<Longrightarrow> Q (Inl x) v"
    and "\<And>v s. P v \<Longrightarrow> Q (Inr s) (with_event (Looked n s) v)"
  shows "runs (pod_good fresh cs) u P (container_status n cid) Q"
  unfolding container_status_def
  by (rule runs_asks) (use assms in \<open>auto simp: shown_happened intro: good_event\<close>)

lemma runs_create:
  assumes "\<And>v. P v \<Longrightarrow> fresh \<Longrightarrow> n \<in> init_name ` set cs \<or> inits_done cs (sh_trace v)"
    and "\<And>v. P v \<Longrightarrow> P (with_event (Made n) v)"
  shows "runs (pod_good fresh cs) u P (create_container n) (\<lambda>_. P)"
  unfolding create_container_def
  by (rule runs_asks) (use assms in \<open>auto simp: shown_happened intro!: good_event\<close>)

lemma good_inits:
  assumes "pod_good fresh cs v" "starting fresh cs ds out b v" "sh_core v = Some (ph, out0, sb)"
  shows "pod_good fresh cs (v\<lparr>sh_core := Some (ph, out, sb)\<rparr>)"
  using assms unfolding pod_good_def starting_def by auto

lemma starting_core: "starting fresh cs ds out b (v\<lparr>sh_core := c\<rparr>) = starting fresh cs ds out b v"
  by (simp add: starting_def)

lemma runs_set_inits:
  "runs (pod_good fresh cs) u (starting fresh cs ds out b) (change (set_inits u out)) (\<lambda>_. starting fresh cs ds out b)"
proof (rule runs_change)
  fix w assume w: "pod_good fresh cs (shown_of u w)" "starting fresh cs ds out b (shown_of u w)"
  show "pod_good fresh cs (shown_of u (set_inits u out w)) \<and> starting fresh cs ds out b (shown_of u (set_inits u out w))"
  proof (cases "record_of u w")
    case None
    then show ?thesis using w by (simp add: set_inits_def with_record_def)
  next
    case (Some st)
    then have c: "sh_core (shown_of u w) = Some (ps_phase st, init_statuses st, sandbox_id st)"
      by (simp add: shown_of_def core_of_def)
    have "shown_of u (set_inits u out w) = (shown_of u w)\<lparr>sh_core := Some (ps_phase st, out, sandbox_id st)\<rparr>"
      by (simp add: set_inits_def with_record_def Some shown_put core_of_def)
    then show ?thesis using good_inits [OF w c] w(2) by (simp add: starting_core)
  qed
qed

section \<open>The init containers\<close>

lemma reports_add:
  "\<lbrakk>reports_ok cs tr out; succeeded r \<Longrightarrow> done_in tr (ir_name r) \<and> (\<exists>c \<in> set cs. \<not> is_restartable_init c \<and> init_name c = ir_name r);
    set out' \<subseteq> insert r (set out)\<rbrakk> \<Longrightarrow> reports_ok cs tr out'"
  by (auto simp: reports_ok_def)

lemma set_update_first: "set (update_first Q (\<lambda>_. r) xs) \<subseteq> insert r (set xs)"
  by (induction xs) auto

lemma set_put_report: "set (put_report r out) \<subseteq> insert r (set out)"
  using set_update_first [of "\<lambda>x. ir_name x = ir_name r" r out] by (auto simp: put_report_def)

lemma runs_record_init:
  assumes "\<not> succeeded r"
  shows "runs (pod_good fresh cs) u (starting fresh cs ds out b) (record_init u out r) (\<lambda>out'. starting fresh cs ds out' b)"
  unfolding record_init_def
proof (rule upholds_then)
  show "runs (pod_good fresh cs) u (starting fresh cs ds out b) (change (set_inits u (put_report r out)))
      (\<lambda>_. starting fresh cs ds (put_report r out) b)"
    by (rule upholds_pre [OF runs_set_inits]) (erule starting_out, rule reports_add, use assms set_put_report in auto)
qed (rule upholds_done, simp)

text \<open>Where an init container's step leaves the start.\<close>
definition stepped :: "bool \<Rightarrow> json list \<Rightarrow> json list \<Rightarrow> json \<Rightarrow> string \<Rightarrow> init_end \<Rightarrow> shown \<Rightarrow> bool" where
  "stepped fresh cs ds spec b r v = starting fresh cs (if snd r = None then ds @ [spec] else ds) (fst r) b v"

lemma stepped_stop: "runs G u (starting fresh cs ds out b) (done_with (out, Some err)) (stepped fresh cs ds spec b)"
  by (rule upholds_done) (simp add: stepped_def)

lemma stepped_go: "runs G u (starting fresh cs (ds @ [spec]) out b) (done_with (out, None)) (stepped fresh cs ds spec b)"
  by (rule upholds_done) (simp add: stepped_def)

lemma hushed_note [simp, intro]:
  "hushed u (change (with_record u' (\<lambda>st. st\<lparr>container_ids := ids st\<rparr>)))"
  "hushed u (change (with_record u' (\<lambda>st. st\<lparr>ps_started := x st\<rparr>)))"
  "hushed u (change (with_record u' (\<lambda>st. st\<lparr>startup_passed := y st\<rparr>)))"
  "hushed u (change (pod_due e u' d))"
  by (auto intro!: hushed_change shown_with_record simp: core_of_def)

lemma runs_sidecar_exited:
  "runs (pod_good fresh cs) u (starting fresh cs ds out b)
     (sidecar_exited e u n cid s rep out) (stepped fresh cs ds spec b)"
  unfolding sidecar_exited_def
  apply (rule runs_quiet_then, blast)
  apply (rule runs_quiet_then, blast)
  apply (rule runs_quiet_then, rule hushed_change, rule shown_with_record, simp add: core_of_def)
  apply (rule runs_quiet_then, rule hushed_change, simp add: Let_def split: option.split)
  apply (rule upholds_then, rule runs_record_init, simp add: succeeded_def)
  apply (rule stepped_stop)
  done

lemma hushed_sidecar_probe [simp, intro]: "hushed u (sidecar_probe u n spec)"
  unfolding sidecar_probe_def by (auto intro!: hushed_then hushed_asks)

lemma runs_sidecar_running:
  "runs (pod_good fresh cs) u (starting fresh cs (ds @ [spec]) out b) (sidecar_running e u n spec rep out) (stepped fresh cs ds spec b)"
  unfolding sidecar_running_def
proof (rule runs_quiet_then [OF hushed_sidecar_probe])
  fix passed
  let ?P = "starting fresh cs (ds @ [spec]) out b"
  have go: "runs (pod_good fresh cs) u ?P (record_init u out (rep\<lparr>ir_state := ''running'', ir_started := x, ir_ready := y\<rparr>))
      (\<lambda>out'. starting fresh cs (ds @ [spec]) out' b)" for x y
    by (rule runs_record_init) (simp add: succeeded_def)
  have no: "runs (pod_good fresh cs) u ?P (record_init u out (rep\<lparr>ir_state := ''running''\<rparr>))
      (\<lambda>out'. starting fresh cs (ds @ [spec]) out' b)"
    by (rule runs_record_init) (simp add: succeeded_def)
  have stop: "runs (pod_good fresh cs) u (starting fresh cs (ds @ [spec]) out' b) (done_with (out', Some x)) (stepped fresh cs ds spec b)" for out' x
    by (rule upholds_done) (auto simp: stepped_def intro: starting_fewer)
  show "runs (pod_good fresh cs) u ?P
     (if \<not> passed
      then and_then (record_init u out (rep\<lparr>ir_state := ''running''\<rparr>)) (\<lambda>out'.
           and_then (change (pod_due e u (period (jget spec ''startupProbe'')))) (\<lambda>_.
           done_with (out', Some (Pending (''sidecar '' @ n @ '': waiting for its startupProbe'')))))
      else and_then (record_init u out (rep\<lparr>ir_state := ''running'', ir_started := True,
             ir_ready := (is_null (jget spec ''readinessProbe'') \<or> (\<exists>r \<in> set out. ir_name r = n \<and> ir_ready r))\<rparr>)) (\<lambda>out'.
           done_with (out', None))) (stepped fresh cs ds spec b)"
    by (rule upholds_if)
       (rule upholds_then [OF no], rule runs_quiet_then, blast, rule stop, rule upholds_then [OF go], rule stepped_go)
qed

text \<open>What a look at an init container tells.\<close>
definition seen_done :: "json \<Rightarrow> container_status_info \<Rightarrow> bool" where
  "seen_done spec s = (if is_restartable_init spec then si_state s = Running else si_state s = Exited \<and> si_exit_code s = 0)"

lemma runs_look_at:
  "runs (pod_good fresh cs) u (starting fresh cs ds out b) (container_status (init_name spec) cid)
     (\<lambda>r. case r of Inl _ \<Rightarrow> starting fresh cs ds out b | Inr s \<Rightarrow> starting fresh cs (if seen_done spec s then ds @ [spec] else ds) out b)"
proof (rule runs_status)
  fix v s assume v: "starting fresh cs ds out b v"
  have "starting fresh cs ds out b (with_event (Looked (init_name spec) s) v)" by (rule starting_event [OF v]) simp
  then show "(case Inr s of Inl _ \<Rightarrow> starting fresh cs ds out b | Inr s \<Rightarrow> starting fresh cs (if seen_done spec s then ds @ [spec] else ds) out b)
      (with_event (Looked (init_name spec) s) v)"
    by (auto simp: starting_def inits_done_def spec_done_def seen_done_def with_event_def done_in_def up_in_def since_box_cons)
qed simp

lemma runs_sidecar:
  assumes "is_restartable_init spec"
  shows "runs (pod_good fresh cs) u (starting fresh cs ds out b) (sidecar_step e u spec cid img_ref out) (stepped fresh cs ds spec b)"
  unfolding sidecar_step_def Let_def
proof (rule runs_quiet_then [OF hushed_look], rule upholds_then [OF runs_look_at], goal_cases)
  case (1 count r)
  show ?case
  proof (cases r)
    case (Inl err)
    then show ?thesis by (simp add: stepped_stop)
  next
    case (Inr s)
    have other: "runs (pod_good fresh cs) u (starting fresh cs ds out b)
        (and_then (record_init u out (rep\<lparr>ir_state := ''running''\<rparr>)) (\<lambda>out'. and_then (change (pod_due e u RECHECK)) (\<lambda>_. done_with (out', Some x))))
        (stepped fresh cs ds spec b)" for rep x
      by (rule upholds_then, rule runs_record_init, simp add: succeeded_def, rule runs_quiet_then, blast, rule stepped_stop)
    show ?thesis
    proof (cases "si_state s")
      case Running
      then show ?thesis using assms runs_sidecar_running by (simp add: Inr seen_done_def)
    next
      case Exited
      then show ?thesis using assms runs_sidecar_exited by (simp add: Inr seen_done_def)
    qed (use assms other [where rep = "(new_init_report spec cid img_ref [] 0 [] [] (si_started_at s) 0)
             \<lparr>ir_restartable := True, ir_restart_count := count\<rparr>"] in \<open>simp_all add: Inr seen_done_def\<close>)
  qed
qed

lemma runs_init_exited:
  assumes "spec \<in> set cs" "\<not> is_restartable_init spec" "si_state s = Exited"
  shows "runs (pod_good fresh cs) u (starting fresh cs (if seen_done spec s then ds @ [spec] else ds) out b)
     (init_exited e u spec cid img_ref s out) (stepped fresh cs ds spec b)"
proof (cases "si_exit_code s = 0")
  case False
  let ?r = "new_init_report spec cid img_ref ''terminated'' (si_exit_code s) ''Error'' (si_message s) (si_started_at s) (si_finished_at s)"
  have more: "starting fresh cs ds out b v \<Longrightarrow> starting fresh cs ds (out @ [?r]) b v" for v
    using False by (elim starting_out, elim reports_add [where r = ?r]) (auto simp: succeeded_def new_init_report_def)
  show ?thesis
    unfolding init_exited_def
    by (simp add: False seen_done_def assms(2), rule runs_quiet_then, blast, rule upholds_done)
       (simp add: stepped_def more)
next
  case True
  let ?r = "new_init_report spec cid img_ref ''terminated'' 0 ''Completed'' [] (si_started_at s) (si_finished_at s)"
  have more: "starting fresh cs (ds @ [spec]) (out @ [?r]) b v" if v: "starting fresh cs (ds @ [spec]) out b v" for v
  proof (rule starting_out [OF v])
    assume f: "fresh" and ok: "reports_ok cs (sh_trace v) out"
    have "done_in (sh_trace v) (init_name spec)" using v f assms(2) by (simp add: starting_def inits_done_def spec_done_def)
    then show "reports_ok cs (sh_trace v) (out @ [?r])"
      using assms(1,2) by (intro reports_add [OF ok, of ?r]) (auto simp: new_init_report_def)
  qed
  have keep: "hushed u (if sv_logs_survive e then ignoring (remove_container cid) else change (\<lambda>w. w\<lparr>pw_kept := pw_kept w @ [cid]\<rparr>))"
    by (auto intro: hushed_change)
  have "runs (pod_good fresh cs) u (starting fresh cs (ds @ [spec]) out b)
     (and_then (change (set_inits u (out @ [?r]))) (\<lambda>_.
      and_then (if sv_logs_survive e then ignoring (remove_container cid) else change (\<lambda>w. w\<lparr>pw_kept := pw_kept w @ [cid]\<rparr>)) (\<lambda>_.
      done_with (out @ [?r], None)))) (stepped fresh cs ds spec b)"
    by (rule upholds_then, rule upholds_pre [OF runs_set_inits], erule more, rule runs_quiet_then [OF keep], rule stepped_go)
  then show ?thesis unfolding init_exited_def Let_def by (simp add: True seen_done_def assms(2,3) split del: if_split)
qed

lemma runs_init_overdue:
  "runs (pod_good fresh cs) u (starting fresh cs ds out b) (init_overdue pod spec cid img_ref s out) (stepped fresh cs ds spec b)"
  unfolding init_overdue_def Let_def
  apply (rule runs_quiet_then, blast)
  apply (rule runs_quiet_then, blast)
  apply (rule upholds_done)
  apply (simp add: stepped_def)
  apply (erule starting_out)
  apply (erule reports_add [where r = "new_init_report _ _ _ _ (- 1) _ _ _ _"])
   apply (simp add: succeeded_def new_init_report_def)
  apply auto
  done

lemma runs_wait_init:
  assumes "spec \<in> set cs" "\<not> is_restartable_init spec" "u = pod_uid pod"
  shows "runs (pod_good fresh cs) u (starting fresh cs ds out b) (wait_init e pod spec cid img_ref out) (stepped fresh cs ds spec b)"
  unfolding wait_init_def
proof (rule upholds_then [OF runs_look_at [where spec = spec]], goal_cases)
  case (1 r)
  show ?case
  proof (cases r)
    case (Inl err)
    then show ?thesis by (simp add: stepped_stop)
  next
    case (Inr s)
    show ?thesis
    proof (cases "si_state s = Exited")
      case True
      then show ?thesis using runs_init_exited [OF assms(1,2)] by (simp add: Inr assms(3))
    next
      case False
      then have no: "\<not> seen_done spec s" using assms(2) by (simp add: seen_done_def)
      have waits: "runs (pod_good fresh cs) u (starting fresh cs ds out b) (init_waits e u spec left out) (stepped fresh cs ds spec b)" for left
        unfolding init_waits_def
        by (rule runs_quiet_then, rule hushed_change, simp split: option.split, rule stepped_stop)
      have "runs (pod_good fresh cs) u (starting fresh cs ds out b)
          (and_then (look (\<lambda>w. active_deadline_left (sv_active_since e) pod (pw_seen w) (now (sv_at e)))) (\<lambda>left.
              if left = Some 0 then init_overdue pod spec cid img_ref s out else init_waits e u spec left out)) (stepped fresh cs ds spec b)"
        by (rule runs_quiet_then [OF hushed_look], rule upholds_if, rule runs_init_overdue, rule waits)
      then show ?thesis using False no unfolding assms(3) [symmetric] by (simp add: Inr)
    qed
  qed
qed

lemma runs_init_container:
  assumes "init_name spec \<in> init_name ` set cs"
  shows "runs (pod_good fresh cs) u (starting fresh cs ds out b) (init_container e u (init_name spec) existing) (\<lambda>_. starting fresh cs ds out b)"
proof (cases existing)
  case (Some c)
  then show ?thesis by (simp add: init_container_def upholds_done)
next
  case None
  let ?P = "starting fresh cs ds out b"
  have "runs (pod_good fresh cs) u ?P (create_container (init_name spec)) (\<lambda>_. ?P)"
    by (rule runs_create) (use assms in \<open>auto intro: starting_event\<close>)
  then have c: "runs (pod_good fresh cs) u ?P (create_container (init_name spec)) (\<lambda>r v. case r of Inl x \<Rightarrow> ?P v | Inr y \<Rightarrow> ?P v)"
    by (rule upholds_post) (auto split: sum.split)
  show ?thesis
    unfolding init_container_def None option.case
    apply (rule runs_if_ok [where Q = "\<lambda>_. ?P"])
     apply (rule c)
    apply (rule runs_quiet_then, rule hushed_note)
    apply (rule runs_quiet_if_ok, blast, assumption)
    apply (rule runs_quiet_then, rule hushed_note)
    apply (rule upholds_done, assumption)
    done
qed

lemma runs_run_init:
  assumes "spec \<in> set cs" "u = pod_uid pod"
  shows "runs (pod_good fresh cs) u (starting fresh cs ds out b) (run_init e pod spec out) (stepped fresh cs ds spec b)"
  unfolding run_init_def Let_def assms(2) [symmetric]
proof (rule runs_quiet_then [OF hushed_look], rule runs_quiet_then [OF hushed_look], goal_cases)
  case (1 existing backing)
  show ?case
  proof (cases backing)
    case (Some left)
    then show ?thesis by (simp, intro runs_quiet_then stepped_stop) blast
  next
    case None
    show ?thesis
      unfolding None option.case
    proof (rule runs_quiet_then, blast, goal_cases)
      case (1 img)
      show ?case
      proof (cases img)
        case (Inl err)
        then show ?thesis by (simp add: stepped_stop)
      next
        case (Inr img_ref)
        have "runs (pod_good fresh cs) u (starting fresh cs ds out b)
           (case r of Inl err \<Rightarrow> done_with (out, Some err)
            | Inr cid \<Rightarrow> if is_restartable_init spec then sidecar_step e u spec cid img_ref out else wait_init e pod spec cid img_ref out)
           (stepped fresh cs ds spec b)" for r
          using assms by (cases r) (auto simp: stepped_stop runs_sidecar intro: runs_wait_init)
        then show ?thesis unfolding Inr sum.case
          by (rule upholds_then [OF runs_init_container, rotated]) (use assms(1) in simp)
      qed
    qed
  qed
qed

text \<open>After all of them the pod's init containers are done.\<close>
lemma runs_inits:
  assumes "distinct (map init_name cs)" "set specs \<subseteq> set cs" "u = pod_uid pod"
  shows "runs (pod_good fresh cs) u (starting fresh cs ds out b) (run_init_containers e pod specs out)
     (\<lambda>(out', stop) v. starting fresh cs (if stop = None then ds @ specs else []) out' b v)"
  using assms(2)
proof (induction specs arbitrary: ds out)
  case Nil
  show ?case by (simp, rule upholds_done) simp
next
  case (Cons spec specs)
  have spec: "spec \<in> set cs" and rest: "set specs \<subseteq> set cs" using Cons.prems by auto
  let ?Q = "\<lambda>(out', stop) v. starting fresh cs (if stop = None then ds @ (spec # specs) else []) out' b v"
  have IH: "runs (pod_good fresh cs) u (starting fresh cs (ds @ [spec]) out b) (run_init_containers e pod specs out) ?Q" for out
    using Cons.IH [OF rest, of "ds @ [spec]" out] by (simp cong: if_cong)
  have fin: "starting fresh cs (ds @ [spec]) out b v"
    if v: "starting fresh cs ds out b v" and r: "r \<in> set out" "ir_name r = init_name spec" "succeeded r" for r v
  proof -
    have "spec_done (sh_trace v) spec" if f: "fresh"
    proof -
      have "done_in (sh_trace v) (init_name spec)" and "\<exists>c \<in> set cs. \<not> is_restartable_init c \<and> init_name c = init_name spec"
        using v r f unfolding starting_def reports_ok_def by metis+
      then show ?thesis using assms(1) spec by (auto simp: spec_done_def distinct_map inj_on_def)
    qed
    then show ?thesis using v by (auto simp: starting_def inits_done_def)
  qed
  have step: "runs (pod_good fresh cs) u (starting fresh cs ds out b)
      (and_then (run_init e pod spec out) (\<lambda>(out', stop). case stop of Some err \<Rightarrow> done_with (out', Some err) | None \<Rightarrow> run_init_containers e pod specs out')) ?Q"
  proof (rule upholds_then [OF runs_run_init [OF spec assms(3)]], goal_cases)
    case (1 r)
    obtain out' stop where r: "r = (out', stop)" by (cases r)
    show ?case
    proof (cases stop)
      case None
      then show ?thesis using IH by (simp add: r stepped_def)
    next
      case (Some err)
      then show ?thesis by (simp add: r) (rule upholds_done, simp add: stepped_def starting_def inits_done_def)
    qed
  qed
  show ?case
  proof (cases "\<exists>r \<in> set out. ir_name r = init_name spec \<and> succeeded r")
    case True
    then have "runs (pod_good fresh cs) u (starting fresh cs ds out b) (run_init_containers e pod specs out) ?Q"
      using fin by (intro upholds_pre [OF IH]) blast
    then show ?thesis using True by simp
  next
    case False
    then show ?thesis using step by auto
  qed
qed

section \<open>The start\<close>

lemma good_no_core: "\<lbrakk>pod_good fresh cs v; sh_core v = None; \<not> sh_lost v\<rbrakk> \<Longrightarrow> sh_boxes v = []"
  by (cases "sh_boxes v") (auto simp: pod_good_def)

lemma good_core: "\<lbrakk>pod_good fresh cs v; sh_core v = Some (ph, out, Some b)\<rbrakk> \<Longrightarrow> \<not> sh_lost v \<Longrightarrow> set (sh_boxes v) \<subseteq> {b}"
  by (auto simp: pod_good_def)

text \<open>A sandbox that was made with no answer is nobody's; one that is told of goes on the record.\<close>
definition boxed :: "string \<Rightarrow> shown \<Rightarrow> shown" where
  "boxed b v = v\<lparr>sh_trace := Ran_box # sh_trace v, sh_boxes := b # sh_boxes v\<rparr>"

lemma good_boxed:
  assumes "pod_good fresh cs v" "sh_core v = None"
  shows "pod_good fresh cs ((boxed b v)\<lparr>sh_lost := True\<rparr>)" "pod_good fresh cs ((boxed b v)\<lparr>sh_core := Some (''Starting'', [], Some b)\<rparr>)"
    "starting fresh cs [] [] b ((boxed b v)\<lparr>sh_core := Some (''Starting'', [], Some b)\<rparr>)"
  using assms good_no_core [OF assms] by (auto simp: pod_good_def boxed_def starting_def reports_ok_def inits_done_def)

definition box_begun :: "bool \<Rightarrow> json list \<Rightarrow> string \<Rightarrow> shown \<Rightarrow> bool" where
  "box_begun fresh cs b v = (\<exists>out. starting fresh cs [] out b v \<and> sh_core v = Some (''Starting'', out, Some b))"

lemma runs_sandbox:
  assumes "u = pod_uid pod"
  shows "runs (pod_good fresh cs) u (\<lambda>v. sh_core v = None) (run_pod_sandbox pod)
    (\<lambda>r v. case r of Inl _ \<Rightarrow> True | Inr b \<Rightarrow> box_begun fresh cs b v)"
  unfolding run_pod_sandbox_def assms(1) [symmetric]
proof (rule runs_asks, goal_cases)
  case (1 oc w)
  let ?v = "shown_of u w"
  let ?b = "''s'' @ show_nat (Suc (pw_made w))"
  have s: "shown_of u (happened Ran_box (w\<lparr>pw_made := Suc (pw_made w), pw_boxes := ?b # pw_boxes w\<rparr>)) = boxed ?b ?v"
    by (simp add: shown_of_def happened_def boxed_def record_of_def)
  have l: "shown_of u (w'\<lparr>pw_lost := True\<rparr>) = (shown_of u w')\<lparr>sh_lost := True\<rparr>" for w'
    by (simp add: shown_of_def record_of_def)
  have c: "core_of (new_record pod ?b) = (''Starting'', [], Some ?b)" by (simp add: core_of_def new_record_def)
  have m: "pw_made (put_record u st (happened Ran_box (w\<lparr>pw_made := Suc (pw_made w), pw_boxes := ?b # pw_boxes w\<rparr>))) = Suc (pw_made w)" for st
    by (simp add: put_record_def happened_def)
  show ?case
    using good_boxed [OF 1, of ?b] by (simp add: Let_def shown_put s [simplified] l c [simplified] m [simplified] box_begun_def)
qed simp

lemma runs_start_sandbox:
  assumes "u = pod_uid pod"
  shows "runs (pod_good fresh cs) u (\<lambda>v. \<forall>ph out sb. sh_core v = Some (ph, out, sb) \<longrightarrow> ph = ''Starting'') (start_sandbox pod)
    (\<lambda>r v. case r of Inl _ \<Rightarrow> True | Inr b \<Rightarrow> box_begun fresh cs b v)"
  unfolding start_sandbox_def assms(1) [symmetric]
proof -
  let ?Q = "\<lambda>ex v. case ex of None \<Rightarrow> sh_core v = None | Some b \<Rightarrow> box_begun fresh cs b v"
  have first: "runs (pod_good fresh cs) u (\<lambda>v. \<forall>ph out sb. sh_core v = Some (ph, out, sb) \<longrightarrow> ph = ''Starting'')
      (look (\<lambda>w. Option.bind (record_of u w) sandbox_id)) ?Q"
  proof (rule upholds_look)
    fix w assume 1: "pod_good fresh cs (shown_of u w)" "\<forall>ph out sb. sh_core (shown_of u w) = Some (ph, out, sb) \<longrightarrow> ph = ''Starting''"
    show "?Q (Option.bind (record_of u w) sandbox_id) (shown_of u w)"
    proof (cases "record_of u w")
      case None
      then show ?thesis by (simp add: shown_of_def)
    next
      case (Some st)
      then have c: "sh_core (shown_of u w) = Some (ps_phase st, init_statuses st, sandbox_id st)" by (simp add: shown_of_def core_of_def)
      then obtain b where b: "sandbox_id st = Some b" using 1(1) by (auto simp: pod_good_def)
      have "ps_phase st = ''Starting''" using 1(2) c by simp
      then have "box_begun fresh cs b (shown_of u w)"
        using 1(1) c b good_core [OF 1(1), of _ _ b] by (auto simp: box_begun_def starting_def pod_good_def inits_done_def)
      then show ?thesis by (simp add: Some b)
    qed
  qed
  have q: "hushed u (if as_bool (jpath pod [''spec'', ''hostNetwork'']) = Some True then done_with (Inr ()) else told_as NetworkNotReady)" by simp
  have new: "runs (pod_good fresh cs) u (\<lambda>v. sh_core v = None)
      (if_ok (if as_bool (jpath pod [''spec'', ''hostNetwork'']) = Some True then done_with (Inr ()) else told_as NetworkNotReady) (\<lambda>_. run_pod_sandbox pod))
      (\<lambda>r v. case r of Inl _ \<Rightarrow> True | Inr b \<Rightarrow> box_begun fresh cs b v)"
    by (rule runs_quiet_if_ok [OF q]) (simp, rule runs_sandbox [OF assms])
  show "runs (pod_good fresh cs) u (\<lambda>v. \<forall>ph out sb. sh_core v = Some (ph, out, sb) \<longrightarrow> ph = ''Starting'')
     (and_then (look (\<lambda>w. Option.bind (record_of u w) sandbox_id)) (\<lambda>existing. case existing of
        None \<Rightarrow> if_ok (if as_bool (jpath pod [''spec'', ''hostNetwork'']) = Some True then done_with (Inr ()) else told_as NetworkNotReady) (\<lambda>_. run_pod_sandbox pod)
      | Some b \<Rightarrow> done_with (Inr b))) (\<lambda>r v. case r of Inl _ \<Rightarrow> True | Inr b \<Rightarrow> box_begun fresh cs b v)"
  proof (rule upholds_then [OF first])
    fix existing
    show "runs (pod_good fresh cs) u (?Q existing) (case existing of
        None \<Rightarrow> if_ok (if as_bool (jpath pod [''spec'', ''hostNetwork'']) = Some True then done_with (Inr ()) else told_as NetworkNotReady) (\<lambda>_. run_pod_sandbox pod)
      | Some b \<Rightarrow> done_with (Inr b)) (\<lambda>r v. case r of Inl _ \<Rightarrow> True | Inr b \<Rightarrow> box_begun fresh cs b v)"
      using new by (cases existing) (auto intro: upholds_done)
  qed
qed

lemma runs_same:
  fixes P :: "shown \<Rightarrow> bool" and m :: "('e + 'z) pod_pass"
  assumes "runs G u P m (\<lambda>_. P)"
  shows "runs G u P m (\<lambda>r v. case r of Inl _ \<Rightarrow> P v | Inr _ \<Rightarrow> P v)"
  by (rule upholds_post [OF assms]) (auto split: sum.split)

lemma hushed_failing_as [simp, intro]: "keeps_view g m \<Longrightarrow> keeps_view g (failing_as n r m)"
  by (simp add: failing_as_def hushed_then)

lemma runs_start_app:
  "runs (pod_good fresh cs) u (starting fresh cs cs out b) (start_app pod spec) (\<lambda>_. starting fresh cs cs out b)"
proof -
  let ?P = "starting fresh cs cs out b"
  have "runs (pod_good fresh cs) u ?P (create_container n) (\<lambda>_. ?P)" for n
    by (rule runs_create) (simp add: starting_def, erule starting_event, simp)
  then have c: "runs (pod_good fresh cs) u ?P (failing_as n r (create_container n)) (\<lambda>_. ?P)" for n r
    unfolding failing_as_def by (rule upholds_then) (rule upholds_done)
  show ?thesis
    unfolding start_app_def Let_def
    apply (rule runs_quiet_then, blast)
    apply (rule runs_quiet_if_ok, blast, assumption)
    apply (rule runs_if_ok [OF runs_same [OF c]])
    apply (rule runs_quiet_then, rule hushed_note)
    apply (rule runs_quiet_if_ok, blast, assumption)
    apply (rule upholds_done, assumption)
    done
qed

lemma runs_start_apps:
  "runs (pod_good fresh cs) u (starting fresh cs cs out b) (start_apps pod specs) (\<lambda>_. starting fresh cs cs out b)"
proof (induction specs)
  case Nil
  show ?case by (simp, rule upholds_done)
next
  case (Cons spec specs)
  show ?case
    by (simp, rule runs_if_ok [OF runs_same [OF runs_start_app]], rule runs_if_ok [OF runs_same [OF Cons.IH]], rule upholds_done)
qed

lemma good_running:
  "\<lbrakk>pod_good fresh cs v; starting fresh cs cs out b v\<rbrakk> \<Longrightarrow> pod_good fresh cs (v\<lparr>sh_core := Some (''Running'', inits, Some b)\<rparr>)"
  by (auto simp: pod_good_def starting_def)

lemma runs_start_in_sandbox:
  assumes "u = pod_uid pod" "cs = init_specs pod" "distinct (map init_name cs)"
  shows "runs (pod_good fresh cs) u (box_begun fresh cs b) (start_in_sandbox e pod b) (\<lambda>_ _. True)"
proof -
  have q: "hushed u (asks [] (\<lambda>oc w. w) (\<lambda>oc w. if po_ip oc = [] then None else Some (po_ip oc)))" by (rule hushed_asks) simp_all
  have first: "runs (pod_good fresh cs) u (box_begun fresh cs b) (look (recorded_inits u)) (\<lambda>out. starting fresh cs [] out b)"
    by (rule upholds_look) (auto simp: box_begun_def shown_of_def recorded_inits_def core_of_def)
  have last: "runs (pod_good fresh cs) u (starting fresh cs cs out b)
      (change (\<lambda>w. put_record u (Some (started_record e pod b ip rs inits (record_of u w))) w)) (\<lambda>_ _. True)" for out ip rs inits
    by (rule runs_change) (simp add: shown_put core_of_def started_record_def Let_def new_record_def good_running)
  have apps: "runs (pod_good fresh cs) u (starting fresh cs cs out b)
      (if_ok (start_apps pod specs) (\<lambda>rs.
        and_then (change (\<lambda>w. put_record u (Some (started_record e pod b ip rs out (record_of u w))) w)) (\<lambda>_.
        done_with (Inr (update_of pod ''Running'' [] rs out ip))))) (\<lambda>_ _. True)" for out specs ip
    apply (rule runs_if_ok [where Q = "\<lambda>_. starting fresh cs cs out b"])
     apply (rule upholds_post [OF runs_start_apps], simp split: sum.split)
    apply (rule upholds_then [OF last], rule upholds_done, simp)
    done
  have inits: "runs (pod_good fresh cs) u (starting fresh cs [] out b) (run_init_containers e pod (init_specs pod) out)
      (\<lambda>r. starting fresh cs (if snd r = None then cs else []) (fst r) b)" for out
    by (rule upholds_post [OF runs_inits [OF assms(3) _ assms(1)]]) (auto simp: assms(2) split: prod.splits if_splits)
  show ?thesis
    unfolding start_in_sandbox_def Let_def assms(1) [symmetric]
    apply (rule runs_quiet_if_ok [OF q], simp)
    apply (rule upholds_then [OF first])
    apply (rule upholds_then [OF inits])
    subgoal for ip out0 r
      apply (cases r, cases "snd r")
       apply (simp add: apps)
      apply (simp, rule upholds_then [OF runs_set_inits], rule upholds_done, simp)
      done
    done
qed

definition not_started :: "shown \<Rightarrow> bool" where
  "not_started v = (\<forall>ph out sb. sh_core v = Some (ph, out, sb) \<longrightarrow> ph = ''Starting'')"

lemma runs_start_pod:
  assumes "u = pod_uid pod" "cs = init_specs pod" "distinct (map init_name cs)"
  shows "runs (pod_good fresh cs) u not_started (start_pod e pod) (\<lambda>_ _. True)"
proof -
  have q: "hushed u (if sv_admission e then told else done_with (Inr ()))" by simp
  have s: "runs (pod_good fresh cs) u not_started (if_ok (start_sandbox pod) (start_in_sandbox e pod)) (\<lambda>_ _. True)"
    apply (rule runs_if_ok [where Q = "box_begun fresh cs"])
     apply (rule upholds_post [OF upholds_pre [OF runs_start_sandbox [OF assms(1)]]])
      apply (simp add: not_started_def)
     apply (simp split: sum.splits)
    apply (rule runs_start_in_sandbox [OF assms])
    done
  show ?thesis
    unfolding start_pod_def
    by (rule runs_quiet_if_ok [OF q], simp, (rule runs_quiet_if_ok, blast, simp)+, rule s)
qed

section \<open>The stop\<close>

text \<open>No sandbox is left, but one nobody was told of.\<close>
definition unboxed :: "shown \<Rightarrow> bool" where
  "unboxed v = (\<not> sh_lost v \<longrightarrow> sh_boxes v = [])"

lemma hushed_each_ok: "(\<And>x. keeps_view g (f x)) \<Longrightarrow> keeps_view g (each_ok f xs)"
  by (induction xs) (auto intro: hushed_if_ok)

lemma hushed_stop_together [simp, intro]: "hushed u (stop_together g cids)"
  by (induction cids) (auto intro!: hushed_then)

lemma hushed_stop_containers [simp, intro]: "hushed u (stop_containers st g)"
  unfolding stop_containers_def Let_def stop_sidecar_of_def remove_kept_def
  by (auto intro!: hushed_if_ok hushed_then hushed_each_ok hushed_change split: option.split)

lemma runs_remove_sandbox:
  "runs (pod_good fresh cs) u (\<lambda>v. \<not> sh_lost v \<longrightarrow> set (sh_boxes v) \<subseteq> {b}) (gone_ok (remove_pod_sandbox b))
     (\<lambda>r v. case r of Inl _ \<Rightarrow> True | Inr _ \<Rightarrow> unboxed v)"
proof -
  have good: "pod_good fresh cs (shown_of u (w\<lparr>pw_boxes := removeAll b (pw_boxes w)\<rparr>))" if "pod_good fresh cs (shown_of u w)" for w
    using that by (auto simp: pod_good_def shown_of_def record_of_def)
  have un: "unboxed (shown_of u (w\<lparr>pw_boxes := removeAll b (pw_boxes w)\<rparr>))"
    if "\<not> sh_lost (shown_of u w) \<longrightarrow> set (sh_boxes (shown_of u w)) \<subseteq> {b}" for w
    using that by (auto simp: unboxed_def shown_of_def removeAll_filter_not_eq filter_empty_conv)
  show ?thesis
    unfolding upholds_def gone_ok_def and_then_def remove_pod_sandbox_def done_with_def
    using good un by (auto split: list.split sum.split cri_error.split simp: is_not_found_def)
qed

lemma runs_stop_record:
  assumes "sandbox_id st = Some b"
  shows "runs (pod_good fresh cs) u (\<lambda>v. \<not> sh_lost v \<longrightarrow> set (sh_boxes v) \<subseteq> {b}) (stop_record u st g)
     (\<lambda>r v. case r of Inl _ \<Rightarrow> True | Inr _ \<Rightarrow> unboxed v)"
  unfolding stop_record_def assms option.case
  apply (rule runs_quiet_if_ok [OF hushed_stop_containers], simp)
  apply (rule runs_quiet_then, rule hushed_change, simp add: shown_of_def record_of_def)
  apply (rule runs_quiet_if_ok, blast, simp)
  apply (rule runs_remove_sandbox)
  done

lemma runs_teardown:
  "runs (pod_good fresh cs) u unboxed teardown_volumes (\<lambda>_. unboxed)"
proof -
  have "runs (pod_good fresh cs) u unboxed (asks [] (\<lambda>oc w. happened (Unpublished (pw_boxes w)) w) (\<lambda>oc w. ())) (\<lambda>_. unboxed)"
  proof (rule runs_asks)
    fix oc :: start_outcome and w
    assume w: "pod_good fresh cs (shown_of u w)" "unboxed (shown_of u w)"
    have "pod_good fresh cs (with_event (Unpublished (pw_boxes w)) (shown_of u w))"
      by (rule good_event [OF w(1)]) (use w(2) in \<open>auto simp: unboxed_def shown_of_def\<close>)
    then show "pod_good fresh cs (shown_of u (happened (Unpublished (pw_boxes w)) w)) \<and>
       (\<not> oc_ok oc \<longrightarrow> (\<forall>x::cri_error. unboxed (shown_of u (happened (Unpublished (pw_boxes w)) w)))) \<and>
       (oc_ok oc \<longrightarrow> unboxed (shown_of u (happened (Unpublished (pw_boxes w)) w)))"
      using w(2) by (simp add: shown_happened unboxed_def with_event_def)
  qed
  then show ?thesis unfolding teardown_volumes_def by (rule upholds_then) (rule upholds_done)
qed

lemma runs_stop_pod:
  "runs (pod_good fresh cs) u (\<lambda>_. True) (stop_pod_within e u g)
     (\<lambda>r v. case r of Inl _ \<Rightarrow> True | Inr _ \<Rightarrow> unboxed v \<and> sh_core v = None)"
proof -
  let ?P = "\<lambda>r v. case r of None \<Rightarrow> unboxed v | Some st \<Rightarrow> \<exists>b. sandbox_id st = Some b \<and> (\<not> sh_lost v \<longrightarrow> set (sh_boxes v) \<subseteq> {b})"
  have first: "runs (pod_good fresh cs) u (\<lambda>_. True) (look (record_of u)) ?P"
  proof (rule upholds_look)
    fix w assume g: "pod_good fresh cs (shown_of u w)"
    show "?P (record_of u w) (shown_of u w)"
    proof (cases "record_of u w")
      case None
      then show ?thesis using good_no_core [OF g] by (simp add: unboxed_def shown_of_def)
    next
      case (Some st)
      then have c: "sh_core (shown_of u w) = Some (ps_phase st, init_statuses st, sandbox_id st)" by (simp add: shown_of_def core_of_def)
      then obtain b where b: "sandbox_id st = Some b" using g by (auto simp: pod_good_def)
      then show ?thesis using good_core [OF g c [unfolded b]] by (simp add: Some)
    qed
  qed
  have last: "runs (pod_good fresh cs) u unboxed (change (forget e u)) (\<lambda>_ v. unboxed v \<and> sh_core v = None)"
  proof (rule runs_change)
    fix w assume w: "pod_good fresh cs (shown_of u w)" "unboxed (shown_of u w)"
    have "shown_of u (forget e u w) = (shown_of u w)\<lparr>sh_core := None\<rparr>"
      by (simp add: shown_of_def forget_def record_of_def Let_def)
    then show "pod_good fresh cs (shown_of u (forget e u w)) \<and> unboxed (shown_of u (forget e u w)) \<and> sh_core (shown_of u (forget e u w)) = None"
      using w by (simp add: pod_good_def unboxed_def)
  qed
  have rest: "runs (pod_good fresh cs) u unboxed (if_ok teardown_volumes (\<lambda>_. and_then (change (forget e u)) (\<lambda>_. done_with (Inr ()))))
     (\<lambda>r v. case r of Inl _ \<Rightarrow> True | Inr _ \<Rightarrow> unboxed v \<and> sh_core v = None)"
    apply (rule runs_if_ok [where Q = "\<lambda>_. unboxed"])
     apply (rule upholds_post [OF runs_teardown], simp split: sum.split)
    apply (rule upholds_then [OF last], rule upholds_done, simp)
    done
  show ?thesis
    unfolding stop_pod_within_def
  proof (rule upholds_then [OF first])
    fix r
    show "runs (pod_good fresh cs) u (?P r)
       (if_ok (case r of None \<Rightarrow> done_with (Inr ())
               | Some st \<Rightarrow> stop_record u st (case g of None \<Rightarrow> termination_grace (ps_pod st) | Some g \<Rightarrow> max g 0)) (\<lambda>_.
        if_ok teardown_volumes (\<lambda>_. and_then (change (forget e u)) (\<lambda>_. done_with (Inr ())))))
       (\<lambda>r v. case r of Inl _ \<Rightarrow> True | Inr _ \<Rightarrow> unboxed v \<and> sh_core v = None)"
    proof (rule runs_if_ok [where Q = "\<lambda>_. unboxed", OF _ rest], cases r)
      case None
      then show "runs (pod_good fresh cs) u (?P r) (case r of None \<Rightarrow> done_with (Inr ())
               | Some st \<Rightarrow> stop_record u st (case g of None \<Rightarrow> termination_grace (ps_pod st) | Some g \<Rightarrow> max g 0))
         (\<lambda>r v. case r of Inl x \<Rightarrow> (case Inl x of Inl _ \<Rightarrow> True | Inr _ \<Rightarrow> unboxed v \<and> sh_core v = None) | Inr y \<Rightarrow> unboxed v)"
        by (simp add: upholds_done)
    next
      case (Some st)
      show "runs (pod_good fresh cs) u (?P r) (case r of None \<Rightarrow> done_with (Inr ())
               | Some st \<Rightarrow> stop_record u st (case g of None \<Rightarrow> termination_grace (ps_pod st) | Some g \<Rightarrow> max g 0))
         (\<lambda>r v. case r of Inl x \<Rightarrow> (case Inl x of Inl _ \<Rightarrow> True | Inr _ \<Rightarrow> unboxed v \<and> sh_core v = None) | Inr y \<Rightarrow> unboxed v)"
      proof (cases "sandbox_id st")
        case None
        then show ?thesis by (simp add: Some upholds_def)
      next
        case (Some b)
        show ?thesis unfolding \<open>r = Some st\<close> option.case
          by (rule upholds_post [OF upholds_pre [OF runs_stop_record [OF Some]]]) (auto simp: Some split: sum.splits)
      qed
    qed
  qed
qed

section \<open>A pass\<close>

lemma good_cleanup:
  assumes "pod_good fresh cs v" "sh_core v = Some (ph, out, sb)"
  shows "pod_good fresh cs (v\<lparr>sh_core := Some (''Cleanup'', out, sb)\<rparr>)"
  using assms by (auto simp: pod_good_def)

lemma runs_cleanup:
  assumes "\<And>st. core_of (f st) = (''Cleanup'', init_statuses st, sandbox_id st) \<or> core_of (f st) = core_of st"
  shows "runs (pod_good fresh cs) u (\<lambda>_. True) (change (with_record u f)) (\<lambda>_ _. True)"
proof (rule runs_change)
  fix w assume g: "pod_good fresh cs (shown_of u w)"
  show "pod_good fresh cs (shown_of u (with_record u f w)) \<and> True"
  proof (cases "record_of u w")
    case None
    then show ?thesis using g by (simp add: with_record_def)
  next
    case (Some st)
    then have c: "sh_core (shown_of u w) = Some (ps_phase st, init_statuses st, sandbox_id st)" by (simp add: shown_of_def core_of_def)
    have same: "(shown_of u w)\<lparr>sh_core := Some (core_of st)\<rparr> = shown_of u w" using Some by (simp add: shown_of_def)
    show ?thesis using assms [of st] good_cleanup [OF g c] g same by (auto simp: with_record_def Some shown_put)
  qed
qed

lemma runs_partial: "runs (pod_good fresh cs) u (\<lambda>_. True) (change (cleanup_partial_start u)) (\<lambda>_ _. True)"
  unfolding cleanup_partial_start_def by (rule runs_cleanup) (simp add: core_of_def)

lemma runs_any: "hushed u m \<Longrightarrow> runs (pod_good fresh cs) u (\<lambda>_. True) m (\<lambda>_ _. True)"
  by (rule runs_quiet)

lemma hushed_waiting [simp, intro]: "hushed u (waiting_pod_as pod k m)" "hushed u (waiting_pod pod m)"
  by (auto simp: waiting_pod_def waiting_pod_as_def intro!: hushed_then hushed_change)

lemma runs_image_failed: "u = pod_uid pod \<Longrightarrow> runs (pod_good fresh cs) u (\<lambda>_. True) (image_failed e pod d what) (\<lambda>_ _. True)"
  unfolding image_failed_def Let_def
  by (simp, rule upholds_then [OF runs_partial], rule runs_any)
     (auto intro!: hushed_then hushed_change)

lemma runs_container_failed:
  "u = pod_uid pod \<Longrightarrow> runs (pod_good fresh cs) u (\<lambda>_. True) (container_failed e pod d c r m) (\<lambda>_ _. True)"
  unfolding container_failed_def Let_def
  by (simp split del: if_split, rule upholds_then [OF runs_partial], rule runs_any)
     (auto intro!: hushed_then hushed_change)

lemma runs_start_ended: "u = pod_uid pod \<Longrightarrow> runs (pod_good fresh cs) u (\<lambda>_. True) (start_ended e pod d err) (\<lambda>_ _. True)"
proof -
  assume u: "u = pod_uid pod"
  have c: "runs (pod_good fresh cs) u (\<lambda>_. True)
      (change (\<lambda>w. retry_wait e u d ((with_record u (\<lambda>st. st\<lparr>ps_phase := ''Cleanup''\<rparr>) w)\<lparr>pw_failed := True\<rparr>))) (\<lambda>_ _. True)"
  proof (rule runs_change)
    fix w assume "pod_good fresh cs (shown_of u w)"
    moreover have "runs (pod_good fresh cs) u (\<lambda>_. True) (change (with_record u (\<lambda>st. st\<lparr>ps_phase := ''Cleanup''\<rparr>))) (\<lambda>_ _. True)"
      by (rule runs_cleanup) (simp add: core_of_def)
    ultimately show "pod_good fresh cs (shown_of u (retry_wait e u d ((with_record u (\<lambda>st. st\<lparr>ps_phase := ''Cleanup''\<rparr>) w)\<lparr>pw_failed := True\<rparr>))) \<and> True"
      by (simp add: upholds_def change_def)
  qed
  show ?thesis
    unfolding start_ended_def Let_def u [symmetric]
    by (rule runs_quiet_then, blast, rule upholds_then [OF c], rule runs_any) (auto intro!: hushed_then hushed_change)
qed

lemma runs_start_failed:
  assumes "u = pod_uid pod"
  shows "runs (pod_good fresh cs) u (\<lambda>_. True) (start_failed e pod d err) (\<lambda>_ _. True)"
proof -
  have w: "runs (pod_good fresh cs) u (\<lambda>_. True) (and_then (change f) (\<lambda>_. waiting_pod pod what)) (\<lambda>_ _. True)"
    if "\<And>w. shown_of u (f w) = shown_of u w" for f what
    by (rule runs_any) (auto intro!: hushed_then hushed_change that)
  have c: "runs (pod_good fresh cs) u (\<lambda>_. True)
      (and_then (change (\<lambda>w. retry_wait e u d (cleanup_partial_start u w))) (\<lambda>_. waiting_pod_as pod k m)) (\<lambda>_ _. True)" for k m
    by (rule upholds_then, rule runs_change, use runs_partial [of fresh cs u] in \<open>simp add: upholds_def change_def\<close>, rule runs_any, blast)
  show ?thesis
    unfolding start_failed_def Let_def assms(1) [symmetric]
    by (cases err) (auto simp: runs_start_ended assms runs_image_failed runs_container_failed
        intro!: w [unfolded assms] c [unfolded assms])
qed

lemma runs_start_new:
  assumes "u = pod_uid pod" "cs = init_specs pod" "distinct (map init_name cs)"
  shows "runs (pod_good fresh cs) u not_started (start_new e pod) (\<lambda>_ _. True)"
proof -
  have after: "runs (pod_good fresh cs) u (\<lambda>_. True)
      (case r of Inr update \<Rightarrow> and_then (change (start_succeeded e u)) (\<lambda>_. done_with (said update))
       | Inl err \<Rightarrow> and_then (start_failed e pod d err) (\<lambda>update. done_with (said update))) (\<lambda>_ _. True)" for r d
  proof (cases r)
    case (Inl err)
    then show ?thesis by (simp, intro upholds_then [OF runs_start_failed [OF assms(1)]] upholds_done, simp)
  next
    case (Inr update)
    then show ?thesis by (simp, intro runs_any hushed_then hushed_change) (auto simp: start_succeeded_def)
  qed
  show ?thesis
    unfolding start_new_def Let_def assms(1) [symmetric]
  proof (rule runs_quiet_then [OF hushed_look], goal_cases)
    case (1 holdoff)
    show ?case
    proof (cases "case holdoff of Some x \<Rightarrow> if now (sv_at e) < x then Some x else None | None \<Rightarrow> None")
      case (Some x)
      show ?thesis unfolding Some option.case
        by (rule upholds_then [where Q = "\<lambda>_ _. True"], rule upholds_post [OF runs_quiet], rule hushed_change) (auto intro: upholds_done)
    next
      case None
      show ?thesis unfolding None option.case
      proof (cases "apparmor_refusal pod")
        case (Some why)
        then show "runs (pod_good fresh cs) u not_started (case apparmor_refusal pod of
            Some why \<Rightarrow> done_with (said ((update_of pod ''Failed'' why [] [] None)\<lparr>pu_reason := APPARMOR_REASON\<rparr>))
          | None \<Rightarrow> and_then (change (\<lambda>w. w\<lparr>pw_seen := Some (case pw_seen w of Some x \<Rightarrow> x | None \<Rightarrow> now (sv_at e))\<rparr>)) (\<lambda>_.
               and_then (look pw_seen) (\<lambda>seen. and_then (start_pod e pod) (\<lambda>r. case r of
                 Inr update \<Rightarrow> and_then (change (start_succeeded e u)) (\<lambda>_. done_with (said update))
               | Inl err \<Rightarrow> and_then (start_failed e pod (case seen of Some x \<Rightarrow> since x (now (sv_at e)) | None \<Rightarrow> 0) err) (\<lambda>update. done_with (said update)))))) (\<lambda>_ _. True)"
          by (simp add: upholds_done)
      next
        case no: None
        show "runs (pod_good fresh cs) u not_started (case apparmor_refusal pod of
            Some why \<Rightarrow> done_with (said ((update_of pod ''Failed'' why [] [] None)\<lparr>pu_reason := APPARMOR_REASON\<rparr>))
          | None \<Rightarrow> and_then (change (\<lambda>w. w\<lparr>pw_seen := Some (case pw_seen w of Some x \<Rightarrow> x | None \<Rightarrow> now (sv_at e))\<rparr>)) (\<lambda>_.
               and_then (look pw_seen) (\<lambda>seen. and_then (start_pod e pod) (\<lambda>r. case r of
                 Inr update \<Rightarrow> and_then (change (start_succeeded e u)) (\<lambda>_. done_with (said update))
               | Inl err \<Rightarrow> and_then (start_failed e pod (case seen of Some x \<Rightarrow> since x (now (sv_at e)) | None \<Rightarrow> 0) err) (\<lambda>update. done_with (said update)))))) (\<lambda>_ _. True)"
          unfolding no option.case
          by (rule runs_quiet_then, rule hushed_change, simp, rule runs_quiet_then, blast, rule upholds_then [OF runs_start_pod [OF assms]], rule after)
      qed
    qed
  qed
qed

section \<open>The status pass\<close>

lemma visit_all_box: "sandbox_id (pst (visit_all e p)) = sandbox_id (pst p)"
proof -
  have step: "only_about n q r \<Longrightarrow> sandbox_id (pst r) = sandbox_id (pst q)" for n q r by (simp add: only_about_def)
  have v: "sandbox_id (pst (fold (visit_container e specs sc pol) ncs q)) = sandbox_id (pst q)" for q specs sc pol ncs
    by (induction ncs arbitrary: q) (auto simp: step [OF only_about_visit])
  have c: "sandbox_id (pst (fold (create_missing e) ms q)) = sandbox_id (pst q)" for q ms
    by (induction ms arbitrary: q) (auto simp: step [OF only_about_missing])
  show ?thesis by (simp add: visit_all_def Let_def v c)
qed

lemma reports_box: "sandbox_id (fold sidecar_report rs st) = sandbox_id st"
  by (induction rs arbitrary: st) (simp_all add: sidecar_report_def Let_def)

lemma stop_sidecars_box:
  "sandbox_id (pst (fold (stop_sidecar e) ss p)) = sandbox_id (pst p) \<and> ps_phase (pst (fold (stop_sidecar e) ss p)) = ps_phase (pst p)"
proof (induction ss arbitrary: p)
  case (Cons s ss)
  have "sandbox_id (pst (stop_sidecar e s p)) = sandbox_id (pst p) \<and> ps_phase (pst (stop_sidecar e s p)) = ps_phase (pst p)"
    by (auto simp: stop_sidecar_def call_def set_ready_def set_terminated_def Let_def split: option.split cri_error.split)
  then show ?case using Cons by simp
qed simp

lemma stop_finished_core:
  "m_pods m u = Some st \<Longrightarrow> \<exists>st'. m_pods (stop_finished_sandbox e u m) u = Some st' \<and> core_of st' = core_of st"
  by (auto simp: stop_finished_sandbox_def Let_def core_of_def split: option.split cri_error.split)

lemma stop_finished_none: "m_pods m u = None \<Longrightarrow> stop_finished_sandbox e u m = m"
  by (simp add: stop_finished_sandbox_def)

lemma pod_phase_cases: "pod_phase policy sidecars st \<in> {''Running'', ''Succeeded'', ''Failed''}"
  by (simp add: pod_phase_def Let_def)

lemma check_core:
  assumes "m_pods m u = Some st"
  shows "\<exists>st'. m_pods (snd (check_pod_status e u m)) u = Some st' \<and> sandbox_id st' = sandbox_id st \<and>
    ps_phase st' \<in> {''Running'', ''Succeeded'', ''Failed''}"
proof -
  let ?sc = "sidecar_names (ps_pod st)" and ?p = "visit_all e \<lparr>pst = st, pm = m, pout = []\<rparr>"
  let ?ph = "pod_phase (pod_restart_policy (ps_pod st)) ?sc (reported_state e st m)"
  let ?p1 = "?p\<lparr>pst := (reported_state e st m)\<lparr>ps_phase := ?ph\<rparr>\<rparr>"
  let ?p2 = "if ?ph \<noteq> ''Running'' then fold (stop_sidecar e) (rev ?sc) ?p1 else ?p1"
  let ?m = "(pm ?p2)\<lparr>m_pods := (m_pods (pm ?p2))(u \<mapsto> pst ?p2)\<rparr>"
  have "sandbox_id (pst ?p1) = sandbox_id st" by (simp add: reported_state_def Let_def reports_box visit_all_box)
  then have p2: "sandbox_id (pst ?p2) = sandbox_id st" "ps_phase (pst ?p2) = ?ph" by (simp_all add: stop_sidecars_box)
  have "snd (check_pod_status e u m) = (if ?ph \<noteq> ''Running'' then stop_finished_sandbox e u ?m else ?m)"
    using assms by (simp add: check_pod_status_def reported_state_def Let_def)
  moreover obtain st' where "m_pods (stop_finished_sandbox e u ?m) u = Some st'" "core_of st' = core_of (pst ?p2)"
    using stop_finished_core [of ?m u "pst ?p2" e] by auto
  ultimately show ?thesis
    using p2 pod_phase_cases [of "pod_restart_policy (ps_pod st)" ?sc "reported_state e st m"]
    by (cases "?ph = ''Running''") (simp_all add: core_of_def)
qed

lemma runs_with_runtime:
  assumes "\<And>pe w. pod_good fresh cs (shown_of u w) \<Longrightarrow> P (shown_of u w) \<Longrightarrow> pod_good fresh cs (shown_of u (w\<lparr>pw_m := snd (f pe (pw_m w))\<rparr>))"
  shows "runs (pod_good fresh cs) u P (with_runtime e f) (\<lambda>_ _. True)"
  unfolding upholds_def
proof (intro allI impI)
  fix w os assume w: "pod_good fresh cs (shown_of u w)" "P (shown_of u w)"
  show "case with_runtime e f (w, os) of (Some x, w', os') \<Rightarrow> pod_good fresh cs (shown_of u w') \<and> True | (None, w', os') \<Rightarrow> pod_good fresh cs (shown_of u w')"
  proof (cases os)
    case (Cons oc os')
    show ?thesis
      using assms [OF w, of "\<lparr>rt = po_runtime oc, at = sv_at e, save_ok = sv_save_ok e\<rparr>"]
      by (simp add: with_runtime_def Cons Let_def case_prod_beta)
  qed (use w in \<open>simp add: with_runtime_def\<close>)
qed

definition known :: "shown \<Rightarrow> bool" where
  "known v = (\<exists>ph out sb. sh_core v = Some (ph, out, sb) \<and> ph \<noteq> ''Starting'' \<and> ph \<noteq> ''Cleanup'')"

lemma runs_check_known:
  assumes "u = pod_uid pod"
  shows "runs (pod_good fresh cs) u known (check_known e pod) (\<lambda>_ _. True)"
proof -
  let ?P = "\<lambda>v. known v"
  have first: "runs (pod_good fresh cs) u known (change (\<lambda>w. happened Checked_pod (with_record u (\<lambda>st. st\<lparr>ps_pod := pod\<rparr>) w))) (\<lambda>_. known)"
  proof (rule runs_change)
    fix w assume w: "pod_good fresh cs (shown_of u w)" "known (shown_of u w)"
    have "shown_of u (with_record u (\<lambda>st. st\<lparr>ps_pod := pod\<rparr>) w) = shown_of u w" by (rule shown_with_record) (simp add: core_of_def)
    moreover have "pod_good fresh cs (with_event Checked_pod (shown_of u w))"
      by (rule good_event [OF w(1)]) (use w in \<open>auto simp: known_def pod_good_def\<close>)
    ultimately show "pod_good fresh cs (shown_of u (happened Checked_pod (with_record u (\<lambda>st. st\<lparr>ps_pod := pod\<rparr>) w))) \<and>
        known (shown_of u (happened Checked_pod (with_record u (\<lambda>st. st\<lparr>ps_pod := pod\<rparr>) w)))"
      using w(2) by (simp add: shown_happened known_def with_event_def)
  qed
  have check: "runs (pod_good fresh cs) u known (with_runtime e (\<lambda>pe. check_pod_status pe u)) (\<lambda>_ _. True)"
  proof (rule runs_with_runtime)
    fix pe w assume w: "pod_good fresh cs (shown_of u w)" "known (shown_of u w)"
    then obtain st where st: "record_of u w = Some st" "ps_phase st \<noteq> ''Starting''" "ps_phase st \<noteq> ''Cleanup''"
      by (auto simp: known_def shown_of_def core_of_def)
    then obtain st' where st': "m_pods (snd (check_pod_status pe u (pw_m w))) u = Some st'" "sandbox_id st' = sandbox_id st"
        "ps_phase st' \<in> {''Running'', ''Succeeded'', ''Failed''}"
      using check_core [of "pw_m w" u st pe] by (auto simp: record_of_def)
    have "shown_of u (w\<lparr>pw_m := snd (check_pod_status pe u (pw_m w))\<rparr>) = (shown_of u w)\<lparr>sh_core := Some (core_of st')\<rparr>"
      by (simp add: shown_of_def record_of_def st')
    moreover have "sh_core (shown_of u w) = Some (core_of st)" by (simp add: shown_of_def st)
    ultimately show "pod_good fresh cs (shown_of u (w\<lparr>pw_m := snd (check_pod_status pe u (pw_m w))\<rparr>))"
      using w(1) st st' by (auto simp: pod_good_def core_of_def)
  qed
  show ?thesis
    unfolding check_known_def Let_def assms [symmetric]
    by (rule upholds_then [OF first], rule upholds_then [OF check], rule runs_any)
       (auto intro!: hushed_then hushed_change split: sum.split)
qed

lemma runs_clean_up:
  "runs (pod_good fresh cs) u (\<lambda>_. True) (clean_up e u) (\<lambda>r v. r \<longrightarrow> (\<forall>out sb. sh_core v \<noteq> Some (''Cleanup'', out, sb)))"
proof -
  let ?Q = "\<lambda>r v. r \<longrightarrow> (\<forall>out sb. sh_core v \<noteq> Some (''Cleanup'', out, sb))"
  have first: "runs (pod_good fresh cs) u (\<lambda>_. True)
      (look (\<lambda>w. case record_of u w of Some st \<Rightarrow> ps_phase st = ''Cleanup'' | None \<Rightarrow> False))
      (\<lambda>partial v. \<not> partial \<longrightarrow> (\<forall>out sb. sh_core v \<noteq> Some (''Cleanup'', out, sb)))"
    by (rule upholds_look) (auto simp: shown_of_def core_of_def split: option.splits)
  have after: "runs (pod_good fresh cs) u (\<lambda>v. case r :: cri_error + unit of Inl _ \<Rightarrow> True | Inr _ \<Rightarrow> unboxed v \<and> sh_core v = None)
      (case r of Inl _ \<Rightarrow> and_then (change (pod_due e u RECHECK)) (\<lambda>_. done_with False)
       | Inr _ \<Rightarrow> and_then (change (\<lambda>w. w\<lparr>pw_seen := (case seen of None \<Rightarrow> pw_seen w | _ \<Rightarrow> seen),
                                     pw_waiting := (case waiting of None \<Rightarrow> pw_waiting w | _ \<Rightarrow> waiting)\<rparr>)) (\<lambda>_. done_with True)) ?Q" for r seen waiting
  proof (cases r)
    case (Inl err)
    show ?thesis unfolding Inl sum.case
      by (rule runs_quiet_then, rule hushed_change, simp, rule upholds_done, simp)
  next
    case (Inr x)
    show ?thesis
      unfolding Inr sum.case by (rule runs_quiet_then, rule hushed_change, simp, rule upholds_done, simp)
  qed
  show ?thesis
    unfolding clean_up_def
  proof (rule upholds_then [OF first])
    fix partial
    show "runs (pod_good fresh cs) u (\<lambda>v. \<not> partial \<longrightarrow> (\<forall>out sb. sh_core v \<noteq> Some (''Cleanup'', out, sb)))
      (if \<not> partial then done_with True
       else and_then (look (\<lambda>w. (pw_seen w, pw_waiting w))) (\<lambda>(seen, waiting).
          and_then (stop_pod_within e u None) (\<lambda>r.
          case r of
            Inl _ \<Rightarrow> and_then (change (pod_due e u RECHECK)) (\<lambda>_. done_with False)
          | Inr _ \<Rightarrow>
              and_then (change (\<lambda>w. w\<lparr>pw_seen := (case seen of None \<Rightarrow> pw_seen w | _ \<Rightarrow> seen),
                                     pw_waiting := (case waiting of None \<Rightarrow> pw_waiting w | _ \<Rightarrow> waiting)\<rparr>)) (\<lambda>_.
              done_with True)))) ?Q"
    proof (cases partial)
      case False
      then show ?thesis by (simp, intro upholds_done, simp)
    next
      case True
      have "runs (pod_good fresh cs) u (\<lambda>_. True)
        (and_then (look (\<lambda>w. (pw_seen w, pw_waiting w))) (\<lambda>(seen, waiting).
          and_then (stop_pod_within e u None) (\<lambda>r.
          case r of
            Inl _ \<Rightarrow> and_then (change (pod_due e u RECHECK)) (\<lambda>_. done_with False)
          | Inr _ \<Rightarrow>
              and_then (change (\<lambda>w. w\<lparr>pw_seen := (case seen of None \<Rightarrow> pw_seen w | _ \<Rightarrow> seen),
                                     pw_waiting := (case waiting of None \<Rightarrow> pw_waiting w | _ \<Rightarrow> waiting)\<rparr>)) (\<lambda>_.
              done_with True)))) ?Q"
        apply (rule runs_quiet_then, blast)
        subgoal for sw by (cases sw) (simp only: prod.case, rule upholds_then [OF runs_stop_pod after])
        done
      then show ?thesis using True by simp
    qed
  qed
qed

section \<open>The kubelet\<close>

lemma runs_sync_pod:
  assumes "u = pod_uid pod" "cs = init_specs pod" "distinct (map init_name cs)"
  shows "runs (pod_good fresh cs) u (\<lambda>_. True) (sync_pod e pod) (\<lambda>_ _. True)"
proof -
  have fin: "runs (pod_good fresh cs) u (\<lambda>_. True) (done_with x) (\<lambda>_ _. True)" for x :: 'a by (rule upholds_done) simp
  have del: "runs (pod_good fresh cs) u (\<lambda>_. True) (sync_deleted e pod) (\<lambda>_ _. True)"
    unfolding sync_deleted_def Let_def assms(1) [symmetric]
  proof (rule runs_quiet_then [OF hushed_look], rule upholds_if, rule upholds_done, simp, rule upholds_then [where Q = "\<lambda>_ _. True"])
    show "runs (pod_good fresh cs) u (\<lambda>_. True) (stop_pod_within e u (Some (termination_grace pod))) (\<lambda>_ _. True)"
      by (rule upholds_post [OF runs_stop_pod]) simp
    show "runs (pod_good fresh cs) u (\<lambda>_. True) (case r of Inl _ \<Rightarrow> and_then (change (\<lambda>w. w\<lparr>pw_failed := True\<rparr>)) (\<lambda>_. done_with nothing_said)
        | Inr _ \<Rightarrow> done_with \<lparr>so_updates = [], so_removed = True\<rparr>) (\<lambda>_ _. True)" for r :: "cri_error + unit"
      by (rule runs_any) (auto intro!: hushed_then hushed_change split: sum.split)
  qed
  have stop: "runs (pod_good fresh cs) u (\<lambda>_. True) (with_runtime e (\<lambda>pe m. ((), stop_finished_sandbox pe u m))) (\<lambda>_ _. True)"
  proof (rule runs_with_runtime)
    fix pe w assume w: "pod_good fresh cs (shown_of u w)"
    show "pod_good fresh cs (shown_of u (w\<lparr>pw_m := snd ((), stop_finished_sandbox pe u (pw_m w))\<rparr>))"
    proof (cases "record_of u w")
      case None
      then show ?thesis using w by (simp add: record_of_def stop_finished_none)
    next
      case (Some st)
      then obtain st' where "m_pods (stop_finished_sandbox pe u (pw_m w)) u = Some st'" "core_of st' = core_of st"
        using stop_finished_core [of "pw_m w" u st pe] by (auto simp: record_of_def)
      then have "shown_of u (w\<lparr>pw_m := stop_finished_sandbox pe u (pw_m w)\<rparr>) = shown_of u w"
        using Some by (simp add: shown_of_def record_of_def)
      then show ?thesis using w by simp
    qed
  qed
  let ?Q = "\<lambda>b v. if b then known v else not_started v"
  have look: "runs (pod_good fresh cs) u (\<lambda>v. \<forall>out sb. sh_core v \<noteq> Some (''Cleanup'', out, sb)) (look (record_of u))
      (\<lambda>r. ?Q (case r of Some st \<Rightarrow> ps_phase st \<noteq> ''Starting'' | None \<Rightarrow> False))"
    by (rule upholds_look) (auto simp: shown_of_def core_of_def known_def not_started_def split: option.splits)
  have go: "runs (pod_good fresh cs) u (?Q b) (if b then check_known e pod else start_new e pod) (\<lambda>_ _. True)" for b
    using runs_check_known [OF assms(1)] runs_start_new [OF assms] by (cases b) simp_all
  have rest: "runs (pod_good fresh cs) u (\<lambda>_. True)
      (and_then (clean_up e u) (\<lambda>clean. if \<not> clean then done_with nothing_said
           else and_then (look (record_of u)) (\<lambda>r.
                if (case r of Some st \<Rightarrow> ps_phase st \<noteq> ''Starting'' | None \<Rightarrow> False) then check_known e pod else start_new e pod))) (\<lambda>_ _. True)"
  proof (rule upholds_then [OF runs_clean_up])
    fix clean
    show "runs (pod_good fresh cs) u (\<lambda>v. clean \<longrightarrow> (\<forall>out sb. sh_core v \<noteq> Some (''Cleanup'', out, sb)))
       (if \<not> clean then done_with nothing_said else and_then (look (record_of u)) (\<lambda>r.
                if (case r of Some st \<Rightarrow> ps_phase st \<noteq> ''Starting'' | None \<Rightarrow> False) then check_known e pod else start_new e pod)) (\<lambda>_ _. True)"
      using upholds_then [OF look go] by (cases clean) (simp_all add: upholds_done)
  qed
  show ?thesis
    unfolding sync_pod_def Let_def assms(1) [symmetric]
    by (intro upholds_if rest del upholds_then [OF stop] upholds_done) simp_all
qed

lemma runs_reconcile:
  assumes "\<And>pod. d = Some pod \<Longrightarrow> u = pod_uid pod \<and> cs = init_specs pod" "distinct (map init_name cs)"
  shows "runs (pod_good fresh cs) u (\<lambda>_. True) (reconcile_pod e u d)
     (\<lambda>r v. r = Inr True \<longrightarrow> unboxed v \<and> sh_core v = None)"
proof -
  let ?Q = "\<lambda>r v. r = Inr True \<longrightarrow> unboxed v \<and> sh_core v = None"
  have stop: "runs (pod_good fresh cs) u (\<lambda>_. True) (stop_pod_within e u g)
      (\<lambda>r v. case r of Inl x \<Rightarrow> ?Q (Inl x) v | Inr y \<Rightarrow> unboxed v \<and> sh_core v = None)" for g
    by (rule upholds_post [OF runs_stop_pod]) (auto split: sum.splits)
  show ?thesis
  proof (cases d)
    case None
    show ?thesis
      unfolding reconcile_pod_def None option.case
      by (rule runs_if_ok [OF stop]) (rule upholds_done, simp)
  next
    case (Some pod)
    note a = assms(1) [OF Some]
    have ack: "runs (pod_good fresh cs) u (\<lambda>v. unboxed v \<and> sh_core v = None) (if_ok told (\<lambda>_. done_with (Inr True))) ?Q"
      by (rule runs_quiet_if_ok) (auto intro: upholds_done)
    have sync: "runs (pod_good fresh cs) u (\<lambda>_. True) (and_then (sync_pod e pod) (\<lambda>_. done_with (Inr False))) ?Q"
      by (rule upholds_then [OF runs_sync_pod]) (use a assms(2) in \<open>auto intro: upholds_done\<close>)
    show ?thesis
      unfolding reconcile_pod_def Some option.case
      by (intro upholds_if sync runs_if_ok [OF stop] ack upholds_done) simp_all
  qed
qed

end
