(* ===== verification/PodStartProps.thy ===== *)
theory PodStartProps
  imports PodStartSafety
begin

text \<open>The properties of a pod's start and stop: over any number of passes, however they fail or are cut short,
  and for the sandbox also over restarts of the kubelet; that a pending pod is looked at again; and three
  behaviours that go against what the code's comments say.\<close>

section \<open>A pod's life on the node\<close>

text \<open>What the runtime says of a sandbox to a kubelet that starts (which asks until it is told): namespace and
  name of its pod, its containers, its address.\<close>
type_synonym box_answer = "string \<times> string \<times> (string \<times> string) list \<times> (cri_error + string)"

datatype pod_move =
    Reconciled start_env "json option" "start_outcome list"
  | Restarted crashloop "string \<Rightarrow> box_answer"

definition found_box :: "string \<Rightarrow> (string \<Rightarrow> box_answer) \<Rightarrow> string \<Rightarrow> found_sandbox" where
  "found_box u f b =
     (case f b of (ns, n, cs, ip) \<Rightarrow>
        \<lparr>fs_id = b, fs_uid = u, fs_namespace = ns, fs_name = n, fs_containers = Inr cs, fs_ip = ip\<rparr>)"

definition restart_kubelet :: "string \<Rightarrow> crashloop \<Rightarrow> (string \<Rightarrow> box_answer) \<Rightarrow> pod_world \<Rightarrow> pod_world" where
  "restart_kubelet u bo f w =
     w\<lparr>pw_m := (pw_m w)\<lparr>m_pods := snd (recover_state (map (found_box u f) (pw_boxes w)) (\<lambda>_. None)), m_backoff := bo,
          m_deadlines := deadlines_new, m_last_terminated := (\<lambda>_. None)\<rparr>,
       pw_kept := [], pw_seen := None, pw_network_wait := None, pw_waiting := None, pw_holdoff := None,
       pw_refusals := 0, pw_event_wait := False, pw_failed := False\<rparr>"

definition pod_step :: "string \<Rightarrow> pod_move \<Rightarrow> pod_world \<Rightarrow> pod_world" where
  "pod_step u m w =
     (case m of
        Reconciled e d os \<Rightarrow> fst (snd (reconcile_pod e u d (w, os)))
      | Restarted bo f \<Rightarrow> restart_kubelet u bo f w)"

definition pod_run :: "string \<Rightarrow> pod_move list \<Rightarrow> pod_world \<Rightarrow> pod_world" where
  "pod_run u ms w = fold (pod_step u) ms w"

text \<open>The objects are those of one pod, with the init containers \<open>cs\<close>.\<close>
definition about_pod :: "string \<Rightarrow> json list \<Rightarrow> pod_move \<Rightarrow> bool" where
  "about_pod u cs m =
     (case m of Reconciled e (Some pod) os \<Rightarrow> pod_uid pod = u \<and> init_specs pod = cs | _ \<Rightarrow> True)"

definition is_restart :: "pod_move \<Rightarrow> bool" where
  "is_restart m = (case m of Restarted _ _ \<Rightarrow> True | _ \<Rightarrow> False)"

definition never_seen :: "string \<Rightarrow> pod_world \<Rightarrow> bool" where
  "never_seen u w = (record_of u w = None \<and> pw_boxes w = [] \<and> pw_trace w = [] \<and> \<not> pw_lost w)"

lemma untouched_good: "never_seen u w \<Longrightarrow> pod_good fresh cs (shown_of u w)"
  by (simp add: never_seen_def pod_good_def shown_of_def)

lemma upholds_end: "upholds G P m Q \<Longrightarrow> G w \<Longrightarrow> P w \<Longrightarrow> G (fst (snd (m (w, os))))"
  by (cases "m (w, os)", cases "fst (m (w, os))") (auto dest: upholds_stopped upholds_result)

lemma good_reconciled:
  assumes "about_pod u cs (Reconciled e d os)" "distinct (map init_name cs)" "pod_good fresh cs (shown_of u w)"
  shows "pod_good fresh cs (shown_of u (fst (snd (reconcile_pod e u d (w, os)))))"
  by (rule upholds_end [OF runs_reconcile]) (use assms in \<open>auto simp: about_pod_def\<close>)

lemma found_fields: "fs_id (found_box u f b) = b" "fs_uid (found_box u f b) = u" "\<exists>cs. fs_containers (found_box u f b) = Inr cs"
  by (auto simp: found_box_def split: prod.split)

lemma recover_keeps: "pods v \<noteq> None \<Longrightarrow> snd (recover_state (map (found_box u f) bs) pods) v = pods v"
  by (induction bs arbitrary: pods) (use found_fields in \<open>auto split: sum.split\<close>)

lemma recover_first:
  assumes "u \<noteq> []"
  shows "\<exists>st. snd (recover_state (map (found_box u f) (b # bs)) (\<lambda>_. None)) u = Some st \<and> sandbox_id st = Some b"
proof -
  obtain cs where cs: "fs_containers (found_box u f b) = Inr cs" using found_fields(3) by blast
  let ?st = "adopted (found_box u f b) cs"
  have "snd (recover_state (map (found_box u f) (b # bs)) (\<lambda>_. None)) u = snd (recover_state (map (found_box u f) bs) [u \<mapsto> ?st]) u"
    using assms by (simp add: found_fields cs)
  also have "\<dots> = Some ?st" by (simp add: recover_keeps)
  finally show ?thesis by (simp add: adopted_def new_record_def found_fields)
qed

lemma good_restarted:
  assumes "u \<noteq> []" "pod_good False cs (shown_of u w)"
  shows "pod_good False cs (shown_of u (restart_kubelet u bo f w))"
proof (cases "pw_boxes w")
  case Nil
  then show ?thesis using assms(2) by (simp add: pod_good_def shown_of_def restart_kubelet_def record_of_def)
next
  case (Cons b bs)
  obtain st where st: "snd (recover_state (map (found_box u f) (b # bs)) (\<lambda>_. None)) u = Some st" "sandbox_id st = Some b"
    using recover_first [OF assms(1), of f b bs] by blast
  have same: "x = b" if "\<not> pw_lost w" "x \<in> set (pw_boxes w)" for x
  proof -
    have "\<forall>y \<in> set (pw_boxes w). \<exists>ph out. sh_core (shown_of u w) = Some (ph, out, Some y)"
      using assms(2) that(1) by (simp add: pod_good_def shown_of_def)
    then show ?thesis using that(2) Cons by (metis list.set_intros(1) option.inject prod.inject)
  qed
  have "record_of u (restart_kubelet u bo f w) = Some st" using st(1) by (simp add: restart_kubelet_def record_of_def Cons)
  moreover have "pw_boxes (restart_kubelet u bo f w) = pw_boxes w" "pw_lost (restart_kubelet u bo f w) = pw_lost w"
    "pw_trace (restart_kubelet u bo f w) = pw_trace w" by (simp_all add: restart_kubelet_def)
  ultimately show ?thesis
    using assms(2) same st(2) by (auto simp: pod_good_def shown_of_def core_of_def)
qed

lemma good_run:
  assumes "\<forall>m \<in> set ms. about_pod u cs m \<and> (fresh \<longrightarrow> \<not> is_restart m)" "distinct (map init_name cs)" "fresh \<or> u \<noteq> []"
    "pod_good fresh cs (shown_of u w)"
  shows "pod_good fresh cs (shown_of u (pod_run u ms w))"
  using assms(1,4)
proof (induction ms arbitrary: w)
  case (Cons m ms)
  have "pod_good fresh cs (shown_of u (pod_step u m w))"
  proof (cases m)
    case (Reconciled e d os)
    then show ?thesis using good_reconciled [of u cs e d os fresh w] Cons.prems assms(2) by (simp add: pod_step_def)
  next
    case (Restarted bo f)
    then show ?thesis using good_restarted [of u cs w bo f] Cons.prems assms(3) by (cases fresh) (auto simp: pod_step_def is_restart_def)
  qed
  then show ?case using Cons by (simp add: pod_run_def)
qed (simp add: pod_run_def)

lemma apps_wait_before:
  "\<lbrakk>apps_wait cs (after @ ev # before); ev = Checked_pod \<or> ev = Made n \<and> n \<notin> init_name ` set cs\<rbrakk> \<Longrightarrow> inits_done cs before"
  by (induction after) auto

section \<open>Waiting for an event\<close>

abbreviation silent :: "'a pod_pass \<Rightarrow> bool" where
  "silent m \<equiv> keeps_view pw_event_wait m"

lemma event_wait_simps [simp]:
  "pw_event_wait (log_calls cs w) = pw_event_wait w" "pw_event_wait (with_record u f w) = pw_event_wait w"
  "pw_event_wait (put_record u st w) = pw_event_wait w" "pw_event_wait (set_inits u out w) = pw_event_wait w"
  "pw_event_wait (on_deadlines g w) = pw_event_wait w" "pw_event_wait (pod_due e u d w) = pw_event_wait w"
  "pw_event_wait (happened ev w) = pw_event_wait w" "pw_event_wait (forget e u w) = pw_event_wait w"
  "pw_event_wait (set_waiting k r w) = pw_event_wait w" "pw_event_wait (cleanup_partial_start u w) = pw_event_wait w"
  by (simp_all add: log_calls_def with_record_def put_record_def set_inits_def on_deadlines_def pod_due_def happened_def
      forget_def Let_def set_waiting_def cleanup_partial_start_def split: option.split)

lemma trace_simps [simp]:
  "pw_trace (with_record u f w) = pw_trace w" "pw_trace (set_inits u out w) = pw_trace w" "pw_trace (pod_due e u d w) = pw_trace w"
  "pw_trace (set_waiting k r w) = pw_trace w" "pw_trace (cleanup_partial_start u w) = pw_trace w" "pw_trace (log_calls cs w) = pw_trace w"
  "pw_trace (retry_wait e u d w) = pw_trace w"
  by (simp_all add: with_record_def set_inits_def pod_due_def on_deadlines_def set_waiting_def cleanup_partial_start_def
      log_calls_def retry_wait_def split: option.split)

lemma silent_calls [simp, intro]:
  "silent told" "silent (told_as g)" "silent (start_container c)" "silent (stop_container c gr)" "silent (remove_container c)"
  "silent startup_image" "silent (stop_pod_sandbox b)" "silent (create_container n)" "silent (record_init u out r)"
  by (auto simp: told_def told_as_def start_container_def stop_container_def remove_container_def startup_image_def
      stop_pod_sandbox_def create_container_def record_init_def intro!: hushed_asks hushed_then hushed_change)

lemma silent_looks [simp, intro]: "silent (container_status n c)" "silent (run_pod_sandbox pod)"
  unfolding container_status_def run_pod_sandbox_def Let_def by (rule hushed_asks; simp)+

lemma silent_remove_sandbox [simp, intro]: "silent (remove_pod_sandbox b)"
  by (auto simp: keeps_view_def remove_pod_sandbox_def split: list.split)

lemma silent_sidecar [simp, intro]: "silent (sidecar_step e u spec cid img_ref out)"
proof -
  have "silent (sidecar_exited e u n cid s report out)" for n s report
    unfolding sidecar_exited_def Let_def
    by (rule hushed_then, blast)+ (auto intro!: hushed_then hushed_change split: option.splits)
  moreover have "silent (sidecar_running e u n spec report out)" for n report
    unfolding sidecar_running_def sidecar_probe_def by (auto intro!: hushed_then hushed_change hushed_asks)
  ultimately show ?thesis
    unfolding sidecar_step_def Let_def by (auto intro!: hushed_then hushed_change split: sum.split container_state.split)
qed

lemma silent_init_parts [simp, intro]:
  "silent (init_exited e u spec cid img_ref s out)" "silent (init_overdue pod spec cid img_ref s out)" "silent (init_container e u n existing)"
  by (auto simp: init_exited_def init_overdue_def init_container_def Let_def intro!: hushed_then hushed_change hushed_if_ok split: option.split)

lemma silent_start_sandbox [simp, intro]: "silent (start_sandbox pod)"
  unfolding start_sandbox_def by (auto intro!: hushed_then hushed_if_ok split: option.split)

lemma silent_start_apps [simp, intro]: "silent (start_apps pod specs)"
  by (induction specs) (auto simp: start_app_def failing_as_def Let_def intro!: hushed_then hushed_if_ok hushed_change)

lemma silent_stop_together [simp, intro]: "silent (stop_together g cids)"
  by (induction cids) (auto intro!: hushed_then)

lemma silent_each_ok: "(\<And>x. silent (f x)) \<Longrightarrow> silent (each_ok f xs)"
  by (induction xs) (auto intro!: hushed_if_ok)

lemma silent_stop [simp, intro]: "silent (stop_pod_within e u g)"
  unfolding stop_pod_within_def stop_record_def stop_containers_def stop_sidecar_of_def remove_kept_def teardown_volumes_def Let_def
  by (auto intro!: hushed_then hushed_if_ok hushed_change silent_each_ok hushed_asks split: option.split)

lemma silent_clean_up [simp, intro]: "silent (clean_up e u)"
  unfolding clean_up_def by (auto intro!: hushed_then hushed_change split: sum.split)

text \<open>The kubelet waits for the exit of a container it has just looked at.\<close>
definition exit_awaited :: "start_env \<Rightarrow> pod_world \<Rightarrow> bool" where
  "exit_awaited e w = (sv_admission e \<and> (\<exists>n s tr. pw_trace w = Looked n s # tr \<and> si_state s \<noteq> Exited))"

definition is_pending :: "cri_error \<Rightarrow> bool" where
  "is_pending err = (case err of Pending _ \<Rightarrow> True | _ \<Rightarrow> False)"

definition waits_well :: "start_env \<Rightarrow> cri_error option \<Rightarrow> pod_world \<Rightarrow> bool" where
  "waits_well e stop w = (pw_event_wait w \<longrightarrow> (case stop of Some err \<Rightarrow> is_pending err | None \<Rightarrow> False) \<and> exit_awaited e w)"

abbreviation awaits :: "(pod_world \<Rightarrow> bool) \<Rightarrow> 'a pod_pass \<Rightarrow> ('a \<Rightarrow> pod_world \<Rightarrow> bool) \<Rightarrow> bool" where
  "awaits P m Q \<equiv> upholds (\<lambda>_. True) P m Q"

abbreviation no_wait :: "pod_world \<Rightarrow> bool" where
  "no_wait w \<equiv> \<not> pw_event_wait w"

lemma awaits_silent: "\<lbrakk>silent m; \<And>x w. no_wait w \<Longrightarrow> Q x w\<rbrakk> \<Longrightarrow> awaits no_wait m Q"
  unfolding upholds_def keeps_view_def by (smt (verit) case_prodI2 fst_conv option.case_eq_if snd_conv)

lemma awaits_then: "\<lbrakk>silent m; \<And>x. awaits no_wait (f x) Q\<rbrakk> \<Longrightarrow> awaits no_wait (and_then m f) Q"
  by (rule upholds_then [where Q = "\<lambda>_. no_wait", OF awaits_silent]) auto

lemma awaits_if_ok:
  "\<lbrakk>silent m; \<And>x w. no_wait w \<Longrightarrow> Q (Inl x) w; \<And>x. awaits no_wait (f x) Q\<rbrakk> \<Longrightarrow> awaits no_wait (if_ok m f) Q"
  unfolding if_ok_def by (rule awaits_then) (auto split: sum.split intro: upholds_done)

lemma awaits_wait_init: "awaits no_wait (wait_init e pod spec cid img_ref out) (\<lambda>r. waits_well e (snd r))"
  unfolding wait_init_def
proof (rule upholds_then)
  let ?Q = "\<lambda>r w. no_wait w \<and> (case r of Inr s \<Rightarrow> \<exists>n tr. pw_trace w = Looked n s # tr | Inl _ \<Rightarrow> True)"
  show "awaits no_wait (container_status (init_name spec) cid) ?Q"
    by (simp add: upholds_def container_status_def asks_def Let_def happened_def log_calls_def split: list.split)
  fix r :: "cri_error + container_status_info"
  have hushed: "awaits (?Q r) m (\<lambda>r. waits_well e (snd r))" if "silent m" for m :: "init_end pod_pass"
    by (rule upholds_pre [OF awaits_silent [OF that]]) (simp_all add: waits_well_def)
  show "awaits (?Q r) (case r of Inl err \<Rightarrow> done_with (out, Some err)
     | Inr s \<Rightarrow> if si_state s = Exited then init_exited e (pod_uid pod) spec cid img_ref s out
         else and_then (look (\<lambda>w. active_deadline_left (sv_active_since e) pod (pw_seen w) (now (sv_at e)))) (\<lambda>left.
              if left = Some 0 then init_overdue pod spec cid img_ref s out
              else init_waits e (pod_uid pod) spec left out)) (\<lambda>r. waits_well e (snd r))"
  proof (cases r)
    case (Inr s)
    have look: "awaits (?Q r) (look g) (\<lambda>_. ?Q r)" for g :: "pod_world \<Rightarrow> duration option" by (simp add: upholds_look)
    have waits: "awaits (?Q r) (init_waits e (pod_uid pod) spec left out) (\<lambda>r. waits_well e (snd r))" if "si_state s \<noteq> Exited" for left
      unfolding init_waits_def
      by (rule upholds_then [where Q = "\<lambda>_. waits_well e (Some (Pending []))"], rule upholds_change)
         (use that in \<open>auto simp: Inr waits_well_def is_pending_def exit_awaited_def split: option.split intro: upholds_done\<close>)
    show ?thesis
    proof (cases "si_state s = Exited")
      case True
      then show ?thesis using hushed by (simp add: Inr)
    next
      case False
      have "awaits (?Q r) (and_then (look g) (\<lambda>left. if left = Some 0 then init_overdue pod spec cid img_ref s out
          else init_waits e (pod_uid pod) spec left out)) (\<lambda>r. waits_well e (snd r))" for g
        by (rule upholds_then [OF look], rule upholds_if, rule hushed, blast, rule waits, rule False)
      then show ?thesis using False by (simp add: Inr)
    qed
  next
    case (Inl err)
    then show ?thesis using hushed [of "done_with (out, Some err)"] by simp
  qed
qed

lemma awaits_run_init: "awaits no_wait (run_init e pod spec out) (\<lambda>r. waits_well e (snd r))"
proof -
  have hushed: "awaits no_wait m (\<lambda>r. waits_well e (snd r))" if "silent m" for m :: "init_end pod_pass"
    by (rule awaits_silent [OF that]) (simp add: waits_well_def)
  show ?thesis
    unfolding run_init_def Let_def
    by (auto split: option.split sum.split intro!: awaits_then hushed_change) (rule awaits_wait_init | rule hushed, blast)+
qed

lemma awaits_run_inits: "awaits no_wait (run_init_containers e pod specs out) (\<lambda>r. waits_well e (snd r))"
proof (induction specs arbitrary: out)
  case Nil
  then show ?case by (auto simp: waits_well_def intro: upholds_done)
next
  case (Cons spec specs)
  have "awaits (waits_well e (snd r)) (case r of (out', stop) \<Rightarrow>
      (case stop of Some err \<Rightarrow> done_with (out', Some err) | None \<Rightarrow> run_init_containers e pod specs out')) (\<lambda>r. waits_well e (snd r))" for r
    by (cases r) (auto split: option.split intro: upholds_done upholds_pre [OF Cons] simp: waits_well_def)
  then show ?case using Cons by (auto intro: upholds_then [OF awaits_run_init])
qed

lemma awaits_start_in_sandbox:
  "awaits no_wait (start_in_sandbox e pod b) (\<lambda>r. waits_well e (case r of Inl err \<Rightarrow> Some err | Inr _ \<Rightarrow> None))" (is "awaits _ _ ?Q")
proof -
  have apps: "awaits (waits_well e (snd r)) (case r of (inits, stop) \<Rightarrow>
      (case stop of
         Some err \<Rightarrow> and_then (change (set_inits (pod_uid pod) inits)) (\<lambda>_. done_with (Inl err))
       | None \<Rightarrow> if_ok (start_apps pod (elems (jpath pod [''spec'', ''containers'']))) (\<lambda>rs.
           and_then (change (\<lambda>w. put_record (pod_uid pod) (Some (started_record e pod b ip rs inits (record_of (pod_uid pod) w))) w)) (\<lambda>_.
           done_with (Inr (update_of pod ''Running'' [] rs inits ip)))))) ?Q" for ip and r :: "init_report list \<times> cri_error option"
  proof (cases "snd r")
    case None
    have "awaits no_wait (if_ok (start_apps pod (elems (jpath pod [''spec'', ''containers'']))) (\<lambda>rs.
           and_then (change (\<lambda>w. put_record (pod_uid pod) (Some (started_record e pod b ip rs inits (record_of (pod_uid pod) w))) w)) (\<lambda>_.
           done_with (Inr (update_of pod ''Running'' [] rs inits ip))))) ?Q" for inits
      by (rule awaits_silent) (auto simp: waits_well_def intro!: hushed_if_ok hushed_then hushed_change)
    moreover have "waits_well e None = no_wait" by (simp add: waits_well_def fun_eq_iff)
    ultimately show ?thesis using None by (cases r) simp
  next
    case (Some err)
    have "awaits (waits_well e (Some err)) (and_then (change (set_inits (pod_uid pod) inits)) (\<lambda>_. done_with (Inl err))) ?Q" for inits
      by (rule upholds_then [where Q = "\<lambda>_. waits_well e (Some err)"])
         (auto intro!: upholds_change upholds_done simp: waits_well_def exit_awaited_def)
    then show ?thesis using Some by (cases r) auto
  qed
  show ?thesis
    unfolding start_in_sandbox_def Let_def
    by (rule awaits_if_ok, rule hushed_asks, simp, simp, simp add: waits_well_def, rule awaits_then, blast,
        rule upholds_then [OF awaits_run_inits], rule apps)
qed

lemma awaits_start_pod: "awaits no_wait (start_pod e pod) (\<lambda>r. waits_well e (case r of Inl err \<Rightarrow> Some err | Inr _ \<Rightarrow> None))"
  unfolding start_pod_def
  by (rule awaits_if_ok, simp, simp add: waits_well_def)+ (rule awaits_start_in_sandbox)

section \<open>A pass that leaves the pod pending\<close>

text \<open>A deadline, or the exit of a container that was seen not to have exited.\<close>
definition woken :: "start_env \<Rightarrow> string \<Rightarrow> pod_world \<Rightarrow> bool" where
  "woken e u w = (due (m_deadlines (pw_m w)) u \<noteq> None \<or> exit_awaited e w)"

definition goes_on :: "start_env \<Rightarrow> string \<Rightarrow> pod_status_update list \<Rightarrow> pod_world \<Rightarrow> bool" where
  "goes_on e u upds w = (no_wait w \<and> (upds \<noteq> [] \<and> (\<forall>x \<in> set upds. pu_phase x \<noteq> ''Pending'') \<or> woken e u w))"

lemma due_pod_due [simp]: "due (m_deadlines (pw_m (pod_due e u d w))) u \<noteq> None"
  by (simp add: pod_due_def on_deadlines_def due_in_def due_at_def)

lemma woken_pod_due [simp]: "woken e u (pod_due e' u d w)"
  unfolding woken_def by (simp del: not_None_eq)

lemma woken_hold_off [simp]: "woken e u (hold_off e' u d w)"
  by (simp add: hold_off_def)

lemma woken_set_waiting [simp]: "woken e u (set_waiting k r w) = woken e u w"
  by (simp add: woken_def set_waiting_def exit_awaited_def)

lemma no_wait_retry [simp]: "\<not> pw_event_wait (retry_wait e u d w)"
  by (simp add: retry_wait_def)

lemma woken_retry: "\<lbrakk>waits_well e (Some err) w; is_pending err \<or> no_wait w\<rbrakk> \<Longrightarrow> woken e u (retry_wait e u d w)"
  by (auto simp: retry_wait_def waits_well_def woken_def exit_awaited_def)

lemma no_wait_hold_off [simp]: "pw_event_wait (hold_off e u d w) = pw_event_wait w"
  by (simp add: hold_off_def)

lemma awaits_waiting_pod:
  "awaits (\<lambda>w. no_wait w \<and> woken e u w) (waiting_pod_as pod kind message) (\<lambda>upd. goes_on e u [upd])"
  unfolding waiting_pod_as_def
  by (rule upholds_then [where Q = "\<lambda>_ w. no_wait w \<and> woken e u w"]) (auto intro!: upholds_change upholds_done simp: goes_on_def)

lemma awaits_change_waiting:
  assumes "\<And>w. P w \<Longrightarrow> no_wait (f w) \<and> woken e u (f w)"
  shows "awaits P (and_then (change f) (\<lambda>_. waiting_pod_as pod kind message)) (\<lambda>upd. goes_on e u [upd])"
  by (rule upholds_then [where Q = "\<lambda>_ w. no_wait w \<and> woken e u w"])
     (use assms awaits_waiting_pod in \<open>auto intro!: upholds_change\<close>)

lemma awaits_said_failed:
  "awaits no_wait (and_then (look f) (\<lambda>inits. done_with (update_of pod ''Failed'' m (ss inits) inits ip))) (\<lambda>upd. goes_on e u [upd])"
  by (rule awaits_then) (auto intro!: upholds_done simp: goes_on_def update_of_def)

lemma awaits_start_ended: "awaits no_wait (start_ended e pod waited err) (\<lambda>upd. goes_on e (pod_uid pod) [upd])"
  unfolding start_ended_def Let_def
  by (rule awaits_then, blast, rule upholds_then [where Q = "\<lambda>_. no_wait"], rule upholds_change, simp,
      rule awaits_then, rule hushed_change, simp, rule upholds_done, simp add: goes_on_def update_of_def)

lemma awaits_image_failed: "awaits no_wait (image_failed e pod waited what) (\<lambda>upd. goes_on e (pod_uid pod) [upd])"
  unfolding image_failed_def Let_def
  by (rule awaits_then, rule hushed_change, simp, rule awaits_then, blast, rule awaits_change_waiting) simp

lemma awaits_container_failed: "awaits no_wait (container_failed e pod waited c reason message) (\<lambda>upd. goes_on e (pod_uid pod) [upd])"
  unfolding container_failed_def Let_def
  by (rule awaits_then, rule hushed_change, simp, rule upholds_if, rule awaits_then, rule hushed_change, simp,
      rule awaits_said_failed, rule awaits_change_waiting) simp

lemma awaits_start_failed:
  "awaits (waits_well e (Some err)) (start_failed e pod waited err) (\<lambda>upd. goes_on e (pod_uid pod) [upd])"
proof (cases "is_pending err")
  case True
  then show ?thesis
    by (auto simp: is_pending_def start_failed_def Let_def waiting_pod_def split: cri_error.splits
        intro!: awaits_change_waiting woken_retry)
next
  case False
  then have pre: "waits_well e (Some err) = no_wait" by (simp add: waits_well_def fun_eq_iff)
  have retry: "woken e u (retry_wait e u d w)" if "no_wait w" for u d w
    using that by (simp add: retry_wait_def)
  have "awaits no_wait (start_failed e pod waited err) (\<lambda>upd. goes_on e (pod_uid pod) [upd])"
    using False
    by (cases err)
       (auto simp: is_pending_def start_failed_def Let_def waiting_pod_def retry
          intro!: awaits_start_ended awaits_image_failed awaits_container_failed awaits_change_waiting)
  then show ?thesis by (simp add: pre)
qed

lemma awaits_start_new: "awaits no_wait (start_new e pod) (\<lambda>out. goes_on e (pod_uid pod) (so_updates out))"
proof -
  have held: "awaits no_wait (and_then (change (on_deadlines (due_at (pod_uid pod) x))) (\<lambda>_. done_with nothing_said))
      (\<lambda>out. goes_on e (pod_uid pod) (so_updates out))" for x
    by (rule upholds_then [where Q = "\<lambda>_ w. no_wait w \<and> woken e (pod_uid pod) w"])
       (auto intro!: upholds_change upholds_done simp: goes_on_def woken_def on_deadlines_def due_at_def)
  have refused: "awaits no_wait (done_with (said ((update_of pod ''Failed'' why [] [] None)\<lparr>pu_reason := APPARMOR_REASON\<rparr>)))
      (\<lambda>out. goes_on e (pod_uid pod) (so_updates out))" for why
    by (rule upholds_done) (simp add: goes_on_def update_of_def)
  have ok: "awaits no_wait (and_then (change (start_succeeded e (pod_uid pod))) (\<lambda>_. done_with (said upd))) (\<lambda>out. goes_on e (pod_uid pod) (so_updates out))" for upd
    by (rule upholds_then [where Q = "\<lambda>_ w. no_wait w \<and> woken e (pod_uid pod) w"])
       (auto intro!: upholds_change upholds_done simp: goes_on_def start_succeeded_def)
  have bad: "awaits (waits_well e (Some err)) (and_then (start_failed e pod d err) (\<lambda>upd. done_with (said upd)))
      (\<lambda>out. goes_on e (pod_uid pod) (so_updates out))" for err d
    by (rule upholds_then [OF awaits_start_failed]) (auto intro: upholds_done)
  have "waits_well e None = no_wait" by (simp add: waits_well_def fun_eq_iff)
  then have ended_for_good: "awaits (waits_well e (case r of Inl err \<Rightarrow> Some err | Inr _ \<Rightarrow> None))
      (case r of Inr update \<Rightarrow> and_then (change (start_succeeded e (pod_uid pod))) (\<lambda>_. done_with (said update))
       | Inl err \<Rightarrow> and_then (start_failed e pod d err) (\<lambda>update. done_with (said update))) (\<lambda>out. goes_on e (pod_uid pod) (so_updates out))" for r d
    using ok bad by (cases r) simp_all
  show ?thesis
    unfolding start_new_def Let_def
    by (auto split: option.split intro!: awaits_then [OF hushed_look] held refused awaits_then hushed_change upholds_then [OF awaits_start_pod] ended_for_good)
qed

lemma awaits_check_known:
  "awaits (\<lambda>w. no_wait w) (check_known e pod) (\<lambda>out. goes_on e (pod_uid pod) (so_updates out))"
proof -
  let ?u = "pod_uid pod"
  have run: "awaits no_wait (with_runtime e (\<lambda>pe. check_pod_status pe ?u))
      (\<lambda>r w. no_wait w \<and> (case r of Inr upd \<Rightarrow> pu_phase upd \<noteq> ''Pending'' | Inl _ \<Rightarrow> True))"
    unfolding upholds_def
  proof (intro allI impI)
    fix w os assume w: "no_wait w"
    have phase: "pu_phase upd \<noteq> ''Pending''" if "check_pod_status pe ?u m = (Inr upd, m')" for pe m m' upd
    proof (cases "m_pods m ?u")
      case None
      then show ?thesis using that by (simp add: check_pod_status_def)
    next
      case (Some st)
      obtain upd' where "fst (check_pod_status pe ?u m) = Inr upd'"
        "pu_phase upd' = pod_phase (pod_restart_policy (ps_pod st)) (sidecar_names (ps_pod st)) (reported_state pe st m)"
        using check_pod_status_phase [OF Some, of pe] by blast
      then show ?thesis
        using that pod_phase_cases [of "pod_restart_policy (ps_pod st)" "sidecar_names (ps_pod st)" "reported_state pe st m"] by auto
    qed
    show "case with_runtime e (\<lambda>pe. check_pod_status pe ?u) (w, os) of
        (Some r, w', os') \<Rightarrow> True \<and> no_wait w' \<and> (case r of Inr upd \<Rightarrow> pu_phase upd \<noteq> ''Pending'' | Inl _ \<Rightarrow> True)
      | (None, w', os') \<Rightarrow> True"
      using w by (auto simp: with_runtime_def split: list.split prod.split sum.split dest: phase)
  qed
  have "awaits (\<lambda>w. no_wait w \<and> (case r of Inr upd \<Rightarrow> pu_phase upd \<noteq> ''Pending'' | Inl _ \<Rightarrow> True))
      (case r of Inr update \<Rightarrow> done_with (said update)
       | Inl _ \<Rightarrow> and_then (change (\<lambda>w. pod_due e ?u RECHECK (w\<lparr>pw_failed := True\<rparr>))) (\<lambda>_. done_with nothing_said))
      (\<lambda>out. goes_on e ?u (so_updates out))" for r :: "cri_error + pod_status_update"
    by (cases r)
       (auto simp: goes_on_def intro!: upholds_done upholds_change upholds_then [where Q = "\<lambda>_ w. no_wait w \<and> woken e ?u w"])
  then show ?thesis
    unfolding check_known_def Let_def
    by (intro awaits_then hushed_change upholds_then [OF run]) simp_all
qed

lemma awaits_clean_up: "awaits no_wait (clean_up e u) (\<lambda>clean w. no_wait w \<and> (clean \<or> woken e u w))"
  (is "awaits _ _ ?Q")
proof -
  have redo: "awaits no_wait (and_then (change (pod_due e u RECHECK)) (\<lambda>_. done_with False)) ?Q"
    by (rule upholds_then [where Q = "\<lambda>_ w. no_wait w \<and> woken e u w"]) (auto intro!: upholds_change upholds_done)
  have fine: "awaits no_wait (and_then (change f) (\<lambda>_. done_with True)) ?Q" if "\<And>w. pw_event_wait (f w) = pw_event_wait w" for f
    by (rule awaits_then, rule hushed_change, rule that, rule upholds_done) simp
  have "awaits no_wait (case r of Inl _ \<Rightarrow> and_then (change (pod_due e u RECHECK)) (\<lambda>_. done_with False)
      | Inr _ \<Rightarrow> and_then (change (\<lambda>w. w\<lparr>pw_seen := (case seen of None \<Rightarrow> pw_seen w | _ \<Rightarrow> seen),
          pw_waiting := (case waiting of None \<Rightarrow> pw_waiting w | _ \<Rightarrow> waiting)\<rparr>)) (\<lambda>_. done_with True)) ?Q"
    for r :: "cri_error + unit" and seen waiting
    by (cases r) (simp add: redo, simp add: fine)
  then show ?thesis
    unfolding clean_up_def
    by (intro awaits_then hushed_look upholds_if upholds_done) (auto intro!: awaits_then)
qed

lemma awaits_sync:
  assumes "assigned_here e pod" "\<not> is_deleted pod" "\<not> refused_before pod" "\<not> ended_for_good pod"
  shows "awaits no_wait (sync_pod e pod) (\<lambda>out. goes_on e (pod_uid pod) (so_updates out))"
proof -
  have rest: "awaits no_wait (and_then (look (record_of (pod_uid pod))) (\<lambda>known.
       if (case known of Some st \<Rightarrow> ps_phase st \<noteq> ''Starting'' | None \<Rightarrow> False) then check_known e pod else start_new e pod))
      (\<lambda>out. goes_on e (pod_uid pod) (so_updates out))"
    by (rule awaits_then, blast, rule upholds_if, rule awaits_check_known, rule awaits_start_new)
  have idle: "awaits (\<lambda>w. no_wait w \<and> woken e (pod_uid pod) w) (done_with nothing_said :: sync_outcome pod_pass)
      (\<lambda>out. goes_on e (pod_uid pod) (so_updates out))"
    by (rule upholds_done) (simp add: goes_on_def)
  have either: "awaits (\<lambda>w. no_wait w \<and> (clean \<or> woken e (pod_uid pod) w)) (if \<not> clean then done_with nothing_said
      else and_then (look (record_of (pod_uid pod))) (\<lambda>known.
        if (case known of Some st \<Rightarrow> ps_phase st \<noteq> ''Starting'' | None \<Rightarrow> False) then check_known e pod else start_new e pod))
      (\<lambda>out. goes_on e (pod_uid pod) (so_updates out))" for clean
    using rest idle by (cases clean) simp_all
  show ?thesis
    using upholds_then [OF awaits_clean_up either] assms by (simp add: sync_pod_def Let_def)
qed

section \<open>Properties\<close>

text \<open>C23. A pod that is not running yet is looked at again: a pass over a pod that is to run here, however the
  start ends, either reports a phase other than Pending, or leaves a deadline for the pod, or waits for
  the exit of a container it has just seen not to have exited; and no wait is left over for the next pass.\<close>
theorem pending_pod_is_looked_at_again:
  assumes "assigned_here e pod" "\<not> is_deleted pod" "\<not> refused_before pod" "\<not> ended_for_good pod" "\<not> pw_event_wait w"
    and "sync_pod e pod (w, os) = (Some out, w', os')"
  shows "\<not> pw_event_wait w'
    \<and> (so_updates out \<noteq> [] \<and> (\<forall>x \<in> set (so_updates out). pu_phase x \<noteq> ''Pending'')
       \<or> due (m_deadlines (pw_m w')) (pod_uid pod) \<noteq> None
       \<or> sv_admission e \<and> (\<exists>n s tr. pw_trace w' = Looked n s # tr \<and> si_state s \<noteq> Exited))"
  using upholds_result [OF awaits_sync [OF assms(1-4)] _ _ assms(6)] assms(5)
  by (simp add: goes_on_def woken_def exit_awaited_def)


text \<open>C7. A pod's containers wait for its init containers: however often a start is tried, fails or is cut short
  between two calls, and whatever the runtime answers, a container other than an init container is created, and
  the pod is taken to be running, only after the runtime has said, in the pod's present sandbox, that every
  init container exited with code 0 and that every sidecar runs. (The kubelet is not restarted meanwhile.)\<close>
theorem containers_wait_for_inits:
  assumes "distinct (map init_name cs)" "never_seen u w"
    and "\<forall>m \<in> set ms. about_pod u cs m \<and> \<not> is_restart m"
    and "pw_trace (pod_run u ms w) = after @ ev # before"
    and "ev = Checked_pod \<or> ev = Made n \<and> n \<notin> init_name ` set cs"
  shows "\<forall>c \<in> set cs. if is_restartable_init c then up_in before (init_name c) else done_in before (init_name c)"
proof -
  have "pod_good True cs (shown_of u (pod_run u ms w))"
    using assms(1-3) by (intro good_run untouched_good) auto
  then have "apps_wait cs (after @ ev # before)" using assms(4) by (simp add: pod_good_def shown_of_def)
  then show ?thesis using apps_wait_before [OF _ assms(5)] by (auto simp: inits_done_def spec_done_def)
qed

text \<open>C8. A pod whose deletion is acknowledged has left the node: whatever calls failed before, and however
  often the kubelet was restarted, the runtime has no sandbox of it, the kubelet no record, and its volumes were
  only ever taken down when no sandbox was left. (As long as no sandbox was made without the kubelet being told.)\<close>
theorem deleted_pod_is_gone:
  assumes "distinct (map init_name cs)" "u \<noteq> []" "never_seen u w0"
    and "\<forall>m \<in> set ms. about_pod u cs m" "w = pod_run u ms w0"
    and "about_pod u cs (Reconciled e d os)" "reconcile_pod e u d (w, os) = (Some (Inr True), w', os')" "\<not> pw_lost w'"
  shows "pw_boxes w' = [] \<and> record_of u w' = None \<and> (\<forall>bs. Unpublished bs \<in> set (pw_trace w') \<longrightarrow> bs = [])"
proof -
  have good: "pod_good False cs (shown_of u w)"
    unfolding assms(5) using assms(1-4) by (intro good_run untouched_good) auto
  have "pod_good False cs (shown_of u w') \<and> (Inr True = (Inr True :: cri_error + bool) \<longrightarrow> unboxed (shown_of u w') \<and> sh_core (shown_of u w') = None)"
    by (rule upholds_result [OF runs_reconcile _ _ assms(7)]) (use assms(1,6) good in \<open>auto simp: about_pod_def\<close>)
  then show ?thesis using assms(8) by (auto simp: pod_good_def unboxed_def shown_of_def)
qed

section \<open>A pod with an init container\<close>

definition ex_init :: json where
  "ex_init = JObj [(''image'', JStr ''img''), (''name'', JStr ''i'')]"

definition ex_init_pod :: "string \<Rightarrow> string \<Rightarrow> json" where
  "ex_init_pod policy phase = JObj [(''metadata'', JObj [(''name'', JStr ''p''), (''uid'', JStr ''u'')]),
     (''spec'', JObj [(''containers'', JArr [JObj [(''image'', JStr ''img''), (''name'', JStr ''a'')]]),
        (''initContainers'', JArr [ex_init]), (''nodeName'', JStr ''n''), (''restartPolicy'', JStr policy)]),
     (''status'', JObj [(''phase'', JStr phase)])]"

definition ex_said :: "container_state \<Rightarrow> int \<Rightarrow> container_status_info" where
  "ex_said cs code = \<lparr>si_state = cs, si_started_at = 1, si_finished_at = 2, si_exit_code = code,
     si_image = ''img'', si_image_ref = ''img@1'', si_reason = [], si_message = []\<rparr>"

text \<open>Every call is answered, and a container that is asked about is in state \<open>s\<close>.\<close>
definition ex_answer :: "container_status_info \<Rightarrow> start_outcome" where
  "ex_answer s = \<lparr>oc_does = True, oc_ok = True, oc_error = [], po_error = Timeout, po_status = s, po_probe = ProbeSuccess,
     po_ip = ''10.0.0.1'', po_runtime = \<lparr>rt_status = \<lambda>_. Inr s, rt_probe = \<lambda>_ _. ProbeSuccess, rt_volumes = None,
       rt_token_mount = None, rt_ensure_image = Inr, rt_create = \<lambda>n k. Inr (n @ ''-new''), rt_start = \<lambda>_. None,
       rt_stop = \<lambda>_. None, rt_stop_sandbox = \<lambda>_. None\<rparr>\<rparr>"

definition ex_senv :: start_env where
  "ex_senv = \<lparr>sv_node = ''n'', sv_at = \<lparr>now = 0, now_wall = 0\<rparr>, sv_save_ok = True, sv_admission = False, sv_logs_survive = True,
     sv_active_since = \<lambda>_. None\<rparr>"

definition ex_world :: pod_world where
  "ex_world = \<lparr>pw_m = \<lparr>m_pods = \<lambda>_. None, m_backoff = crashloop_new, m_deadlines = deadlines_new, m_last_terminated = \<lambda>_. None,
       m_calls = []\<rparr>, pw_kept = [], pw_seen = None, pw_network_wait = None, pw_waiting = None, pw_holdoff = None,
     pw_refusals = 0, pw_event_wait = False, pw_failed = False, pw_boxes = [], pw_made = 0, pw_lost = False, pw_trace = []\<rparr>"

text \<open>A pass over the pod, every call answered.\<close>
definition ex_move :: "string \<Rightarrow> string \<Rightarrow> container_status_info \<Rightarrow> pod_move" where
  "ex_move policy phase s = Reconciled ex_senv (Some (ex_init_pod policy phase)) (replicate 20 (ex_answer s))"

lemma ex_about: "about_pod ''u'' [ex_init] (ex_move policy phase s)" "\<not> is_restart (ex_move policy phase s)"
  by (simp_all add: about_pod_def is_restart_def ex_move_def ex_init_pod_def pod_uid_def init_specs_def json_simps)

lemma ex_untouched: "never_seen ''u'' ex_world"
  by (simp add: never_seen_def ex_world_def record_of_def)

definition runs_here :: "start_env \<Rightarrow> json \<Rightarrow> bool" where
  "runs_here e pod = (assigned_here e pod \<and> \<not> is_deleted pod \<and> \<not> refused_before pod \<and> \<not> ended_for_good pod \<and> jget pod ''spec'' \<noteq> JNull)"

lemma sync_new:
  assumes "runs_here e pod" "record_of (pod_uid pod) w = None"
  shows "sync_pod e pod (w, os) = start_new e pod (w, os)"
  using assms by (simp add: runs_here_def sync_pod_def clean_up_def and_then_def look_def done_with_def Let_def)


lemma reconcile_sync: "runs_here e pod \<Longrightarrow> fst (snd (reconcile_pod e u (Some pod) (w, os))) = fst (snd (sync_pod e pod (w, os)))"
  by (simp add: runs_here_def reconcile_pod_def and_then_def done_with_def split: prod.split option.split)

lemma ex_runs_here: "runs_here ex_senv (ex_init_pod policy ''Pending'')"
  by (simp add: runs_here_def assigned_here_def is_deleted_def refused_before_def ended_for_good_def ex_init_pod_def ex_senv_def json_simps)

lemma ex_sync: "sync_pod ex_senv (ex_init_pod policy ''Pending'') (ex_world, os) = start_new ex_senv (ex_init_pod policy ''Pending'') (ex_world, os)"
  by (rule sync_new [OF ex_runs_here]) (simp add: record_of_def ex_world_def)

definition ex_started :: "string \<Rightarrow> container_status_info \<Rightarrow> pod_world" where
  "ex_started policy s = fst (snd (start_new ex_senv (ex_init_pod policy ''Pending'') (ex_world, replicate 20 (ex_answer s))))"

lemma ex_run: "pod_run ''u'' [ex_move policy ''Pending'' s] ex_world = ex_started policy s"
  by (simp add: pod_run_def pod_step_def ex_move_def reconcile_sync [OF ex_runs_here] ex_sync ex_started_def)

lemma containers_wait_for_inits_witness:
  "pw_trace (pod_run ''u'' [ex_move ''Always'' ''Pending'' (ex_said Exited 0)] ex_world)
     = [] @ Made ''a'' # [Looked ''i'' (ex_said Exited 0), Made ''i'', Ran_box]
   \<and> done_in [Looked ''i'' (ex_said Exited 0), Made ''i'', Ran_box] ''i''"
proof -
  have tr: "pw_trace (pod_run ''u'' [ex_move ''Always'' ''Pending'' (ex_said Exited 0)] ex_world)
     = [] @ Made ''a'' # [Looked ''i'' (ex_said Exited 0), Made ''i'', Ran_box]" unfolding ex_run by code_simp
  have "is_restartable_init ex_init = False" "init_name ex_init = ''i''" by code_simp+
  then show ?thesis
    using containers_wait_for_inits [OF _ ex_untouched _ tr, of "[ex_init]" "''a''"] ex_about tr by simp
qed

text \<open>Whether a stop of the pod is done with these answers.\<close>
definition stops :: "string \<Rightarrow> pod_world \<Rightarrow> start_outcome list \<Rightarrow> bool" where
  "stops u w os =
     (case record_of u w of
        None \<Rightarrow> False
      | Some st \<Rightarrow>
          (case stop_record u st (termination_grace (ps_pod st)) (w, os) of
             (r, s) \<Rightarrow> r = Some (Inr ()) \<and> (case teardown_volumes s of (r', w', _) \<Rightarrow> r' = Some (Inr ()) \<and> \<not> pw_lost w')))"

lemma reconcile_gone:
  assumes "stops u w os"
  shows "\<exists>w' os'. reconcile_pod e u None (w, os) = (Some (Inr True), w', os') \<and> \<not> pw_lost w'"
proof -
  from assms obtain st s w2 os2 where st: "record_of u w = Some st"
    and s: "stop_record u st (termination_grace (ps_pod st)) (w, os) = (Some (Inr ()), s)"
    and t: "teardown_volumes s = (Some (Inr ()), w2, os2)" "\<not> pw_lost w2"
    by (auto simp: stops_def split: option.split_asm prod.split_asm)
  have "reconcile_pod e u None (w, os) = (Some (Inr True), forget e u w2, os2)"
    by (simp add: reconcile_pod_def stop_pod_within_def if_ok_def and_then_def look_def done_with_def change_def st s t(1))
  then show ?thesis using t(2) by (simp add: forget_def Let_def)
qed

lemma deleted_pod_is_gone_witness:
  "\<exists>w' os'. reconcile_pod ex_senv ''u'' None (ex_started ''Always'' (ex_said Exited 0), replicate 8 (ex_answer (ex_said Exited 0)))
       = (Some (Inr True), w', os')
     \<and> pw_boxes (ex_started ''Always'' (ex_said Exited 0)) = [''s1''] \<and> pw_boxes w' = [] \<and> record_of ''u'' w' = None"
proof -
  have boxes: "pw_boxes (ex_started ''Always'' (ex_said Exited 0)) = [''s1'']" by code_simp
  have "stops ''u'' (ex_started ''Always'' (ex_said Exited 0)) (replicate 8 (ex_answer (ex_said Exited 0)))" by code_simp
  from reconcile_gone [OF this, of ex_senv] obtain w' os' where
    r: "reconcile_pod ex_senv ''u'' None (ex_started ''Always'' (ex_said Exited 0), replicate 8 (ex_answer (ex_said Exited 0)))
       = (Some (Inr True), w', os')" "\<not> pw_lost w'" by blast
  show ?thesis
    using deleted_pod_is_gone [OF _ _ ex_untouched _ _ _ r, of "[ex_init]" "[ex_move ''Always'' ''Pending'' (ex_said Exited 0)]"]
      ex_about ex_run boxes r(1) by (simp add: about_pod_def)
qed

lemma pending_pod_is_looked_at_again_witness:
  "\<exists>out w' os'. sync_pod ex_senv (ex_init_pod ''Always'' ''Pending'') (ex_world, replicate 20 (ex_answer (ex_said Running 0))) = (Some out, w', os')
     \<and> map pu_phase (so_updates out) = [''Pending''] \<and> due (m_deadlines (pw_m w')) ''u'' \<noteq> None"
proof -
  let ?r = "start_new ex_senv (ex_init_pod ''Always'' ''Pending'') (ex_world, replicate 20 (ex_answer (ex_said Running 0)))"
  have "(case fst ?r of Some out \<Rightarrow> map pu_phase (so_updates out) = [''Pending''] | None \<Rightarrow> False)" by code_simp
  then obtain out w' os' where r: "?r = (Some out, w', os')" "map pu_phase (so_updates out) = [''Pending'']"
    by (cases ?r) (auto split: option.splits)
  have pod: "pod_uid (ex_init_pod ''Always'' ''Pending'') = ''u''" "\<not> sv_admission ex_senv" "\<not> pw_event_wait ex_world" by code_simp+
  have here: "assigned_here ex_senv (ex_init_pod ''Always'' ''Pending'')" "\<not> is_deleted (ex_init_pod ''Always'' ''Pending'')"
    "\<not> refused_before (ex_init_pod ''Always'' ''Pending'')" "\<not> ended_for_good (ex_init_pod ''Always'' ''Pending'')"
    using ex_runs_here by (simp_all add: runs_here_def)
  show ?thesis
    using pending_pod_is_looked_at_again [OF here pod(3), of "replicate 20 (ex_answer (ex_said Running 0))" out w' os'] pod r
    by (auto simp: ex_sync)
qed




text \<open>As a start leaves it whose init container runs, and as it is adopted then.\<close>
definition ex_half :: pod_world where
  "ex_half = ex_world\<lparr>pw_boxes := [''s1''], pw_trace := [Looked ''i'' (ex_said Running 0), Made ''i'', Ran_box]\<rparr>"




lemma ex_half_started:
  "pw_boxes (ex_started ''Always'' (ex_said Running 0)) = pw_boxes ex_half"
  "pw_trace (ex_started ''Always'' (ex_said Running 0)) = pw_trace ex_half"
  by code_simp+




lemma ended_with:
  assumes "upholds (\<lambda>_. True) (\<lambda>_. True) m Q" "m (w, os) = (Some x, w', os')"
  shows "Q x w'"
  using upholds_result [OF assms(1) _ _ assms(2)] by simp

lemma start_ended_failed: "upholds (\<lambda>_. True) (\<lambda>_. True) (start_ended e pod d err) (\<lambda>upd _. pu_phase upd = ''Failed'')"
  unfolding start_ended_def Let_def
  by (rule upholds_then [where Q = "\<lambda>_ _. True"], rule upholds_look, simp)
     (rule upholds_then [where Q = "\<lambda>_ _. True"], rule upholds_change, simp,
      rule upholds_then [where Q = "\<lambda>_ _. True"], rule upholds_change, simp, rule upholds_done, simp add: update_of_def)

text \<open>C38. A start that ends in any error that is not a wait (an init container that exited with another code than 0, a
  call that timed out, something not found) makes the pod Failed, whatever its restart policy; and a pod
  whose object says Failed and whose policy is not Always is never started again, OnFailure included: a
  pass over it makes no sandbox, asks for no container and reports nothing.\<close>
theorem failed_start_is_not_retried:
  assumes "err \<in> {Runtime why, NotFound why, Timeout, Migration why}" "start_failed e pod d err (w, os) = (Some upd, w', os')"
    and "str_or ''Pending'' (jpath pod' [''status'', ''phase'']) = pu_phase upd" "pod_restart_policy pod' \<noteq> ''Always''"
    and "\<not> is_deleted pod'" "sync_pod e' pod' (v, os1) = (Some out, v', os2)"
  shows "pu_phase upd = ''Failed'' \<and> so_updates out = [] \<and> \<not> so_removed out
    \<and> pw_trace v' = pw_trace v \<and> pw_boxes v' = pw_boxes v"
proof -
  have "start_failed e pod d err = start_ended e pod d err" using assms(1) by (auto simp: start_failed_def Let_def)
  then have failed: "pu_phase upd = ''Failed''" using ended_with [OF start_ended_failed] assms(2) by metis
  then have "ended_for_good pod'" using assms(3,4) by (simp add: ended_for_good_def)
  then show ?thesis
    using assms(5,6) failed
    by (auto simp: sync_pod_def Let_def done_with_def and_then_def with_runtime_def split: if_splits list.splits prod.splits)
qed

lemma failed_start_is_not_retried_witness:
  "\<exists>upd w' os'. start_failed ex_senv (ex_init_pod ''OnFailure'' ''Pending'') 0 (Runtime ''init container i exited with code 1'') (ex_world, [])
       = (Some upd, w', os') \<and> pu_phase upd = ''Failed''
     \<and> sync_pod ex_senv (ex_init_pod ''OnFailure'' ''Failed'') (ex_world, [ex_answer (ex_said Exited 1)]) = (Some nothing_said, ex_world, [])"
proof -
  let ?r = "start_failed ex_senv (ex_init_pod ''OnFailure'' ''Pending'') 0 (Runtime ''init container i exited with code 1'') (ex_world, [])"
  have "(case fst ?r of Some upd \<Rightarrow> pu_phase upd = ''Failed'' | None \<Rightarrow> False)" by code_simp
  then obtain upd w' os' where r: "?r = (Some upd, w', os')" "pu_phase upd = ''Failed''"
    by (cases ?r) (auto split: option.splits)
  have pod: "str_or ''Pending'' (jpath (ex_init_pod ''OnFailure'' ''Failed'') [''status'', ''phase'']) = ''Failed''"
    "pod_restart_policy (ex_init_pod ''OnFailure'' ''Failed'') = ''OnFailure''" "\<not> is_deleted (ex_init_pod ''OnFailure'' ''Failed'')"
    "assigned_here ex_senv (ex_init_pod ''OnFailure'' ''Failed'')" "\<not> refused_before (ex_init_pod ''OnFailure'' ''Failed'')"
    "ended_for_good (ex_init_pod ''OnFailure'' ''Failed'')"
    by code_simp+
  have idle: "stop_finished_sandbox pe u (pw_m ex_world) = pw_m ex_world" for pe u
    by (simp add: stop_finished_sandbox_def ex_world_def)
  have s: "sync_pod ex_senv (ex_init_pod ''OnFailure'' ''Failed'') (ex_world, [ex_answer (ex_said Exited 1)]) = (Some nothing_said, ex_world, [])"
    using pod by (simp add: sync_pod_def Let_def and_then_def with_runtime_def done_with_def idle)
  show ?thesis
    using failed_start_is_not_retried [OF _ r(1) _ _ pod(3) s] pod r s by simp
qed

end
