(* ===== verification/Spec2Isabelle.thy ===== *)
theory Spec2Isabelle
  imports Prelude Json Retry Workload Reservations Executor Ipam Crashloop Deadlines PodState PodStatus
    PodPass PodProps Storage Spdy Ring ServiceMap Iptables ChainNames NatPaths Conntrack Proxy ProxyClient Netpol RestoreInput RootsProps DiskProps MigrationJson MigrationProps SnapshotProps PodStartProps
begin

text \<open>
  The node agent of RustKube and the theories that model it. A node runs three programs: the kubelet
  (\<open>src/cmd/kubelet\<close>, \<open>src/pkg/kubelet\<close>), which keeps the node's pods and virtual machines as the API
  server's objects say; the CNI plugin (\<open>src/pkg/cni\<close>), which gives a pod its address; and kube-proxy
  (\<open>src/cmd/kube-proxy\<close>, \<open>src/pkg/proxy\<close>), which turns Services and their endpoints into NAT rules.
  Every outgoing call of the three goes through the helper in \<open>src/pkg/retry\<close>.

  How the parts meet. A change of an object is given a workload key and, with everything that
  depends on it, queued (\<open>workload.rs\<close>: the volume index and the executor); a pass over one object
  first reserves what it touches (\<open>workload.rs\<close>: the admission table). A pass over a pod asks the
  runtime about each container, asks the probes, restarts what has to be (\<open>pod_manager.rs\<close>, with
  the back-off of \<open>crashloop.rs\<close>) and is woken again when the earliest deadline is over
  (\<open>deadlines.rs\<close>). The engine behind the runtime is spoken to over a ring of shared memory
  (\<open>stormpump_ring.rs\<close>); a client of the kubelet's port-forward over SPDY (\<open>spdy.rs\<close>). A claim on the
  node's own storage is read by \<open>storage.rs\<close>. A pass over a virtual machine (\<open>vm_manager.rs\<close>) carries
  its live migration (\<open>vm_migration.rs\<close>) and the moves of its disks (\<open>vm_disk_move.rs\<close>), which talk
  to a storage service and to the kubelet of the other node through the object.
\<close>

section \<open>The theories and the code\<close>

text \<open>
  Shared. \<open>Prelude\<close>: byte strings and the parts of Rust's library the code calls (prefixes, splits,
  printed and parsed integers, saturating arithmetic), and the locale \<open>inv_system\<close>: a step function,
  its start and an invariant, with reachability and preservation proved once. \<open>Json\<close>: \<open>serde_json\<close>
  values with the accessors the code uses. \<open>Calls\<close>: computations that make fallible calls, and a
  logic for what holds after each of them.

  Retry and workloads. \<open>Retry\<close> is \<open>src/pkg/retry/src/lib.rs\<close>; \<open>Workload\<close>, \<open>Reservations\<close> and \<open>Executor\<close>
  are the identities and volume index, the admission table and the executor of
  \<open>src/pkg/kubelet/src/workload.rs\<close>.

  Pods. \<open>Crashloop\<close> is \<open>crashloop.rs\<close>, \<open>Deadlines\<close> is \<open>pod_manager/deadlines.rs\<close>, \<open>PodState\<close> the records of
  \<open>pod_manager.rs\<close> and \<open>cri.rs\<close>, \<open>PodStatus\<close> the pass \<open>check_pod_status\<close> with all its branches and the
  restart; \<open>PodPass\<close> and \<open>PodProps\<close> say what the pass guarantees. \<open>PodStart\<close> is the pass of
  \<open>sync_pods_observed\<close> over one pod, with \<open>start_pod\<close>, \<open>run_init_containers\<close>, \<open>stop_pod_within\<close> and \<open>recover_state\<close>, as
  \<open>kubelet.rs\<close> calls it; \<open>PodStartSafety\<close> holds its invariant and \<open>PodStartProps\<close> its properties. \<open>Storage\<close> is \<open>storage.rs\<close>.
  \<open>ContainerRoots\<close> is \<open>container_roots.rs\<close>, the copies of an image that containers run on, with its
  invariant in \<open>RootsSafety\<close> and its properties in \<open>RootsProps\<close>.

  Networking. \<open>Ipam\<close> is the allocator of \<open>src/pkg/cni/src/ipam.rs\<close> over both of its stores, with the
  ADD and DEL of \<open>bridge.rs\<close> around it. \<open>ServiceMap\<close>, \<open>Iptables\<close>, \<open>Conntrack\<close>, \<open>Proxy\<close>, \<open>ProxyClient\<close> and
  \<open>Netpol\<close> are the files of \<open>src/pkg/proxy/src\<close> of those names; \<open>NatPaths\<close> is the kernel's side, what a
  packet meets in the chains, \<open>ChainNames\<close> the names of the chains, and \<open>RestoreInput\<close> says that the text given
  to \<open>iptables-restore\<close> is one it reads.

  Streams. \<open>Ring\<close> is the thread of \<open>stormpump_ring.rs\<close>, \<open>Spdy\<close> the session of \<open>spdy.rs\<close>.

  Virtual machines. \<open>DiskMove\<close> is \<open>vm_disk_move.rs\<close>, \<open>DiskSwitch\<close> the functions of \<open>vm_manager.rs\<close> that
  carry a move out (\<open>move_disks\<close> to \<open>retire_disk_source\<close>); \<open>DiskSafety\<close>, \<open>DiskPasses\<close> and \<open>DiskProps\<close> hold the
  invariant, its preservation and the properties. \<open>Migration\<close> is \<open>vm_migration.rs\<close>, \<open>MigrationPass\<close> the
  functions of \<open>vm_manager.rs\<close> that carry a migration (\<open>migrate_out\<close>, \<open>migrate_in\<close> and what they call,
  within \<open>reconcile_one\<close>); \<open>MigrationSafety\<close>, \<open>MigrationKeeps\<close>, \<open>MigrationProps\<close> and \<open>MigrationJson\<close> hold the
  invariant, its preservation, the properties, and the patches read back. \<open>Snapshots\<close> is \<open>vm_snapshot.rs\<close>
  for one object seen by any number of nodes, and \<open>SnapshotProps\<close> its properties.
\<close>

section \<open>How the code is rendered\<close>

text \<open>
  A definition has the name of the function, method or type it models, with a prefix where two
  would have one name. A struct is a record, an enum a datatype with the source's constructors, a
  function that may fail returns an option or a sum, and a method that changes its object returns
  the object it leaves. Strings are lists of bytes, so lengths and orders are Rust's; white space
  and case folding are the ASCII ones. Integers that can overflow where the code relies on it are
  words of their width (ports, addresses, the hash of a chain's name) or
  naturals with the saturation written out; the others are naturals or integers.

  A \<open>HashMap\<close>, \<open>DashMap\<close> or \<open>HashSet\<close> is an association list or a set: where the code iterates over
  one, the list's order stands for the map's, and the theorems hold for all of them. A \<open>BTreeMap\<close> is
  an ordered association list.

  What is not in the repository is an argument: the API server, the container runtime, the
  engine, the storage service, the hypervisor, the kernel's firewall and file system, the inflater
  of SPDY headers, random words and the clock. The clock is read once for an operation or a pass.
  A call whose answer matters and may be lost is given as an outcome (whether it took effect, and
  whether the answer came), so that a refused call, an answered one and one that took effect with
  no answer are all there. In the theories of a pod's start and of virtual machines a pass uses a list of outcomes, one
  for each call, and a list that is too short is a kubelet that stopped at that point; its
  restart loses what it had in memory. Log lines and events are left out, and so are the texts of
  messages where nothing reads them again.

  Loops over lists are structural recursion. The retry loops recurse on the attempts that are left
  and so end, and the reader of a SPDY session on the bytes that are left, which every frame
  shortens. The walk of a packet through NAT chains is bounded by a depth of jumps: a packet to a
  cluster IP goes from the services' chain to the Service's, to the endpoint's and to the mark, which
  is three jumps, and one to a node port first to the node ports' chain, which is four; the theorems
  say that this depth, and any greater one, gives the verdict. A receiver's listener is tried fifty
  times, as in the code.
\<close>

section \<open>What is proved\<close>

text \<open>
  Workloads: a claim held exclusively is held by nobody else, an acquisition takes all or nothing,
  the answer names who is in the way, and whoever waits is woken by a release; replacing a source's
  objects queues exactly those that changed. Retries stay within attempts and budget, are not made
  blindly for a POST, and end in success when the call does in time.

  Pods: a container that ended for good is never run again and its pod's phase says so; one that
  must be looked at again has a deadline; an exit leads to the restart the policy asks for; the
  delays of a crash loop double up to the cap. A pod's containers wait for its init containers, over any
  passes that fail or stop anywhere; a pod whose deletion is acknowledged has no sandbox left; a pod that is still
  pending is looked at again. Two theorems state what goes wrong: a half started pod is adopted as a running
  one, and a start that failed is never tried again under OnFailure. Storage: a quantity is read exactly, rounded up to a byte.
  Container roots: each is a clone of its own, of a golden that is sealed; one that could not be
  made leaves nothing behind where the engine allows it, and the sweep deletes what no container holds
  and nothing else.

  Networking: addresses are handed out lowest first and never twice, and what the files say is
  what the allocator would say, for both ADD and DEL. Each packet to a Service's cluster IP or node
  port is delivered to one of its ready endpoints, each with the same share of packets; the rules
  depend on the lists and not on their history, a node follows them, and a UDP flow to an endpoint that
  went away is deleted. The hash in a chain's name is kept whole, and the rules' text declares every chain
  it uses.

  Streams: every request to the engine is answered, payloads in flight do not overlap, a start that
  succeeds too late is undone, an exit reaches whoever waits; every stream of a session is answered
  and written data arrives in order.

  Virtual machines: the volume a guest is on is never deleted, never let go and never one that missed
  a write, whatever fails; a copy in sync is switched to, and a guest that moved gets its disks in
  three passes; a migrated guest runs on one node at most; a snapshot is taken by one node, and its content
  goes with it as long as no take is cut short. The remaining theorems of this part state
  what goes wrong: a guest left paused, a guest lost between its arrival and the write that says
  so, a receiver left over from an earlier migration, a group that nothing names.

  The locales: \<open>inv_system\<close> is interpreted on the admission table, the executor's pool, the back-off,
  the SPDY session, the ring's thread, kube-proxy's pass and the disk moves; \<open>bounded_starts\<close> on both
  retry loops; \<open>mirroring_store\<close> on the allocator's directory.
\<close>

section \<open>Not modelled\<close>

text \<open>
  Left out because they are the outside world or orchestrate what is modelled: the HTTP servers and
  their handlers, the watch loops, the clients of the runtime, of the engine and of CSI drivers, the
  node's status, statistics, logs and metrics, process execution, netlink, eBPF and VXLAN set-up,
  the commands' \<open>main\<close>. Left out for their size, with no part of the model resting on them: what a
  container is created with and how images and volumes are prepared (mounts, environment, pulls), the start of a virtual machine,
  its restore and hot-plug, system claims, mirror pods, the placement and
  ownership of volumes. Of the modelled files the following stay out: in \<open>stormpump_ring.rs\<close> the client
  methods that build entries and the hand-over of descriptors; in \<open>bridge.rs\<close> the plan of the bridge and
  its netlink calls; in \<open>storage.rs\<close> the overhead of a scheme, a float used in capacity reports; in
  \<open>proxy.rs\<close> the timer; in \<open>vm_snapshot.rs\<close> the hypervisor's take, disks on other drivers' claims and the state
  volume of a memory snapshot. In the theories of virtual machines a pass is handed the object as it is
  then, never an older one (a snapshot's visit is handed the one that was listed), a merge patch does what RFC 7386 says, and a launch and a stop of a machine are one
  call each, which may fail.
\<close>

end
